(* ===== verification/Prelude.thy ===== *)
theory Prelude
  imports Main "HOL-Library.AList"
begin

text \<open>
  Shared vocabulary of the development: the result type of the fallible operations
  (\<open>Inl\<close> an error, \<open>Inr\<close> a value), its bind, the fold of a fallible step over an event
  list, the JavaScript array and map operations the code uses (\<open>splice\<close>, \<open>indexOf\<close>,
  \<open>Map.set\<close>), the lemma collections the component theories extend, and the contract that
  every event-sourced projection of the program fulfils.
\<close>

named_theorems result_simps \<open>unfolding of the result monad\<close>
named_theorems fold_simps \<open>facts about folds of a fallible step\<close>
named_theorems js_simps \<open>unfolding of the JavaScript list and map operations\<close>

section \<open>Results\<close>

type_synonym ('e, 'a) result = "'e + 'a"

definition rbind :: "('e, 'a) result \<Rightarrow> ('a \<Rightarrow> ('e, 'b) result) \<Rightarrow> ('e, 'b) result" where
  "rbind m f = (case m of Inl e \<Rightarrow> Inl e | Inr a \<Rightarrow> f a)"

definition rmap :: "('a \<Rightarrow> 'b) \<Rightarrow> ('e, 'a) result \<Rightarrow> ('e, 'b) result" where
  "rmap f m = (case m of Inl e \<Rightarrow> Inl e | Inr a \<Rightarrow> Inr (f a))"

definition ensure :: "bool \<Rightarrow> 'e \<Rightarrow> ('e, unit) result" where
  "ensure c e = (if c then Inr () else Inl e)"

definition is_ok :: "('e, 'a) result \<Rightarrow> bool" where
  "is_ok m = (case m of Inl _ \<Rightarrow> False | Inr _ \<Rightarrow> True)"

lemma rbind_simps [simp, result_simps]:
  "rbind (Inl e) f = Inl e"
  "rbind (Inr a) f = f a"
  by (simp_all add: rbind_def)

lemma rmap_simps [simp, result_simps]:
  "rmap f (Inl e) = Inl e"
  "rmap f (Inr a) = Inr (f a)"
  by (simp_all add: rmap_def)

lemma is_ok_simps [simp, result_simps]:
  "is_ok (Inr a)"
  "\<not> is_ok (Inl e)"
  by (simp_all add: is_ok_def)

definition map_error :: "('e \<Rightarrow> 'f) \<Rightarrow> ('e, 'a) result \<Rightarrow> ('f, 'a) result" where
  "map_error f m = (case m of Inl e \<Rightarrow> Inl (f e) | Inr a \<Rightarrow> Inr a)"

lemma map_error_simps [simp, result_simps]:
  "map_error f (Inl e) = Inl (f e)"
  "map_error f (Inr a) = Inr a"
  by (simp_all add: map_error_def)

lemma map_error_eq_Inr [simp]: "map_error f m = Inr b \<longleftrightarrow> m = Inr b"
  by (cases m) simp_all

lemma is_ok_iff: "is_ok m \<longleftrightarrow> (\<exists>a. m = Inr a)"
  by (cases m) simp_all

lemma ensure_simps [simp, result_simps]:
  "ensure True e = Inr ()"
  "ensure False e = Inl e"
  by (simp_all add: ensure_def)

lemma ensure_eq_Inr [simp]: "ensure c e = Inr u \<longleftrightarrow> c"
  by (cases u) (simp add: ensure_def)

lemma rbind_eq_Inr: "rbind m f = Inr b \<longleftrightarrow> (\<exists>a. m = Inr a \<and> f a = Inr b)"
  by (cases m) simp_all

lemma rbind_eq_Inl: "rbind m f = Inl e \<longleftrightarrow> m = Inl e \<or> (\<exists>a. m = Inr a \<and> f a = Inl e)"
  by (cases m) simp_all

lemma rmap_eq_Inr: "rmap f m = Inr b \<longleftrightarrow> (\<exists>a. m = Inr a \<and> b = f a)"
  by (cases m) auto

lemma rbind_cong [fundef_cong]:
  "m = m' \<Longrightarrow> (\<And>a. m' = Inr a \<Longrightarrow> f a = f' a) \<Longrightarrow> rbind m f = rbind m' f'"
  by (cases m') simp_all

lemma rbind_assoc: "rbind (rbind m f) g = rbind m (\<lambda>a. rbind (f a) g)"
  by (cases m) simp_all

lemma rbind_Inr_right [simp]: "rbind m Inr = m"
  by (cases m) simp_all

section \<open>Folding a fallible step over a log\<close>

fun fold_log :: "('s \<Rightarrow> 'e \<Rightarrow> ('x, 's) result) \<Rightarrow> 's \<Rightarrow> 'e list \<Rightarrow> ('x, 's) result" where
  "fold_log step s [] = Inr s"
| "fold_log step s (e # es) = rbind (step s e) (\<lambda>s'. fold_log step s' es)"

lemma fold_log_append [fold_simps]:
  "fold_log step s (xs @ ys) = rbind (fold_log step s xs) (\<lambda>s'. fold_log step s' ys)"
  by (induction xs arbitrary: s) (simp_all add: rbind_assoc)

lemma fold_log_snoc [fold_simps]:
  "fold_log step s (xs @ [e]) = rbind (fold_log step s xs) (\<lambda>s'. step s' e)"
  by (simp add: fold_log_append)

lemma fold_log_prefix_ok:
  "fold_log step s (xs @ ys) = Inr t \<Longrightarrow> \<exists>u. fold_log step s xs = Inr u \<and> fold_log step u ys = Inr t"
  by (auto simp: fold_log_append rbind_eq_Inr)

fun traverse :: "('a \<Rightarrow> ('e, 'b) result) \<Rightarrow> 'a list \<Rightarrow> ('e, 'b list) result" where
  "traverse f [] = Inr []"
| "traverse f (x # xs) = rbind (f x) (\<lambda>y. rmap ((#) y) (traverse f xs))"

lemma traverse_length: "traverse f xs = Inr ys \<Longrightarrow> length ys = length xs"
  by (induction xs arbitrary: ys) (auto simp: rbind_eq_Inr rmap_eq_Inr)

section \<open>JavaScript arrays\<close>

text \<open>\<open>xs.at(i)\<close> or \<open>xs[i]\<close>, with \<open>undefined\<close> out of range.\<close>

definition nth_opt :: "'a list \<Rightarrow> nat \<Rightarrow> 'a option" where
  "nth_opt xs i = (if i < length xs then Some (xs ! i) else None)"

definition last_opt :: "'a list \<Rightarrow> 'a option" where
  "last_opt xs = (if xs = [] then None else Some (last xs))"

text \<open>\<open>xs.splice(start, del, ...ins)\<close> and \<open>xs.toSpliced\<close> on normalized coordinates, and
  \<open>xs.slice(i, j)\<close> on in-range ones.\<close>

definition js_splice :: "'a list \<Rightarrow> nat \<Rightarrow> nat \<Rightarrow> 'a list \<Rightarrow> 'a list" where
  "js_splice xs start del ins = take start xs @ ins @ drop (start + del) xs"

definition slice :: "'a list \<Rightarrow> nat \<Rightarrow> nat \<Rightarrow> 'a list" where
  "slice xs i j = take (j - i) (drop i xs)"

fun index_of :: "'a \<Rightarrow> 'a list \<Rightarrow> nat option" where
  "index_of a [] = None"
| "index_of a (x # xs) = (if x = a then Some 0 else map_option Suc (index_of a xs))"

fun find_index :: "('a \<Rightarrow> bool) \<Rightarrow> 'a list \<Rightarrow> nat option" where
  "find_index P [] = None"
| "find_index P (x # xs) = (if P x then Some 0 else map_option Suc (find_index P xs))"

lemma nth_opt_simps [simp, js_simps]:
  "nth_opt [] i = None"
  "nth_opt (x # xs) 0 = Some x"
  "nth_opt (x # xs) (Suc i) = nth_opt xs i"
  by (simp_all add: nth_opt_def)

lemma nth_opt_eq_Some [simp]: "nth_opt xs i = Some x \<longleftrightarrow> i < length xs \<and> xs ! i = x"
  by (auto simp: nth_opt_def)

lemma nth_opt_append_left [simp]: "i < length xs \<Longrightarrow> nth_opt (xs @ ys) i = nth_opt xs i"
  by (simp add: nth_opt_def nth_append)

lemma last_opt_simps [simp, js_simps]:
  "last_opt [] = None"
  "last_opt (xs @ [x]) = Some x"
  by (simp_all add: last_opt_def)

lemma index_of_SomeD:
  "index_of a xs = Some i \<Longrightarrow> i < length xs \<and> xs ! i = a \<and> a \<notin> set (take i xs)"
  by (induction xs arbitrary: i) (auto split: if_splits)

lemma index_of_eq_None [simp]: "index_of a xs = None \<longleftrightarrow> a \<notin> set xs"
  by (induction xs) auto

lemma index_of_nth:
  assumes "distinct xs" "i < length xs"
  shows "index_of (xs ! i) xs = Some i"
  using assms by (induction xs arbitrary: i) (auto simp: nth_Cons split: nat.splits)

lemma index_of_append_left: "a \<in> set xs \<Longrightarrow> index_of a (xs @ ys) = index_of a xs"
  by (induction xs) auto

lemma find_index_SomeD:
  "find_index P xs = Some i \<Longrightarrow> i < length xs \<and> P (xs ! i) \<and> (\<forall>j<i. \<not> P (xs ! j))"
proof (induction xs arbitrary: i)
  case (Cons x xs)
  then show ?case by (auto simp: nth_Cons less_Suc_eq_0_disj split: if_splits)
qed simp

lemma find_index_eq_None [simp]: "find_index P xs = None \<longleftrightarrow> (\<forall>x\<in>set xs. \<not> P x)"
  by (induction xs) auto

lemma length_js_splice [js_simps]:
  "start + del \<le> length xs \<Longrightarrow> length (js_splice xs start del ins) = length xs - del + length ins"
  by (simp add: js_splice_def)

lemma length_slice [simp]: "j \<le> length xs \<Longrightarrow> length (slice xs i j) = j - i"
  by (simp add: slice_def)

lemma set_slice: "set (slice xs i j) \<subseteq> set xs"
  by (auto simp: slice_def dest: in_set_takeD in_set_dropD)

lemma slice_partition:
  "i \<le> j \<Longrightarrow> take i xs @ slice xs i j @ drop j xs = xs"
  by (simp add: slice_def) (metis append_take_drop_id le_add_diff_inverse drop_drop add.commute)

lemma set_js_splice: "set (js_splice xs start del ins) \<subseteq> set xs \<union> set ins"
  by (auto simp: js_splice_def dest: in_set_takeD in_set_dropD)

lemma js_splice_append [js_simps]:
  "js_splice xs (length xs) 0 ys = xs @ ys"
  by (simp add: js_splice_def)

section \<open>JavaScript maps\<close>

text \<open>
  A \<open>Map\<close> keeps its entries in insertion order; \<open>set\<close> on a present key keeps the key's
  position, \<open>delete\<close> removes the entry. Association lists with \<^const>\<open>AList.update\<close> and
  \<^const>\<open>AList.delete\<close> do exactly this.
\<close>

type_synonym ('k, 'v) js_map = "('k \<times> 'v) list"

abbreviation map_set :: "'k \<Rightarrow> 'v \<Rightarrow> ('k, 'v) js_map \<Rightarrow> ('k, 'v) js_map" where
  "map_set \<equiv> AList.update"

abbreviation map_del :: "'k \<Rightarrow> ('k, 'v) js_map \<Rightarrow> ('k, 'v) js_map" where
  "map_del \<equiv> AList.delete"

abbreviation map_get :: "('k, 'v) js_map \<Rightarrow> 'k \<Rightarrow> 'v option" where
  "map_get \<equiv> map_of"

abbreviation map_has :: "('k, 'v) js_map \<Rightarrow> 'k \<Rightarrow> bool" where
  "map_has m k \<equiv> map_of m k \<noteq> None"

lemma map_get_set [simp, js_simps]: "map_get (map_set k v m) k' = (if k' = k then Some v else map_get m k')"
  by (simp add: update_conv')

lemma map_get_del [simp, js_simps]: "map_get (map_del k m) k' = (if k' = k then None else map_get m k')"
  by (simp add: delete_conv')

lemma map_set_dom: "dom (map_of (map_set k v m)) = insert k (dom (map_of m))"
  by (auto simp: update_conv' dom_def)

lemma map_del_dom: "dom (map_of (map_del k m)) = dom (map_of m) - {k}"
  by (auto simp: delete_conv' dom_def)

lemma map_set_absent: "map_get m k = None \<Longrightarrow> map_set k v m = m @ [(k, v)]"
  by (induction m) (auto split: if_splits)

lemma map_set_distinct: "distinct (map fst m) \<Longrightarrow> distinct (map fst (map_set k v m))"
  by (rule distinct_update)

lemma map_del_distinct: "distinct (map fst m) \<Longrightarrow> distinct (map fst (map_del k m))"
  by (rule distinct_delete)

section \<open>Decimal rendering\<close>

text \<open>Template interpolation of a non-negative integer: its decimal digits.\<close>

definition digit_char :: "nat \<Rightarrow> char" where
  "digit_char d = char_of (48 + d)"

fun show_nat :: "nat \<Rightarrow> string" where
  "show_nat n = (if n < 10 then [digit_char n] else show_nat (n div 10) @ [digit_char (n mod 10)])"

declare show_nat.simps [simp del]

definition show_int :: "int \<Rightarrow> string" where
  "show_int i = (if i < 0 then CHR ''-'' # show_nat (nat (- i)) else show_nat (nat i))"

definition digit_value :: "char \<Rightarrow> nat" where
  "digit_value c = of_char c - 48"

definition decimal_value :: "string \<Rightarrow> nat" where
  "decimal_value s = foldl (\<lambda>acc c. 10 * acc + digit_value c) 0 s"

lemma digit_value_char: "d < 10 \<Longrightarrow> digit_value (digit_char d) = d"
  by (simp add: digit_value_def digit_char_def)

lemma decimal_value_show_nat: "decimal_value (show_nat n) = n"
proof (induction n rule: show_nat.induct)
  case (1 n)
  show ?case
  proof (cases "n < 10")
    case True
    then show ?thesis
      by (subst show_nat.simps) (simp add: decimal_value_def digit_value_char)
  next
    case False
    then have "decimal_value (show_nat (n div 10)) = n div 10" by (rule "1.IH")
    then show ?thesis using False
      by (subst show_nat.simps) (simp add: decimal_value_def digit_value_char)
  qed
qed

lemma show_nat_inject [simp]: "show_nat m = show_nat n \<longleftrightarrow> m = n"
  by (metis decimal_value_show_nat)

section \<open>Text\<close>

abbreviation newline :: char where
  "newline \<equiv> CHR 0x0A"

text \<open>\<open>xs.join(sep)\<close>.\<close>

fun join_with :: "string \<Rightarrow> string list \<Rightarrow> string" where
  "join_with sep [] = []"
| "join_with sep [x] = x"
| "join_with sep (x # y # ys) = x @ sep @ join_with sep (y # ys)"

section \<open>Event-sourced projections\<close>

text \<open>
  The interface every durable projection of the program shares: a start state, a fallible
  step that consumes one event, and a well-formedness invariant the step keeps. The clients
  of the contract are the replay of a stored log and the incremental observers of a live one.
\<close>

locale event_fold =
  fixes init :: "'s"
    and step :: "'s \<Rightarrow> 'e \<Rightarrow> ('x, 's) result"
    and wf :: "'s \<Rightarrow> bool"
  assumes wf_init: "wf init"
    and wf_step: "wf s \<Longrightarrow> step s e = Inr s' \<Longrightarrow> wf s'"
begin

lemma wf_fold_from: "wf s \<Longrightarrow> fold_log step s es = Inr t \<Longrightarrow> wf t"
proof (induction es arbitrary: s)
  case (Cons e es)
  then show ?case by (auto simp: rbind_eq_Inr intro: wf_step)
qed simp

lemma wf_fold: "fold_log step init es = Inr t \<Longrightarrow> wf t"
  by (rule wf_fold_from [OF wf_init])

lemma wf_prefix:
  assumes "fold_log step init (xs @ ys) = Inr t"
  shows "\<exists>u. fold_log step init xs = Inr u \<and> wf u \<and> fold_log step u ys = Inr t"
  using fold_log_prefix_ok [OF assms] wf_fold by blast

end

text \<open>A run of live operations: a refused operation changes nothing, the others log their events.\<close>

fun run_live :: "('c \<Rightarrow> 's \<Rightarrow> ('y, 'e list \<times> 's) result) \<Rightarrow> 's \<Rightarrow> 'c list \<Rightarrow> 'e list \<times> 's" where
  "run_live commit s [] = ([], s)"
| "run_live commit s (c # cs) =
     (case commit c s of
        Inl _ \<Rightarrow> run_live commit s cs
      | Inr (evs, s') \<Rightarrow> (case run_live commit s' cs of (log, t) \<Rightarrow> (evs @ log, t)))"

text \<open>
  A projection whose event source also keeps a live copy. \<open>commit\<close> is the live operation: from
  a live state it yields the event that was logged and the new live state. The law says that
  the projection's own step, applied to that event, reaches the same state: a restart that
  replays the log resumes exactly where the live process stood.
\<close>

locale live_projection = event_fold +
  fixes commit :: "'c \<Rightarrow> 's \<Rightarrow> ('y, 'e list \<times> 's) result"
  assumes commit_replays: "wf s \<Longrightarrow> commit c s = Inr (evs, s') \<Longrightarrow> fold_log step s evs = Inr s'"
begin

lemma commit_wf: "wf s \<Longrightarrow> commit c s = Inr (evs, s') \<Longrightarrow> wf s'"
  using wf_fold_from commit_replays by blast

lemma replay_live: "wf s \<Longrightarrow> run_live commit s cs = (log, t) \<Longrightarrow> fold_log step s log = Inr t \<and> wf t"
proof (induction cs arbitrary: s log)
  case (Cons c cs)
  show ?case
  proof (cases "commit c s")
    case (Inl e)
    with Cons show ?thesis by simp
  next
    case (Inr r)
    obtain evs s' where r: "r = (evs, s')" by (cases r)
    obtain log' where run: "run_live commit s' cs = (log', t)" and log: "log = evs @ log'"
      using Cons.prems Inr r by (auto split: prod.splits)
    have "wf s'" using Cons.prems(1) Inr r commit_wf by simp
    with run have "fold_log step s' log' = Inr t \<and> wf t" by (rule Cons.IH [rotated])
    moreover have "fold_log step s evs = Inr s'" using Cons.prems(1) Inr r commit_replays by simp
    ultimately show ?thesis by (simp add: log fold_log_append)
  qed
qed simp

end

end
