(* ===== verification/Json_Values.thy ===== *)
theory Json_Values
  imports Prelude
begin

text \<open>
  The JavaScript numbers and JSON values that cross the durable boundaries of the program, and
  the runtime checks its strict decoders share (\<open>Number.isSafeInteger\<close>, exact own keys,
  normalized text, lower-kebab-case codes). An object is its list of own properties in insertion order. Strings
  are lists of characters; whitespace is JavaScript's within the character type.
\<close>

section \<open>Numbers\<close>

text \<open>
  A finite double is an integer or a dyadic fraction \<open>m / 2^e\<close>; the two infinities
  (\<open>NInf True\<close> is the negative one) and NaN
  complete the type. Negative zero is identified with zero: the code's JSON boundary
  rejects it before any of the code modelled here runs.
\<close>

datatype jsnum =
    NInt int
  | NFrac int nat
  | NInf bool
  | NNaN

definition max_safe_integer :: int where
  "max_safe_integer = 9007199254740991"

definition safe_int :: "int \<Rightarrow> bool" where
  "safe_int i \<longleftrightarrow> - max_safe_integer \<le> i \<and> i \<le> max_safe_integer"

fun is_safe_integer :: "jsnum \<Rightarrow> bool" where
  "is_safe_integer (NInt i) = safe_int i"
| "is_safe_integer _ = False"

text \<open>\<open>Math.trunc\<close>: towards zero; NaN and the infinities are fixed points.\<close>

fun math_trunc :: "jsnum \<Rightarrow> jsnum" where
  "math_trunc (NFrac m e) = NInt (sgn m * (\<bar>m\<bar> div 2 ^ e))"
| "math_trunc n = n"

text \<open>A finite number as a fraction over a power of two.\<close>

fun num_parts :: "jsnum \<Rightarrow> int \<times> nat" where
  "num_parts (NInt i) = (i, 0)"
| "num_parts (NFrac m e) = (m, e)"
| "num_parts _ = (0, 0)"

lemma is_safe_integer_iff: "is_safe_integer n \<longleftrightarrow> (\<exists>i. n = NInt i \<and> safe_int i)"
  by (cases n) auto

section \<open>JSON values\<close>

datatype json =
    JNull
  | JBool bool
  | JNum jsnum
  | JStr string
  | JArr "json list"
  | JObj "(string \<times> json) list"

fun as_string :: "json option \<Rightarrow> string option" where
  "as_string (Some (JStr s)) = Some s"
| "as_string _ = None"

fun as_record :: "json \<Rightarrow> (string \<times> json) list option" where
  "as_record (JObj kvs) = Some kvs"
| "as_record _ = None"

fun safe_int_of :: "json option \<Rightarrow> int option" where
  "safe_int_of (Some (JNum (NInt i))) = (if safe_int i then Some i else None)"
| "safe_int_of _ = None"

text \<open>Own keys are exactly the expected ones, in any order (own keys are distinct).\<close>

definition has_exact_keys :: "(string \<times> json) list \<Rightarrow> string list \<Rightarrow> bool" where
  "has_exact_keys kvs ks \<longleftrightarrow> length kvs = length ks \<and> (\<forall>k\<in>set ks. map_of kvs k \<noteq> None)"

text \<open>Well-formed values: own keys distinct, no NaN or infinity, at every depth.\<close>

fun json_wf :: "json \<Rightarrow> bool"
  and json_wf_list :: "json list \<Rightarrow> bool"
  and json_wf_obj :: "(string \<times> json) list \<Rightarrow> bool" where
  "json_wf (JNum n) = (case n of NInf _ \<Rightarrow> False | NNaN \<Rightarrow> False | _ \<Rightarrow> True)"
| "json_wf (JArr xs) = json_wf_list xs"
| "json_wf (JObj kvs) = json_wf_obj kvs"
| "json_wf _ = True"
| "json_wf_list [] = True"
| "json_wf_list (x # xs) = (json_wf x \<and> json_wf_list xs)"
| "json_wf_obj [] = True"
| "json_wf_obj ((k, v) # kvs) = (json_wf v \<and> map_of kvs k = None \<and> json_wf_obj kvs)"

text \<open>Structural equality of JSON values: arrays in order, objects up to the order of their keys.\<close>

fun is_deep_equal_json :: "json \<Rightarrow> json \<Rightarrow> bool"
  and deep_equal_list :: "json list \<Rightarrow> json list \<Rightarrow> bool"
  and deep_equal_obj :: "(string \<times> json) list \<Rightarrow> (string \<times> json) list \<Rightarrow> bool" where
  "is_deep_equal_json JNull b = (b = JNull)"
| "is_deep_equal_json (JBool x) b = (b = JBool x)"
| "is_deep_equal_json (JNum x) b = (x \<noteq> NNaN \<and> b = JNum x)"
| "is_deep_equal_json (JStr x) b = (b = JStr x)"
| "is_deep_equal_json (JArr xs) b =
     (case b of JArr ys \<Rightarrow> length xs = length ys \<and> deep_equal_list xs ys | _ \<Rightarrow> False)"
| "is_deep_equal_json (JObj kvs) b =
     (case b of JObj lvs \<Rightarrow> length kvs = length lvs \<and> deep_equal_obj kvs lvs | _ \<Rightarrow> False)"
| "deep_equal_list [] ys = True"
| "deep_equal_list (x # xs) ys =
     (case ys of [] \<Rightarrow> False | y # ys' \<Rightarrow> is_deep_equal_json x y \<and> deep_equal_list xs ys')"
| "deep_equal_obj [] lvs = True"
| "deep_equal_obj ((k, v) # kvs) lvs =
     (case map_of lvs k of
        None \<Rightarrow> False
      | Some w \<Rightarrow> is_deep_equal_json v w \<and> deep_equal_obj kvs lvs)"

lemma json_wf_obj_distinct: "json_wf_obj kvs \<Longrightarrow> distinct (map fst kvs)"
  by (induction kvs) (force simp: map_of_eq_None_iff)+

lemma json_wf_obj_value: "json_wf_obj kvs \<Longrightarrow> (k, v) \<in> set kvs \<Longrightarrow> json_wf v"
  by (induction kvs) auto

lemma json_wf_list_all: "json_wf_list xs \<longleftrightarrow> (\<forall>x\<in>set xs. json_wf x)"
  by (induction xs) auto

lemma json_wf_get: "json_wf_obj kvs \<Longrightarrow> map_of kvs k = Some v \<Longrightarrow> json_wf v"
  by (meson json_wf_obj_value map_of_SomeD)

lemma deep_equal_obj_iff:
  "deep_equal_obj kvs lvs \<longleftrightarrow>
     (\<forall>(k, v)\<in>set kvs. \<exists>w. map_of lvs k = Some w \<and> is_deep_equal_json v w)"
  by (induction kvs) (auto split: option.splits)

lemma deep_equal_list_refl: "(\<And>x. x \<in> set xs \<Longrightarrow> is_deep_equal_json x x) \<Longrightarrow> deep_equal_list xs xs"
  by (induction xs) auto

lemma is_deep_equal_json_refl: "json_wf a \<Longrightarrow> is_deep_equal_json a a"
proof (induction a)
  case (JNum n)
  then show ?case by (cases n) auto
next
  case (JArr xs)
  then show ?case by (auto simp: json_wf_list_all intro: deep_equal_list_refl)
next
  case (JObj kvs)
  have "\<exists>w. map_of kvs k = Some w \<and> is_deep_equal_json v w" if mem: "(k, v) \<in> set kvs" for k v
  proof -
    have "json_wf v" using JObj.prems mem by (auto intro: json_wf_obj_value)
    moreover have "map_of kvs k = Some v"
      using JObj.prems mem by (simp add: json_wf_obj_distinct)
    ultimately show ?thesis using JObj.IH [OF mem, of v] by simp
  qed
  then show ?case by (auto simp: deep_equal_obj_iff)
qed simp_all

lemma has_exact_keys_keys:
  assumes "has_exact_keys kvs ks" "distinct ks"
  shows "fst ` set kvs = set ks"
proof -
  have sub: "set ks \<subseteq> fst ` set kvs"
    using assms(1) by (auto simp: has_exact_keys_def map_of_eq_None_iff)
  have "card (fst ` set kvs) \<le> length kvs"
    by (metis card_length length_map list.set_map)
  also have "\<dots> = card (set ks)" using assms by (simp add: has_exact_keys_def distinct_card)
  finally show ?thesis using sub by (metis card_seteq finite_imageI finite_set)
qed

section \<open>Text checks\<close>

text \<open>JavaScript's \<open>String.prototype.trim\<close> within the character type: TAB to CR, space, NBSP.\<close>

definition is_js_space :: "char \<Rightarrow> bool" where
  "is_js_space c \<longleftrightarrow> of_char c \<in> {9, 10, 11, 12, 13, 32, 160 :: nat}"

definition js_trim :: "string \<Rightarrow> string" where
  "js_trim s = rev (dropWhile is_js_space (rev (dropWhile is_js_space s)))"

lemma js_trim_hd: "js_trim s \<noteq> [] \<Longrightarrow> \<not> is_js_space (hd (js_trim s))"
proof -
  let ?t = "dropWhile is_js_space s"
  assume ne: "js_trim s \<noteq> []"
  then have "?t \<noteq> []" by (metis js_trim_def dropWhile.simps(1) rev.simps(1))
  then have hd: "\<not> is_js_space (hd ?t)" by (simp add: hd_dropWhile)
  have prefix_eq: "?t = js_trim s @ rev (takeWhile is_js_space (rev ?t))"
    by (metis js_trim_def rev_append rev_rev_ident takeWhile_dropWhile_id)
  from ne have "hd ?t = hd (js_trim s)" by (metis prefix_eq hd_append2)
  with hd show ?thesis by simp
qed

lemma js_trim_last: "js_trim s \<noteq> [] \<Longrightarrow> \<not> is_js_space (last (js_trim s))"
  by (simp add: js_trim_def last_rev hd_dropWhile)

lemma js_trim_id: "s = [] \<or> \<not> is_js_space (hd s) \<and> \<not> is_js_space (last s) \<Longrightarrow> js_trim s = s"
proof -
  assume h: "s = [] \<or> \<not> is_js_space (hd s) \<and> \<not> is_js_space (last s)"
  then have "dropWhile is_js_space s = s" by (auto simp: dropWhile_eq_self_iff)
  moreover from h have "dropWhile is_js_space (rev s) = rev s"
    by (auto simp: dropWhile_eq_self_iff hd_rev)
  ultimately show ?thesis by (simp add: js_trim_def)
qed

lemma js_trim_idem [simp]: "js_trim (js_trim s) = js_trim s"
  using js_trim_hd js_trim_last js_trim_id by blast

text \<open>The pattern \<open>^[a-z][a-z0-9]*(?:-[a-z0-9]+)*$\<close> as a three-state scanner.\<close>

definition is_lower :: "char \<Rightarrow> bool" where
  "is_lower c \<longleftrightarrow> (97 :: nat) \<le> of_char c \<and> of_char c \<le> (122 :: nat)"

definition is_digit :: "char \<Rightarrow> bool" where
  "is_digit c \<longleftrightarrow> (48 :: nat) \<le> of_char c \<and> of_char c \<le> (57 :: nat)"

fun kebab_tail :: "bool \<Rightarrow> string \<Rightarrow> bool" where
  "kebab_tail after_dash [] = (\<not> after_dash)"
| "kebab_tail after_dash (c # cs) =
     (if is_lower c \<or> is_digit c then kebab_tail False cs
      else c = CHR ''-'' \<and> \<not> after_dash \<and> kebab_tail True cs)"

fun is_kebab_code :: "string \<Rightarrow> bool" where
  "is_kebab_code [] = False"
| "is_kebab_code (c # cs) = (is_lower c \<and> kebab_tail False cs)"

definition normalized_text :: "string \<Rightarrow> bool" where
  "normalized_text s \<longleftrightarrow> s \<noteq> [] \<and> js_trim s = s"

lemma normalized_text_trim [simp]: "js_trim s \<noteq> [] \<Longrightarrow> normalized_text (js_trim s)"
  by (simp add: normalized_text_def)

end
