(* ===== verification/Llm_Messages.thy ===== *)
theory Llm_Messages
  imports Json_Values
begin

text \<open>
  The provider-neutral message and streaming vocabulary
  (\<open>packages/llm/llm/src/types.ts\<close>, \<open>message.ts\<close>) and the incremental chunk-to-message
  assembler of \<open>assembler.ts\<close>. Merge-extensible unions carry one constructor for the
  variants other packages add. Message values are immutable in the code (deeply frozen), so a
  HOL value models one exactly.
\<close>

section \<open>Vocabulary\<close>

type_synonym call_id = string
type_synonym message_id = string

record llm_failure =
  lf_message :: string
  lf_code :: string
  lf_status :: "jsnum option"
  lf_retry_after :: "jsnum option"
  lf_request_id :: "string option"

datatype content_block =
    TextBlock string
  | ReasoningBlock string
  | ImageBlock json
  | ToolCallBlock call_id string string
  | ToolResultBlock call_id "content_block list" "bool option"
  | OtherBlock string json

fun block_type :: "content_block \<Rightarrow> string" where
  "block_type (TextBlock _) = ''text''"
| "block_type (ReasoningBlock _) = ''reasoning''"
| "block_type (ImageBlock _) = ''image''"
| "block_type (ToolCallBlock _ _ _) = ''tool-call''"
| "block_type (ToolResultBlock _ _ _) = ''tool-result''"
| "block_type (OtherBlock t _) = t"

fun is_tool_call :: "content_block \<Rightarrow> bool" where
  "is_tool_call (ToolCallBlock _ _ _) = True"
| "is_tool_call _ = False"

datatype finish_reason =
    FinishStop
  | FinishToolCalls
  | FinishMaxTokens
  | FinishAborted llm_failure
  | FinishError llm_failure
  | FinishOther string json

record token_usage =
  tu_input :: jsnum
  tu_output :: jsnum
  tu_cache_read :: "jsnum option"
  tu_cache_write :: "jsnum option"
  tu_reasoning :: "jsnum option"

datatype stream_chunk =
    BlockStart int string
  | TextDelta int string
  | ReasoningDelta int string
  | ToolCallDelta int call_id "string option" string
  | BlockEnd int content_block
  | UsageChunk token_usage
  | FinishChunk finish_reason "json option"

datatype context_formed =
    NoForm
  | FormInstructions
  | FormCatalog
  | FormSnapshot "(string \<times> string) list"
  | FormNotice string
  | FormRelay
  | FormRecall

text \<open>\<open>MessageSourceMap\<close>, with the variants the goal domain and the compaction packages merge in.\<close>

datatype message_source =
    UserSource
  | PluginSource string context_formed
  | ModelSource string string "json option"
  | ToolSource call_id
  | GoalSource string jsnum jsnum
  | CheckpointSource string "string option"
  | OtherSource string json

datatype role = RoleSystem | RoleUser | RoleAssistant

record message =
  msg_id :: message_id
  msg_role :: role
  msg_content :: "content_block list"
  msg_source :: message_source

text \<open>
  The three specializations of \<open>Message\<close> that the session log records. Their roles are fixed,
  an assistant message has a model source, and a tool-result message has a tool source and
  exactly one tool-result block.
\<close>

record user_message =
  um_id :: message_id
  um_content :: "content_block list"
  um_source :: message_source

record assistant_message =
  am_id :: message_id
  am_content :: "content_block list"
  am_provider :: string
  am_model :: string
  am_replay_state :: "json option"

record tool_result_message =
  trm_id :: message_id
  trm_call_id :: call_id
  trm_block_call_id :: call_id
  trm_content :: "content_block list"
  trm_is_error :: "bool option"

definition message_of_user :: "user_message \<Rightarrow> message" where
  "message_of_user m =
     \<lparr>msg_id = um_id m, msg_role = RoleUser, msg_content = um_content m, msg_source = um_source m\<rparr>"

definition message_of_assistant :: "assistant_message \<Rightarrow> message" where
  "message_of_assistant m =
     \<lparr>msg_id = am_id m, msg_role = RoleAssistant, msg_content = am_content m,
      msg_source = ModelSource (am_provider m) (am_model m) (am_replay_state m)\<rparr>"

definition message_of_tool_result :: "tool_result_message \<Rightarrow> message" where
  "message_of_tool_result m =
     \<lparr>msg_id = trm_id m, msg_role = RoleUser,
      msg_content = [ToolResultBlock (trm_block_call_id m) (trm_content m) (trm_is_error m)],
      msg_source = ToolSource (trm_call_id m)\<rparr>"

text \<open>Bound for a notice summary; the ellipsis is one character, rendered here by a placeholder.\<close>

definition context_summary_max_chars :: nat where
  "context_summary_max_chars = 120"

definition bound_context_summary :: "char \<Rightarrow> string \<Rightarrow> string" where
  "bound_context_summary ellipsis summary =
     (if length summary \<le> context_summary_max_chars then summary
      else take (context_summary_max_chars - 1) summary @ [ellipsis])"

lemma bound_context_summary_length:
  "length (bound_context_summary e s) \<le> context_summary_max_chars"
  by (simp add: bound_context_summary_def context_summary_max_chars_def)

fun is_token_delta :: "stream_chunk \<Rightarrow> bool" where
  "is_token_delta (TextDelta _ t) = (t \<noteq> [])"
| "is_token_delta (ReasoningDelta _ t) = (t \<noteq> [])"
| "is_token_delta (ToolCallDelta _ _ name args) = (args \<noteq> [] \<or> name \<noteq> None)"
| "is_token_delta _ = False"

section \<open>Chunk assembler\<close>

record partial_block =
  pb_type :: string
  pb_text :: string
  pb_call_id :: "call_id option"
  pb_call_name :: "string option"
  pb_args :: string
  pb_block :: "content_block option"

record assembler =
  ba_partials :: "(int, partial_block) js_map"
  ba_order :: "int list"
  ba_usage :: "token_usage option"
  ba_finish :: "finish_reason option"
  ba_replay :: "json option"

definition new_assembler :: assembler where
  "new_assembler =
     \<lparr>ba_partials = [], ba_order = [], ba_usage = None, ba_finish = None, ba_replay = None\<rparr>"

definition fresh_partial :: "string \<Rightarrow> partial_block" where
  "fresh_partial t =
     \<lparr>pb_type = t, pb_text = [], pb_call_id = None, pb_call_name = None, pb_args = [], pb_block = None\<rparr>"

text \<open>\<open>ensure\<close>: the partial of an index, created (and ordered) at its first chunk.\<close>

definition ba_ensure :: "assembler \<Rightarrow> int \<Rightarrow> string \<Rightarrow> assembler \<times> partial_block" where
  "ba_ensure a i t =
     (case map_get (ba_partials a) i of
        Some p \<Rightarrow> (a, p)
      | None \<Rightarrow>
          (a\<lparr>ba_partials := map_set i (fresh_partial t) (ba_partials a),
             ba_order := ba_order a @ [i]\<rparr>,
           fresh_partial t))"

text \<open>Write to an open partial; a partial closed by \<open>block-end\<close> ignores stragglers.\<close>

definition ba_update :: "assembler \<Rightarrow> int \<Rightarrow> string \<Rightarrow> (partial_block \<Rightarrow> partial_block) \<Rightarrow> assembler" where
  "ba_update a i t f =
     (case ba_ensure a i t of (a', p) \<Rightarrow>
        (if pb_block p \<noteq> None then a'
         else a'\<lparr>ba_partials := map_set i (f p) (ba_partials a')\<rparr>))"

fun ba_push :: "assembler \<Rightarrow> stream_chunk \<Rightarrow> assembler" where
  "ba_push a (BlockStart i t) = fst (ba_ensure a i t)"
| "ba_push a (TextDelta i s) = ba_update a i ''text'' (\<lambda>p. p\<lparr>pb_text := pb_text p @ s\<rparr>)"
| "ba_push a (ReasoningDelta i s) = ba_update a i ''reasoning'' (\<lambda>p. p\<lparr>pb_text := pb_text p @ s\<rparr>)"
| "ba_push a (ToolCallDelta i cid name args) =
     ba_update a i ''tool-call'' (\<lambda>p. p\<lparr>pb_call_id := Some cid,
       pb_call_name := (case name of Some n \<Rightarrow> if n = [] then pb_call_name p else Some n
                                   | None \<Rightarrow> pb_call_name p),
       pb_args := pb_args p @ args\<rparr>)"
| "ba_push a (BlockEnd i b) = ba_update a i (block_type b) (\<lambda>p. p\<lparr>pb_block := Some b\<rparr>)"
| "ba_push a (UsageChunk u) = a\<lparr>ba_usage := Some u\<rparr>"
| "ba_push a (FinishChunk r st) = a\<lparr>ba_finish := Some r, ba_replay := st\<rparr>"

datatype assemble_error =
    IncompleteBlock string
  | NoPartial int

definition ba_assemble :: "partial_block \<Rightarrow> int \<Rightarrow> (assemble_error, content_block) result" where
  "ba_assemble p i =
     (case pb_block p of
        Some b \<Rightarrow> Inr b
      | None \<Rightarrow>
          (if pb_type p = ''text'' then Inr (TextBlock (pb_text p))
           else if pb_type p = ''reasoning'' then Inr (ReasoningBlock (pb_text p))
           else if pb_type p = ''tool-call'' then
             Inr (ToolCallBlock
                    (case pb_call_id p of Some c \<Rightarrow> c | None \<Rightarrow> ''call-'' @ show_int i)
                    (case pb_call_name p of Some n \<Rightarrow> n | None \<Rightarrow> [])
                    (pb_args p))
           else Inl (IncompleteBlock (pb_type p))))"

definition ba_must_get :: "assembler \<Rightarrow> int \<Rightarrow> (assemble_error, partial_block) result" where
  "ba_must_get a i =
     (case map_get (ba_partials a) i of Some p \<Rightarrow> Inr p | None \<Rightarrow> Inl (NoPartial i))"

definition ba_finish_reason :: "assembler \<Rightarrow> finish_reason" where
  "ba_finish_reason a = (case ba_finish a of Some r \<Rightarrow> r | None \<Rightarrow> FinishStop)"

definition ba_blocks :: "assembler \<Rightarrow> (assemble_error, content_block list) result" where
  "ba_blocks a =
     rmap (\<lambda>bs. if ba_finish_reason a = FinishMaxTokens then filter (\<lambda>b. \<not> is_tool_call b) bs else bs)
       (traverse (\<lambda>i. rbind (ba_must_get a i) (\<lambda>p. ba_assemble p i)) (ba_order a))"

definition ba_run :: "stream_chunk list \<Rightarrow> assembler" where
  "ba_run cs = foldl ba_push new_assembler cs"

subsection \<open>Every ordered index has its partial\<close>

definition ba_wf :: "assembler \<Rightarrow> bool" where
  "ba_wf a \<longleftrightarrow> distinct (ba_order a) \<and> set (ba_order a) = dom (map_of (ba_partials a))"

lemma ba_ensure_wf: "ba_wf a \<Longrightarrow> ba_wf (fst (ba_ensure a i t))"
  by (auto simp: ba_wf_def ba_ensure_def map_set_dom split: option.splits)

lemma ba_ensure_get: "map_get (ba_partials (fst (ba_ensure a i t))) i = Some (snd (ba_ensure a i t))"
  by (auto simp: ba_ensure_def split: option.splits)

lemma ba_update_wf: "ba_wf a \<Longrightarrow> ba_wf (ba_update a i t f)"
  using ba_ensure_wf [of a i t] ba_ensure_get [of a i t]
  by (auto simp: ba_update_def ba_wf_def map_set_dom insert_absorb domI split: prod.splits)

lemma ba_push_wf: "ba_wf a \<Longrightarrow> ba_wf (ba_push a c)"
proof (cases c)
  case (UsageChunk u)
  then show "ba_wf a \<Longrightarrow> ?thesis" by (simp add: ba_wf_def)
next
  case (FinishChunk r st)
  then show "ba_wf a \<Longrightarrow> ?thesis" by (simp add: ba_wf_def)
qed (simp_all add: ba_update_wf ba_ensure_wf)

lemma ba_run_wf: "ba_wf (ba_run cs)"
proof -
  have "ba_wf a \<Longrightarrow> ba_wf (foldl ba_push a cs)" for a
    by (induction cs arbitrary: a) (auto intro: ba_push_wf)
  then show ?thesis by (simp add: ba_run_def ba_wf_def new_assembler_def)
qed

lemma ba_must_get_wf: "ba_wf a \<Longrightarrow> i \<in> set (ba_order a) \<Longrightarrow> \<exists>p. ba_must_get a i = Inr p"
  by (cases "map_get (ba_partials a) i") (auto simp: ba_wf_def ba_must_get_def)

subsection \<open>What one push does to one index\<close>

lemma ba_ensure_other: "j \<noteq> i \<Longrightarrow> map_get (ba_partials (fst (ba_ensure a i t))) j = map_get (ba_partials a) j"
  by (auto simp: ba_ensure_def js_simps split: option.splits)

lemma ba_update_get:
  "map_get (ba_partials (ba_update a i t f)) j =
     (if j = i then
        (let p = (case map_get (ba_partials a) i of Some p \<Rightarrow> p | None \<Rightarrow> fresh_partial t)
         in Some (if pb_block p \<noteq> None then p else f p))
      else map_get (ba_partials a) j)"
  by (auto simp: ba_update_def ba_ensure_def js_simps fresh_partial_def Let_def split: option.splits)

lemma ba_push_closed:
  assumes "map_get (ba_partials a) i = Some p" "pb_block p \<noteq> None"
  shows "map_get (ba_partials (ba_push a c)) i = Some p"
  using assms by (cases c) (auto simp: ba_update_get ba_ensure_def split: option.splits)

lemma ba_run_closed:
  assumes "map_get (ba_partials a) i = Some p" "pb_block p \<noteq> None"
  shows "map_get (ba_partials (foldl ba_push a cs)) i = Some p"
  using assms by (induction cs arbitrary: a) (auto simp: ba_push_closed)

text \<open>The text a stream delivers to one block index, and whether it closes the index.\<close>

fun chunk_text :: "int \<Rightarrow> stream_chunk \<Rightarrow> string" where
  "chunk_text i (TextDelta j s) = (if j = i then s else [])"
| "chunk_text i (ReasoningDelta j s) = (if j = i then s else [])"
| "chunk_text i _ = []"

fun closes_index :: "int \<Rightarrow> stream_chunk \<Rightarrow> bool" where
  "closes_index i (BlockEnd j _) = (j = i)"
| "closes_index i _ = False"

definition open_text :: "assembler \<Rightarrow> int \<Rightarrow> string" where
  "open_text a i = (case map_get (ba_partials a) i of Some p \<Rightarrow> pb_text p | None \<Rightarrow> [])"

definition index_open :: "assembler \<Rightarrow> int \<Rightarrow> bool" where
  "index_open a i = (case map_get (ba_partials a) i of Some p \<Rightarrow> pb_block p = None | None \<Rightarrow> True)"

lemma ba_push_open:
  assumes "index_open a i" "\<not> closes_index i c"
  shows "index_open (ba_push a c) i \<and> open_text (ba_push a c) i = open_text a i @ chunk_text i c"
  using assms
  by (cases c)
    (auto simp: index_open_def open_text_def ba_update_get ba_ensure_def js_simps fresh_partial_def
       Let_def split: option.splits if_splits)

lemma ba_run_open:
  assumes "index_open a i" "\<not> list_ex (closes_index i) cs"
  shows "index_open (foldl ba_push a cs) i
    \<and> open_text (foldl ba_push a cs) i = open_text a i @ concat (map (chunk_text i) cs)"
  using assms by (induction cs arbitrary: a) (auto simp: ba_push_open)

end
