(* ===== verification/Session_Events.thy ===== *)
theory Session_Events
  imports Llm_Messages
begin

text \<open>
  The append-only session log (\<open>packages/core/session/src/types.ts\<close>): the event envelope, the
  payloads of \<open>SessionEventMap\<close> and of the events the agent, compaction, goal and schedule
  packages merge into it, and the immutable session header. The surface marker and the cited
  source sequences of an event are kept as raw JSON, because the surface fold validates them
  at run time. Payloads with a strict decoder of their own (goal and schedule changes) are
  raw JSON too.
\<close>

section \<open>Payload types\<close>

datatype agent_cancel_cause =
    CancelUser
  | CancelParent
  | CancelHook string
  | CancelDisposed
  | CancelLegacy

datatype turn_end_reason =
    TurnCompleted
  | TurnAborted agent_cancel_cause
  | TurnBlocked
  | TurnError llm_failure
  | TurnMaxTokens
  | TurnInterrupted
  | TurnOther string json

datatype todo_status = TodoPending | TodoInProgress | TodoCompleted

record todo_item =
  ti_content :: string
  ti_status :: todo_status

record llm_call_config =
  cc_provider :: string
  cc_model :: string
  cc_reasoning_effort :: "string option"
  cc_temperature :: "jsnum option"
  cc_max_tokens :: "jsnum option"
  cc_stop :: "string list option"

record adapter_defaults =
  ad_reasoning_effort :: bool
  ad_max_tokens :: bool

record tool_schema =
  ts_name :: string
  ts_description :: string
  ts_parameters :: "(string \<times> json) list"

record epoch_header =
  eh_config :: llm_call_config
  eh_adapter_defaults :: "adapter_defaults option"
  eh_system :: "string option"
  eh_tools :: "tool_schema list option"

datatype request_header_reason = HeaderInitial | HeaderResume | HeaderChange

record request_context =
  rc_provider :: string
  rc_model :: string
  rc_context_window :: "jsnum option"

datatype inbox_target = NextTurn | NextStep

record inbox_splice =
  is_target :: inbox_target
  is_start :: int
  is_removed :: "int option"
  is_inserted :: "user_message list"
  is_canceled :: bool

record tool_result_data =
  trd_turn :: int
  trd_step :: int
  trd_message :: tool_result_message
  trd_error :: "(string \<times> string) option"
  trd_meta :: "json option"

record compaction_lifecycle =
  cl_id :: string
  cl_source_command :: "string option"
  cl_turn :: "int option"
  cl_error :: "string option"

record compaction_summary =
  cs_id :: string
  cs_source_command :: "string option"
  cs_summary :: "content_block list"
  cs_raw_output :: "content_block list option"
  cs_llm_stream_call :: bool
  cs_range_start :: nat
  cs_range_end :: nat
  cs_shadowed :: "nat list"
  cs_token_count :: jsnum
  cs_provider :: string
  cs_model :: string
  cs_max_tokens :: "jsnum option"
  cs_usage :: "token_usage option"

section \<open>Events\<close>

datatype event_data =
    TurnStart int
  | TurnEnd int turn_end_reason
  | StepStart int int
  | StepEnd int int
  | UserMessageEv user_message
  | AssistantChunk int int stream_chunk
  | AssistantMessageEv int int assistant_message "token_usage option"
  | ToolCall int int call_id string string
  | ToolResult tool_result_data
  | TodoWrite "todo_item list"
  | RequestHeader epoch_header request_header_reason
  | RequestContext request_context
  | EndSeed
  | InboxSpliced inbox_splice
  | CompactionStart compaction_lifecycle
  | CompactionSummary compaction_summary
  | CompactionEnd compaction_lifecycle
  | CompactionPrune nat nat "nat list" jsnum
  | GoalChange json
  | ScheduleChange json
  | OtherEvent string json

fun event_type :: "event_data \<Rightarrow> string" where
  "event_type (TurnStart _) = ''turn/start''"
| "event_type (TurnEnd _ _) = ''turn/end''"
| "event_type (StepStart _ _) = ''step/start''"
| "event_type (StepEnd _ _) = ''step/end''"
| "event_type (UserMessageEv _) = ''user/message''"
| "event_type (AssistantChunk _ _ _) = ''assistant/chunk''"
| "event_type (AssistantMessageEv _ _ _ _) = ''assistant/message''"
| "event_type (ToolCall _ _ _ _ _) = ''tool/call''"
| "event_type (ToolResult _) = ''tool/result''"
| "event_type (TodoWrite _) = ''todo/write''"
| "event_type (RequestHeader _ _) = ''request/header''"
| "event_type (RequestContext _) = ''request/context''"
| "event_type EndSeed = ''session/end-seed''"
| "event_type (InboxSpliced _) = ''agent/inbox/spliced''"
| "event_type (CompactionStart _) = ''compaction/start''"
| "event_type (CompactionSummary _) = ''compaction/summary''"
| "event_type (CompactionEnd _) = ''compaction/end''"
| "event_type (CompactionPrune _ _ _ _) = ''compaction/prune''"
| "event_type (GoalChange _) = ''goal/change''"
| "event_type (ScheduleChange _) = ''schedule/change''"
| "event_type (OtherEvent t _) = t"

text \<open>
  The envelope: sequence number, epoch milliseconds, payload, the optional \<open>ignorable\<close> mark,
  and the surface metadata exactly as it was supplied (\<open>None\<close> is an absent field).
\<close>

record session_event =
  ev_seq :: nat
  ev_time :: int
  ev_data :: event_data
  ev_ignorable :: bool
  ev_surface_op :: "json option"
  ev_sources :: "json option"

definition plain_event :: "nat \<Rightarrow> int \<Rightarrow> event_data \<Rightarrow> session_event" where
  "plain_event n t d =
     \<lparr>ev_seq = n, ev_time = t, ev_data = d, ev_ignorable = False,
      ev_surface_op = None, ev_sources = None\<rparr>"

text \<open>How an event enters the ordered surface, once validated.\<close>

datatype surface_op =
    OpAppend
  | OpReplace nat nat

fun surface_op_json :: "surface_op \<Rightarrow> json" where
  "surface_op_json OpAppend = JStr ''append''"
| "surface_op_json (OpReplace s e) =
     JObj [(''op'', JStr ''replace''), (''start'', JNum (NInt (int s))), (''end'', JNum (NInt (int e)))]"

definition seqs_json :: "nat list \<Rightarrow> json" where
  "seqs_json ns = JArr (map (\<lambda>n. JNum (NInt (int n))) ns)"

definition surface_event :: "nat \<Rightarrow> int \<Rightarrow> event_data \<Rightarrow> surface_op \<Rightarrow> nat list option \<Rightarrow> session_event" where
  "surface_event n t d op srcs =
     \<lparr>ev_seq = n, ev_time = t, ev_data = d, ev_ignorable = False,
      ev_surface_op = Some (surface_op_json op), ev_sources = map_option seqs_json srcs\<rparr>"

section \<open>Session header\<close>

record session_header =
  sh_version :: int
  sh_id :: string
  sh_created_at :: int
  sh_cwd :: "string option"
  sh_parent :: "string option"
  sh_seed_length :: "nat option"
  sh_subagent :: bool
  sh_delegation_depth :: "nat option"
  sh_agent_preset :: "string option"

definition session_format_version :: int where
  "session_format_version = 0"

type_synonym event_log = "session_event list"

text \<open>The log's own contract: sequence numbers are contiguous from zero.\<close>

definition contiguous :: "event_log \<Rightarrow> bool" where
  "contiguous es \<longleftrightarrow> (\<forall>i<length es. ev_seq (es ! i) = i)"

lemma contiguous_snoc [simp]: "contiguous (es @ [e]) \<longleftrightarrow> contiguous es \<and> ev_seq e = length es"
  by (auto simp: contiguous_def nth_append less_Suc_eq)

lemma contiguous_take: "contiguous es \<Longrightarrow> contiguous (take n es)"
  by (simp add: contiguous_def)

lemma contiguous_prefix: "contiguous (xs @ ys) \<Longrightarrow> contiguous xs"
  using contiguous_take [of "xs @ ys" "length xs"] by simp

lemma contiguous_append:
  "contiguous (xs @ ys) \<longleftrightarrow> contiguous xs \<and> (\<forall>i<length ys. ev_seq (ys ! i) = length xs + i)"
proof
  assume h: "contiguous (xs @ ys)"
  have "ev_seq (ys ! i) = length xs + i" if "i < length ys" for i
    using h that by (auto simp: contiguous_def nth_append dest: spec [of _ "length xs + i"])
  with h contiguous_prefix show "contiguous xs \<and> (\<forall>i<length ys. ev_seq (ys ! i) = length xs + i)"
    by blast
next
  assume "contiguous xs \<and> (\<forall>i<length ys. ev_seq (ys ! i) = length xs + i)"
  then show "contiguous (xs @ ys)"
    by (auto simp: contiguous_def nth_append)
qed

end
