(* ===== verification/Surface.thy ===== *)
theory Surface
  imports Session_Events
begin

text \<open>
  The ordered surface over the session log (\<open>packages/core/session/src/surface.ts\<close>): which
  events derive model-visible messages, the validation of one event against the current
  surface, the complete fold of a log, and the incremental manager that validates a candidate
  before it enters the log. Thrown errors are values of \<open>surface_error\<close>, one constructor per
  \<open>throw\<close>.
\<close>

section \<open>Eligibility and projection of one event\<close>

definition is_surface_eligible_type :: "string \<Rightarrow> bool" where
  "is_surface_eligible_type t \<longleftrightarrow> t \<in> set [''user/message'', ''assistant/message'', ''tool/result'']"

definition is_surface_event :: "session_event \<Rightarrow> bool" where
  "is_surface_event e \<longleftrightarrow> is_surface_eligible_type (event_type (ev_data e)) \<and> ev_surface_op e \<noteq> None"

definition is_append_surface_event :: "session_event \<Rightarrow> bool" where
  "is_append_surface_event e \<longleftrightarrow> is_surface_event e \<and> ev_surface_op e = Some (JStr ''append'')"

definition is_replacement_surface_event :: "session_event \<Rightarrow> bool" where
  "is_replacement_surface_event e \<longleftrightarrow> is_surface_event e \<and> ev_surface_op e \<noteq> Some (JStr ''append'')"

fun derive_event_message :: "event_data \<Rightarrow> message option" where
  "derive_event_message (UserMessageEv m) = Some (message_of_user m)"
| "derive_event_message (AssistantMessageEv _ _ m _) =
     (if am_content m = [] then None else Some (message_of_assistant m))"
| "derive_event_message (ToolResult d) = Some (message_of_tool_result (trd_message d))"
| "derive_event_message _ = None"

section \<open>Fold state and plans\<close>

record surface_state =
  sf_nodes :: "nat list"
  sf_generation :: nat

definition create_fold_state :: surface_state where
  "create_fold_state = \<lparr>sf_nodes = [], sf_generation = 0\<rparr>"

record surface_replacement =
  sr_seq :: nat
  sr_start :: nat
  sr_end :: nat
  sr_shadowed :: "nat list"

text \<open>One validated transition; a replacement also carries its resolved index range.\<close>

datatype surface_plan =
    PlanAppend nat
  | PlanReplace surface_replacement nat nat

datatype surface_error =
    NotEligibleWithOp string
  | NotEligibleWithSources string
  | MissingMarker string
  | InvalidSurfaceOp string
  | InvalidReplaceOp string
  | SourcesNotArray nat
  | SourcesEmpty
  | SourcesNotDense string
  | SourcesDuplicated
  | SourceNotEarlier nat nat
  | SourcesMissShadowed "nat list"
  | StartNotFound nat
  | EndNotFound nat
  | StartAfterEnd nat nat
  | RewriteNotSingle
  | RewriteNotToolResult
  | RewriteNotContentOnly
  | SeqNotContiguous nat nat

section \<open>Validation of one event\<close>

text \<open>A non-negative safe integer, as an event sequence number.\<close>

definition event_seq_of :: "json \<Rightarrow> nat option" where
  "event_seq_of j =
     (case safe_int_of (Some j) of
        Some i \<Rightarrow> if 0 \<le> i then Some (nat i) else None
      | None \<Rightarrow> None)"

text \<open>The exact positional-replacement shape: the three own keys and nothing else.\<close>

definition replace_op_of :: "(string \<times> json) list \<Rightarrow> (nat \<times> nat) option" where
  "replace_op_of kvs =
     (if length kvs = 3 then
        (case (map_of kvs ''op'', map_of kvs ''start'', map_of kvs ''end'') of
           (Some op, Some s, Some e) \<Rightarrow>
             (if op = JStr ''replace'' then
                (case (event_seq_of s, event_seq_of e) of
                   (Some m, Some n) \<Rightarrow> Some (m, n)
                 | _ \<Rightarrow> None)
              else None)
         | _ \<Rightarrow> None)
      else None)"

definition surface_op_of :: "session_event \<Rightarrow> (surface_error, surface_op option) result" where
  "surface_op_of e =
     (let t = event_type (ev_data e) in
      if \<not> is_surface_eligible_type t then
        (if ev_surface_op e \<noteq> None then Inl (NotEligibleWithOp t)
         else if ev_sources e \<noteq> None then Inl (NotEligibleWithSources t)
         else Inr None)
      else
        (case ev_surface_op e of
           None \<Rightarrow> Inl (MissingMarker t)
         | Some op \<Rightarrow>
             (if op = JStr ''append'' then Inr (Some OpAppend)
              else (case op of
                      JObj kvs \<Rightarrow>
                        (case replace_op_of kvs of
                           None \<Rightarrow> Inl (InvalidReplaceOp t)
                         | Some (s, en) \<Rightarrow> Inr (Some (OpReplace s en)))
                    | _ \<Rightarrow> Inl (InvalidSurfaceOp t)))))"

text \<open>The cited source sequences: dense, distinct, all earlier; an absent field cites nothing.\<close>

definition cited_sources :: "session_event \<Rightarrow> (surface_error, nat list) result" where
  "cited_sources e =
     (case ev_sources e of
        None \<Rightarrow> Inr []
      | Some (JArr raw) \<Rightarrow>
          (if raw = [] \<and> event_type (ev_data e) \<noteq> ''assistant/message'' then Inl SourcesEmpty
           else rbind
             (traverse (\<lambda>j. case event_seq_of j of
                               None \<Rightarrow> Inl (SourcesNotDense (event_type (ev_data e)))
                             | Some n \<Rightarrow> Inr n) raw)
             (\<lambda>ns. if \<not> distinct ns then Inl SourcesDuplicated
                    else (case filter (\<lambda>n. ev_seq e \<le> n) ns of
                            n # _ \<Rightarrow> Inl (SourceNotEarlier n (ev_seq e))
                          | [] \<Rightarrow> Inr ns)))
      | Some _ \<Rightarrow> Inl (SourcesNotArray (ev_seq e)))"

definition assert_provenance :: "session_event \<Rightarrow> nat list \<Rightarrow> (surface_error, unit) result" where
  "assert_provenance e shadowed =
     rbind (cited_sources e)
       (\<lambda>sources. case filter (\<lambda>n. n \<notin> set sources) shadowed of
                     [] \<Rightarrow> Inr ()
                   | missing \<Rightarrow> Inl (SourcesMissShadowed missing))"

definition replacement_range ::
    "surface_state \<Rightarrow> nat \<Rightarrow> nat \<Rightarrow> (surface_error, nat \<times> nat \<times> nat list) result" where
  "replacement_range st s e =
     (case index_of s (sf_nodes st) of
        None \<Rightarrow> Inl (StartNotFound s)
      | Some i \<Rightarrow>
          (case index_of e (sf_nodes st) of
             None \<Rightarrow> Inl (EndNotFound e)
           | Some j \<Rightarrow>
               (if i > j then Inl (StartAfterEnd s e)
                else Inr (i, j, slice (sf_nodes st) i (Suc j)))))"

text \<open>
  A tool-result rewrite may change the block's content only. The remaining fields are
  compared as JSON: records field by field, the opaque \<open>meta\<close> payload structurally.
\<close>

definition same_meta :: "json option \<Rightarrow> json option \<Rightarrow> bool" where
  "same_meta a b =
     (case (a, b) of
        (None, None) \<Rightarrow> True
      | (Some x, Some y) \<Rightarrow> is_deep_equal_json x y
      | _ \<Rightarrow> False)"

definition same_result_rest :: "tool_result_data \<Rightarrow> tool_result_data \<Rightarrow> bool" where
  "same_result_rest a b \<longleftrightarrow>
     trd_turn a = trd_turn b \<and> trd_step a = trd_step b \<and> trd_error a = trd_error b
     \<and> same_meta (trd_meta a) (trd_meta b)
     \<and> (trd_message a)\<lparr>trm_content := []\<rparr> = (trd_message b)\<lparr>trm_content := []\<rparr>"

definition log_at :: "event_log \<Rightarrow> nat \<Rightarrow> nat \<Rightarrow> session_event option" where
  "log_at events base n = (if n < base then None else nth_opt events (n - base))"

definition assert_tool_result_rewrite ::
    "session_event \<Rightarrow> nat list \<Rightarrow> event_log \<Rightarrow> nat \<Rightarrow> (surface_error, unit) result" where
  "assert_tool_result_rewrite e shadowed events base =
     (case ev_data e of
        ToolResult d \<Rightarrow>
          (case shadowed of
             [n] \<Rightarrow>
               (case log_at events base n of
                  Some orig \<Rightarrow>
                    (case ev_data orig of
                       ToolResult d0 \<Rightarrow>
                         (if same_result_rest d0 d then Inr () else Inl RewriteNotContentOnly)
                     | _ \<Rightarrow> Inl RewriteNotToolResult)
                | None \<Rightarrow> Inl RewriteNotToolResult)
           | _ \<Rightarrow> Inl RewriteNotSingle)
      | _ \<Rightarrow> Inr ())"

definition plan_surface_event ::
    "surface_state \<Rightarrow> session_event \<Rightarrow> nat \<Rightarrow> event_log \<Rightarrow> nat \<Rightarrow> (surface_error, surface_plan option) result" where
  "plan_surface_event st e expected events base =
     (if ev_seq e \<noteq> expected then Inl (SeqNotContiguous (ev_seq e) expected)
      else rbind (surface_op_of e)
        (\<lambda>op. case op of
                 None \<Rightarrow> Inr None
               | Some OpAppend \<Rightarrow>
                   rmap (\<lambda>_. Some (PlanAppend (ev_seq e))) (assert_provenance e [])
               | Some (OpReplace s en) \<Rightarrow>
                   rbind (replacement_range st s en)
                     (\<lambda>(i, j, shadowed).
                        rbind (assert_provenance e shadowed)
                          (\<lambda>_. rmap
                             (\<lambda>_. Some (PlanReplace
                                \<lparr>sr_seq = ev_seq e, sr_start = s, sr_end = en, sr_shadowed = shadowed\<rparr> i j))
                             (assert_tool_result_rewrite e shadowed events base)))))"

fun apply_surface_plan :: "surface_state \<Rightarrow> surface_plan option \<Rightarrow> surface_state \<times> surface_replacement option" where
  "apply_surface_plan st None = (st, None)"
| "apply_surface_plan st (Some (PlanAppend n)) = (st\<lparr>sf_nodes := sf_nodes st @ [n]\<rparr>, None)"
| "apply_surface_plan st (Some (PlanReplace r i j)) =
     (st\<lparr>sf_nodes := js_splice (sf_nodes st) i (j - i + 1) [sr_seq r],
         sf_generation := sf_generation st + 1\<rparr>,
      Some r)"

definition apply_surface_event ::
    "surface_state \<Rightarrow> session_event \<Rightarrow> nat \<Rightarrow> event_log \<Rightarrow> nat
       \<Rightarrow> (surface_error, surface_state \<times> surface_replacement option) result" where
  "apply_surface_event st e expected events base =
     rmap (apply_surface_plan st) (plan_surface_event st e expected events base)"

section \<open>The complete fold\<close>

type_synonym fold_progress = "nat \<times> surface_state \<times> surface_replacement list"

definition fold_surface_step ::
    "event_log \<Rightarrow> fold_progress \<Rightarrow> session_event \<Rightarrow> (surface_error, fold_progress) result" where
  "fold_surface_step events p e =
     (case p of (index, st, reps) \<Rightarrow>
        rmap (\<lambda>(st', rep). (Suc index, st', reps @ (case rep of None \<Rightarrow> [] | Some r \<Rightarrow> [r])))
          (apply_surface_event st e index events 0))"

definition fold_surface ::
    "event_log \<Rightarrow> (surface_error, nat list \<times> surface_replacement list) result" where
  "fold_surface events =
     rmap (\<lambda>(_, st, reps). (sf_nodes st, reps))
       (fold_log (fold_surface_step events) (0, create_fold_state, []) events)"

section \<open>The incremental manager\<close>

text \<open>
  \<open>mg_next\<close> is one past the last processed sequence. The log itself belongs to the owner
  and is an argument of every operation; the code holds a reference to it.
\<close>

record surface_manager =
  mg_state :: surface_state
  mg_base :: nat
  mg_next :: nat
  mg_pending :: "(session_event \<times> nat \<times> surface_plan option) option"

definition new_surface_manager :: "nat \<Rightarrow> surface_manager" where
  "new_surface_manager base =
     \<lparr>mg_state = create_fold_state, mg_base = base, mg_next = base, mg_pending = None\<rparr>"

text \<open>What one processed event leaves: the new state, the pending plan once it is past, the position.\<close>

definition advance_manager :: "surface_manager \<Rightarrow> nat \<Rightarrow> surface_state \<Rightarrow> surface_manager" where
  "advance_manager mg n st =
     mg\<lparr>mg_state := st,
        mg_pending := (case mg_pending mg of
                         Some (pe, pn, plan) \<Rightarrow> if pn \<le> n then None else mg_pending mg
                       | None \<Rightarrow> None),
        mg_next := Suc n\<rparr>"

definition process_one ::
    "event_log \<Rightarrow> surface_manager \<Rightarrow> session_event \<Rightarrow> (surface_error, surface_manager) result" where
  "process_one events mg e =
     (let n = mg_next mg;
          applied =
            (case mg_pending mg of
               Some (pe, pn, plan) \<Rightarrow>
                 (if pe = e \<and> pn = n then Inr (fst (apply_surface_plan (mg_state mg) plan))
                  else rmap fst (apply_surface_event (mg_state mg) e n events (mg_base mg)))
             | None \<Rightarrow> rmap fst (apply_surface_event (mg_state mg) e n events (mg_base mg)))
      in rmap (advance_manager mg n) applied)"

definition process_delta :: "surface_manager \<Rightarrow> event_log \<Rightarrow> (surface_error, surface_manager) result" where
  "process_delta mg events = fold_log (process_one events) mg (drop (mg_next mg - mg_base mg) events)"

definition sync_manager :: "surface_manager \<Rightarrow> event_log \<Rightarrow> (surface_error, surface_manager) result" where
  "sync_manager mg events =
     (if mg_next mg < mg_base mg + length events then process_delta mg events else Inr mg)"

definition validate_next ::
    "surface_manager \<Rightarrow> event_log \<Rightarrow> session_event \<Rightarrow> (surface_error, surface_manager) result" where
  "validate_next mg events e =
     rbind (sync_manager mg events)
       (\<lambda>mg'. let expected = mg_base mg' + length events in
          rmap (\<lambda>plan. mg'\<lparr>mg_pending := Some (e, expected, plan)\<rparr>)
            (plan_surface_event (mg_state mg') e expected events (mg_base mg')))"

definition manager_nodes ::
    "surface_manager \<Rightarrow> event_log \<Rightarrow> (surface_error, surface_manager \<times> nat list) result" where
  "manager_nodes mg events = rmap (\<lambda>mg'. (mg', sf_nodes (mg_state mg'))) (sync_manager mg events)"

definition manager_generation ::
    "surface_manager \<Rightarrow> event_log \<Rightarrow> (surface_error, surface_manager \<times> nat) result" where
  "manager_generation mg events = rmap (\<lambda>mg'. (mg', sf_generation (mg_state mg'))) (sync_manager mg events)"

section \<open>What a validated plan says\<close>

text \<open>Acceptance of one event behind the events already in the log, as the session does it.\<close>

type_synonym admitted = "event_log \<times> surface_state"

definition admit :: "admitted \<Rightarrow> session_event \<Rightarrow> (surface_error, admitted) result" where
  "admit p e =
     (case p of (events, st) \<Rightarrow>
        rmap (\<lambda>r. (events @ [e], fst r)) (apply_surface_event st e (length events) events 0))"

definition admit_init :: admitted where
  "admit_init = ([], create_fold_state)"

lemma surface_op_of_Some_eligible:
  assumes "surface_op_of e = Inr (Some op)"
  shows "is_surface_event e"
  using assms by (cases "ev_surface_op e") (auto simp: surface_op_of_def is_surface_event_def Let_def split: if_splits)

lemma surface_op_of_None_not_eligible:
  "surface_op_of e = Inr None \<Longrightarrow> \<not> is_surface_eligible_type (event_type (ev_data e))"
  by (auto simp: surface_op_of_def Let_def
      split: if_splits option.splits json.splits)

lemma replacement_range_SomeD:
  assumes "replacement_range st s e = Inr (i, j, shadowed)"
  shows "i \<le> j" "j < length (sf_nodes st)" "sf_nodes st ! i = s" "sf_nodes st ! j = e"
    "shadowed = slice (sf_nodes st) i (Suc j)"
    "sf_nodes st = take i (sf_nodes st) @ shadowed @ drop (Suc j) (sf_nodes st)"
  using assms slice_partition [of i "Suc j" "sf_nodes st"]
  by (auto simp: replacement_range_def split: option.splits if_splits dest: index_of_SomeD)

lemma assert_provenance_covers:
  assumes "assert_provenance e shadowed = Inr ()"
  shows "\<exists>sources. cited_sources e = Inr sources \<and> set shadowed \<subseteq> set sources"
proof -
  from assms obtain sources where src: "cited_sources e = Inr sources"
    by (cases "cited_sources e") (auto simp: assert_provenance_def)
  with assms have none: "filter (\<lambda>n. n \<notin> set sources) shadowed = []"
    by (cases "filter (\<lambda>n. n \<notin> set sources) shadowed") (auto simp: assert_provenance_def)
  from none have "set shadowed \<subseteq> set sources" by (auto simp: filter_empty_conv)
  with src show ?thesis by blast
qed

lemma cited_sources_earlier:
  assumes "cited_sources e = Inr sources" "n \<in> set sources"
  shows "n < ev_seq e"
  using assms
  by (auto simp: cited_sources_def rbind_eq_Inr filter_empty_conv not_le
      split: option.splits json.splits if_splits list.splits)

lemma cited_sources_distinct: "cited_sources e = Inr sources \<Longrightarrow> distinct sources"
  by (auto simp: cited_sources_def rbind_eq_Inr split: option.splits json.splits if_splits list.splits)

lemma plan_seq: "plan_surface_event st e n events b = Inr plan \<Longrightarrow> ev_seq e = n"
  by (auto simp: plan_surface_event_def split: if_splits)

lemma plan_cases:
  assumes "plan_surface_event st e n events b = Inr plan"
  obtains (none) "surface_op_of e = Inr None" "plan = None"
  | (append) "surface_op_of e = Inr (Some OpAppend)" "assert_provenance e [] = Inr ()"
      "plan = Some (PlanAppend n)"
  | (replace) s en i j shadowed where
      "surface_op_of e = Inr (Some (OpReplace s en))"
      "replacement_range st s en = Inr (i, j, shadowed)"
      "assert_provenance e shadowed = Inr ()"
      "assert_tool_result_rewrite e shadowed events b = Inr ()"
      "plan = Some (PlanReplace \<lparr>sr_seq = n, sr_start = s, sr_end = en, sr_shadowed = shadowed\<rparr> i j)"
proof -
  note seq = plan_seq [OF assms]
  from assms seq obtain op where op: "surface_op_of e = Inr op"
    by (auto simp: plan_surface_event_def rbind_eq_Inr)
  show thesis
  proof (cases op)
    case None
    with assms op seq none show thesis by (simp add: plan_surface_event_def)
  next
    case (Some o')
    then show thesis
      using assms op seq append replace
      by (cases o') (auto simp: plan_surface_event_def rbind_eq_Inr rmap_eq_Inr)
  qed
qed

lemma plan_NoneD:
  "plan_surface_event st e n events b = Inr None \<Longrightarrow> \<not> is_surface_eligible_type (event_type (ev_data e))"
  by (erule plan_cases) (auto dest: surface_op_of_None_not_eligible)

lemma plan_AppendD:
  assumes "plan_surface_event st e n events b = Inr (Some (PlanAppend m))"
  shows "m = n" "is_surface_event e"
  using assms by (auto elim!: plan_cases dest: surface_op_of_Some_eligible)

lemma plan_ReplaceD:
  assumes "plan_surface_event st e n events b = Inr (Some (PlanReplace r i j))"
  shows "is_surface_event e" "sr_seq r = n"
    "replacement_range st (sr_start r) (sr_end r) = Inr (i, j, sr_shadowed r)"
    "assert_provenance e (sr_shadowed r) = Inr ()"
    "assert_tool_result_rewrite e (sr_shadowed r) events b = Inr ()"
  using assms by (auto elim!: plan_cases dest: surface_op_of_Some_eligible)

lemmas plan_dest = plan_NoneD plan_AppendD plan_ReplaceD

section \<open>Well-formed surfaces\<close>

definition surface_wf :: "admitted \<Rightarrow> bool" where
  "surface_wf p =
     (case p of (events, st) \<Rightarrow>
        contiguous events \<and> distinct (sf_nodes st)
        \<and> (\<forall>n\<in>set (sf_nodes st). n < length events \<and> is_surface_event (events ! n)))"

lemma surface_wf_init: "surface_wf admit_init"
  by (simp add: surface_wf_def admit_init_def create_fold_state_def contiguous_def)

lemma nodes_after_replace:
  assumes "replacement_range st s e = Inr (i, j, shadowed)"
  shows "js_splice (sf_nodes st) i (j - i + 1) [n]
    = take i (sf_nodes st) @ [n] @ drop (Suc j) (sf_nodes st)"
  using replacement_range_SomeD(1) [OF assms] by (simp add: js_splice_def)

lemma nodes_split_distinct:
  assumes "replacement_range st s e = Inr (i, j, shadowed)" "distinct (sf_nodes st)"
  shows "distinct (take i (sf_nodes st) @ shadowed @ drop (Suc j) (sf_nodes st))"
    "set (sf_nodes st) = set (take i (sf_nodes st)) \<union> set shadowed \<union> set (drop (Suc j) (sf_nodes st))"
  using replacement_range_SomeD(6) [OF assms(1)] assms(2)
  by (metis, metis set_append Un_assoc)

lemma admit_cases:
  assumes "admit (events, st) e = Inr p'"
  obtains (skip) "\<not> is_surface_eligible_type (event_type (ev_data e))" "p' = (events @ [e], st)"
      "ev_seq e = length events"
  | (append) "is_surface_event e" "ev_seq e = length events"
      "p' = (events @ [e], st\<lparr>sf_nodes := sf_nodes st @ [length events]\<rparr>)"
  | (replace) r :: surface_replacement and i j :: nat where "is_surface_event e" "ev_seq e = length events"
      "replacement_range st (sr_start r) (sr_end r) = Inr (i, j, sr_shadowed r)"
      "sr_seq r = length events"
      "assert_provenance e (sr_shadowed r) = Inr ()"
      "p' = (events @ [e],
             st\<lparr>sf_nodes := take i (sf_nodes st) @ [length events] @ drop (Suc j) (sf_nodes st),
                sf_generation := sf_generation st + 1\<rparr>)"
proof -
  from assms obtain plan where plan: "plan_surface_event st e (length events) events 0 = Inr plan"
    and p': "p' = (events @ [e], fst (apply_surface_plan st plan))"
    by (cases "plan_surface_event st e (length events) events 0")
      (auto simp: admit_def apply_surface_event_def)
  note seq = plan_seq [OF plan]
  show thesis
  proof (cases plan)
    case None
    with plan p' seq show thesis by (intro skip) (auto dest: plan_NoneD)
  next
    case (Some pl)
    show thesis
    proof (cases pl)
      case (PlanAppend m)
      with plan Some have "m = length events" "is_surface_event e" by (auto dest: plan_AppendD)
      with p' Some PlanAppend seq show thesis by (intro append) auto
    next
      case (PlanReplace r i j)
      note d = plan_ReplaceD [OF plan [unfolded Some PlanReplace]]
      show thesis
      proof (rule replace)
        show "p' = (events @ [e],
             st\<lparr>sf_nodes := take i (sf_nodes st) @ [length events] @ drop (Suc j) (sf_nodes st),
                sf_generation := sf_generation st + 1\<rparr>)"
          using p' Some PlanReplace d(2) nodes_after_replace [OF d(3)] by simp
      qed (use d seq in auto)
    qed
  qed
qed

lemma surface_wf_step:
  assumes "surface_wf p" "admit p e = Inr p'"
  shows "surface_wf p'"
proof -
  obtain events st where p: "p = (events, st)" by (cases p)
  have wf: "contiguous events" "distinct (sf_nodes st)"
      "\<And>n. n \<in> set (sf_nodes st) \<Longrightarrow> n < length events \<and> is_surface_event (events ! n)"
    using assms(1) by (auto simp: p surface_wf_def)
  have admit: "admit (events, st) e = Inr p'" using assms(2) p by simp
  have old: "n < length (events @ [e]) \<and> is_surface_event ((events @ [e]) ! n)"
    if "n \<in> set (sf_nodes st)" for n
    using wf(3) [OF that] by (simp add: nth_append)
  have fresh: "length events \<notin> set (sf_nodes st)" using wf(3) by blast
  show ?thesis using admit
  proof (cases rule: admit_cases)
    case skip
    then show ?thesis using wf old by (auto simp: surface_wf_def)
  next
    case append
    then show ?thesis using wf(1,2) old fresh by (auto simp: surface_wf_def nth_append)
  next
    case (replace r i j)
    note parts = nodes_split_distinct [OF replace(3) wf(2)]
    then have "distinct (take i (sf_nodes st) @ [length events] @ drop (Suc j) (sf_nodes st))"
      using fresh by auto
    moreover have "set (take i (sf_nodes st)) \<union> set (drop (Suc j) (sf_nodes st)) \<subseteq> set (sf_nodes st)"
      using parts(2) by blast
    ultimately show ?thesis using replace wf(1) old by (auto simp: surface_wf_def)
  qed
qed

interpretation surface: event_fold admit_init admit surface_wf
  by unfold_locales (rule surface_wf_init, rule surface_wf_step)

section \<open>The complete fold agrees with incremental acceptance\<close>

text \<open>
  The complete fold looks rewritten events up in the whole log, the session in the log before
  the candidate. On a well-formed surface both see the same event, so both make the same plan.
\<close>

lemma log_at_extend: "n < base + length events \<Longrightarrow> log_at (events @ later) base n = log_at events base n"
  by (auto simp: log_at_def)

lemma rewrite_extend:
  assumes "\<forall>n\<in>set shadowed. n < base + length events"
  shows "assert_tool_result_rewrite e shadowed (events @ later) base
    = assert_tool_result_rewrite e shadowed events base"
  using assms by (auto simp: assert_tool_result_rewrite_def log_at_extend split: event_data.splits list.splits)

lemma plan_extend:
  assumes "\<forall>n\<in>set (sf_nodes st). n < base + length events"
  shows "plan_surface_event st e k (events @ later) base = plan_surface_event st e k events base"
proof -
  have "assert_tool_result_rewrite e sh (events @ later) base = assert_tool_result_rewrite e sh events base"
    if "replacement_range st s en = Inr (i, j, sh)" for s en i j sh
  proof (rule rewrite_extend)
    have "set sh \<subseteq> set (sf_nodes st)"
      using replacement_range_SomeD(5) [OF that] set_slice by fast
    then show "\<forall>n\<in>set sh. n < base + length events" using assms by blast
  qed
  then show ?thesis
    unfolding plan_surface_event_def
    by (auto intro!: rbind_cong split: option.splits surface_op.splits)
qed

lemma fold_surface_incremental:
  assumes "surface_wf (pre, st)"
  shows "rmap (\<lambda>(k, st', _). (k, st')) (fold_log (fold_surface_step (pre @ es)) (length pre, st, reps) es)
    = rmap (\<lambda>(log, st'). (length log, st')) (fold_log admit (pre, st) es)"
  using assms
proof (induction es arbitrary: pre st reps)
  case Nil
  then show ?case by simp
next
  case (Cons e es)
  have same: "plan_surface_event st e (length pre) (pre @ e # es) 0 = plan_surface_event st e (length pre) pre 0"
    using Cons.prems by (intro plan_extend) (auto simp: surface_wf_def)
  show ?case
  proof (cases "plan_surface_event st e (length pre) pre 0")
    case (Inl x)
    then show ?thesis
      by (simp add: fold_surface_step_def admit_def apply_surface_event_def same)
  next
    case (Inr plan)
    obtain st' rep where ap: "apply_surface_plan st plan = (st', rep)" by fastforce
    have step: "admit (pre, st) e = Inr (pre @ [e], st')"
      using Inr ap by (simp add: admit_def apply_surface_event_def)
    have wf: "surface_wf (pre @ [e], st')" by (rule surface_wf_step [OF Cons.prems step])
    from Cons.IH [OF wf] show ?thesis
      using Inr ap step
      by (simp add: fold_surface_step_def apply_surface_event_def same)
  qed
qed

lemma admit_log: "fold_log admit (pre, st) es = Inr (events, st') \<Longrightarrow> events = pre @ es"
proof (induction es arbitrary: pre st)
  case (Cons e es)
  then show ?case by (force simp: rbind_eq_Inr rmap_eq_Inr admit_def)
qed simp

lemma fold_surface_iff_admit:
  "fold_surface events = Inr (nodes, reps) \<Longrightarrow>
     \<exists>st. fold_log admit admit_init events = Inr (events, st) \<and> sf_nodes st = nodes"
proof -
  assume "fold_surface events = Inr (nodes, reps)"
  then obtain k st where
    f: "fold_log (fold_surface_step events) (0, create_fold_state, []) events = Inr (k, st, reps)"
    and n: "nodes = sf_nodes st"
    by (auto simp: fold_surface_def rmap_eq_Inr)
  have "rmap (\<lambda>(log, st'). (length log, st')) (fold_log admit admit_init events) = Inr (k, st)"
    using fold_surface_incremental [of "[]" create_fold_state events "[]"] surface_wf_init f
    by (simp add: admit_init_def)
  then obtain log where "fold_log admit admit_init events = Inr (log, st)"
    by (auto simp: rmap_eq_Inr)
  then show ?thesis using n admit_log [of "[]"] by (auto simp: admit_init_def)
qed

lemma fold_surface_complete:
  assumes "fold_log admit admit_init events = Inr (events, st)"
  shows "\<exists>reps. fold_surface events = Inr (sf_nodes st, reps)"
proof -
  have "rmap (\<lambda>(k, st', _). (k, st')) (fold_log (fold_surface_step events) (0, create_fold_state, []) events)
      = Inr (length events, st)"
    using fold_surface_incremental [of "[]" create_fold_state events "[]"] surface_wf_init assms
    by (simp add: admit_init_def)
  then show ?thesis by (auto simp: fold_surface_def rmap_eq_Inr)
qed

section \<open>Nothing is lost: nodes and shadowed entries partition the messages\<close>

definition shadowed_of :: "surface_replacement list \<Rightarrow> nat list" where
  "shadowed_of reps = concat (map sr_shadowed reps)"

definition eligible_seqs :: "event_log \<Rightarrow> nat \<Rightarrow> nat set" where
  "eligible_seqs events k =
     {i. i < k \<and> is_surface_eligible_type (event_type (ev_data (events ! i)))}"

definition fold_partition :: "event_log \<Rightarrow> fold_progress \<Rightarrow> bool" where
  "fold_partition events p =
     (case p of (k, st, reps) \<Rightarrow>
        distinct (sf_nodes st @ shadowed_of reps)
        \<and> set (sf_nodes st @ shadowed_of reps) = eligible_seqs events k)"

lemma admit_iff_fold:
  assumes "fold_log admit admit_init events = Inr (events, st)"
  shows "is_ok (admit (events, st) e) \<longleftrightarrow> is_ok (fold_surface (events @ [e]))"
proof
  assume "is_ok (admit (events, st) e)"
  then obtain log st' where "admit (events, st) e = Inr (log, st')" by (auto simp: is_ok_def split: sum.splits)
  moreover from this have "log = events @ [e]" by (auto simp: admit_def rmap_eq_Inr)
  ultimately have "fold_log admit admit_init (events @ [e]) = Inr (events @ [e], st')"
    using assms by (simp add: fold_log_snoc)
  then show "is_ok (fold_surface (events @ [e]))" using fold_surface_complete [of "events @ [e]"] by (auto simp: is_ok_iff)
next
  assume "is_ok (fold_surface (events @ [e]))"
  then obtain nodes reps where "fold_surface (events @ [e]) = Inr (nodes, reps)"
    by (auto simp: is_ok_def split: sum.splits)
  then obtain st' where "fold_log admit admit_init (events @ [e]) = Inr (events @ [e], st')"
    using fold_surface_iff_admit by blast
  then show "is_ok (admit (events, st) e)" using assms by (simp add: fold_log_snoc)
qed

lemma eligible_seqs_Suc:
  "eligible_seqs events (Suc k) =
     (if is_surface_eligible_type (event_type (ev_data (events ! k)))
      then insert k (eligible_seqs events k) else eligible_seqs events k)"
  by (auto simp: eligible_seqs_def less_Suc_eq)

lemma fold_partition_step:
  assumes part: "fold_partition events (k, st, reps)"
    and step: "fold_surface_step events (k, st, reps) (events ! k) = Inr p'"
  shows "fold_partition events p'"
proof -
  let ?e = "events ! k"
  from step obtain plan where plan: "plan_surface_event st ?e k events 0 = Inr plan"
    and p': "p' = (Suc k, fst (apply_surface_plan st plan),
       reps @ (case snd (apply_surface_plan st plan) of None \<Rightarrow> [] | Some r \<Rightarrow> [r]))"
    by (cases "plan_surface_event st ?e k events 0")
      (auto simp: fold_surface_step_def apply_surface_event_def split_def)
  have fresh: "k \<notin> set (sf_nodes st @ shadowed_of reps)"
    using part by (auto simp: fold_partition_def eligible_seqs_def)
  show ?thesis using plan
  proof (cases rule: plan_cases)
    case none
    with plan have "\<not> is_surface_eligible_type (event_type (ev_data ?e))" by (auto dest: plan_NoneD)
    with none p' part show ?thesis by (simp add: fold_partition_def eligible_seqs_Suc)
  next
    case append
    then have "is_surface_eligible_type (event_type (ev_data ?e))"
      by (auto dest: surface_op_of_Some_eligible simp: is_surface_event_def)
    with append p' part fresh show ?thesis by (auto simp: fold_partition_def eligible_seqs_Suc)
  next
    case (replace s en i j shadowed)
    have el: "is_surface_eligible_type (event_type (ev_data ?e))"
      using replace(1) by (auto dest: surface_op_of_Some_eligible simp: is_surface_event_def)
    note split = replacement_range_SomeD(6) [OF replace(2)]
    have nodes: "sf_nodes (fst (apply_surface_plan st plan))
        = take i (sf_nodes st) @ [k] @ drop (Suc j) (sf_nodes st)"
      using replace(5) nodes_after_replace [OF replace(2)] by simp
    have shad: "shadowed_of (reps @ (case snd (apply_surface_plan st plan) of None \<Rightarrow> [] | Some r \<Rightarrow> [r]))
        = shadowed_of reps @ shadowed"
      using replace(5) by (simp add: shadowed_of_def)
    obtain A B where AB: "A = take i (sf_nodes st)" "B = drop (Suc j) (sf_nodes st)" by blast
    have dist: "distinct ((A @ shadowed @ B) @ shadowed_of reps)"
      and sets: "set ((A @ shadowed @ B) @ shadowed_of reps) = eligible_seqs events k"
      using part split AB by (auto simp: fold_partition_def)
    have "k \<notin> set A \<union> set shadowed \<union> set B \<union> set (shadowed_of reps)"
      using fresh sets by (auto simp: eligible_seqs_def)
    then have "distinct ((A @ [k] @ B) @ shadowed_of reps @ shadowed)"
      using dist by auto
    moreover have "set ((A @ [k] @ B) @ shadowed_of reps @ shadowed) = insert k (eligible_seqs events k)"
      using sets by auto
    ultimately show ?thesis
      by (simp add: p' fold_partition_def eligible_seqs_Suc el nodes shad AB del: append_assoc)
  qed
qed

lemma fold_partition_run:
  assumes "fold_partition events (length pre, st, reps)" "events = pre @ es"
    and "fold_log (fold_surface_step events) (length pre, st, reps) es = Inr (k, st', reps')"
  shows "fold_partition events (k, st', reps') \<and> k = length events"
  using assms
proof (induction es arbitrary: pre st reps)
  case Nil
  then show ?case by simp
next
  case (Cons e es)
  from Cons.prems(3) obtain p where step: "fold_surface_step events (length pre, st, reps) e = Inr p"
    and rest: "fold_log (fold_surface_step events) p es = Inr (k, st', reps')"
    by (auto simp: rbind_eq_Inr)
  have e: "e = events ! length pre" using Cons.prems(2) by simp
  obtain st1 reps1 where p: "p = (length (pre @ [e]), st1, reps1)"
    using step by (cases p) (auto simp: fold_surface_step_def rmap_eq_Inr)
  have "fold_partition events (length (pre @ [e]), st1, reps1)"
    using fold_partition_step [OF Cons.prems(1)] step e p by simp
  moreover have "events = (pre @ [e]) @ es" using Cons.prems(2) by simp
  ultimately show ?case
    using rest unfolding p by (rule Cons.IH)
qed

lemma fold_surface_partition:
  assumes "fold_surface events = Inr (nodes, reps)"
  shows "distinct (nodes @ shadowed_of reps)
    \<and> set (nodes @ shadowed_of reps) = eligible_seqs events (length events)"
proof -
  from assms obtain k st where
    f: "fold_log (fold_surface_step events) (length ([] :: event_log), create_fold_state, []) events
          = Inr (k, st, reps)" and n: "nodes = sf_nodes st"
    by (auto simp: fold_surface_def rmap_eq_Inr)
  have "fold_partition events (length ([] :: event_log), create_fold_state, [])"
    by (simp add: fold_partition_def shadowed_of_def create_fold_state_def eligible_seqs_def)
  from fold_partition_run [OF this _ f] show ?thesis by (simp add: fold_partition_def n)
qed

section \<open>The manager refines the complete fold\<close>

text \<open>
  A manager is in step with a log when its state is the fold of the part it has processed and
  a pending plan is the plan for its candidate at the position it was validated for.
\<close>

definition manager_ok :: "event_log \<Rightarrow> surface_manager \<Rightarrow> bool" where
  "manager_ok events mg \<longleftrightarrow>
     mg_base mg = 0 \<and> mg_next mg \<le> length events
     \<and> fold_log admit admit_init (take (mg_next mg) events) = Inr (take (mg_next mg) events, mg_state mg)
     \<and> (case mg_pending mg of
           None \<Rightarrow> True
         | Some (pe, pn, plan) \<Rightarrow>
             pn \<le> length events
             \<and> (\<exists>st. fold_log admit admit_init (take pn events) = Inr (take pn events, st)
                   \<and> plan_surface_event st pe pn (take pn events) 0 = Inr plan))"

lemma manager_ok_new: "manager_ok [] (new_surface_manager 0)"
  by (simp add: manager_ok_def new_surface_manager_def admit_init_def)

lemma manager_ok_extend: "manager_ok events mg \<Longrightarrow> manager_ok (events @ later) mg"
  by (auto simp: manager_ok_def split: option.splits)

lemma admit_prefix_wf:
  "fold_log admit admit_init events = Inr (log, st) \<Longrightarrow> surface_wf (log, st)"
  by (rule surface.wf_fold)

lemma plan_on_prefix:
  assumes "surface_wf (take n events, st)"
  shows "plan_surface_event st e k events 0 = plan_surface_event st e k (take n events) 0"
  using assms plan_extend [of st 0 "take n events" e k "drop n events"]
  by (auto simp: surface_wf_def)

lemma process_one_admits:
  assumes ok: "manager_ok events mg" and n: "mg_next mg = n" "n < length events"
  shows "process_one events mg (events ! n) =
    rmap (\<lambda>(_, st). advance_manager mg n st) (admit (take n events, mg_state mg) (events ! n))"
proof -
  let ?e = "events ! n"
  have run: "fold_log admit admit_init (take n events) = Inr (take n events, mg_state mg)"
    using ok n by (simp add: manager_ok_def)
  have same: "plan_surface_event (mg_state mg) ?e n events 0
      = plan_surface_event (mg_state mg) ?e n (take n events) 0"
    by (rule plan_on_prefix) (rule admit_prefix_wf [OF run])
  have admit: "admit (take n events, mg_state mg) ?e
      = rmap (\<lambda>plan. (take n events @ [?e], fst (apply_surface_plan (mg_state mg) plan)))
          (plan_surface_event (mg_state mg) ?e n events 0)"
    using n(2) by (cases "plan_surface_event (mg_state mg) ?e n (take n events) 0")
      (simp_all add: admit_def apply_surface_event_def same)
  have applied: "rmap fst (apply_surface_event (mg_state mg) ?e n events (mg_base mg))
      = rmap (\<lambda>plan. fst (apply_surface_plan (mg_state mg) plan))
          (plan_surface_event (mg_state mg) ?e n events 0)"
    using ok by (cases "plan_surface_event (mg_state mg) ?e n events 0")
      (simp_all add: apply_surface_event_def manager_ok_def)
  show ?thesis
  proof (cases "\<exists>plan. mg_pending mg = Some (?e, n, plan)")
    case True
    then obtain plan where pend: "mg_pending mg = Some (?e, n, plan)" by blast
    then have "plan_surface_event (mg_state mg) ?e n (take n events) 0 = Inr plan"
      using ok run by (simp add: manager_ok_def)
    then show ?thesis unfolding process_one_def admit same using pend n(1) by simp
  next
    case False
    then have "process_one events mg ?e
        = rmap (advance_manager mg n) (rmap fst (apply_surface_event (mg_state mg) ?e n events (mg_base mg)))"
      unfolding process_one_def using n(1) by (cases "mg_pending mg") (auto simp: Let_def)
    then show ?thesis unfolding applied admit
      by (cases "plan_surface_event (mg_state mg) ?e n events 0") simp_all
  qed
qed

lemma process_one_ok:
  assumes ok: "manager_ok events mg" and n: "mg_next mg = n" "n < length events"
    and one: "process_one events mg (events ! n) = Inr mg'"
  shows "manager_ok events mg'" "mg_next mg' = Suc n"
proof -
  have run: "fold_log admit admit_init (take n events) = Inr (take n events, mg_state mg)"
    using ok n by (simp add: manager_ok_def)
  from one [unfolded process_one_admits [OF ok n]]
  obtain log st where ad: "admit (take n events, mg_state mg) (events ! n) = Inr (log, st)"
    and mg': "mg' = advance_manager mg n st"
    by (auto simp: rmap_eq_Inr)
  have log: "log = take (Suc n) events"
    using ad n(2) by (auto simp: admit_def rmap_eq_Inr take_Suc_conv_app_nth)
  have "fold_log admit admit_init (take (Suc n) events) = Inr (take (Suc n) events, st)"
    using run ad log n(2) by (simp add: take_Suc_conv_app_nth fold_log_snoc)
  then show "manager_ok events mg'" "mg_next mg' = Suc n"
    using ok n by (auto simp: mg' manager_ok_def advance_manager_def split: option.splits)
qed

lemma process_delta_admits:
  assumes "manager_ok events mg" "mg_next mg + m = length events"
  shows "case fold_log admit (take (mg_next mg) events, mg_state mg) (drop (mg_next mg) events) of
           Inl x \<Rightarrow> process_delta mg events = Inl x
         | Inr (log, st) \<Rightarrow> \<exists>mg'. process_delta mg events = Inr mg' \<and> manager_ok events mg'
               \<and> mg_next mg' = length events \<and> mg_state mg' = st"
  using assms
proof (induction m arbitrary: mg)
  case 0
  then show ?case by (simp add: process_delta_def manager_ok_def)
next
  case (Suc m)
  let ?n = "mg_next mg"
  have n: "?n < length events" using Suc.prems(2) by simp
  have base: "mg_base mg = 0" using Suc.prems(1) by (simp add: manager_ok_def)
  have drop: "drop ?n events = events ! ?n # drop (Suc ?n) events"
    using n by (rule Cons_nth_drop_Suc [symmetric])
  have delta: "process_delta mg events
      = rbind (process_one events mg (events ! ?n)) (\<lambda>mg'. fold_log (process_one events) mg' (drop (Suc ?n) events))"
    by (simp add: process_delta_def base drop)
  note one = process_one_admits [OF Suc.prems(1) refl n]
  show ?case
  proof (cases "admit (take ?n events, mg_state mg) (events ! ?n)")
    case (Inl x)
    then show ?thesis by (simp add: drop delta one)
  next
    case (Inr p)
    obtain log st where p: "p = (log, st)" by (cases p)
    have log: "log = take (Suc ?n) events"
      using Inr p n by (auto simp: admit_def rmap_eq_Inr take_Suc_conv_app_nth)
    obtain mg1 where mg1: "process_one events mg (events ! ?n) = Inr mg1" "mg_state mg1 = st"
      by (simp add: one Inr p advance_manager_def)
    note ok1 = process_one_ok [OF Suc.prems(1) refl n mg1(1)]
    have "process_delta mg events = process_delta mg1 events"
      using delta mg1 ok1 by (simp add: process_delta_def manager_ok_def)
    with Suc.IH [OF ok1(1)] ok1(2) Suc.prems(2) mg1(2) Inr p log drop
    show ?thesis by (auto split: sum.splits prod.splits)
  qed
qed

lemma sync_manager_admits:
  assumes "manager_ok events mg"
  shows "case fold_log admit admit_init events of
           Inl x \<Rightarrow> sync_manager mg events = Inl x
         | Inr (log, st) \<Rightarrow> \<exists>mg'. sync_manager mg events = Inr mg' \<and> manager_ok events mg'
               \<and> mg_next mg' = length events \<and> mg_state mg' = st"
proof -
  let ?n = "mg_next mg"
  have le: "?n \<le> length events" and base: "mg_base mg = 0" using assms by (auto simp: manager_ok_def)
  have "fold_log admit admit_init events
      = fold_log admit admit_init (take ?n events @ drop ?n events)" by simp
  also have "\<dots> = fold_log admit (take ?n events, mg_state mg) (drop ?n events)"
    using assms unfolding fold_log_append by (simp add: manager_ok_def)
  finally have split: "fold_log admit admit_init events
      = fold_log admit (take ?n events, mg_state mg) (drop ?n events)" .
  show ?thesis
  proof (cases "?n = length events")
    case True
    then show ?thesis using assms base by (simp add: split sync_manager_def)
  next
    case False
    then have "?n + (length events - ?n) = length events" "sync_manager mg events = process_delta mg events"
      using le base by (auto simp: sync_manager_def)
    with process_delta_admits [OF assms this(1)] show ?thesis by (auto simp: split split: sum.splits prod.splits)
  qed
qed

text \<open>One append as the session performs it: validate the candidate, then push it.\<close>

definition append_validated ::
    "event_log \<times> surface_manager \<Rightarrow> session_event \<Rightarrow> (surface_error, event_log \<times> surface_manager) result" where
  "append_validated p e =
     (case p of (events, mg) \<Rightarrow> rmap (\<lambda>mg'. (events @ [e], mg')) (validate_next mg events e))"

lemma append_validated_admits:
  assumes "manager_ok events mg" "fold_log admit admit_init events = Inr (events, st)"
  shows "case admit (events, st) e of
           Inl x \<Rightarrow> append_validated (events, mg) e = Inl x
         | Inr (log, st') \<Rightarrow> \<exists>mg'. append_validated (events, mg) e = Inr (log, mg') \<and> manager_ok log mg'"
proof -
  obtain mg1 where sync: "sync_manager mg events = Inr mg1" "manager_ok events mg1"
      "mg_next mg1 = length events" "mg_state mg1 = st"
    using sync_manager_admits [OF assms(1)] assms(2) by auto
  have base: "mg_base mg1 = 0" using sync(2) by (simp add: manager_ok_def)
  show ?thesis
  proof (cases "plan_surface_event st e (length events) events 0")
    case (Inl x)
    then show ?thesis using sync base
      by (simp add: append_validated_def validate_next_def admit_def apply_surface_event_def Let_def)
  next
    case (Inr plan)
    define mg2 where "mg2 = mg1\<lparr>mg_pending := Some (e, length events, plan)\<rparr>"
    have "manager_ok (events @ [e]) mg2"
      using sync Inr assms(2) by (simp add: mg2_def manager_ok_def)
    then show ?thesis using sync base Inr
      by (simp add: append_validated_def validate_next_def admit_def apply_surface_event_def mg2_def)
  qed
qed

lemma append_validated_run:
  assumes "manager_ok events mg" "fold_log admit admit_init events = Inr (events, st)"
  shows "case fold_log admit (events, st) es of
           Inl x \<Rightarrow> fold_log append_validated (events, mg) es = Inl x
         | Inr (log, st') \<Rightarrow> \<exists>mg'. fold_log append_validated (events, mg) es = Inr (log, mg') \<and> manager_ok log mg'"
  using assms
proof (induction es arbitrary: events mg st)
  case Nil
  then show ?case by simp
next
  case (Cons e es)
  note step = append_validated_admits [OF Cons.prems, of e]
  show ?case
  proof (cases "admit (events, st) e")
    case (Inl x)
    with step show ?thesis by simp
  next
    case (Inr p)
    obtain st' where p: "p = (events @ [e], st')"
      using Inr by (auto simp: admit_def rmap_eq_Inr)
    with step Inr obtain mg' where mg': "append_validated (events, mg) e = Inr (events @ [e], mg')"
      "manager_ok (events @ [e]) mg'" by auto
    have "fold_log admit admit_init (events @ [e]) = Inr (events @ [e], st')"
      using Cons.prems(2) Inr p by (simp add: fold_log_snoc)
    from Cons.IH [OF mg'(2) this] Inr p mg'(1) show ?thesis by (auto split: sum.splits prod.splits)
  qed
qed

end
