(* ===== verification/Session_Trace.thy ===== *)
theory Session_Trace
  imports Surface
begin

text \<open>
  The relational log checks of \<open>packages/core/session/src/invariant.ts\<close> (turn and step
  boundaries, calls and their results) and the crash repair of
  \<open>packages/core/session/src/repair.ts\<close> that closes an interrupted turn. The trace is a fold
  over the log; the repair is proved to produce events that the surface and the trace both
  accept and that leave nothing open.
\<close>

section \<open>The trace of a log\<close>

record session_trace =
  tr_last_seq :: int
  tr_open_turn :: "int option"
  tr_open_step :: "int option"
  tr_next_turn :: int
  tr_next_step :: int
  tr_pending :: "call_id set"

datatype pending_change = PendNone | PendAdd call_id | PendDelete call_id | PendClear

record trace_transition =
  tt_last_seq :: int
  tt_open_turn :: "int option"
  tt_open_step :: "int option"
  tt_next_turn :: int
  tt_next_step :: int
  tt_pending :: pending_change

datatype trace_error =
    SeqNotIncreasing nat int
  | TurnStartWhileOpen int
  | TurnStartUnexpected int int
  | TurnEndMismatch int
  | TurnEndStepOpen int
  | StepStartWrongTurn int
  | StepStartWhileOpen int
  | StepStartUnexpected int int
  | NotInOpenStep string int int
  | RewriteOutsideTurn
  | ResultWithoutCall call_id
  | OutsideTurn string

definition TOOL_NOT_STARTED :: string where
  "TOOL_NOT_STARTED = ''TOOL_NOT_STARTED''"

definition TOOL_OUTCOME_UNKNOWN :: string where
  "TOOL_OUTCOME_UNKNOWN = ''TOOL_OUTCOME_UNKNOWN''"

definition fresh_trace :: session_trace where
  "fresh_trace =
     \<lparr>tr_last_seq = -1, tr_open_turn = None, tr_open_step = None,
      tr_next_turn = 1, tr_next_step = 1, tr_pending = {}\<rparr>"

definition require_open_step :: "session_trace \<Rightarrow> string \<Rightarrow> int \<Rightarrow> int \<Rightarrow> (trace_error, unit) result" where
  "require_open_step tr kind turn step =
     ensure (tr_open_turn tr = Some turn \<and> tr_open_step tr = Some step) (NotInOpenStep kind turn step)"

text \<open>The transition that leaves the boundaries as they are.\<close>

definition keep_trace :: "session_trace \<Rightarrow> session_event \<Rightarrow> trace_transition" where
  "keep_trace tr e =
     \<lparr>tt_last_seq = int (ev_seq e), tt_open_turn = tr_open_turn tr, tt_open_step = tr_open_step tr,
      tt_next_turn = tr_next_turn tr, tt_next_step = tr_next_step tr, tt_pending = PendNone\<rparr>"

definition is_synthetic_not_started :: "tool_result_data \<Rightarrow> bool" where
  "is_synthetic_not_started d \<longleftrightarrow>
     trm_is_error (trd_message d) = Some True
     \<and> (case trd_error d of Some (_, code) \<Rightarrow> code = TOOL_NOT_STARTED | None \<Rightarrow> False)"

definition validate_event :: "session_trace \<Rightarrow> session_event \<Rightarrow> (trace_error, trace_transition) result" where
  "validate_event tr e =
     (let keep = keep_trace tr e in
      if int (ev_seq e) \<le> tr_last_seq tr then Inl (SeqNotIncreasing (ev_seq e) (tr_last_seq tr))
      else (case ev_data e of
        TurnStart turn \<Rightarrow>
          (if tr_open_turn tr \<noteq> None then Inl (TurnStartWhileOpen turn)
           else if turn \<noteq> tr_next_turn tr then Inl (TurnStartUnexpected (tr_next_turn tr) turn)
           else Inr (keep\<lparr>tt_open_turn := Some turn, tt_next_step := 1\<rparr>))
      | TurnEnd turn _ \<Rightarrow>
          (if tr_open_turn tr \<noteq> Some turn then Inl (TurnEndMismatch turn)
           else if tr_open_step tr \<noteq> None then Inl (TurnEndStepOpen turn)
           else Inr (keep\<lparr>tt_open_turn := None, tt_next_turn := tr_next_turn tr + 1\<rparr>))
      | StepStart turn step \<Rightarrow>
          (if tr_open_turn tr \<noteq> Some turn then Inl (StepStartWrongTurn turn)
           else if tr_open_step tr \<noteq> None then Inl (StepStartWhileOpen step)
           else if step \<noteq> tr_next_step tr then Inl (StepStartUnexpected (tr_next_step tr) step)
           else Inr (keep\<lparr>tt_open_step := Some step\<rparr>))
      | StepEnd turn step \<Rightarrow>
          rmap (\<lambda>_. keep\<lparr>tt_pending := PendClear, tt_open_step := None, tt_next_step := tr_next_step tr + 1\<rparr>)
            (require_open_step tr ''step/end'' turn step)
      | AssistantChunk turn step _ \<Rightarrow>
          rmap (\<lambda>_. keep) (require_open_step tr ''assistant/chunk'' turn step)
      | AssistantMessageEv turn step _ _ \<Rightarrow>
          rmap (\<lambda>_. keep) (require_open_step tr ''assistant/message'' turn step)
      | ToolCall turn step cid _ _ \<Rightarrow>
          rmap (\<lambda>_. keep\<lparr>tt_pending := PendAdd cid\<rparr>) (require_open_step tr ''tool/call'' turn step)
      | ToolResult d \<Rightarrow>
          (if ev_surface_op e \<noteq> Some (JStr ''append'') then
             (if tr_open_turn tr = None then Inl RewriteOutsideTurn else Inr keep)
           else
             rbind (require_open_step tr ''tool/result'' (trd_turn d) (trd_step d))
               (\<lambda>_. let cid = trm_call_id (trd_message d) in
                  if cid \<notin> tr_pending tr \<and> \<not> is_synthetic_not_started d then Inl (ResultWithoutCall cid)
                  else Inr (keep\<lparr>tt_pending := PendDelete cid\<rparr>)))
      | TodoWrite _ \<Rightarrow> (if tr_open_turn tr = None then Inl (OutsideTurn ''todo/write'') else Inr keep)
      | RequestHeader _ _ \<Rightarrow> (if tr_open_turn tr = None then Inl (OutsideTurn ''request/header'') else Inr keep)
      | RequestContext _ \<Rightarrow> (if tr_open_turn tr = None then Inl (OutsideTurn ''request/context'') else Inr keep)
      | _ \<Rightarrow> Inr keep))"

definition apply_pending :: "pending_change \<Rightarrow> call_id set \<Rightarrow> call_id set" where
  "apply_pending ch calls =
     (case ch of PendNone \<Rightarrow> calls | PendAdd c \<Rightarrow> insert c calls | PendDelete c \<Rightarrow> calls - {c} | PendClear \<Rightarrow> {})"

definition apply_transition :: "session_trace \<Rightarrow> trace_transition \<Rightarrow> session_trace" where
  "apply_transition tr t =
     \<lparr>tr_last_seq = tt_last_seq t, tr_open_turn = tt_open_turn t, tr_open_step = tt_open_step t,
      tr_next_turn = tt_next_turn t, tr_next_step = tt_next_step t,
      tr_pending = apply_pending (tt_pending t) (tr_pending tr)\<rparr>"

definition trace_step :: "session_trace \<Rightarrow> session_event \<Rightarrow> (trace_error, session_trace) result" where
  "trace_step tr e = rmap (apply_transition tr) (validate_event tr e)"

definition seed_session :: "event_log \<Rightarrow> (trace_error, session_trace) result" where
  "seed_session events = fold_log trace_step fresh_trace events"

lemma require_open_step_eq_Inr [simp]:
  "require_open_step tr k t s = Inr u \<longleftrightarrow> tr_open_turn tr = Some t \<and> tr_open_step tr = Some s"
  by (simp add: require_open_step_def)

lemmas trace_simps = trace_step_def validate_event_def apply_transition_def apply_pending_def keep_trace_def Let_def

section \<open>What every accepted log satisfies\<close>

definition trace_wf :: "session_trace \<Rightarrow> bool" where
  "trace_wf tr \<longleftrightarrow>
     -1 \<le> tr_last_seq tr \<and> 1 \<le> tr_next_turn tr \<and> 1 \<le> tr_next_step tr
     \<and> (tr_open_turn tr = None \<or> tr_open_turn tr = Some (tr_next_turn tr))
     \<and> (tr_open_step tr = None \<or> tr_open_step tr = Some (tr_next_step tr) \<and> tr_open_turn tr \<noteq> None)
     \<and> (tr_pending tr \<noteq> {} \<longrightarrow> tr_open_step tr \<noteq> None)"

lemma trace_wf_init: "trace_wf fresh_trace"
  by (simp add: trace_wf_def fresh_trace_def)

lemma trace_step_cases:
  assumes "trace_step tr e = Inr tr'"
  obtains (turn_start) n where "ev_data e = TurnStart n" "tr_open_turn tr = None" "n = tr_next_turn tr"
      "tr' = tr\<lparr>tr_last_seq := int (ev_seq e), tr_open_turn := Some n, tr_next_step := 1\<rparr>"
  | (turn_end) n r where "ev_data e = TurnEnd n r" "tr_open_turn tr = Some n" "tr_open_step tr = None"
      "tr' = tr\<lparr>tr_last_seq := int (ev_seq e), tr_open_turn := None, tr_next_turn := tr_next_turn tr + 1\<rparr>"
  | (step_start) n s where "ev_data e = StepStart n s" "tr_open_turn tr = Some n" "tr_open_step tr = None"
      "s = tr_next_step tr" "tr' = tr\<lparr>tr_last_seq := int (ev_seq e), tr_open_step := Some s\<rparr>"
  | (step_end) n s where "ev_data e = StepEnd n s" "tr_open_turn tr = Some n" "tr_open_step tr = Some s"
      "tr' = tr\<lparr>tr_last_seq := int (ev_seq e), tr_open_step := None, tr_next_step := tr_next_step tr + 1,
                tr_pending := {}\<rparr>"
  | (assistant) n s m u where "ev_data e = AssistantMessageEv n s m u" "tr_open_turn tr = Some n"
      "tr_open_step tr = Some s" "tr' = tr\<lparr>tr_last_seq := int (ev_seq e)\<rparr>"
  | (call) n s c nm args where "ev_data e = ToolCall n s c nm args" "tr_open_turn tr = Some n"
      "tr_open_step tr = Some s"
      "tr' = tr\<lparr>tr_last_seq := int (ev_seq e), tr_pending := insert c (tr_pending tr)\<rparr>"
  | (result) d where "ev_data e = ToolResult d" "ev_surface_op e = Some (JStr ''append'')"
      "tr_open_turn tr = Some (trd_turn d)" "tr_open_step tr = Some (trd_step d)"
      "trm_call_id (trd_message d) \<in> tr_pending tr \<or> is_synthetic_not_started d"
      "tr' = tr\<lparr>tr_last_seq := int (ev_seq e), tr_pending := tr_pending tr - {trm_call_id (trd_message d)}\<rparr>"
  | (rewrite) d where "ev_data e = ToolResult d" "ev_surface_op e \<noteq> Some (JStr ''append'')"
      "tr_open_turn tr \<noteq> None" "tr' = tr\<lparr>tr_last_seq := int (ev_seq e)\<rparr>"
  | (neutral) "\<forall>d. ev_data e \<noteq> ToolResult d" "\<forall>n s m u. ev_data e \<noteq> AssistantMessageEv n s m u"
      "\<forall>n s c nm a. ev_data e \<noteq> ToolCall n s c nm a" "\<forall>n. ev_data e \<noteq> TurnStart n"
      "\<forall>n r. ev_data e \<noteq> TurnEnd n r" "\<forall>n s. ev_data e \<noteq> StepStart n s" "\<forall>n s. ev_data e \<noteq> StepEnd n s"
      "tr' = tr\<lparr>tr_last_seq := int (ev_seq e)\<rparr>"
proof -
  note s = assms [unfolded trace_simps]
  show thesis
  proof (cases "ev_data e")
    case (TurnStart n)
    show thesis by (rule turn_start) (use s TurnStart in \<open>auto split: if_splits\<close>)
  next
    case (TurnEnd n r)
    show thesis by (rule turn_end) (use s TurnEnd in \<open>auto split: if_splits\<close>)
  next
    case (StepStart n s')
    show thesis by (rule step_start) (use s StepStart in \<open>auto split: if_splits\<close>)
  next
    case (StepEnd n s')
    show thesis by (rule step_end) (use s StepEnd in \<open>auto simp: rmap_eq_Inr split: if_splits\<close>)
  next
    case (AssistantMessageEv n s' m u)
    show thesis by (rule assistant) (use s AssistantMessageEv in \<open>auto simp: rmap_eq_Inr split: if_splits\<close>)
  next
    case (ToolCall n s' c nm a)
    show thesis by (rule call) (use s ToolCall in \<open>auto simp: rmap_eq_Inr split: if_splits\<close>)
  next
    case (ToolResult d)
    show thesis
    proof (cases "ev_surface_op e = Some (JStr ''append'')")
      case True
      show thesis by (rule result)
        (use s ToolResult True in \<open>auto simp: rmap_eq_Inr rbind_eq_Inr split: if_splits\<close>)
    next
      case False
      show thesis by (rule rewrite)
        (use s ToolResult False in \<open>auto simp: rmap_eq_Inr split: if_splits\<close>)
    qed
  qed (rule neutral; use s in \<open>auto simp: rmap_eq_Inr split: if_splits\<close>)+
qed

lemma trace_wf_step:
  assumes "trace_wf tr" "trace_step tr e = Inr tr'"
  shows "trace_wf tr'"
  using assms(2) assms(1)
  by (cases rule: trace_step_cases) (auto simp: trace_wf_def)

interpretation trace: event_fold fresh_trace trace_step trace_wf
  by unfold_locales (rule trace_wf_init, rule trace_wf_step)

section \<open>Turns are numbered consecutively and closed in order\<close>

definition started_turns :: "event_log \<Rightarrow> int list" where
  "started_turns events = concat (map (\<lambda>e. case ev_data e of TurnStart n \<Rightarrow> [n] | _ \<Rightarrow> []) events)"

definition ended_turns :: "event_log \<Rightarrow> int list" where
  "ended_turns events = concat (map (\<lambda>e. case ev_data e of TurnEnd n _ \<Rightarrow> [n] | _ \<Rightarrow> []) events)"

definition last_started :: "session_trace \<Rightarrow> int" where
  "last_started tr = (if tr_open_turn tr = None then tr_next_turn tr - 1 else tr_next_turn tr)"

lemma turn_lists_Nil [simp]: "started_turns [] = []" "ended_turns [] = []"
  by (simp_all add: started_turns_def ended_turns_def)

lemma turn_lists_snoc:
  "started_turns (es @ [e]) = started_turns es @ (case ev_data e of TurnStart n \<Rightarrow> [n] | _ \<Rightarrow> [])"
  "ended_turns (es @ [e]) = ended_turns es @ (case ev_data e of TurnEnd n _ \<Rightarrow> [n] | _ \<Rightarrow> [])"
  by (simp_all add: started_turns_def ended_turns_def)

lemma upto_snoc: "1 \<le> n \<Longrightarrow> [1..n - 1] @ [n] = [1..(n :: int)]"
  by (simp add: upto_rec2)

lemma trace_numbering_step:
  assumes "trace_wf tr" "trace_step tr e = Inr tr'"
  shows "[1..last_started tr'] = [1..last_started tr] @ (case ev_data e of TurnStart n \<Rightarrow> [n] | _ \<Rightarrow> [])"
    and "[1..tr_next_turn tr' - 1]
      = [1..tr_next_turn tr - 1] @ (case ev_data e of TurnEnd n _ \<Rightarrow> [n] | _ \<Rightarrow> [])"
  using assms(2) assms(1)
  by (cases rule: trace_step_cases;
      auto simp: trace_wf_def last_started_def upto_snoc split: event_data.splits)+

lemma trace_numbering:
  assumes "seed_session events = Inr tr"
  shows "started_turns events = [1..last_started tr] \<and> ended_turns events = [1..tr_next_turn tr - 1]"
  using assms
proof (induction events arbitrary: tr rule: rev_induct)
  case Nil
  then show ?case by (auto simp: seed_session_def fresh_trace_def last_started_def)
next
  case (snoc e events)
  from snoc.prems obtain t where t: "seed_session events = Inr t" "trace_step t e = Inr tr"
    by (auto simp: seed_session_def fold_log_snoc rbind_eq_Inr)
  have wf: "trace_wf t" using t(1) unfolding seed_session_def by (rule trace.wf_fold)
  show ?case
    using snoc.IH [OF t(1)] trace_numbering_step [OF wf t(2)] by (simp add: turn_lists_snoc)
qed

section \<open>Crash repair\<close>

text \<open>
  The scan's cursor: the open turn and step, and the calls without a result in their
  transcript order, each with its step and, once its \<open>tool/call\<close> is recorded, that event's
  sequence number.
\<close>

record repair_scan =
  rs_turn :: "int option"
  rs_step :: "int option"
  rs_pending :: "(call_id, int \<times> nat option) js_map"

definition repair_start :: repair_scan where
  "repair_start = \<lparr>rs_turn = None, rs_step = None, rs_pending = []\<rparr>"

definition register_calls :: "int \<Rightarrow> content_block list \<Rightarrow> (call_id, int \<times> nat option) js_map
    \<Rightarrow> (call_id, int \<times> nat option) js_map" where
  "register_calls step blocks m =
     foldl (\<lambda>acc b. case b of ToolCallBlock cid _ _ \<Rightarrow> map_set cid (step, None) acc | _ \<Rightarrow> acc) m blocks"

definition repair_scan_step :: "repair_scan \<Rightarrow> session_event \<Rightarrow> repair_scan" where
  "repair_scan_step rs e =
     (case ev_data e of
        TurnStart turn \<Rightarrow> \<lparr>rs_turn = Some turn, rs_step = None, rs_pending = []\<rparr>
      | TurnEnd _ _ \<Rightarrow> \<lparr>rs_turn = None, rs_step = None, rs_pending = []\<rparr>
      | StepStart _ step \<Rightarrow> rs\<lparr>rs_step := Some step\<rparr>
      | StepEnd _ _ \<Rightarrow> rs\<lparr>rs_pending := [], rs_step := None\<rparr>
      | AssistantMessageEv _ step m _ \<Rightarrow>
          rs\<lparr>rs_pending := register_calls step (am_content m) (rs_pending rs)\<rparr>
      | ToolCall _ _ cid _ _ \<Rightarrow>
          (case map_get (rs_pending rs) cid of
             Some (step, _) \<Rightarrow> rs\<lparr>rs_pending := map_set cid (step, Some (ev_seq e)) (rs_pending rs)\<rparr>
           | None \<Rightarrow> rs)
      | ToolResult d \<Rightarrow> rs\<lparr>rs_pending := map_del (trm_call_id (trd_message d)) (rs_pending rs)\<rparr>
      | _ \<Rightarrow> rs)"

definition outcome_unknown_text :: string where
  "outcome_unknown_text = ''The tool call was interrupted after it was recorded, but no result was durably recorded. Its outcome is unknown. Decide whether to retry from the tool semantics: retry only if the operation is read-only or idempotent; if it may have side effects, first verify external state or ask the user. Do not retry blindly.''"

definition not_started_text :: string where
  "not_started_text = ''The tool call was interrupted before the Harness recorded it as started. Retry it if it is still needed.''"

definition interrupted_result :: "int \<Rightarrow> nat \<Rightarrow> int \<Rightarrow> call_id \<times> int \<times> nat option \<Rightarrow> session_event" where
  "interrupted_result turn n time entry =
     (case entry of (cid, step, call_seq) \<Rightarrow>
        surface_event n time
          (ToolResult
            \<lparr>trd_turn = turn, trd_step = step,
             trd_message =
               \<lparr>trm_id = ''interrupted-tool-result-'' @ cid @ ''-'' @ show_nat n,
                trm_call_id = cid, trm_block_call_id = cid,
                trm_content = [TextBlock (if call_seq \<noteq> None then outcome_unknown_text else not_started_text)],
                trm_is_error = Some True\<rparr>,
             trd_error = Some (if call_seq \<noteq> None then (''ToolOutcomeUnknownError'', TOOL_OUTCOME_UNKNOWN)
                               else (''ToolNotStartedError'', TOOL_NOT_STARTED)),
             trd_meta = None\<rparr>)
          OpAppend (map_option (\<lambda>c. [c]) call_seq))"

fun close_calls :: "int \<Rightarrow> nat \<Rightarrow> int \<Rightarrow> (call_id \<times> int \<times> nat option) list \<Rightarrow> event_log" where
  "close_calls turn n time [] = []"
| "close_calls turn n time (entry # rest) =
     interrupted_result turn n time entry # close_calls turn (Suc n) time rest"

definition interrupted_turn_closers :: "event_log \<Rightarrow> event_log" where
  "interrupted_turn_closers events =
     (let rs = foldl repair_scan_step repair_start events in
      case (rs_turn rs, last_opt events) of
        (Some turn, Some lst) \<Rightarrow>
          (let n = ev_seq lst + 1; time = ev_time lst;
               results = close_calls turn n time (rs_pending rs);
               n1 = n + length (rs_pending rs);
               step_close = (case rs_step rs of
                               Some step \<Rightarrow> [plain_event n1 time (StepEnd turn step)]
                             | None \<Rightarrow> []);
               n2 = n1 + length step_close
           in results @ step_close @ [plain_event n2 time (TurnEnd turn TurnInterrupted)])
      | _ \<Rightarrow> [])"

text \<open>Together: what the session store runs on a loaded log.\<close>

definition repair_log :: "event_log \<Rightarrow> event_log" where
  "repair_log events = events @ interrupted_turn_closers events"

section \<open>The repaired log is accepted and balanced\<close>

text \<open>The repair's cursor agrees with the trace of the same log.\<close>

definition scan_ok :: "nat \<Rightarrow> session_trace \<Rightarrow> repair_scan \<Rightarrow> bool" where
  "scan_ok k tr rs \<longleftrightarrow>
     rs_turn rs = tr_open_turn tr \<and> rs_step rs = tr_open_step tr
     \<and> distinct (map fst (rs_pending rs))
     \<and> (\<forall>c s q. map_get (rs_pending rs) c = Some (s, q) \<longrightarrow>
           tr_open_step tr = Some s
           \<and> (q \<noteq> None \<longrightarrow> c \<in> tr_pending tr \<and> the q < k))"

lemma register_calls_get:
  "map_get (register_calls step blocks m) c = Some v \<Longrightarrow> map_get m c = Some v \<or> v = (step, None)"
proof (induction blocks arbitrary: m)
  case Nil
  then show ?case by (simp add: register_calls_def)
next
  case (Cons b blocks)
  then show ?case
    by (cases b) (auto simp: register_calls_def split: if_splits dest!: Cons.IH [unfolded register_calls_def])
qed

lemma register_calls_distinct:
  "distinct (map fst m) \<Longrightarrow> distinct (map fst (register_calls step blocks m))"
  unfolding register_calls_def
  by (induction blocks arbitrary: m) (auto simp: map_set_distinct split: content_block.splits)

lemma repair_scan_step_neutral:
  assumes "\<forall>d. ev_data e \<noteq> ToolResult d" "\<forall>n s m u. ev_data e \<noteq> AssistantMessageEv n s m u"
      "\<forall>n s c nm a. ev_data e \<noteq> ToolCall n s c nm a" "\<forall>n. ev_data e \<noteq> TurnStart n"
      "\<forall>n r. ev_data e \<noteq> TurnEnd n r" "\<forall>n s. ev_data e \<noteq> StepStart n s" "\<forall>n s. ev_data e \<noteq> StepEnd n s"
  shows "repair_scan_step rs e = rs"
  using assms by (cases "ev_data e") (auto simp: repair_scan_step_def)

lemma scan_ok_step:
  assumes wf: "trace_wf tr" and step: "trace_step tr e = Inr tr'" and ok: "scan_ok k tr rs" and seq: "ev_seq e = k"
  shows "scan_ok (Suc k) tr' (repair_scan_step rs e)"
  using step
proof (cases rule: trace_step_cases)
  case (turn_start n)
  then show ?thesis using wf by (auto simp: scan_ok_def repair_scan_step_def trace_wf_def)
next
  case (turn_end n r)
  then show ?thesis using wf by (auto simp: scan_ok_def repair_scan_step_def trace_wf_def)
next
  case (step_start n s)
  have "rs_pending rs = []"
    using ok step_start(3) by (cases "rs_pending rs") (auto simp: scan_ok_def split: prod.splits if_splits)
  with step_start ok show ?thesis by (auto simp: scan_ok_def repair_scan_step_def)
next
  case (step_end n s)
  then show ?thesis using ok by (auto simp: scan_ok_def repair_scan_step_def)
next
  case (assistant n s m u)
  let ?new = "register_calls s (am_content m) (rs_pending rs)"
  have rs': "repair_scan_step rs e = rs\<lparr>rs_pending := ?new\<rparr>"
    using assistant(1) by (simp add: repair_scan_step_def)
  have old: "map_get (rs_pending rs) c = Some (s', q) \<Longrightarrow>
      s' = s \<and> (q \<noteq> None \<longrightarrow> c \<in> tr_pending tr \<and> the q < k)" for c s' q
    using ok assistant(3) by (fastforce simp: scan_ok_def)
  have "map_get ?new c = Some (s', q) \<Longrightarrow>
      s' = s \<and> (q \<noteq> None \<longrightarrow> c \<in> tr_pending tr \<and> the q < k)" for c s' q
    using register_calls_get [of s "am_content m" "rs_pending rs" c "(s', q)"] old by auto
  with ok assistant(3,4) show ?thesis
    unfolding rs' by (fastforce simp: scan_ok_def register_calls_distinct less_Suc_eq)
next
  case (call n s c nm args)
  show ?thesis
  proof (cases "map_get (rs_pending rs) c")
    case None
    with call ok show ?thesis by (fastforce simp: scan_ok_def repair_scan_step_def)
  next
    case (Some v)
    obtain a b where v: "v = (a, b)" by (cases v)
    have rs': "repair_scan_step rs e = rs\<lparr>rs_pending := map_set c (a, Some k) (rs_pending rs)\<rparr>"
      using call(1) Some v seq by (simp add: repair_scan_step_def)
    have old: "map_get (rs_pending rs) c' = Some (s', q) \<Longrightarrow>
        s' = s \<and> (q \<noteq> None \<longrightarrow> c' \<in> tr_pending tr \<and> the q < k)" for c' s' q
      using ok call(3) by (fastforce simp: scan_ok_def)
    have "a = s" using old Some v by simp
    then have "map_get (map_set c (a, Some k) (rs_pending rs)) c' = Some (s', q) \<Longrightarrow>
        s' = s \<and> (q \<noteq> None \<longrightarrow> c' \<in> insert c (tr_pending tr) \<and> the q < Suc k)" for c' s' q
      using old [of c' s' q] by (auto split: if_splits)
    with ok call(3,4) show ?thesis
      unfolding rs' by (auto simp: scan_ok_def map_set_distinct simp del: map_get_set)
  qed
next
  case (result d)
  then show ?thesis using ok
    by (fastforce simp: scan_ok_def repair_scan_step_def map_del_distinct split: if_splits)
next
  case (rewrite d)
  then show ?thesis using ok
    by (fastforce simp: scan_ok_def repair_scan_step_def map_del_distinct split: if_splits)
next
  case neutral
  then show ?thesis using ok by (fastforce simp: scan_ok_def repair_scan_step_neutral)
qed

lemma scan_ok_log:
  assumes "seed_session events = Inr tr" "contiguous events"
  shows "scan_ok (length events) tr (foldl repair_scan_step repair_start events)"
  using assms
proof (induction events arbitrary: tr rule: rev_induct)
  case Nil
  then show ?case by (auto simp: seed_session_def scan_ok_def repair_start_def fresh_trace_def)
next
  case (snoc e events)
  from snoc.prems(1) obtain t where t: "seed_session events = Inr t" "trace_step t e = Inr tr"
    by (auto simp: seed_session_def fold_log_snoc rbind_eq_Inr)
  have wf: "trace_wf t" using t(1) unfolding seed_session_def by (rule trace.wf_fold)
  from snoc t wf show ?case by (auto intro: scan_ok_step)
qed

lemma trace_last_seq:
  "seed_session events = Inr tr \<Longrightarrow> contiguous events \<Longrightarrow> tr_last_seq tr = int (length events) - 1"
proof (induction events arbitrary: tr rule: rev_induct)
  case (snoc e events)
  then show ?case
    by (auto simp: seed_session_def fold_log_snoc rbind_eq_Inr elim!: trace_step_cases)
qed (auto simp: seed_session_def fresh_trace_def)

lemma close_calls_length [simp]: "length (close_calls turn n time es) = length es"
  by (induction es arbitrary: n) simp_all

lemma interrupted_result_trace:
  assumes "tr_last_seq tr < int n" "tr_open_turn tr = Some turn" "tr_open_step tr = Some step"
    and "q \<noteq> None \<longrightarrow> c \<in> tr_pending tr"
  shows "trace_step tr (interrupted_result turn n time (c, step, q))
    = Inr (tr\<lparr>tr_last_seq := int n, tr_pending := tr_pending tr - {c}\<rparr>)"
  using assms
  by (cases q) (auto simp: trace_simps interrupted_result_def surface_event_def
      is_synthetic_not_started_def require_open_step_def)

lemma close_calls_trace:
  assumes "tr_last_seq tr < int n" "tr_open_turn tr = Some turn"
    and "\<forall>(c, s, q)\<in>set entries. tr_open_step tr = Some s \<and> (q \<noteq> None \<longrightarrow> c \<in> tr_pending tr)"
    and "distinct (map fst entries)"
  shows "\<exists>tr'. fold_log trace_step tr (close_calls turn n time entries) = Inr tr'
      \<and> tr_last_seq tr' < int (n + length entries) \<and> tr_open_turn tr' = Some turn
      \<and> tr_open_step tr' = tr_open_step tr \<and> tr_next_turn tr' = tr_next_turn tr"
  using assms
proof (induction entries arbitrary: tr n)
  case Nil
  then show ?case by simp
next
  case (Cons entry entries)
  obtain c s q where entry: "entry = (c, s, q)" by (cases entry)
  define tr1 where "tr1 = tr\<lparr>tr_last_seq := int n, tr_pending := tr_pending tr - {c}\<rparr>"
  have step: "trace_step tr (interrupted_result turn n time entry) = Inr tr1"
    unfolding entry tr1_def by (rule interrupted_result_trace) (use Cons.prems entry in auto)
  have "\<exists>tr'. fold_log trace_step tr1 (close_calls turn (Suc n) time entries) = Inr tr'
      \<and> tr_last_seq tr' < int (Suc n + length entries) \<and> tr_open_turn tr' = Some turn
      \<and> tr_open_step tr' = tr_open_step tr1 \<and> tr_next_turn tr' = tr_next_turn tr1"
  proof (rule Cons.IH)
    show "\<forall>(c', s', q')\<in>set entries. tr_open_step tr1 = Some s' \<and> (q' \<noteq> None \<longrightarrow> c' \<in> tr_pending tr1)"
      using Cons.prems(3,4) by (force simp: tr1_def entry)
  qed (use Cons.prems in \<open>auto simp: tr1_def\<close>)
  then show ?case using step by (auto simp: tr1_def)
qed

lemma event_seq_of_nat [simp]: "event_seq_of (JNum (NInt (int n))) = (if is_safe_integer (NInt (int n)) then Some n else None)"
  by (simp add: event_seq_of_def)

lemma interrupted_result_admit:
  assumes "length events = n" "q \<noteq> None \<longrightarrow> the q < n" "int n \<le> max_safe_integer"
  shows "admit (events, st) (interrupted_result turn n time (c, step, q))
    = Inr (events @ [interrupted_result turn n time (c, step, q)], st\<lparr>sf_nodes := sf_nodes st @ [n]\<rparr>)"
  using assms
  by (cases q)
    (auto simp: admit_def apply_surface_event_def plan_surface_event_def interrupted_result_def
      surface_event_def surface_op_of_def is_surface_eligible_type_def assert_provenance_def
      cited_sources_def seqs_json_def safe_int_def max_safe_integer_def)

lemma close_calls_admit:
  assumes "length events = n" "\<forall>(c, s, q)\<in>set entries. q \<noteq> None \<longrightarrow> the q < n"
    and "int (n + length entries) \<le> max_safe_integer"
  shows "fold_log admit (events, st) (close_calls turn n time entries)
    = Inr (events @ close_calls turn n time entries,
           st\<lparr>sf_nodes := sf_nodes st @ [n..<n + length entries]\<rparr>)"
  using assms
proof (induction entries arbitrary: events n st)
  case Nil
  then show ?case by simp
next
  case (Cons entry entries)
  obtain c s q where entry: "entry = (c, s, q)" by (cases entry)
  have "fold_log admit (events @ [interrupted_result turn n time entry], st\<lparr>sf_nodes := sf_nodes st @ [n]\<rparr>)
        (close_calls turn (Suc n) time entries)
      = Inr ((events @ [interrupted_result turn n time entry]) @ close_calls turn (Suc n) time entries,
           (st\<lparr>sf_nodes := sf_nodes st @ [n]\<rparr>)\<lparr>sf_nodes :=
              sf_nodes (st\<lparr>sf_nodes := sf_nodes st @ [n]\<rparr>) @ [Suc n..<Suc n + length entries]\<rparr>)"
    by (rule Cons.IH) (use Cons.prems in auto)
  moreover have "[n..<n + length (entry # entries)] = n # [Suc n..<Suc n + length entries]"
    by (subst upt_conv_Cons) simp_all
  ultimately show ?case
    using interrupted_result_admit [of events n q st turn time c s] Cons.prems by (simp add: entry)
qed

lemma admit_plain:
  assumes "length events = n" "\<not> is_surface_eligible_type (event_type d)"
  shows "admit (events, st) (plain_event n t d) = Inr (events @ [plain_event n t d], st)"
  using assms
  by (simp add: admit_def apply_surface_event_def plan_surface_event_def surface_op_of_def plain_event_def)

text \<open>The shape of a non-empty repair.\<close>

lemma repair_cases:
  assumes "seed_session events = Inr tr" "contiguous events"
  obtains (balanced) "tr_open_turn tr = None" "interrupted_turn_closers events = []"
  | (open_turn) turn rs time closers where "tr_open_turn tr = Some turn" "events \<noteq> []"
      "rs = foldl repair_scan_step repair_start events" "scan_ok (length events) tr rs" "time = ev_time (last events)"
      "closers = close_calls turn (length events) time (rs_pending rs)"
      "interrupted_turn_closers events = closers
        @ (case tr_open_step tr of None \<Rightarrow> [] | Some step \<Rightarrow> [plain_event (length events + length (rs_pending rs)) time (StepEnd turn step)])
        @ [plain_event (length events + length (rs_pending rs) + (if tr_open_step tr = None then 0 else 1)) time
             (TurnEnd turn TurnInterrupted)]"
proof -
  define rs where "rs = foldl repair_scan_step repair_start events"
  have ok: "scan_ok (length events) tr rs" unfolding rs_def by (rule scan_ok_log [OF assms])
  show thesis
  proof (cases "tr_open_turn tr")
    case None
    with ok show thesis by (intro balanced) (simp_all add: interrupted_turn_closers_def scan_ok_def rs_def)
  next
    case (Some turn)
    have ne: "events \<noteq> []" using Some assms(1) by (auto simp: seed_session_def fresh_trace_def)
    then have seq: "ev_seq (last events) = length events - 1"
      using assms(2) by (auto simp: contiguous_def last_conv_nth)
    show thesis
      by (rule open_turn [OF Some ne rs_def ok refl refl])
        (use ok ne seq Some in \<open>auto simp: interrupted_turn_closers_def Let_def scan_ok_def last_opt_def
            rs_def [symmetric] split: option.splits\<close>)
  qed
qed

text \<open>The repaired log passes the surface fold and the trace, and leaves nothing open.\<close>

lemma closers_trace:
  assumes ok: "scan_ok k tr rs" and turn: "tr_open_turn tr = Some turn" and last: "tr_last_seq tr = int k - 1"
  shows "\<exists>tr'. fold_log trace_step tr (close_calls turn k time (rs_pending rs)
        @ (case tr_open_step tr of None \<Rightarrow> [] | Some step \<Rightarrow> [plain_event (k + length (rs_pending rs)) time (StepEnd turn step)])
        @ [plain_event (k + length (rs_pending rs) + (if tr_open_step tr = None then 0 else 1)) time
             (TurnEnd turn TurnInterrupted)]) = Inr tr' \<and> tr_open_turn tr' = None \<and> tr_open_step tr' = None
        \<and> tr_next_turn tr' = tr_next_turn tr + 1"
proof -
  have "\<exists>tr1. fold_log trace_step tr (close_calls turn k time (rs_pending rs)) = Inr tr1
      \<and> tr_last_seq tr1 < int (k + length (rs_pending rs)) \<and> tr_open_turn tr1 = Some turn
      \<and> tr_open_step tr1 = tr_open_step tr \<and> tr_next_turn tr1 = tr_next_turn tr"
  proof (rule close_calls_trace)
    show "\<forall>(c, s, q)\<in>set (rs_pending rs). tr_open_step tr = Some s \<and> (q \<noteq> None \<longrightarrow> c \<in> tr_pending tr)"
      using ok by (force simp: scan_ok_def dest: map_of_is_SomeI)
  qed (use ok turn last in \<open>auto simp: scan_ok_def\<close>)
  then obtain tr1 where tr1: "fold_log trace_step tr (close_calls turn k time (rs_pending rs)) = Inr tr1"
      "tr_last_seq tr1 < int (k + length (rs_pending rs))" "tr_open_turn tr1 = Some turn"
      "tr_open_step tr1 = tr_open_step tr" "tr_next_turn tr1 = tr_next_turn tr" by blast
  show ?thesis
    using tr1 by (cases "tr_open_step tr")
      (simp_all add: fold_log_append trace_simps plain_event_def require_open_step_def)
qed

lemma closers_admit:
  assumes ok: "scan_ok (length events) tr rs"
    and bound: "int (length events + length (rs_pending rs)) \<le> max_safe_integer"
  shows "\<exists>st' later. fold_log admit (events, st) (close_calls turn (length events) time (rs_pending rs)
        @ (case sp of None \<Rightarrow> [] | Some step \<Rightarrow> [plain_event (length events + length (rs_pending rs)) time (StepEnd turn step)])
        @ [plain_event (length events + length (rs_pending rs) + (if sp = None then 0 else 1)) time
             (TurnEnd turn r)]) = Inr (later, st')
      \<and> sf_nodes st' = sf_nodes st @ [length events..<length events + length (rs_pending rs)]
      \<and> sf_generation st' = sf_generation st"
proof -
  have calls: "fold_log admit (events, st) (close_calls turn (length events) time (rs_pending rs))
      = Inr (events @ close_calls turn (length events) time (rs_pending rs),
           st\<lparr>sf_nodes := sf_nodes st @ [length events..<length events + length (rs_pending rs)]\<rparr>)"
  proof (rule close_calls_admit [OF refl _ bound])
    show "\<forall>(c, s, q)\<in>set (rs_pending rs). q \<noteq> None \<longrightarrow> the q < length events"
      using ok by (force simp: scan_ok_def dest: map_of_is_SomeI)
  qed
  show ?thesis
    by (cases sp) (simp_all add: fold_log_append calls admit_plain is_surface_eligible_type_def)
qed

lemma contiguous_of_fold:
  "fold_surface events = Inr r \<Longrightarrow> contiguous events"
proof -
  assume "fold_surface events = Inr r"
  then obtain st where "fold_log admit admit_init events = Inr (events, st)"
    using fold_surface_iff_admit by (cases r) blast
  then show ?thesis using surface.wf_fold by (auto simp: surface_wf_def)
qed

lemma repair_log_accepted:
  assumes "seed_session events = Inr tr" "fold_surface events = Inr (nodes, reps)"
    and bound: "int (length (repair_log events)) \<le> max_safe_integer"
  shows "\<exists>tr' later reps'. seed_session (repair_log events) = Inr tr'
      \<and> tr_open_turn tr' = None \<and> tr_open_step tr' = None \<and> tr_pending tr' = {}
      \<and> fold_surface (repair_log events) = Inr (nodes @ later, reps')"
proof -
  note cont = contiguous_of_fold [OF assms(2)]
  have wf: "trace_wf tr" using assms(1) unfolding seed_session_def by (rule trace.wf_fold)
  obtain st where st: "fold_log admit admit_init events = Inr (events, st)" "sf_nodes st = nodes"
    using fold_surface_iff_admit [OF assms(2)] by blast
  have "\<exists>tr'. seed_session (repair_log events) = Inr tr' \<and> tr_open_turn tr' = None \<and> tr_open_step tr' = None"
    and "\<exists>later reps'. fold_surface (repair_log events) = Inr (nodes @ later, reps')"
  proof -
    show "\<exists>tr'. seed_session (repair_log events) = Inr tr' \<and> tr_open_turn tr' = None \<and> tr_open_step tr' = None"
      using assms(1) cont
    proof (cases rule: repair_cases)
      case balanced
      then show ?thesis using assms(1) wf by (auto simp: repair_log_def trace_wf_def)
    next
      case (open_turn turn rs time closers)
      with closers_trace [OF open_turn(4,1) trace_last_seq [OF assms(1) cont], of time] assms(1)
      show ?thesis by (auto simp: repair_log_def seed_session_def fold_log_append split: option.splits)
    qed
    show "\<exists>later reps'. fold_surface (repair_log events) = Inr (nodes @ later, reps')"
      using assms(1) cont
    proof (cases rule: repair_cases)
      case balanced
      then show ?thesis using assms(2) by (auto simp: repair_log_def)
    next
      case (open_turn turn rs time closers)
      have bd: "int (length events + length (rs_pending rs)) \<le> max_safe_integer"
        using bound open_turn(6,7) by (auto simp: repair_log_def)
      obtain st' log' where
        "fold_log admit (events, st) (interrupted_turn_closers events) = Inr (log', st')"
        and nodes': "sf_nodes st' = nodes @ [length events..<length events + length (rs_pending rs)]"
        using closers_admit [OF open_turn(4) bd, of st turn time "tr_open_step tr" TurnInterrupted]
          open_turn(6,7) st(2) by auto
      then have "fold_log admit admit_init (repair_log events) = Inr (log', st')"
        by (simp add: repair_log_def fold_log_append [of _ _ events] st(1))
      with nodes' have "fold_log admit admit_init (repair_log events) = Inr (log', st')"
        "sf_nodes st' = nodes @ [length events..<length events + length (rs_pending rs)]" by auto
      then show ?thesis
        using fold_surface_complete admit_log [of "[]"] by (fastforce simp: admit_init_def)
    qed
  qed
  moreover have "tr_pending tr' = {}" if "seed_session (repair_log events) = Inr tr'" "tr_open_step tr' = None" for tr'
  proof -
    have "trace_wf tr'" using that(1) unfolding seed_session_def by (rule trace.wf_fold)
    then show ?thesis using that(2) by (auto simp: trace_wf_def)
  qed
  ultimately show ?thesis by blast
qed

lemma repair_log_idem:
  assumes "seed_session events = Inr tr" "fold_surface events = Inr (nodes, reps)"
    and bound: "int (length (repair_log events)) \<le> max_safe_integer"
  shows "repair_log (repair_log events) = repair_log events"
proof -
  obtain tr' later reps' where r: "seed_session (repair_log events) = Inr tr'" "tr_open_turn tr' = None"
    "fold_surface (repair_log events) = Inr (nodes @ later, reps')"
    using repair_log_accepted [OF assms] by blast
  have "interrupted_turn_closers (repair_log events) = []"
    using r(1) contiguous_of_fold [OF r(3)] by (cases rule: repair_cases) (use r(2) in auto)
  then show ?thesis by (simp add: repair_log_def)
qed

section \<open>Every tool call of the interrupted step gets a result\<close>

definition is_result_for :: "call_id \<Rightarrow> session_event \<Rightarrow> bool" where
  "is_result_for c e = (case ev_data e of ToolResult d \<Rightarrow> trm_call_id (trd_message d) = c | _ \<Rightarrow> False)"

definition is_boundary :: "session_event \<Rightarrow> bool" where
  "is_boundary e = (case ev_data e of TurnStart _ \<Rightarrow> True | TurnEnd _ _ \<Rightarrow> True | StepEnd _ _ \<Rightarrow> True | _ \<Rightarrow> False)"

definition requests_call :: "call_id \<Rightarrow> session_event \<Rightarrow> bool" where
  "requests_call c e =
     (case ev_data e of
        AssistantMessageEv _ _ m _ \<Rightarrow>
          list_ex (\<lambda>b. case b of ToolCallBlock c' _ _ \<Rightarrow> c' = c | _ \<Rightarrow> False) (am_content m)
      | _ \<Rightarrow> False)"

definition answered :: "event_log \<Rightarrow> nat \<Rightarrow> call_id \<Rightarrow> bool" where
  "answered events i c = list_ex (is_result_for c) (drop (Suc i) events)"

definition step_closed_after :: "event_log \<Rightarrow> nat \<Rightarrow> bool" where
  "step_closed_after events i = list_ex is_boundary (drop (Suc i) events)"

lemma register_calls_has:
  "map_has m c \<Longrightarrow> map_has (register_calls step blocks m) c"
  unfolding register_calls_def
  by (induction blocks arbitrary: m) (auto split: content_block.splits)

lemma register_calls_new:
  "ToolCallBlock c nm args \<in> set blocks \<Longrightarrow> map_has (register_calls step blocks m) c"
proof (induction blocks arbitrary: m)
  case Nil
  then show ?case by simp
next
  case (Cons b blocks)
  then show ?case
    using register_calls_has [of "map_set c (step, None) m" c step blocks]
    by (auto simp: register_calls_def)
qed

lemma scan_step_keeps:
  assumes "map_has (rs_pending rs) c" "\<not> is_boundary e"
  shows "is_result_for c e \<or> map_has (rs_pending (repair_scan_step rs e)) c"
  using assms by (cases "ev_data e")
    (auto simp: repair_scan_step_def is_boundary_def is_result_for_def register_calls_has
      split: option.splits)

lemma requests_callD:
  assumes "requests_call c e"
  shows "\<exists>n s m u nm args. ev_data e = AssistantMessageEv n s m u \<and> ToolCallBlock c nm args \<in> set (am_content m)"
proof -
  have block: "(case b of ToolCallBlock c' _ _ \<Rightarrow> c' = c | _ \<Rightarrow> False) \<Longrightarrow> \<exists>nm args. b = ToolCallBlock c nm args" for b
    by (cases b) auto
  show ?thesis using assms
    by (cases "ev_data e") (fastforce simp: requests_call_def list_ex_iff dest: block)+
qed

lemma scan_step_registers:
  assumes "requests_call c e"
  shows "map_has (rs_pending (repair_scan_step rs e)) c"
  using requests_callD [OF assms] register_calls_new by (fastforce simp: repair_scan_step_def)

lemma scan_covers:
  assumes "i < length events" "requests_call c (events ! i)" "\<not> step_closed_after events i"
  shows "answered events i c \<or> map_has (rs_pending (foldl repair_scan_step repair_start events)) c"
  using assms
proof (induction events rule: rev_induct)
  case Nil
  then show ?case by simp
next
  case (snoc e events)
  show ?case
  proof (cases "i < length events")
    case True
    with snoc.prems have e: "\<not> is_boundary e" and prev: "requests_call c (events ! i)" "\<not> step_closed_after events i"
      by (auto simp: step_closed_after_def nth_append)
    from snoc.IH [OF True prev] scan_step_keeps [OF _ e] True show ?thesis
      by (auto simp: answered_def)
  next
    case False
    with snoc.prems have "requests_call c e" by (auto simp: nth_append less_Suc_eq)
    then show ?thesis using scan_step_registers [of c e] by auto
  qed
qed

lemma requests_open_step:
  assumes "seed_session events = Inr tr" "i < length events" "requests_call c (events ! i)"
    and "\<not> step_closed_after events i"
  shows "tr_open_step tr \<noteq> None"
  using assms
proof (induction events arbitrary: tr rule: rev_induct)
  case Nil
  then show ?case by simp
next
  case (snoc e events)
  from snoc.prems obtain t where t: "seed_session events = Inr t" "trace_step t e = Inr tr"
    by (auto simp: seed_session_def fold_log_snoc rbind_eq_Inr)
  show ?case
  proof (cases "i < length events")
    case True
    with snoc.prems have e: "\<not> is_boundary e" and prev: "requests_call c (events ! i)" "\<not> step_closed_after events i"
      by (auto simp: step_closed_after_def nth_append)
    from snoc.IH [OF t(1) True prev] t(2) e show ?thesis
      by (auto simp: is_boundary_def elim!: trace_step_cases)
  next
    case False
    with snoc.prems have "requests_call c e" by (auto simp: nth_append less_Suc_eq)
    then show ?thesis using t(2)
      by (auto elim!: trace_step_cases dest!: requests_callD)
  qed
qed

lemma close_calls_result:
  "map_has entries c \<Longrightarrow> list_ex (is_result_for c) (close_calls turn n time entries)"
  by (induction entries arbitrary: n)
    (auto simp: interrupted_result_def is_result_for_def surface_event_def split: if_splits)

lemma repair_answers_call:
  assumes "seed_session events = Inr tr" "contiguous events"
    and "i < length events" "requests_call c (events ! i)" "\<not> step_closed_after events i"
  shows "answered (repair_log events) i c"
  using assms(1,2)
proof (cases rule: repair_cases)
  case balanced
  have "trace_wf tr" using assms(1) unfolding seed_session_def by (rule trace.wf_fold)
  with balanced requests_open_step [OF assms(1,3-5)] show ?thesis by (auto simp: trace_wf_def)
next
  case (open_turn turn rs time closers)
  from scan_covers [OF assms(3-5)] show ?thesis
  proof
    assume "answered events i c"
    then show ?thesis using assms(3) by (simp add: repair_log_def answered_def)
  next
    assume "map_has (rs_pending (foldl repair_scan_step repair_start events)) c"
    then have "list_ex (is_result_for c) closers" using open_turn(3,6) close_calls_result by blast
    then show ?thesis using assms(3) open_turn(7) by (simp add: repair_log_def answered_def)
  qed
qed

end
