(* ===== verification/Request_Header.thy ===== *)
theory Request_Header
  imports Session_Events
begin

text \<open>
  The request header in force (\<open>packages/core/session/src/request-header.ts\<close>) and the
  configuration equality it rests on (\<open>packages/llm/llm/src/call-config.ts\<close>): the canonical
  form of a header, the field-wise comparison that decides whether a header snapshot is a real
  change, and the fold of the logged snapshots.
\<close>

section \<open>Configuration equality\<close>

text \<open>JavaScript \<open>===\<close> on optional numbers: NaN differs from itself.\<close>

definition same_number :: "jsnum option \<Rightarrow> jsnum option \<Rightarrow> bool" where
  "same_number a b \<longleftrightarrow> a = b \<and> a \<noteq> Some NNaN"

definition call_config_equals :: "llm_call_config \<Rightarrow> llm_call_config \<Rightarrow> bool" where
  "call_config_equals a b =
     (if cc_provider a \<noteq> cc_provider b \<or> cc_model a \<noteq> cc_model b
         \<or> cc_reasoning_effort a \<noteq> cc_reasoning_effort b
         \<or> \<not> same_number (cc_temperature a) (cc_temperature b)
         \<or> \<not> same_number (cc_max_tokens a) (cc_max_tokens b)
      then False
      else (case (cc_stop a, cc_stop b) of
              (Some s, Some t) \<Rightarrow> length s = length t \<and> list_all2 (=) s t
            | (None, None) \<Rightarrow> True
            | _ \<Rightarrow> False))"

section \<open>Canonical headers\<close>

definition canonical_header :: "epoch_header \<Rightarrow> epoch_header" where
  "canonical_header h =
     \<lparr>eh_config = eh_config h,
      eh_adapter_defaults =
        (case eh_adapter_defaults h of
           Some d \<Rightarrow> if ad_reasoning_effort d \<or> ad_max_tokens d then Some d else None
         | None \<Rightarrow> None),
      eh_system = (case eh_system h of Some s \<Rightarrow> if s \<noteq> [] then Some s else None | None \<Rightarrow> None),
      eh_tools = (case eh_tools h of Some ts \<Rightarrow> if ts \<noteq> [] then Some ts else None | None \<Rightarrow> None)\<rparr>"

text \<open>
  Equality of the rendered schemas: the rendering keeps the property order, so it is equality
  of the ordered JSON trees.
\<close>

definition same_schema :: "tool_schema \<Rightarrow> tool_schema \<Rightarrow> bool" where
  "same_schema a b \<longleftrightarrow> a = b"

definition default_flag :: "(adapter_defaults \<Rightarrow> bool) \<Rightarrow> epoch_header \<Rightarrow> bool" where
  "default_flag f h = (case eh_adapter_defaults h of Some d \<Rightarrow> f d | None \<Rightarrow> False)"

definition header_equals :: "epoch_header \<Rightarrow> epoch_header \<Rightarrow> bool" where
  "header_equals a b =
     (if \<not> call_config_equals (eh_config a) (eh_config b)
         \<or> default_flag ad_reasoning_effort a \<noteq> default_flag ad_reasoning_effort b
         \<or> default_flag ad_max_tokens a \<noteq> default_flag ad_max_tokens b
         \<or> eh_system a \<noteq> eh_system b
      then False
      else (let at = (case eh_tools a of Some ts \<Rightarrow> ts | None \<Rightarrow> []);
                bt = (case eh_tools b of Some ts \<Rightarrow> ts | None \<Rightarrow> [])
            in length at = length bt \<and> list_all2 same_schema at bt))"

definition fold_header_step :: "epoch_header option \<Rightarrow> session_event \<Rightarrow> epoch_header option" where
  "fold_header_step h e =
     (case ev_data e of RequestHeader header _ \<Rightarrow> Some (canonical_header header) | _ \<Rightarrow> h)"

definition fold_request_header :: "event_log \<Rightarrow> epoch_header option \<Rightarrow> epoch_header option" where
  "fold_request_header events from_state = foldl fold_header_step from_state events"

definition fold_context_step :: "request_context option \<Rightarrow> session_event \<Rightarrow> request_context option" where
  "fold_context_step c e = (case ev_data e of RequestContext rc \<Rightarrow> Some rc | _ \<Rightarrow> c)"

section \<open>Facts\<close>

definition config_numeric :: "llm_call_config \<Rightarrow> bool" where
  "config_numeric c \<longleftrightarrow> cc_temperature c \<noteq> Some NNaN \<and> cc_max_tokens c \<noteq> Some NNaN"

lemma call_config_equals_iff:
  "call_config_equals a b \<longleftrightarrow> a = b \<and> config_numeric (a :: llm_call_config)"
  by (cases a; cases b)
    (auto simp: call_config_equals_def same_number_def config_numeric_def list.rel_eq split: option.splits)

lemma canonical_header_idem [simp]: "canonical_header (canonical_header h) = canonical_header h"
  by (auto simp: canonical_header_def split: option.splits)

lemma canonical_header_config [simp]: "eh_config (canonical_header h) = eh_config h"
  by (simp add: canonical_header_def)

lemma canonical_tools:
  "(case eh_tools (canonical_header h) of Some ts \<Rightarrow> ts | None \<Rightarrow> []) = []
     \<longleftrightarrow> eh_tools (canonical_header h) = None"
  by (auto simp: canonical_header_def split: option.splits)

lemma canonical_defaults_eq:
  assumes "default_flag ad_reasoning_effort (canonical_header a) = default_flag ad_reasoning_effort (canonical_header b)"
    and "default_flag ad_max_tokens (canonical_header a) = default_flag ad_max_tokens (canonical_header b)"
  shows "eh_adapter_defaults (canonical_header a) = eh_adapter_defaults (canonical_header b)"
  using assms
  by (auto simp: default_flag_def canonical_header_def split: option.splits if_splits)

lemma header_equals_canonical:
  assumes "config_numeric (eh_config a)"
  shows "header_equals (canonical_header a) (canonical_header b)
    \<longleftrightarrow> canonical_header a = canonical_header b"
proof
  let ?a = "canonical_header a" and ?b = "canonical_header b"
  assume h: "header_equals ?a ?b"
  let ?at = "case eh_tools ?a of Some ts \<Rightarrow> ts | None \<Rightarrow> []"
  let ?bt = "case eh_tools ?b of Some ts \<Rightarrow> ts | None \<Rightarrow> []"
  from h have "?at = ?bt"
    by (simp add: header_equals_def same_schema_def [abs_def] list.rel_eq Let_def split: if_splits)
  then have tools: "eh_tools ?a = eh_tools ?b"
    using canonical_tools [of a] canonical_tools [of b] by (auto split: option.splits)
  moreover have "eh_config ?a = eh_config ?b" "eh_system ?a = eh_system ?b"
    using h by (auto simp: header_equals_def call_config_equals_iff split: if_splits)
  moreover have "eh_adapter_defaults ?a = eh_adapter_defaults ?b"
    using h by (intro canonical_defaults_eq) (auto simp: header_equals_def split: if_splits)
  ultimately show "?a = ?b" by simp
next
  assume eq: "canonical_header a = canonical_header b"
  have "list_all2 same_schema ts ts" for ts
    by (induction ts) (simp_all add: same_schema_def)
  moreover have "eh_config a = eh_config b" using eq by (metis canonical_header_config)
  ultimately show "header_equals (canonical_header a) (canonical_header b)"
    using eq assms by (simp add: header_equals_def call_config_equals_iff)
qed

lemma fold_request_header_append:
  "fold_request_header (xs @ ys) h = fold_request_header ys (fold_request_header xs h)"
  by (simp add: fold_request_header_def)

lemma fold_request_header_canonical:
  assumes "\<And>x. h = Some x \<Longrightarrow> canonical_header x = x" "fold_request_header events h = Some r"
  shows "canonical_header r = r"
  using assms
proof (induction events arbitrary: h)
  case Nil
  then show ?case by (simp add: fold_request_header_def)
next
  case (Cons e es)
  show ?case
  proof (rule Cons.IH [of "fold_header_step h e"])
    show "canonical_header x = x" if "fold_header_step h e = Some x" for x
      using that Cons.prems(1) by (auto simp: fold_header_step_def split: event_data.splits)
    show "fold_request_header es (fold_header_step h e) = Some r"
      using Cons.prems(2) by (simp add: fold_request_header_def)
  qed
qed

end
