(* ===== verification/Seed_Validation.thy ===== *)
theory Seed_Validation
  imports Surface
begin

text \<open>
  The raw boundary of the session log (\<open>packages/core/session/src/index.ts\<close>): the checks a
  creation header, a seed event and an embedded message pass before the session accepts them.
  The input is untrusted JSON, so the checks run on JSON values; each \<open>throw\<close> is an error
  constructor. The paths are POSIX paths.
\<close>

section \<open>The creation header\<close>

datatype header_error =
    HeaderNotRecord
  | HeaderBadVersion
  | HeaderIdMismatch
  | HeaderBadCreatedAt
  | HeaderCwdNotString
  | HeaderCwdNotAbsolute string
  | HeaderBadParent
  | HeaderBadSeedLength
  | HeaderBadOrigin
  | HeaderBadDelegationDepth
  | HeaderBadPreset

definition is_absolute :: "string \<Rightarrow> bool" where
  "is_absolute p = (case p of [] \<Rightarrow> False | c # _ \<Rightarrow> c = CHR ''/'')"

definition optional_seq :: "json option \<Rightarrow> bool" where
  "optional_seq j = (case j of None \<Rightarrow> True | Some v \<Rightarrow> event_seq_of v \<noteq> None)"

definition optional_string :: "json option \<Rightarrow> bool" where
  "optional_string j = (case j of None \<Rightarrow> True | Some v \<Rightarrow> as_string (Some v) \<noteq> None)"

definition seq_value :: "json option \<Rightarrow> nat option" where
  "seq_value j = (case j of None \<Rightarrow> None | Some v \<Rightarrow> event_seq_of v)"

definition header_of_record :: "string \<Rightarrow> (string \<times> json) list \<Rightarrow> session_header" where
  "header_of_record sid r =
     \<lparr>sh_version = session_format_version, sh_id = sid,
      sh_created_at = (case seq_value (map_of r ''createdAt'') of Some n \<Rightarrow> int n | None \<Rightarrow> 0),
      sh_cwd = as_string (map_of r ''cwd''),
      sh_parent = as_string (map_of r ''parentSession''),
      sh_seed_length = seq_value (map_of r ''seedLength''),
      sh_subagent = (map_of r ''origin'' \<noteq> None),
      sh_delegation_depth = seq_value (map_of r ''delegationDepth''),
      sh_agent_preset = as_string (map_of r ''agentPreset'')\<rparr>"

definition validate_session_header :: "string \<Rightarrow> json \<Rightarrow> (header_error, session_header) result" where
  "validate_session_header sid input =
     (case input of
        JObj r \<Rightarrow>
          (if map_of r ''version'' \<noteq> Some (JNum (NInt session_format_version)) then Inl HeaderBadVersion
           else if map_of r ''id'' \<noteq> Some (JStr sid) then Inl HeaderIdMismatch
           else if seq_value (map_of r ''createdAt'') = None then Inl HeaderBadCreatedAt
           else rbind
             (case map_of r ''cwd'' of
                None \<Rightarrow> Inr ()
              | Some (JStr p) \<Rightarrow> if is_absolute p then Inr () else Inl (HeaderCwdNotAbsolute p)
              | Some _ \<Rightarrow> Inl HeaderCwdNotString)
             (\<lambda>_.
               if \<not> optional_string (map_of r ''parentSession'') then Inl HeaderBadParent
               else if \<not> optional_seq (map_of r ''seedLength'') then Inl HeaderBadSeedLength
               else if map_of r ''origin'' \<notin> {None, Some (JStr ''subagent'')} then Inl HeaderBadOrigin
               else if \<not> optional_seq (map_of r ''delegationDepth'') then Inl HeaderBadDelegationDepth
               else if \<not> optional_string (map_of r ''agentPreset'') then Inl HeaderBadPreset
               else Inr (header_of_record sid r)))
      | _ \<Rightarrow> Inl HeaderNotRecord)"

text \<open>The JSON record the store builds for a header: optional fields only when present.\<close>

definition opt_field :: "string \<Rightarrow> json option \<Rightarrow> (string \<times> json) list" where
  "opt_field k v = (case v of None \<Rightarrow> [] | Some j \<Rightarrow> [(k, j)])"

definition nat_json :: "nat \<Rightarrow> json" where
  "nat_json n = JNum (NInt (int n))"

definition header_json :: "session_header \<Rightarrow> json" where
  "header_json h =
     JObj ([(''version'', JNum (NInt (sh_version h))), (''id'', JStr (sh_id h)),
            (''createdAt'', JNum (NInt (sh_created_at h)))]
       @ opt_field ''cwd'' (map_option JStr (sh_cwd h))
       @ opt_field ''parentSession'' (map_option JStr (sh_parent h))
       @ opt_field ''seedLength'' (map_option nat_json (sh_seed_length h))
       @ opt_field ''origin'' (if sh_subagent h then Some (JStr ''subagent'') else None)
       @ opt_field ''delegationDepth'' (map_option nat_json (sh_delegation_depth h))
       @ opt_field ''agentPreset'' (map_option JStr (sh_agent_preset h)))"

section \<open>Embedded messages\<close>

datatype seed_error =
    LegacyHeaderDelta
  | LegacyFallbackReason
  | BadEnvelope
  | LacksProviderModel
  | BadReasoningEffort
  | BadAdapterDefaults
  | LacksIdentifiedMessage
  | WrongRole
  | BadSource
  | BadContent
  | NotModelSource
  | NotToolSource
  | NotOneResultBlock
  | MismatchedCallIds
  | SeedSeqMismatch nat
  | SeedSurface surface_error

definition get_field :: "json option \<Rightarrow> string \<Rightarrow> json option" where
  "get_field j k = (case j of Some (JObj r) \<Rightarrow> map_of r k | _ \<Rightarrow> None)"

definition nonempty_string :: "json option \<Rightarrow> bool" where
  "nonempty_string j = (case j of Some (JStr s) \<Rightarrow> s \<noteq> [] | _ \<Rightarrow> False)"

definition has_provider_model :: "json option \<Rightarrow> bool" where
  "has_provider_model v \<longleftrightarrow> nonempty_string (get_field v ''provider'') \<and> nonempty_string (get_field v ''model'')"

definition is_array :: "json option \<Rightarrow> bool" where
  "is_array j = (case j of Some (JArr _) \<Rightarrow> True | _ \<Rightarrow> False)"

definition message_types :: "string list" where
  "message_types = [''user/message'', ''assistant/message'', ''tool/result'']"

definition assert_result_blocks :: "json option \<Rightarrow> json option \<Rightarrow> (seed_error, unit) result" where
  "assert_result_blocks src content =
     (if get_field src ''kind'' \<noteq> Some (JStr ''tool'') \<or> \<not> nonempty_string (get_field src ''callId'')
      then Inl NotToolSource
      else (case content of
              Some (JArr [block]) \<Rightarrow>
                (if get_field (Some block) ''type'' \<noteq> Some (JStr ''tool-result'')
                     \<or> \<not> is_array (get_field (Some block) ''content'')
                 then Inl NotOneResultBlock
                 else if get_field (Some block) ''toolCallId'' \<noteq> get_field src ''callId''
                 then Inl MismatchedCallIds
                 else Inr ())
            | _ \<Rightarrow> Inl NotOneResultBlock))"

definition assert_message_event_shape :: "string \<Rightarrow> json option \<Rightarrow> (seed_error, unit) result" where
  "assert_message_event_shape t data =
     (if t \<notin> set message_types then Inr ()
      else
        (let msg = (if t = ''user/message'' then data else get_field data ''message'');
             src = get_field msg ''source'';
             content = get_field msg ''content''
         in if \<not> nonempty_string (get_field msg ''id'') then Inl LacksIdentifiedMessage
            else if get_field msg ''role''
                \<noteq> Some (JStr (if t = ''assistant/message'' then ''assistant'' else ''user'')) then Inl WrongRole
            else if \<not> nonempty_string (get_field src ''kind'') then Inl BadSource
            else if \<not> is_array content then Inl BadContent
            else if t = ''assistant/message'' then
              (if get_field src ''kind'' \<noteq> Some (JStr ''model'') \<or> \<not> has_provider_model src
               then Inl NotModelSource else Inr ())
            else if t = ''tool/result'' then assert_result_blocks src content
            else Inr ()))"

definition allowed_adapter_keys :: "string list" where
  "allowed_adapter_keys = [''reasoningEffort'', ''maxTokens'']"

definition assert_adapter_defaults :: "json option \<Rightarrow> json option \<Rightarrow> (seed_error, unit) result" where
  "assert_adapter_defaults v config =
     (case v of
        None \<Rightarrow> Inr ()
      | Some (JObj d) \<Rightarrow>
          ensure (list_all (\<lambda>(k, m). k \<in> set allowed_adapter_keys \<and> m = JBool True) d
              \<and> \<not> (map_of d ''reasoningEffort'' = Some (JBool True) \<and> get_field config ''reasoningEffort'' = None)
              \<and> \<not> (map_of d ''maxTokens'' = Some (JBool True) \<and> get_field config ''maxTokens'' = None))
            BadAdapterDefaults
      | Some _ \<Rightarrow> Inl BadAdapterDefaults)"

definition assert_current_llm_shape :: "string \<Rightarrow> json option \<Rightarrow> (seed_error, unit) result" where
  "assert_current_llm_shape t data =
     rbind
       (if t = ''request/header'' then
          (let header = get_field data ''header''; config = get_field header ''config'' in
           if \<not> has_provider_model config then Inl LacksProviderModel
           else if get_field config ''reasoningEffort'' \<noteq> None
               \<and> \<not> nonempty_string (get_field config ''reasoningEffort'') then Inl BadReasoningEffort
           else assert_adapter_defaults (get_field header ''adapterDefaults'') config)
        else Inr ())
       (\<lambda>_. assert_message_event_shape t data)"

section \<open>The event envelope\<close>

definition envelope_keys :: "string list" where
  "envelope_keys = [''type'', ''seq'', ''time'', ''data'', ''surfaceOp'', ''sourceEventSeqs'', ''ignorable'']"

definition assert_session_event_envelope :: "(string \<times> json) list \<Rightarrow> (seed_error, unit) result" where
  "assert_session_event_envelope ev =
     (if map_of ev ''type'' = Some (JStr ''request/header-delta'') then Inl LegacyHeaderDelta
      else if \<not> list_all (\<lambda>(k, _). k \<in> set envelope_keys) ev then Inl BadEnvelope
      else (case as_string (map_of ev ''type'') of
              None \<Rightarrow> Inl BadEnvelope
            | Some t \<Rightarrow>
                (if seq_value (map_of ev ''seq'') = None \<or> safe_int_of (map_of ev ''time'') = None
                     \<or> map_of ev ''data'' = None
                     \<or> map_of ev ''ignorable'' \<notin> {None, Some (JBool True)}
                 then Inl BadEnvelope
                 else if t \<in> set (''request/header'' # message_types)
                 then assert_current_llm_shape t (map_of ev ''data'')
                 else Inr ())))"

definition assert_supported_request_header :: "string \<Rightarrow> json option \<Rightarrow> (seed_error, unit) result" where
  "assert_supported_request_header t data =
     (if t = ''request/header-delta'' then Inl LegacyHeaderDelta
      else if t = ''request/header'' \<and> get_field data ''reason'' = Some (JStr ''fallback'')
      then Inl LegacyFallbackReason
      else Inr ())"

section \<open>Facts\<close>

definition header_ok :: "session_header \<Rightarrow> bool" where
  "header_ok h \<longleftrightarrow>
     sh_version h = session_format_version
     \<and> 0 \<le> sh_created_at h \<and> safe_int (sh_created_at h)
     \<and> (case sh_cwd h of None \<Rightarrow> True | Some p \<Rightarrow> is_absolute p)
     \<and> (case sh_seed_length h of None \<Rightarrow> True | Some n \<Rightarrow> safe_int (int n))
     \<and> (case sh_delegation_depth h of None \<Rightarrow> True | Some n \<Rightarrow> safe_int (int n))"

lemma event_seq_of_safe: "event_seq_of v = Some n \<Longrightarrow> safe_int (int n)"
  by (auto simp: event_seq_of_def split: option.splits if_splits elim!: safe_int_of.elims)

lemma event_seq_of_nat_json: "safe_int (int n) \<Longrightarrow> event_seq_of (JNum (NInt (int n))) = Some n"
  by (simp add: event_seq_of_def)

lemma validate_session_header_ok:
  assumes "validate_session_header sid input = Inr h"
  shows "header_ok h \<and> sh_id h = sid"
proof -
  from assms obtain r where r: "input = JObj r" by (cases input) (auto simp: validate_session_header_def)
  with assms have h: "h = header_of_record sid r"
    and cwd: "case map_of r ''cwd'' of None \<Rightarrow> True | Some (JStr p) \<Rightarrow> is_absolute p | Some _ \<Rightarrow> False"
    and created: "seq_value (map_of r ''createdAt'') \<noteq> None"
    by (auto simp: validate_session_header_def rbind_eq_Inr split: if_splits option.splits json.splits)
  from created show ?thesis using cwd
    by (auto simp: h header_of_record_def header_ok_def seq_value_def
        split: option.splits json.splits dest: event_seq_of_safe)
qed

lemma header_json_fields:
  "map_of [(''version'', JNum (NInt (sh_version h))), (''id'', JStr (sh_id h)),
           (''createdAt'', JNum (NInt (sh_created_at h)))] ''version'' = Some (JNum (NInt (sh_version h)))"
  by simp

lemma map_of_opt_field [simp]:
  "map_of (opt_field k v) k' = (if k' = k then v else None)"
  by (simp add: opt_field_def split: option.splits)

lemma header_roundtrip:
  assumes "header_ok h"
  shows "validate_session_header (sh_id h) (header_json h) = Inr h"
proof -
  obtain n where n: "sh_created_at h = int n" "safe_int (int n)"
    using assms by (auto simp: header_ok_def elim: nonneg_int_cases)
  show ?thesis using assms n
    by (cases h)
      (auto simp: validate_session_header_def header_json_def header_of_record_def header_ok_def
        session_format_version_def map_add_def seq_value_def optional_seq_def optional_string_def
        event_seq_of_nat_json nat_json_def split: option.splits)
qed

lemma tool_result_shape:
  assumes "assert_message_event_shape ''tool/result'' data = Inr ()"
  shows "\<exists>cid block msg. get_field data ''message'' = Some msg \<and> cid \<noteq> []
     \<and> get_field (Some msg) ''content'' = Some (JArr [block])
     \<and> get_field (get_field (Some msg) ''source'') ''callId'' = Some (JStr cid)
     \<and> get_field (Some block) ''toolCallId'' = Some (JStr cid)"
  using assms
  by (cases "get_field data ''message''")
    (auto simp: assert_message_event_shape_def message_types_def assert_result_blocks_def Let_def
      nonempty_string_def get_field_def [of None]
      split: if_splits option.splits json.splits list.splits)

end
