(* ===== verification/Session_Log.thy ===== *)
theory Session_Log
  imports Session_Trace Request_Header Seed_Validation
begin

text \<open>
  The session object (\<open>Session\<close> in \<open>packages/core/session/src/index.ts\<close>): construction from a
  borrowed or restored seed, the append operation, and the cached reads of the request header,
  the request context, the event snapshot and the derived message history. Every read is
  proved equal to a fresh computation over the log in every reachable session. The typed
  payload of an untyped seed record is a parameter \<open>as_data\<close>, because the code only asserts
  that type. Clock readings are arguments.
\<close>

section \<open>State\<close>

record session =
  ses_header :: session_header
  ses_log :: event_log
  ses_surface :: surface_manager
  ses_first_live :: nat
  ses_snapshot :: "event_log option"
  ses_header_fold :: "epoch_header option"
  ses_header_seq :: nat
  ses_context_fold :: "request_context option"
  ses_context_seq :: nat
  ses_derived :: "message list"
  ses_derived_nodes :: nat
  ses_derived_generation :: nat

datatype append_error =
    AppendLegacy seed_error
  | AppendSurface surface_error

datatype create_error =
    CreateHeader header_error
  | CreateSeed nat seed_error
  | CreateEndSeed append_error

section \<open>Append\<close>

definition raw_payload :: "event_data \<Rightarrow> json option" where
  "raw_payload d = (case d of OtherEvent _ j \<Rightarrow> Some j | _ \<Rightarrow> None)"

definition new_event :: "session \<Rightarrow> int \<Rightarrow> event_data \<Rightarrow> json option \<Rightarrow> json option \<Rightarrow> session_event" where
  "new_event s now d op srcs =
     \<lparr>ev_seq = length (ses_log s), ev_time = now, ev_data = d, ev_ignorable = False,
      ev_surface_op = op, ev_sources = srcs\<rparr>"

definition append_event ::
    "session \<Rightarrow> int \<Rightarrow> event_data \<Rightarrow> json option \<Rightarrow> json option \<Rightarrow> (append_error, session \<times> session_event) result" where
  "append_event s now d op srcs =
     rbind (map_error AppendLegacy (assert_supported_request_header (event_type d) (raw_payload d)))
       (\<lambda>_. let e = new_event s now d op srcs in
          rmap (\<lambda>mg. (s\<lparr>ses_surface := mg, ses_log := ses_log s @ [e], ses_snapshot := None\<rparr>, e))
            (map_error AppendSurface (validate_next (ses_surface s) (ses_log s) e)))"

section \<open>Construction\<close>

text \<open>The envelope fields of a checked raw record; the payload reading is the parameter.\<close>

definition event_of_record :: "(string \<Rightarrow> json \<Rightarrow> event_data) \<Rightarrow> (string \<times> json) list \<Rightarrow> session_event" where
  "event_of_record as_data r =
     \<lparr>ev_seq = (case seq_value (map_of r ''seq'') of Some n \<Rightarrow> n | None \<Rightarrow> 0),
      ev_time = (case safe_int_of (map_of r ''time'') of Some t \<Rightarrow> t | None \<Rightarrow> 0),
      ev_data = as_data (case as_string (map_of r ''type'') of Some t \<Rightarrow> t | None \<Rightarrow> [])
                  (case map_of r ''data'' of Some d \<Rightarrow> d | None \<Rightarrow> JNull),
      ev_ignorable = (map_of r ''ignorable'' = Some (JBool True)),
      ev_surface_op = map_of r ''surfaceOp'',
      ev_sources = map_of r ''sourceEventSeqs''\<rparr>"

type_synonym seed_state = "nat \<times> event_log \<times> surface_manager"

definition accept_seed_event ::
    "(string \<Rightarrow> json \<Rightarrow> event_data) \<Rightarrow> seed_state \<Rightarrow> (string \<times> json) list \<Rightarrow> (create_error, seed_state) result" where
  "accept_seed_event as_data p r =
     (case p of (index, log, mg) \<Rightarrow>
        map_error (CreateSeed index)
          (rbind (assert_session_event_envelope r)
            (\<lambda>_. rbind (assert_supported_request_header
                    (case as_string (map_of r ''type'') of Some t \<Rightarrow> t | None \<Rightarrow> []) (map_of r ''data''))
              (\<lambda>_. let e = event_of_record as_data r in
                 if ev_seq e \<noteq> index then Inl (SeedSeqMismatch (ev_seq e))
                 else rmap (\<lambda>mg'. (Suc index, log @ [e], mg'))
                        (map_error SeedSurface (validate_next mg log e))))))"

datatype create_mode = SnapshotMode | RestoreMode

definition synthesized_header :: "string \<Rightarrow> int \<Rightarrow> json" where
  "synthesized_header sid now =
     JObj [(''version'', JNum (NInt session_format_version)), (''id'', JStr sid), (''createdAt'', JNum (NInt now))]"

definition session_of :: "session_header \<Rightarrow> event_log \<Rightarrow> surface_manager \<Rightarrow> session" where
  "session_of h log mg =
     \<lparr>ses_header = h, ses_log = log, ses_surface = mg, ses_first_live = length log, ses_snapshot = None,
      ses_header_fold = None, ses_header_seq = 0, ses_context_fold = None, ses_context_seq = 0,
      ses_derived = [], ses_derived_nodes = 0, ses_derived_generation = 0\<rparr>"

definition mark_end_seed :: "int \<Rightarrow> bool \<Rightarrow> session \<Rightarrow> (create_error, session) result" where
  "mark_end_seed now seeded s =
     (if seeded \<and> map_option (\<lambda>e. event_type (ev_data e)) (last_opt (ses_log s)) \<noteq> Some ''session/end-seed''
      then rmap fst (map_error CreateEndSeed (append_event s now EndSeed None None))
      else Inr s)"

definition construct_session ::
    "(string \<Rightarrow> json \<Rightarrow> event_data) \<Rightarrow> create_mode \<Rightarrow> int \<Rightarrow> string \<Rightarrow> (string \<times> json) list list option
       \<Rightarrow> json option \<Rightarrow> (create_error, session) result" where
  "construct_session as_data mode now sid seed header =
     (let source = (case header of None \<Rightarrow> synthesized_header sid now | Some h \<Rightarrow> h);
          check_header = map_error CreateHeader (validate_session_header sid
             (case mode of RestoreMode \<Rightarrow> (case header of None \<Rightarrow> JNull | Some h \<Rightarrow> h) | SnapshotMode \<Rightarrow> source));
          run_seed = fold_log (accept_seed_event as_data) (0, [], new_surface_manager 0)
             (case seed of None \<Rightarrow> [] | Some rs \<Rightarrow> rs)
      in case mode of
           RestoreMode \<Rightarrow>
             rbind check_header (\<lambda>h. rbind run_seed (\<lambda>(_, log, mg). mark_end_seed now (seed \<noteq> None) (session_of h log mg)))
         | SnapshotMode \<Rightarrow>
             rbind run_seed (\<lambda>(_, log, mg). rbind check_header (\<lambda>h. mark_end_seed now (seed \<noteq> None) (session_of h log mg))))"

section \<open>Cached reads\<close>

definition read_events :: "session \<Rightarrow> session \<times> event_log" where
  "read_events s =
     (case ses_snapshot s of
        Some es \<Rightarrow> (s, es)
      | None \<Rightarrow> (s\<lparr>ses_snapshot := Some (ses_log s)\<rparr>, ses_log s))"

definition read_request_header :: "session \<Rightarrow> session \<times> epoch_header option" where
  "read_request_header s =
     (let s' = (if ses_header_seq s < length (ses_log s)
                then s\<lparr>ses_header_fold := fold_request_header (drop (ses_header_seq s) (ses_log s)) (ses_header_fold s),
                       ses_header_seq := length (ses_log s)\<rparr>
                else s)
      in (s', ses_header_fold s'))"

definition read_request_context :: "session \<Rightarrow> session \<times> request_context option" where
  "read_request_context s =
     (let s' = (if ses_context_seq s < length (ses_log s)
                then s\<lparr>ses_context_fold := foldl fold_context_step (ses_context_fold s) (drop (ses_context_seq s) (ses_log s)),
                       ses_context_seq := length (ses_log s)\<rparr>
                else s)
      in (s', ses_context_fold s'))"

definition project_nodes :: "event_log \<Rightarrow> nat list \<Rightarrow> message list" where
  "project_nodes log nodes =
     concat (map (\<lambda>n. case derive_event_message (ev_data (log ! n)) of Some m \<Rightarrow> [m] | None \<Rightarrow> []) nodes)"

definition derive_messages :: "session \<Rightarrow> (surface_error, session \<times> message list) result" where
  "derive_messages s =
     rbind (manager_nodes (ses_surface s) (ses_log s))
       (\<lambda>(mg, nodes). rmap
          (\<lambda>(mg', generation).
             let s1 = s\<lparr>ses_surface := mg'\<rparr>;
                 s2 = (if generation \<noteq> ses_derived_generation s1
                       then s1\<lparr>ses_derived := [], ses_derived_nodes := 0, ses_derived_generation := generation\<rparr>
                       else s1);
                 s3 = s2\<lparr>ses_derived := ses_derived s2 @ project_nodes (ses_log s2) (drop (ses_derived_nodes s2) nodes),
                         ses_derived_nodes := length nodes\<rparr>
             in (s3, ses_derived s3))
          (manager_generation mg (ses_log s)))"

section \<open>The session invariant\<close>

definition derived_ok :: "session \<Rightarrow> surface_state \<Rightarrow> bool" where
  "derived_ok s st \<longleftrightarrow>
     ses_derived_generation s \<le> sf_generation st
     \<and> (ses_derived_generation s = sf_generation st \<longrightarrow>
          ses_derived_nodes s \<le> length (sf_nodes st)
          \<and> ses_derived s = project_nodes (ses_log s) (take (ses_derived_nodes s) (sf_nodes st)))"

definition session_ok :: "session \<Rightarrow> bool" where
  "session_ok s \<longleftrightarrow>
     header_ok (ses_header s)
     \<and> manager_ok (ses_log s) (ses_surface s)
     \<and> ses_first_live s \<le> length (ses_log s)
     \<and> ses_snapshot s \<in> {None, Some (ses_log s)}
     \<and> ses_header_seq s \<le> length (ses_log s)
     \<and> ses_header_fold s = fold_request_header (take (ses_header_seq s) (ses_log s)) None
     \<and> ses_context_seq s \<le> length (ses_log s)
     \<and> ses_context_fold s = foldl fold_context_step None (take (ses_context_seq s) (ses_log s))
     \<and> (\<exists>st. fold_log admit admit_init (ses_log s) = Inr (ses_log s, st) \<and> derived_ok s st)"

lemma project_nodes_append:
  "project_nodes log (xs @ ys) = project_nodes log xs @ project_nodes log ys"
  by (simp add: project_nodes_def)

lemma project_nodes_extend:
  "\<forall>n\<in>set nodes. n < length log \<Longrightarrow> project_nodes (log @ later) nodes = project_nodes log nodes"
  unfolding project_nodes_def
  by (intro arg_cong [where f = concat] map_cong refl) (simp add: nth_append)

lemma derived_ok_append:
  assumes wf: "surface_wf (ses_log s, st)" and ok: "derived_ok s st"
    and step: "admit (ses_log s, st) e = Inr (ses_log s @ [e], st')"
  shows "derived_ok (s\<lparr>ses_surface := mg, ses_log := ses_log s @ [e], ses_snapshot := None\<rparr>) st'"
proof -
  have "\<forall>n\<in>set (take (ses_derived_nodes s) (sf_nodes st)). n < length (ses_log s)"
    using wf by (auto simp: surface_wf_def dest: in_set_takeD)
  note same = project_nodes_extend [OF this, of "[e]"]
  from step show ?thesis
  proof (cases rule: admit_cases)
    case skip
    then show ?thesis using ok same by (simp add: derived_ok_def)
  next
    case append
    then show ?thesis using ok same by (auto simp: derived_ok_def)
  next
    case (replace r i j)
    then show ?thesis using ok by (simp add: derived_ok_def)
  qed
qed

lemma append_event_ok:
  assumes ok: "session_ok s" and app: "append_event s now d op srcs = Inr (s', e)"
  shows "session_ok s'" "ses_log s' = ses_log s @ [e]" "ses_header s' = ses_header s"
    "ev_seq e = length (ses_log s)" "ev_data e = d"
    "ses_first_live s' = ses_first_live s"
proof -
  obtain st where st: "fold_log admit admit_init (ses_log s) = Inr (ses_log s, st)" "derived_ok s st"
    using ok by (auto simp: session_ok_def)
  from app obtain mg where mg: "validate_next (ses_surface s) (ses_log s) e = Inr mg"
    and s': "s' = s\<lparr>ses_surface := mg, ses_log := ses_log s @ [e], ses_snapshot := None\<rparr>"
    and e: "e = new_event s now d op srcs"
    by (auto simp: append_event_def rbind_eq_Inr rmap_eq_Inr map_error_eq_Inr Let_def)
  have man: "manager_ok (ses_log s) (ses_surface s)" using ok by (simp add: session_ok_def)
  have av: "append_validated (ses_log s, ses_surface s) e = Inr (ses_log s @ [e], mg)"
    using mg by (simp add: append_validated_def)
  then obtain st' where admit: "admit (ses_log s, st) e = Inr (ses_log s @ [e], st')"
    and man': "manager_ok (ses_log s @ [e]) mg"
    using append_validated_admits [OF man st(1), of e] by (cases "admit (ses_log s, st) e") auto
  have "fold_log admit admit_init (ses_log s @ [e]) = Inr (ses_log s @ [e], st')"
    using st(1) admit by (simp add: fold_log_snoc)
  moreover have "derived_ok s' st'"
    unfolding s' by (rule derived_ok_append [OF admit_prefix_wf [OF st(1)] st(2) admit])
  ultimately show "session_ok s'" using ok man' by (auto simp: session_ok_def s')
  show "ses_log s' = ses_log s @ [e]" "ses_header s' = ses_header s"
    "ev_seq e = length (ses_log s)" "ev_data e = d" "ses_first_live s' = ses_first_live s"
    by (simp_all add: s' e new_event_def)
qed

lemma append_event_accepts:
  assumes ok: "session_ok s" and st: "fold_log admit admit_init (ses_log s) = Inr (ses_log s, st)"
    and legacy: "assert_supported_request_header (event_type d) (raw_payload d) = Inr ()"
  shows "is_ok (append_event s now d op srcs) \<longleftrightarrow> is_ok (admit (ses_log s, st) (new_event s now d op srcs))"
proof -
  let ?e = "new_event s now d op srcs"
  have man: "manager_ok (ses_log s) (ses_surface s)" using ok by (simp add: session_ok_def)
  show ?thesis
    using append_validated_admits [OF man st, of ?e] legacy
    by (cases "admit (ses_log s, st) ?e"; cases "validate_next (ses_surface s) (ses_log s) ?e")
      (auto simp: append_event_def append_validated_def Let_def)
qed

lemma read_events_ok:
  assumes "session_ok s"
  shows "read_events s = (fst (read_events s), ses_log s) \<and> session_ok (fst (read_events s))
    \<and> ses_log (fst (read_events s)) = ses_log s"
  using assms by (auto simp: read_events_def session_ok_def derived_ok_def split: option.splits)

lemma foldl_take_drop: "foldl f (foldl f a (take n xs)) (drop n xs) = foldl f a xs"
  by (metis append_take_drop_id foldl_append)

lemma read_request_header_ok:
  assumes "session_ok s" "read_request_header s = (s', h)"
  shows "h = fold_request_header (ses_log s) None \<and> session_ok s' \<and> ses_log s' = ses_log s"
  using assms
  by (auto simp: read_request_header_def session_ok_def derived_ok_def Let_def
      fold_request_header_def foldl_take_drop split: if_splits)

lemma read_request_context_ok:
  assumes "session_ok s" "read_request_context s = (s', c)"
  shows "c = foldl fold_context_step None (ses_log s) \<and> session_ok s' \<and> ses_log s' = ses_log s"
  using assms
  by (auto simp: read_request_context_def session_ok_def derived_ok_def Let_def
      foldl_take_drop split: if_splits)

lemma manager_reads:
  assumes "manager_ok log mg" "fold_log admit admit_init log = Inr (log, st)"
  shows "\<exists>mg'. manager_nodes mg log = Inr (mg', sf_nodes st) \<and> manager_ok log mg'"
    and "\<exists>mg'. manager_generation mg log = Inr (mg', sf_generation st) \<and> manager_ok log mg'"
  using sync_manager_admits [OF assms(1)] assms(2)
  by (auto simp: manager_nodes_def manager_generation_def)

lemma derive_messages_ok:
  assumes ok: "session_ok s" and nodes: "fold_surface (ses_log s) = Inr (nodes, reps)"
  shows "\<exists>s'. derive_messages s = Inr (s', project_nodes (ses_log s) nodes)
    \<and> session_ok s' \<and> ses_log s' = ses_log s"
proof -
  obtain st where st: "fold_log admit admit_init (ses_log s) = Inr (ses_log s, st)" "derived_ok s st"
    using ok by (auto simp: session_ok_def)
  have n: "sf_nodes st = nodes" using fold_surface_complete [OF st(1)] nodes by auto
  obtain mg1 where mg1: "manager_nodes (ses_surface s) (ses_log s) = Inr (mg1, nodes)" "manager_ok (ses_log s) mg1"
    using manager_reads(1) [OF _ st(1)] ok n by (auto simp: session_ok_def)
  obtain mg2 where mg2: "manager_generation mg1 (ses_log s) = Inr (mg2, sf_generation st)" "manager_ok (ses_log s) mg2"
    using manager_reads(2) [OF mg1(2) st(1)] by auto
  let ?keep = "ses_derived_generation s = sf_generation st"
  let ?all = "project_nodes (ses_log s) nodes"
  define s' where "s' = s\<lparr>ses_surface := mg2, ses_derived := ?all, ses_derived_nodes := length nodes,
      ses_derived_generation := sf_generation st\<rparr>"
  have "ses_derived s @ project_nodes (ses_log s) (drop (ses_derived_nodes s) nodes) = ?all" if ?keep
    using that st(2) n by (simp add: derived_ok_def flip: project_nodes_append)
  then have "derive_messages s = Inr (s', ?all)"
    using mg1(1) mg2(1) by (cases ?keep) (auto simp: derive_messages_def s'_def Let_def)
  moreover have "derived_ok s' st" by (simp add: s'_def derived_ok_def n)
  then have "session_ok s'" using ok mg2(2) st(1) by (auto simp: session_ok_def s'_def)
  ultimately show ?thesis by (auto simp: s'_def)
qed

section \<open>Every constructed session satisfies the invariant\<close>

definition seed_ok :: "seed_state \<Rightarrow> bool" where
  "seed_ok p =
     (case p of (index, log, mg) \<Rightarrow>
        index = length log \<and> manager_ok log mg
        \<and> (\<exists>st. fold_log admit admit_init log = Inr (log, st)))"

lemma seed_ok_step:
  assumes ok: "seed_ok p" and step: "accept_seed_event as_data p r = Inr p'"
  shows "seed_ok p'"
proof -
  obtain log mg where p: "p = (length log, log, mg)" using ok by (cases p) (auto simp: seed_ok_def)
  obtain st where man: "manager_ok log mg" and st: "fold_log admit admit_init log = Inr (log, st)"
    using ok by (auto simp: seed_ok_def p)
  from step obtain mg' where v: "validate_next mg log (event_of_record as_data r) = Inr mg'"
    and p': "p' = (Suc (length log), log @ [event_of_record as_data r], mg')"
    by (auto simp: accept_seed_event_def p rbind_eq_Inr rmap_eq_Inr Let_def split: if_splits)
  then have "append_validated (log, mg) (event_of_record as_data r) = Inr (log @ [event_of_record as_data r], mg')"
    by (simp add: append_validated_def)
  then show ?thesis
    using append_validated_admits [OF man st, of "event_of_record as_data r"] st
    by (cases "admit (log, st) (event_of_record as_data r)") (auto simp: p' seed_ok_def fold_log_snoc)
qed

lemma seed_ok_init: "seed_ok (0, [], new_surface_manager 0)"
  using manager_ok_new by (simp add: seed_ok_def admit_init_def)

interpretation seed: event_fold "(0, [], new_surface_manager 0)" "accept_seed_event as_data" seed_ok for as_data
  by unfold_locales (rule seed_ok_init, rule seed_ok_step)

lemma session_of_ok:
  assumes "header_ok h" "seed_ok (index, log, mg)"
  shows "session_ok (session_of h log mg)"
  using assms
  by (auto simp: session_ok_def session_of_def seed_ok_def derived_ok_def fold_request_header_def project_nodes_def)

lemma mark_end_seed_ok:
  assumes "session_ok s" "mark_end_seed now seeded s = Inr s'"
  shows "session_ok s'"
  using assms by (auto simp: mark_end_seed_def rmap_eq_Inr split: if_splits dest: append_event_ok(1))

lemma construct_session_ok:
  assumes "construct_session as_data mode now sid seed header = Inr s"
  shows "session_ok s"
proof -
  from assms obtain h src index log mg where
    h: "validate_session_header sid src = Inr h"
    and run: "fold_log (accept_seed_event as_data) (0, [], new_surface_manager 0)
        (case seed of None \<Rightarrow> [] | Some rs \<Rightarrow> rs) = Inr (index, log, mg)"
    and mark: "mark_end_seed now (seed \<noteq> None) (session_of h log mg) = Inr s"
    by (cases mode) (auto simp: construct_session_def rbind_eq_Inr Let_def)
  have "seed_ok (index, log, mg)" by (rule seed.wf_fold [OF run])
  then have "session_ok (session_of h log mg)"
    using validate_session_header_ok [OF h] by (intro session_of_ok) auto
  then show ?thesis using mark by (rule mark_end_seed_ok)
qed

text \<open>Sessions as the program uses them: constructed, appended to and read, in any order.\<close>

inductive session_reach :: "(string \<Rightarrow> json \<Rightarrow> event_data) \<Rightarrow> session \<Rightarrow> bool" for as_data where
  reach_create: "construct_session as_data mode now sid seed header = Inr s \<Longrightarrow> session_reach as_data s"
| reach_append: "session_reach as_data s \<Longrightarrow> append_event s now d op srcs = Inr (s', e) \<Longrightarrow> session_reach as_data s'"
| reach_events: "session_reach as_data s \<Longrightarrow> read_events s = (s', es) \<Longrightarrow> session_reach as_data s'"
| reach_header: "session_reach as_data s \<Longrightarrow> read_request_header s = (s', h) \<Longrightarrow> session_reach as_data s'"
| reach_context: "session_reach as_data s \<Longrightarrow> read_request_context s = (s', c) \<Longrightarrow> session_reach as_data s'"
| reach_derive: "session_reach as_data s \<Longrightarrow> derive_messages s = Inr (s', ms) \<Longrightarrow> session_reach as_data s'"

inductive_cases session_reachE: "session_reach as_data s"

lemma session_ok_fold:
  "session_ok s \<Longrightarrow> \<exists>nodes reps. fold_surface (ses_log s) = Inr (nodes, reps)"
  unfolding session_ok_def using fold_surface_complete by blast

lemma session_ok_contiguous: "session_ok s \<Longrightarrow> contiguous (ses_log s)"
  using session_ok_fold contiguous_of_fold by blast

text \<open>An append is judged by the complete fold of the log it would produce.\<close>

lemma append_event_iff_fold:
  assumes "session_ok s" "assert_supported_request_header (event_type d) (raw_payload d) = Inr ()"
  shows "is_ok (append_event s now d op srcs)
    \<longleftrightarrow> is_ok (fold_surface (ses_log s @ [new_event s now d op srcs]))"
proof -
  obtain st where "fold_log admit admit_init (ses_log s) = Inr (ses_log s, st)"
    using assms(1) unfolding session_ok_def by blast
  with assms show ?thesis by (simp add: append_event_accepts admit_iff_fold)
qed

lemma session_reach_ok: "session_reach as_data s \<Longrightarrow> session_ok s"
proof (induction rule: session_reach.induct)
  case (reach_create mode now sid seed header s)
  then show ?case by (rule construct_session_ok)
next
  case (reach_append s now d op srcs s' e)
  then show ?case using append_event_ok(1) by blast
next
  case (reach_events s s' es)
  then show ?case using read_events_ok by (metis fst_conv)
next
  case (reach_header s s' h)
  then show ?case using read_request_header_ok by blast
next
  case (reach_context s s' c)
  then show ?case using read_request_context_ok by blast
next
  case (reach_derive s s' ms)
  obtain nodes reps where "fold_surface (ses_log s) = Inr (nodes, reps)"
    using session_ok_fold reach_derive.IH by blast
  from derive_messages_ok [OF reach_derive.IH this] reach_derive(2) show ?case by auto
qed

section \<open>Fork seeds\<close>

datatype fork_error =
    SessionNotFound string
  | SessionNotLive string
  | SessionAlreadyExists string
  | BoundaryNotSafe
  | BoundaryMissing int
  | BoundaryNotContiguous int
  | OpenTurnAt int

definition find_last :: "('a \<Rightarrow> bool) \<Rightarrow> 'a list \<Rightarrow> 'a option" where
  "find_last P xs = find P (rev xs)"

definition is_turn_boundary :: "session_event \<Rightarrow> bool" where
  "is_turn_boundary e = (case ev_data e of TurnStart _ \<Rightarrow> True | TurnEnd _ _ \<Rightarrow> True | _ \<Rightarrow> False)"

definition fork_seed_at :: "event_log \<Rightarrow> jsnum \<Rightarrow> (fork_error, event_log) result" where
  "fork_seed_at events boundary =
     (case boundary of
        NInt b \<Rightarrow>
          (if \<not> safe_int b \<or> b < 0 then Inl BoundaryNotSafe
           else if int (length events) \<le> b then Inl (BoundaryMissing b)
           else if ev_seq (events ! nat b) \<noteq> nat b then Inl (BoundaryNotContiguous b)
           else (case find_last is_turn_boundary (take (Suc (nat b)) events) of
                   Some e \<Rightarrow>
                     (case ev_data e of
                        TurnStart turn \<Rightarrow> Inl (OpenTurnAt turn)
                      | _ \<Rightarrow> Inr (take (Suc (nat b)) events))
                 | None \<Rightarrow> Inr (take (Suc (nat b)) events)))
      | _ \<Rightarrow> Inl BoundaryNotSafe)"

definition fork_seed :: "event_log \<Rightarrow> jsnum option \<Rightarrow> (fork_error, event_log) result" where
  "fork_seed events requested =
     (case requested of
        Some b \<Rightarrow> fork_seed_at events b
      | None \<Rightarrow> (case last_opt events of
                   None \<Rightarrow> Inr []
                 | Some e \<Rightarrow> fork_seed_at events (NInt (int (ev_seq e)))))"

lemma fork_seed_prefix:
  "fork_seed events requested = Inr seed \<Longrightarrow> \<exists>k. seed = take k events"
  by (auto simp: fork_seed_def fork_seed_at_def
      split: option.splits jsnum.splits if_splits event_data.splits intro: exI [of _ 0])

lemma find_last_snoc: "find_last P (xs @ [x]) = (if P x then Some x else find_last P xs)"
  by (simp add: find_last_def)

lemma trace_last_boundary:
  assumes "seed_session events = Inr tr"
  shows "tr_open_turn tr \<noteq> None \<longleftrightarrow>
    (\<exists>e n. find_last is_turn_boundary events = Some e \<and> ev_data e = TurnStart n)"
  using assms
proof (induction events arbitrary: tr rule: rev_induct)
  case Nil
  then show ?case by (auto simp: seed_session_def fresh_trace_def find_last_def)
next
  case (snoc e events)
  from snoc.prems obtain t where t: "seed_session events = Inr t" "trace_step t e = Inr tr"
    by (auto simp: seed_session_def fold_log_snoc rbind_eq_Inr)
  note IH = snoc.IH [OF t(1)]
  from t(2) show ?case
  proof (cases rule: trace_step_cases)
    case neutral
    then have "\<not> is_turn_boundary e" by (cases "ev_data e") (auto simp: is_turn_boundary_def)
    with neutral IH show ?thesis by (simp add: find_last_snoc)
  qed (use IH in \<open>auto simp: find_last_snoc is_turn_boundary_def\<close>)
qed

lemma fork_seed_balanced:
  assumes "fork_seed events requested = Inr seed" "seed_session events = Inr tr"
  shows "\<exists>tr'. seed_session seed = Inr tr' \<and> tr_open_turn tr' = None"
proof -
  obtain k where k: "seed = take k events" using fork_seed_prefix [OF assms(1)] by blast
  then have "\<exists>tr'. seed_session seed = Inr tr'"
    using trace.wf_prefix [of seed "drop k events" tr] assms(2) unfolding k seed_session_def by auto
  then obtain tr' where tr': "seed_session seed = Inr tr'" by blast
  have none: "find_last is_turn_boundary [] = None" by (simp add: find_last_def)
  have "\<not> (\<exists>e n. find_last is_turn_boundary seed = Some e \<and> ev_data e = TurnStart n)"
    using assms(1) none
    by (auto simp: fork_seed_def fork_seed_at_def split: option.splits jsnum.splits if_splits event_data.splits)
  then have "tr_open_turn tr' = None" using trace_last_boundary [OF tr'] by (cases "tr_open_turn tr'") auto
  with tr' show ?thesis by blast
qed

section \<open>The current surface and appends that leave it alone\<close>

definition session_nodes :: "session \<Rightarrow> nat list" where
  "session_nodes s = (case manager_nodes (ses_surface s) (ses_log s) of Inr (_, ns) \<Rightarrow> ns | Inl _ \<Rightarrow> [])"

definition session_generation :: "session \<Rightarrow> nat" where
  "session_generation s = (case manager_generation (ses_surface s) (ses_log s) of Inr (_, g) \<Rightarrow> g | Inl _ \<Rightarrow> 0)"

lemma session_view:
  assumes "session_ok s"
  obtains st where "fold_log admit admit_init (ses_log s) = Inr (ses_log s, st)"
    "session_nodes s = sf_nodes st" "session_generation s = sf_generation st"
proof -
  obtain st where st: "fold_log admit admit_init (ses_log s) = Inr (ses_log s, st)"
    and man: "manager_ok (ses_log s) (ses_surface s)"
    using assms by (auto simp: session_ok_def)
  obtain mg where "manager_nodes (ses_surface s) (ses_log s) = Inr (mg, sf_nodes st)"
    using manager_reads(1) [OF man st] by blast
  moreover obtain mg' where "manager_generation (ses_surface s) (ses_log s) = Inr (mg', sf_generation st)"
    using manager_reads(2) [OF man st] by blast
  ultimately show thesis using st that by (simp add: session_nodes_def session_generation_def)
qed

lemma append_event_admit:
  assumes ok: "session_ok s" and app: "append_event s now d op srcs = Inr (s', e)"
    and st: "fold_log admit admit_init (ses_log s) = Inr (ses_log s, st)"
  shows "\<exists>st'. admit (ses_log s, st) e = Inr (ses_log s', st') \<and> session_nodes s' = sf_nodes st'
    \<and> e = new_event s now d op srcs"
proof -
  note a = append_event_ok [OF ok app]
  have e: "e = new_event s now d op srcs"
    using app by (auto simp: append_event_def rbind_eq_Inr rmap_eq_Inr Let_def)
  obtain st' where st': "fold_log admit admit_init (ses_log s') = Inr (ses_log s', st')" "session_nodes s' = sf_nodes st'"
    using session_view [OF a(1)] by metis
  then have "admit (ses_log s, st) e = Inr (ses_log s', st')"
    using st by (simp add: a(2) fold_log_snoc)
  then show ?thesis using st'(2) e by blast
qed

definition log_only :: "event_data \<Rightarrow> bool" where
  "log_only d \<longleftrightarrow> \<not> is_surface_eligible_type (event_type d)
     \<and> assert_supported_request_header (event_type d) (raw_payload d) = Inr ()"

lemma append_log_only:
  assumes ok: "session_ok s" and d: "log_only d"
  shows "\<exists>s' e. append_event s now d None None = Inr (s', e) \<and> session_ok s' \<and> ses_log s' = ses_log s @ [e]
    \<and> ev_data e = d \<and> ev_seq e = length (ses_log s) \<and> session_nodes s' = session_nodes s"
proof -
  obtain st where st: "fold_log admit admit_init (ses_log s) = Inr (ses_log s, st)" "session_nodes s = sf_nodes st"
    using session_view [OF ok] by metis
  have adm: "admit (ses_log s, st) (new_event s now d None None) = Inr (ses_log s @ [new_event s now d None None], st)"
    using admit_plain [of "ses_log s" "length (ses_log s)" d st now] d
    by (simp add: new_event_def plain_event_def log_only_def)
  then have "is_ok (append_event s now d None None)"
    using append_event_accepts [OF ok st(1), of d now None None] d by (simp add: log_only_def)
  then obtain s' e where app: "append_event s now d None None = Inr (s', e)" by (auto simp: is_ok_iff)
  from append_event_admit [OF ok app st(1)] adm have "session_nodes s' = sf_nodes st" by auto
  then show ?thesis using app append_event_ok [OF ok app] st(2) by auto
qed

lemma plugin_events_log_only [simp]:
  "log_only (GoalChange j)" "log_only (ScheduleChange j)" "log_only (InboxSpliced sp)"
  by (simp_all add: log_only_def is_surface_eligible_type_def assert_supported_request_header_def)

end
