(* ===== verification/Tool_Pairing.thy ===== *)
theory Tool_Pairing
  imports Session_Log
begin

text \<open>
  Tool-pairing balance over a session surface
  (\<open>packages/compaction/compaction/src/tool-pairing.ts\<close>) and the retention selection that
  rests on it (\<open>selectCompactableRange\<close> in \<open>packages/compaction/compaction-basic/src/region.ts\<close>).
  The incremental cache is proved to agree, for every history of surfaces it is asked about,
  with the count of unanswered tool calls; the selection never cuts at an unbalanced position.
\<close>

section \<open>The balance cache\<close>

record balance_cache =
  bc_generation :: nat
  bc_cuts :: "bool list"
  bc_index :: "(nat, nat) js_map"
  bc_in_progress :: int

datatype pairing_error =
    NoMatchingEvent nat
  | UnmatchedResult nat
  | SeqNotOnSurface nat

definition event_delta :: "session_event \<Rightarrow> int" where
  "event_delta e =
     (case ev_data e of
        AssistantMessageEv _ _ m _ \<Rightarrow> int (length (filter is_tool_call (am_content m)))
      | ToolResult _ \<Rightarrow> -1
      | _ \<Rightarrow> 0)"

definition event_for_seq :: "event_log \<Rightarrow> nat \<Rightarrow> (pairing_error, session_event) result" where
  "event_for_seq events n =
     (case nth_opt events n of
        Some e \<Rightarrow> if ev_seq e = n then Inr e else Inl (NoMatchingEvent n)
      | None \<Rightarrow> Inl (NoMatchingEvent n))"

text \<open>The unseen tail: the running count and, per sequence, whether the cut behind it is balanced.\<close>

fun scan_tail :: "event_log \<Rightarrow> int \<Rightarrow> nat list \<Rightarrow> (pairing_error, int \<times> bool list) result" where
  "scan_tail events open_calls [] = Inr (open_calls, [])"
| "scan_tail events open_calls (n # ns) =
     rbind (event_for_seq events n)
       (\<lambda>e. let open' = open_calls + event_delta e in
          if open' < 0 then Inl (UnmatchedResult n)
          else rmap (\<lambda>(final, cuts). (final, (open' = 0) # cuts)) (scan_tail events open' ns))"

definition index_tail :: "nat \<Rightarrow> nat list \<Rightarrow> (nat, nat) js_map \<Rightarrow> (nat, nat) js_map" where
  "index_tail processed tail_seqs m =
     fold (\<lambda>(i, n) acc. map_set n (processed + i) acc) (enumerate 0 tail_seqs) m"

definition extend_cache :: "event_log \<Rightarrow> balance_cache \<Rightarrow> nat list \<Rightarrow> (pairing_error, balance_cache) result" where
  "extend_cache events c seqs =
     (let processed = length (bc_cuts c) - 1; tail_seqs = drop processed seqs in
      rmap (\<lambda>(final, cuts). c\<lparr>bc_index := index_tail processed tail_seqs (bc_index c),
                               bc_cuts := bc_cuts c @ cuts, bc_in_progress := final\<rparr>)
        (scan_tail events (bc_in_progress c) tail_seqs))"

definition empty_cache :: "nat \<Rightarrow> balance_cache" where
  "empty_cache generation = \<lparr>bc_generation = generation, bc_cuts = [True], bc_index = [], bc_in_progress = 0\<rparr>"

definition balance_cache_for ::
    "event_log \<Rightarrow> nat list \<Rightarrow> nat \<Rightarrow> balance_cache option \<Rightarrow> (pairing_error, balance_cache) result" where
  "balance_cache_for events seqs generation cached =
     (case cached of
        Some c \<Rightarrow>
          (if bc_generation c \<noteq> generation \<or> length seqs < length (bc_cuts c) - 1
           then extend_cache events (empty_cache generation) seqs
           else if length (bc_cuts c) - 1 < length seqs then extend_cache events c seqs
           else Inr c)
      | None \<Rightarrow> extend_cache events (empty_cache generation) seqs)"

definition cut_balance :: "balance_cache \<Rightarrow> nat \<Rightarrow> nat \<Rightarrow> (pairing_error, bool) result" where
  "cut_balance c n offset =
     (case map_get (bc_index c) n of
        Some i \<Rightarrow> (case nth_opt (bc_cuts c) (i + offset) of Some b \<Rightarrow> Inr b | None \<Rightarrow> Inl (SeqNotOnSurface n))
      | None \<Rightarrow> Inl (SeqNotOnSurface n))"

definition tool_pairing_balanced_before ::
    "event_log \<Rightarrow> nat list \<Rightarrow> nat \<Rightarrow> balance_cache option \<Rightarrow> nat \<Rightarrow> (pairing_error, bool) result" where
  "tool_pairing_balanced_before events seqs generation cached n =
     rbind (balance_cache_for events seqs generation cached) (\<lambda>c. cut_balance c n 0)"

definition tool_pairing_balanced_after ::
    "event_log \<Rightarrow> nat list \<Rightarrow> nat \<Rightarrow> balance_cache option \<Rightarrow> nat \<Rightarrow> (pairing_error, bool) result" where
  "tool_pairing_balanced_after events seqs generation cached n =
     rbind (balance_cache_for events seqs generation cached) (\<lambda>c. cut_balance c n 1)"

section \<open>What a cut's balance is\<close>

definition open_calls_at :: "event_log \<Rightarrow> nat list \<Rightarrow> nat \<Rightarrow> int" where
  "open_calls_at events seqs i = sum_list (map (\<lambda>n. event_delta (events ! n)) (take i seqs))"

text \<open>A surface is paired when its sequences are in the log and no result precedes its call.\<close>

definition paired_surface :: "event_log \<Rightarrow> nat list \<Rightarrow> bool" where
  "paired_surface events seqs \<longleftrightarrow>
     distinct seqs \<and> (\<forall>n\<in>set seqs. n < length events \<and> ev_seq (events ! n) = n)
     \<and> (\<forall>i\<le>length seqs. 0 \<le> open_calls_at events seqs i)"

lemma open_calls_at_0 [simp]: "open_calls_at events seqs 0 = 0"
  by (simp add: open_calls_at_def)

lemma open_calls_at_Suc:
  "i < length seqs \<Longrightarrow> open_calls_at events seqs (Suc i) = open_calls_at events seqs i + event_delta (events ! (seqs ! i))"
  by (simp add: open_calls_at_def take_Suc_conv_app_nth)

lemma open_calls_at_append:
  "i \<le> length xs \<Longrightarrow> open_calls_at events (xs @ ys) i = open_calls_at events xs i"
  by (simp add: open_calls_at_def)

lemma scan_tail_spec:
  assumes "\<forall>n\<in>set seqs. n < length events \<and> ev_seq (events ! n) = n"
    and "\<forall>i\<le>length seqs. 0 \<le> open_calls_at events seqs i" "m \<le> length seqs"
  shows "scan_tail events (open_calls_at events seqs m) (drop m seqs)
    = Inr (open_calls_at events seqs (length seqs),
           map (\<lambda>i. open_calls_at events seqs i = 0) [Suc m..<Suc (length seqs)])"
  using assms(3)
proof (induction "length seqs - m" arbitrary: m)
  case 0
  then show ?case by simp
next
  case (Suc k)
  then have m: "m < length seqs" by simp
  have e: "event_for_seq events (seqs ! m) = Inr (events ! (seqs ! m))"
    using assms(1) m by (auto simp: event_for_seq_def nth_opt_def)
  have nonneg: "0 \<le> open_calls_at events seqs (Suc m)" using assms(2) m by simp
  have "[Suc m..<Suc (length seqs)] = Suc m # [Suc (Suc m)..<Suc (length seqs)]"
    using m by (simp add: upt_conv_Cons del: upt_Suc)
  moreover have "drop m seqs = seqs ! m # drop (Suc m) seqs"
    using m by (rule Cons_nth_drop_Suc [symmetric])
  moreover have "scan_tail events (open_calls_at events seqs (Suc m)) (drop (Suc m) seqs)
    = Inr (open_calls_at events seqs (length seqs),
           map (\<lambda>i. open_calls_at events seqs i = 0) [Suc (Suc m)..<Suc (length seqs)])"
    by (rule Suc.hyps(1)) (use Suc.hyps(2) m in auto)
  ultimately show ?case
    using e nonneg open_calls_at_Suc [OF m, of events] by (simp del: upt_Suc)
qed

text \<open>A cache describes a prefix of a surface.\<close>

definition cache_describes :: "event_log \<Rightarrow> nat list \<Rightarrow> balance_cache \<Rightarrow> bool" where
  "cache_describes events seqs c \<longleftrightarrow>
     bc_cuts c = map (\<lambda>i. open_calls_at events seqs i = 0) [0..<Suc (length seqs)]
     \<and> bc_in_progress c = open_calls_at events seqs (length seqs)
     \<and> (\<forall>n. map_get (bc_index c) n = index_of n seqs)"

lemma cache_describes_empty: "cache_describes events [] (empty_cache g)"
  by (simp add: cache_describes_def empty_cache_def)

lemma index_tail_Nil [simp]: "index_tail p [] m = m"
  by (simp add: index_tail_def)

lemma index_tail_snoc: "index_tail p (xs @ [x]) m = map_set x (p + length xs) (index_tail p xs m)"
  by (simp add: index_tail_def enumerate_append_eq)

lemma index_of_snoc_other: "n \<noteq> x \<Longrightarrow> index_of n (xs @ [x]) = index_of n xs"
  by (induction xs) auto

lemma index_tail_get:
  assumes "distinct (seqs @ tail_seqs)" "\<forall>n. map_get m n = index_of n seqs"
  shows "map_get (index_tail (length seqs) tail_seqs m) n = index_of n (seqs @ tail_seqs)"
  using assms(1)
proof (induction tail_seqs rule: rev_induct)
  case Nil
  then show ?case using assms(2) by simp
next
  case (snoc x xs)
  then have IH: "map_get (index_tail (length seqs) xs m) n = index_of n (seqs @ xs)" by simp
  have "index_of x ((seqs @ xs) @ [x]) = Some (length seqs + length xs)"
    using index_of_nth [of "(seqs @ xs) @ [x]" "length seqs + length xs"] snoc.prems by (simp add: nth_append)
  moreover have "index_of n ((seqs @ xs) @ [x]) = index_of n (seqs @ xs)" if "n \<noteq> x"
    using that by (rule index_of_snoc_other)
  ultimately show ?case using IH by (auto simp: index_tail_snoc)
qed

lemma extend_cache_describes:
  assumes paired: "paired_surface events (seqs @ more_seqs)" and c: "cache_describes events seqs c"
  shows "\<exists>c'. extend_cache events c (seqs @ more_seqs) = Inr c' \<and> cache_describes events (seqs @ more_seqs) c'
    \<and> bc_generation c' = bc_generation c"
proof -
  let ?all = "seqs @ more_seqs"
  have processed: "length (bc_cuts c) - 1 = length seqs" using c by (simp add: cache_describes_def)
  have start: "bc_in_progress c = open_calls_at events ?all (length seqs)"
    using c by (simp add: cache_describes_def open_calls_at_append)
  have scan: "scan_tail events (bc_in_progress c) (drop (length seqs) ?all)
    = Inr (open_calls_at events ?all (length ?all),
           map (\<lambda>i. open_calls_at events ?all i = 0) [Suc (length seqs)..<Suc (length ?all)])"
    unfolding start by (rule scan_tail_spec) (use paired in \<open>auto simp: paired_surface_def\<close>)
  have cuts: "bc_cuts c = map (\<lambda>i. open_calls_at events ?all i = 0) [0..<Suc (length seqs)]"
    using c by (simp add: cache_describes_def open_calls_at_append)
  have "[0..<Suc (length ?all)] = [0..<Suc (length seqs)] @ [Suc (length seqs)..<Suc (length ?all)]"
    using upt_add_eq_append [of 0 "Suc (length seqs)" "length more_seqs"] by simp
  moreover have "\<forall>n. map_get (index_tail (length seqs) more_seqs (bc_index c)) n = index_of n ?all"
    using index_tail_get c paired by (simp add: cache_describes_def paired_surface_def)
  ultimately show ?thesis using scan cuts
    by (simp add: extend_cache_def processed cache_describes_def Let_def del: upt_Suc)
qed

text \<open>
  The cache for one session is asked about growing surfaces of one generation, or about a new
  generation. \<open>cache_valid\<close> is what the cache kept from earlier questions guarantees.
\<close>

definition cache_valid :: "event_log \<Rightarrow> nat list \<Rightarrow> nat \<Rightarrow> balance_cache option \<Rightarrow> bool" where
  "cache_valid events seqs generation cached =
     (case cached of
        None \<Rightarrow> True
      | Some c \<Rightarrow> bc_generation c = generation \<longrightarrow> (\<exists>m\<le>length seqs. cache_describes events (take m seqs) c))"

lemma balance_cache_for_describes:
  assumes paired: "paired_surface events seqs" and valid: "cache_valid events seqs generation cached"
  shows "\<exists>c. balance_cache_for events seqs generation cached = Inr c \<and> cache_describes events seqs c
    \<and> bc_generation c = generation"
proof -
  have fresh: "\<exists>c. extend_cache events (empty_cache generation) seqs = Inr c \<and> cache_describes events seqs c
      \<and> bc_generation c = generation"
    using extend_cache_describes [OF _ cache_describes_empty, of events seqs generation] paired
    by (simp add: empty_cache_def)
  show ?thesis
  proof (cases cached)
    case None
    then show ?thesis using fresh by (simp add: balance_cache_for_def)
  next
    case (Some c)
    show ?thesis
    proof (cases "bc_generation c = generation")
      case False
      then show ?thesis using Some fresh by (simp add: balance_cache_for_def)
    next
      case True
      then obtain m where m: "m \<le> length seqs" "cache_describes events (take m seqs) c"
        using valid Some by (auto simp: cache_valid_def)
      then have cuts: "length (bc_cuts c) - 1 = m" by (simp add: cache_describes_def)
      have ext: "\<exists>c'. extend_cache events c seqs = Inr c' \<and> cache_describes events seqs c'
          \<and> bc_generation c' = bc_generation c"
        using extend_cache_describes [OF _ m(2), of "drop m seqs"] paired by simp
      show ?thesis
      proof (cases "m < length seqs")
        case True
        then show ?thesis using ext \<open>bc_generation c = generation\<close> Some cuts m(1)
          by (simp add: balance_cache_for_def)
      next
        case False
        then have "m = length seqs" using m(1) by simp
        then show ?thesis using m \<open>bc_generation c = generation\<close> Some cuts
          by (simp add: balance_cache_for_def)
      qed
    qed
  qed
qed

lemma cut_balance_describes:
  assumes "cache_describes events seqs c" "distinct seqs" "i < length seqs" "k \<le> 1"
  shows "cut_balance c (seqs ! i) k = Inr (open_calls_at events seqs (i + k) = 0)"
  using assms index_of_nth [OF assms(2,3)]
  by (auto simp: cut_balance_def cache_describes_def nth_opt_def simp del: upt_Suc)

lemma balanced_before_spec:
  assumes "paired_surface events seqs" "cache_valid events seqs generation cached" "i < length seqs"
  shows "tool_pairing_balanced_before events seqs generation cached (seqs ! i)
    = Inr (open_calls_at events seqs i = 0)"
proof -
  obtain c where "balance_cache_for events seqs generation cached = Inr c" "cache_describes events seqs c"
    using balance_cache_for_describes [OF assms(1,2)] by blast
  then show ?thesis using cut_balance_describes [of events seqs c i 0] assms
    by (simp add: tool_pairing_balanced_before_def paired_surface_def)
qed

lemma balanced_after_spec:
  assumes "paired_surface events seqs" "cache_valid events seqs generation cached" "i < length seqs"
  shows "tool_pairing_balanced_after events seqs generation cached (seqs ! i)
    = Inr (open_calls_at events seqs (Suc i) = 0)"
proof -
  obtain c where "balance_cache_for events seqs generation cached = Inr c" "cache_describes events seqs c"
    using balance_cache_for_describes [OF assms(1,2)] by blast
  then show ?thesis using cut_balance_describes [of events seqs c i 1] assms
    by (simp add: tool_pairing_balanced_after_def paired_surface_def)
qed

section \<open>Retention selection\<close>

type_synonym priced_nodes = "(nat \<times> nat) list"

datatype region_error =
    MeterMismatch
  | RegionPairing pairing_error

text \<open>The priced tail scan: the first index from the end at which the tail reaches the budget.\<close>

fun keep_from :: "nat list \<Rightarrow> nat \<Rightarrow> nat \<Rightarrow> nat \<Rightarrow> nat" where
  "keep_from prices retain acc 0 = 0"
| "keep_from prices retain acc (Suc i) =
     (let acc' = acc + prices ! i in if retain \<le> acc' then i else keep_from prices retain acc' i)"

fun back_to_balance :: "(nat \<Rightarrow> (pairing_error, bool) result) \<Rightarrow> nat list \<Rightarrow> nat \<Rightarrow> (pairing_error, nat) result" where
  "back_to_balance balanced nodes 0 = Inr 0"
| "back_to_balance balanced nodes (Suc i) =
     rbind (balanced (nodes ! Suc i)) (\<lambda>b. if b then Inr (Suc i) else back_to_balance balanced nodes i)"

definition select_compactable_range ::
    "event_log \<Rightarrow> nat list \<Rightarrow> nat \<Rightarrow> balance_cache option \<Rightarrow> priced_nodes \<Rightarrow> nat \<Rightarrow> (region_error, (nat \<times> nat) option) result" where
  "select_compactable_range events nodes generation cached priced retain =
     (if priced = [] then Inr None
      else if map fst priced \<noteq> nodes then Inl MeterMismatch
      else
        (let k = keep_from (map snd priced) retain 0 (length priced) in
         if k = 0 then Inr None
         else rmap (\<lambda>k'. if k' = 0 then None else Some (nodes ! 0, nodes ! (k' - 1)))
           (map_error RegionPairing
             (back_to_balance (tool_pairing_balanced_before events nodes generation cached) nodes k))))"

lemma keep_from_less: "0 < i \<Longrightarrow> keep_from prices retain acc i < i"
  by (induction prices retain acc i rule: keep_from.induct) (auto simp: Let_def less_Suc_eq)

lemma keep_from_retains:
  assumes "i \<le> length prices" "acc = sum_list (drop i prices)" "0 < keep_from prices retain acc i"
  shows "retain \<le> sum_list (drop (keep_from prices retain acc i) prices)"
  using assms
proof (induction prices retain acc i rule: keep_from.induct)
  case (1 prices retain acc)
  then show ?case by simp
next
  case (2 prices retain acc i)
  have "drop i prices = prices ! i # drop (Suc i) prices"
    using "2.prems"(1) by (simp add: Cons_nth_drop_Suc)
  then have "acc + prices ! i = sum_list (drop i prices)" using "2.prems"(2) by simp
  then show ?case using "2.IH" [OF refl] "2.prems" by (auto simp: Let_def split: if_splits)
qed

lemma back_to_balance_spec:
  assumes "\<And>i. i < length nodes \<Longrightarrow> balanced (nodes ! i) = Inr (P i)" "k < length nodes"
  shows "\<exists>k'. back_to_balance balanced nodes k = Inr k' \<and> k' \<le> k \<and> (k' \<noteq> 0 \<longrightarrow> P k')
    \<and> (\<forall>j. k' < j \<and> j \<le> k \<longrightarrow> \<not> P j)"
  using assms(2)
proof (induction k)
  case 0
  then show ?case by auto
next
  case (Suc k)
  show ?case
  proof (cases "P (Suc k)")
    case True
    then show ?thesis using assms(1) [OF Suc.prems] by auto
  next
    case False
    then have eq: "back_to_balance balanced nodes (Suc k) = back_to_balance balanced nodes k"
      using assms(1) [OF Suc.prems] by simp
    obtain k' where k': "back_to_balance balanced nodes k = Inr k'" "k' \<le> k" "k' \<noteq> 0 \<longrightarrow> P k'"
      "\<forall>j. k' < j \<and> j \<le> k \<longrightarrow> \<not> P j"
      using Suc.IH Suc.prems by auto
    have "\<not> P j" if "k' < j" "j \<le> Suc k" for j
      using that k'(4) False by (cases "j = Suc k") auto
    then show ?thesis using k' eq by auto
  qed
qed

lemma select_compactable_range_spec:
  assumes paired: "paired_surface events nodes" and valid: "cache_valid events nodes generation cached"
    and prices: "map fst priced = nodes"
  shows "\<exists>r. select_compactable_range events nodes generation cached priced retain = Inr r
    \<and> (case r of
         None \<Rightarrow> True
       | Some (s, e) \<Rightarrow> \<exists>k. 0 < k \<and> k < length nodes \<and> s = nodes ! 0 \<and> e = nodes ! (k - 1)
           \<and> open_calls_at events nodes k = 0 \<and> retain \<le> sum_list (map snd (drop k priced)))"
proof -
  let ?k = "keep_from (map snd priced) retain 0 (length priced)"
  have len: "length nodes = length priced" using prices by (metis length_map)
  show ?thesis
  proof (cases "priced = [] \<or> ?k = 0")
    case True
    then show ?thesis using prices by (auto simp: select_compactable_range_def)
  next
    case False
    then have k: "0 < ?k" "?k < length nodes" using keep_from_less [of "length priced"] len by auto
    have "\<exists>k'. back_to_balance (tool_pairing_balanced_before events nodes generation cached) nodes ?k = Inr k'
        \<and> k' \<le> ?k \<and> (k' \<noteq> 0 \<longrightarrow> open_calls_at events nodes k' = 0)
        \<and> (\<forall>j. k' < j \<and> j \<le> ?k \<longrightarrow> \<not> open_calls_at events nodes j = 0)"
      by (rule back_to_balance_spec) (use balanced_before_spec [OF paired valid] k in auto)
    then obtain k' where k': "back_to_balance (tool_pairing_balanced_before events nodes generation cached) nodes ?k = Inr k'"
        "k' \<le> ?k" "k' \<noteq> 0 \<longrightarrow> open_calls_at events nodes k' = 0" by blast
    have "retain \<le> sum_list (drop ?k (map snd priced))"
      by (rule keep_from_retains) (use k in auto)
    also have "\<dots> \<le> sum_list (drop k' (map snd priced))"
    proof -
      have "drop k' (map snd priced) = take (?k - k') (drop k' (map snd priced)) @ drop ?k (map snd priced)"
        using k'(2) by (metis append_take_drop_id drop_drop le_add_diff_inverse2)
      then show ?thesis by (metis le_add2 sum_list_append)
    qed
    finally have "retain \<le> sum_list (map snd (drop k' priced))" by (simp add: drop_map)
    then show ?thesis using False k k' prices by (auto simp: select_compactable_range_def Let_def)
  qed
qed

end
