(* ===== verification/Compaction_Trace.thy ===== *)
theory Compaction_Trace
  imports Session_Log
begin

text \<open>
  The log-stream invariants of compaction
  (\<open>packages/compaction/compaction/src/invariant.ts\<close>, \<open>checkpoint.ts\<close>): one compaction bracket at
  a time, owned by the open turn or by none, closed by its own end event, and no turn boundary
  inside a bracket.
\<close>

section \<open>Checkpoint provenance\<close>

definition compact_checkpoint_source :: "string \<Rightarrow> string option \<Rightarrow> message_source" where
  "compact_checkpoint_source cid cmd = CheckpointSource cid cmd"

definition is_compact_checkpoint_source :: "message_source \<Rightarrow> bool" where
  "is_compact_checkpoint_source src =
     (case src of
        CheckpointSource _ _ \<Rightarrow> True
      | PluginSource p _ \<Rightarrow> p = ''compact''
      | _ \<Rightarrow> False)"

section \<open>State\<close>

record compaction_trace =
  ct_id :: string
  ct_command :: "string option"
  ct_start_seq :: nat
  ct_turn :: "int option"
  ct_summarized :: bool

record compaction_session =
  cst_open_turn :: "int option"
  cst_compaction :: "compaction_trace option"

datatype compaction_transition =
    CtStart compaction_trace
  | CtSummary compaction_trace
  | CtEnd
  | CtEndSeed

datatype compaction_error =
    EmptyId string
  | CommandMismatch string
  | NoMatchingStart string
  | IdMismatch string
  | StartWhileOpen
  | OwnerStandaloneInTurn string
  | OwnerOutsideTurn string
  | OwnerWrongTurn string
  | OwnerMismatch
  | SummaryRepeated
  | SummaryEmptyRange
  | SummaryRangeMismatch
  | SummaryBadTokens
  | EndWithoutSummary
  | CrossesBoundary string

definition fresh_compaction :: compaction_session where
  "fresh_compaction = \<lparr>cst_open_turn = None, cst_compaction = None\<rparr>"

section \<open>Validation\<close>

definition validate_id :: "string option \<Rightarrow> string \<Rightarrow> (compaction_error, unit) result" where
  "validate_id v label = ensure (v \<noteq> None \<and> v \<noteq> Some []) (EmptyId label)"

definition validate_optional_id :: "string option \<Rightarrow> string \<Rightarrow> (compaction_error, unit) result" where
  "validate_optional_id v label = (if v = None then Inr () else validate_id v label)"

definition validate_source_command ::
    "string \<Rightarrow> string option \<Rightarrow> string option \<Rightarrow> (compaction_error, unit) result" where
  "validate_source_command label v expected =
     rbind (validate_optional_id v label) (\<lambda>_. ensure (v = expected) (CommandMismatch label))"

definition validate_checkpoint :: "compaction_session \<Rightarrow> message_source \<Rightarrow> (compaction_error, unit) result" where
  "validate_checkpoint tr src =
     (let cid = (case src of CheckpointSource c _ \<Rightarrow> Some c | _ \<Rightarrow> None);
          cmd = (case src of CheckpointSource _ m \<Rightarrow> m | _ \<Rightarrow> None)
      in rbind (validate_id cid ''checkpoint'')
        (\<lambda>_. rbind (validate_optional_id cmd ''checkpoint'')
          (\<lambda>_. case cst_compaction tr of
             None \<Rightarrow> Inl (NoMatchingStart ''checkpoint'')
           | Some c \<Rightarrow>
               (if cid \<noteq> Some (ct_id c) then Inl (IdMismatch ''checkpoint'')
                else validate_source_command ''checkpoint'' cmd (ct_command c)))))"

definition validate_turn_boundary :: "compaction_session \<Rightarrow> session_event \<Rightarrow> (compaction_error, unit) result" where
  "validate_turn_boundary tr e =
     (if is_turn_boundary e \<and> cst_compaction tr \<noteq> None
      then Inl (CrossesBoundary (event_type (ev_data e))) else Inr ())"

definition apply_turn_boundary :: "compaction_session \<Rightarrow> session_event \<Rightarrow> compaction_session" where
  "apply_turn_boundary tr e =
     (case ev_data e of
        TurnStart n \<Rightarrow> tr\<lparr>cst_open_turn := Some n\<rparr>
      | TurnEnd _ _ \<Rightarrow> tr\<lparr>cst_open_turn := None\<rparr>
      | _ \<Rightarrow> tr)"

definition validate_owner :: "int option \<Rightarrow> int option \<Rightarrow> string \<Rightarrow> (compaction_error, unit) result" where
  "validate_owner owner open_turn label =
     (case owner of
        None \<Rightarrow> if open_turn \<noteq> None then Inl (OwnerStandaloneInTurn label) else Inr ()
      | Some n \<Rightarrow>
          (case open_turn of
             None \<Rightarrow> Inl (OwnerOutsideTurn label)
           | Some t \<Rightarrow> if n \<noteq> t then Inl (OwnerWrongTurn label) else Inr ()))"

definition nonneg_safe :: "jsnum \<Rightarrow> bool" where
  "nonneg_safe n = (case n of NInt i \<Rightarrow> safe_int i \<and> 0 \<le> i | _ \<Rightarrow> False)"

definition validate_start ::
    "compaction_session \<Rightarrow> nat \<Rightarrow> compaction_lifecycle \<Rightarrow> (compaction_error, compaction_transition) result" where
  "validate_start tr n d =
     rbind (validate_id (Some (cl_id d)) ''start'')
       (\<lambda>_. rbind (validate_optional_id (cl_source_command d) ''start'')
         (\<lambda>_. if cst_compaction tr \<noteq> None then Inl StartWhileOpen
              else rmap (\<lambda>_. CtStart \<lparr>ct_id = cl_id d, ct_command = cl_source_command d, ct_start_seq = n,
                                      ct_turn = cl_turn d, ct_summarized = False\<rparr>)
                     (validate_owner (cl_turn d) (cst_open_turn tr) ''start'')))"

definition validate_summary ::
    "compaction_session \<Rightarrow> compaction_summary \<Rightarrow> (compaction_error, compaction_transition) result" where
  "validate_summary tr d =
     rbind (validate_id (Some (cs_id d)) ''summary'')
       (\<lambda>_. rbind (validate_optional_id (cs_source_command d) ''summary'')
         (\<lambda>_. case cst_compaction tr of
            None \<Rightarrow> Inl (NoMatchingStart ''summary'')
          | Some c \<Rightarrow>
              (if cs_id d \<noteq> ct_id c then Inl (IdMismatch ''summary'')
               else rbind (validate_source_command ''summary'' (cs_source_command d) (ct_command c))
                 (\<lambda>_. rbind (validate_owner (ct_turn c) (cst_open_turn tr) ''summary'')
                   (\<lambda>_. if ct_summarized c then Inl SummaryRepeated
                        else if cs_shadowed d = [] then Inl SummaryEmptyRange
                        else if hd (cs_shadowed d) \<noteq> cs_range_start d \<or> last (cs_shadowed d) \<noteq> cs_range_end d
                        then Inl SummaryRangeMismatch
                        else if \<not> nonneg_safe (cs_token_count d) then Inl SummaryBadTokens
                        else Inr (CtSummary (c\<lparr>ct_summarized := True\<rparr>)))))))"

definition validate_end ::
    "compaction_session \<Rightarrow> compaction_lifecycle \<Rightarrow> (compaction_error, compaction_transition) result" where
  "validate_end tr d =
     rbind (validate_id (Some (cl_id d)) ''end'')
       (\<lambda>_. rbind (validate_optional_id (cl_source_command d) ''end'')
         (\<lambda>_. case cst_compaction tr of
            None \<Rightarrow> Inl (NoMatchingStart ''end'')
          | Some c \<Rightarrow>
              (if cl_id d \<noteq> ct_id c then Inl (IdMismatch ''end'')
               else rbind (validate_source_command ''end'' (cl_source_command d) (ct_command c))
                 (\<lambda>_. if cl_turn d \<noteq> ct_turn c then Inl OwnerMismatch
                      else rbind (validate_owner (ct_turn c) (cst_open_turn tr) ''end'')
                        (\<lambda>_. if cl_error d = None \<and> \<not> ct_summarized c then Inl EndWithoutSummary
                             else Inr CtEnd)))))"

definition validate_compaction_event ::
    "compaction_session \<Rightarrow> session_event \<Rightarrow> (compaction_error, compaction_transition option) result" where
  "validate_compaction_event tr e =
     (case ev_data e of
        EndSeed \<Rightarrow> Inr (Some CtEndSeed)
      | UserMessageEv m \<Rightarrow>
          (if is_replacement_surface_event e \<and> is_compact_checkpoint_source (um_source m)
           then rmap (\<lambda>_. None) (validate_checkpoint tr (um_source m)) else Inr None)
      | CompactionStart d \<Rightarrow> rmap Some (validate_start tr (ev_seq e) d)
      | CompactionSummary d \<Rightarrow> rmap Some (validate_summary tr d)
      | CompactionEnd d \<Rightarrow> rmap Some (validate_end tr d)
      | _ \<Rightarrow> Inr None)"

definition apply_compaction_transition :: "compaction_transition \<Rightarrow> compaction_trace option" where
  "apply_compaction_transition t =
     (case t of CtStart c \<Rightarrow> Some c | CtSummary c \<Rightarrow> Some c | CtEnd \<Rightarrow> None | CtEndSeed \<Rightarrow> None)"

definition apply_compaction :: "compaction_session \<Rightarrow> session_event \<Rightarrow> compaction_transition option \<Rightarrow> compaction_session" where
  "apply_compaction tr e t =
     apply_turn_boundary
       (case t of None \<Rightarrow> tr | Some x \<Rightarrow> tr\<lparr>cst_compaction := apply_compaction_transition x\<rparr>) e"

text \<open>The live step: both checks before the event commits, the transition after.\<close>

definition compaction_step :: "compaction_session \<Rightarrow> session_event \<Rightarrow> (compaction_error, compaction_session) result" where
  "compaction_step tr e =
     rbind (validate_turn_boundary tr e) (\<lambda>_. rmap (apply_compaction tr e) (validate_compaction_event tr e))"

text \<open>Starts that a later seed boundary made stale, and the seeding that tolerates them.\<close>

fun stale_starts :: "nat option \<Rightarrow> event_log \<Rightarrow> nat list" where
  "stale_starts open_start [] = []"
| "stale_starts open_start (e # es) =
     (case ev_data e of
        CompactionStart _ \<Rightarrow> stale_starts (Some (ev_seq e)) es
      | CompactionEnd _ \<Rightarrow> stale_starts None es
      | EndSeed \<Rightarrow> (case open_start of Some n \<Rightarrow> n # stale_starts None es | None \<Rightarrow> stale_starts None es)
      | _ \<Rightarrow> stale_starts open_start es)"

definition inherited_orphan_start_seqs :: "event_log \<Rightarrow> nat set" where
  "inherited_orphan_start_seqs events = set (stale_starts None events)"

definition seed_compaction_step ::
    "nat set \<Rightarrow> compaction_session \<Rightarrow> session_event \<Rightarrow> (compaction_error, compaction_session) result" where
  "seed_compaction_step stale tr e =
     rbind (case cst_compaction tr of
              Some c \<Rightarrow> if ct_start_seq c \<in> stale then Inr () else validate_turn_boundary tr e
            | None \<Rightarrow> validate_turn_boundary tr e)
       (\<lambda>_. rmap (apply_compaction tr e) (validate_compaction_event tr e))"

definition seed_compaction :: "event_log \<Rightarrow> (compaction_error, compaction_session) result" where
  "seed_compaction events =
     fold_log (seed_compaction_step (inherited_orphan_start_seqs events)) fresh_compaction events"

section \<open>Facts\<close>

lemma ensure_eq_Inr_unit: "ensure c e = Inr () \<longleftrightarrow> c"
  by simp

text \<open>The bracket is owned by the open turn exactly, or by no turn while none is open.\<close>

definition compaction_wf :: "compaction_session \<Rightarrow> bool" where
  "compaction_wf tr \<longleftrightarrow>
     (case cst_compaction tr of
        None \<Rightarrow> True
      | Some c \<Rightarrow> ct_turn c = cst_open_turn tr \<and> ct_id c \<noteq> [])"

lemma validate_owner_ok: "validate_owner owner t l = Inr u \<Longrightarrow> owner = t"
  by (auto simp: validate_owner_def split: option.splits if_splits)

lemma validate_start_ok:
  "validate_start tr n d = Inr x \<Longrightarrow>
     cst_compaction tr = None \<and> cl_turn d = cst_open_turn tr \<and> cl_id d \<noteq> []
     \<and> x = CtStart \<lparr>ct_id = cl_id d, ct_command = cl_source_command d, ct_start_seq = n,
                    ct_turn = cl_turn d, ct_summarized = False\<rparr>"
  by (auto simp: validate_start_def rbind_eq_Inr rmap_eq_Inr validate_id_def dest: validate_owner_ok split: if_splits)

lemma validate_summary_ok:
  "validate_summary tr d = Inr x \<Longrightarrow>
     \<exists>c. cst_compaction tr = Some c \<and> cs_id d = ct_id c \<and> \<not> ct_summarized c \<and> x = CtSummary (c\<lparr>ct_summarized := True\<rparr>)"
  by (auto simp: validate_summary_def rbind_eq_Inr split: option.splits if_splits)

lemma validate_end_ok:
  "validate_end tr d = Inr x \<Longrightarrow>
     x = CtEnd \<and> (\<exists>c. cst_compaction tr = Some c \<and> cl_id d = ct_id c \<and> cl_turn d = ct_turn c
        \<and> (cl_error d = None \<longrightarrow> ct_summarized c))"
  by (auto simp: validate_end_def rbind_eq_Inr split: option.splits if_splits)

lemma compaction_step_cases:
  assumes "compaction_step tr e = Inr tr'"
  obtains (start) d where "ev_data e = CompactionStart d" "cst_compaction tr = None" "cl_turn d = cst_open_turn tr"
      "cl_id d \<noteq> []" "tr' = tr\<lparr>cst_compaction := Some \<lparr>ct_id = cl_id d, ct_command = cl_source_command d,
          ct_start_seq = ev_seq e, ct_turn = cl_turn d, ct_summarized = False\<rparr>\<rparr>"
  | (summary) d c where "ev_data e = CompactionSummary d" "cst_compaction tr = Some c" "cs_id d = ct_id c"
      "\<not> ct_summarized c" "tr' = tr\<lparr>cst_compaction := Some (c\<lparr>ct_summarized := True\<rparr>)\<rparr>"
  | (close) d c where "ev_data e = CompactionEnd d" "cst_compaction tr = Some c" "cl_id d = ct_id c"
      "cl_turn d = ct_turn c" "cl_error d = None \<longrightarrow> ct_summarized c" "tr' = tr\<lparr>cst_compaction := None\<rparr>"
  | (end_seed) "ev_data e = EndSeed" "tr' = tr\<lparr>cst_compaction := None\<rparr>"
  | (boundary) "is_turn_boundary e" "cst_compaction tr = None"
      "tr' = tr\<lparr>cst_open_turn := (case ev_data e of TurnStart n \<Rightarrow> Some n | _ \<Rightarrow> None)\<rparr>"
  | (other) "\<not> is_turn_boundary e" "\<forall>d. ev_data e \<noteq> CompactionStart d" "\<forall>d. ev_data e \<noteq> CompactionSummary d"
      "\<forall>d. ev_data e \<noteq> CompactionEnd d" "tr' = tr"
proof -
  from assms obtain t where v: "validate_turn_boundary tr e = Inr ()" "validate_compaction_event tr e = Inr t"
    and tr': "tr' = apply_compaction tr e t"
    by (auto simp: compaction_step_def rbind_eq_Inr rmap_eq_Inr)
  show thesis
  proof (cases "ev_data e")
    case (CompactionStart d)
    with v obtain x where x: "validate_start tr (ev_seq e) d = Inr x" "t = Some x"
      by (auto simp: validate_compaction_event_def rmap_eq_Inr)
    show thesis by (rule start [OF CompactionStart])
      (use validate_start_ok [OF x(1)] x(2) tr' CompactionStart in
        \<open>auto simp: apply_compaction_def apply_turn_boundary_def apply_compaction_transition_def\<close>)
  next
    case (CompactionSummary d)
    with v obtain x where x: "validate_summary tr d = Inr x" "t = Some x"
      by (auto simp: validate_compaction_event_def rmap_eq_Inr)
    from validate_summary_ok [OF x(1)] obtain c where
      "cst_compaction tr = Some c" "cs_id d = ct_id c" "\<not> ct_summarized c" "x = CtSummary (c\<lparr>ct_summarized := True\<rparr>)"
      by blast
    with CompactionSummary x(2) tr' show thesis
      by (intro summary [of d c]) (auto simp: apply_compaction_def apply_turn_boundary_def apply_compaction_transition_def)
  next
    case (CompactionEnd d)
    with v obtain x where x: "validate_end tr d = Inr x" "t = Some x"
      by (auto simp: validate_compaction_event_def rmap_eq_Inr)
    from validate_end_ok [OF x(1)] obtain c where
      "cst_compaction tr = Some c" "cl_id d = ct_id c" "cl_turn d = ct_turn c" "cl_error d = None \<longrightarrow> ct_summarized c"
      "x = CtEnd" by (elim conjE exE) simp
    with CompactionEnd x(2) tr' show thesis
      by (intro close [of d c]) (auto simp: apply_compaction_def apply_turn_boundary_def apply_compaction_transition_def)
  next
    case (TurnStart n)
    with v tr' show thesis
      by (intro boundary) (auto simp: is_turn_boundary_def validate_turn_boundary_def validate_compaction_event_def
          apply_compaction_def apply_turn_boundary_def split: if_splits)
  next
    case (TurnEnd n r)
    with v tr' show thesis
      by (intro boundary) (auto simp: is_turn_boundary_def validate_turn_boundary_def validate_compaction_event_def
          apply_compaction_def apply_turn_boundary_def split: if_splits)
  next
    case EndSeed
    with v tr' show thesis
      by (intro end_seed) (auto simp: validate_compaction_event_def apply_compaction_def apply_turn_boundary_def
          apply_compaction_transition_def)
  qed (rule other; use v tr' in \<open>auto simp: is_turn_boundary_def validate_compaction_event_def rmap_eq_Inr
      apply_compaction_def apply_turn_boundary_def split: if_splits\<close>)+
qed

lemma compaction_wf_step:
  assumes "compaction_wf tr" "compaction_step tr e = Inr tr'"
  shows "compaction_wf tr'"
  using assms(2,1) by (cases rule: compaction_step_cases) (auto simp: compaction_wf_def split: option.splits)

interpretation compaction: event_fold fresh_compaction compaction_step compaction_wf
  by unfold_locales (simp add: compaction_wf_def fresh_compaction_def, rule compaction_wf_step)

text \<open>
  The latest bracket marker of a log the live checks accept decides whether a bracket is open.
\<close>

definition is_bracket_marker :: "session_event \<Rightarrow> bool" where
  "is_bracket_marker e =
     (case ev_data e of CompactionStart _ \<Rightarrow> True | CompactionEnd _ \<Rightarrow> True | EndSeed \<Rightarrow> True | _ \<Rightarrow> False)"

lemma compaction_open_iff:
  assumes "fold_log compaction_step fresh_compaction events = Inr tr"
  shows "cst_compaction tr \<noteq> None \<longleftrightarrow>
    (\<exists>e d. find_last is_bracket_marker events = Some e \<and> ev_data e = CompactionStart d)"
  using assms
proof (induction events arbitrary: tr rule: rev_induct)
  case Nil
  then show ?case by (auto simp: fresh_compaction_def find_last_def)
next
  case (snoc e events)
  from snoc.prems obtain t where t: "fold_log compaction_step fresh_compaction events = Inr t" "compaction_step t e = Inr tr"
    by (auto simp: fold_log_snoc rbind_eq_Inr)
  note IH = snoc.IH [OF t(1)]
  from t(2) show ?case
  proof (cases rule: compaction_step_cases)
    case other
    have "ev_data e \<noteq> EndSeed \<or> cst_compaction tr = None"
      using t(2) by (auto simp: compaction_step_def validate_compaction_event_def rbind_eq_Inr rmap_eq_Inr
          apply_compaction_def apply_turn_boundary_def apply_compaction_transition_def)
    then show ?thesis using other IH
      by (cases "ev_data e") (auto simp: find_last_snoc is_bracket_marker_def)
  next
    case boundary
    then have "\<not> is_bracket_marker e"
      by (cases "ev_data e") (auto simp: is_bracket_marker_def is_turn_boundary_def)
    then show ?thesis using boundary IH by (simp add: find_last_snoc)
  qed (use IH in \<open>auto simp: find_last_snoc is_bracket_marker_def\<close>)
qed

end
