(* ===== verification/Compaction_Region.thy ===== *)
theory Compaction_Region
  imports Tool_Pairing Compaction_Trace
begin

text \<open>
  The log-recorded compaction transaction
  (\<open>packages/compaction/compaction-basic/src/region.ts\<close>). The token meter, the summarizer and
  the flush are services the engine receives; they are fields of an environment. The
  summarizer is asynchronous: it returns the session as it stands when it settles, so that
  everything other writers appended meanwhile is part of the model. Every path that opened a
  bracket is shown to close it, a failure is shown to leave the surface as it was, and a
  success replaces exactly the selected span.
\<close>

section \<open>Reading a session\<close>

text \<open>The balance questions, asked with an empty cache: the answers do not depend on the cache.\<close>

definition balanced_before :: "session \<Rightarrow> nat \<Rightarrow> (pairing_error, bool) result" where
  "balanced_before s n = tool_pairing_balanced_before (ses_log s) (session_nodes s) (session_generation s) None n"

definition balanced_after :: "session \<Rightarrow> nat \<Rightarrow> (pairing_error, bool) result" where
  "balanced_after s n = tool_pairing_balanced_after (ses_log s) (session_nodes s) (session_generation s) None n"

record entry_state =
  es_open_turn :: "int option"
  es_unmatched_start :: "nat option"
  es_end_seed :: "nat option"

text \<open>The backward scan, each fact taken from the newest event that decides it.\<close>

definition turn_marker :: "session_event \<Rightarrow> int option option" where
  "turn_marker e = (case ev_data e of TurnStart n \<Rightarrow> Some (Some n) | TurnEnd _ _ \<Rightarrow> Some None | _ \<Rightarrow> None)"

definition compaction_marker :: "session_event \<Rightarrow> nat option option" where
  "compaction_marker e =
     (case ev_data e of CompactionStart _ \<Rightarrow> Some (Some (ev_seq e)) | CompactionEnd _ \<Rightarrow> Some None | _ \<Rightarrow> None)"

definition seed_marker :: "session_event \<Rightarrow> nat option" where
  "seed_marker e = (case ev_data e of EndSeed \<Rightarrow> Some (ev_seq e) | _ \<Rightarrow> None)"

fun newest :: "(session_event \<Rightarrow> 'a option) \<Rightarrow> event_log \<Rightarrow> 'a option" where
  "newest f [] = None"
| "newest f (e # rest) = (case f e of Some a \<Rightarrow> Some a | None \<Rightarrow> newest f rest)"

definition inspect_compaction_entry_state :: "event_log \<Rightarrow> entry_state" where
  "inspect_compaction_entry_state events =
     \<lparr>es_open_turn = (case newest turn_marker (rev events) of Some t \<Rightarrow> t | None \<Rightarrow> None),
      es_unmatched_start = (case newest compaction_marker (rev events) of Some c \<Rightarrow> c | None \<Rightarrow> None),
      es_end_seed = newest seed_marker (rev events)\<rparr>"

definition compaction_inactive :: "entry_state \<Rightarrow> bool" where
  "compaction_inactive st =
     (case es_unmatched_start st of
        None \<Rightarrow> True
      | Some n \<Rightarrow> (case es_end_seed st of Some b \<Rightarrow> n < b | None \<Rightarrow> False))"

section \<open>Selection of the span\<close>

datatype span_error =
    SpanStartNotFound nat
  | SpanEndNotFound nat
  | SpanReversed nat nat
  | SpanStartUnbalanced nat
  | SpanEndUnbalanced nat
  | SpanPairing pairing_error

record surface_selection =
  sel_start :: nat
  sel_end :: nat
  sel_start_idx :: nat
  sel_end_idx :: nat
  sel_shadowed :: "nat list"

definition validate_surface_region :: "session \<Rightarrow> nat \<Rightarrow> nat \<Rightarrow> (span_error, surface_selection) result" where
  "validate_surface_region s start en =
     (let nodes = session_nodes s in
      case index_of start nodes of
        None \<Rightarrow> Inl (SpanStartNotFound start)
      | Some i \<Rightarrow>
          (case index_of en nodes of
             None \<Rightarrow> Inl (SpanEndNotFound en)
           | Some j \<Rightarrow>
               (if j < i then Inl (SpanReversed start en)
                else rbind (map_error SpanPairing (balanced_before s (nodes ! i)))
                  (\<lambda>b. if \<not> b then Inl (SpanStartUnbalanced start)
                       else rbind (map_error SpanPairing (balanced_after s (nodes ! j)))
                         (\<lambda>a. if \<not> a then Inl (SpanEndUnbalanced en)
                              else Inr \<lparr>sel_start = start, sel_end = en, sel_start_idx = i, sel_end_idx = j,
                                        sel_shadowed = slice nodes i (Suc j)\<rparr>)))))"

section \<open>The transaction\<close>

record summarization_input =
  si_system :: "string option"
  si_tools :: "tool_schema list option"
  si_messages :: "message list"

record summary_result =
  su_summary :: "content_block list"
  su_raw_output :: "content_block list option"
  su_llm_stream_call :: bool
  su_provider :: string
  su_model :: string
  su_max_tokens :: "jsnum option"
  su_usage :: "token_usage option"

record compaction_options =
  co_standalone :: bool
  co_whole_surface :: bool
  co_source_command :: "string option"

datatype tx_error =
    TxAborted
  | TxSurfaceChanged
  | TxSummarizer string
  | TxNotSmaller nat nat
  | TxAppend append_error

datatype tx_stage = StageSummary | StageCommit

record compaction_env =
  ce_measure :: "session \<Rightarrow> priced_nodes"
  ce_estimate :: "user_message \<Rightarrow> nat"
  ce_summarize :: "session \<Rightarrow> summarization_input \<Rightarrow> session \<times> (string, summary_result) result"
  ce_flush :: "(session \<Rightarrow> string option) option"
  ce_error_chain :: "tx_error \<Rightarrow> string"
  ce_now :: int
  ce_compaction_id :: string
  ce_message_id :: message_id
  ce_aborted_start :: bool
  ce_aborted_summary :: bool
  ce_aborted_end :: bool

datatype manual_code = ManualBusy | ManualCommit | ManualChanged | ManualSummary | ManualPersistence

datatype compact_failure =
    CallAborted
  | SpanInvalid span_error
  | AlreadyCompacting
  | NoOpenTurn
  | StartAppend append_error
  | TxFailed tx_error
  | ManualFailed manual_code

record compaction_result =
  cr_id :: string
  cr_command :: "string option"
  cr_start_seq :: nat
  cr_summary_seq :: nat
  cr_end_seq :: nat
  cr_summary :: "content_block list"
  cr_range :: "nat \<times> nat"
  cr_shadowed :: "nat list"
  cr_token_count :: nat

definition checkpoint_preamble :: string where
  "checkpoint_preamble = ''This is an automatically generated checkpoint condensing an earlier span of the conversation to free up context. Treat the captured context as established background and build on it without restating it. Continue the task directly from the messages that follow, without acknowledging this checkpoint.''"

definition frame_summary :: "content_block list \<Rightarrow> content_block list" where
  "frame_summary summary =
     [TextBlock (checkpoint_preamble @ [newline, newline] @ ''<compacted-summary>'')]
     @ summary @ [TextBlock ''</compacted-summary>'']"

definition build_summarization_input :: "session \<Rightarrow> nat list \<Rightarrow> session \<times> summarization_input" where
  "build_summarization_input s shadowed =
     (case read_request_header s of
        (s', header) \<Rightarrow>
          (s', \<lparr>si_system = Option.bind header eh_system, si_tools = Option.bind header eh_tools,
                si_messages = project_nodes (ses_log s') shadowed\<rparr>))"

record prepared =
  pr_selection :: surface_selection
  pr_measured :: priced_nodes
  pr_selected :: priced_nodes
  pr_token_count :: nat
  pr_input :: summarization_input

definition prepare_compaction ::
    "compaction_env \<Rightarrow> session \<Rightarrow> surface_selection \<Rightarrow> session \<times> (tx_error, prepared) result" where
  "prepare_compaction env s sel =
     (let measured = ce_measure env s;
          selected = slice measured (sel_start_idx sel) (Suc (sel_end_idx sel))
      in if map fst selected \<noteq> sel_shadowed sel then (s, Inl TxSurfaceChanged)
         else (case build_summarization_input s (sel_shadowed sel) of
                 (s', input) \<Rightarrow>
                   (s', Inr \<lparr>pr_selection = sel, pr_measured = measured, pr_selected = selected,
                             pr_token_count = sum_list (map snd selected), pr_input = input\<rparr>)))"

definition checkpoint_message :: "compaction_env \<Rightarrow> compaction_options \<Rightarrow> summary_result \<Rightarrow> user_message" where
  "checkpoint_message env opts r =
     \<lparr>um_id = ce_message_id env, um_content = frame_summary (su_summary r),
      um_source = compact_checkpoint_source (ce_compaction_id env) (co_source_command opts)\<rparr>"

definition summarize_compaction ::
    "compaction_env \<Rightarrow> compaction_options \<Rightarrow> session \<Rightarrow> prepared
       \<Rightarrow> session \<times> (tx_error, summary_result \<times> user_message) result" where
  "summarize_compaction env opts s p =
     (case ce_summarize env s (pr_input p) of
        (s', Inl e) \<Rightarrow> (s', Inl (TxSummarizer e))
      | (s', Inr r) \<Rightarrow>
          (let m = checkpoint_message env opts r; framed = ce_estimate env m in
           if pr_token_count p \<le> framed then (s', Inl (TxNotSmaller framed (pr_token_count p)))
           else (s', Inr (r, m))))"

definition assert_stable :: "compaction_env \<Rightarrow> compaction_options \<Rightarrow> session \<Rightarrow> prepared \<Rightarrow> (tx_error, unit) result" where
  "assert_stable env opts s p =
     (if co_whole_surface opts then ensure (ce_measure env s = pr_measured p) TxSurfaceChanged
      else (case validate_surface_region s (sel_start (pr_selection p)) (sel_end (pr_selection p)) of
              Inl _ \<Rightarrow> Inl TxSurfaceChanged
            | Inr cur \<Rightarrow>
                (if sel_shadowed cur \<noteq> sel_shadowed (pr_selection p) then Inl TxSurfaceChanged
                 else ensure (slice (ce_measure env s) (sel_start_idx cur) (Suc (sel_end_idx cur)) = pr_selected p)
                   TxSurfaceChanged)))"

definition lifecycle_of :: "compaction_env \<Rightarrow> compaction_options \<Rightarrow> int option \<Rightarrow> string option \<Rightarrow> compaction_lifecycle" where
  "lifecycle_of env opts owner err =
     \<lparr>cl_id = ce_compaction_id env, cl_source_command = co_source_command opts, cl_turn = owner, cl_error = err\<rparr>"

definition summary_payload ::
    "compaction_env \<Rightarrow> compaction_options \<Rightarrow> prepared \<Rightarrow> summary_result \<Rightarrow> compaction_summary" where
  "summary_payload env opts p r =
     \<lparr>cs_id = ce_compaction_id env, cs_source_command = co_source_command opts, cs_summary = su_summary r,
      cs_raw_output = su_raw_output r, cs_llm_stream_call = su_llm_stream_call r,
      cs_range_start = sel_start (pr_selection p), cs_range_end = sel_end (pr_selection p),
      cs_shadowed = sel_shadowed (pr_selection p), cs_token_count = NInt (int (pr_token_count p)),
      cs_provider = su_provider r, cs_model = su_model r, cs_max_tokens = su_max_tokens r, cs_usage = su_usage r\<rparr>"

text \<open>Two appends without a yield: the summary record, then the replacement that shadows the span.\<close>

definition commit_compaction_body ::
    "compaction_env \<Rightarrow> compaction_options \<Rightarrow> nat \<Rightarrow> prepared \<Rightarrow> summary_result \<Rightarrow> user_message \<Rightarrow> session
       \<Rightarrow> session \<times> (tx_error, compaction_result) result" where
  "commit_compaction_body env opts start_seq p r m s =
     (let sel = pr_selection p in
      case append_event s (ce_now env) (CompactionSummary (summary_payload env opts p r)) None None of
        Inl e \<Rightarrow> (s, Inl (TxAppend e))
      | Inr (s1, summary_event) \<Rightarrow>
          (case append_event s1 (ce_now env) (UserMessageEv m)
              (Some (surface_op_json (OpReplace (sel_start sel) (sel_end sel))))
              (Some (seqs_json (start_seq # ev_seq summary_event # sel_shadowed sel))) of
             Inl e \<Rightarrow> (s1, Inl (TxAppend e))
           | Inr (s2, _) \<Rightarrow>
               (s2, Inr \<lparr>cr_id = ce_compaction_id env, cr_command = co_source_command opts, cr_start_seq = start_seq,
                         cr_summary_seq = ev_seq summary_event, cr_end_seq = 0, cr_summary = su_summary r,
                         cr_range = (sel_start sel, sel_end sel), cr_shadowed = sel_shadowed sel,
                         cr_token_count = pr_token_count p\<rparr>)))"

text \<open>Everything between the opening and the closing marker.\<close>

definition transaction_body ::
    "compaction_env \<Rightarrow> compaction_options \<Rightarrow> nat \<Rightarrow> surface_selection \<Rightarrow> session
       \<Rightarrow> session \<times> (tx_error \<times> tx_stage, compaction_result) result" where
  "transaction_body env opts start_seq sel s =
     (case prepare_compaction env s sel of
        (s1, Inl e) \<Rightarrow> (s1, Inl (e, StageSummary))
      | (s1, Inr p) \<Rightarrow>
          (case summarize_compaction env opts s1 p of
             (s2, Inl e) \<Rightarrow> (s2, Inl (e, StageSummary))
           | (s2, Inr (r, m)) \<Rightarrow>
               (if co_standalone opts \<and> ce_aborted_summary env then (s2, Inl (TxAborted, StageSummary))
                else (case assert_stable env opts s2 p of
                        Inl e \<Rightarrow> (s2, Inl (e, StageSummary))
                      | Inr _ \<Rightarrow>
                          (case commit_compaction_body env opts start_seq p r m s2 of
                             (s3, Inl e) \<Rightarrow> (s3, Inl (e, StageCommit))
                           | (s3, Inr res) \<Rightarrow> (s3, Inr res))))))"

text \<open>The single close attempt: with the error when the body failed, plain when it succeeded.\<close>

definition close_transaction ::
    "compaction_env \<Rightarrow> compaction_options \<Rightarrow> int option \<Rightarrow> (tx_error \<times> tx_stage, compaction_result) result \<Rightarrow> session
       \<Rightarrow> session \<times> bool \<times> (tx_error \<times> tx_stage, compaction_result) result" where
  "close_transaction env opts owner body s =
     (case body of
        Inl (e, stage) \<Rightarrow>
          (case append_event s (ce_now env) (CompactionEnd (lifecycle_of env opts owner (Some (ce_error_chain env e)))) None None of
             Inl ce \<Rightarrow> (s, False, Inl (TxAppend ce, StageCommit))
           | Inr (s', _) \<Rightarrow> (s', True, Inl (e, stage)))
      | Inr res \<Rightarrow>
          (case append_event s (ce_now env) (CompactionEnd (lifecycle_of env opts owner None)) None None of
             Inl ce \<Rightarrow> (s, False, Inl (TxAppend ce, StageCommit))
           | Inr (s', ev) \<Rightarrow> (s', True, Inr (res\<lparr>cr_end_seq := ev_seq ev\<rparr>))))"

definition manual_failure :: "tx_error \<times> tx_stage \<Rightarrow> compact_failure" where
  "manual_failure f =
     (case f of (e, stage) \<Rightarrow>
        ManualFailed (if stage = StageCommit then ManualCommit
                      else if e = TxSurfaceChanged then ManualChanged else ManualSummary))"

definition settle ::
    "compaction_env \<Rightarrow> compaction_options \<Rightarrow> session \<times> bool \<times> (tx_error \<times> tx_stage, compaction_result) result
       \<Rightarrow> session \<times> (compact_failure, compaction_result) result" where
  "settle env opts t =
     (case t of (s, closed, outcome) \<Rightarrow>
        (let flush_failed = (case ce_flush env of Some f \<Rightarrow> closed \<and> f s \<noteq> None | None \<Rightarrow> False) in
         if co_standalone opts \<and> ce_aborted_end env then (s, Inl CallAborted)
         else (case outcome of
                 Inl f \<Rightarrow> (s, Inl (if co_standalone opts then manual_failure f else TxFailed (fst f)))
               | Inr res \<Rightarrow> if flush_failed then (s, Inl (ManualFailed ManualPersistence)) else (s, Inr res))))"

definition compaction_owner :: "compaction_options \<Rightarrow> entry_state \<Rightarrow> (compact_failure, int option) result" where
  "compaction_owner opts st =
     (if co_standalone opts
      then (if es_open_turn st \<noteq> None then Inl (ManualFailed ManualBusy) else Inr None)
      else (case es_open_turn st of None \<Rightarrow> Inl NoOpenTurn | Some t \<Rightarrow> Inr (Some t)))"

text \<open>The read-only checks before the opening marker.\<close>

definition admit_transaction ::
    "compaction_env \<Rightarrow> compaction_options \<Rightarrow> session \<Rightarrow> nat \<Rightarrow> nat
       \<Rightarrow> (compact_failure, surface_selection \<times> int option) result" where
  "admit_transaction env opts s start en =
     (if co_standalone opts \<and> ce_aborted_start env then Inl CallAborted
      else rbind (map_error SpanInvalid (validate_surface_region s start en))
        (\<lambda>sel. let st = inspect_compaction_entry_state (ses_log s) in
           if \<not> compaction_inactive st then Inl AlreadyCompacting
           else rmap (Pair sel) (compaction_owner opts st)))"

definition compact_surface_region ::
    "compaction_env \<Rightarrow> compaction_options \<Rightarrow> session \<Rightarrow> nat \<Rightarrow> nat
       \<Rightarrow> session \<times> (compact_failure, compaction_result) result" where
  "compact_surface_region env opts s start en =
     (case admit_transaction env opts s start en of
        Inl f \<Rightarrow> (s, Inl f)
      | Inr (sel, owner) \<Rightarrow>
          (case append_event s (ce_now env) (CompactionStart (lifecycle_of env opts owner None)) None None of
             Inl e \<Rightarrow> (s, Inl (StartAppend e))
           | Inr (s1, start_event) \<Rightarrow>
               (case transaction_body env opts (ev_seq start_event) sel s1 of
                  (s2, body) \<Rightarrow> settle env opts (close_transaction env opts owner body s2))))"

end
