(* ===== verification/Compaction_Safety.thy ===== *)
theory Compaction_Safety
  imports Compaction_Region
begin

text \<open>
  What the compaction transaction guarantees: appends of log-only events never fail and never
  move the surface, so the opening and the closing marker always land; a failed body leaves
  the surface of the session it found after the summarizer; a successful one replaces exactly
  the selected span by one checkpoint.
\<close>

section \<open>Appends and the surface\<close>

lemma compaction_events_log_only [simp]:
  "log_only (CompactionStart d)" "log_only (CompactionSummary c)" "log_only (CompactionEnd d)"
  by (simp_all add: log_only_def is_surface_eligible_type_def assert_supported_request_header_def)

lemma surface_op_of_replace:
  assumes "ev_surface_op e = Some (surface_op_json (OpReplace a b))" "surface_op_of e = Inr (Some op)"
  shows "op = OpReplace a b"
  using assms
  by (auto simp: surface_op_of_def Let_def replace_op_of_def event_seq_of_def split: if_splits option.splits)

lemma append_replace:
  assumes ok: "session_ok s"
    and app: "append_event s now (UserMessageEv m) (Some (surface_op_json (OpReplace a b))) srcs = Inr (s', e)"
  shows "\<exists>i j. i \<le> j \<and> j < length (session_nodes s) \<and> session_nodes s ! i = a \<and> session_nodes s ! j = b
    \<and> session_nodes s' = take i (session_nodes s) @ [length (ses_log s)] @ drop (Suc j) (session_nodes s)"
proof -
  obtain st where st: "fold_log admit admit_init (ses_log s) = Inr (ses_log s, st)" "session_nodes s = sf_nodes st"
    using session_view [OF ok] by metis
  obtain st' where st': "admit (ses_log s, st) e = Inr (ses_log s', st')" "session_nodes s' = sf_nodes st'"
    and e: "e = new_event s now (UserMessageEv m) (Some (surface_op_json (OpReplace a b))) srcs"
    using append_event_admit [OF ok app st(1)] by blast
  from st'(1) obtain plan where plan: "plan_surface_event st e (length (ses_log s)) (ses_log s) 0 = Inr plan"
    and res: "st' = fst (apply_surface_plan st plan)"
    by (cases "plan_surface_event st e (length (ses_log s)) (ses_log s) 0")
      (auto simp: admit_def apply_surface_event_def)
  have op: "ev_surface_op e = Some (surface_op_json (OpReplace a b))"
    and ty: "is_surface_eligible_type (event_type (ev_data e))"
    by (simp_all add: e new_event_def is_surface_eligible_type_def)
  from plan show ?thesis
  proof (cases rule: plan_cases)
    case none
    then show ?thesis using ty surface_op_of_None_not_eligible by blast
  next
    case append
    then show ?thesis using surface_op_of_replace [OF op] by blast
  next
    case (replace x y i j shadowed)
    have xy: "x = a" "y = b" using surface_op_of_replace [OF op replace(1)] by simp_all
    note r = replacement_range_SomeD [OF replace(2)]
    have "sf_nodes st' = take i (sf_nodes st) @ [length (ses_log s)] @ drop (Suc j) (sf_nodes st)"
      using replace(5) res nodes_after_replace [OF replace(2)] by simp
    then show ?thesis using r(1-4) xy st(2) st'(2) by auto
  qed
qed

section \<open>The transaction body\<close>

text \<open>The session at the end of the asynchronous gap.\<close>

definition gap_session :: "compaction_env \<Rightarrow> surface_selection \<Rightarrow> session \<Rightarrow> session" where
  "gap_session env sel s =
     (case prepare_compaction env s sel of
        (s1, Inl _) \<Rightarrow> s1
      | (s1, Inr p) \<Rightarrow> fst (ce_summarize env s1 (pr_input p)))"

definition summarizer_ok :: "compaction_env \<Rightarrow> bool" where
  "summarizer_ok env \<longleftrightarrow>
     (\<forall>s input. session_ok s \<longrightarrow>
        session_ok (fst (ce_summarize env s input))
        \<and> take (length (ses_log s)) (ses_log (fst (ce_summarize env s input))) = ses_log s)"

definition meter_ok :: "compaction_env \<Rightarrow> bool" where
  "meter_ok env \<longleftrightarrow> (\<forall>s. session_ok s \<longrightarrow> map fst (ce_measure env s) = session_nodes s)"

lemma build_input_session:
  assumes "session_ok s" "build_summarization_input s sh = (s', input)"
  shows "session_ok s'" "ses_log s' = ses_log s"
  using assms read_request_header_ok [OF assms(1)]
  by (auto simp: build_summarization_input_def split: prod.splits)

lemma prepare_session:
  assumes "session_ok s" "prepare_compaction env s sel = (s', r)"
  shows "session_ok s' \<and> ses_log s' = ses_log s"
  using assms build_input_session [OF assms(1)]
  by (auto simp: prepare_compaction_def Let_def split: if_splits prod.splits)

lemma summarize_session:
  "fst (summarize_compaction env opts s p) = fst (ce_summarize env s (pr_input p))"
  by (auto simp: summarize_compaction_def Let_def split: prod.splits sum.splits)

lemma gap_session_ok:
  assumes "session_ok s" "summarizer_ok env"
  shows "session_ok (gap_session env sel s)"
    and "take (length (ses_log s)) (ses_log (gap_session env sel s)) = ses_log s"
  using assms prepare_session [OF assms(1), of env sel]
  by (auto simp: gap_session_def summarizer_ok_def split: prod.splits sum.splits)

lemma commit_body_cases:
  assumes ok: "session_ok s" and c: "commit_compaction_body env opts n p r m s = (s', res)"
  shows "session_ok s' \<and> take (length (ses_log s)) (ses_log s') = ses_log s
    \<and> (case res of
         Inl _ \<Rightarrow> session_nodes s' = session_nodes s
       | Inr x \<Rightarrow> cr_summary_seq x = length (ses_log s) \<and> cr_range x = (sel_start (pr_selection p), sel_end (pr_selection p))
           \<and> cr_shadowed x = sel_shadowed (pr_selection p) \<and> cr_token_count x = pr_token_count p
           \<and> Suc (cr_summary_seq x) < length (ses_log s') \<and> ev_data (ses_log s' ! Suc (cr_summary_seq x)) = UserMessageEv m
           \<and> (\<exists>i j. i \<le> j \<and> j < length (session_nodes s) \<and> session_nodes s ! i = sel_start (pr_selection p)
               \<and> session_nodes s ! j = sel_end (pr_selection p)
               \<and> session_nodes s' = take i (session_nodes s) @ [Suc (cr_summary_seq x)] @ drop (Suc j) (session_nodes s)))"
proof -
  obtain s1 e1 where a1: "append_event s (ce_now env) (CompactionSummary (summary_payload env opts p r)) None None = Inr (s1, e1)"
    "session_ok s1" "ses_log s1 = ses_log s @ [e1]" "ev_seq e1 = length (ses_log s)" "session_nodes s1 = session_nodes s"
    using append_log_only [OF ok, of "CompactionSummary (summary_payload env opts p r)" "ce_now env"] by auto
  let ?op = "Some (surface_op_json (OpReplace (sel_start (pr_selection p)) (sel_end (pr_selection p))))"
  let ?src = "Some (seqs_json (n # ev_seq e1 # sel_shadowed (pr_selection p)))"
  show ?thesis
  proof (cases "append_event s1 (ce_now env) (UserMessageEv m) ?op ?src")
    case (Inl e)
    then show ?thesis using c a1 by (auto simp: commit_compaction_body_def Let_def)
  next
    case (Inr r2)
    obtain s2 e2 where r2: "r2 = (s2, e2)" by (cases r2)
    note app = Inr [unfolded r2]
    from append_replace [OF a1(2) app] obtain i j where ij: "i \<le> j" "j < length (session_nodes s)"
      "session_nodes s ! i = sel_start (pr_selection p)" "session_nodes s ! j = sel_end (pr_selection p)"
      "session_nodes s2 = take i (session_nodes s) @ [length (ses_log s1)] @ drop (Suc j) (session_nodes s)"
      by (auto simp: a1(5))
    have s': "s' = s2" and x: "\<exists>x. res = Inr x \<and> cr_summary_seq x = length (ses_log s)
        \<and> cr_range x = (sel_start (pr_selection p), sel_end (pr_selection p))
        \<and> cr_shadowed x = sel_shadowed (pr_selection p) \<and> cr_token_count x = pr_token_count p"
      using c a1(1,4) app by (auto simp: commit_compaction_body_def Let_def)
    note ok2 = append_event_ok [OF a1(2) app]
    from x obtain x where "res = Inr x" and x: "cr_summary_seq x = length (ses_log s)"
        "cr_range x = (sel_start (pr_selection p), sel_end (pr_selection p))"
        "cr_shadowed x = sel_shadowed (pr_selection p)" "cr_token_count x = pr_token_count p" by blast
    moreover have "\<exists>i j. i \<le> j \<and> j < length (session_nodes s) \<and> session_nodes s ! i = sel_start (pr_selection p)
               \<and> session_nodes s ! j = sel_end (pr_selection p)
               \<and> session_nodes s' = take i (session_nodes s) @ [Suc (cr_summary_seq x)] @ drop (Suc j) (session_nodes s)"
      using ij x(1) a1(3) s' by (intro exI [of _ i] exI [of _ j]) simp
    moreover have "Suc (cr_summary_seq x) < length (ses_log s')
        \<and> ev_data (ses_log s' ! Suc (cr_summary_seq x)) = UserMessageEv m"
      using ok2(2,5) a1(3) s' x(1) by (simp add: nth_append)
    ultimately show ?thesis using ok2(1,2) a1(3) s' by simp
  qed
qed

lemma transaction_body_session:
  assumes ok: "session_ok s" and sum: "summarizer_ok env" and b: "transaction_body env opts n sel s = (s', res)"
  shows "session_ok s' \<and> take (length (ses_log s)) (ses_log s') = ses_log s
    \<and> (\<forall>f. res = Inl f \<longrightarrow> session_nodes s' = session_nodes (gap_session env sel s))"
proof -
  let ?g = "gap_session env sel s"
  note g = gap_session_ok [OF ok sum, of sel]
  obtain s1 r1 where prep: "prepare_compaction env s sel = (s1, r1)" by fastforce
  show ?thesis
  proof (cases r1)
    case (Inl e)
    then show ?thesis using b prep prepare_session [OF ok prep] by (auto simp: transaction_body_def gap_session_def)
  next
    case (Inr p)
    have gap: "fst (summarize_compaction env opts s1 p) = ?g"
      using prep Inr by (simp add: summarize_session gap_session_def)
    obtain r2 where sumr: "summarize_compaction env opts s1 p = (?g, r2)" using gap by (metis prod.collapse)
    have keep: ?thesis if "s' = ?g"
      using that g by simp
    show ?thesis
    proof (cases r2)
      case (Inl e)
      then have "s' = ?g" using b prep Inr sumr by (simp add: transaction_body_def)
      then show ?thesis by (rule keep)
    next
      case (Inr rm)
      obtain r m where rm: "rm = (r, m)" by (cases rm)
      show ?thesis
      proof (cases "co_standalone opts \<and> ce_aborted_summary env \<or> assert_stable env opts ?g p \<noteq> Inr ()")
        case True
        then have "s' = ?g" using b prep \<open>r1 = Inr p\<close> sumr Inr rm
          by (cases "assert_stable env opts ?g p") (auto simp: transaction_body_def split: if_splits)
        then show ?thesis by (rule keep)
      next
        case False
        obtain s3 r3 where c: "commit_compaction_body env opts n p r m ?g = (s3, r3)" by fastforce
        have "s' = s3" "\<forall>f. res = Inl f \<longrightarrow> (\<exists>e. r3 = Inl e)"
          using b prep \<open>r1 = Inr p\<close> sumr Inr rm False c by (cases r3; auto simp: transaction_body_def)+
        then show ?thesis using commit_body_cases [OF g(1) c] g(2)
          by (auto split: sum.splits) (metis length_take min_le_iff_disj take_take nat_le_linear append_take_drop_id)+
      qed
    qed
  qed
qed

section \<open>The whole transaction\<close>

text \<open>The session at the end of the gap of one admitted call, after its opening marker.\<close>

definition compaction_gap :: "compaction_env \<Rightarrow> compaction_options \<Rightarrow> session \<Rightarrow> nat \<Rightarrow> nat \<Rightarrow> session" where
  "compaction_gap env opts s start en =
     (case admit_transaction env opts s start en of
        Inl _ \<Rightarrow> s
      | Inr (sel, owner) \<Rightarrow>
          (case append_event s (ce_now env) (CompactionStart (lifecycle_of env opts owner None)) None None of
             Inl _ \<Rightarrow> s
           | Inr (s1, _) \<Rightarrow> gap_session env sel s1))"

lemma close_transaction_ok:
  assumes ok: "session_ok s" and c: "close_transaction env opts owner body s = (s', closed, outcome)"
  shows "session_ok s' \<and> closed \<and> session_nodes s' = session_nodes s
    \<and> (\<exists>e d. ses_log s' = ses_log s @ [e] \<and> ev_data e = CompactionEnd d \<and> cl_id d = ce_compaction_id env
          \<and> cl_turn d = owner \<and> (cl_error d = None \<longleftrightarrow> is_ok body))
    \<and> (case body of
         Inl f \<Rightarrow> outcome = Inl f
       | Inr x \<Rightarrow> outcome = Inr (x\<lparr>cr_end_seq := length (ses_log s)\<rparr>))"
proof (cases body)
  case (Inl f)
  obtain e stage where f: "f = (e, stage)" by (cases f)
  let ?d = "lifecycle_of env opts owner (Some (ce_error_chain env e))"
  obtain s1 e1 where a: "append_event s (ce_now env) (CompactionEnd ?d) None None = Inr (s1, e1)"
    "session_ok s1" "ses_log s1 = ses_log s @ [e1]" "ev_data e1 = CompactionEnd ?d" "session_nodes s1 = session_nodes s"
    using append_log_only [OF ok, of "CompactionEnd ?d" "ce_now env"] by auto
  then have "s' = s1" "closed" "outcome = Inl f" using c Inl f by (auto simp: close_transaction_def)
  then show ?thesis using a Inl by (auto simp: lifecycle_of_def)
next
  case (Inr x)
  let ?d = "lifecycle_of env opts owner None"
  obtain s1 e1 where a: "append_event s (ce_now env) (CompactionEnd ?d) None None = Inr (s1, e1)"
    "session_ok s1" "ses_log s1 = ses_log s @ [e1]" "ev_data e1 = CompactionEnd ?d" "session_nodes s1 = session_nodes s"
    "ev_seq e1 = length (ses_log s)"
    using append_log_only [OF ok, of "CompactionEnd ?d" "ce_now env"] by auto
  then have "s' = s1" "closed" "outcome = Inr (x\<lparr>cr_end_seq := length (ses_log s)\<rparr>)"
    using c Inr by (auto simp: close_transaction_def)
  then show ?thesis using a Inr by (auto simp: lifecycle_of_def)
qed

lemma settle_session [simp]: "fst (settle env opts (s, closed, outcome)) = s"
  by (auto simp: settle_def Let_def split: sum.splits)

lemma compact_run:
  assumes ok: "session_ok s" and sum: "summarizer_ok env"
    and adm: "admit_transaction env opts s a b = Inr (sel, owner)"
  obtains s1 e1 s2 body s3 outcome where
    "session_ok s1" "ses_log s1 = ses_log s @ [e1]" "session_nodes s1 = session_nodes s"
    "ev_seq e1 = length (ses_log s)"
    "compaction_gap env opts s a b = gap_session env sel s1"
    "transaction_body env opts (length (ses_log s)) sel s1 = (s2, body)"
    "session_ok s2" "take (length (ses_log s1)) (ses_log s2) = ses_log s1"
    "\<forall>f. body = Inl f \<longrightarrow> session_nodes s2 = session_nodes (compaction_gap env opts s a b)"
    "close_transaction env opts owner body s2 = (s3, True, outcome)"
    "compact_surface_region env opts s a b = settle env opts (s3, True, outcome)"
proof -
  let ?d = "lifecycle_of env opts owner None"
  obtain s1 e1 where a1: "append_event s (ce_now env) (CompactionStart ?d) None None = Inr (s1, e1)"
    "session_ok s1" "ses_log s1 = ses_log s @ [e1]" "ev_seq e1 = length (ses_log s)" "session_nodes s1 = session_nodes s"
    using append_log_only [OF ok, of "CompactionStart ?d" "ce_now env"] by auto
  have gap: "compaction_gap env opts s a b = gap_session env sel s1"
    using adm a1(1) by (simp add: compaction_gap_def)
  obtain s2 body where b: "transaction_body env opts (length (ses_log s)) sel s1 = (s2, body)" by fastforce
  note body = transaction_body_session [OF a1(2) sum b]
  obtain s3 closed outcome where c: "close_transaction env opts owner body s2 = (s3, closed, outcome)"
    by (metis prod_cases3)
  have closed: "closed" using close_transaction_ok [OF _ c] body by simp
  have "compact_surface_region env opts s a b = settle env opts (s3, True, outcome)"
    using adm a1(1,4) b c closed by (simp add: compact_surface_region_def)
  then show thesis using that a1 gap b body c closed by simp
qed

lemma compact_always_closes:
  assumes ok: "session_ok s" and sum: "summarizer_ok env"
    and adm: "admit_transaction env opts s a b = Inr (sel, owner)"
    and run: "compact_surface_region env opts s a b = (s', res)"
  shows "\<exists>middle start_ev end_ev d. ses_log s' = ses_log s @ [start_ev] @ middle @ [end_ev]
    \<and> ev_data end_ev = CompactionEnd d \<and> cl_id d = ce_compaction_id env \<and> cl_turn d = owner
    \<and> (is_ok res \<longrightarrow> cl_error d = None) \<and> session_ok s'"
proof (rule compact_run [OF ok sum adm])
  fix s1 e1 s2 body s3 outcome
  assume r: "ses_log s1 = ses_log s @ [e1]" "session_ok s2" "take (length (ses_log s1)) (ses_log s2) = ses_log s1"
    "close_transaction env opts owner body s2 = (s3, True, outcome)"
    "compact_surface_region env opts s a b = settle env opts (s3, True, outcome)"
  from close_transaction_ok [OF r(2,4)] obtain e d where c: "session_ok s3" "ses_log s3 = ses_log s2 @ [e]"
    "ev_data e = CompactionEnd d" "cl_id d = ce_compaction_id env" "cl_turn d = owner" "cl_error d = None \<longleftrightarrow> is_ok body"
    "case body of Inl f \<Rightarrow> outcome = Inl f | Inr x \<Rightarrow> outcome = Inr (x\<lparr>cr_end_seq := length (ses_log s2)\<rparr>)"
    by (elim conjE exE)
  have s': "s' = s3" using run r(5) settle_session [of env opts s3 True outcome] by simp
  have "ses_log s2 = ses_log s @ [e1] @ drop (length (ses_log s1)) (ses_log s2)"
    using r(1,3) by (metis append_assoc append_take_drop_id)
  then have log: "ses_log s' = ses_log s @ [e1] @ drop (length (ses_log s1)) (ses_log s2) @ [e]"
    using c(2) s' by (metis append_assoc)
  have "is_ok res \<longrightarrow> is_ok body"
    using run r(5) c(7) by (auto simp: settle_def Let_def split: sum.splits if_splits)
  then show ?thesis using log c s' by blast
qed

lemma compact_failure_keeps_surface:
  assumes ok: "session_ok s" and sum: "summarizer_ok env"
    and adm: "admit_transaction env opts s a b = Inr (sel, owner)"
    and run: "compact_surface_region env opts s a b = (s', Inl f)"
    and f: "f \<noteq> CallAborted" "f \<noteq> ManualFailed ManualPersistence"
  shows "session_nodes s' = session_nodes (compaction_gap env opts s a b)"
proof (rule compact_run [OF ok sum adm])
  fix s1 e1 s2 body s3 outcome
  assume r: "session_ok s2"
    "\<forall>f. body = Inl f \<longrightarrow> session_nodes s2 = session_nodes (compaction_gap env opts s a b)"
    "close_transaction env opts owner body s2 = (s3, True, outcome)"
    "compact_surface_region env opts s a b = settle env opts (s3, True, outcome)"
  note c = close_transaction_ok [OF r(1,3)]
  have s': "s' = s3" using run r(4) settle_session [of env opts s3 True outcome] by simp
  have "\<exists>g. body = Inl g"
    using run r(4) f c by (cases body) (auto simp: settle_def Let_def split: sum.splits if_splits)
  then show ?thesis using r(2) c s' by auto
qed

lemma validate_span_cases:
  assumes "validate_surface_region s a b = Inr sel"
  obtains i j where "index_of a (session_nodes s) = Some i" "index_of b (session_nodes s) = Some j" "i \<le> j"
    "balanced_before s (session_nodes s ! i) = Inr True" "balanced_after s (session_nodes s ! j) = Inr True"
    "sel = \<lparr>sel_start = a, sel_end = b, sel_start_idx = i, sel_end_idx = j,
             sel_shadowed = slice (session_nodes s) i (Suc j)\<rparr>"
proof -
  from assms obtain i where i: "index_of a (session_nodes s) = Some i"
    by (cases "index_of a (session_nodes s)") (simp_all add: validate_surface_region_def Let_def)
  with assms obtain j where j: "index_of b (session_nodes s) = Some j"
    by (cases "index_of b (session_nodes s)") (simp_all add: validate_surface_region_def Let_def)
  show thesis
    using assms i j that
    by (cases "balanced_before s (session_nodes s ! i)"; cases "balanced_after s (session_nodes s ! j)")
      (auto simp: validate_surface_region_def Let_def split: if_splits)
qed

lemma validate_span_ok:
  assumes "validate_surface_region s a b = Inr sel"
  shows "sel_start sel = a" "sel_end sel = b" "sel_start_idx sel \<le> sel_end_idx sel"
    "sel_end_idx sel < length (session_nodes s)" "session_nodes s ! sel_start_idx sel = a"
    "session_nodes s ! sel_end_idx sel = b"
    "sel_shadowed sel = slice (session_nodes s) (sel_start_idx sel) (Suc (sel_end_idx sel))"
    "balanced_before s a = Inr True" "balanced_after s b = Inr True"
proof -
  obtain i j where *: "index_of a (session_nodes s) = Some i" "index_of b (session_nodes s) = Some j" "i \<le> j"
    "balanced_before s (session_nodes s ! i) = Inr True" "balanced_after s (session_nodes s ! j) = Inr True"
    and sel: "sel = \<lparr>sel_start = a, sel_end = b, sel_start_idx = i, sel_end_idx = j,
             sel_shadowed = slice (session_nodes s) i (Suc j)\<rparr>"
    using assms by (rule validate_span_cases)
  have i: "session_nodes s ! i = a" using index_of_SomeD [OF *(1)] by blast
  have j: "j < length (session_nodes s)" "session_nodes s ! j = b" using index_of_SomeD [OF *(2)] by blast+
  show "sel_start sel = a" "sel_end sel = b" "sel_start_idx sel \<le> sel_end_idx sel"
    "sel_end_idx sel < length (session_nodes s)" "session_nodes s ! sel_start_idx sel = a"
    "session_nodes s ! sel_end_idx sel = b"
    "sel_shadowed sel = slice (session_nodes s) (sel_start_idx sel) (Suc (sel_end_idx sel))"
    "balanced_before s a = Inr True" "balanced_after s b = Inr True"
    unfolding sel using *(3) *(4) [unfolded i] *(5) [unfolded j(2)] i j by simp_all
qed

lemma distinct_nth_unique: "distinct xs \<Longrightarrow> i < length xs \<Longrightarrow> j < length xs \<Longrightarrow> xs ! i = xs ! j \<Longrightarrow> i = j"
  by (simp add: nth_eq_iff_index_eq)

lemma session_nodes_distinct: "session_ok s \<Longrightarrow> distinct (session_nodes s)"
proof (erule session_view)
  fix st
  assume "fold_log admit admit_init (ses_log s) = Inr (ses_log s, st)" "session_nodes s = sf_nodes st"
  then show ?thesis using admit_prefix_wf by (auto simp: surface_wf_def)
qed

lemma stable_span:
  assumes ok: "session_ok s" "session_ok g" and meter: "meter_ok env"
    and sel: "validate_surface_region s a b = Inr sel" and prep: "prepare_compaction env s1 sel = (s2, Inr p)"
    and s1: "session_ok s1" "session_nodes s1 = session_nodes s"
    and stable: "assert_stable env opts g p = Inr ()"
  shows "\<exists>i j. i \<le> j \<and> j < length (session_nodes g) \<and> session_nodes g ! i = a \<and> session_nodes g ! j = b
    \<and> sel_shadowed (pr_selection p) = slice (session_nodes g) i (Suc j)"
proof -
  note v = validate_span_ok [OF sel]
  have p: "pr_selection p = sel" "pr_measured p = ce_measure env s1"
    using prep by (auto simp: prepare_compaction_def Let_def split: if_splits prod.splits)
  show ?thesis
  proof (cases "co_whole_surface opts")
    case True
    then have "ce_measure env g = ce_measure env s1"
      using stable p(2) by (simp add: assert_stable_def ensure_def split: if_splits)
    then have "session_nodes g = session_nodes s"
      using meter ok(2) s1 by (metis meter_ok_def)
    then show ?thesis using v p by (intro exI [of _ "sel_start_idx sel"] exI [of _ "sel_end_idx sel"]) simp
  next
    case False
    with stable obtain cur where cur: "validate_surface_region g a b = Inr cur" "sel_shadowed cur = sel_shadowed sel"
      using p v(1,2) by (auto simp: assert_stable_def split: sum.splits if_splits)
    note w = validate_span_ok [OF cur(1)]
    then show ?thesis using cur(2) p by (intro exI [of _ "sel_start_idx cur"] exI [of _ "sel_end_idx cur"]) simp
  qed
qed

lemma body_success:
  assumes "transaction_body env opts n sel s = (s', Inr x)"
  obtains s1 p r m where "prepare_compaction env s sel = (s1, Inr p)"
    "ce_estimate env m < pr_token_count p" "assert_stable env opts (gap_session env sel s) p = Inr ()"
    "commit_compaction_body env opts n p r m (gap_session env sel s) = (s', Inr x)"
    "m = checkpoint_message env opts r"
proof -
  obtain s1 r1 where prep: "prepare_compaction env s sel = (s1, r1)" by fastforce
  with assms obtain p where p: "r1 = Inr p" by (cases r1) (auto simp: transaction_body_def)
  obtain s2 r2 where sumr: "summarize_compaction env opts s1 p = (s2, r2)" by fastforce
  have gap: "s2 = gap_session env sel s"
    using summarize_session [of env opts s1 p] sumr prep p by (simp add: gap_session_def)
  from assms prep p sumr obtain r m where rm: "r2 = Inr (r, m)"
    by (cases r2) (auto simp: transaction_body_def)
  then have m: "ce_estimate env m < pr_token_count p" "m = checkpoint_message env opts r"
    using sumr by (auto simp: summarize_compaction_def Let_def split: prod.splits sum.splits if_splits)
  obtain s3 r3 where c: "commit_compaction_body env opts n p r m s2 = (s3, r3)" by fastforce
  have "assert_stable env opts s2 p = Inr ()" "r3 = Inr x" "s3 = s'"
    using assms prep p sumr rm c
    by (auto simp: transaction_body_def split: if_splits sum.splits)
  then show thesis using that prep p m c gap by simp
qed

lemma compact_success_replaces_span:
  assumes ok: "session_ok s" and sum: "summarizer_ok env" and meter: "meter_ok env"
    and run: "compact_surface_region env opts s a b = (s', Inr x)"
  shows "\<exists>g i j m. g = compaction_gap env opts s a b
    \<and> i \<le> j \<and> j < length (session_nodes g) \<and> session_nodes g ! i = a \<and> session_nodes g ! j = b
    \<and> cr_shadowed x = slice (session_nodes g) i (Suc j)
    \<and> ev_data (ses_log s' ! Suc (cr_summary_seq x)) = UserMessageEv m \<and> ce_estimate env m < cr_token_count x
    \<and> session_nodes s' = take i (session_nodes g) @ [Suc (cr_summary_seq x)] @ drop (Suc j) (session_nodes g)"
proof -
  obtain sel owner where adm: "admit_transaction env opts s a b = Inr (sel, owner)"
    using run by (cases "admit_transaction env opts s a b") (auto simp: compact_surface_region_def)
  have sel: "validate_surface_region s a b = Inr sel"
    using adm by (auto simp: admit_transaction_def rbind_eq_Inr rmap_eq_Inr Let_def split: if_splits)
  show ?thesis
  proof (rule compact_run [OF ok sum adm])
    fix s1 e1 s2 body s3 outcome
    assume r: "session_ok s1" "session_nodes s1 = session_nodes s"
      "compaction_gap env opts s a b = gap_session env sel s1"
      "transaction_body env opts (length (ses_log s)) sel s1 = (s2, body)" "session_ok s2"
      "close_transaction env opts owner body s2 = (s3, True, outcome)"
      "compact_surface_region env opts s a b = settle env opts (s3, True, outcome)"
    let ?g = "gap_session env sel s1"
    note c = close_transaction_ok [OF r(5,6)]
    have "s' = s3" using run r(7) settle_session [of env opts s3 True outcome] by simp
    then have s': "session_nodes s' = session_nodes s2" "\<exists>e. ses_log s' = ses_log s2 @ [e]" using c by auto
    from run r(7) have out: "outcome = Inr x"
      by (auto simp: settle_def Let_def split: sum.splits if_splits)
    with c obtain y where y: "body = Inr y" "x = y\<lparr>cr_end_seq := length (ses_log s2)\<rparr>"
      by (cases body) auto
    from body_success [OF r(4) [unfolded y(1)]] obtain q p res m where
      prep: "prepare_compaction env s1 sel = (q, Inr p)" and small: "ce_estimate env m < pr_token_count p"
      and stable: "assert_stable env opts ?g p = Inr ()"
      and commit: "commit_compaction_body env opts (length (ses_log s)) p res m ?g = (s2, Inr y)"
      by metis
    have g: "session_ok ?g" by (rule gap_session_ok(1) [OF r(1) sum])
    have psel: "pr_selection p = sel"
      using prep by (auto simp: prepare_compaction_def Let_def split: if_splits prod.splits)
    obtain i j where ij: "i \<le> j" "j < length (session_nodes ?g)" "session_nodes ?g ! i = a" "session_nodes ?g ! j = b"
      "sel_shadowed sel = slice (session_nodes ?g) i (Suc j)"
      using stable_span [OF ok g meter sel prep r(1,2) stable] psel by auto
    from commit_body_cases [OF g commit] obtain i' j' where b: "cr_shadowed y = sel_shadowed sel"
      "cr_token_count y = pr_token_count p" "Suc (cr_summary_seq y) < length (ses_log s2)"
      "ev_data (ses_log s2 ! Suc (cr_summary_seq y)) = UserMessageEv m" "i' \<le> j'" "j' < length (session_nodes ?g)"
      "session_nodes ?g ! i' = sel_start sel" "session_nodes ?g ! j' = sel_end sel"
      "session_nodes s2 = take i' (session_nodes ?g) @ [Suc (cr_summary_seq y)] @ drop (Suc j') (session_nodes ?g)"
      by (auto simp: psel)
    have "i' = i" "j' = j"
      using distinct_nth_unique [OF session_nodes_distinct [OF g]] ij b validate_span_ok(1,2) [OF sel] by auto
    moreover have "ev_data (ses_log s' ! Suc (cr_summary_seq y)) = UserMessageEv m"
      using s'(2) b(3,4) by (auto simp: nth_append)
    ultimately show ?thesis using ij b small s'(1) y r(3)
      by (intro exI [of _ ?g] exI [of _ i] exI [of _ j] exI [of _ m]) auto
  qed
qed

end
