(* ===== verification/Goal_Fold.thy ===== *)
theory Goal_Fold
  imports Surface
begin

text \<open>
  The durable goal stream (\<open>packages/goal/goal/src/types.ts\<close>, \<open>domain.ts\<close>, \<open>fold.ts\<close>): the
  strict decoder of a logged goal change, the transition rules of the replay fold, and the
  light last-wins projection of \<open>index.ts\<close>. A thrown error is a value of \<open>goal_error\<close> that
  names the rule it breaks.
\<close>

section \<open>Vocabulary\<close>

datatype goal_phase = PhaseActive | PhasePaused | PhaseBlocked | PhaseComplete

record goal_ref =
  gr_id :: string
  gr_revision :: int

record block_reason =
  br_code :: string
  br_message :: string

record goal_snapshot =
  gs_id :: string
  gs_revision :: int
  gs_objective :: string
  gs_phase :: goal_phase
  gs_blocked :: "block_reason option"
  gs_max_rounds :: int

datatype goal_operation = GoalCreate | GoalEdit | GoalPause | GoalResume | GoalComplete | GoalBlock

datatype goal_change =
    SnapshotChange goal_operation goal_snapshot int int int
  | ClearChange goal_ref int

datatype goal_error =
    DecodeVersion
  | DecodeOperation
  | DecodeKeys string
  | DecodeField string
  | DecodeTimes
  | DecodeKind
  | RefNotNext goal_operation
  | ClearNotNext
  | CountersNotPreserved goal_operation
  | BadTransition goal_operation
  | NoCurrentGoal
  | ClearBeforeUpdate
  | NotFresh
  | BadGoalSource
  | BadRound nat

section \<open>The strict decoder\<close>

definition positive_integer :: "json option \<Rightarrow> string \<Rightarrow> (goal_error, int) result" where
  "positive_integer v field =
     (case safe_int_of v of Some i \<Rightarrow> if 1 \<le> i then Inr i else Inl (DecodeField field) | None \<Rightarrow> Inl (DecodeField field))"

definition non_negative_integer :: "json option \<Rightarrow> string \<Rightarrow> (goal_error, int) result" where
  "non_negative_integer v field =
     (case safe_int_of v of Some i \<Rightarrow> if 0 \<le> i then Inr i else Inl (DecodeField field) | None \<Rightarrow> Inl (DecodeField field))"

text \<open>
  The code compares the sorted, comma-joined keys; since every expected field is then read and
  checked, a value passes exactly when its keys are the expected ones.
\<close>

definition decode_block_reason :: "json option \<Rightarrow> (goal_error, block_reason) result" where
  "decode_block_reason v =
     (case v of
        Some (JObj r) \<Rightarrow>
          (if \<not> has_exact_keys r [''code'', ''message''] then Inl (DecodeKeys ''blockedReason'')
           else (case (as_string (map_of r ''code''), as_string (map_of r ''message'')) of
                   (Some code, Some msg) \<Rightarrow>
                     (if \<not> is_kebab_code code then Inl (DecodeField ''code'')
                      else if \<not> normalized_text msg then Inl (DecodeField ''message'')
                      else Inr \<lparr>br_code = code, br_message = msg\<rparr>)
                 | _ \<Rightarrow> Inl (DecodeField ''blockedReason'')))
      | _ \<Rightarrow> Inl (DecodeKeys ''blockedReason''))"

fun phase_of :: "string \<Rightarrow> goal_phase option" where
  "phase_of s =
     (if s = ''active'' then Some PhaseActive
      else if s = ''paused'' then Some PhasePaused
      else if s = ''blocked'' then Some PhaseBlocked
      else if s = ''complete'' then Some PhaseComplete
      else None)"

fun phase_name :: "goal_phase \<Rightarrow> string" where
  "phase_name PhaseActive = ''active''"
| "phase_name PhasePaused = ''paused''"
| "phase_name PhaseBlocked = ''blocked''"
| "phase_name PhaseComplete = ''complete''"

definition snapshot_keys :: "goal_phase \<Rightarrow> string list" where
  "snapshot_keys p =
     (if p = PhaseBlocked then [''blockedReason'', ''id'', ''maxGoalRounds'', ''objective'', ''phase'', ''revision'']
      else [''id'', ''maxGoalRounds'', ''objective'', ''phase'', ''revision''])"

definition decode_snapshot :: "json option \<Rightarrow> (goal_error, goal_snapshot) result" where
  "decode_snapshot v =
     (case v of
        Some (JObj r) \<Rightarrow>
          (case as_string (map_of r ''id'') of
             Some (c # cs) \<Rightarrow>
               (case as_string (map_of r ''objective'') of
                  Some objective \<Rightarrow>
                    (if \<not> normalized_text objective then Inl (DecodeField ''objective'')
                     else (case Option.bind (as_string (map_of r ''phase'')) phase_of of
                             None \<Rightarrow> Inl (DecodeField ''phase'')
                           | Some phase \<Rightarrow>
                               (if \<not> has_exact_keys r (snapshot_keys phase) then Inl (DecodeKeys ''goal'')
                                else rbind (positive_integer (map_of r ''revision'') ''revision'')
                                  (\<lambda>revision. rbind (positive_integer (map_of r ''maxGoalRounds'') ''maxGoalRounds'')
                                    (\<lambda>rounds. rmap
                                      (\<lambda>blocked. \<lparr>gs_id = c # cs, gs_revision = revision, gs_objective = objective,
                                                   gs_phase = phase, gs_blocked = blocked, gs_max_rounds = rounds\<rparr>)
                                      (if phase = PhaseBlocked
                                       then rmap Some (decode_block_reason (map_of r ''blockedReason''))
                                       else Inr None))))))
                | None \<Rightarrow> Inl (DecodeField ''objective''))
           | _ \<Rightarrow> Inl (DecodeField ''id''))
      | _ \<Rightarrow> Inl (DecodeKeys ''goal''))"

definition decode_ref :: "json option \<Rightarrow> (goal_error, goal_ref) result" where
  "decode_ref v =
     (case v of
        Some (JObj r) \<Rightarrow>
          (if \<not> has_exact_keys r [''id'', ''revision''] then Inl (DecodeKeys ''cleared'')
           else (case as_string (map_of r ''id'') of
                   Some (c # cs) \<Rightarrow>
                     rmap (\<lambda>n. \<lparr>gr_id = c # cs, gr_revision = n\<rparr>) (positive_integer (map_of r ''revision'') ''revision'')
                 | _ \<Rightarrow> Inl (DecodeField ''id'')))
      | _ \<Rightarrow> Inl (DecodeKeys ''cleared''))"

fun operation_of :: "string \<Rightarrow> goal_operation option" where
  "operation_of s =
     (if s = ''create'' then Some GoalCreate
      else if s = ''edit'' then Some GoalEdit
      else if s = ''pause'' then Some GoalPause
      else if s = ''resume'' then Some GoalResume
      else if s = ''complete'' then Some GoalComplete
      else if s = ''block'' then Some GoalBlock
      else None)"

fun operation_name :: "goal_operation \<Rightarrow> string" where
  "operation_name GoalCreate = ''create''"
| "operation_name GoalEdit = ''edit''"
| "operation_name GoalPause = ''pause''"
| "operation_name GoalResume = ''resume''"
| "operation_name GoalComplete = ''complete''"
| "operation_name GoalBlock = ''block''"

definition goal_change_version :: int where
  "goal_change_version = 1"

definition decode_goal_change :: "json \<Rightarrow> (goal_error, goal_change option) result" where
  "decode_goal_change v =
     (case v of
        JObj r \<Rightarrow>
          (if map_of r ''kind'' \<noteq> Some (JStr ''goal/change'') then Inr None
           else if map_of r ''version'' \<noteq> Some (JNum (NInt goal_change_version)) then Inl DecodeVersion
           else if map_of r ''operation'' = Some (JStr ''clear'') then
             (if \<not> has_exact_keys r [''cleared'', ''clearedAt'', ''kind'', ''operation'', ''version'']
              then Inl (DecodeKeys ''clear'')
              else rbind (decode_ref (map_of r ''cleared''))
                (\<lambda>ref. rmap (\<lambda>t. Some (ClearChange ref t)) (non_negative_integer (map_of r ''clearedAt'') ''clearedAt'')))
           else (case Option.bind (as_string (map_of r ''operation'')) operation_of of
                   None \<Rightarrow> Inl DecodeOperation
                 | Some op \<Rightarrow>
                     (if \<not> has_exact_keys r [''createdAt'', ''goal'', ''kind'', ''operation'', ''roundsStarted'', ''updatedAt'', ''version'']
                      then Inl (DecodeKeys ''snapshot'')
                      else rbind (non_negative_integer (map_of r ''createdAt'') ''createdAt'')
                        (\<lambda>created. rbind (non_negative_integer (map_of r ''updatedAt'') ''updatedAt'')
                          (\<lambda>updated. if updated < created then Inl DecodeTimes
                             else rbind (decode_snapshot (map_of r ''goal''))
                               (\<lambda>goal. rmap (\<lambda>rounds. Some (SnapshotChange op goal rounds created updated))
                                  (non_negative_integer (map_of r ''roundsStarted'') ''roundsStarted'')))))))
      | _ \<Rightarrow> Inr None)"

section \<open>The replay fold\<close>

record goal_fold_state =
  gf_goal :: "goal_snapshot option"
  gf_rounds :: int
  gf_created :: "int option"
  gf_updated :: "int option"
  gf_last_ref :: "goal_ref option"
  gf_seen :: "string list"

definition empty_goal_fold_state :: goal_fold_state where
  "empty_goal_fold_state =
     \<lparr>gf_goal = None, gf_rounds = 0, gf_created = None, gf_updated = None, gf_last_ref = None, gf_seen = []\<rparr>"

text \<open>Attribution of a message to a goal round.\<close>

definition goal_source :: "message_source \<Rightarrow> (goal_error, (string \<times> int \<times> int) option) result" where
  "goal_source src =
     (case src of
        GoalSource gid revision round \<Rightarrow>
          (case (revision, round) of
             (NInt r, NInt n) \<Rightarrow>
               (if gid = [] \<or> \<not> safe_int r \<or> r < 1 \<or> \<not> safe_int n \<or> n < 1 then Inl BadGoalSource
                else Inr (Some (gid, r, n)))
           | _ \<Rightarrow> Inl BadGoalSource)
      | _ \<Rightarrow> Inr None)"

definition same_definition :: "goal_snapshot \<Rightarrow> goal_snapshot \<Rightarrow> bool" where
  "same_definition cur nxt \<longleftrightarrow> gs_objective nxt = gs_objective cur \<and> gs_max_rounds nxt = gs_max_rounds cur"

definition is_next_revision :: "goal_snapshot \<Rightarrow> goal_ref \<Rightarrow> bool" where
  "is_next_revision cur ref \<longleftrightarrow> gr_id ref = gs_id cur \<and> gr_revision ref = gs_revision cur + 1"

definition snapshot_ref :: "goal_snapshot \<Rightarrow> goal_ref" where
  "snapshot_ref g = \<lparr>gr_id = gs_id g, gr_revision = gs_revision g\<rparr>"

fun goal_change_ref :: "goal_change \<Rightarrow> goal_ref" where
  "goal_change_ref (ClearChange ref _) = ref"
| "goal_change_ref (SnapshotChange _ g _ _ _) = snapshot_ref g"

definition phase_transition_ok :: "goal_operation \<Rightarrow> goal_snapshot \<Rightarrow> goal_snapshot \<Rightarrow> int \<Rightarrow> bool" where
  "phase_transition_ok op cur nxt rounds =
     (case op of
        GoalEdit \<Rightarrow> gs_phase nxt = gs_phase cur \<and> gs_blocked nxt = gs_blocked cur
      | GoalPause \<Rightarrow> same_definition cur nxt \<and> gs_phase cur = PhaseActive \<and> gs_phase nxt = PhasePaused
      | GoalResume \<Rightarrow> same_definition cur nxt \<and> gs_phase cur \<in> {PhaseActive, PhasePaused, PhaseBlocked}
          \<and> gs_phase nxt = PhaseActive \<and> rounds < gs_max_rounds nxt
      | GoalComplete \<Rightarrow> same_definition cur nxt \<and> gs_phase cur \<noteq> PhaseComplete \<and> gs_phase nxt = PhaseComplete
      | GoalBlock \<Rightarrow> same_definition cur nxt \<and> gs_phase cur = PhaseActive \<and> gs_phase nxt = PhaseBlocked
      | GoalCreate \<Rightarrow> False)"

definition validate_snapshot_transition ::
    "goal_fold_state \<Rightarrow> goal_operation \<Rightarrow> goal_snapshot \<Rightarrow> goal_snapshot \<Rightarrow> int \<Rightarrow> int \<Rightarrow> int \<Rightarrow> (goal_error, unit) result" where
  "validate_snapshot_transition st op cur nxt rounds created updated =
     (if \<not> is_next_revision cur (snapshot_ref nxt) then Inl (RefNotNext op)
      else (case gf_updated st of
              None \<Rightarrow> Inl (CountersNotPreserved op)
            | Some prev \<Rightarrow>
                (if Some created \<noteq> gf_created st \<or> updated < prev \<or> rounds \<noteq> gf_rounds st
                 then Inl (CountersNotPreserved op)
                 else ensure (phase_transition_ok op cur nxt (gf_rounds st)) (BadTransition op))))"

definition install_snapshot ::
    "goal_fold_state \<Rightarrow> goal_snapshot \<Rightarrow> int \<Rightarrow> int \<Rightarrow> int \<Rightarrow> goal_fold_state" where
  "install_snapshot st g rounds created updated =
     st\<lparr>gf_goal := Some g, gf_rounds := rounds, gf_created := Some created, gf_updated := Some updated,
        gf_last_ref := Some (snapshot_ref g)\<rparr>"

fun apply_goal_change :: "goal_fold_state \<Rightarrow> goal_change \<Rightarrow> (goal_error, goal_fold_state) result" where
  "apply_goal_change st (ClearChange ref cleared_at) =
     (case gf_goal st of
        None \<Rightarrow> Inl NoCurrentGoal
      | Some cur \<Rightarrow>
          (if \<not> is_next_revision cur ref then Inl ClearNotNext
           else (case gf_updated st of
                   None \<Rightarrow> Inl ClearBeforeUpdate
                 | Some prev \<Rightarrow>
                     (if cleared_at < prev then Inl ClearBeforeUpdate
                      else Inr (st\<lparr>gf_goal := None, gf_rounds := 0, gf_created := None, gf_updated := None,
                                   gf_last_ref := Some ref\<rparr>)))))"
| "apply_goal_change st (SnapshotChange op g rounds created updated) =
     (if op = GoalCreate then
        (if gs_revision g \<noteq> 1 \<or> gs_phase g \<noteq> PhaseActive \<or> rounds \<noteq> 0
             \<or> (case gf_goal st of Some cur \<Rightarrow> gs_phase cur \<noteq> PhaseComplete | None \<Rightarrow> False)
             \<or> gs_id g \<in> set (gf_seen st)
         then Inl NotFresh
         else Inr (install_snapshot (st\<lparr>gf_seen := gf_seen st @ [gs_id g]\<rparr>) g rounds created updated))
      else (case gf_goal st of
              None \<Rightarrow> Inl NoCurrentGoal
            | Some cur \<Rightarrow>
                rmap (\<lambda>_. install_snapshot st g rounds created updated)
                  (validate_snapshot_transition st op cur g rounds created updated)))"

definition admit_round :: "goal_fold_state \<Rightarrow> nat \<Rightarrow> string \<times> int \<times> int \<Rightarrow> (goal_error, goal_fold_state) result" where
  "admit_round st n src =
     (case src of (gid, revision, round) \<Rightarrow>
        (case gf_goal st of
           None \<Rightarrow> Inl (BadRound n)
         | Some cur \<Rightarrow>
             (if gs_phase cur \<noteq> PhaseActive \<or> gid \<noteq> gs_id cur \<or> revision \<noteq> gs_revision cur
                  \<or> round \<noteq> gf_rounds st + 1 \<or> gs_max_rounds cur < round
              then Inl (BadRound n)
              else Inr (st\<lparr>gf_rounds := round\<rparr>))))"

definition apply_goal_event :: "goal_fold_state \<Rightarrow> session_event \<Rightarrow> (goal_error, goal_fold_state) result" where
  "apply_goal_event st e =
     (case ev_data e of
        GoalChange j \<Rightarrow>
          rbind (decode_goal_change j)
            (\<lambda>c. case c of None \<Rightarrow> Inl DecodeKind | Some change \<Rightarrow> apply_goal_change st change)
      | UserMessageEv m \<Rightarrow>
          rbind (goal_source (um_source m))
            (\<lambda>s. case s of None \<Rightarrow> Inr st | Some src \<Rightarrow> admit_round st (ev_seq e) src)
      | _ \<Rightarrow> Inr st)"

definition fold_goal :: "event_log \<Rightarrow> (goal_error, goal_fold_state) result" where
  "fold_goal events = fold_log apply_goal_event empty_goal_fold_state events"

section \<open>The light projection\<close>

record goal_projection =
  gp_goal :: goal_snapshot
  gp_rounds :: int
  gp_created :: int
  gp_updated :: int

definition apply_goal_projection :: "goal_projection option \<Rightarrow> session_event \<Rightarrow> goal_projection option" where
  "apply_goal_projection st e =
     (case ev_data e of
        GoalChange j \<Rightarrow>
          (case decode_goal_change j of
             Inr (Some (ClearChange _ _)) \<Rightarrow> None
           | Inr (Some (SnapshotChange _ g rounds created updated)) \<Rightarrow>
               Some \<lparr>gp_goal = g, gp_rounds = rounds, gp_created = created, gp_updated = updated\<rparr>
           | _ \<Rightarrow> st)
      | _ \<Rightarrow> st)"

section \<open>The written form of a change\<close>

definition block_reason_json :: "block_reason \<Rightarrow> json" where
  "block_reason_json b = JObj [(''code'', JStr (br_code b)), (''message'', JStr (br_message b))]"

definition snapshot_json :: "goal_snapshot \<Rightarrow> json" where
  "snapshot_json g =
     JObj ([(''id'', JStr (gs_id g)), (''revision'', JNum (NInt (gs_revision g))),
            (''objective'', JStr (gs_objective g)), (''phase'', JStr (phase_name (gs_phase g))),
            (''maxGoalRounds'', JNum (NInt (gs_max_rounds g)))]
       @ (case gs_blocked g of Some b \<Rightarrow> [(''blockedReason'', block_reason_json b)] | None \<Rightarrow> []))"

fun goal_change_json :: "goal_change \<Rightarrow> json" where
  "goal_change_json (SnapshotChange op g rounds created updated) =
     JObj [(''kind'', JStr ''goal/change''), (''version'', JNum (NInt goal_change_version)),
           (''operation'', JStr (operation_name op)), (''goal'', snapshot_json g),
           (''roundsStarted'', JNum (NInt rounds)), (''createdAt'', JNum (NInt created)),
           (''updatedAt'', JNum (NInt updated))]"
| "goal_change_json (ClearChange ref t) =
     JObj [(''kind'', JStr ''goal/change''), (''version'', JNum (NInt goal_change_version)),
           (''operation'', JStr ''clear''),
           (''cleared'', JObj [(''id'', JStr (gr_id ref)), (''revision'', JNum (NInt (gr_revision ref)))]),
           (''clearedAt'', JNum (NInt t))]"

end
