(* ===== verification/Sample_Logs.thy ===== *)
theory Sample_Logs
  imports Compaction_Safety Goal_Fold
begin

text \<open>
  Small concrete logs at which the properties of the development are instantiated: a complete
  two-step turn with a tool call, the same turn interrupted before the result was recorded, and
  a log whose first two surface nodes were replaced by a checkpoint.
\<close>

definition ask :: "string \<Rightarrow> user_message" where
  "ask i = \<lparr>um_id = i, um_content = [TextBlock ''hi''], um_source = UserSource\<rparr>"

definition reply :: "string \<Rightarrow> content_block list \<Rightarrow> assistant_message" where
  "reply i bs = \<lparr>am_id = i, am_content = bs, am_provider = ''p'', am_model = ''m'', am_replay_state = None\<rparr>"

definition tool_answer :: "tool_result_data" where
  "tool_answer =
     \<lparr>trd_turn = 1, trd_step = 1,
      trd_message = \<lparr>trm_id = ''r1'', trm_call_id = ''c1'', trm_block_call_id = ''c1'',
                      trm_content = [TextBlock ''ok''], trm_is_error = Some False\<rparr>,
      trd_error = None, trd_meta = None\<rparr>"

definition open_turn_log :: event_log where
  "open_turn_log =
     [plain_event 0 5 (TurnStart 1),
      surface_event 1 5 (UserMessageEv (ask ''u1'')) OpAppend None,
      plain_event 2 6 (StepStart 1 1),
      surface_event 3 7 (AssistantMessageEv 1 1 (reply ''a1'' [ToolCallBlock ''c1'' ''ls'' ''{}'']) None) OpAppend None,
      plain_event 4 7 (ToolCall 1 1 ''c1'' ''ls'' ''{}'')]"

definition closed_turn_log :: event_log where
  "closed_turn_log = open_turn_log @
     [surface_event 5 8 (ToolResult tool_answer) OpAppend (Some [4]),
      plain_event 6 8 (StepEnd 1 1),
      plain_event 7 9 (TurnEnd 1 TurnCompleted)]"

definition checkpoint_log :: event_log where
  "checkpoint_log = closed_turn_log @
     [surface_event 8 9 (UserMessageEv (ask ''k1'')) (OpReplace 1 5) (Some [1, 3, 5])]"

lemmas sample_logs = open_turn_log_def closed_turn_log_def checkpoint_log_def ask_def reply_def tool_answer_def

text \<open>A live session: created empty, then extended by the events of a log.\<close>

definition raw_data :: "string \<Rightarrow> json \<Rightarrow> event_data" where
  "raw_data t d = OtherEvent t d"

definition sample_header :: session_header where
  "sample_header = \<lparr>sh_version = 0, sh_id = ''s1'', sh_created_at = 5, sh_cwd = None, sh_parent = None,
     sh_seed_length = None, sh_subagent = False, sh_delegation_depth = None, sh_agent_preset = None\<rparr>"

definition new_session :: session where
  "new_session = session_of sample_header [] (new_surface_manager 0)"

definition replay_append :: "session \<Rightarrow> session_event \<Rightarrow> (append_error, session) result" where
  "replay_append s e = rmap fst (append_event s (ev_time e) (ev_data e) (ev_surface_op e) (ev_sources e))"

definition live_session :: "event_log \<Rightarrow> (append_error, session) result" where
  "live_session events = fold_log replay_append new_session events"

lemma new_session_created: "construct_session raw_data SnapshotMode 5 ''s1'' None None = Inr new_session"
  by code_simp

lemma live_session_reach: "live_session events = Inr s \<Longrightarrow> session_reach raw_data s"
proof (induction events arbitrary: s rule: rev_induct)
  case Nil
  then show ?case using reach_create [OF new_session_created] by (simp add: live_session_def)
next
  case (snoc e events)
  then obtain u where u: "live_session events = Inr u" "replay_append u e = Inr s"
    by (auto simp: live_session_def fold_log_snoc rbind_eq_Inr)
  then obtain e' where "append_event u (ev_time e) (ev_data e) (ev_surface_op e) (ev_sources e) = Inr (s, e')"
    by (auto simp: replay_append_def rmap_eq_Inr)
  with snoc.IH [OF u(1)] show ?case by (rule reach_append)
qed

lemma live_session_logs: "live_session events = Inr s \<Longrightarrow> length (ses_log s) = length events"
proof (induction events arbitrary: s rule: rev_induct)
  case Nil
  then show ?case by (auto simp: live_session_def new_session_def session_of_def)
next
  case (snoc e events)
  then obtain u where u: "live_session events = Inr u" "replay_append u e = Inr s"
    by (auto simp: live_session_def fold_log_snoc rbind_eq_Inr)
  then show ?case using snoc.IH [OF u(1)]
    by (auto simp: replay_append_def append_event_def rmap_eq_Inr rbind_eq_Inr Let_def)
qed

lemma live_session_closed: "is_ok (live_session closed_turn_log)"
  by code_simp

definition closed_session :: session where
  "closed_session = (case live_session closed_turn_log of Inr s \<Rightarrow> s | Inl _ \<Rightarrow> new_session)"

lemma closed_session_reach: "session_reach raw_data closed_session"
  using live_session_closed live_session_reach by (auto simp: closed_session_def is_ok_iff)

lemma closed_session_ok: "session_ok closed_session"
  by (rule session_reach_ok [OF closed_session_reach])

text \<open>One stored text fragment, and a compaction environment whose summarizer answers at once.\<close>

definition sample_chunk :: "int \<Rightarrow> string \<Rightarrow> json" where
  "sample_chunk n txt =
     JObj [(''type'', JStr ''assistant/chunk''), (''seq'', JNum (NInt n)), (''time'', JNum (NInt (10 + n))),
           (''data'', JObj [(''turn'', JNum (NInt 1)), (''step'', JNum (NInt 1)),
              (''chunk'', JObj [(''type'', JStr ''text-delta''), (''index'', JNum (NInt 0)), (''text'', JStr txt)])])]"

definition sample_summary :: summary_result where
  "sample_summary = \<lparr>su_summary = [TextBlock ''sum''], su_raw_output = None, su_llm_stream_call = False, su_provider = ''p'', su_model = ''m'', su_max_tokens = None,
     su_usage = None\<rparr>"

definition sample_env :: "(string, summary_result) result \<Rightarrow> compaction_env" where
  "sample_env r =
     \<lparr>ce_measure = (\<lambda>s. map (\<lambda>n. (n, 1000)) (session_nodes s)), ce_estimate = (\<lambda>_. 10),
      ce_summarize = (\<lambda>s _. (s, r)), ce_flush = None, ce_error_chain = (\<lambda>_. ''failed''), ce_now = 20,
      ce_compaction_id = ''k'', ce_message_id = ''k1'', ce_aborted_start = False, ce_aborted_summary = False,
      ce_aborted_end = False\<rparr>"

definition sample_options :: compaction_options where
  "sample_options = \<lparr>co_standalone = True, co_whole_surface = False, co_source_command = None\<rparr>"

lemma sample_summarizer_ok: "summarizer_ok (sample_env r)"
  by (simp add: summarizer_ok_def sample_env_def)

lemma sample_meter_ok: "meter_ok (sample_env r)"
  by (simp add: meter_ok_def sample_env_def comp_def)

text \<open>A goal created, taken through one round, and paused.\<close>

definition goal_snapshot_at :: "int \<Rightarrow> goal_phase \<Rightarrow> goal_snapshot" where
  "goal_snapshot_at n p = \<lparr>gs_id = ''g'', gs_revision = n, gs_objective = ''ship it'', gs_phase = p,
     gs_blocked = None, gs_max_rounds = 3\<rparr>"

definition goal_log :: event_log where
  "goal_log =
     [plain_event 0 1 (GoalChange (goal_change_json (SnapshotChange GoalCreate (goal_snapshot_at 1 PhaseActive) 0 1 1))),
      surface_event 1 2 (UserMessageEv ((ask ''u1'')\<lparr>um_source := GoalSource ''g'' (NInt 1) (NInt 1)\<rparr>)) OpAppend None,
      plain_event 2 3 (GoalChange (goal_change_json (SnapshotChange GoalPause (goal_snapshot_at 2 PhasePaused) 1 1 3)))]"

end
