(* ===== verification/Assembler_Spec.thy ===== *)
theory Assembler_Spec
  imports Llm_Messages
begin

text \<open>
  What a chunk stream means, written without the assembler's state: the blocks come in the order
  their indices are first mentioned, and the block of an index depends only on the chunks that
  name it. The last lemma says that the assembler of \<open>packages/llm/llm/src/assembler.ts\<close>
  computes exactly this.
\<close>

fun chunk_index :: "stream_chunk \<Rightarrow> int option" where
  "chunk_index (BlockStart i _) = Some i"
| "chunk_index (TextDelta i _) = Some i"
| "chunk_index (ReasoningDelta i _) = Some i"
| "chunk_index (ToolCallDelta i _ _ _) = Some i"
| "chunk_index (BlockEnd i _) = Some i"
| "chunk_index _ = None"

fun chunk_block_type :: "stream_chunk \<Rightarrow> string" where
  "chunk_block_type (BlockStart _ t) = t"
| "chunk_block_type (TextDelta _ _) = ''text''"
| "chunk_block_type (ReasoningDelta _ _) = ''reasoning''"
| "chunk_block_type (ToolCallDelta _ _ _ _) = ''tool-call''"
| "chunk_block_type (BlockEnd _ b) = block_type b"
| "chunk_block_type _ = []"

definition mentions :: "int \<Rightarrow> stream_chunk \<Rightarrow> bool" where
  "mentions i c \<longleftrightarrow> chunk_index c = Some i"

text \<open>Indices in the order of their first mention.\<close>

fun first_mentions :: "int list \<Rightarrow> stream_chunk list \<Rightarrow> int list" where
  "first_mentions seen [] = seen"
| "first_mentions seen (c # cs) =
     first_mentions (case chunk_index c of Some i \<Rightarrow> if i \<in> set seen then seen else seen @ [i] | None \<Rightarrow> seen) cs"

fun call_id_of :: "stream_chunk \<Rightarrow> call_id list" where
  "call_id_of (ToolCallDelta _ cid _ _) = [cid]"
| "call_id_of _ = []"

fun call_name_of :: "stream_chunk \<Rightarrow> string list" where
  "call_name_of (ToolCallDelta _ _ (Some n) _) = (if n = [] then [] else [n])"
| "call_name_of _ = []"

fun call_args_of :: "stream_chunk \<Rightarrow> string" where
  "call_args_of (ToolCallDelta _ _ _ args) = args"
| "call_args_of _ = []"

fun closed_block :: "stream_chunk \<Rightarrow> content_block list" where
  "closed_block (BlockEnd _ b) = [b]"
| "closed_block _ = []"

text \<open>The block an index stands for: the first close wins, otherwise the fragments are joined.\<close>

definition index_block :: "stream_chunk list \<Rightarrow> int \<Rightarrow> (assemble_error, content_block) result" where
  "index_block cs i =
     (case concat (map closed_block (filter (mentions i) cs)) of
        b # _ \<Rightarrow> Inr b
      | [] \<Rightarrow>
          (let frags = filter (mentions i) cs; t = chunk_block_type (hd frags) in
           if t = ''text'' then Inr (TextBlock (concat (map (chunk_text i) frags)))
           else if t = ''reasoning'' then Inr (ReasoningBlock (concat (map (chunk_text i) frags)))
           else if t = ''tool-call'' then
             Inr (ToolCallBlock
                    (case last_opt (concat (map call_id_of frags)) of None \<Rightarrow> ''call-'' @ show_int i | Some cid \<Rightarrow> cid)
                    (case last_opt (concat (map call_name_of frags)) of None \<Rightarrow> [] | Some n \<Rightarrow> n)
                    (concat (map call_args_of frags)))
           else Inl (IncompleteBlock t)))"

definition stream_blocks :: "stream_chunk list \<Rightarrow> (assemble_error, content_block list) result" where
  "stream_blocks cs =
     rmap (\<lambda>bs. if ba_finish_reason (ba_run cs) = FinishMaxTokens then filter (\<lambda>b. \<not> is_tool_call b) bs else bs)
       (traverse (index_block cs) (first_mentions [] cs))"

section \<open>One index at a time\<close>

lemma last_opt_single [simp]: "last_opt [x] = Some x"
  by (simp add: last_opt_def)

text \<open>What one chunk does to the partial of an index it names.\<close>

definition partial_step :: "int \<Rightarrow> partial_block option \<Rightarrow> stream_chunk \<Rightarrow> partial_block option" where
  "partial_step i op c =
     (if \<not> mentions i c then op
      else let p = (case op of Some p \<Rightarrow> p | None \<Rightarrow> fresh_partial (chunk_block_type c)) in
        Some (if pb_block p \<noteq> None then p
              else p\<lparr>pb_text := pb_text p @ chunk_text i c,
                     pb_call_id := (case last_opt (call_id_of c) of None \<Rightarrow> pb_call_id p | Some cid \<Rightarrow> Some cid),
                     pb_call_name := (case last_opt (call_name_of c) of None \<Rightarrow> pb_call_name p | Some n \<Rightarrow> Some n),
                     pb_args := pb_args p @ call_args_of c,
                     pb_block := (case closed_block c of [] \<Rightarrow> None | b # _ \<Rightarrow> Some b)\<rparr>))"

lemma ba_push_partial:
  "map_get (ba_partials (ba_push a c)) i = partial_step i (map_get (ba_partials a) i) c"
proof (cases "mentions i c")
  case False
  then show ?thesis
    by (cases c) (auto simp: partial_step_def mentions_def ba_update_get ba_ensure_def js_simps split: option.split)
next
  case True
  show ?thesis
  proof (cases "map_get (ba_partials a) i")
    case None
    with True show ?thesis
      by (cases c) (simp_all add: partial_step_def mentions_def ba_update_get ba_ensure_def js_simps fresh_partial_def
          Let_def split: option.split)
  next
    case (Some p)
    with True show ?thesis
      by (cases c; cases p) (simp_all add: partial_step_def mentions_def ba_update_get ba_ensure_def js_simps Let_def
          split: option.split)
  qed
qed

lemma ba_run_partial:
  "map_get (ba_partials (foldl ba_push a cs)) i = foldl (partial_step i) (map_get (ba_partials a) i) cs"
  by (induction cs arbitrary: a) (simp_all add: ba_push_partial)

lemma partial_steps_filter: "foldl (partial_step i) op cs = foldl (partial_step i) op (filter (mentions i) cs)"
  by (induction cs arbitrary: op) (auto simp: partial_step_def)

lemma last_opt_append: "last_opt (xs @ ys) = (case last_opt ys of None \<Rightarrow> last_opt xs | Some y \<Rightarrow> Some y)"
  by (cases ys rule: rev_cases) (simp_all flip: append_assoc)

text \<open>The partial after a non-empty run of open fragments, in closed form.\<close>

definition open_partial :: "int \<Rightarrow> stream_chunk list \<Rightarrow> partial_block" where
  "open_partial i frags =
     \<lparr>pb_type = chunk_block_type (hd frags),
      pb_text = concat (map (chunk_text i) frags),
      pb_call_id = last_opt (concat (map call_id_of frags)),
      pb_call_name = last_opt (concat (map call_name_of frags)),
      pb_args = concat (map call_args_of frags),
      pb_block = None\<rparr>"

lemma open_partial_snoc:
  assumes "frags \<noteq> []" "mentions i c" "closed_block c = []"
  shows "partial_step i (Some (open_partial i frags)) c = Some (open_partial i (frags @ [c]))"
  using assms
  by (simp add: partial_step_def open_partial_def last_opt_append Let_def split: option.split)

lemma open_partial_single:
  assumes "mentions i c" "closed_block c = []"
  shows "partial_step i None c = Some (open_partial i [c])"
  using assms
  by (simp add: partial_step_def open_partial_def fresh_partial_def Let_def split: option.split)

lemma open_run:
  assumes "frags \<noteq> []" "\<forall>c\<in>set frags. mentions i c" "concat (map closed_block frags) = []"
  shows "foldl (partial_step i) None frags = Some (open_partial i frags)"
  using assms
proof (induction frags rule: rev_induct)
  case (snoc c frags)
  show ?case
  proof (cases "frags = []")
    case True
    with snoc.prems show ?thesis by (simp add: open_partial_single)
  next
    case False
    with snoc have "foldl (partial_step i) None frags = Some (open_partial i frags)" by simp
    with snoc.prems False show ?thesis by (simp add: open_partial_snoc)
  qed
qed simp

lemma closed_run:
  assumes "pb_block p = Some b"
  shows "foldl (partial_step i) (Some p) frags = Some p"
  using assms by (induction frags) (auto simp: partial_step_def)

lemma step_closes:
  assumes "mentions i c" "closed_block c = b # bs" "\<And>p. op = Some p \<Longrightarrow> pb_block p = None"
  shows "\<exists>p. partial_step i op c = Some p \<and> pb_block p = Some b"
  using assms by (cases op) (auto simp: partial_step_def fresh_partial_def Let_def)

lemma split_first_close:
  assumes "concat (map closed_block frags) = b # bs"
  shows "\<exists>xs c ys. frags = xs @ c # ys \<and> concat (map closed_block xs) = [] \<and> (\<exists>t. closed_block c = b # t)"
  using assms
proof (induction frags)
  case (Cons c frags)
  show ?case
  proof (cases "closed_block c")
    case Nil
    with Cons obtain xs d ys where "frags = xs @ d # ys" "concat (map closed_block xs) = []" "\<exists>t. closed_block d = b # t"
      by auto
    with Nil show ?thesis by (intro exI [of _ "c # xs"] exI [of _ d] exI [of _ ys]) simp
  next
    case (Cons b' t)
    with Cons.prems have "closed_block c = b # t" by simp
    then show ?thesis by (intro exI [of _ "[]"] exI [of _ c] exI [of _ frags]) simp
  qed
qed simp

text \<open>The partial the assembler holds for an index, and the block it assembles from it.\<close>

lemma assemble_open:
  assumes "frags \<noteq> []" "concat (map closed_block frags) = []"
  shows "ba_assemble (open_partial i frags) i =
    (let t = chunk_block_type (hd frags) in
     if t = ''text'' then Inr (TextBlock (concat (map (chunk_text i) frags)))
     else if t = ''reasoning'' then Inr (ReasoningBlock (concat (map (chunk_text i) frags)))
     else if t = ''tool-call'' then
       Inr (ToolCallBlock
              (case last_opt (concat (map call_id_of frags)) of None \<Rightarrow> ''call-'' @ show_int i | Some cid \<Rightarrow> cid)
              (case last_opt (concat (map call_name_of frags)) of None \<Rightarrow> [] | Some n \<Rightarrow> n)
              (concat (map call_args_of frags)))
     else Inl (IncompleteBlock t))"
  by (simp add: ba_assemble_def open_partial_def Let_def)

lemma index_assembles:
  assumes "\<exists>c\<in>set cs. mentions i c"
  shows "rbind (ba_must_get (ba_run cs) i) (\<lambda>p. ba_assemble p i) = index_block cs i"
proof -
  let ?frags = "filter (mentions i) cs"
  have ne: "?frags \<noteq> []" using assms by (simp add: filter_empty_conv)
  have run: "map_get (ba_partials (ba_run cs)) i = foldl (partial_step i) None ?frags"
    by (simp add: ba_run_def ba_run_partial new_assembler_def partial_steps_filter [symmetric])
  show ?thesis
  proof (cases "concat (map closed_block ?frags)")
    case Nil
    then have "foldl (partial_step i) None ?frags = Some (open_partial i ?frags)"
      using ne by (simp add: open_run)
    moreover have "index_block cs i = ba_assemble (open_partial i ?frags) i"
      unfolding index_block_def Nil assemble_open [OF ne Nil] by (simp add: Let_def)
    ultimately show ?thesis using run by (simp add: ba_must_get_def)
  next
    case (Cons b bs)
    then obtain xs c ys where split: "?frags = xs @ c # ys" "concat (map closed_block xs) = []"
        and c: "\<exists>t. closed_block c = b # t"
      using split_first_close by blast
    have ment: "\<forall>d\<in>set (xs @ c # ys). mentions i d" by (simp flip: split(1))
    have "\<And>p. foldl (partial_step i) None xs = Some p \<Longrightarrow> pb_block p = None"
    proof (cases "xs = []")
      case False
      then have "foldl (partial_step i) None xs = Some (open_partial i xs)"
        using ment split(2) by (simp add: open_run)
      then show "foldl (partial_step i) None xs = Some p \<Longrightarrow> pb_block p = None" for p
        by (auto simp: open_partial_def)
    qed simp
    then obtain p where p: "partial_step i (foldl (partial_step i) None xs) c = Some p" "pb_block p = Some b"
      using step_closes ment c by (metis in_set_conv_decomp)
    then have "foldl (partial_step i) None ?frags = Some p"
      using split(1) by (simp add: closed_run)
    with run p(2) Cons show ?thesis by (simp add: ba_must_get_def ba_assemble_def index_block_def)
  qed
qed

section \<open>The order of the blocks\<close>

lemma ba_push_order:
  assumes "ba_wf a"
  shows "ba_order (ba_push a c) =
    (case chunk_index c of Some i \<Rightarrow> if i \<in> set (ba_order a) then ba_order a else ba_order a @ [i] | None \<Rightarrow> ba_order a)"
proof -
  have ensure: "ba_order (fst (ba_ensure a i t)) = (if i \<in> set (ba_order a) then ba_order a else ba_order a @ [i])"
    for i t
    using assms by (cases "map_get (ba_partials a) i") (auto simp: ba_wf_def ba_ensure_def dom_def)
  have update: "ba_order (ba_update a i t f) = ba_order (fst (ba_ensure a i t))" for i t f
    by (simp add: ba_update_def split: prod.split)
  show ?thesis
    by (cases c) (simp_all add: ensure update)
qed

lemma ba_run_order: "ba_wf a \<Longrightarrow> ba_order (foldl ba_push a cs) = first_mentions (ba_order a) cs"
  by (induction cs arbitrary: a) (simp_all add: ba_push_order ba_push_wf cong: option.case_cong)

lemma first_mentions_set: "set (first_mentions seen cs) = set seen \<union> {i. \<exists>c\<in>set cs. mentions i c}"
  by (induction cs arbitrary: seen) (auto simp: mentions_def split: option.splits)

lemma traverse_cong: "(\<And>x. x \<in> set xs \<Longrightarrow> f x = g x) \<Longrightarrow> traverse f xs = traverse g xs"
  by (induction xs) simp_all

lemma ba_blocks_stream: "ba_blocks (ba_run cs) = stream_blocks cs"
proof -
  have wf: "ba_wf new_assembler" by (simp add: ba_wf_def new_assembler_def)
  have order: "ba_order (ba_run cs) = first_mentions [] cs"
    using ba_run_order [OF wf, of cs] by (simp add: ba_run_def new_assembler_def)
  have "traverse (\<lambda>i. rbind (ba_must_get (ba_run cs) i) (\<lambda>p. ba_assemble p i)) (first_mentions [] cs)
      = traverse (index_block cs) (first_mentions [] cs)"
    by (rule traverse_cong) (simp add: first_mentions_set index_assembles)
  then show ?thesis by (simp add: ba_blocks_def stream_blocks_def order)
qed

end
