(* ===== verification/Consumed_Work.thy ===== *)
theory Consumed_Work
  imports Session_Log
begin

text \<open>
  How an agent log accounts for the work it consumed
  (\<open>packages/core/agent/src/consumed-work.ts\<close>): the single-pass fold of the code, and a
  declarative account stated over positions of the log, which the fold is proved to compute on
  every log the trace accepts.
\<close>

section \<open>The fold\<close>

record consumed_state =
  cw_stepped :: "int set"
  cw_claimed :: "int set"
  cw_open :: "int option"
  cw_end :: "session_event option"
  cw_dropped :: bool

definition accounts_for_claim :: "turn_end_reason \<Rightarrow> bool" where
  "accounts_for_claim r = (case r of TurnCompleted \<Rightarrow> False | _ \<Rightarrow> True)"

definition consumed_init :: consumed_state where
  "consumed_init = \<lparr>cw_stepped = {}, cw_claimed = {}, cw_open = None, cw_end = None, cw_dropped = False\<rparr>"

definition consumed_step :: "consumed_state \<Rightarrow> session_event \<Rightarrow> consumed_state" where
  "consumed_step c e =
     (case ev_data e of
        TurnStart turn \<Rightarrow> c\<lparr>cw_open := Some turn\<rparr>
      | StepStart turn _ \<Rightarrow> c\<lparr>cw_stepped := insert turn (cw_stepped c)\<rparr>
      | InboxSpliced sp \<Rightarrow>
          (if is_removed sp = None then c
           else if is_canceled sp then c\<lparr>cw_dropped := (cw_dropped c \<or> is_inserted sp = [])\<rparr>
           else (case cw_open c of Some turn \<Rightarrow> c\<lparr>cw_claimed := insert turn (cw_claimed c)\<rparr> | None \<Rightarrow> c))
      | TurnEnd turn reason \<Rightarrow>
          (let c1 = c\<lparr>cw_open := None\<rparr> in
           if turn \<in> cw_stepped c1
           then c1\<lparr>cw_stepped := cw_stepped c1 - {turn}, cw_end := Some e, cw_dropped := False\<rparr>
           else if turn \<in> cw_claimed c1 then
             (let c2 = c1\<lparr>cw_claimed := cw_claimed c1 - {turn}\<rparr> in
              if accounts_for_claim reason then c2\<lparr>cw_end := Some e, cw_dropped := False\<rparr> else c2)
           else c1)
      | _ \<Rightarrow> c)"

definition fold_consumed_work :: "event_log \<Rightarrow> session_event option \<times> bool" where
  "fold_consumed_work events =
     (let c = foldl consumed_step consumed_init events in (cw_end c, cw_dropped c))"

section \<open>The account, stated over the log\<close>

definition open_turn_at :: "event_log \<Rightarrow> int option" where
  "open_turn_at es =
     (case find_last is_turn_boundary es of
        Some e \<Rightarrow> (case ev_data e of TurnStart n \<Rightarrow> Some n | _ \<Rightarrow> None)
      | None \<Rightarrow> None)"

definition is_claim :: "session_event \<Rightarrow> bool" where
  "is_claim e = (case ev_data e of InboxSpliced sp \<Rightarrow> is_removed sp \<noteq> None \<and> \<not> is_canceled sp | _ \<Rightarrow> False)"

definition is_drop :: "session_event \<Rightarrow> bool" where
  "is_drop e =
     (case ev_data e of
        InboxSpliced sp \<Rightarrow> is_removed sp \<noteq> None \<and> is_canceled sp \<and> is_inserted sp = []
      | _ \<Rightarrow> False)"

definition stepped_in :: "event_log \<Rightarrow> int \<Rightarrow> bool" where
  "stepped_in es n \<longleftrightarrow> (\<exists>e\<in>set es. \<exists>s. ev_data e = StepStart n s)"

definition claimed_in :: "event_log \<Rightarrow> int \<Rightarrow> bool" where
  "claimed_in es n \<longleftrightarrow> (\<exists>i<length es. is_claim (es ! i) \<and> open_turn_at (take i es) = Some n)"

definition accounting :: "event_log \<Rightarrow> nat \<Rightarrow> bool" where
  "accounting es j =
     (case ev_data (es ! j) of
        TurnEnd n r \<Rightarrow> stepped_in (take j es) n \<or> claimed_in (take j es) n \<and> accounts_for_claim r
      | _ \<Rightarrow> False)"

definition last_accounting :: "event_log \<Rightarrow> nat option" where
  "last_accounting es = find (accounting es) (rev [0..<length es])"

definition dropped_after :: "event_log \<Rightarrow> bool" where
  "dropped_after es \<longleftrightarrow>
     (\<exists>k<length es. is_drop (es ! k) \<and> (case last_accounting es of Some j \<Rightarrow> j < k | None \<Rightarrow> True))"

section \<open>One more event\<close>

lemma open_turn_at_snoc:
  "open_turn_at (es @ [e]) =
     (case ev_data e of TurnStart n \<Rightarrow> Some n | TurnEnd _ _ \<Rightarrow> None | _ \<Rightarrow> open_turn_at es)"
  by (cases "ev_data e") (simp_all add: open_turn_at_def find_last_snoc is_turn_boundary_def)

lemma stepped_in_snoc: "stepped_in (es @ [e]) n \<longleftrightarrow> stepped_in es n \<or> (\<exists>s. ev_data e = StepStart n s)"
  by (auto simp: stepped_in_def)

lemma ex_less_Suc: "(\<exists>i<Suc n. P i) \<longleftrightarrow> (\<exists>i<n. P i) \<or> P n"
  using less_Suc_eq by auto

lemma claimed_in_snoc:
  "claimed_in (es @ [e]) n \<longleftrightarrow> claimed_in es n \<or> is_claim e \<and> open_turn_at es = Some n"
proof -
  have "claimed_in (es @ [e]) n \<longleftrightarrow>
      (\<exists>i<length es. is_claim ((es @ [e]) ! i) \<and> open_turn_at (take i (es @ [e])) = Some n)
      \<or> is_claim ((es @ [e]) ! length es) \<and> open_turn_at (take (length es) (es @ [e])) = Some n"
    unfolding claimed_in_def length_append_singleton by (rule ex_less_Suc)
  moreover have "(\<exists>i<length es. is_claim ((es @ [e]) ! i) \<and> open_turn_at (take i (es @ [e])) = Some n)
      \<longleftrightarrow> claimed_in es n"
    unfolding claimed_in_def by (intro ex_cong1) (auto simp: nth_append)
  ultimately show ?thesis by simp
qed

lemma accounting_prefix: "j < length es \<Longrightarrow> accounting (es @ [e]) j = accounting es j"
  by (simp add: accounting_def nth_append cong: event_data.case_cong)

lemma accounting_last:
  "accounting (es @ [e]) (length es) =
     (case ev_data e of
        TurnEnd n r \<Rightarrow> stepped_in es n \<or> claimed_in es n \<and> accounts_for_claim r
      | _ \<Rightarrow> False)"
  by (simp add: accounting_def cong: event_data.case_cong)

lemma find_cong_set: "(\<And>x. x \<in> set xs \<Longrightarrow> P x = Q x) \<Longrightarrow> find P xs = find Q xs"
  by (induction xs) auto

lemma last_accounting_snoc:
  "last_accounting (es @ [e]) =
     (if accounting (es @ [e]) (length es) then Some (length es) else last_accounting es)"
proof -
  have same: "find (accounting (es @ [e])) (rev [0..<length es]) = find (accounting es) (rev [0..<length es])"
    by (rule find_cong_set) (simp add: accounting_prefix del: upt_Suc)
  have "rev [0..<length (es @ [e])] = length es # rev [0..<length es]" by simp
  then show ?thesis unfolding last_accounting_def by (simp only: find.simps same)
qed

lemma find_SomeD: "find P xs = Some x \<Longrightarrow> x \<in> set xs \<and> P x"
  by (induction xs) (auto split: if_splits)

lemma last_accounting_less: "last_accounting es = Some j \<Longrightarrow> j < length es"
  unfolding last_accounting_def by (drule find_SomeD) simp

lemma dropped_after_snoc:
  "dropped_after (es @ [e]) \<longleftrightarrow>
     \<not> accounting (es @ [e]) (length es) \<and> (dropped_after es \<or> is_drop e)"
  using last_accounting_less [of es]
  by (auto simp: dropped_after_def last_accounting_snoc less_Suc_eq nth_append split: option.splits)

text \<open>What the fold knows, for the turns that have not ended.\<close>

definition consumed_ok :: "event_log \<Rightarrow> session_trace \<Rightarrow> consumed_state \<Rightarrow> bool" where
  "consumed_ok es tr c \<longleftrightarrow>
     cw_open c = open_turn_at es \<and> open_turn_at es = tr_open_turn tr
     \<and> (\<forall>n\<ge>tr_next_turn tr. (n \<in> cw_stepped c \<longleftrightarrow> stepped_in es n) \<and> (n \<in> cw_claimed c \<longleftrightarrow> claimed_in es n))
     \<and> cw_end c = map_option (\<lambda>j. es ! j) (last_accounting es)
     \<and> cw_dropped c = dropped_after es"

lemma last_accounting_nth:
  "\<not> accounting (es @ [e]) (length es) \<Longrightarrow>
     map_option (\<lambda>j. (es @ [e]) ! j) (last_accounting (es @ [e])) = map_option (\<lambda>j. es ! j) (last_accounting es)"
  using last_accounting_less [of es]
  by (cases "last_accounting es") (auto simp: last_accounting_snoc nth_append)

lemma consumed_ok_step:
  assumes wf: "trace_wf tr" and step: "trace_step tr e = Inr tr'" and ok: "consumed_ok es tr c"
  shows "consumed_ok (es @ [e]) tr' (consumed_step c e)"
  using step
proof (cases rule: trace_step_cases)
  case (turn_start n)
  then show ?thesis using ok
    by (auto simp: consumed_ok_def consumed_step_def open_turn_at_snoc stepped_in_snoc claimed_in_snoc is_claim_def
        last_accounting_nth dropped_after_snoc accounting_last is_drop_def)
next
  case (turn_end n r)
  have n: "n = tr_next_turn tr" using wf turn_end(2) by (simp add: trace_wf_def)
  then have facts: "n \<in> cw_stepped c \<longleftrightarrow> stepped_in es n" "n \<in> cw_claimed c \<longleftrightarrow> claimed_in es n"
    using ok by (auto simp: consumed_ok_def)
  have acct: "accounting (es @ [e]) (length es) \<longleftrightarrow> stepped_in es n \<or> claimed_in es n \<and> accounts_for_claim r"
    using turn_end(1) by (simp add: accounting_last)
  define c' where "c' = consumed_step c e"
  have c': "cw_open c' = None" "\<forall>m. m \<noteq> n \<longrightarrow> (m \<in> cw_stepped c' \<longleftrightarrow> m \<in> cw_stepped c) \<and> (m \<in> cw_claimed c' \<longleftrightarrow> m \<in> cw_claimed c)"
    "cw_end c' = (if accounting (es @ [e]) (length es) then Some e else cw_end c)"
    "cw_dropped c' = (\<not> accounting (es @ [e]) (length es) \<and> cw_dropped c)"
    using turn_end(1) facts acct by (auto simp: c'_def consumed_step_def Let_def)
  have same: "\<not> is_claim e" "\<not> is_drop e" "open_turn_at (es @ [e]) = None" "\<forall>m s. ev_data e \<noteq> StepStart m s"
    using turn_end(1) by (simp_all add: is_claim_def is_drop_def open_turn_at_snoc)
  have "cw_end c' = map_option (\<lambda>j. (es @ [e]) ! j) (last_accounting (es @ [e]))"
    using c'(3) ok last_accounting_nth [of es e] by (auto simp: last_accounting_snoc consumed_ok_def)
  then show ?thesis using c' same ok turn_end(4) n
    by (auto simp: consumed_ok_def stepped_in_snoc claimed_in_snoc dropped_after_snoc simp flip: c'_def)
next
  case (step_start n s)
  then show ?thesis using ok
    by (auto simp: consumed_ok_def consumed_step_def open_turn_at_snoc stepped_in_snoc claimed_in_snoc is_claim_def
        last_accounting_nth dropped_after_snoc accounting_last is_drop_def)
next
  case neutral
  show ?thesis
  proof (cases "\<exists>sp. ev_data e = InboxSpliced sp")
    case True
    then obtain sp where sp: "ev_data e = InboxSpliced sp" by blast
    define c' where "c' = consumed_step c e"
    have c': "cw_open c' = cw_open c" "cw_stepped c' = cw_stepped c" "cw_end c' = cw_end c"
      "cw_dropped c' = (cw_dropped c \<or> is_drop e)"
      "\<forall>n. n \<in> cw_claimed c' \<longleftrightarrow> n \<in> cw_claimed c \<or> is_claim e \<and> cw_open c = Some n"
      using sp by (cases "cw_open c"; auto simp: c'_def consumed_step_def is_drop_def is_claim_def)+
    have "\<not> accounting (es @ [e]) (length es)" "open_turn_at (es @ [e]) = open_turn_at es"
      "\<forall>n s. ev_data e \<noteq> StepStart n s"
      using sp by (simp_all add: accounting_last open_turn_at_snoc)
    then show ?thesis using c' ok neutral(8)
      by (auto simp: consumed_ok_def stepped_in_snoc claimed_in_snoc last_accounting_nth dropped_after_snoc
          simp flip: c'_def)
  next
    case False
    then have "consumed_step c e = c" "\<not> is_claim e" "\<not> is_drop e" "\<not> accounting (es @ [e]) (length es)"
      "open_turn_at (es @ [e]) = open_turn_at es" "\<forall>n s. ev_data e \<noteq> StepStart n s"
      using neutral(1-7)
      by (cases "ev_data e"; auto simp: consumed_step_def is_claim_def is_drop_def accounting_last open_turn_at_snoc)+
    then show ?thesis using ok neutral(8)
      by (auto simp: consumed_ok_def stepped_in_snoc claimed_in_snoc last_accounting_nth dropped_after_snoc)
  qed
qed (use ok in \<open>auto simp: consumed_ok_def consumed_step_def open_turn_at_snoc stepped_in_snoc claimed_in_snoc is_claim_def
        last_accounting_nth dropped_after_snoc accounting_last is_drop_def\<close>)

lemma consumed_ok_log:
  assumes "seed_session events = Inr tr"
  shows "consumed_ok events tr (foldl consumed_step consumed_init events)"
  using assms
proof (induction events arbitrary: tr rule: rev_induct)
  case Nil
  then show ?case
    by (auto simp: seed_session_def consumed_ok_def consumed_init_def fresh_trace_def open_turn_at_def find_last_def
        stepped_in_def claimed_in_def last_accounting_def dropped_after_def)
next
  case (snoc e events)
  from snoc.prems obtain t where t: "seed_session events = Inr t" "trace_step t e = Inr tr"
    by (auto simp: seed_session_def fold_log_snoc rbind_eq_Inr)
  have "trace_wf t" using t(1) unfolding seed_session_def by (rule trace.wf_fold)
  from consumed_ok_step [OF this t(2) snoc.IH [OF t(1)]] show ?case by simp
qed

lemma fold_consumed_work_account:
  assumes "seed_session events = Inr tr"
  shows "fold_consumed_work events
    = (map_option (\<lambda>j. events ! j) (last_accounting events), dropped_after events)"
  using consumed_ok_log [OF assms] by (simp add: fold_consumed_work_def consumed_ok_def Let_def)

end
