(* ===== verification/Inbox.thy ===== *)
theory Inbox
  imports Session_Trace "HOL-Library.Multiset"
begin

text \<open>
  The agent inbox (\<open>packages/core/agent/src/inbox.ts\<close>): two pending-message lists, their
  normalized splice as the only mutation, the live operations built on it, and the replay that
  rebuilds the lists from the logged splices. A live operation yields the splices it logs, the
  messages it removes, its notifications in order, and the new lists. The live lists and the
  replay of the log are shown equal through the \<open>live_projection\<close> contract.
\<close>

section \<open>State and durable splices\<close>

record inbox_state =
  ib_next_turn :: "user_message list"
  ib_next_step :: "user_message list"

definition empty_inbox :: inbox_state where
  "empty_inbox = \<lparr>ib_next_turn = [], ib_next_step = []\<rparr>"

definition inbox_list :: "inbox_state \<Rightarrow> inbox_target \<Rightarrow> user_message list" where
  "inbox_list s t = (case t of NextTurn \<Rightarrow> ib_next_turn s | NextStep \<Rightarrow> ib_next_step s)"

definition set_inbox_list :: "inbox_state \<Rightarrow> inbox_target \<Rightarrow> user_message list \<Rightarrow> inbox_state" where
  "set_inbox_list s t xs =
     (case t of NextTurn \<Rightarrow> s\<lparr>ib_next_turn := xs\<rparr> | NextStep \<Rightarrow> s\<lparr>ib_next_step := xs\<rparr>)"

definition has_pending :: "inbox_state \<Rightarrow> bool" where
  "has_pending s \<longleftrightarrow> ib_next_turn s \<noteq> [] \<or> ib_next_step s \<noteq> []"

datatype inbox_error =
    InvalidSplice
  | AlreadyPending message_id
  | InvalidPersistedSplice nat inbox_error

datatype notification =
    Inserted user_message
  | Discarded user_message
  | Claimed user_message int

fun first_duplicate :: "message_id list \<Rightarrow> message_id list \<Rightarrow> message_id option" where
  "first_duplicate seen [] = None"
| "first_duplicate seen (x # xs) = (if x \<in> set seen then Some x else first_duplicate (x # seen) xs)"

definition removed_count :: "inbox_splice \<Rightarrow> int" where
  "removed_count sp = (case is_removed sp of Some n \<Rightarrow> n | None \<Rightarrow> 0)"

definition validate_splice :: "inbox_state \<Rightarrow> inbox_splice \<Rightarrow> (inbox_error, unit) result" where
  "validate_splice s sp =
     (let inbox = inbox_list s (is_target sp); removed = removed_count sp in
      if \<not> safe_int (is_start sp) \<or> is_start sp < 0 \<or> int (length inbox) < is_start sp
          \<or> \<not> safe_int removed \<or> removed < 0 \<or> int (length inbox) < is_start sp + removed
      then Inl InvalidSplice
      else
        (let candidate = js_splice inbox (nat (is_start sp)) (nat removed) (is_inserted sp);
             all = (case is_target sp of
                      NextTurn \<Rightarrow> candidate @ ib_next_step s
                    | NextStep \<Rightarrow> ib_next_turn s @ candidate)
         in case first_duplicate [] (map um_id all) of
              Some mid \<Rightarrow> Inl (AlreadyPending mid)
            | None \<Rightarrow> Inr ()))"

definition splice_state :: "inbox_state \<Rightarrow> inbox_splice \<Rightarrow> inbox_state" where
  "splice_state s sp =
     set_inbox_list s (is_target sp)
       (js_splice (inbox_list s (is_target sp)) (nat (is_start sp)) (nat (removed_count sp)) (is_inserted sp))"

definition apply_splice :: "inbox_state \<Rightarrow> inbox_splice \<Rightarrow> (inbox_error, inbox_state) result" where
  "apply_splice s sp = rmap (\<lambda>_. splice_state s sp) (validate_splice s sp)"

text \<open>The constructor: replay the splices behind the fork seed.\<close>

definition replay_inbox_event :: "inbox_state \<Rightarrow> session_event \<Rightarrow> (inbox_error, inbox_state) result" where
  "replay_inbox_event s e =
     (case ev_data e of
        InboxSpliced sp \<Rightarrow> map_error (InvalidPersistedSplice (ev_seq e)) (apply_splice s sp)
      | _ \<Rightarrow> Inr s)"

definition new_inbox :: "session_header \<Rightarrow> event_log \<Rightarrow> (inbox_error, inbox_state) result" where
  "new_inbox h events =
     fold_log replay_inbox_event empty_inbox
       (drop (case sh_seed_length h of Some n \<Rightarrow> n | None \<Rightarrow> 0) events)"

section \<open>Live operations\<close>

text \<open>Standard splice coordinates: negative starts count from the end, both clamp to the list.\<close>

definition nan_to_zero :: "jsnum \<Rightarrow> jsnum" where
  "nan_to_zero n = (if n = NNaN then NInt 0 else n)"

definition actual_start :: "nat \<Rightarrow> jsnum \<Rightarrow> nat" where
  "actual_start len start =
     (case nan_to_zero (math_trunc start) of
        NInt i \<Rightarrow> if i < 0 then nat (max (int len + i) 0) else nat (min i (int len))
      | NInf negative \<Rightarrow> if negative then 0 else len
      | _ \<Rightarrow> 0)"

definition actual_delete_count :: "nat \<Rightarrow> jsnum \<Rightarrow> nat" where
  "actual_delete_count room del =
     (case nan_to_zero (math_trunc del) of
        NInt i \<Rightarrow> nat (min (max i 0) (int room))
      | NInf negative \<Rightarrow> if negative then 0 else room
      | _ \<Rightarrow> 0)"

record inbox_outcome =
  io_splices :: "inbox_splice list"
  io_removed :: "user_message list"
  io_notes :: "notification list"
  io_state :: inbox_state

definition no_mutation :: "inbox_state \<Rightarrow> inbox_outcome" where
  "no_mutation s = \<lparr>io_splices = [], io_removed = [], io_notes = [], io_state = s\<rparr>"

definition mutate ::
    "inbox_state \<Rightarrow> inbox_target \<Rightarrow> jsnum \<Rightarrow> jsnum \<Rightarrow> user_message list \<Rightarrow> bool \<Rightarrow> (inbox_error, inbox_outcome) result" where
  "mutate s target start del inserted discard =
     (let inbox = inbox_list s target;
          i = actual_start (length inbox) start;
          n = actual_delete_count (length inbox - i) del
      in if n = 0 \<and> inserted = [] then Inr (no_mutation s)
         else
           (let sp = \<lparr>is_target = target, is_start = int i,
                      is_removed = (if n = 0 then None else Some (int n)),
                      is_inserted = inserted, is_canceled = (discard \<and> n > 0)\<rparr>;
                removed = slice inbox i (i + n)
            in rmap (\<lambda>_. \<lparr>io_splices = [sp], io_removed = removed,
                          io_notes = (if discard then map Discarded removed else []) @ map Inserted inserted,
                          io_state = set_inbox_list s target (js_splice inbox i n inserted)\<rparr>)
                 (validate_splice s sp)))"

definition nat_num :: "nat \<Rightarrow> jsnum" where
  "nat_num n = NInt (int n)"

text \<open>Sequencing of two operations of one call.\<close>

definition then_mutate ::
    "(inbox_error, inbox_outcome) result \<Rightarrow> (inbox_state \<Rightarrow> (inbox_error, inbox_outcome) result)
       \<Rightarrow> (inbox_error, inbox_outcome) result" where
  "then_mutate m f =
     rbind m (\<lambda>a. rmap (\<lambda>b. \<lparr>io_splices = io_splices a @ io_splices b, io_removed = io_removed a @ io_removed b,
                             io_notes = io_notes a @ io_notes b, io_state = io_state b\<rparr>) (f (io_state a)))"

definition inbox_clear :: "inbox_state \<Rightarrow> (inbox_error, inbox_outcome) result" where
  "inbox_clear s =
     then_mutate (mutate s NextStep (NInt 0) (nat_num (length (ib_next_step s))) [] True)
       (\<lambda>s'. mutate s' NextTurn (NInt 0) (nat_num (length (ib_next_turn s'))) [] True)"

definition inbox_claim :: "inbox_state \<Rightarrow> inbox_target \<Rightarrow> int \<Rightarrow> (inbox_error, inbox_outcome) result" where
  "inbox_claim s target turn =
     rmap (\<lambda>r. r\<lparr>io_notes := io_notes r @ map (\<lambda>m. Claimed m turn) (io_removed r)\<rparr>)
       (then_mutate (mutate s NextStep (NInt 0) (nat_num (length (ib_next_step s))) [] False)
          (\<lambda>s'. if target = NextTurn then mutate s' NextTurn (NInt 0) (NInt 1) [] False else Inr (no_mutation s')))"

definition inbox_append :: "inbox_state \<Rightarrow> inbox_target \<Rightarrow> user_message \<Rightarrow> (inbox_error, inbox_outcome) result" where
  "inbox_append s target m = mutate s target (nat_num (length (inbox_list s target))) (NInt 0) [m] True"

definition inbox_prepend :: "inbox_state \<Rightarrow> inbox_target \<Rightarrow> user_message \<Rightarrow> (inbox_error, inbox_outcome) result" where
  "inbox_prepend s target m = mutate s target (NInt 0) (NInt 0) [m] True"

definition locate :: "inbox_state \<Rightarrow> message_id \<Rightarrow> (inbox_target \<times> nat) option" where
  "locate s mid =
     (case find_index (\<lambda>m. um_id m = mid) (ib_next_turn s) of
        Some i \<Rightarrow> Some (NextTurn, i)
      | None \<Rightarrow> map_option (Pair NextStep) (find_index (\<lambda>m. um_id m = mid) (ib_next_step s)))"

definition inbox_replace :: "inbox_state \<Rightarrow> message_id \<Rightarrow> user_message \<Rightarrow> (inbox_error, bool \<times> inbox_outcome) result" where
  "inbox_replace s mid m =
     (case locate s mid of
        None \<Rightarrow> Inr (False, no_mutation s)
      | Some (target, i) \<Rightarrow> rmap (Pair True) (mutate s target (nat_num i) (NInt 1) [m] True))"

definition inbox_remove :: "inbox_state \<Rightarrow> message_id \<Rightarrow> (inbox_error, bool \<times> inbox_outcome) result" where
  "inbox_remove s mid =
     (case locate s mid of
        None \<Rightarrow> Inr (False, no_mutation s)
      | Some (target, i) \<Rightarrow> rmap (Pair True) (mutate s target (nat_num i) (NInt 1) [] True))"

text \<open>The operations as one command type, for histories of calls.\<close>

datatype inbox_command =
    DoSplice inbox_target jsnum jsnum "user_message list"
  | DoAppend inbox_target user_message
  | DoPrepend inbox_target user_message
  | DoReplace message_id user_message
  | DoRemove message_id
  | DoClaim inbox_target int
  | DoClear

fun run_inbox :: "inbox_state \<Rightarrow> inbox_command \<Rightarrow> (inbox_error, inbox_outcome) result" where
  "run_inbox s (DoSplice t i n ms) = mutate s t i n ms True"
| "run_inbox s (DoAppend t m) = inbox_append s t m"
| "run_inbox s (DoPrepend t m) = inbox_prepend s t m"
| "run_inbox s (DoReplace mid m) = rmap snd (inbox_replace s mid m)"
| "run_inbox s (DoRemove mid) = rmap snd (inbox_remove s mid)"
| "run_inbox s (DoClaim t turn) = inbox_claim s t turn"
| "run_inbox s DoClear = inbox_clear s"

definition commit_inbox :: "inbox_command \<Rightarrow> inbox_state \<Rightarrow> (inbox_error, inbox_splice list \<times> inbox_state) result" where
  "commit_inbox c s = rmap (\<lambda>r. (io_splices r, io_state r)) (run_inbox s c)"

section \<open>Identities stay unique and the replay follows\<close>

definition inbox_wf :: "inbox_state \<Rightarrow> bool" where
  "inbox_wf s \<longleftrightarrow> distinct (map um_id (ib_next_turn s @ ib_next_step s))"

lemma first_duplicate_None:
  "first_duplicate seen xs = None \<longleftrightarrow> distinct xs \<and> set seen \<inter> set xs = {}"
  by (induction xs arbitrary: seen) auto

lemma inbox_list_simps [simp]:
  "inbox_list s NextTurn = ib_next_turn s" "inbox_list s NextStep = ib_next_step s"
  "set_inbox_list s NextTurn xs = s\<lparr>ib_next_turn := xs\<rparr>" "set_inbox_list s NextStep xs = s\<lparr>ib_next_step := xs\<rparr>"
  by (simp_all add: inbox_list_def set_inbox_list_def)

lemma apply_splice_wf: "apply_splice s sp = Inr s' \<Longrightarrow> inbox_wf s'"
  by (cases "is_target sp")
    (auto simp: apply_splice_def validate_splice_def splice_state_def rmap_eq_Inr Let_def
      first_duplicate_None inbox_wf_def split: if_splits option.splits)

lemma mutate_apply:
  assumes "mutate s t i n ms d = Inr r"
  shows "fold_log apply_splice s (io_splices r) = Inr (io_state r)"
  using assms
  by (auto simp: mutate_def no_mutation_def apply_splice_def splice_state_def removed_count_def rmap_eq_Inr Let_def
      split: if_splits)

lemma then_mutate_apply:
  assumes "then_mutate m f = Inr r"
    and "\<And>a. m = Inr a \<Longrightarrow> fold_log apply_splice s (io_splices a) = Inr (io_state a)"
    and "\<And>a b. m = Inr a \<Longrightarrow> f (io_state a) = Inr b \<Longrightarrow> fold_log apply_splice (io_state a) (io_splices b) = Inr (io_state b)"
  shows "fold_log apply_splice s (io_splices r) = Inr (io_state r)"
  using assms by (auto simp: then_mutate_def rbind_eq_Inr rmap_eq_Inr fold_log_append)

lemma no_mutation_simps [simp]:
  "io_splices (no_mutation s) = []" "io_state (no_mutation s) = s"
  "io_notes (no_mutation s) = []" "io_removed (no_mutation s) = []"
  by (simp_all add: no_mutation_def)

lemma run_inbox_apply:
  assumes "run_inbox s c = Inr r"
  shows "fold_log apply_splice s (io_splices r) = Inr (io_state r)"
  using assms
proof (cases c)
  case (DoClaim t turn)
  then obtain r0 where r0: "then_mutate (mutate s NextStep (NInt 0) (nat_num (length (ib_next_step s))) [] False)
      (\<lambda>s'. if t = NextTurn then mutate s' NextTurn (NInt 0) (NInt 1) [] False else Inr (no_mutation s')) = Inr r0"
    and r: "io_splices r = io_splices r0" "io_state r = io_state r0"
    using assms by (auto simp: inbox_claim_def rmap_eq_Inr)
  have "fold_log apply_splice s (io_splices r0) = Inr (io_state r0)"
    using r0
  proof (rule then_mutate_apply)
    fix a b
    assume "(if t = NextTurn then mutate (io_state a) NextTurn (NInt 0) (NInt 1) [] False
        else Inr (no_mutation (io_state a))) = Inr b"
    then show "fold_log apply_splice (io_state a) (io_splices b) = Inr (io_state b)"
      by (cases t) (auto intro: mutate_apply)
  qed (rule mutate_apply)
  then show ?thesis by (simp add: r)
next
  case DoClear
  with assms have "then_mutate (mutate s NextStep (NInt 0) (nat_num (length (ib_next_step s))) [] True)
       (\<lambda>s'. mutate s' NextTurn (NInt 0) (nat_num (length (ib_next_turn s'))) [] True) = Inr r"
    by (simp add: inbox_clear_def)
  then show ?thesis by (rule then_mutate_apply) (erule mutate_apply)+
qed (auto simp: inbox_append_def inbox_prepend_def inbox_replace_def inbox_remove_def rmap_eq_Inr
      dest: mutate_apply split: option.splits prod.splits)

lemma empty_inbox_wf: "inbox_wf empty_inbox"
  by (simp add: inbox_wf_def empty_inbox_def)

interpretation inbox: live_projection empty_inbox apply_splice inbox_wf commit_inbox
proof
  show "inbox_wf empty_inbox" by (rule empty_inbox_wf)
  show "inbox_wf s'" if "inbox_wf s" "apply_splice s e = Inr s'" for s e s'
    using that(2) by (rule apply_splice_wf)
  show "fold_log apply_splice s evs = Inr s'" if "inbox_wf s" "commit_inbox c s = Inr (evs, s')" for s c evs s'
    using that(2) by (auto simp: commit_inbox_def rmap_eq_Inr dest: run_inbox_apply)
qed

text \<open>The splices of a log, whatever other events it carries between them.\<close>

definition logged_splices :: "event_log \<Rightarrow> inbox_splice list" where
  "logged_splices events = concat (map (\<lambda>e. case ev_data e of InboxSpliced sp \<Rightarrow> [sp] | _ \<Rightarrow> []) events)"

lemma logged_splices_simps [simp]:
  "logged_splices [] = []"
  "logged_splices (e # es) = (case ev_data e of InboxSpliced sp \<Rightarrow> [sp] | _ \<Rightarrow> []) @ logged_splices es"
  by (simp_all add: logged_splices_def)

lemma replay_logged_splices:
  "fold_log apply_splice s (logged_splices events) = Inr t \<Longrightarrow> fold_log replay_inbox_event s events = Inr t"
proof (induction events arbitrary: s)
  case (Cons e events)
  show ?case
  proof (cases "\<exists>sp. ev_data e = InboxSpliced sp")
    case True
    then obtain sp where sp: "ev_data e = InboxSpliced sp" by blast
    with Cons.prems obtain u where "apply_splice s sp = Inr u" "fold_log apply_splice u (logged_splices events) = Inr t"
      by (auto simp: rbind_eq_Inr)
    with sp Cons.IH show ?thesis by (simp add: replay_inbox_event_def map_error_def)
  next
    case False
    then have "replay_inbox_event s e = Inr s" "logged_splices (e # events) = logged_splices events"
      by (cases "ev_data e"; simp add: replay_inbox_event_def)+
    with Cons show ?thesis by simp
  qed
qed simp

lemma new_inbox_resumes:
  assumes "run_live commit_inbox empty_inbox cs = (splices, s)"
    and "logged_splices (drop (case sh_seed_length h of Some n \<Rightarrow> n | None \<Rightarrow> 0) events) = splices"
  shows "new_inbox h events = Inr s"
  unfolding new_inbox_def
  by (rule replay_logged_splices) (simp add: assms(2) inbox.replay_live [OF empty_inbox_wf assms(1)])

lemma new_inbox_wf: "new_inbox h events = Inr ib \<Longrightarrow> inbox_wf ib"
proof -
  have "inbox_wf ib \<Longrightarrow> fold_log replay_inbox_event ib es = Inr ib' \<Longrightarrow> inbox_wf ib'" for ib ib' es
    by (induction es arbitrary: ib)
      (auto simp: replay_inbox_event_def rbind_eq_Inr split: event_data.splits dest: apply_splice_wf)
  then show "new_inbox h events = Inr ib \<Longrightarrow> inbox_wf ib"
    unfolding new_inbox_def using empty_inbox_wf by blast
qed

lemma new_inbox_more:
  assumes "new_inbox h es = Inr ib" "(case sh_seed_length h of Some n \<Rightarrow> n | None \<Rightarrow> 0) \<le> length es"
  shows "new_inbox h (es @ later) = fold_log replay_inbox_event ib later"
  using assms by (simp add: new_inbox_def fold_log_append)

section \<open>No message is lost or invented\<close>

definition pending :: "inbox_state \<Rightarrow> user_message multiset" where
  "pending s = mset (ib_next_turn s) + mset (ib_next_step s)"

fun note_inserted :: "notification \<Rightarrow> user_message list" where
  "note_inserted (Inserted m) = [m]"
| "note_inserted _ = []"

fun note_gone :: "notification \<Rightarrow> user_message list" where
  "note_gone (Inserted m) = []"
| "note_gone (Discarded m) = [m]"
| "note_gone (Claimed m _) = [m]"

definition inserted_of :: "notification list \<Rightarrow> user_message multiset" where
  "inserted_of notes = mset (concat (map note_inserted notes))"

definition gone_of :: "notification list \<Rightarrow> user_message multiset" where
  "gone_of notes = mset (concat (map note_gone notes))"

lemma notes_append [simp]:
  "inserted_of (xs @ ys) = inserted_of xs + inserted_of ys"
  "gone_of (xs @ ys) = gone_of xs + gone_of ys"
  by (simp_all add: inserted_of_def gone_of_def)

lemma notes_map [simp]:
  "inserted_of (map Inserted ms) = mset ms" "gone_of (map Inserted ms) = {#}"
  "inserted_of (map Discarded ms) = {#}" "gone_of (map Discarded ms) = mset ms"
  "inserted_of (map (\<lambda>m. Claimed m t) ms) = {#}" "gone_of (map (\<lambda>m. Claimed m t) ms) = mset ms"
  "inserted_of [] = {#}" "gone_of [] = {#}"
  by (induction ms) (simp_all add: inserted_of_def gone_of_def)

lemma actual_start_le: "actual_start len start \<le> len"
  by (auto simp: actual_start_def split: jsnum.splits)

lemma actual_delete_count_le: "actual_delete_count room n \<le> room"
  by (auto simp: actual_delete_count_def split: jsnum.splits)

lemma mset_js_splice:
  assumes "i + n \<le> length xs"
  shows "mset (js_splice xs i n ys) + mset (slice xs i (i + n)) = mset xs + mset ys"
proof -
  have "mset xs = mset (take i xs @ slice xs i (i + n) @ drop (i + n) xs)"
    by (simp add: slice_partition)
  then show ?thesis by (simp add: js_splice_def)
qed

lemma mutate_accounts:
  assumes "mutate s t i n ms d = Inr r"
  shows "pending (io_state r) + mset (io_removed r) = pending s + inserted_of (io_notes r)"
    and "gone_of (io_notes r) = (if d then mset (io_removed r) else {#})"
proof -
  let ?inbox = "inbox_list s t"
  let ?i = "actual_start (length ?inbox) i"
  let ?n = "actual_delete_count (length ?inbox - ?i) n"
  have room: "?i + ?n \<le> length ?inbox"
    using actual_start_le [of "length ?inbox" i] actual_delete_count_le [of "length ?inbox - ?i" n] by linarith
  note conserve = mset_js_splice [OF room, of ms]
  from assms show "pending (io_state r) + mset (io_removed r) = pending s + inserted_of (io_notes r)"
    using conserve
    by (cases t) (auto simp: mutate_def Let_def pending_def rmap_eq_Inr ac_simps split: if_splits)
  from assms show "gone_of (io_notes r) = (if d then mset (io_removed r) else {#})"
    by (auto simp: mutate_def Let_def rmap_eq_Inr split: if_splits)
qed

definition accounts :: "inbox_state \<Rightarrow> inbox_outcome \<Rightarrow> bool" where
  "accounts s r \<longleftrightarrow> pending s + inserted_of (io_notes r) = pending (io_state r) + gone_of (io_notes r)"

lemma sum_balances:
  fixes p q r :: "'a multiset"
  assumes "q + x = p + i" "r + y = q + j"
  shows "p + (i + j) = r + (x + y)"
proof -
  have "p + (i + j) = (q + x) + j" using assms(1) by (simp add: ac_simps)
  also have "\<dots> = (q + j) + x" by (simp add: ac_simps)
  also have "\<dots> = r + (x + y)" using assms(2) [symmetric] by (simp add: ac_simps)
  finally show ?thesis .
qed

lemma accounts_none: "accounts s (no_mutation s)"
  by (simp add: accounts_def)

lemma mutate_discard_accounts: "mutate s t i n ms True = Inr r \<Longrightarrow> accounts s r"
  using mutate_accounts [of s t i n ms True r] by (simp add: accounts_def)

lemma then_mutate_accounts:
  assumes "then_mutate m f = Inr r"
    and "\<And>a. m = Inr a \<Longrightarrow> accounts s a" "\<And>a b. m = Inr a \<Longrightarrow> f (io_state a) = Inr b \<Longrightarrow> accounts (io_state a) b"
  shows "accounts s r"
proof -
  from assms(1) obtain a b where ab: "m = Inr a" "f (io_state a) = Inr b"
    and r: "io_notes r = io_notes a @ io_notes b" "io_state r = io_state b"
    by (auto simp: then_mutate_def rbind_eq_Inr rmap_eq_Inr)
  have "pending (io_state a) + gone_of (io_notes a) = pending s + inserted_of (io_notes a)"
    "pending (io_state b) + gone_of (io_notes b) = pending (io_state a) + inserted_of (io_notes b)"
    using assms(2) [OF ab(1)] assms(3) [OF ab] by (simp_all add: accounts_def)
  from sum_balances [OF this] show ?thesis by (simp add: accounts_def r ac_simps)
qed

lemma claim_parts:
  assumes "inbox_claim s t turn = Inr r"
  obtains a b where "mutate s NextStep (NInt 0) (nat_num (length (ib_next_step s))) [] False = Inr a"
    "(if t = NextTurn then mutate (io_state a) NextTurn (NInt 0) (NInt 1) [] False
      else Inr (no_mutation (io_state a))) = Inr b"
    "io_removed r = io_removed a @ io_removed b" "io_state r = io_state b"
    "io_notes r = io_notes a @ io_notes b @ map (\<lambda>m. Claimed m turn) (io_removed a @ io_removed b)"
  using assms by (auto simp: inbox_claim_def then_mutate_def rbind_eq_Inr rmap_eq_Inr)

lemma claim_accounts:
  assumes "inbox_claim s t turn = Inr r"
  shows "accounts s r"
  using assms
proof (cases rule: claim_parts)
  case (1 a b)
  have a: "pending (io_state a) + mset (io_removed a) = pending s + inserted_of (io_notes a)" "gone_of (io_notes a) = {#}"
    using mutate_accounts [OF 1(1)] by simp_all
  have b: "pending (io_state b) + mset (io_removed b) = pending (io_state a) + inserted_of (io_notes b)" "gone_of (io_notes b) = {#}"
    using mutate_accounts [of "io_state a" NextTurn "NInt 0" "NInt 1" "[]" False b] 1(2) by (auto split: if_splits)
  have "pending s + (inserted_of (io_notes a) + inserted_of (io_notes b))
      = pending (io_state b) + (mset (io_removed a) + mset (io_removed b))"
    using sum_balances [OF a(1) b(1)] by (simp add: ac_simps)
  then show ?thesis using a(2) b(2) by (simp add: accounts_def 1(4,5))
qed

lemma run_inbox_accounts:
  assumes "run_inbox s c = Inr r"
  shows "accounts s r"
proof (cases c)
  case (DoSplice t i n ms)
  with assms show ?thesis by (auto intro: mutate_discard_accounts)
next
  case (DoAppend t m)
  with assms show ?thesis by (auto simp: inbox_append_def intro: mutate_discard_accounts)
next
  case (DoPrepend t m)
  with assms show ?thesis by (auto simp: inbox_prepend_def intro: mutate_discard_accounts)
next
  case (DoReplace mid m)
  with assms accounts_none show ?thesis
    by (auto simp: inbox_replace_def rmap_eq_Inr split: option.splits dest: mutate_discard_accounts)
next
  case (DoRemove mid)
  with assms accounts_none show ?thesis
    by (auto simp: inbox_remove_def rmap_eq_Inr split: option.splits dest: mutate_discard_accounts)
next
  case (DoClaim t turn)
  with assms show ?thesis by (auto intro: claim_accounts)
next
  case DoClear
  with assms have "then_mutate (mutate s NextStep (NInt 0) (nat_num (length (ib_next_step s))) [] True)
       (\<lambda>s'. mutate s' NextTurn (NInt 0) (nat_num (length (ib_next_turn s'))) [] True) = Inr r"
    by (simp add: inbox_clear_def)
  then show ?thesis by (rule then_mutate_accounts) (erule mutate_discard_accounts)+
qed

fun inbox_history :: "inbox_state \<Rightarrow> inbox_command list \<Rightarrow> notification list \<times> inbox_state" where
  "inbox_history s [] = ([], s)"
| "inbox_history s (c # cs) =
     (case run_inbox s c of
        Inl _ \<Rightarrow> inbox_history s cs
      | Inr r \<Rightarrow> (case inbox_history (io_state r) cs of (ns, s') \<Rightarrow> (io_notes r @ ns, s')))"

lemma inbox_history_accounts:
  "inbox_history s cs = (ns, s') \<Longrightarrow> pending s + inserted_of ns = pending s' + gone_of ns"
proof (induction cs arbitrary: s ns)
  case Nil
  then show ?case by auto
next
  case (Cons c cs)
  show ?case
  proof (cases "run_inbox s c")
    case (Inl e)
    with Cons show ?thesis by auto
  next
    case (Inr r)
    obtain rest where rest: "inbox_history (io_state r) cs = (rest, s')" and ns: "ns = io_notes r @ rest"
      using Cons.prems Inr by (auto split: prod.splits)
    have "pending (io_state r) + gone_of (io_notes r) = pending s + inserted_of (io_notes r)"
      using run_inbox_accounts [OF Inr] by (simp add: accounts_def)
    from sum_balances [OF this Cons.IH [OF rest, symmetric]] show ?thesis by (simp add: ns)
  qed
qed

section \<open>What a claim takes\<close>

lemma distinct_prefix_ids: "inbox_wf s \<Longrightarrow> distinct (map um_id (ib_next_turn s)) \<and> distinct (map um_id (ib_next_step s))"
  by (simp add: inbox_wf_def)

lemma take_front_mutate:
  assumes "inbox_wf s" "k \<le> length (inbox_list s t)" "safe_int (int k)"
  shows "\<exists>r. mutate s t (NInt 0) (nat_num k) [] False = Inr r \<and> io_removed r = take k (inbox_list s t)
    \<and> io_state r = set_inbox_list s t (drop k (inbox_list s t))"
proof (cases "k = 0")
  case True
  then show ?thesis
    by (cases t) (simp_all add: mutate_def actual_start_def actual_delete_count_def nan_to_zero_def nat_num_def)
next
  case False
  have "safe_int 0" by (simp add: safe_int_def max_safe_integer_def)
  moreover have "distinct (map um_id (drop k (ib_next_turn s) @ ib_next_step s))"
    "distinct (map um_id (ib_next_turn s @ drop k (ib_next_step s)))"
    using assms(1) by (auto simp: inbox_wf_def drop_map [symmetric] dest!: in_set_dropD)
  ultimately show ?thesis using False assms
    by (cases t)
      (simp_all add: mutate_def actual_start_def actual_delete_count_def nan_to_zero_def nat_num_def Let_def
        validate_splice_def removed_count_def js_splice_def slice_def first_duplicate_None
        split: option.splits)
qed

lemma inbox_claim_takes:
  assumes "inbox_wf s" "safe_int (int (length (ib_next_step s)))"
  shows "\<exists>r. inbox_claim s t turn = Inr r
    \<and> io_removed r = ib_next_step s @ (if t = NextTurn then take 1 (ib_next_turn s) else [])
    \<and> io_state r = \<lparr>ib_next_turn = (if t = NextTurn then drop 1 (ib_next_turn s) else ib_next_turn s), ib_next_step = []\<rparr>"
proof -
  obtain a where a: "mutate s NextStep (NInt 0) (nat_num (length (ib_next_step s))) [] False = Inr a"
    "io_removed a = ib_next_step s" "io_state a = s\<lparr>ib_next_step := []\<rparr>"
    using take_front_mutate [of s "length (ib_next_step s)" NextStep] assms by auto
  have wf: "inbox_wf (io_state a)" using assms(1) a(3) by (simp add: inbox_wf_def)
  have one: "\<exists>b. mutate s' NextTurn (NInt 0) (NInt 1) [] False = Inr b \<and> io_removed b = take 1 (ib_next_turn s')
      \<and> io_state b = s'\<lparr>ib_next_turn := drop 1 (ib_next_turn s')\<rparr>" if "inbox_wf s'" for s'
  proof (cases "ib_next_turn s' = []")
    case True
    then show ?thesis
      by (simp add: mutate_def actual_start_def actual_delete_count_def nan_to_zero_def)
  next
    case False
    then have "1 \<le> length (inbox_list s' NextTurn)" by (simp add: Suc_le_eq)
    moreover have "safe_int (int 1)" by (simp add: safe_int_def max_safe_integer_def)
    ultimately show ?thesis using take_front_mutate [OF that, of 1 NextTurn] by (simp add: nat_num_def)
  qed
  show ?thesis
  proof (cases t)
    case NextStep
    then show ?thesis using a by (simp add: inbox_claim_def then_mutate_def)
  next
    case NextTurn
    then show ?thesis using a one [OF wf] by (auto simp: inbox_claim_def then_mutate_def)
  qed
qed

end
