(* ===== verification/Chunk_Rows.thy ===== *)
theory Chunk_Rows
  imports Surface
begin

text \<open>
  Lossless storage packing of streaming delta runs (\<open>packages/core/session/src/chunk-rows.ts\<close>).
  Encoder and decoder work on JSON, because their inputs are structural: a packed run expands
  to events deeply equal to the originals, and everything else passes through verbatim. The
  fields of a whitelisted event are read once into a \<open>delta\<close> record; the event itself is kept
  beside it, as the code does, for the runs that stay unpacked.
\<close>

section \<open>Whitelisted events\<close>

datatype delta_kind = TextDeltaKind | ReasoningDeltaKind | ToolCallDeltaKind

record delta =
  de_kind :: delta_kind
  de_seq :: nat
  de_time :: int
  de_turn :: jsnum
  de_step :: jsnum
  de_index :: jsnum
  de_id :: string
  de_name :: "string option"
  de_text :: string

definition min_run :: nat where
  "min_run = 3"

fun number_of :: "json option \<Rightarrow> jsnum option" where
  "number_of (Some (JNum n)) = Some n"
| "number_of _ = None"

definition obj_field :: "(string \<times> json) list \<Rightarrow> string \<Rightarrow> (string \<times> json) list option" where
  "obj_field r k = (case map_of r k of Some (JObj o') \<Rightarrow> Some o' | _ \<Rightarrow> None)"

text \<open>The chunk's own fields: kind, block index, call id and name, payload fragment.\<close>

definition classify_chunk ::
    "(string \<times> json) list \<Rightarrow> (delta_kind \<times> jsnum \<times> string \<times> string option \<times> string) option" where
  "classify_chunk c =
     (case number_of (map_of c ''index'') of
        None \<Rightarrow> None
      | Some index \<Rightarrow>
          (case as_string (map_of c ''type'') of
             None \<Rightarrow> None
           | Some t \<Rightarrow>
               (if t = ''text-delta'' \<or> t = ''reasoning-delta'' then
                  (case as_string (map_of c ''text'') of
                     Some s \<Rightarrow>
                       (if has_exact_keys c [''type'', ''index'', ''text'']
                        then Some (if t = ''text-delta'' then TextDeltaKind else ReasoningDeltaKind, index, [], None, s)
                        else None)
                   | None \<Rightarrow> None)
                else if t = ''tool-call-delta'' then
                  (case (as_string (map_of c ''id''), as_string (map_of c ''argumentsDelta'')) of
                     (Some cid, Some s) \<Rightarrow>
                       (if has_exact_keys c [''type'', ''index'', ''id'', ''argumentsDelta'']
                        then Some (ToolCallDeltaKind, index, cid, None, s)
                        else if has_exact_keys c [''type'', ''index'', ''id'', ''name'', ''argumentsDelta'']
                        then (case as_string (map_of c ''name'') of
                                Some nm \<Rightarrow> Some (ToolCallDeltaKind, index, cid, Some nm, s)
                              | None \<Rightarrow> None)
                        else None)
                   | _ \<Rightarrow> None)
                else None)))"

definition classify :: "json \<Rightarrow> delta option" where
  "classify event =
     (case event of
        JObj e \<Rightarrow>
          (if map_of e ''type'' \<noteq> Some (JStr ''assistant/chunk'')
               \<or> \<not> has_exact_keys e [''type'', ''seq'', ''time'', ''data''] then None
           else (case (map_option event_seq_of (map_of e ''seq''), safe_int_of (map_of e ''time''), obj_field e ''data'') of
                   (Some (Some n), Some t, Some data) \<Rightarrow>
                     (if \<not> has_exact_keys data [''turn'', ''step'', ''chunk''] then None
                      else (case (number_of (map_of data ''turn''), number_of (map_of data ''step''), obj_field data ''chunk'') of
                              (Some turn, Some step, Some c) \<Rightarrow>
                                map_option
                                  (\<lambda>(k, index, cid, nm, s).
                                     \<lparr>de_kind = k, de_seq = n, de_time = t, de_turn = turn, de_step = step,
                                      de_index = index, de_id = cid, de_name = nm, de_text = s\<rparr>)
                                  (classify_chunk c)
                            | _ \<Rightarrow> None))
                 | _ \<Rightarrow> None))
      | _ \<Rightarrow> None)"

section \<open>Packing\<close>

definition js_same :: "jsnum \<Rightarrow> jsnum \<Rightarrow> bool" where
  "js_same a b \<longleftrightarrow> a = b \<and> a \<noteq> NNaN"

definition continues :: "delta \<Rightarrow> delta \<Rightarrow> delta_kind \<Rightarrow> bool" where
  "continues prev nxt k =
     (if de_seq nxt \<noteq> de_seq prev + 1 then False
      else if \<not> safe_int (de_time nxt - de_time prev) then False
      else if \<not> js_same (de_turn nxt) (de_turn prev) \<or> \<not> js_same (de_step nxt) (de_step prev) then False
      else if \<not> js_same (de_index nxt) (de_index prev) then False
      else if k \<noteq> ToolCallDeltaKind then True
      else de_id prev = de_id nxt \<and> de_name prev = de_name nxt)"

record chunk_row =
  cr_kind :: delta_kind
  cr_seq0 :: nat
  cr_time0 :: int
  cr_turn :: jsnum
  cr_step :: jsnum
  cr_index :: jsnum
  cr_id :: string
  cr_name :: "string option"
  cr_dt :: "int list"
  cr_members :: "string list"

fun gaps :: "int list \<Rightarrow> int list" where
  "gaps (a # b # rest) = (b - a) # gaps (b # rest)"
| "gaps _ = []"

definition build_row :: "delta_kind \<Rightarrow> delta list \<Rightarrow> chunk_row" where
  "build_row k run =
     (let first = run ! 0 in
      \<lparr>cr_kind = k, cr_seq0 = de_seq first, cr_time0 = de_time first, cr_turn = de_turn first,
       cr_step = de_step first, cr_index = de_index first, cr_id = de_id first, cr_name = de_name first,
       cr_dt = gaps (map de_time run), cr_members = map de_text run\<rparr>)"

definition int_json :: "int \<Rightarrow> json" where
  "int_json i = JNum (NInt i)"

fun row_tag :: "delta_kind \<Rightarrow> string" where
  "row_tag TextDeltaKind = ''text-chunks''"
| "row_tag ReasoningDeltaKind = ''reasoning-chunks''"
| "row_tag ToolCallDeltaKind = ''tool-call-chunks''"

definition row_json :: "chunk_row \<Rightarrow> json" where
  "row_json r =
     (let base = [(''turn'', JNum (cr_turn r)), (''step'', JNum (cr_step r)), (''index'', JNum (cr_index r)),
                  (''dt'', JArr (map int_json (cr_dt r)))];
          members = JArr (map JStr (cr_members r));
          data = (if cr_kind r = ToolCallDeltaKind
                  then base @ [(''id'', JStr (cr_id r))]
                    @ (case cr_name r of Some nm \<Rightarrow> [(''name'', JStr nm)] | None \<Rightarrow> [])
                    @ [(''args'', members)]
                  else base @ [(''texts'', members)])
      in JObj [(''type'', JStr (row_tag (cr_kind r))), (''seq0'', int_json (int (cr_seq0 r))),
               (''time0'', int_json (cr_time0 r)), (''data'', JObj data)])"

type_synonym pack_state = "json list \<times> delta_kind option \<times> (json \<times> delta) list"

definition flush_run :: "pack_state \<Rightarrow> json list" where
  "flush_run p =
     (case p of (out, kind, run) \<Rightarrow>
        (case kind of
           Some k \<Rightarrow> if min_run \<le> length run then out @ [row_json (build_row k (map snd run))]
                     else out @ map fst run
         | None \<Rightarrow> out @ map fst run))"

definition pack_step :: "pack_state \<Rightarrow> json \<Rightarrow> pack_state" where
  "pack_step p event =
     (case p of (out, kind, run) \<Rightarrow>
        (case classify event of
           None \<Rightarrow> (flush_run p @ [event], None, [])
         | Some d \<Rightarrow>
             (if kind = Some (de_kind d) \<and> run \<noteq> [] \<and> continues (snd (last run)) d (de_kind d)
              then (out, kind, run @ [(event, d)])
              else (flush_run p, Some (de_kind d), [(event, d)]))))"

definition pack_chunk_runs :: "json list \<Rightarrow> json list" where
  "pack_chunk_runs events = flush_run (foldl pack_step ([], None, []) events)"

section \<open>Decoding\<close>

datatype row_error =
    RowEnvelope
  | RowSeq0
  | RowTime0
  | RowData
  | RowDataKeys
  | RowCallFields
  | RowNumbers
  | RowPayload
  | RowGaps
  | RowArity
  | RowSeqBound
  | RowTimeBound

fun strings_of :: "json list \<Rightarrow> string list option" where
  "strings_of [] = Some []"
| "strings_of (JStr s # js) = map_option ((#) s) (strings_of js)"
| "strings_of (_ # js) = None"

fun ints_of :: "json list \<Rightarrow> int list option" where
  "ints_of [] = Some []"
| "ints_of (j # js) =
     (case safe_int_of (Some j) of Some i \<Rightarrow> map_option ((#) i) (ints_of js) | None \<Rightarrow> None)"

definition array_of :: "json option \<Rightarrow> json list option" where
  "array_of j = (case j of Some (JArr xs) \<Rightarrow> Some xs | _ \<Rightarrow> None)"

text \<open>The numbers, members and gaps of a row's data.\<close>

definition validate_run_data ::
    "(string \<times> json) list \<Rightarrow> string \<Rightarrow> (row_error, (jsnum \<times> jsnum \<times> jsnum) \<times> string list \<times> int list) result" where
  "validate_run_data data payload_key =
     (case (number_of (map_of data ''turn''), number_of (map_of data ''step''), number_of (map_of data ''index'')) of
        (Some turn, Some step, Some index) \<Rightarrow>
          (case Option.bind (array_of (map_of data payload_key)) strings_of of
             Some (m # ms) \<Rightarrow>
               (case Option.bind (array_of (map_of data ''dt'')) ints_of of
                  Some dt \<Rightarrow>
                    (if length dt \<noteq> length (m # ms) - 1 then Inl RowArity
                     else Inr ((turn, step, index), m # ms, dt))
                | None \<Rightarrow> Inl RowGaps)
           | _ \<Rightarrow> Inl RowPayload)
      | _ \<Rightarrow> Inl RowNumbers)"

fun times_safe :: "int \<Rightarrow> int list \<Rightarrow> bool" where
  "times_safe t [] = True"
| "times_safe t (g # gs) = (safe_int (t + g) \<and> times_safe (t + g) gs)"

definition validate_row_data ::
    "(string \<times> json) list \<Rightarrow> delta_kind
       \<Rightarrow> (row_error, (string \<times> string option) \<times> (jsnum \<times> jsnum \<times> jsnum) \<times> string list \<times> int list) result" where
  "validate_row_data data k =
     (if k = ToolCallDeltaKind then
        (let with_name = has_exact_keys data [''turn'', ''step'', ''index'', ''id'', ''name'', ''dt'', ''args''] in
         if \<not> with_name \<and> \<not> has_exact_keys data [''turn'', ''step'', ''index'', ''id'', ''dt'', ''args'']
         then Inl RowDataKeys
         else (case as_string (map_of data ''id'') of
                 None \<Rightarrow> Inl RowCallFields
               | Some cid \<Rightarrow>
                   (if with_name \<and> as_string (map_of data ''name'') = None then Inl RowCallFields
                    else rmap (Pair (cid, as_string (map_of data ''name''))) (validate_run_data data ''args''))))
      else
        (if \<not> has_exact_keys data [''turn'', ''step'', ''index'', ''dt'', ''texts''] then Inl RowDataKeys
         else rmap (Pair ([], None)) (validate_run_data data ''texts'')))"

definition validate_row :: "(string \<times> json) list \<Rightarrow> delta_kind \<Rightarrow> (row_error, chunk_row) result" where
  "validate_row v k =
     (if \<not> has_exact_keys v [''type'', ''seq0'', ''time0'', ''data''] then Inl RowEnvelope
      else (case Option.bind (map_of v ''seq0'') event_seq_of of
              None \<Rightarrow> Inl RowSeq0
            | Some seq0 \<Rightarrow>
                (case safe_int_of (map_of v ''time0'') of
                   None \<Rightarrow> Inl RowTime0
                 | Some time0 \<Rightarrow>
                     (case obj_field v ''data'' of
                        None \<Rightarrow> Inl RowData
                      | Some data \<Rightarrow>
                          rbind (validate_row_data data k)
                            (\<lambda>((cid, nm), (turn, step, index), members, dt).
                               if \<not> safe_int (int seq0 + int (length members) - 1) then Inl RowSeqBound
                               else if \<not> times_safe time0 dt then Inl RowTimeBound
                               else Inr \<lparr>cr_kind = k, cr_seq0 = seq0, cr_time0 = time0, cr_turn = turn,
                                         cr_step = step, cr_index = index, cr_id = cid, cr_name = nm,
                                         cr_dt = dt, cr_members = members\<rparr>)))))"

text \<open>One reconstructed event, with the keys in the order the decoder writes them.\<close>

definition chunk_json :: "delta_kind \<Rightarrow> jsnum \<Rightarrow> string \<Rightarrow> string option \<Rightarrow> string \<Rightarrow> json" where
  "chunk_json k index cid nm s =
     JObj (case k of
        TextDeltaKind \<Rightarrow> [(''type'', JStr ''text-delta''), (''index'', JNum index), (''text'', JStr s)]
      | ReasoningDeltaKind \<Rightarrow> [(''type'', JStr ''reasoning-delta''), (''index'', JNum index), (''text'', JStr s)]
      | ToolCallDeltaKind \<Rightarrow>
          [(''type'', JStr ''tool-call-delta''), (''index'', JNum index), (''id'', JStr cid)]
          @ (case nm of Some n \<Rightarrow> [(''name'', JStr n)] | None \<Rightarrow> [])
          @ [(''argumentsDelta'', JStr s)])"

definition delta_json :: "delta \<Rightarrow> json" where
  "delta_json d =
     JObj [(''type'', JStr ''assistant/chunk''), (''seq'', int_json (int (de_seq d))), (''time'', int_json (de_time d)),
           (''data'', JObj [(''turn'', JNum (de_turn d)), (''step'', JNum (de_step d)),
              (''chunk'', chunk_json (de_kind d) (de_index d) (de_id d) (de_name d) (de_text d))])]"

fun expand_members :: "chunk_row \<Rightarrow> nat \<Rightarrow> int \<Rightarrow> int list \<Rightarrow> string list \<Rightarrow> json list" where
  "expand_members r n t dt [] = []"
| "expand_members r n t dt (m # ms) =
     delta_json \<lparr>de_kind = cr_kind r, de_seq = n, de_time = t, de_turn = cr_turn r, de_step = cr_step r,
                 de_index = cr_index r, de_id = cr_id r, de_name = cr_name r, de_text = m\<rparr>
     # expand_members r (Suc n) (case dt of g # _ \<Rightarrow> t + g | [] \<Rightarrow> t) (tl dt) ms"

definition expand_row :: "chunk_row \<Rightarrow> json list" where
  "expand_row r = expand_members r (cr_seq0 r) (cr_time0 r) (cr_dt r) (cr_members r)"

definition row_kind :: "json option \<Rightarrow> delta_kind option" where
  "row_kind t =
     (if t = Some (JStr ''text-chunks'') then Some TextDeltaKind
      else if t = Some (JStr ''reasoning-chunks'') then Some ReasoningDeltaKind
      else if t = Some (JStr ''tool-call-chunks'') then Some ToolCallDeltaKind
      else None)"

definition decode_storage_record :: "json \<Rightarrow> (row_error, json list) result" where
  "decode_storage_record v =
     (case v of
        JObj r \<Rightarrow>
          (case row_kind (map_of r ''type'') of
             Some k \<Rightarrow> rmap expand_row (validate_row r k)
           | None \<Rightarrow> Inr [v])
      | _ \<Rightarrow> Inr [v])"

definition decode_records :: "json list \<Rightarrow> (row_error, json list) result" where
  "decode_records rs = rmap concat (traverse decode_storage_record rs)"

section \<open>A whitelisted event is its reconstruction, up to key order\<close>

lemma number_of_eq_Some [simp]: "number_of j = Some n \<longleftrightarrow> j = Some (JNum n)"
  by (cases j rule: number_of.cases) auto

lemma as_string_eq_Some [simp]: "as_string j = Some s \<longleftrightarrow> j = Some (JStr s)"
  by (cases j rule: as_string.cases) auto

lemma obj_field_eq_Some [simp]: "obj_field r k = Some o' \<longleftrightarrow> map_of r k = Some (JObj o')"
  by (auto simp: obj_field_def split: option.splits json.splits)

lemma safe_int_of_eq_Some [simp]: "safe_int_of j = Some i \<longleftrightarrow> j = Some (JNum (NInt i)) \<and> safe_int i"
  by (cases j rule: safe_int_of.cases) auto

lemma event_seq_of_eq_Some [simp]: "event_seq_of v = Some n \<longleftrightarrow> v = JNum (NInt (int n)) \<and> safe_int (int n)"
  by (auto simp: event_seq_of_def split: option.splits if_splits)

text \<open>Deep equality with a reconstruction that has the same keys, field by field.\<close>

lemma deep_equal_by_fields:
  assumes "has_exact_keys kvs (map fst lvs)" "distinct (map fst lvs)" "json_wf (JObj kvs)"
    and "\<And>k v w. map_of kvs k = Some v \<Longrightarrow> map_of lvs k = Some w \<Longrightarrow> is_deep_equal_json v w"
  shows "is_deep_equal_json (JObj kvs) (JObj lvs)"
proof -
  have len: "length kvs = length lvs" using assms(1) by (simp add: has_exact_keys_def)
  have keys: "fst ` set kvs = fst ` set lvs"
    using has_exact_keys_keys [OF assms(1,2)] by simp
  have "\<exists>w. map_of lvs k = Some w \<and> is_deep_equal_json v w" if mem: "(k, v) \<in> set kvs" for k v
  proof -
    have kv: "map_of kvs k = Some v"
      using mem assms(3) by (simp add: json_wf_obj_distinct)
    have "k \<in> fst ` set lvs" using mem keys by force
    then obtain w where "map_of lvs k = Some w"
      by (metis map_of_eq_None_iff option.exhaust)
    with kv assms(4) show ?thesis by blast
  qed
  with len show ?thesis by (auto simp: deep_equal_obj_iff)
qed

lemma classify_chunk_deep_equal:
  assumes "classify_chunk c = Some (k, index, cid, nm, s)" "json_wf (JObj c)"
  shows "is_deep_equal_json (JObj c) (chunk_json k index cid nm s)"
proof -
  have wf: "json_wf v" if "map_of c key = Some v" for key v
    using that assms(2) by (auto intro: json_wf_get)
  from assms(1) consider
      (plain) t where "t = ''text-delta'' \<and> k = TextDeltaKind \<or> t = ''reasoning-delta'' \<and> k = ReasoningDeltaKind"
        "map_of c ''type'' = Some (JStr t)" "map_of c ''index'' = Some (JNum index)"
        "map_of c ''text'' = Some (JStr s)" "has_exact_keys c [''type'', ''index'', ''text'']"
    | (tool) "k = ToolCallDeltaKind" "nm = None" "map_of c ''type'' = Some (JStr ''tool-call-delta'')"
        "map_of c ''index'' = Some (JNum index)" "map_of c ''id'' = Some (JStr cid)"
        "map_of c ''argumentsDelta'' = Some (JStr s)"
        "has_exact_keys c [''type'', ''index'', ''id'', ''argumentsDelta'']"
    | (named) n where "k = ToolCallDeltaKind" "nm = Some n" "map_of c ''type'' = Some (JStr ''tool-call-delta'')"
        "map_of c ''index'' = Some (JNum index)" "map_of c ''id'' = Some (JStr cid)"
        "map_of c ''name'' = Some (JStr n)" "map_of c ''argumentsDelta'' = Some (JStr s)"
        "has_exact_keys c [''type'', ''index'', ''id'', ''name'', ''argumentsDelta'']"
    by (auto simp: classify_chunk_def split: option.splits if_splits)
  then show ?thesis
  proof cases
    case plain
    have "is_deep_equal_json (JObj c) (JObj [(''type'', JStr t), (''index'', JNum index), (''text'', JStr s)])"
      by (rule deep_equal_by_fields) (use plain assms(2) wf [OF plain(3)] in \<open>auto split: if_splits jsnum.splits\<close>)
    with plain(1) show ?thesis by (auto simp: chunk_json_def)
  next
    case tool
    have "is_deep_equal_json (JObj c) (JObj [(''type'', JStr ''tool-call-delta''), (''index'', JNum index),
        (''id'', JStr cid), (''argumentsDelta'', JStr s)])"
      by (rule deep_equal_by_fields) (use tool assms(2) wf [OF tool(4)] in \<open>auto split: if_splits jsnum.splits\<close>)
    with tool(1,2) show ?thesis by (simp add: chunk_json_def)
  next
    case named
    have "is_deep_equal_json (JObj c) (JObj [(''type'', JStr ''tool-call-delta''), (''index'', JNum index),
        (''id'', JStr cid), (''name'', JStr n), (''argumentsDelta'', JStr s)])"
      by (rule deep_equal_by_fields) (use named assms(2) wf [OF named(4)] in \<open>auto split: if_splits jsnum.splits\<close>)
    with named(1,2) show ?thesis by (simp add: chunk_json_def)
  qed
qed

lemma classifyD:
  assumes "classify event = Some d"
  obtains e data c where "event = JObj e"
    "map_of e ''type'' = Some (JStr ''assistant/chunk'')" "has_exact_keys e [''type'', ''seq'', ''time'', ''data'']"
    "map_of e ''seq'' = Some (int_json (int (de_seq d)))" "safe_int (int (de_seq d))"
    "map_of e ''time'' = Some (int_json (de_time d))" "safe_int (de_time d)"
    "map_of e ''data'' = Some (JObj data)" "has_exact_keys data [''turn'', ''step'', ''chunk'']"
    "map_of data ''turn'' = Some (JNum (de_turn d))" "map_of data ''step'' = Some (JNum (de_step d))"
    "map_of data ''chunk'' = Some (JObj c)"
    "classify_chunk c = Some (de_kind d, de_index d, de_id d, de_name d, de_text d)"
  using assms
  by (auto simp: classify_def int_json_def split: json.splits if_splits option.splits)

lemma classify_deep_equal:
  assumes "classify event = Some d" "json_wf event"
  shows "is_deep_equal_json event (delta_json d)"
  using assms(1)
proof (cases rule: classifyD)
  case (1 e data c)
  have wf: "json_wf_obj e" using assms(2) 1(1) by simp
  have wf_data: "json_wf (JObj data)" using json_wf_get [OF wf 1(8)] .
  then have wf_d: "json_wf_obj data" by simp
  have wf_c: "json_wf (JObj c)" using json_wf_get [OF wf_d 1(12)] .
  note nums = json_wf_get [OF wf_d 1(10)] json_wf_get [OF wf_d 1(11)]
  have chunk: "is_deep_equal_json (JObj c) (chunk_json (de_kind d) (de_index d) (de_id d) (de_name d) (de_text d))"
    using classify_chunk_deep_equal [OF 1(13) wf_c] .
  have data: "is_deep_equal_json (JObj data) (JObj [(''turn'', JNum (de_turn d)), (''step'', JNum (de_step d)),
      (''chunk'', chunk_json (de_kind d) (de_index d) (de_id d) (de_name d) (de_text d))])"
    by (rule deep_equal_by_fields)
      (use 1(9-12) wf_data nums chunk in \<open>auto simp del: is_deep_equal_json.simps(6) split: if_splits jsnum.splits\<close>)
  have "is_deep_equal_json (JObj e) (JObj [(''type'', JStr ''assistant/chunk''),
      (''seq'', int_json (int (de_seq d))), (''time'', int_json (de_time d)),
      (''data'', JObj [(''turn'', JNum (de_turn d)), (''step'', JNum (de_step d)),
      (''chunk'', chunk_json (de_kind d) (de_index d) (de_id d) (de_name d) (de_text d))])])"
    by (rule deep_equal_by_fields)
      (use 1(2-8) assms(2) 1(1) data in
        \<open>auto simp: int_json_def simp del: is_deep_equal_json.simps(6) split: if_splits\<close>)
  then show ?thesis by (simp add: delta_json_def 1(1) del: is_deep_equal_json.simps)
qed

lemma classify_not_row:
  "classify event = Some d \<Longrightarrow> decode_storage_record event = Inr [event]"
  by (erule classifyD) (simp add: decode_storage_record_def row_kind_def)

lemma classify_plain_fields:
  assumes "classify event = Some d" "de_kind d \<noteq> ToolCallDeltaKind"
  shows "de_id d = [] \<and> de_name d = None"
  using assms by (auto elim!: classifyD simp: classify_chunk_def split: option.splits if_splits)

end
