(* ===== verification/Chunk_Roundtrip.thy ===== *)
theory Chunk_Roundtrip
  imports Chunk_Rows
begin

text \<open>
  The round trip of the storage packing of \<open>Chunk_Rows\<close>: a packed run decodes to its members,
  and decoding a packed batch returns the batch, event by event, up to the key order inside
  the events the decoder reconstructs.
\<close>

section \<open>A packed run expands to its members\<close>

definition row_ok :: "chunk_row \<Rightarrow> bool" where
  "row_ok r \<longleftrightarrow>
     safe_int (int (cr_seq0 r)) \<and> safe_int (cr_time0 r)
     \<and> cr_members r \<noteq> [] \<and> length (cr_dt r) = length (cr_members r) - 1
     \<and> list_all safe_int (cr_dt r) \<and> times_safe (cr_time0 r) (cr_dt r)
     \<and> safe_int (int (cr_seq0 r) + int (length (cr_members r)) - 1)
     \<and> (cr_kind r \<noteq> ToolCallDeltaKind \<longrightarrow> cr_id r = [] \<and> cr_name r = None)"

lemma strings_of_map [simp]: "strings_of (map JStr ss) = Some ss"
  by (induction ss) simp_all

lemma ints_of_map [simp]: "list_all safe_int is \<Longrightarrow> ints_of (map int_json is) = Some is"
  by (induction "is") (simp_all add: int_json_def)

lemma row_tag_kind [simp]: "row_kind (Some (JStr (row_tag k))) = Some k"
  by (cases k) (simp_all add: row_kind_def)

lemma validate_run_data_json:
  assumes "map_of data ''turn'' = Some (JNum t)" "map_of data ''step'' = Some (JNum s)"
    "map_of data ''index'' = Some (JNum i)" "map_of data key = Some (JArr (map JStr ms))"
    "map_of data ''dt'' = Some (JArr (map int_json dt))"
    "ms \<noteq> []" "list_all safe_int dt" "length dt = length ms - 1"
  shows "validate_run_data data key = Inr ((t, s, i), ms, dt)"
  using assms
  by (cases ms) (simp_all add: validate_run_data_def array_of_def del: strings_of_map
      add: strings_of_map [of "_ # _", simplified])

lemma validate_row_data_json:
  assumes ok: "row_ok r" and data: "row_json r = JObj v" "map_of v ''data'' = Some (JObj d)"
  shows "validate_row_data d (cr_kind r)
    = Inr ((cr_id r, cr_name r), (cr_turn r, cr_step r, cr_index r), cr_members r, cr_dt r)"
proof (cases "cr_kind r = ToolCallDeltaKind")
  case False
  then have d: "d = [(''turn'', JNum (cr_turn r)), (''step'', JNum (cr_step r)), (''index'', JNum (cr_index r)),
      (''dt'', JArr (map int_json (cr_dt r))), (''texts'', JArr (map JStr (cr_members r)))]"
    using data by (auto simp: row_json_def Let_def)
  have "validate_run_data d ''texts'' = Inr ((cr_turn r, cr_step r, cr_index r), cr_members r, cr_dt r)"
    by (rule validate_run_data_json) (use ok in \<open>auto simp: d row_ok_def\<close>)
  moreover have "has_exact_keys d [''turn'', ''step'', ''index'', ''dt'', ''texts'']"
    by (simp add: d has_exact_keys_def)
  ultimately show ?thesis using False ok by (simp add: validate_row_data_def row_ok_def)
next
  case True
  define ms where "ms = JArr (map JStr (cr_members r))"
  define dt where "dt = JArr (map int_json (cr_dt r))"
  show ?thesis
  proof (cases "cr_name r")
    case None
    then have d: "d = [(''turn'', JNum (cr_turn r)), (''step'', JNum (cr_step r)), (''index'', JNum (cr_index r)),
        (''dt'', dt), (''id'', JStr (cr_id r)), (''args'', ms)]"
      using data True by (auto simp: row_json_def Let_def ms_def dt_def)
    have "validate_run_data d ''args'' = Inr ((cr_turn r, cr_step r, cr_index r), cr_members r, cr_dt r)"
      by (rule validate_run_data_json) (use ok in \<open>auto simp: d row_ok_def ms_def dt_def\<close>)
    moreover have "has_exact_keys d [''turn'', ''step'', ''index'', ''id'', ''dt'', ''args'']"
      "\<not> has_exact_keys d [''turn'', ''step'', ''index'', ''id'', ''name'', ''dt'', ''args'']"
      by (simp_all add: d has_exact_keys_def)
    moreover have "map_of d ''id'' = Some (JStr (cr_id r))" "map_of d ''name'' = None" by (simp_all add: d)
    ultimately show ?thesis using True None by (simp add: validate_row_data_def del: map_of.simps)
  next
    case (Some nm)
    then have d: "d = [(''turn'', JNum (cr_turn r)), (''step'', JNum (cr_step r)), (''index'', JNum (cr_index r)),
        (''dt'', dt), (''id'', JStr (cr_id r)), (''name'', JStr nm), (''args'', ms)]"
      using data True by (auto simp: row_json_def Let_def ms_def dt_def)
    have "validate_run_data d ''args'' = Inr ((cr_turn r, cr_step r, cr_index r), cr_members r, cr_dt r)"
      by (rule validate_run_data_json) (use ok in \<open>auto simp: d row_ok_def ms_def dt_def\<close>)
    moreover have "has_exact_keys d [''turn'', ''step'', ''index'', ''id'', ''name'', ''dt'', ''args'']"
      by (simp add: d has_exact_keys_def)
    moreover have "map_of d ''id'' = Some (JStr (cr_id r))" "map_of d ''name'' = Some (JStr nm)" by (simp_all add: d)
    ultimately show ?thesis using True Some by (simp add: validate_row_data_def del: map_of.simps)
  qed
qed

lemma decode_row_json:
  assumes "row_ok r"
  shows "decode_storage_record (row_json r) = Inr (expand_row r)"
proof -
  obtain v where v: "row_json r = JObj v" by (simp add: row_json_def Let_def)
  obtain d where d: "map_of v ''data'' = Some (JObj d)"
    using v by (auto simp: row_json_def Let_def)
  have v': "v = [(''type'', JStr (row_tag (cr_kind r))), (''seq0'', int_json (int (cr_seq0 r))),
      (''time0'', int_json (cr_time0 r)), (''data'', JObj d)]"
    using v d by (auto simp: row_json_def Let_def)
  have keys: "has_exact_keys v [''type'', ''seq0'', ''time0'', ''data'']"
    by (simp add: v' has_exact_keys_def)
  have fields: "Option.bind (map_of v ''seq0'') event_seq_of = Some (cr_seq0 r)"
    "safe_int_of (map_of v ''time0'') = Some (cr_time0 r)" "obj_field v ''data'' = Some d"
    using assms by (simp_all add: v' int_json_def row_ok_def)
  have "validate_row v (cr_kind r) = Inr r"
    unfolding validate_row_def fields
    using keys validate_row_data_json [OF assms v d] assms by (simp add: row_ok_def)
  then show ?thesis by (simp add: decode_storage_record_def v v')
qed

definition agrees :: "chunk_row \<Rightarrow> delta \<Rightarrow> bool" where
  "agrees r x \<longleftrightarrow>
     de_kind x = cr_kind r \<and> de_turn x = cr_turn r \<and> de_step x = cr_step r
     \<and> de_index x = cr_index r \<and> de_id x = cr_id r \<and> de_name x = cr_name r"

lemma agrees_member:
  "agrees r x \<Longrightarrow>
    \<lparr>de_kind = cr_kind r, de_seq = de_seq x, de_time = de_time x, de_turn = cr_turn r, de_step = cr_step r,
     de_index = cr_index r, de_id = cr_id r, de_name = cr_name r, de_text = de_text x\<rparr> = x"
  by (cases x) (simp add: agrees_def)

lemma expand_members_run:
  assumes "list_all (agrees r) (d # ds)" "successively (\<lambda>a b. de_seq b = de_seq a + 1) (d # ds)"
  shows "expand_members r (de_seq d) (de_time d) (gaps (map de_time (d # ds))) (map de_text (d # ds))
    = map delta_json (d # ds)"
  using assms
proof (induction ds arbitrary: d)
  case Nil
  then show ?case by (simp add: agrees_member)
next
  case (Cons e ds)
  from Cons.prems have "list_all (agrees r) (e # ds)" "successively (\<lambda>a b. de_seq b = de_seq a + 1) (e # ds)"
    and e: "de_seq e = Suc (de_seq d)" and d: "agrees r d" by simp_all
  note rest = Cons.IH [OF this(1,2)]
  have "expand_members r (de_seq d) (de_time d) (gaps (map de_time (d # e # ds))) (map de_text (d # e # ds))
     = delta_json d # expand_members r (de_seq e) (de_time e) (gaps (map de_time (e # ds))) (map de_text (e # ds))"
    using e d by (simp add: agrees_member)
  with rest show ?case by simp
qed

text \<open>What the packer knows of a run: each member is whitelisted and continues the one before it.\<close>

definition run_ok :: "delta_kind \<Rightarrow> delta list \<Rightarrow> bool" where
  "run_ok k run \<longleftrightarrow>
     list_all (\<lambda>d. de_kind d = k \<and> safe_int (int (de_seq d)) \<and> safe_int (de_time d)
        \<and> (k \<noteq> ToolCallDeltaKind \<longrightarrow> de_id d = [] \<and> de_name d = None)) run
     \<and> successively (\<lambda>a b. continues a b k) run"

lemma continuesD:
  assumes "continues a b k"
  shows "de_seq b = de_seq a + 1" "safe_int (de_time b - de_time a)" "de_turn b = de_turn a"
    "de_step b = de_step a" "de_index b = de_index a"
    "k = ToolCallDeltaKind \<Longrightarrow> de_id b = de_id a \<and> de_name b = de_name a"
  using assms by (auto simp: continues_def js_same_def split: if_splits)

lemma run_ok_Cons:
  "run_ok k (d # e # ds) \<longleftrightarrow> run_ok k [d] \<and> continues d e k \<and> run_ok k (e # ds)"
  by (auto simp: run_ok_def)

lemma run_agrees:
  assumes "run_ok k (d # ds)" "agrees r d" "cr_kind r = k"
  shows "list_all (agrees r) (d # ds)"
  using assms
proof (induction ds arbitrary: d)
  case Nil
  then show ?case by simp
next
  case (Cons e ds)
  from Cons.prems(1) have c: "continues d e k" and rest: "run_ok k (e # ds)" and one: "run_ok k [d]"
    by (auto simp: run_ok_Cons)
  have "de_kind e = k" "de_id e = de_id d" "de_name e = de_name d"
    using rest one continuesD(6) [OF c] by (cases "k = ToolCallDeltaKind"; simp add: run_ok_def)+
  then have "agrees r e"
    using Cons.prems(2,3) continuesD(3-5) [OF c] by (simp add: agrees_def)
  from Cons.IH [OF rest this Cons.prems(3)] Cons.prems(2) show ?case by simp
qed

lemma run_seqs: "run_ok k run \<Longrightarrow> successively (\<lambda>a b. de_seq b = de_seq a + 1) run"
  unfolding run_ok_def by (rule successively_mono [of "\<lambda>a b. continues a b k"]) (auto dest: continuesD(1))

lemma gaps_length [simp]: "length (gaps ts) = length ts - 1"
  by (induction ts rule: gaps.induct) simp_all

lemma run_gaps:
  assumes "run_ok k (d # ds)"
  shows "list_all safe_int (gaps (map de_time (d # ds))) \<and> times_safe (de_time d) (gaps (map de_time (d # ds)))"
  using assms
proof (induction ds arbitrary: d)
  case Nil
  then show ?case by simp
next
  case (Cons e ds)
  from Cons.prems have c: "continues d e k" and rest: "run_ok k (e # ds)" by (auto simp: run_ok_Cons)
  from rest have "safe_int (de_time e)" by (simp add: run_ok_def)
  with Cons.IH [OF rest] continuesD(2) [OF c] show ?case by simp
qed

lemma run_last_seq:
  assumes "run_ok k (d # ds)"
  shows "int (de_seq (last (d # ds))) = int (de_seq d) + int (length (d # ds)) - 1"
  using assms
proof (induction ds arbitrary: d)
  case Nil
  then show ?case by simp
next
  case (Cons e ds)
  from Cons.prems have c: "continues d e k" and rest: "run_ok k (e # ds)" by (auto simp: run_ok_Cons)
  from Cons.IH [OF rest] continuesD(1) [OF c] show ?case by simp
qed

lemma build_row_ok:
  assumes "run_ok k (d # ds)"
  shows "row_ok (build_row k (d # ds))"
proof -
  have all: "safe_int (int (de_seq x))" if "x \<in> set (d # ds)" for x
    using assms that by (auto simp: run_ok_def list_all_iff)
  have "safe_int (int (de_seq d) + int (length (d # ds)) - 1)"
    using all [of "last (d # ds)"] run_last_seq [OF assms] by (metis last_in_set list.distinct(1))
  moreover have "safe_int (int (de_seq d))" "safe_int (de_time d)"
    "k \<noteq> ToolCallDeltaKind \<longrightarrow> de_id d = [] \<and> de_name d = None"
    using assms by (auto simp: run_ok_def)
  ultimately show ?thesis using run_gaps [OF assms]
    by (simp add: row_ok_def build_row_def del: gaps.simps)
qed

lemma expand_build_row:
  assumes "run_ok k (d # ds)"
  shows "expand_row (build_row k (d # ds)) = map delta_json (d # ds)"
proof -
  let ?r = "build_row k (d # ds)"
  have "agrees ?r d" using assms by (simp add: agrees_def build_row_def run_ok_def)
  then have "list_all (agrees ?r) (d # ds)"
    using assms by (intro run_agrees) (simp_all add: build_row_def)
  from expand_members_run [OF this run_seqs [OF assms]] show ?thesis
    by (simp add: expand_row_def build_row_def del: gaps.simps)
qed

section \<open>Decoding a packed batch\<close>

definition decodes_to :: "json list \<Rightarrow> json list \<Rightarrow> bool" where
  "decodes_to records events \<longleftrightarrow>
     (\<exists>ds. decode_records records = Inr ds \<and> list_all2 is_deep_equal_json events ds)"

text \<open>An event whose type is not one of the three row tags, as every event of the taxonomy.\<close>

definition not_row :: "json \<Rightarrow> bool" where
  "not_row event \<longleftrightarrow> decode_storage_record event = Inr [event]"

lemma traverse_append:
  "traverse f (xs @ ys) = rbind (traverse f xs) (\<lambda>a. rmap ((@) a) (traverse f ys))"
proof (induction xs)
  case Nil
  then show ?case by (cases "traverse f ys") simp_all
next
  case (Cons x xs)
  then show ?case
    by (cases "f x"; cases "traverse f xs"; cases "traverse f ys") simp_all
qed

lemma decode_records_append:
  "decode_records xs = Inr a \<Longrightarrow> decode_records ys = Inr b \<Longrightarrow> decode_records (xs @ ys) = Inr (a @ b)"
  by (auto simp: decode_records_def traverse_append rmap_eq_Inr)

lemma decodes_to_Nil: "decodes_to [] []"
  by (simp add: decodes_to_def decode_records_def)

lemma decodes_to_append:
  "decodes_to xs es \<Longrightarrow> decodes_to ys fs \<Longrightarrow> decodes_to (xs @ ys) (es @ fs)"
  unfolding decodes_to_def by (metis decode_records_append list_all2_appendI)

lemma decodes_to_verbatim:
  assumes "\<forall>e\<in>set events. json_wf e \<and> not_row e"
  shows "decodes_to events events"
  using assms
proof (induction events)
  case Nil
  show ?case by (rule decodes_to_Nil)
next
  case (Cons e es)
  have "decodes_to [e] [e]"
    using Cons.prems by (auto simp: decodes_to_def decode_records_def not_row_def is_deep_equal_json_refl)
  from decodes_to_append [OF this Cons.IH] Cons.prems show ?case by simp
qed

definition run_events_ok :: "delta_kind \<Rightarrow> (json \<times> delta) list \<Rightarrow> bool" where
  "run_events_ok k run \<longleftrightarrow>
     (\<forall>(e, d)\<in>set run. json_wf e \<and> classify e = Some d) \<and> run_ok k (map snd run)"

lemma decodes_to_run:
  assumes "run_events_ok k run" "run \<noteq> []"
  shows "decodes_to [row_json (build_row k (map snd run))] (map fst run)"
proof -
  obtain d ds where run: "map snd run = d # ds" using assms(2) by (cases run) auto
  have ok: "run_ok k (d # ds)" using assms(1) run by (simp add: run_events_ok_def)
  have "decode_records [row_json (build_row k (d # ds))] = Inr (map delta_json (map snd run))"
    using decode_row_json [OF build_row_ok [OF ok]] expand_build_row [OF ok] run
    by (simp add: decode_records_def)
  moreover have "list_all2 is_deep_equal_json (map fst run) (map delta_json (map snd run))"
    using assms(1) by (auto simp: run_events_ok_def list_all2_conv_all_nth dest!: nth_mem intro!: classify_deep_equal)
  ultimately show ?thesis by (auto simp: decodes_to_def run)
qed

definition pack_ok :: "json list \<Rightarrow> pack_state \<Rightarrow> bool" where
  "pack_ok events p =
     (case p of (out, kind, run) \<Rightarrow>
        (\<exists>done. events = done @ map fst run \<and> decodes_to out done)
        \<and> (case kind of None \<Rightarrow> run = [] | Some k \<Rightarrow> run_events_ok k run))"

lemma classify_run_ok:
  assumes "classify e = Some d"
  shows "run_ok (de_kind d) [d]"
  using classify_plain_fields [OF assms] assms by (auto simp: run_ok_def elim!: classifyD)

lemma run_events_ok_one:
  "classify e = Some d \<Longrightarrow> json_wf e \<Longrightarrow> run_events_ok (de_kind d) [(e, d)]"
  using classify_run_ok [of e d] by (simp add: run_events_ok_def)

lemma run_events_ok_snoc:
  assumes "run_events_ok (de_kind d) run" "run \<noteq> []" "continues (snd (last run)) d (de_kind d)"
    "classify e = Some d" "json_wf e"
  shows "run_events_ok (de_kind d) (run @ [(e, d)])"
  using assms classify_run_ok [OF assms(4)]
  by (auto simp: run_events_ok_def run_ok_def successively_append_iff last_map)

lemma run_not_row: "run_events_ok k run \<Longrightarrow> e \<in> fst ` set run \<Longrightarrow> json_wf e \<and> not_row e"
  by (force simp: run_events_ok_def not_row_def intro: classify_not_row)

lemma flush_decodes:
  assumes "pack_ok events p"
  shows "decodes_to (flush_run p) events"
proof -
  obtain out kind run where p: "p = (out, kind, run)" by (cases p)
  obtain before where before: "events = before @ map fst run" "decodes_to out before"
    using assms by (auto simp: pack_ok_def p)
  show ?thesis
  proof (cases kind)
    case None
    then show ?thesis using assms before by (simp add: flush_run_def p pack_ok_def)
  next
    case (Some k)
    then have ok: "run_events_ok k run" using assms by (simp add: pack_ok_def p)
    show ?thesis
    proof (cases "min_run \<le> length run")
      case True
      then have "run \<noteq> []" by (auto simp: min_run_def)
      from decodes_to_append [OF before(2) decodes_to_run [OF ok this]] before(1) True Some show ?thesis
        by (simp add: flush_run_def p)
    next
      case False
      have "decodes_to (map fst run) (map fst run)"
        by (rule decodes_to_verbatim) (use run_not_row [OF ok] in auto)
      from decodes_to_append [OF before(2) this] before(1) False Some show ?thesis
        by (simp add: flush_run_def p)
    qed
  qed
qed

lemma pack_step_ok:
  assumes ok: "pack_ok events p" and e: "json_wf e" "not_row e"
  shows "pack_ok (events @ [e]) (pack_step p e)"
proof -
  obtain out kind run where p: "p = (out, kind, run)" by (cases p)
  note flushed = flush_decodes [OF ok]
  show ?thesis
  proof (cases "classify e")
    case None
    have "decodes_to [e] [e]" by (rule decodes_to_verbatim) (use e in auto)
    from decodes_to_append [OF flushed this] None show ?thesis
      by (simp add: pack_step_def p pack_ok_def)
  next
    case (Some d)
    show ?thesis
    proof (cases "kind = Some (de_kind d) \<and> run \<noteq> [] \<and> continues (snd (last run)) d (de_kind d)")
      case True
      then have "run_events_ok (de_kind d) (run @ [(e, d)])"
        using ok Some e by (intro run_events_ok_snoc) (auto simp: pack_ok_def p)
      with True ok Some show ?thesis by (auto simp: pack_step_def p pack_ok_def)
    next
      case False
      then have "pack_step p e = (flush_run p, Some (de_kind d), [(e, d)])"
        using Some by (auto simp: pack_step_def p)
      with flushed run_events_ok_one [OF Some e(1)] show ?thesis
        by (auto simp: pack_ok_def)
    qed
  qed
qed

lemma pack_fold_ok:
  assumes "\<forall>e\<in>set events. json_wf e \<and> not_row e"
  shows "pack_ok events (foldl pack_step ([], None, []) events)"
  using assms
proof (induction events rule: rev_induct)
  case Nil
  show ?case using decodes_to_Nil by (simp add: pack_ok_def)
next
  case (snoc e events)
  then show ?case by (auto intro: pack_step_ok)
qed

lemma pack_decodes:
  assumes "\<forall>e\<in>set events. json_wf e \<and> not_row e"
  shows "decodes_to (pack_chunk_runs events) events"
  unfolding pack_chunk_runs_def by (rule flush_decodes [OF pack_fold_ok [OF assms]])

text \<open>The size the packing is for: a batch never grows.\<close>

lemma flush_length: "length (flush_run (out, kind, run)) \<le> length out + length run"
  by (auto simp: flush_run_def min_run_def split: option.splits)

lemma pack_step_length:
  "pack_step (out, kind, run) e = (out', kind', run') \<Longrightarrow> length out' + length run' \<le> Suc (length out + length run)"
  using flush_length [of out kind run] by (auto simp: pack_step_def split: option.splits if_splits)

lemma pack_fold_length:
  "foldl pack_step p events = (out', kind', run') \<Longrightarrow>
     length out' + length run' \<le> length (fst p) + length (snd (snd p)) + length events"
proof (induction events arbitrary: p)
  case Nil
  then show ?case by auto
next
  case (Cons e es)
  obtain out kind run where p: "p = (out, kind, run)" by (cases p)
  obtain o1 k1 r1 where st: "pack_step p e = (o1, k1, r1)" by (cases "pack_step p e")
  from Cons.IH [of "pack_step p e"] Cons.prems pack_step_length [of out kind run e o1 k1 r1] st p
  show ?case by simp
qed

lemma pack_length: "length (pack_chunk_runs events) \<le> length events"
proof -
  obtain out kind run where f: "foldl pack_step ([], None, []) events = (out, kind, run)"
    by (metis prod_cases3)
  from pack_fold_length [OF this] flush_length [of out kind run] show ?thesis
    by (simp add: pack_chunk_runs_def f)
qed

end
