(* ===== verification/Goal_Facts.thy ===== *)
theory Goal_Facts
  imports Goal_Fold
begin

text \<open>
  What the replay fold of \<open>packages/goal/goal/src/fold.ts\<close> guarantees of every log it accepts:
  the decoder inverts the written form, the state stays well formed, no goal reference is written
  twice, and the admitted rounds of each goal are counted consecutively.
\<close>

section \<open>What a decoded change satisfies\<close>

definition reason_ok :: "block_reason \<Rightarrow> bool" where
  "reason_ok b \<longleftrightarrow> is_kebab_code (br_code b) \<and> normalized_text (br_message b)"

definition snapshot_ok :: "goal_snapshot \<Rightarrow> bool" where
  "snapshot_ok g \<longleftrightarrow>
     gs_id g \<noteq> [] \<and> safe_int (gs_revision g) \<and> 1 \<le> gs_revision g \<and> normalized_text (gs_objective g)
     \<and> safe_int (gs_max_rounds g) \<and> 1 \<le> gs_max_rounds g
     \<and> (gs_phase g = PhaseBlocked \<longleftrightarrow> gs_blocked g \<noteq> None)
     \<and> (case gs_blocked g of Some b \<Rightarrow> reason_ok b | None \<Rightarrow> True)"

definition time_ok :: "int \<Rightarrow> bool" where
  "time_ok t \<longleftrightarrow> safe_int t \<and> 0 \<le> t"

fun change_ok :: "goal_change \<Rightarrow> bool" where
  "change_ok (SnapshotChange op g rounds created updated) =
     (snapshot_ok g \<and> safe_int rounds \<and> 0 \<le> rounds \<and> time_ok created \<and> time_ok updated \<and> created \<le> updated)"
| "change_ok (ClearChange ref t) =
     (gr_id ref \<noteq> [] \<and> safe_int (gr_revision ref) \<and> 1 \<le> gr_revision ref \<and> time_ok t)"

lemma safe_int_of_eq: "safe_int_of v = Some i \<longleftrightarrow> v = Some (JNum (NInt i)) \<and> safe_int i"
  by (cases v rule: safe_int_of.cases) (auto split: if_splits)

lemma positive_integer_eq: "positive_integer v f = Inr i \<longleftrightarrow> v = Some (JNum (NInt i)) \<and> safe_int i \<and> 1 \<le> i"
  using safe_int_of_eq [of v] by (auto simp: positive_integer_def split: option.splits if_splits)

lemma non_negative_integer_eq: "non_negative_integer v f = Inr i \<longleftrightarrow> v = Some (JNum (NInt i)) \<and> safe_int i \<and> 0 \<le> i"
  using safe_int_of_eq [of v] by (auto simp: non_negative_integer_def split: option.splits if_splits)

lemma decode_block_reason_ok: "decode_block_reason v = Inr b \<Longrightarrow> reason_ok b"
  by (auto simp: decode_block_reason_def reason_ok_def split: option.splits json.splits if_splits)

lemma decode_snapshot_ok: "decode_snapshot v = Inr g \<Longrightarrow> snapshot_ok g"
  by (auto simp: decode_snapshot_def snapshot_ok_def rbind_eq_Inr rmap_eq_Inr positive_integer_eq
      dest!: decode_block_reason_ok split: option.splits json.splits list.splits if_splits)

lemma decode_ref_ok: "decode_ref v = Inr r \<Longrightarrow> gr_id r \<noteq> [] \<and> safe_int (gr_revision r) \<and> 1 \<le> gr_revision r"
  by (auto simp: decode_ref_def rmap_eq_Inr positive_integer_eq split: option.splits json.splits list.splits if_splits)

lemma decode_goal_change_ok:
  assumes "decode_goal_change j = Inr (Some c)"
  shows "change_ok c"
  using assms
  by (cases j) (auto simp: decode_goal_change_def rbind_eq_Inr rmap_eq_Inr non_negative_integer_eq time_ok_def
      dest: decode_snapshot_ok decode_ref_ok split: option.splits if_splits)

section \<open>The decoder inverts the written form\<close>

lemma phase_of_name [simp]: "phase_of (phase_name p) = Some p"
  by (cases p) simp_all

lemma operation_of_name [simp]: "operation_of (operation_name op) = Some op"
  by (cases op) simp_all

lemma phase_of_blocked [simp]: "phase_of ''blocked'' = Some PhaseBlocked"
  by simp

declare phase_of.simps [simp del] operation_of.simps [simp del]

lemma operation_name_not_clear [simp]: "operation_name op \<noteq> ''clear''"
  by (cases op) simp_all

lemma decode_block_reason_json: "reason_ok b \<Longrightarrow> decode_block_reason (Some (block_reason_json b)) = Inr b"
  by (simp add: decode_block_reason_def block_reason_json_def reason_ok_def has_exact_keys_def)

lemma positive_integer_ok: "safe_int i \<Longrightarrow> 1 \<le> i \<Longrightarrow> positive_integer (Some (JNum (NInt i))) f = Inr i"
  by (simp add: positive_integer_eq)

lemma non_negative_integer_ok: "safe_int i \<Longrightarrow> 0 \<le> i \<Longrightarrow> non_negative_integer (Some (JNum (NInt i))) f = Inr i"
  by (simp add: non_negative_integer_eq)

lemma decode_snapshot_json:
  assumes "snapshot_ok g"
  shows "decode_snapshot (Some (snapshot_json g)) = Inr g"
proof -
  obtain c cs where "gs_id g = c # cs" using assms by (cases "gs_id g") (auto simp: snapshot_ok_def)
  with assms show ?thesis
    by (cases g; cases "gs_blocked g")
      (auto simp: snapshot_ok_def decode_snapshot_def snapshot_json_def snapshot_keys_def has_exact_keys_def
        positive_integer_ok decode_block_reason_json)
qed

lemma decode_change_json:
  assumes "change_ok c"
  shows "decode_goal_change (goal_change_json c) = Inr (Some c)"
proof (cases c)
  case (SnapshotChange op g rounds created updated)
  with assms show ?thesis
    by (simp add: decode_goal_change_def has_exact_keys_def goal_change_version_def decode_snapshot_json
        non_negative_integer_ok time_ok_def)
next
  case (ClearChange ref t)
  obtain d ds where "gr_id ref = d # ds" using assms ClearChange by (cases "gr_id ref") auto
  with assms ClearChange show ?thesis
    by (cases ref) (simp add: decode_goal_change_def has_exact_keys_def goal_change_version_def decode_ref_def
        positive_integer_ok non_negative_integer_ok time_ok_def)
qed

section \<open>The fold keeps its state well formed\<close>

definition goal_wf :: "goal_fold_state \<Rightarrow> bool" where
  "goal_wf st \<longleftrightarrow>
     distinct (gf_seen st) \<and> 0 \<le> gf_rounds st \<and> safe_int (gf_rounds st)
     \<and> (case gf_goal st of
          None \<Rightarrow> gf_created st = None \<and> gf_updated st = None
        | Some g \<Rightarrow> snapshot_ok g \<and> gs_id g \<in> set (gf_seen st) \<and> gf_last_ref st = Some (snapshot_ref g)
            \<and> (\<exists>c u. gf_created st = Some c \<and> gf_updated st = Some u \<and> time_ok c \<and> time_ok u \<and> c \<le> u))"

lemma goal_wf_init: "goal_wf empty_goal_fold_state"
  by (simp add: goal_wf_def empty_goal_fold_state_def safe_int_def max_safe_integer_def)

lemma apply_goal_change_cases:
  assumes "apply_goal_change st c = Inr st'"
  obtains (clear) ref t cur where "c = ClearChange ref t" "gf_goal st = Some cur" "is_next_revision cur ref"
      "st' = st\<lparr>gf_goal := None, gf_rounds := 0, gf_created := None, gf_updated := None, gf_last_ref := Some ref\<rparr>"
  | (create) g created updated where "c = SnapshotChange GoalCreate g 0 created updated" "gs_revision g = 1"
      "gs_phase g = PhaseActive" "gs_id g \<notin> set (gf_seen st)"
      "\<And>cur. gf_goal st = Some cur \<Longrightarrow> gs_phase cur = PhaseComplete"
      "st' = install_snapshot (st\<lparr>gf_seen := gf_seen st @ [gs_id g]\<rparr>) g 0 created updated"
  | (advance) op g created updated cur where "c = SnapshotChange op g (gf_rounds st) created updated" "op \<noteq> GoalCreate"
      "gf_goal st = Some cur" "is_next_revision cur (snapshot_ref g)" "gf_created st = Some created"
      "\<And>u. gf_updated st = Some u \<Longrightarrow> u \<le> updated" "phase_transition_ok op cur g (gf_rounds st)"
      "st' = install_snapshot st g (gf_rounds st) created updated"
proof (cases c)
  case (ClearChange ref t)
  with assms show ?thesis by (auto intro: clear split: option.splits if_splits)
next
  case (SnapshotChange op g rounds created updated)
  show ?thesis
  proof (cases "op = GoalCreate")
    case True
    with assms SnapshotChange show ?thesis
      by (intro create [of g created updated]) (auto split: option.splits if_splits)
  next
    case False
    with assms SnapshotChange obtain cur where cur: "gf_goal st = Some cur"
      and v: "validate_snapshot_transition st op cur g rounds created updated = Inr ()"
      and st': "st' = install_snapshot st g rounds created updated"
      by (auto simp: rmap_eq_Inr split: option.splits)
    from v have "is_next_revision cur (snapshot_ref g)" "gf_created st = Some created" "rounds = gf_rounds st"
      "\<And>u. gf_updated st = Some u \<Longrightarrow> u \<le> updated" "phase_transition_ok op cur g (gf_rounds st)"
      by (auto simp: validate_snapshot_transition_def ensure_def split: if_splits option.splits)
    with SnapshotChange False cur st' show ?thesis by (intro advance) auto
  qed
qed

lemma admit_round_cases:
  assumes "admit_round st n (gid, revision, round) = Inr st'"
  obtains cur where "gf_goal st = Some cur" "gs_phase cur = PhaseActive" "gid = gs_id cur" "revision = gs_revision cur"
    "round = gf_rounds st + 1" "round \<le> gs_max_rounds cur" "st' = st\<lparr>gf_rounds := round\<rparr>"
  using assms by (auto simp: admit_round_def split: option.splits if_splits)

text \<open>The three ways an accepted event acts on the goal state.\<close>

lemma apply_goal_event_cases:
  assumes "apply_goal_event st e = Inr st'"
  obtains (change) j c where "ev_data e = GoalChange j" "decode_goal_change j = Inr (Some c)" "apply_goal_change st c = Inr st'"
  | (round) m gid revision round where "ev_data e = UserMessageEv m" "goal_source (um_source m) = Inr (Some (gid, revision, round))"
      "admit_round st (ev_seq e) (gid, revision, round) = Inr st'"
  | (other) "st' = st" "\<And>j. ev_data e \<noteq> GoalChange j"
      "\<And>m. ev_data e = UserMessageEv m \<Longrightarrow> goal_source (um_source m) = Inr None"
proof (cases "ev_data e")
  case (GoalChange j)
  with assms show ?thesis by (auto simp: apply_goal_event_def rbind_eq_Inr intro: change split: option.splits)
next
  case (UserMessageEv m)
  with assms obtain s where s: "goal_source (um_source m) = Inr s"
    and st': "(case s of None \<Rightarrow> Inr st | Some src \<Rightarrow> admit_round st (ev_seq e) src) = Inr st'"
    by (auto simp: apply_goal_event_def rbind_eq_Inr)
  show ?thesis
  proof (cases s)
    case None
    with UserMessageEv s st' show ?thesis by (intro other) auto
  next
    case (Some src)
    with UserMessageEv s st' show ?thesis by (cases src) (auto intro: round)
  qed
qed (use assms in \<open>auto simp: apply_goal_event_def intro: other\<close>)

lemma goal_wf_change:
  assumes "goal_wf st" "change_ok c" "apply_goal_change st c = Inr st'"
  shows "goal_wf st'"
  using assms(3)
proof (cases rule: apply_goal_change_cases)
  case clear
  with assms(1) show ?thesis by (auto simp: goal_wf_def safe_int_def max_safe_integer_def)
next
  case (create g created updated)
  with assms(1,2) show ?thesis by (auto simp: goal_wf_def install_snapshot_def)
next
  case (advance op g created updated cur)
  with assms(1,2) show ?thesis by (auto simp: goal_wf_def install_snapshot_def is_next_revision_def snapshot_ref_def)
qed

lemma goal_wf_step:
  assumes "goal_wf st" "apply_goal_event st e = Inr st'"
  shows "goal_wf st'"
  using assms(2)
proof (cases rule: apply_goal_event_cases)
  case change
  then show ?thesis using goal_wf_change [OF assms(1)] decode_goal_change_ok by blast
next
  case (round m gid revision n)
  from round(3) show ?thesis
    by (rule admit_round_cases) (use assms(1) in \<open>auto simp: goal_wf_def snapshot_ok_def safe_int_def\<close>)
next
  case other
  with assms(1) show ?thesis by simp
qed

interpretation goal: event_fold empty_goal_fold_state apply_goal_event goal_wf
  by unfold_locales (rule goal_wf_init, rule goal_wf_step)

section \<open>No reference is written twice\<close>

definition event_refs :: "session_event \<Rightarrow> goal_ref list" where
  "event_refs e =
     (case ev_data e of
        GoalChange j \<Rightarrow> (case decode_goal_change j of Inr (Some c) \<Rightarrow> [goal_change_ref c] | _ \<Rightarrow> [])
      | _ \<Rightarrow> [])"

definition goal_refs :: "event_log \<Rightarrow> goal_ref list" where
  "goal_refs events = concat (map event_refs events)"

definition refs_wf :: "goal_ref list \<Rightarrow> goal_fold_state \<Rightarrow> bool" where
  "refs_wf refs st \<longleftrightarrow>
     distinct refs \<and> gr_id ` set refs \<subseteq> set (gf_seen st)
     \<and> (\<forall>g. gf_goal st = Some g \<longrightarrow>
          gs_id g \<in> set (gf_seen st) \<and> (\<forall>r\<in>set refs. gr_id r = gs_id g \<longrightarrow> gr_revision r \<le> gs_revision g))"

lemma refs_wf_change:
  assumes "refs_wf refs st" "apply_goal_change st c = Inr st'"
  shows "refs_wf (refs @ [goal_change_ref c]) st'"
  using assms(2)
proof (cases rule: apply_goal_change_cases)
  case (clear ref t cur)
  with assms(1) have "ref \<notin> set refs" by (fastforce simp: refs_wf_def is_next_revision_def)
  with clear assms(1) show ?thesis by (auto simp: refs_wf_def is_next_revision_def)
next
  case (create g created updated)
  with assms(1) have "snapshot_ref g \<notin> set refs" by (force simp: refs_wf_def snapshot_ref_def)
  with create assms(1) show ?thesis by (auto simp: refs_wf_def install_snapshot_def snapshot_ref_def)
next
  case (advance op g created updated cur)
  with assms(1) have "snapshot_ref g \<notin> set refs"
    by (fastforce simp: refs_wf_def is_next_revision_def snapshot_ref_def)
  with advance assms(1) show ?thesis
    by (fastforce simp: refs_wf_def install_snapshot_def is_next_revision_def snapshot_ref_def)
qed

lemma refs_wf_step:
  assumes "refs_wf refs st" "apply_goal_event st e = Inr st'"
  shows "refs_wf (refs @ event_refs e) st'"
  using assms(2)
proof (cases rule: apply_goal_event_cases)
  case (change j c)
  with refs_wf_change [OF assms(1)] show ?thesis by (simp add: event_refs_def)
next
  case (round m gid revision n)
  from round(3) show ?thesis
    by (rule admit_round_cases) (use assms(1) round(1) in \<open>auto simp: refs_wf_def event_refs_def\<close>)
next
  case other
  then have "event_refs e = []" by (auto simp: event_refs_def split: event_data.splits)
  with assms(1) other show ?thesis by simp
qed

lemma goal_refs_wf: "fold_goal events = Inr st \<Longrightarrow> refs_wf (goal_refs events) st"
  unfolding fold_goal_def
proof (induction events arbitrary: st rule: rev_induct)
  case Nil
  then show ?case by (auto simp: goal_refs_def refs_wf_def empty_goal_fold_state_def)
next
  case (snoc e events)
  then show ?case using refs_wf_step by (auto simp: goal_refs_def fold_log_snoc rbind_eq_Inr)
qed

section \<open>Rounds are counted consecutively\<close>

definition event_rounds :: "string \<Rightarrow> session_event \<Rightarrow> int list" where
  "event_rounds gid e =
     (case ev_data e of
        UserMessageEv m \<Rightarrow>
          (case goal_source (um_source m) of Inr (Some (i, _, n)) \<Rightarrow> if i = gid then [n] else [] | _ \<Rightarrow> [])
      | _ \<Rightarrow> [])"

definition goal_rounds :: "string \<Rightarrow> event_log \<Rightarrow> int list" where
  "goal_rounds gid events = concat (map (event_rounds gid) events)"

definition rounds_wf :: "(string \<Rightarrow> int list) \<Rightarrow> goal_fold_state \<Rightarrow> bool" where
  "rounds_wf rounds st \<longleftrightarrow>
     0 \<le> gf_rounds st
     \<and> (\<forall>gid. \<exists>k\<ge>0. rounds gid = [1..k]) \<and> (\<forall>gid. gid \<notin> set (gf_seen st) \<longrightarrow> rounds gid = [])
     \<and> (\<forall>g. gf_goal st = Some g \<longrightarrow> gs_id g \<in> set (gf_seen st) \<and> rounds (gs_id g) = [1..gf_rounds st])"

lemma rounds_wf_change:
  assumes "rounds_wf rounds st" "apply_goal_change st c = Inr st'"
  shows "rounds_wf rounds st'"
  using assms(2)
proof (cases rule: apply_goal_change_cases)
  case clear
  with assms(1) show ?thesis by (simp add: rounds_wf_def)
next
  case create
  with assms(1) show ?thesis by (simp add: rounds_wf_def install_snapshot_def)
next
  case (advance op g created updated cur)
  with assms(1) show ?thesis
    by (simp add: rounds_wf_def install_snapshot_def is_next_revision_def snapshot_ref_def)
qed

lemma rounds_wf_step:
  assumes "rounds_wf rounds st" "apply_goal_event st e = Inr st'"
  shows "rounds_wf (\<lambda>gid. rounds gid @ event_rounds gid e) st'"
  using assms(2)
proof (cases rule: apply_goal_event_cases)
  case (change j c)
  then have "event_rounds gid e = []" for gid by (simp add: event_rounds_def)
  with change rounds_wf_change [OF assms(1)] show ?thesis by simp
next
  case (round m gid revision n)
  from round(3) show ?thesis
  proof (rule admit_round_cases)
    fix cur
    assume cur: "gf_goal st = Some cur" "gid = gs_id cur" "n = gf_rounds st + 1" "st' = st\<lparr>gf_rounds := n\<rparr>"
    have ev: "event_rounds i e = (if i = gs_id cur then [gf_rounds st + 1] else [])" for i
      using round(1,2) cur(2,3) by (simp add: event_rounds_def)
    have nn: "0 \<le> gf_rounds st" and here: "rounds (gs_id cur) = [1..gf_rounds st]" "gs_id cur \<in> set (gf_seen st)"
      using assms(1) cur(1) by (auto simp: rounds_wf_def)
    have up: "[1..gf_rounds st] @ [gf_rounds st + 1] = [1..gf_rounds st + 1]"
      using nn by (simp add: upto_rec2)
    have "\<exists>k\<ge>0. rounds i @ event_rounds i e = [1..k]" for i
      using assms(1) here up nn by (cases "i = gs_id cur") (auto simp: rounds_wf_def ev intro: exI [of _ "gf_rounds st + 1"])
    with assms(1) cur here up ev show ?thesis by (auto simp: rounds_wf_def)
  qed
next
  case other
  then have "event_rounds gid e = []" for gid by (auto simp: event_rounds_def split: event_data.splits)
  with assms(1) other show ?thesis by simp
qed

lemma goal_rounds_wf: "fold_goal events = Inr st \<Longrightarrow> rounds_wf (\<lambda>gid. goal_rounds gid events) st"
  unfolding fold_goal_def
proof (induction events arbitrary: st rule: rev_induct)
  case Nil
  then show ?case by (auto simp: goal_rounds_def rounds_wf_def empty_goal_fold_state_def intro: exI [of _ 0])
next
  case (snoc e events)
  then show ?case using rounds_wf_step by (auto simp: goal_rounds_def fold_log_snoc rbind_eq_Inr)
qed

section \<open>The light projection\<close>

text \<open>
  On an accepted log the last-wins projection shows the current goal and its timestamps. Its round
  counter is the one of the last change, so it trails the admitted rounds.
\<close>

definition projection_agrees :: "goal_projection option \<Rightarrow> goal_fold_state \<Rightarrow> bool" where
  "projection_agrees p st \<longleftrightarrow>
     (case p of
        None \<Rightarrow> gf_goal st = None
      | Some q \<Rightarrow> gf_goal st = Some (gp_goal q) \<and> gf_created st = Some (gp_created q)
          \<and> gf_updated st = Some (gp_updated q) \<and> gp_rounds q \<le> gf_rounds st)"

lemma projection_agrees_step:
  assumes "projection_agrees p st" "apply_goal_event st e = Inr st'"
  shows "projection_agrees (apply_goal_projection p e) st'"
  using assms(2)
proof (cases rule: apply_goal_event_cases)
  case (change j c)
  from change(3) show ?thesis
    by (cases rule: apply_goal_change_cases)
      (use change(1,2) in \<open>simp_all add: apply_goal_projection_def projection_agrees_def install_snapshot_def\<close>)
next
  case (round m gid revision n)
  from round(3) show ?thesis
    by (rule admit_round_cases)
      (use assms(1) round(1) in \<open>auto simp: apply_goal_projection_def projection_agrees_def split: option.splits\<close>)
next
  case other
  then have "apply_goal_projection p e = p" by (auto simp: apply_goal_projection_def split: event_data.splits)
  with assms(1) other show ?thesis by simp
qed

lemma projection_agrees_fold:
  "fold_goal events = Inr st \<Longrightarrow> projection_agrees (foldl apply_goal_projection None events) st"
  unfolding fold_goal_def
proof (induction events arbitrary: st rule: rev_induct)
  case Nil
  then show ?case by (auto simp: projection_agrees_def empty_goal_fold_state_def)
next
  case (snoc e events)
  then show ?case using projection_agrees_step by (auto simp: fold_log_snoc rbind_eq_Inr)
qed

end
