(* ===== verification/Goal_Service.thy ===== *)
theory Goal_Service
  imports Goal_Facts Session_Log
begin

text \<open>
  The goal service of \<open>packages/goal/goal/src/index.ts\<close>: request resolution, the per-session cache
  and its synchronization with the log, the compare-and-set mutations and the commit path. An
  operation takes the clock readings and the fresh identifier as arguments and returns the new
  service state together with a view or the error that was thrown. Callbacks that run inside an
  append are not modelled.
\<close>

section \<open>Requests\<close>

datatype goal_activation = Armed | Disarmed

datatype goal_service_error =
    GoalInvalidMaxRounds
  | GoalInvalidObjective
  | GoalInvalidBlockReason
  | GoalInvalidEdit
  | GoalInvalidTransition
  | GoalAlreadyExists
  | GoalNotFound
  | GoalStaleRevision
  | GoalAgentNotLive
  | GoalReplay goal_error
  | GoalAppend append_error
  | GoalCacheBroken

definition resolve_max_rounds :: "json option \<Rightarrow> (goal_service_error, int) result" where
  "resolve_max_rounds v =
     (case safe_int_of v of
        Some i \<Rightarrow> if i < 1 then Inl GoalInvalidMaxRounds else Inr i
      | None \<Rightarrow> Inl GoalInvalidMaxRounds)"

definition resolve_objective :: "json option \<Rightarrow> (goal_service_error, string) result" where
  "resolve_objective v =
     (case as_string v of
        Some s \<Rightarrow> if js_trim s = [] then Inl GoalInvalidObjective else Inr (js_trim s)
      | None \<Rightarrow> Inl GoalInvalidObjective)"

text \<open>\<open>??\<close> takes the default for an absent and for a null field alike.\<close>

definition resolve_create_goal :: "int \<Rightarrow> json option \<Rightarrow> json option \<Rightarrow> (goal_service_error, string \<times> int) result" where
  "resolve_create_goal default_rounds objective rounds =
     rbind (resolve_objective objective)
       (\<lambda>o'. rmap (Pair o')
          (resolve_max_rounds (if rounds = None \<or> rounds = Some JNull then Some (JNum (NInt default_rounds)) else rounds)))"

definition resolve_block_reason :: "json \<Rightarrow> (goal_service_error, block_reason) result" where
  "resolve_block_reason reason =
     (case reason of
        JObj r \<Rightarrow>
          (case (as_string (map_of r ''code''), as_string (map_of r ''message'')) of
             (Some code, Some msg) \<Rightarrow>
               (if \<not> is_kebab_code code \<or> js_trim msg = [] then Inl GoalInvalidBlockReason
                else Inr \<lparr>br_code = code, br_message = js_trim msg\<rparr>)
           | _ \<Rightarrow> Inl GoalInvalidBlockReason)
      | _ \<Rightarrow> Inl GoalInvalidBlockReason)"

section \<open>The cache\<close>

record goal_cache =
  gc_state :: goal_fold_state
  gc_activation :: goal_activation
  gc_observed :: nat
  gc_pending :: "(nat \<times> goal_activation) option"

record goal_service =
  gsv_session :: session
  gsv_cache :: "goal_cache option"

record goal_view =
  gv_goal :: goal_snapshot
  gv_rounds :: int
  gv_created :: int
  gv_updated :: int
  gv_activation :: goal_activation

definition build_cache :: "event_log \<Rightarrow> (goal_error, goal_cache) result" where
  "build_cache events =
     rmap (\<lambda>st. \<lparr>gc_state = st, gc_activation = Disarmed, gc_observed = length events, gc_pending = None\<rparr>)
       (fold_log apply_goal_event empty_goal_fold_state events)"

definition is_goal_change :: "session_event \<Rightarrow> bool" where
  "is_goal_change e = (case ev_data e of GoalChange _ \<Rightarrow> True | _ \<Rightarrow> False)"

definition observe :: "goal_cache \<Rightarrow> session_event \<Rightarrow> (goal_error, goal_cache) result" where
  "observe c e =
     rmap (\<lambda>st. c\<lparr>gc_state := st,
                  gc_activation := (if is_goal_change e
                    then (case gc_pending c of
                            Some (n, act) \<Rightarrow> if n = ev_seq e then act else Disarmed
                          | None \<Rightarrow> Disarmed)
                    else gc_activation c),
                  gc_observed := gc_observed c + 1\<rparr>)
       (apply_goal_event (gc_state c) e)"

text \<open>A refused event stops the loop; the events before it stay observed.\<close>

fun sync_events :: "goal_cache \<Rightarrow> event_log \<Rightarrow> goal_cache \<times> (goal_error, unit) result" where
  "sync_events c [] = (c, Inr ())"
| "sync_events c (e # es) =
     (case observe c e of Inl x \<Rightarrow> (c, Inl x) | Inr c' \<Rightarrow> sync_events c' es)"

definition sync_cache :: "session \<Rightarrow> goal_cache \<Rightarrow> goal_cache \<times> (goal_error, unit) result" where
  "sync_cache s c = sync_events c (drop (gc_observed c) (ses_log s))"

definition cache_of :: "goal_service \<Rightarrow> (goal_error, goal_cache) result" where
  "cache_of sv = (case gsv_cache sv of Some c \<Rightarrow> Inr c | None \<Rightarrow> build_cache (ses_log (gsv_session sv)))"

definition prepare_mutation :: "bool \<Rightarrow> goal_service \<Rightarrow> goal_service \<times> (goal_service_error, goal_cache) result" where
  "prepare_mutation live sv =
     (if \<not> live then (sv, Inl GoalAgentNotLive)
      else (case cache_of sv of
              Inl e \<Rightarrow> (sv, Inl (GoalReplay e))
            | Inr c \<Rightarrow>
                (case sync_cache (gsv_session sv) c of
                   (c', Inl e) \<Rightarrow> (sv\<lparr>gsv_cache := Some c'\<rparr>, Inl (GoalReplay e))
                 | (c', Inr _) \<Rightarrow> (sv\<lparr>gsv_cache := Some c'\<rparr>, Inr c'))))"

definition view_of :: "goal_cache \<Rightarrow> (goal_service_error, goal_view option) result" where
  "view_of c =
     (case gf_goal (gc_state c) of
        None \<Rightarrow> Inr None
      | Some g \<Rightarrow>
          (case (gf_created (gc_state c), gf_updated (gc_state c)) of
             (Some created, Some updated) \<Rightarrow>
               Inr (Some \<lparr>gv_goal = g, gv_rounds = gf_rounds (gc_state c), gv_created = created,
                          gv_updated = updated, gv_activation = gc_activation c\<rparr>)
           | _ \<Rightarrow> Inl GoalCacheBroken))"

definition expect_current :: "goal_cache \<Rightarrow> goal_ref \<Rightarrow> (goal_service_error, goal_snapshot) result" where
  "expect_current c ref =
     (case gf_goal (gc_state c) of
        None \<Rightarrow> Inl GoalNotFound
      | Some cur \<Rightarrow>
          (if gr_id ref \<noteq> gs_id cur \<or> gr_revision ref \<noteq> gs_revision cur then Inl GoalStaleRevision else Inr cur))"

definition with_phase :: "goal_snapshot \<Rightarrow> goal_phase \<Rightarrow> goal_snapshot" where
  "with_phase cur phase =
     \<lparr>gs_id = gs_id cur, gs_revision = gs_revision cur + 1, gs_objective = gs_objective cur, gs_phase = phase,
      gs_blocked = None, gs_max_rounds = gs_max_rounds cur\<rparr>"

section \<open>The commit path\<close>

text \<open>
  The pending activation is attached to the sequence number the change is about to get, and is
  removed again whether or not the append succeeds.
\<close>

definition commit_change ::
    "int \<Rightarrow> goal_service \<Rightarrow> goal_cache \<Rightarrow> goal_change \<Rightarrow> goal_activation
       \<Rightarrow> goal_service \<times> (goal_service_error, goal_cache) result" where
  "commit_change at sv c change act =
     (let s = gsv_session sv in
      case append_event s at (GoalChange (goal_change_json change)) None None of
        Inl e \<Rightarrow> (sv\<lparr>gsv_cache := Some (c\<lparr>gc_pending := None\<rparr>)\<rparr>, Inl (GoalAppend e))
      | Inr (s', _) \<Rightarrow>
          (case sync_cache s' (c\<lparr>gc_pending := Some (length (ses_log s), act)\<rparr>) of
             (c', r) \<Rightarrow>
               (let c'' = c'\<lparr>gc_pending := None\<rparr> in
                (\<lparr>gsv_session = s', gsv_cache = Some c''\<rparr>,
                 (case r of Inl e \<Rightarrow> Inl (GoalReplay e) | Inr _ \<Rightarrow> Inr c'')))))"

definition commit_snapshot ::
    "int \<Rightarrow> goal_service \<Rightarrow> goal_cache \<Rightarrow> goal_operation \<Rightarrow> goal_snapshot \<Rightarrow> int \<Rightarrow> int \<Rightarrow> int \<Rightarrow> goal_activation
       \<Rightarrow> goal_service \<times> (goal_service_error, goal_view) result" where
  "commit_snapshot at sv c op g rounds created updated act =
     (case commit_change at sv c (SnapshotChange op g rounds created updated) act of
        (sv', Inl e) \<Rightarrow> (sv', Inl e)
      | (sv', Inr c') \<Rightarrow>
          (sv', (case view_of c' of
                   Inl e \<Rightarrow> Inl e
                 | Inr None \<Rightarrow> Inl GoalCacheBroken
                 | Inr (Some v) \<Rightarrow> Inr v)))"

definition next_mutation_time :: "int \<Rightarrow> goal_cache \<Rightarrow> (goal_service_error, int) result" where
  "next_mutation_time now c =
     (case gf_updated (gc_state c) of Some u \<Rightarrow> Inr (max now u) | None \<Rightarrow> Inl GoalCacheBroken)"

definition commit_current ::
    "int \<Rightarrow> int \<Rightarrow> goal_service \<Rightarrow> goal_cache \<Rightarrow> goal_operation \<Rightarrow> goal_snapshot \<Rightarrow> goal_activation
       \<Rightarrow> goal_service \<times> (goal_service_error, goal_view) result" where
  "commit_current now at sv c op g act =
     (case (gf_created (gc_state c), next_mutation_time now c) of
        (Some created, Inr t) \<Rightarrow> commit_snapshot at sv c op g (gf_rounds (gc_state c)) created t act
      | _ \<Rightarrow> (sv, Inl GoalCacheBroken))"

section \<open>Operations\<close>

text \<open>Every mutation prepares the cache, checks, and commits; the first error wins.\<close>

definition with_current ::
    "bool \<Rightarrow> goal_service \<Rightarrow> goal_ref
       \<Rightarrow> (goal_service \<Rightarrow> goal_cache \<Rightarrow> goal_snapshot \<Rightarrow> goal_service \<times> (goal_service_error, 'a) result)
       \<Rightarrow> goal_service \<times> (goal_service_error, 'a) result" where
  "with_current live sv ref k =
     (case prepare_mutation live sv of
        (sv', Inl e) \<Rightarrow> (sv', Inl e)
      | (sv', Inr c) \<Rightarrow>
          (case expect_current c ref of Inl e \<Rightarrow> (sv', Inl e) | Inr cur \<Rightarrow> k sv' c cur))"

definition goal_get :: "bool \<Rightarrow> goal_service \<Rightarrow> goal_service \<times> (goal_service_error, goal_view option) result" where
  "goal_get live sv =
     (case prepare_mutation live sv of
        (sv', Inl e) \<Rightarrow> (sv', Inl e)
      | (sv', Inr c) \<Rightarrow> (sv', view_of c))"

definition goal_disarm :: "bool \<Rightarrow> goal_service \<Rightarrow> goal_service \<times> (goal_service_error, goal_view option) result" where
  "goal_disarm live sv =
     (case prepare_mutation live sv of
        (sv', Inl e) \<Rightarrow> (sv', Inl e)
      | (sv', Inr c) \<Rightarrow>
          (let c' = c\<lparr>gc_activation := Disarmed\<rparr> in (sv'\<lparr>gsv_cache := Some c'\<rparr>, view_of c')))"

definition goal_create ::
    "int \<Rightarrow> bool \<Rightarrow> int \<Rightarrow> int \<Rightarrow> string \<Rightarrow> goal_service \<Rightarrow> json option \<Rightarrow> json option
       \<Rightarrow> goal_service \<times> (goal_service_error, goal_view) result" where
  "goal_create default_rounds live now at fresh sv objective rounds =
     (case resolve_create_goal default_rounds objective rounds of
        Inl e \<Rightarrow> (sv, Inl e)
      | Inr (o', n) \<Rightarrow>
          (case prepare_mutation live sv of
             (sv', Inl e) \<Rightarrow> (sv', Inl e)
           | (sv', Inr c) \<Rightarrow>
               (if (case gf_goal (gc_state c) of Some cur \<Rightarrow> gs_phase cur \<noteq> PhaseComplete | None \<Rightarrow> False)
                then (sv', Inl GoalAlreadyExists)
                else commit_snapshot at sv' c GoalCreate
                       \<lparr>gs_id = ''goal-'' @ fresh, gs_revision = 1, gs_objective = o', gs_phase = PhaseActive,
                        gs_blocked = None, gs_max_rounds = n\<rparr> 0 now now Armed)))"

definition edited_goal :: "goal_snapshot \<Rightarrow> json option \<Rightarrow> json option \<Rightarrow> (goal_service_error, goal_snapshot) result" where
  "edited_goal cur objective rounds =
     rbind (if objective = None then Inr (gs_objective cur) else resolve_objective objective)
       (\<lambda>o'. rmap (\<lambda>n. cur\<lparr>gs_revision := gs_revision cur + 1, gs_objective := o', gs_max_rounds := n\<rparr>)
          (if rounds = None then Inr (gs_max_rounds cur) else resolve_max_rounds rounds))"

definition goal_edit ::
    "bool \<Rightarrow> int \<Rightarrow> int \<Rightarrow> goal_service \<Rightarrow> goal_ref \<Rightarrow> json option \<Rightarrow> json option
       \<Rightarrow> goal_service \<times> (goal_service_error, goal_view) result" where
  "goal_edit live now at sv ref objective rounds =
     with_current live sv ref
       (\<lambda>sv' c cur.
          if objective = None \<and> rounds = None then (sv', Inl GoalInvalidEdit)
          else (case edited_goal cur objective rounds of
                  Inl e \<Rightarrow> (sv', Inl e)
                | Inr g \<Rightarrow> commit_current now at sv' c GoalEdit g (gc_activation c)))"

definition transition_goal ::
    "bool \<Rightarrow> int \<Rightarrow> int \<Rightarrow> goal_service \<Rightarrow> goal_ref \<Rightarrow> goal_operation \<Rightarrow> goal_phase list \<Rightarrow> goal_phase \<Rightarrow> goal_activation
       \<Rightarrow> goal_service \<times> (goal_service_error, goal_view) result" where
  "transition_goal live now at sv ref op allowed phase act =
     with_current live sv ref
       (\<lambda>sv' c cur.
          if gs_phase cur \<notin> set allowed then (sv', Inl GoalInvalidTransition)
          else commit_current now at sv' c op (with_phase cur phase) act)"

definition goal_pause :: "bool \<Rightarrow> int \<Rightarrow> int \<Rightarrow> goal_service \<Rightarrow> goal_ref \<Rightarrow> goal_service \<times> (goal_service_error, goal_view) result" where
  "goal_pause live now at sv ref = transition_goal live now at sv ref GoalPause [PhaseActive] PhasePaused Disarmed"

definition goal_resume :: "bool \<Rightarrow> int \<Rightarrow> int \<Rightarrow> goal_service \<Rightarrow> goal_ref \<Rightarrow> goal_service \<times> (goal_service_error, goal_view) result" where
  "goal_resume live now at sv ref =
     with_current live sv ref
       (\<lambda>sv' c cur.
          if gs_phase cur \<notin> {PhaseActive, PhasePaused, PhaseBlocked} then (sv', Inl GoalInvalidTransition)
          else if gs_phase cur = PhaseActive \<and> gc_activation c = Armed then (sv', Inl GoalInvalidTransition)
          else if gs_max_rounds cur \<le> gf_rounds (gc_state c) then (sv', Inl GoalInvalidTransition)
          else commit_current now at sv' c GoalResume (with_phase cur PhaseActive) Armed)"

definition goal_complete :: "bool \<Rightarrow> int \<Rightarrow> int \<Rightarrow> goal_service \<Rightarrow> goal_ref \<Rightarrow> goal_service \<times> (goal_service_error, goal_view) result" where
  "goal_complete live now at sv ref =
     transition_goal live now at sv ref GoalComplete [PhaseActive, PhasePaused, PhaseBlocked] PhaseComplete Disarmed"

definition goal_block ::
    "bool \<Rightarrow> int \<Rightarrow> int \<Rightarrow> goal_service \<Rightarrow> goal_ref \<Rightarrow> json \<Rightarrow> goal_service \<times> (goal_service_error, goal_view) result" where
  "goal_block live now at sv ref reason =
     with_current live sv ref
       (\<lambda>sv' c cur.
          if gs_phase cur \<noteq> PhaseActive then (sv', Inl GoalInvalidTransition)
          else (case resolve_block_reason reason of
                  Inl e \<Rightarrow> (sv', Inl e)
                | Inr b \<Rightarrow> commit_current now at sv' c GoalBlock
                             ((with_phase cur PhaseBlocked)\<lparr>gs_blocked := Some b\<rparr>) Disarmed))"

definition goal_clear :: "bool \<Rightarrow> int \<Rightarrow> int \<Rightarrow> goal_service \<Rightarrow> goal_ref \<Rightarrow> goal_service \<times> (goal_service_error, goal_ref) result" where
  "goal_clear live now at sv ref =
     with_current live sv ref
       (\<lambda>sv' c cur.
          (case next_mutation_time now c of
             Inl e \<Rightarrow> (sv', Inl e)
           | Inr t \<Rightarrow>
               (let tombstone = \<lparr>gr_id = gs_id cur, gr_revision = gs_revision cur + 1\<rparr> in
                case commit_change at sv' c (ClearChange tombstone t) Disarmed of
                  (sv'', Inl e) \<Rightarrow> (sv'', Inl e)
                | (sv'', Inr c') \<Rightarrow> (sv'', rmap (\<lambda>_. tombstone) (view_of c')))))"

end
