(* ===== verification/Goal_Safety.thy ===== *)
theory Goal_Safety
  imports Goal_Service
begin

text \<open>
  The service never writes what the replay refuses: each operation, run on a session whose goal
  stream folds, either logs nothing or logs one change that the strict fold accepts, and its
  cache is the fold of the log it has observed. A mutation against a reference that is not the
  current one is refused.
\<close>

section \<open>The service invariant\<close>

definition cache_tracks :: "session \<Rightarrow> goal_cache \<Rightarrow> bool" where
  "cache_tracks s c \<longleftrightarrow>
     gc_pending c = None \<and> gc_observed c \<le> length (ses_log s)
     \<and> fold_goal (take (gc_observed c) (ses_log s)) = Inr (gc_state c)"

definition service_ok :: "goal_service \<Rightarrow> bool" where
  "service_ok sv \<longleftrightarrow>
     session_ok (gsv_session sv) \<and> is_ok (fold_goal (ses_log (gsv_session sv)))
     \<and> (case gsv_cache sv of None \<Rightarrow> True | Some c \<Rightarrow> cache_tracks (gsv_session sv) c)"

definition synced :: "session \<Rightarrow> goal_cache \<Rightarrow> bool" where
  "synced s c \<longleftrightarrow> gc_pending c = None \<and> gc_observed c = length (ses_log s) \<and> fold_goal (ses_log s) = Inr (gc_state c)"

lemma synced_tracks: "synced s c \<Longrightarrow> cache_tracks s c"
  by (simp add: synced_def cache_tracks_def)

lemma sync_events_ok:
  assumes "fold_log apply_goal_event (gc_state c) es = Inr st"
  shows "\<exists>c'. sync_events c es = (c', Inr ()) \<and> gc_state c' = st
    \<and> gc_observed c' = gc_observed c + length es \<and> gc_pending c' = gc_pending c"
  using assms
proof (induction es arbitrary: c)
  case (Cons e es)
  then obtain u where u: "apply_goal_event (gc_state c) e = Inr u" "fold_log apply_goal_event u es = Inr st"
    by (auto simp: rbind_eq_Inr)
  then obtain c1 where c1: "observe c e = Inr c1" "gc_state c1 = u" "gc_observed c1 = gc_observed c + 1"
      "gc_pending c1 = gc_pending c"
    by (simp add: observe_def)
  with Cons.IH [of c1] u(2) show ?case by auto
qed simp

lemma sync_cache_ok:
  assumes "cache_tracks s c" "fold_goal (ses_log s) = Inr st"
  shows "\<exists>c'. sync_cache s c = (c', Inr ()) \<and> synced s c' \<and> gc_state c' = st"
proof -
  have "fold_goal (take (gc_observed c) (ses_log s) @ drop (gc_observed c) (ses_log s)) = Inr st"
    using assms(2) by simp
  then have "fold_log apply_goal_event (gc_state c) (drop (gc_observed c) (ses_log s)) = Inr st"
    using assms(1) unfolding fold_goal_def fold_log_append by (simp add: cache_tracks_def fold_goal_def)
  from sync_events_ok [OF this] show ?thesis
    using assms by (auto simp: sync_cache_def synced_def cache_tracks_def)
qed

lemma prepare_mutation_ok:
  assumes "service_ok sv"
  shows "\<exists>c. prepare_mutation True sv = (sv\<lparr>gsv_cache := Some c\<rparr>, Inr c) \<and> synced (gsv_session sv) c"
proof -
  obtain st where st: "fold_goal (ses_log (gsv_session sv)) = Inr st"
    using assms by (auto simp: service_ok_def is_ok_iff)
  show ?thesis
  proof (cases "gsv_cache sv")
    case None
    let ?c = "\<lparr>gc_state = st, gc_activation = Disarmed, gc_observed = length (ses_log (gsv_session sv)), gc_pending = None\<rparr>"
    have "cache_of sv = Inr ?c" using None st by (simp add: cache_of_def build_cache_def fold_goal_def)
    then show ?thesis using st by (simp add: prepare_mutation_def sync_cache_def synced_def)
  next
    case (Some c)
    then have "cache_tracks (gsv_session sv) c" using assms by (simp add: service_ok_def)
    from sync_cache_ok [OF this st] Some show ?thesis by (auto simp: prepare_mutation_def cache_of_def)
  qed
qed

lemma prepare_mutation_dead: "prepare_mutation False sv = (sv, Inl GoalAgentNotLive)"
  by (simp add: prepare_mutation_def)

text \<open>A revision counts changes, so it is bounded by the length of the log.\<close>

lemma revision_bound:
  "fold_goal events = Inr st \<Longrightarrow> gf_goal st = Some g \<Longrightarrow> gs_revision g \<le> int (length events)"
  unfolding fold_goal_def
proof (induction events arbitrary: st g rule: rev_induct)
  case Nil
  then show ?case by (auto simp: empty_goal_fold_state_def)
next
  case (snoc e events)
  then obtain u where u: "fold_log apply_goal_event empty_goal_fold_state events = Inr u" "apply_goal_event u e = Inr st"
    by (auto simp: fold_log_snoc rbind_eq_Inr)
  from u(2) show ?case
  proof (cases rule: apply_goal_event_cases)
    case (change j c)
    from change(3) show ?thesis
    proof (cases rule: apply_goal_change_cases)
      case clear
      with snoc.prems show ?thesis by simp
    next
      case create
      with snoc.prems show ?thesis by (simp add: install_snapshot_def)
    next
      case (advance op g' created updated cur)
      then have "gs_revision cur \<le> int (length events)" using snoc.IH [OF u(1)] by blast
      with advance snoc.prems show ?thesis
        by (simp add: install_snapshot_def is_next_revision_def snapshot_ref_def)
    qed
  next
    case (round m gid revision n)
    from round(3) show ?thesis
      by (rule admit_round_cases) (use snoc.prems snoc.IH [OF u(1)] in fastforce)
  next
    case other
    with snoc.prems snoc.IH [OF u(1)] show ?thesis by fastforce
  qed
qed

section \<open>The commit path\<close>

lemma commit_change_ok:
  assumes ok: "service_ok sv" and sync: "synced (gsv_session sv) c"
    and c: "change_ok change" and app: "apply_goal_change (gc_state c) change = Inr st'"
  shows "\<exists>sv' c' e. commit_change at sv c change act = (sv', Inr c') \<and> service_ok sv'
    \<and> ses_log (gsv_session sv') = ses_log (gsv_session sv) @ [e] \<and> event_refs e = [goal_change_ref change]
    \<and> gc_state c' = st' \<and> gc_activation c' = act \<and> gsv_cache sv' = Some c'"
proof -
  let ?s = "gsv_session sv" and ?d = "GoalChange (goal_change_json change)"
  have sok: "session_ok ?s" using ok by (simp add: service_ok_def)
  obtain s' e where a: "append_event ?s at ?d None None = Inr (s', e)" "session_ok s'" "ses_log s' = ses_log ?s @ [e]"
      "ev_data e = ?d" "ev_seq e = length (ses_log ?s)"
    using append_log_only [OF sok, of ?d at] by auto
  note dec = decode_change_json [OF c]
  have ev: "apply_goal_event (gc_state c) e = Inr st'" using a(4) dec app by (simp add: apply_goal_event_def)
  have fold: "fold_goal (ses_log s') = Inr st'"
    using sync ev a(3) by (simp add: synced_def fold_goal_def fold_log_snoc)
  have obs: "gc_observed c = length (ses_log ?s)" using sync by (simp add: synced_def)
  let ?c' = "\<lparr>gc_state = st', gc_activation = act, gc_observed = Suc (length (ses_log ?s)), gc_pending = None\<rparr>"
  have "commit_change at sv c change act = (\<lparr>gsv_session = s', gsv_cache = Some ?c'\<rparr>, Inr ?c')"
    using a obs ev by (cases c) (simp add: commit_change_def sync_cache_def observe_def is_goal_change_def Let_def)
  moreover have "service_ok \<lparr>gsv_session = s', gsv_cache = Some ?c'\<rparr>"
    using a fold by (simp add: service_ok_def cache_tracks_def)
  moreover have "event_refs e = [goal_change_ref change]" using a(4) dec by (simp add: event_refs_def)
  ultimately show ?thesis using a(3) by auto
qed

lemma view_of_ok:
  assumes "goal_wf (gc_state c)"
  shows "view_of c = (case gf_goal (gc_state c) of None \<Rightarrow> Inr None
    | Some g \<Rightarrow> Inr (Some \<lparr>gv_goal = g, gv_rounds = gf_rounds (gc_state c), gv_created = the (gf_created (gc_state c)),
                          gv_updated = the (gf_updated (gc_state c)), gv_activation = gc_activation c\<rparr>))"
  using assms by (auto simp: view_of_def goal_wf_def split: option.splits)

lemma synced_wf: "synced s c \<Longrightarrow> goal_wf (gc_state c)"
  unfolding synced_def fold_goal_def using goal.wf_fold by blast

text \<open>What a mutation may do: refuse and log nothing, or log the one change it reports.\<close>

definition outcome_ok :: "goal_service \<Rightarrow> goal_service \<times> ('x, goal_ref) result \<Rightarrow> bool" where
  "outcome_ok sv r =
     (case r of
        (sv', Inl _) \<Rightarrow> service_ok sv' \<and> ses_log (gsv_session sv') = ses_log (gsv_session sv)
      | (sv', Inr ref) \<Rightarrow> service_ok sv'
          \<and> (\<exists>e. ses_log (gsv_session sv') = ses_log (gsv_session sv) @ [e] \<and> event_refs e = [ref]))"

definition view_ref :: "goal_view \<Rightarrow> goal_ref" where
  "view_ref v = snapshot_ref (gv_goal v)"

lemma outcome_refused: "service_ok sv' \<Longrightarrow> gsv_session sv' = gsv_session sv \<Longrightarrow> outcome_ok sv (sv', Inl x)"
  by (simp add: outcome_ok_def)

lemma commit_snapshot_ok:
  assumes ok: "service_ok sv" and sync: "synced (gsv_session sv) c"
    and c: "change_ok (SnapshotChange op g rounds created updated)"
    and app: "apply_goal_change (gc_state c) (SnapshotChange op g rounds created updated)
        = Inr (install_snapshot st g rounds created updated)"
  shows "\<exists>sv' v. commit_snapshot at sv c op g rounds created updated act = (sv', Inr v)
    \<and> gv_goal v = g \<and> gv_activation v = act \<and> outcome_ok sv (sv', Inr (view_ref v))"
proof -
  obtain sv' c' e where r: "commit_change at sv c (SnapshotChange op g rounds created updated) act = (sv', Inr c')"
      "service_ok sv'" "ses_log (gsv_session sv') = ses_log (gsv_session sv) @ [e]" "event_refs e = [snapshot_ref g]"
      "gc_state c' = install_snapshot st g rounds created updated" "gc_activation c' = act"
    using commit_change_ok [OF ok sync c app, of at act] by auto
  then have "view_of c' = Inr (Some \<lparr>gv_goal = g, gv_rounds = rounds, gv_created = created, gv_updated = updated,
      gv_activation = act\<rparr>)" by (simp add: view_of_def install_snapshot_def)
  with r show ?thesis by (simp add: commit_snapshot_def outcome_ok_def view_ref_def)
qed

section \<open>Each operation\<close>

lemma commit_current_ok:
  assumes ok: "service_ok sv" and sync: "synced (gsv_session sv) c" and cur: "gf_goal (gc_state c) = Some cur"
    and g: "snapshot_ok g" "is_next_revision cur (snapshot_ref g)"
    and op: "op \<noteq> GoalCreate" "phase_transition_ok op cur g (gf_rounds (gc_state c))" and now: "time_ok now"
  shows "\<exists>sv' v. commit_current now at sv c op g act = (sv', Inr v)
    \<and> gv_goal v = g \<and> gv_activation v = act \<and> outcome_ok sv (sv', Inr (view_ref v))"
proof -
  obtain created updated where t: "gf_created (gc_state c) = Some created" "gf_updated (gc_state c) = Some updated"
      "time_ok created" "time_ok updated" "created \<le> updated" "safe_int (gf_rounds (gc_state c))" "0 \<le> gf_rounds (gc_state c)"
    using synced_wf [OF sync] cur by (auto simp: goal_wf_def)
  let ?t = "max now updated" and ?r = "gf_rounds (gc_state c)"
  have ch: "change_ok (SnapshotChange op g ?r created ?t)" using g(1) t now by (auto simp: max_def)
  have app: "apply_goal_change (gc_state c) (SnapshotChange op g ?r created ?t)
      = Inr (install_snapshot (gc_state c) g ?r created ?t)"
    using op cur g(2) t by (simp add: validate_snapshot_transition_def ensure_def)
  from commit_snapshot_ok [OF ok sync ch app, of at act] t show ?thesis
    by (simp add: commit_current_def next_mutation_time_def)
qed

text \<open>The continuation of a mutation runs only on the current goal, named by its exact reference.\<close>

lemma with_current_ok:
  assumes ok: "service_ok sv"
    and k: "\<And>sv' c cur. service_ok sv' \<Longrightarrow> gsv_session sv' = gsv_session sv \<Longrightarrow> synced (gsv_session sv') c
        \<Longrightarrow> gf_goal (gc_state c) = Some cur \<Longrightarrow> snapshot_ref cur = ref \<Longrightarrow> Q (k sv' c cur)"
    and refuse: "\<And>sv' x. service_ok sv' \<Longrightarrow> gsv_session sv' = gsv_session sv \<Longrightarrow> Q (sv', Inl x)"
  shows "Q (with_current live sv ref k)"
proof (cases live)
  case False
  then show ?thesis using ok refuse by (simp add: with_current_def prepare_mutation_dead)
next
  case True
  obtain c where p: "prepare_mutation True sv = (sv\<lparr>gsv_cache := Some c\<rparr>, Inr c)" "synced (gsv_session sv) c"
    using prepare_mutation_ok [OF ok] by blast
  have ok': "service_ok (sv\<lparr>gsv_cache := Some c\<rparr>)"
    using ok synced_tracks [OF p(2)] by (simp add: service_ok_def)
  show ?thesis
  proof (cases "expect_current c ref")
    case (Inl x)
    with True p refuse [OF ok'] show ?thesis by (simp add: with_current_def)
  next
    case (Inr cur)
    then have "gf_goal (gc_state c) = Some cur" "snapshot_ref cur = ref"
      by (auto simp: expect_current_def snapshot_ref_def split: option.splits if_splits)
    with True p Inr k [OF ok'] show ?thesis by (simp add: with_current_def)
  qed
qed

lemma current_snapshot:
  assumes "synced s c" "gf_goal (gc_state c) = Some cur" "int (length (ses_log s)) < max_safe_integer"
  shows "snapshot_ok cur" "safe_int (gs_revision cur + 1)"
proof -
  show ok: "snapshot_ok cur" using synced_wf [OF assms(1)] assms(2) by (simp add: goal_wf_def)
  have "gs_revision cur \<le> int (length (ses_log s))"
    using revision_bound assms(1,2) by (auto simp: synced_def)
  with assms(3) ok show "safe_int (gs_revision cur + 1)" by (simp add: safe_int_def snapshot_ok_def)
qed

lemma with_phase_ok:
  assumes "snapshot_ok cur" "safe_int (gs_revision cur + 1)" "p \<noteq> PhaseBlocked"
  shows "snapshot_ok (with_phase cur p)" "is_next_revision cur (snapshot_ref (with_phase cur p))"
    "same_definition cur (with_phase cur p)" "gs_phase (with_phase cur p) = p"
  using assms by (auto simp: snapshot_ok_def with_phase_def is_next_revision_def snapshot_ref_def same_definition_def)

lemma block_phase_ok:
  assumes "snapshot_ok cur" "safe_int (gs_revision cur + 1)" "reason_ok b"
  shows "snapshot_ok ((with_phase cur PhaseBlocked)\<lparr>gs_blocked := Some b\<rparr>)"
  using assms by (auto simp: snapshot_ok_def with_phase_def)

definition ref_result :: "goal_service \<times> (goal_service_error, goal_view) result \<Rightarrow> goal_service \<times> (goal_service_error, goal_ref) result" where
  "ref_result r = (fst r, rmap view_ref (snd r))"

lemma ref_result_simps [simp]: "ref_result (sv, Inl e) = (sv, Inl e)" "ref_result (sv, Inr v) = (sv, Inr (view_ref v))"
  by (simp_all add: ref_result_def)

text \<open>A mutation whose continuation commits a legal transition meets its contract.\<close>

lemma outcome_current:
  assumes "service_ok sv'" "gsv_session sv' = gsv_session sv" "synced (gsv_session sv') c" "gf_goal (gc_state c) = Some cur"
    and "snapshot_ok g" "is_next_revision cur (snapshot_ref g)"
    and "op \<noteq> GoalCreate" "phase_transition_ok op cur g (gf_rounds (gc_state c))" "time_ok now"
  shows "outcome_ok sv (ref_result (commit_current now at sv' c op g act))"
proof -
  obtain sv'' v where "commit_current now at sv' c op g act = (sv'', Inr v)" "outcome_ok sv' (sv'', Inr (view_ref v))"
    using commit_current_ok [OF assms(1,3,4,5,6,7,8,9), of at act] by blast
  with assms(2) show ?thesis by (simp add: outcome_ok_def)
qed

lemma outcome_refused_ref: "service_ok sv' \<Longrightarrow> gsv_session sv' = gsv_session sv \<Longrightarrow> outcome_ok sv (ref_result (sv', Inl x))"
  by (simp add: outcome_ok_def)

lemma resolve_objective_ok: "resolve_objective v = Inr s \<Longrightarrow> normalized_text s"
  by (auto simp: resolve_objective_def normalized_text_def split: option.splits if_splits)

lemma resolve_max_rounds_ok: "resolve_max_rounds v = Inr n \<Longrightarrow> safe_int n \<and> 1 \<le> n"
  using safe_int_of_eq [of v] by (auto simp: resolve_max_rounds_def split: option.splits if_splits)

lemma resolve_block_reason_ok: "resolve_block_reason j = Inr b \<Longrightarrow> reason_ok b"
  by (auto simp: resolve_block_reason_def reason_ok_def normalized_text_def split: json.splits option.splits if_splits)

lemma edited_goal_ok:
  assumes "edited_goal cur objective rounds = Inr g" "snapshot_ok cur" "safe_int (gs_revision cur + 1)"
  shows "snapshot_ok g" "is_next_revision cur (snapshot_ref g)" "gs_phase g = gs_phase cur" "gs_blocked g = gs_blocked cur"
proof -
  obtain o' n where g: "g = cur\<lparr>gs_revision := gs_revision cur + 1, gs_objective := o', gs_max_rounds := n\<rparr>"
    and o': "(if objective = None then Inr (gs_objective cur) else resolve_objective objective) = Inr o'"
    and n: "(if rounds = None then Inr (gs_max_rounds cur) else resolve_max_rounds rounds) = Inr n"
    using assms(1) by (auto simp: edited_goal_def rbind_eq_Inr rmap_eq_Inr)
  have "normalized_text o'" using o' assms(2) resolve_objective_ok by (auto simp: snapshot_ok_def split: if_splits)
  moreover have "safe_int n \<and> 1 \<le> n" using n assms(2) resolve_max_rounds_ok by (auto simp: snapshot_ok_def split: if_splits)
  ultimately show "snapshot_ok g" using g assms(2,3) by (simp add: snapshot_ok_def)
  show "is_next_revision cur (snapshot_ref g)" "gs_phase g = gs_phase cur" "gs_blocked g = gs_blocked cur"
    using g by (simp_all add: is_next_revision_def snapshot_ref_def)
qed

section \<open>All operations\<close>

datatype goal_command =
    CmdCreate string "json option" "json option"
  | CmdEdit goal_ref "json option" "json option"
  | CmdPause goal_ref
  | CmdResume goal_ref
  | CmdComplete goal_ref
  | CmdBlock goal_ref json
  | CmdClear goal_ref

text \<open>One mutation, answered with the reference of the change it logged.\<close>

fun run_goal ::
    "int \<Rightarrow> bool \<Rightarrow> int \<Rightarrow> int \<Rightarrow> goal_service \<Rightarrow> goal_command \<Rightarrow> goal_service \<times> (goal_service_error, goal_ref) result" where
  "run_goal default_rounds live now at sv (CmdCreate fresh objective rounds) =
     ref_result (goal_create default_rounds live now at fresh sv objective rounds)"
| "run_goal _ live now at sv (CmdEdit ref objective rounds) = ref_result (goal_edit live now at sv ref objective rounds)"
| "run_goal _ live now at sv (CmdPause ref) = ref_result (goal_pause live now at sv ref)"
| "run_goal _ live now at sv (CmdResume ref) = ref_result (goal_resume live now at sv ref)"
| "run_goal _ live now at sv (CmdComplete ref) = ref_result (goal_complete live now at sv ref)"
| "run_goal _ live now at sv (CmdBlock ref reason) = ref_result (goal_block live now at sv ref reason)"
| "run_goal _ live now at sv (CmdClear ref) = goal_clear live now at sv ref"

text \<open>A generated identifier no earlier goal of the log used.\<close>

definition fresh_for :: "goal_command \<Rightarrow> goal_service \<Rightarrow> bool" where
  "fresh_for cmd sv =
     (case cmd of
        CmdCreate fresh _ _ \<Rightarrow>
          (case fold_goal (ses_log (gsv_session sv)) of
             Inr st \<Rightarrow> ''goal-'' @ fresh \<notin> set (gf_seen st)
           | Inl _ \<Rightarrow> True)
      | _ \<Rightarrow> True)"

lemma goal_edit_ok:
  assumes "service_ok sv" "int (length (ses_log (gsv_session sv))) < max_safe_integer" "time_ok now"
  shows "outcome_ok sv (ref_result (goal_edit live now at sv ref objective rounds))"
  unfolding goal_edit_def
proof (rule with_current_ok [OF assms(1)])
  fix sv' c cur
  assume h: "service_ok sv'" "gsv_session sv' = gsv_session sv" "synced (gsv_session sv') c" "gf_goal (gc_state c) = Some cur"
  have len: "int (length (ses_log (gsv_session sv'))) < max_safe_integer" using assms(2) h(2) by simp
  note cur = current_snapshot [OF h(3,4) len]
  show "outcome_ok sv (ref_result
     (if objective = None \<and> rounds = None then (sv', Inl GoalInvalidEdit)
      else case edited_goal cur objective rounds of Inl e \<Rightarrow> (sv', Inl e)
         | Inr g \<Rightarrow> commit_current now at sv' c GoalEdit g (gc_activation c)))"
  proof (cases "objective = None \<and> rounds = None")
    case True
    then show ?thesis using h(1,2) by (simp add: outcome_refused)
  next
    case False
    show ?thesis
    proof (cases "edited_goal cur objective rounds")
      case (Inl e)
      then show ?thesis using False h(1,2) by (auto simp: outcome_refused)
    next
      case (Inr g)
      note e = edited_goal_ok [OF Inr cur]
      have "outcome_ok sv (ref_result (commit_current now at sv' c GoalEdit g (gc_activation c)))"
        by (rule outcome_current [OF h(1-4) e(1,2) _ _ assms(3)]) (simp_all add: phase_transition_ok_def e(3,4))
      with Inr False show ?thesis by auto
    qed
  qed
qed (simp add: outcome_refused)

lemma transition_goal_ok:
  assumes ok: "service_ok sv" and len: "int (length (ses_log (gsv_session sv))) < max_safe_integer" and now: "time_ok now"
    and op: "op \<noteq> GoalCreate" "phase \<noteq> PhaseBlocked"
    and legal: "\<And>cur g r. gs_phase cur \<in> set allowed \<Longrightarrow> same_definition cur g \<Longrightarrow> gs_phase g = phase \<Longrightarrow> phase_transition_ok op cur g r"
  shows "outcome_ok sv (ref_result (transition_goal live now at sv ref op allowed phase act))"
  unfolding transition_goal_def
proof (rule with_current_ok [OF ok])
  fix sv' c cur
  assume h: "service_ok sv'" "gsv_session sv' = gsv_session sv" "synced (gsv_session sv') c" "gf_goal (gc_state c) = Some cur"
  have len': "int (length (ses_log (gsv_session sv'))) < max_safe_integer" using len h(2) by simp
  note p = with_phase_ok [OF current_snapshot [OF h(3,4) len'] op(2)]
  show "outcome_ok sv (ref_result
     (if gs_phase cur \<notin> set allowed then (sv', Inl GoalInvalidTransition)
      else commit_current now at sv' c op (with_phase cur phase) act))"
    using h(1,2) outcome_current [OF h(1-4) p(1,2) op(1) legal [OF _ p(3,4)] now, of at act]
    by (simp add: outcome_refused)
qed (simp add: outcome_refused)

lemma goal_resume_ok:
  assumes ok: "service_ok sv" and len: "int (length (ses_log (gsv_session sv))) < max_safe_integer" and now: "time_ok now"
  shows "outcome_ok sv (ref_result (goal_resume live now at sv ref))"
  unfolding goal_resume_def
proof (rule with_current_ok [OF ok])
  fix sv' c cur
  assume h: "service_ok sv'" "gsv_session sv' = gsv_session sv" "synced (gsv_session sv') c" "gf_goal (gc_state c) = Some cur"
  have len': "int (length (ses_log (gsv_session sv'))) < max_safe_integer" using len h(2) by simp
  have na: "PhaseActive \<noteq> PhaseBlocked" by simp
  note p = with_phase_ok [OF current_snapshot [OF h(3,4) len'] na]
  have legal: "gs_phase cur \<in> {PhaseActive, PhasePaused, PhaseBlocked} \<Longrightarrow> gf_rounds (gc_state c) < gs_max_rounds cur
      \<Longrightarrow> phase_transition_ok GoalResume cur (with_phase cur PhaseActive) (gf_rounds (gc_state c))"
    using p(3) by (simp add: phase_transition_ok_def with_phase_def)
  show "outcome_ok sv (ref_result
     (if gs_phase cur \<notin> {PhaseActive, PhasePaused, PhaseBlocked} then (sv', Inl GoalInvalidTransition)
      else if gs_phase cur = PhaseActive \<and> gc_activation c = Armed then (sv', Inl GoalInvalidTransition)
      else if gs_max_rounds cur \<le> gf_rounds (gc_state c) then (sv', Inl GoalInvalidTransition)
      else commit_current now at sv' c GoalResume (with_phase cur PhaseActive) Armed))"
    using h(1,2) outcome_current [OF h(1-4) p(1,2) _ legal now, of at Armed]
    by (simp add: outcome_refused)
qed (simp add: outcome_refused)

lemma goal_block_ok:
  assumes ok: "service_ok sv" and len: "int (length (ses_log (gsv_session sv))) < max_safe_integer" and now: "time_ok now"
  shows "outcome_ok sv (ref_result (goal_block live now at sv ref reason))"
  unfolding goal_block_def
proof (rule with_current_ok [OF ok])
  fix sv' c cur
  assume h: "service_ok sv'" "gsv_session sv' = gsv_session sv" "synced (gsv_session sv') c" "gf_goal (gc_state c) = Some cur"
  have len': "int (length (ses_log (gsv_session sv'))) < max_safe_integer" using len h(2) by simp
  note cur = current_snapshot [OF h(3,4) len']
  show "outcome_ok sv (ref_result
     (if gs_phase cur \<noteq> PhaseActive then (sv', Inl GoalInvalidTransition)
      else case resolve_block_reason reason of Inl e \<Rightarrow> (sv', Inl e)
         | Inr b \<Rightarrow> commit_current now at sv' c GoalBlock ((with_phase cur PhaseBlocked)\<lparr>gs_blocked := Some b\<rparr>) Disarmed))"
  proof (cases "resolve_block_reason reason")
    case (Inl e)
    then show ?thesis using h(1,2) by (simp add: outcome_refused)
  next
    case (Inr b)
    let ?g = "(with_phase cur PhaseBlocked)\<lparr>gs_blocked := Some b\<rparr>"
    have g: "snapshot_ok ?g" by (rule block_phase_ok [OF cur resolve_block_reason_ok [OF Inr]])
    have nxt: "is_next_revision cur (snapshot_ref ?g)" by (simp add: is_next_revision_def snapshot_ref_def with_phase_def)
    have legal: "gs_phase cur = PhaseActive \<Longrightarrow> phase_transition_ok GoalBlock cur ?g (gf_rounds (gc_state c))"
      by (simp add: phase_transition_ok_def same_definition_def with_phase_def)
    show ?thesis
      using Inr h(1,2) outcome_current [OF h(1-4) g nxt _ legal now, of at Disarmed] by (simp add: outcome_refused)
  qed
qed (simp add: outcome_refused)

lemma goal_clear_ok:
  assumes ok: "service_ok sv" and len: "int (length (ses_log (gsv_session sv))) < max_safe_integer" and now: "time_ok now"
  shows "outcome_ok sv (goal_clear live now at sv ref)"
  unfolding goal_clear_def
proof (rule with_current_ok [OF ok])
  fix sv' c cur
  assume h: "service_ok sv'" "gsv_session sv' = gsv_session sv" "synced (gsv_session sv') c" "gf_goal (gc_state c) = Some cur"
  have len': "int (length (ses_log (gsv_session sv'))) < max_safe_integer" using len h(2) by simp
  note cur = current_snapshot [OF h(3,4) len']
  obtain u where u: "gf_updated (gc_state c) = Some u" "time_ok u"
    using synced_wf [OF h(3)] h(4) by (auto simp: goal_wf_def)
  let ?ref = "\<lparr>gr_id = gs_id cur, gr_revision = gs_revision cur + 1\<rparr>"
  let ?st = "(gc_state c)\<lparr>gf_goal := None, gf_rounds := 0, gf_created := None, gf_updated := None, gf_last_ref := Some ?ref\<rparr>"
  have "change_ok (ClearChange ?ref (max now u))" using cur u(2) now by (auto simp: snapshot_ok_def max_def)
  moreover have "apply_goal_change (gc_state c) (ClearChange ?ref (max now u)) = Inr ?st"
    using h(4) u(1) by (simp add: is_next_revision_def)
  ultimately obtain sv'' c' e where r: "commit_change at sv' c (ClearChange ?ref (max now u)) Disarmed = (sv'', Inr c')"
      "service_ok sv''" "ses_log (gsv_session sv'') = ses_log (gsv_session sv') @ [e]" "event_refs e = [?ref]"
      "gc_state c' = ?st"
    using commit_change_ok [OF h(1,3), of "ClearChange ?ref (max now u)" ?st at Disarmed] by auto
  have "view_of c' = Inr None" using r(5) by (simp add: view_of_def)
  with r u(1) h(2) show "outcome_ok sv (case next_mutation_time now c of Inl e \<Rightarrow> (sv', Inl e)
     | Inr t \<Rightarrow> let tombstone = ?ref in
         case commit_change at sv' c (ClearChange tombstone t) Disarmed of (sv'', Inl e) \<Rightarrow> (sv'', Inl e)
       | (sv'', Inr c') \<Rightarrow> (sv'', rmap (\<lambda>_. tombstone) (view_of c')))"
    by (simp add: next_mutation_time_def outcome_ok_def Let_def)
qed (simp add: outcome_refused)

lemma goal_create_ok:
  assumes ok: "service_ok sv" and now: "time_ok now" and default: "safe_int default_rounds" "1 \<le> default_rounds"
    and fresh: "fresh_for (CmdCreate fresh objective rounds) sv"
  shows "outcome_ok sv (ref_result (goal_create default_rounds live now at fresh sv objective rounds))"
proof (cases "resolve_create_goal default_rounds objective rounds")
  case (Inl e)
  then show ?thesis using ok by (simp add: goal_create_def outcome_refused)
next
  case (Inr p)
  obtain o' n where p: "p = (o', n)" by (cases p)
  from Inr p have o': "normalized_text o'" and n: "safe_int n" "1 \<le> n"
    using resolve_objective_ok resolve_max_rounds_ok
    by (auto simp: resolve_create_goal_def rbind_eq_Inr rmap_eq_Inr)
  show ?thesis
  proof (cases live)
    case False
    then show ?thesis using Inr p ok by (simp add: goal_create_def prepare_mutation_dead outcome_refused)
  next
    case True
    obtain c where prep: "prepare_mutation True sv = (sv\<lparr>gsv_cache := Some c\<rparr>, Inr c)" "synced (gsv_session sv) c"
      using prepare_mutation_ok [OF ok] by blast
    let ?sv = "sv\<lparr>gsv_cache := Some c\<rparr>"
    have ok': "service_ok ?sv" using ok synced_tracks [OF prep(2)] by (simp add: service_ok_def)
    let ?g = "\<lparr>gs_id = ''goal-'' @ fresh, gs_revision = 1, gs_objective = o', gs_phase = PhaseActive,
               gs_blocked = None, gs_max_rounds = n\<rparr>"
    let ?busy = "case gf_goal (gc_state c) of Some cur \<Rightarrow> gs_phase cur \<noteq> PhaseComplete | None \<Rightarrow> False"
    show ?thesis
    proof (cases ?busy)
      case busy: True
      then show ?thesis using Inr p True prep ok' by (simp add: goal_create_def outcome_refused)
    next
      case False
      have "''goal-'' @ fresh \<notin> set (gf_seen (gc_state c))"
        using fresh prep(2) by (simp add: fresh_for_def synced_def)
      then have app: "apply_goal_change (gc_state c) (SnapshotChange GoalCreate ?g 0 now now)
          = Inr (install_snapshot ((gc_state c)\<lparr>gf_seen := gf_seen (gc_state c) @ [gs_id ?g]\<rparr>) ?g 0 now now)"
        using False by simp
      have ch: "change_ok (SnapshotChange GoalCreate ?g 0 now now)"
        using o' n now by (simp add: snapshot_ok_def safe_int_def max_safe_integer_def)
      have sync: "synced (gsv_session ?sv) c" using prep(2) by simp
      from commit_snapshot_ok [OF ok' sync ch app, of at Armed] show ?thesis
        using Inr p True prep(1) False by (auto simp: goal_create_def outcome_ok_def)
    qed
  qed
qed

text \<open>Every mutation, whatever its arguments, keeps the stream foldable and logs what it reports.\<close>

lemma run_goal_ok:
  assumes "service_ok sv" "int (length (ses_log (gsv_session sv))) < max_safe_integer" "time_ok now"
    and "safe_int default_rounds" "1 \<le> default_rounds" "fresh_for cmd sv"
  shows "outcome_ok sv (run_goal default_rounds live now at sv cmd)"
proof (cases cmd)
  case (CmdCreate fresh objective rounds)
  with assms show ?thesis by (simp add: goal_create_ok)
next
  case (CmdPause ref)
  with assms show ?thesis
    by (simp add: goal_pause_def, intro transition_goal_ok) (simp_all add: phase_transition_ok_def)
next
  case (CmdComplete ref)
  with assms show ?thesis
    by (simp add: goal_complete_def, intro transition_goal_ok) (auto simp: phase_transition_ok_def)
qed (use assms in \<open>simp_all add: goal_edit_ok goal_resume_ok goal_block_ok goal_clear_ok\<close>)

section \<open>Compare and set\<close>

fun command_ref :: "goal_command \<Rightarrow> goal_ref option" where
  "command_ref (CmdCreate _ _ _) = None"
| "command_ref (CmdEdit ref _ _) = Some ref"
| "command_ref (CmdPause ref) = Some ref"
| "command_ref (CmdResume ref) = Some ref"
| "command_ref (CmdComplete ref) = Some ref"
| "command_ref (CmdBlock ref _) = Some ref"
| "command_ref (CmdClear ref) = Some ref"

definition current_ref :: "goal_service \<Rightarrow> goal_ref option" where
  "current_ref sv =
     (case fold_goal (ses_log (gsv_session sv)) of
        Inr st \<Rightarrow> map_option snapshot_ref (gf_goal st)
      | Inl _ \<Rightarrow> None)"

lemma with_current_stale:
  assumes "service_ok sv" "current_ref sv \<noteq> Some ref"
  shows "\<exists>sv' x. with_current live sv ref k = (sv', Inl x) \<and> gsv_session sv' = gsv_session sv
    \<and> x \<in> {GoalAgentNotLive, GoalNotFound, GoalStaleRevision}"
proof (cases live)
  case False
  then show ?thesis by (simp add: with_current_def prepare_mutation_dead)
next
  case True
  obtain c where p: "prepare_mutation True sv = (sv\<lparr>gsv_cache := Some c\<rparr>, Inr c)" "synced (gsv_session sv) c"
    using prepare_mutation_ok [OF assms(1)] by blast
  have "\<exists>x. expect_current c ref = Inl x \<and> x \<in> {GoalNotFound, GoalStaleRevision}"
  proof (cases "gf_goal (gc_state c)")
    case None
    then show ?thesis by (simp add: expect_current_def)
  next
    case (Some cur)
    with assms(2) p(2) have "snapshot_ref cur \<noteq> ref" by (simp add: current_ref_def synced_def)
    then have "gr_id ref \<noteq> gs_id cur \<or> gr_revision ref \<noteq> gs_revision cur"
      by (cases ref) (auto simp: snapshot_ref_def)
    with Some show ?thesis by (auto simp: expect_current_def)
  qed
  with True p show ?thesis by (auto simp: with_current_def)
qed

lemma run_goal_stale:
  assumes "service_ok sv" "command_ref cmd = Some ref" "current_ref sv \<noteq> Some ref"
  shows "\<exists>sv' x. run_goal default_rounds live now at sv cmd = (sv', Inl x) \<and> gsv_session sv' = gsv_session sv
    \<and> x \<in> {GoalAgentNotLive, GoalNotFound, GoalStaleRevision}"
proof -
  have lift: "\<exists>sv' x. ref_result (with_current live sv ref k) = (sv', Inl x) \<and> gsv_session sv' = gsv_session sv
      \<and> x \<in> {GoalAgentNotLive, GoalNotFound, GoalStaleRevision}" for k
    using with_current_stale [OF assms(1,3), of live k] by auto
  show ?thesis
    using assms(2) lift with_current_stale [OF assms(1,3)]
    by (cases cmd)
      (simp_all only: run_goal.simps command_ref.simps option.inject option.distinct
        goal_edit_def goal_pause_def goal_resume_def goal_complete_def goal_block_def goal_clear_def transition_goal_def)
qed

end
