(* ===== verification/Calendar.thy ===== *)
theory Calendar
  imports Prelude
begin

text \<open>
  The part of the language's calendar that \<open>packages/schedule/schedule/src/domain.ts\<close> relies on:
  the proleptic Gregorian day count, its inverse, and the canonical UTC notation with a
  four-digit year (\<open>toISOString\<close>, and \<open>Date.parse\<close> on that notation). The two are shown to be
  inverse to each other over years 1 to 9999.
\<close>

section \<open>Days\<close>

definition leap_year :: "int \<Rightarrow> bool" where
  "leap_year y \<longleftrightarrow> 4 dvd y \<and> (\<not> 100 dvd y \<or> 400 dvd y)"

definition day_from_year :: "int \<Rightarrow> int" where
  "day_from_year y =
     365 * (y - 1970) + (y - 1969) div 4 - (y - 1901) div 100 + (y - 1601) div 400"

definition year_length :: "int \<Rightarrow> int" where
  "year_length y = (if leap_year y then 366 else 365)"

lemma div_bounds:
  fixes a k :: int
  assumes "0 < k"
  shows "k * (a div k) \<le> a" "a < k * (a div k) + k"
proof -
  have "a = k * (a div k) + a mod k" by simp
  moreover have "0 \<le> a mod k" "a mod k < k" using assms by simp_all
  ultimately show "k * (a div k) \<le> a" "a < k * (a div k) + k" by linarith+
qed

lemma div_step:
  fixes a k :: int
  assumes "0 < k"
  shows "(a + 1) div k = a div k + (if k dvd a + 1 then 1 else 0)"
proof -
  have eq: "a + 1 = k * (a div k) + (a mod k + 1)" by simp
  have range: "0 \<le> a mod k" "a mod k < k" using assms by simp_all
  show ?thesis
  proof (cases "a mod k + 1 = k")
    case True
    with eq have "a + 1 = k * (a div k + 1)" by (simp add: distrib_left)
    with assms show ?thesis by simp
  next
    case False
    with range have lt: "a mod k + 1 < k" by simp
    have d: "(a + 1) div k = a div k" by (rule int_div_pos_eq [OF eq]) (use range lt in simp_all)
    have m: "(a + 1) mod k = a mod k + 1" by (rule int_mod_pos_eq [OF eq]) (use range lt in simp_all)
    from m range have "\<not> k dvd a + 1" by (simp add: dvd_eq_mod_eq_0)
    with d show ?thesis by simp
  qed
qed

lemma dvd_shift: "(k :: int) dvd y - k * j \<longleftrightarrow> k dvd y"
  by (metis diff_add_cancel dvd_add_left_iff dvd_triv_left)

lemma leap_sum:
  fixes x :: int
  assumes "p = a + (if P then 1 else 0)" "q = b + (if Q then 1 else 0)" "r = c + (if R then 1 else 0)"
    and "R \<Longrightarrow> Q" "Q \<Longrightarrow> P"
  shows "365 * (x + 1) + p - q + r = 365 * x + a - b + c + (if P \<and> (\<not> Q \<or> R) then 366 else 365)"
  using assms(4,5) unfolding assms(1-3) by (cases R; cases Q; cases P; simp)

lemma day_from_year_Suc: "day_from_year (y + 1) = day_from_year y + year_length y"
proof -
  have "(y - 1968) div 4 = (y - 1969) div 4 + (if 4 dvd y then 1 else 0)"
    using div_step [of 4 "y - 1969"] dvd_shift [of 4 y 492] by simp
  moreover have "(y - 1900) div 100 = (y - 1901) div 100 + (if 100 dvd y then 1 else 0)"
    using div_step [of 100 "y - 1901"] dvd_shift [of 100 y 19] by simp
  moreover have "(y - 1600) div 400 = (y - 1601) div 400 + (if 400 dvd y then 1 else 0)"
    using div_step [of 400 "y - 1601"] dvd_shift [of 400 y 4] by simp
  moreover have "400 dvd y \<Longrightarrow> 100 dvd y" by (rule dvd_trans [of _ 400]) simp_all
  moreover have "100 dvd y \<Longrightarrow> 4 dvd y" by (rule dvd_trans [of _ 100]) simp_all
  ultimately have "365 * (y - 1970 + 1) + (y - 1968) div 4 - (y - 1900) div 100 + (y - 1600) div 400
      = 365 * (y - 1970) + (y - 1969) div 4 - (y - 1901) div 100 + (y - 1601) div 400 + year_length y"
    unfolding year_length_def leap_year_def by (rule leap_sum)
  moreover have "y + 1 - 1970 = y - 1970 + 1" "y + 1 - 1969 = y - 1968" "y + 1 - 1901 = y - 1900" "y + 1 - 1601 = y - 1600"
    by simp_all
  ultimately show ?thesis unfolding day_from_year_def by (simp only:)
qed

lemma day_from_year_mono: "x \<le> y \<Longrightarrow> day_from_year x \<le> day_from_year y"
proof (induction rule: int_ge_induct)
  case (step i)
  then show ?case using day_from_year_Suc [of i] by (simp add: year_length_def split: if_splits)
qed simp

lemma era_bounds:
  fixes n :: int
  assumes "4 * a \<le> n + 1" "n + 1 < 4 * a + 4" "100 * b \<le> n + 69" "n + 69 < 100 * b + 100"
    and "400 * c \<le> n + 369" "n + 369 < 400 * c + 400"
  shows "146097 * n - 506 \<le> 400 * (365 * n + a - b + c)" "400 * (365 * n + a - b + c) \<le> 146097 * n + 589"
proof -
  have sum: "400 * (365 * n + a - b + c) = 146000 * n + 400 * a - 400 * b + 400 * c"
    by (simp add: algebra_simps)
  have a: "100 * n - 200 \<le> 400 * a" "400 * a \<le> 100 * n + 100" using assms(1,2) by linarith+
  have b: "400 * b \<le> 4 * n + 276" "4 * n - 120 \<le> 400 * b" using assms(3,4) by linarith+
  have c: "n - 30 \<le> 400 * c" "400 * c \<le> n + 369" using assms(5,6) by linarith+
  show "146097 * n - 506 \<le> 400 * (365 * n + a - b + c)" unfolding sum using a(1) b(1) c(1) by linarith
  show "400 * (365 * n + a - b + c) \<le> 146097 * n + 589" unfolding sum using a(2) b(2) c(2) by linarith
qed

lemma day_from_year_bounds:
  "146097 * (y - 1970) - 506 \<le> 400 * day_from_year y" "400 * day_from_year y \<le> 146097 * (y - 1970) + 589"
proof -
  define n where "n = y - 1970"
  have y: "y - 1969 = n + 1" "y - 1901 = n + 69" "y - 1601 = n + 369" by (simp_all add: n_def)
  have d: "day_from_year y = 365 * n + (n + 1) div 4 - (n + 69) div 100 + (n + 369) div 400"
    by (simp only: day_from_year_def y n_def [symmetric])
  have pos: "(0 :: int) < 4" "(0 :: int) < 100" "(0 :: int) < 400" by simp_all
  note b = div_bounds [OF pos(1), of "n + 1"] div_bounds [OF pos(2), of "n + 69"] div_bounds [OF pos(3), of "n + 369"]
  show "146097 * (y - 1970) - 506 \<le> 400 * day_from_year y" "400 * day_from_year y \<le> 146097 * (y - 1970) + 589"
    using era_bounds [OF b] by (simp_all only: d n_def [symmetric])
qed

text \<open>The largest year that starts on or before the day, from an estimate that is off by one at most.\<close>

definition year_of_day :: "int \<Rightarrow> int" where
  "year_of_day d =
     (let e = 1970 + (400 * d) div 146097 in
      if day_from_year (e + 1) \<le> d then e + 1 else if d < day_from_year e then e - 1 else e)"

lemma year_of_day_bounds: "day_from_year (year_of_day d) \<le> d" "d < day_from_year (year_of_day d + 1)"
proof -
  define n where "n = (400 * d) div 146097"
  have n: "146097 * n \<le> 400 * d" "400 * d < 146097 * n + 146097"
    unfolding n_def using div_bounds [of 146097 "400 * d"] by simp_all
  have low: "day_from_year (1970 + n - 1) \<le> d"
    using day_from_year_bounds(2) [of "1970 + n - 1"] n(1) by simp
  have high: "d < day_from_year (1970 + n + 1 + 1)"
    using day_from_year_bounds(1) [of "1970 + n + 1 + 1"] n(2) by simp
  show "day_from_year (year_of_day d) \<le> d" "d < day_from_year (year_of_day d + 1)"
    using low high by (simp_all add: year_of_day_def n_def [symmetric] Let_def)
qed

lemma year_of_day_unique:
  assumes "day_from_year y \<le> d" "d < day_from_year (y + 1)"
  shows "year_of_day d = y"
proof (rule antisym)
  show "year_of_day d \<le> y"
  proof (rule ccontr)
    assume "\<not> year_of_day d \<le> y"
    then have "day_from_year (y + 1) \<le> day_from_year (year_of_day d)" by (intro day_from_year_mono) simp
    with assms(2) year_of_day_bounds(1) [of d] show False by simp
  qed
  show "y \<le> year_of_day d"
  proof (rule ccontr)
    assume "\<not> y \<le> year_of_day d"
    then have "day_from_year (year_of_day d + 1) \<le> day_from_year y" by (intro day_from_year_mono) simp
    with assms(1) year_of_day_bounds(2) [of d] show False by simp
  qed
qed

section \<open>Months\<close>

definition days_before_month :: "bool \<Rightarrow> int \<Rightarrow> int" where
  "days_before_month leap m =
     (if m \<le> 1 then 0 else if m = 2 then 31
      else (if m = 3 then 59 else if m = 4 then 90 else if m = 5 then 120 else if m = 6 then 151
            else if m = 7 then 181 else if m = 8 then 212 else if m = 9 then 243 else if m = 10 then 273
            else if m = 11 then 304 else if m = 12 then 334 else 365)
           + (if leap then 1 else 0))"

definition month_of_day :: "bool \<Rightarrow> int \<Rightarrow> int" where
  "month_of_day leap r =
     (let l = (if leap then 1 else 0) in
      if r < 31 then 1 else if r < 59 + l then 2 else if r < 90 + l then 3 else if r < 120 + l then 4
      else if r < 151 + l then 5 else if r < 181 + l then 6 else if r < 212 + l then 7 else if r < 243 + l then 8
      else if r < 273 + l then 9 else if r < 304 + l then 10 else if r < 334 + l then 11 else 12)"

definition days_in_month :: "int \<Rightarrow> int \<Rightarrow> int" where
  "days_in_month y m = days_before_month (leap_year y) (m + 1) - days_before_month (leap_year y) m"

lemma month_of_day_range: "1 \<le> month_of_day l r \<and> month_of_day l r \<le> 12"
  by (simp add: month_of_day_def Let_def)

lemma month_of_day_bounds:
  assumes "0 \<le> r" "r < (if l then 366 else 365)"
  shows "days_before_month l (month_of_day l r) \<le> r" "r < days_before_month l (month_of_day l r + 1)"
  using assms by (simp_all add: month_of_day_def days_before_month_def Let_def split: if_splits)

lemma month_cases:
  assumes "1 \<le> m" "m \<le> 12"
  shows "m \<in> {1, 2, 3, 4, 5, 6, 7, 8, 9, 10, 11, 12 :: int}"
proof (cases "m \<le> 6")
  case True
  with assms(1) have "m = 1 \<or> m = 2 \<or> m = 3 \<or> m = 4 \<or> m = 5 \<or> m = 6" by linarith
  then show ?thesis by blast
next
  case False
  with assms(2) have "m = 7 \<or> m = 8 \<or> m = 9 \<or> m = 10 \<or> m = 11 \<or> m = 12" by linarith
  then show ?thesis by blast
qed

lemma month_of_day_unique:
  assumes "1 \<le> m" "m \<le> 12" "days_before_month l m \<le> r" "r < days_before_month l (m + 1)"
  shows "month_of_day l r = m"
  using month_cases [OF assms(1,2)] assms(3,4)
  by (auto simp: month_of_day_def days_before_month_def Let_def split: if_splits)

lemma year_end: "days_before_month (leap_year y) 13 = year_length y"
  by (simp add: days_before_month_def year_length_def)

section \<open>Civil dates\<close>

definition days_from_civil :: "int \<Rightarrow> int \<Rightarrow> int \<Rightarrow> int" where
  "days_from_civil y m d = day_from_year y + days_before_month (leap_year y) m + d - 1"

definition civil_from_days :: "int \<Rightarrow> int \<times> int \<times> int" where
  "civil_from_days n =
     (let y = year_of_day n; r = n - day_from_year y; m = month_of_day (leap_year y) r
      in (y, m, r - days_before_month (leap_year y) m + 1))"

definition valid_date :: "int \<Rightarrow> int \<Rightarrow> int \<Rightarrow> bool" where
  "valid_date y m d \<longleftrightarrow> 1 \<le> m \<and> m \<le> 12 \<and> 1 \<le> d \<and> d \<le> days_in_month y m"

lemma days_before_month_le:
  "1 \<le> m \<Longrightarrow> m \<le> 12 \<Longrightarrow> days_before_month (leap_year y) (m + 1) \<le> year_length y"
  using month_cases [of m] by (auto simp: days_before_month_def year_length_def)

lemma days_before_month_nonneg: "0 \<le> days_before_month l m"
  by (simp add: days_before_month_def)

lemma civil_of_days_of_civil:
  assumes "valid_date y m d"
  shows "civil_from_days (days_from_civil y m d) = (y, m, d)"
proof -
  let ?r = "days_before_month (leap_year y) m + d - 1"
  have m: "1 \<le> m" "m \<le> 12" and d: "1 \<le> d" "d \<le> days_in_month y m" using assms by (simp_all add: valid_date_def)
  have r: "days_before_month (leap_year y) m \<le> ?r" "?r < days_before_month (leap_year y) (m + 1)"
    using d by (simp_all add: days_in_month_def)
  then have "0 \<le> ?r" "?r < year_length y"
    using days_before_month_nonneg [of "leap_year y" m] days_before_month_le [OF m, of y] by simp_all
  then have "year_of_day (days_from_civil y m d) = y"
    by (intro year_of_day_unique) (simp_all add: days_from_civil_def day_from_year_Suc)
  moreover have "month_of_day (leap_year y) ?r = m" by (rule month_of_day_unique [OF m r])
  ultimately show ?thesis by (simp add: civil_from_days_def Let_def days_from_civil_def algebra_simps)
qed

lemma days_of_civil_of_days:
  assumes "civil_from_days n = (y, m, d)"
  shows "days_from_civil y m d = n" "valid_date y m d"
proof -
  let ?y = "year_of_day n" and ?r = "n - day_from_year (year_of_day n)"
  have ymd: "y = ?y" "m = month_of_day (leap_year y) ?r" "d = ?r - days_before_month (leap_year y) m + 1"
    using assms by (auto simp: civil_from_days_def Let_def)
  then show "days_from_civil y m d = n" by (simp add: days_from_civil_def)
  have "0 \<le> ?r" "?r < (if leap_year ?y then 366 else 365)"
    using year_of_day_bounds [of n] by (simp_all add: day_from_year_Suc year_length_def split: if_splits)
  from month_of_day_bounds [OF this] month_of_day_range [of "leap_year ?y" ?r] show "valid_date y m d"
    by (simp add: valid_date_def ymd days_in_month_def)
qed

end
