(* ===== verification/Utc_Instant.thy ===== *)
theory Utc_Instant
  imports Calendar Json_Values
begin

text \<open>
  UTC instants as \<open>packages/schedule/schedule/src/domain.ts\<close> handles them: epoch milliseconds,
  broken-down fields, and the canonical notation with a four-digit year. \<open>iso_string\<close> is
  \<open>toISOString\<close> on years 1 to 9999; \<open>date_parse\<close> is \<open>Date.parse\<close> on strings of that shape.
  The notation and the epoch are inverse to each other over the admissible range.
\<close>

section \<open>Fields\<close>

record calendar_parts =
  cp_year :: int
  cp_month :: int
  cp_day :: int
  cp_hour :: int
  cp_minute :: int
  cp_second :: int
  cp_milli :: int

definition ms_per_day :: int where
  "ms_per_day = 86400000"

definition time_within_day :: "calendar_parts \<Rightarrow> int" where
  "time_within_day p = ((cp_hour p * 60 + cp_minute p) * 60 + cp_second p) * 1000 + cp_milli p"

definition utc_epoch :: "calendar_parts \<Rightarrow> int" where
  "utc_epoch p = days_from_civil (cp_year p) (cp_month p) (cp_day p) * ms_per_day + time_within_day p"

definition utc_fields :: "int \<Rightarrow> calendar_parts" where
  "utc_fields t =
     (let r = t mod ms_per_day in
      case civil_from_days (t div ms_per_day) of
        (y, m, d) \<Rightarrow>
          \<lparr>cp_year = y, cp_month = m, cp_day = d, cp_hour = r div 3600000, cp_minute = r div 60000 mod 60,
           cp_second = r div 1000 mod 60, cp_milli = r mod 1000\<rparr>)"

definition valid_time :: "calendar_parts \<Rightarrow> bool" where
  "valid_time p \<longleftrightarrow> 0 \<le> cp_hour p \<and> cp_hour p \<le> 23 \<and> 0 \<le> cp_minute p \<and> cp_minute p \<le> 59
     \<and> 0 \<le> cp_second p \<and> cp_second p \<le> 59 \<and> 0 \<le> cp_milli p \<and> cp_milli p \<le> 999"

definition valid_parts :: "calendar_parts \<Rightarrow> bool" where
  "valid_parts p \<longleftrightarrow> valid_date (cp_year p) (cp_month p) (cp_day p) \<and> valid_time p"

lemma divmod_unique:
  fixes a b q r :: int
  assumes "a = b * q + r" "0 \<le> r" "r < b"
  shows "a div b = q" "a mod b = r"
  using int_div_pos_eq [OF assms] int_mod_pos_eq [OF assms] by simp_all

lemma time_split:
  fixes h m s k :: int
  assumes "0 \<le> h" "0 \<le> m" "m \<le> 59" "0 \<le> s" "s \<le> 59" "0 \<le> k" "k \<le> 999"
    and r: "r = ((h * 60 + m) * 60 + s) * 1000 + k"
  shows "r div 3600000 = h" "r div 60000 mod 60 = m" "r div 1000 mod 60 = s" "r mod 1000 = k"
proof -
  show k: "r mod 1000 = k" by (rule divmod_unique(2) [of _ _ "(h * 60 + m) * 60 + s"]) (use assms in linarith)+
  have s1: "r div 1000 = (h * 60 + m) * 60 + s" by (rule divmod_unique(1) [of _ _ _ k]) (use assms in linarith)+
  show "r div 1000 mod 60 = s"
    by (rule divmod_unique(2) [of _ _ "h * 60 + m"]) (use assms s1 in linarith)+
  have m1: "r div 60000 = h * 60 + m"
    by (rule divmod_unique(1) [of _ _ _ "s * 1000 + k"]) (use assms in simp_all)
  show "r div 60000 mod 60 = m" by (rule divmod_unique(2) [of _ _ h]) (use assms m1 in linarith)+
  show "r div 3600000 = h"
    by (rule divmod_unique(1) [of _ _ _ "m * 60000 + s * 1000 + k"]) (use assms in simp_all)
qed

lemma time_within_day_bounds:
  assumes "valid_time p"
  shows "0 \<le> time_within_day p" "time_within_day p < ms_per_day"
  using assms unfolding valid_time_def time_within_day_def ms_per_day_def by simp_all

lemma fields_of_epoch:
  assumes "valid_parts p"
  shows "utc_fields (utc_epoch p) = p"
proof -
  from assms have d: "valid_date (cp_year p) (cp_month p) (cp_day p)" and t: "valid_time p"
    by (simp_all add: valid_parts_def)
  have e: "utc_epoch p = ms_per_day * days_from_civil (cp_year p) (cp_month p) (cp_day p) + time_within_day p"
    by (simp add: utc_epoch_def)
  note q = divmod_unique [OF e time_within_day_bounds [OF t]]
  have "0 \<le> cp_hour p" "0 \<le> cp_minute p" "cp_minute p \<le> 59" "0 \<le> cp_second p" "cp_second p \<le> 59"
      "0 \<le> cp_milli p" "cp_milli p \<le> 999" using t by (simp_all add: valid_time_def)
  note f = time_split [OF this time_within_day_def]
  show ?thesis by (simp add: utc_fields_def q f civil_of_days_of_civil [OF d])
qed

lemma time_join:
  fixes r :: int
  shows "((r div 3600000 * 60 + r div 60000 mod 60) * 60 + r div 1000 mod 60) * 1000 + r mod 1000 = r"
proof -
  define a b where "a = r div 1000" and "b = a div 60"
  have ab: "r div 60000 = b" "r div 3600000 = b div 60"
    unfolding a_def b_def by (simp_all add: zdiv_zmult2_eq [symmetric])
  show ?thesis unfolding ab a_def [symmetric] by (simp add: b_def) (simp add: a_def)
qed

lemma utc_fields_time [simp]:
  "cp_hour (utc_fields t) = t mod ms_per_day div 3600000"
  "cp_minute (utc_fields t) = t mod ms_per_day div 60000 mod 60"
  "cp_second (utc_fields t) = t mod ms_per_day div 1000 mod 60"
  "cp_milli (utc_fields t) = t mod ms_per_day mod 1000"
  by (cases "civil_from_days (t div ms_per_day)"; simp only: utc_fields_def Let_def prod.case calendar_parts.simps)+

lemma sexagesimal_range:
  fixes x :: int
  shows "0 \<le> x mod 60" "x mod 60 \<le> 59" "0 \<le> x mod 1000" "x mod 1000 \<le> 999"
  by simp_all

lemma valid_time_fields: "valid_time (utc_fields t)"
proof -
  define r where "r = t mod ms_per_day"
  have r: "0 \<le> r" "r < 86400000" by (simp_all add: r_def ms_per_day_def)
  have "0 \<le> r div 3600000" using r(1) by (simp add: pos_imp_zdiv_nonneg_iff)
  moreover have "r div 3600000 \<le> 23"
  proof -
    have "3600000 * (r div 3600000) \<le> r" by (rule div_bounds) simp
    with r(2) show ?thesis by linarith
  qed
  ultimately show ?thesis
    unfolding valid_time_def utc_fields_time r_def [symmetric] by (intro conjI sexagesimal_range)
qed

lemma time_within_day_fields: "time_within_day (utc_fields t) = t mod ms_per_day"
  unfolding time_within_day_def utc_fields_time by (rule time_join)

lemma epoch_of_fields: "utc_epoch (utc_fields t) = t" "valid_parts (utc_fields t)"
proof -
  obtain y m d where c: "civil_from_days (t div ms_per_day) = (y, m, d)" by (cases "civil_from_days (t div ms_per_day)")
  have ymd: "cp_year (utc_fields t) = y" "cp_month (utc_fields t) = m" "cp_day (utc_fields t) = d"
    by (simp_all only: utc_fields_def c Let_def prod.case calendar_parts.simps)
  note inv = days_of_civil_of_days [OF c]
  show "utc_epoch (utc_fields t) = t"
    by (simp add: utc_epoch_def ymd inv(1) time_within_day_fields)
  show "valid_parts (utc_fields t)"
    using inv(2) valid_time_fields [of t] by (simp only: valid_parts_def ymd simp_thms)
qed

section \<open>The admissible range\<close>

text \<open>\<open>Date.parse\<close> of the first and the last instant with a four-digit year.\<close>

definition MIN_FOUR_DIGIT_YEAR_MS :: int where
  "MIN_FOUR_DIGIT_YEAR_MS = -62135596800000"

definition MAX_FOUR_DIGIT_YEAR_MS :: int where
  "MAX_FOUR_DIGIT_YEAR_MS = 253402300799999"

definition representable :: "int \<Rightarrow> bool" where
  "representable t \<longleftrightarrow> MIN_FOUR_DIGIT_YEAR_MS \<le> t \<and> t \<le> MAX_FOUR_DIGIT_YEAR_MS"

lemma first_year: "day_from_year 1 * ms_per_day = MIN_FOUR_DIGIT_YEAR_MS"
  by (simp add: day_from_year_def ms_per_day_def MIN_FOUR_DIGIT_YEAR_MS_def)

lemma last_year: "day_from_year 10000 * ms_per_day = MAX_FOUR_DIGIT_YEAR_MS + 1"
  by (simp add: day_from_year_def ms_per_day_def MAX_FOUR_DIGIT_YEAR_MS_def)

lemma representable_safe: "representable t \<Longrightarrow> safe_int t"
  by (simp add: representable_def MIN_FOUR_DIGIT_YEAR_MS_def MAX_FOUR_DIGIT_YEAR_MS_def safe_int_def
      max_safe_integer_def)

lemma representable_year:
  assumes "representable t"
  shows "1 \<le> cp_year (utc_fields t)" "cp_year (utc_fields t) \<le> 9999"
proof -
  define n where "n = t div ms_per_day"
  have y: "cp_year (utc_fields t) = year_of_day n"
    by (simp add: utc_fields_def civil_from_days_def Let_def n_def)
  have pos: "(0 :: int) < ms_per_day" by (simp add: ms_per_day_def)
  have "day_from_year 1 * ms_per_day div ms_per_day \<le> n" unfolding n_def
    by (rule zdiv_mono1 [OF _ pos]) (use assms first_year in \<open>simp add: representable_def\<close>)
  then have lo: "day_from_year 1 \<le> n" using pos by simp
  have "n * ms_per_day \<le> t" unfolding n_def using div_bounds(1) [OF pos, of t] by (simp add: mult.commute)
  then have "n * ms_per_day < day_from_year 10000 * ms_per_day"
    using assms last_year by (simp add: representable_def)
  then have hi: "n < day_from_year 10000" using pos by simp
  show "1 \<le> cp_year (utc_fields t)"
  proof (rule ccontr)
    assume "\<not> 1 \<le> cp_year (utc_fields t)"
    then have "day_from_year (year_of_day n + 1) \<le> day_from_year 1" by (intro day_from_year_mono) (simp add: y)
    with lo year_of_day_bounds(2) [of n] show False by simp
  qed
  show "cp_year (utc_fields t) \<le> 9999"
  proof (rule ccontr)
    assume "\<not> cp_year (utc_fields t) \<le> 9999"
    then have "day_from_year 10000 \<le> day_from_year (year_of_day n)" by (intro day_from_year_mono) (simp add: y)
    with hi year_of_day_bounds(1) [of n] show False by simp
  qed
qed

section \<open>The canonical notation\<close>

text \<open>Decimal digits padded with zeros to a fixed width.\<close>

fun padded :: "nat \<Rightarrow> nat \<Rightarrow> string" where
  "padded 0 n = []"
| "padded (Suc w) n = padded w (n div 10) @ [digit_char (n mod 10)]"

lemma length_padded [simp]: "length (padded w n) = w"
  by (induction w arbitrary: n) simp_all

lemma decimal_value_snoc: "decimal_value (s @ [c]) = 10 * decimal_value s + digit_value c"
  by (simp add: decimal_value_def)

lemma decimal_value_padded: "n < 10 ^ w \<Longrightarrow> decimal_value (padded w n) = n"
proof (induction w arbitrary: n)
  case 0
  then show ?case by (simp add: decimal_value_def)
next
  case (Suc w)
  then have "n div 10 < 10 ^ w" by (simp add: less_mult_imp_div_less mult.commute)
  with Suc.IH [of "n div 10"] show ?case by (simp add: decimal_value_snoc digit_value_char)
qed

lemma is_digit_char [simp]: "d < 10 \<Longrightarrow> is_digit (digit_char d)"
  by (simp add: is_digit_def digit_char_def)

lemma padded_digits: "list_all is_digit (padded w n)"
  by (induction w arbitrary: n) simp_all

text \<open>A fixed-width pattern: \<open>#\<close> stands for a digit, every other character for itself.\<close>

definition matches :: "string \<Rightarrow> string \<Rightarrow> bool" where
  "matches pattern s \<longleftrightarrow> list_all2 (\<lambda>p c. if p = CHR ''#'' then is_digit c else c = p) pattern s"

definition field :: "string \<Rightarrow> nat \<Rightarrow> nat \<Rightarrow> int" where
  "field s i w = int (decimal_value (take w (drop i s)))"

definition parts_at :: "string \<Rightarrow> calendar_parts" where
  "parts_at s =
     \<lparr>cp_year = field s 0 4, cp_month = field s 5 2, cp_day = field s 8 2, cp_hour = field s 11 2,
      cp_minute = field s 14 2, cp_second = field s 17 2, cp_milli = field s 20 3\<rparr>"

text \<open>The pattern \<open>UTC_INSTANT\<close>: a non-zero year, a month, a day up to 31 and a time of day.\<close>

definition utc_instant_shape :: "string \<Rightarrow> bool" where
  "utc_instant_shape s \<longleftrightarrow>
     matches ''####-##-##T##:##:##.###Z'' s
     \<and> (let p = parts_at s in
          cp_year p \<noteq> 0 \<and> 1 \<le> cp_month p \<and> cp_month p \<le> 12 \<and> 1 \<le> cp_day p \<and> cp_day p \<le> 31
          \<and> cp_hour p \<le> 23 \<and> cp_minute p \<le> 59 \<and> cp_second p \<le> 59)"

definition date_parse :: "string \<Rightarrow> int" where
  "date_parse s = utc_epoch (parts_at s)"

definition iso_string :: "int \<Rightarrow> string" where
  "iso_string t =
     (let p = utc_fields t in
      padded 4 (nat (cp_year p)) @ ''-'' @ padded 2 (nat (cp_month p)) @ ''-'' @ padded 2 (nat (cp_day p)) @ ''T''
      @ padded 2 (nat (cp_hour p)) @ '':'' @ padded 2 (nat (cp_minute p)) @ '':'' @ padded 2 (nat (cp_second p)) @ ''.''
      @ padded 3 (nat (cp_milli p)) @ ''Z'')"

lemma valid_date_day: "valid_date y m d \<Longrightarrow> 1 \<le> m \<and> m \<le> 12 \<and> 1 \<le> d \<and> d \<le> 31"
  using month_cases [of m] by (auto simp: valid_date_def days_in_month_def days_before_month_def split: if_splits)

lemma field_padded: "0 \<le> i \<Longrightarrow> i < 10 ^ w \<Longrightarrow> int (decimal_value (padded w (nat i))) = i"
  by (simp add: decimal_value_padded nat_less_iff)

lemma parts_at_iso:
  assumes "representable t"
  shows "parts_at (iso_string t) = utc_fields t"
proof -
  define p where "p = utc_fields t"
  have v: "valid_parts p" by (simp only: p_def epoch_of_fields)
  have d: "1 \<le> cp_month p" "cp_month p \<le> 12" "1 \<le> cp_day p" "cp_day p \<le> 31"
    using v valid_date_day [of "cp_year p" "cp_month p" "cp_day p"] by (simp_all add: valid_parts_def)
  have t: "0 \<le> cp_hour p" "cp_hour p \<le> 23" "0 \<le> cp_minute p" "cp_minute p \<le> 59" "0 \<le> cp_second p"
      "cp_second p \<le> 59" "0 \<le> cp_milli p" "cp_milli p \<le> 999"
    using v by (simp_all add: valid_parts_def valid_time_def)
  have y: "1 \<le> cp_year p" "cp_year p \<le> 9999" using representable_year [OF assms] by (simp_all only: p_def)
  show ?thesis unfolding p_def [symmetric] iso_string_def Let_def
    using d t y by (simp add: parts_at_def field_def field_padded)
qed

theorem date_parse_iso: "representable t \<Longrightarrow> date_parse (iso_string t) = t"
  by (simp add: date_parse_def parts_at_iso epoch_of_fields)

lemma matches_append:
  "length p = length s \<Longrightarrow> matches (p @ q) (s @ t) \<longleftrightarrow> matches p s \<and> matches q t"
  by (simp add: matches_def list_all2_append)

lemma matches_digits: "matches (replicate w CHR ''#'') s \<longleftrightarrow> length s = w \<and> list_all is_digit s"
  by (auto simp: matches_def list_all2_conv_all_nth list_all_length)

lemma iso_matches: "matches ''####-##-##T##:##:##.###Z'' (iso_string t)"
proof -
  have pattern: "''####-##-##T##:##:##.###Z'' = replicate 4 CHR ''#'' @ ''-'' @ replicate 2 CHR ''#'' @ ''-''
      @ replicate 2 CHR ''#'' @ ''T'' @ replicate 2 CHR ''#'' @ '':'' @ replicate 2 CHR ''#'' @ '':''
      @ replicate 2 CHR ''#'' @ ''.'' @ replicate 3 CHR ''#'' @ ''Z''"
    by (simp add: numeral_eq_Suc)
  have lit: "matches [c] [c]" if "c \<noteq> CHR ''#''" for c using that by (simp add: matches_def)
  show ?thesis unfolding pattern iso_string_def Let_def
    by (simp only: matches_append length_replicate length_padded matches_digits padded_digits list.size)
      (simp add: lit)
qed

lemma matches_field:
  assumes "matches p s" "take w (drop i p) = replicate w CHR ''#''"
  shows "0 \<le> field s i w" "field s i w < 10 ^ w"
proof -
  have bound: "decimal_value u < 10 ^ length u" if "list_all is_digit u" for u
    using that
  proof (induction u rule: rev_induct)
    case (snoc c u)
    have "digit_value c < 10" using snoc.prems by (auto simp: digit_value_def is_digit_def)
    with snoc show ?case by (simp add: decimal_value_snoc)
  qed (simp add: decimal_value_def)
  have "matches (replicate w CHR ''#'') (take w (drop i s))"
    unfolding assms(2) [symmetric] matches_def using assms(1) unfolding matches_def
    by (intro list_all2_takeI list_all2_dropI)
  then have "length (take w (drop i s)) = w" "list_all is_digit (take w (drop i s))" by (simp_all only: matches_digits)
  with bound [of "take w (drop i s)"] show "field s i w < 10 ^ w" by (simp only: field_def of_nat_less_numeral_power_cancel_iff)
  show "0 \<le> field s i w" by (simp add: field_def)
qed

lemma iso_shape:
  assumes "representable t"
  shows "utc_instant_shape (iso_string t)"
proof -
  define p where "p = utc_fields t"
  have v: "valid_parts p" by (simp only: p_def epoch_of_fields)
  then have "1 \<le> cp_month p \<and> cp_month p \<le> 12 \<and> 1 \<le> cp_day p \<and> cp_day p \<le> 31"
    using valid_date_day [of "cp_year p" "cp_month p" "cp_day p"] by (simp add: valid_parts_def)
  moreover have "cp_hour p \<le> 23 \<and> cp_minute p \<le> 59 \<and> cp_second p \<le> 59"
    using v by (simp add: valid_parts_def valid_time_def)
  moreover have "cp_year p \<noteq> 0" using representable_year [OF assms] by (simp add: p_def)
  ultimately show ?thesis
    by (simp only: utc_instant_shape_def iso_matches parts_at_iso [OF assms] p_def [symmetric] Let_def simp_thms)
qed

lemma days_before_month_mono: "m \<le> 12 \<Longrightarrow> days_before_month l m \<le> days_before_month l 12"
  using month_cases [of m] by (cases "1 \<le> m") (auto simp: days_before_month_def)

lemma shape_representable:
  assumes "utc_instant_shape s"
  shows "representable (date_parse s)"
proof -
  define p where "p = parts_at s"
  from assms have m: "matches ''####-##-##T##:##:##.###Z'' s" by (simp add: utc_instant_shape_def)
  have year: "cp_year p < 10000" using matches_field(2) [OF m, of 4 0] by (simp add: p_def parts_at_def numeral_eq_Suc)
  have milli: "cp_milli p \<le> 999" using matches_field(2) [OF m, of 3 20] by (simp add: p_def parts_at_def numeral_eq_Suc)
  have nonneg: "0 \<le> cp_year p" "0 \<le> cp_hour p" "0 \<le> cp_minute p" "0 \<le> cp_second p" "0 \<le> cp_milli p"
    by (simp_all add: p_def parts_at_def field_def)
  have sh: "cp_year p \<noteq> 0" "1 \<le> cp_month p" "cp_month p \<le> 12" "1 \<le> cp_day p" "cp_day p \<le> 31"
      "cp_hour p \<le> 23" "cp_minute p \<le> 59" "cp_second p \<le> 59"
    using assms by (simp_all add: utc_instant_shape_def Let_def p_def)
  have v: "valid_time p" using nonneg sh milli by (simp add: valid_time_def)
  have low: "day_from_year 1 \<le> days_from_civil (cp_year p) (cp_month p) (cp_day p)"
    using day_from_year_mono [of 1 "cp_year p"] nonneg(1) sh days_before_month_nonneg [of "leap_year (cp_year p)" "cp_month p"]
    by (simp add: days_from_civil_def)
  have high: "days_from_civil (cp_year p) (cp_month p) (cp_day p) + 1 \<le> day_from_year 10000"
  proof -
    let ?l = "leap_year (cp_year p)"
    have "days_before_month ?l (cp_month p) + cp_day p \<le> days_before_month ?l 12 + 31"
      using days_before_month_mono [OF sh(3), of ?l] sh(5) by linarith
    also have "\<dots> = year_length (cp_year p)" by (simp add: days_before_month_def year_length_def)
    finally have "days_from_civil (cp_year p) (cp_month p) (cp_day p) + 1 \<le> day_from_year (cp_year p + 1)"
      by (simp add: days_from_civil_def day_from_year_Suc)
    also have "\<dots> \<le> day_from_year 10000" by (rule day_from_year_mono) (use year in simp)
    finally show ?thesis .
  qed
  note t = time_within_day_bounds [OF v]
  have "day_from_year 1 * ms_per_day \<le> utc_epoch p" "utc_epoch p < day_from_year 10000 * ms_per_day"
    using mult_right_mono [OF low, of ms_per_day] mult_right_mono [OF high, of ms_per_day] t
    by (simp_all add: utc_epoch_def ms_per_day_def distrib_right)
  then show ?thesis by (simp add: representable_def first_year last_year date_parse_def p_def)
qed

end
