(* ===== verification/Schedule_Domain.thy ===== *)
theory Schedule_Domain
  imports Utc_Instant Session_Events
begin

text \<open>
  The reminder domain of \<open>packages/schedule/schedule/src/domain.ts\<close> and \<open>types.ts\<close>: the strict
  decoder of a logged schedule change, the replay fold, the fixed-rate arithmetic, identifier
  allocation and the creation of records. A thrown \<open>ScheduleLogError\<close> or \<open>ScheduleInputError\<close>
  is a value of \<open>schedule_log_error\<close> or \<open>schedule_input_error\<close>; the latter's constructors are the
  public codes. Clock readings are integers within the range of \<open>Date\<close>, where the code's double
  arithmetic on milliseconds is exact or exceeds the representable range on both sides.
\<close>

section \<open>Vocabulary\<close>

datatype schedule_record =
    AfterRecord (sr_id: string) (sr_prompt: string) int (sr_at: string)
  | AtRecord (sr_id: string) (sr_prompt: string) (sr_at: string)
  | EveryRecord (sr_id: string) (sr_prompt: string) int (sr_at: string)

datatype schedule_change =
    CreateSchedule schedule_record
  | DeleteSchedule string
  | DispatchSchedule string "string option"

datatype schedule_log_error =
    LogId
  | LogInstant
  | LogKeys string
  | LogPrompt
  | LogSeconds
  | LogKind
  | LogPayload
  | LogVersion
  | LogOperation
  | LogAcceptedAt
  | LogInterval
  | LogEarlyDispatch
  | LogOccurrence
  | LogDispatchShape
  | LogReused string
  | LogInactive string
  | LogSeedLength

datatype schedule_input_error =
    InvalidPrompt
  | InvalidRule
  | InvalidTimeZone
  | NotFuture
  | TimeOutOfRange
  | FrequencyTooHigh

definition SCHEDULE_CHANGE_VERSION :: int where
  "SCHEDULE_CHANGE_VERSION = 1"

definition MIN_EVERY_INTERVAL_SECONDS :: int where
  "MIN_EVERY_INTERVAL_SECONDS = 300"

definition is_every :: "schedule_record \<Rightarrow> bool" where
  "is_every r = (case r of EveryRecord _ _ _ _ \<Rightarrow> True | _ \<Rightarrow> False)"

section \<open>The strict decoder\<close>

definition decode_id :: "json option \<Rightarrow> (schedule_log_error, string) result" where
  "decode_id v =
     (case as_string v of
        Some s \<Rightarrow> if s = [] \<or> js_trim s \<noteq> s then Inl LogId else Inr s
      | None \<Rightarrow> Inl LogId)"

definition decode_instant :: "json option \<Rightarrow> (schedule_log_error, string) result" where
  "decode_instant v =
     (case as_string v of
        Some s \<Rightarrow>
          (if \<not> utc_instant_shape s then Inl LogInstant
           else if iso_string (date_parse s) \<noteq> s then Inl LogInstant
           else Inr s)
      | None \<Rightarrow> Inl LogInstant)"

definition decode_prompt :: "json option \<Rightarrow> (schedule_log_error, string) result" where
  "decode_prompt v =
     (case as_string v of
        Some s \<Rightarrow> if s = [] \<or> js_trim s \<noteq> s then Inl LogPrompt else Inr s
      | None \<Rightarrow> Inl LogPrompt)"

definition decode_after_record :: "json option \<Rightarrow> (schedule_log_error, schedule_record) result" where
  "decode_after_record v =
     (case v of
        Some (JObj r) \<Rightarrow>
          (if \<not> has_exact_keys r [''id'', ''kind'', ''prompt'', ''afterSeconds'', ''scheduledAt''] then Inl (LogKeys ''after'')
           else rbind (decode_prompt (map_of r ''prompt''))
             (\<lambda>prompt.
                case safe_int_of (map_of r ''afterSeconds'') of
                  Some n \<Rightarrow>
                    (if n \<le> 0 then Inl LogSeconds
                     else rbind (decode_id (map_of r ''id''))
                       (\<lambda>id'. rmap (AfterRecord id' prompt n) (decode_instant (map_of r ''scheduledAt''))))
                | None \<Rightarrow> Inl LogSeconds))
      | _ \<Rightarrow> Inl (LogKeys ''after''))"

definition decode_at_record :: "json option \<Rightarrow> (schedule_log_error, schedule_record) result" where
  "decode_at_record v =
     (case v of
        Some (JObj r) \<Rightarrow>
          (if \<not> has_exact_keys r [''id'', ''kind'', ''prompt'', ''scheduledAt''] then Inl (LogKeys ''at'')
           else rbind (decode_prompt (map_of r ''prompt''))
             (\<lambda>prompt. rbind (decode_id (map_of r ''id''))
                (\<lambda>id'. rmap (AtRecord id' prompt) (decode_instant (map_of r ''scheduledAt'')))))
      | _ \<Rightarrow> Inl (LogKeys ''at''))"

definition decode_every_record :: "json option \<Rightarrow> (schedule_log_error, schedule_record) result" where
  "decode_every_record v =
     (case v of
        Some (JObj r) \<Rightarrow>
          (if \<not> has_exact_keys r [''id'', ''kind'', ''prompt'', ''everySeconds'', ''scheduledAt''] then Inl (LogKeys ''every'')
           else rbind (decode_prompt (map_of r ''prompt''))
             (\<lambda>prompt.
                case safe_int_of (map_of r ''everySeconds'') of
                  Some n \<Rightarrow>
                    (if n < MIN_EVERY_INTERVAL_SECONDS \<or> \<not> safe_int (n * 1000) then Inl LogSeconds
                     else rbind (decode_id (map_of r ''id''))
                       (\<lambda>id'. rmap (EveryRecord id' prompt n) (decode_instant (map_of r ''scheduledAt''))))
                | None \<Rightarrow> Inl LogSeconds))
      | _ \<Rightarrow> Inl (LogKeys ''every''))"

definition decode_schedule_record :: "json option \<Rightarrow> (schedule_log_error, schedule_record) result" where
  "decode_schedule_record v =
     (case v of
        Some (JObj r) \<Rightarrow>
          (case as_string (map_of r ''kind'') of
             Some k \<Rightarrow>
               (if k = ''after'' then decode_after_record v
                else if k = ''at'' then decode_at_record v
                else if k = ''every'' then decode_every_record v
                else Inl LogKind)
           | None \<Rightarrow> Inl LogKind)
      | _ \<Rightarrow> Inl LogPayload)"

definition decode_schedule_change :: "json \<Rightarrow> (schedule_log_error, schedule_change) result" where
  "decode_schedule_change v =
     (case v of
        JObj r \<Rightarrow>
          (if map_of r ''version'' \<noteq> Some (JNum (NInt SCHEDULE_CHANGE_VERSION)) then Inl LogVersion
           else (case as_string (map_of r ''operation'') of
                   Some k \<Rightarrow>
                     (if k = ''create'' then
                        (if \<not> has_exact_keys r [''version'', ''operation'', ''schedule''] then Inl (LogKeys ''create'')
                         else rmap CreateSchedule (decode_schedule_record (map_of r ''schedule'')))
                      else if k = ''delete'' then
                        (if \<not> has_exact_keys r [''version'', ''operation'', ''id''] then Inl (LogKeys ''delete'')
                         else rmap DeleteSchedule (decode_id (map_of r ''id'')))
                      else if k = ''dispatch'' then
                        (if has_exact_keys r [''version'', ''operation'', ''id'']
                         then rmap (\<lambda>i. DispatchSchedule i None) (decode_id (map_of r ''id''))
                         else if has_exact_keys r [''version'', ''operation'', ''id'', ''acceptedAt'']
                         then rbind (decode_id (map_of r ''id''))
                           (\<lambda>i. rmap (\<lambda>t. DispatchSchedule i (Some t)) (decode_instant (map_of r ''acceptedAt'')))
                         else Inl (LogKeys ''dispatch''))
                      else Inl LogOperation)
                 | None \<Rightarrow> Inl LogOperation))
      | _ \<Rightarrow> Inl LogPayload)"

section \<open>Fixed-rate occurrences\<close>

text \<open>
  The code divides in doubles and rounds down; both operands are below \<open>2^53\<close>, where this is
  the integer quotient.
\<close>

record every_occurrence =
  oc_at :: string
  oc_next :: "string option"

definition resolve_every_occurrence :: "string \<Rightarrow> int \<Rightarrow> int \<Rightarrow> (schedule_log_error, every_occurrence) result" where
  "resolve_every_occurrence scheduled_at every_seconds accepted =
     (let target = date_parse scheduled_at; interval = every_seconds * 1000 in
      if \<not> safe_int accepted \<or> accepted < MIN_FOUR_DIGIT_YEAR_MS \<or> MAX_FOUR_DIGIT_YEAR_MS < accepted then Inl LogAcceptedAt
      else if \<not> safe_int interval \<or> interval \<le> 0 then Inl LogInterval
      else if accepted < target then Inl LogEarlyDispatch
      else
        (let occurrence = target + (accepted - target) div interval * interval in
         if \<not> safe_int occurrence \<or> occurrence < target \<or> accepted < occurrence then Inl LogOccurrence
         else
           (let following = occurrence + interval in
            Inr \<lparr>oc_at = iso_string occurrence,
                 oc_next = (if \<not> safe_int following \<or> MAX_FOUR_DIGIT_YEAR_MS < following then None
                            else Some (iso_string following))\<rparr>)))"

definition dispatched_record :: "schedule_record \<Rightarrow> string option \<Rightarrow> (schedule_log_error, schedule_record option) result" where
  "dispatched_record r accepted_at =
     (case r of
        EveryRecord i p n at \<Rightarrow>
          (case accepted_at of
             None \<Rightarrow> Inl LogDispatchShape
           | Some t \<Rightarrow>
               rmap (\<lambda>oc. map_option (EveryRecord i p n) (oc_next oc))
                 (resolve_every_occurrence at n (date_parse t)))
      | _ \<Rightarrow> (if accepted_at \<noteq> None then Inl LogDispatchShape else Inr None))"

section \<open>The replay fold\<close>

record schedules =
  sc_active :: "(string, schedule_record) js_map"
  sc_seen :: "string list"

definition no_schedules :: schedules where
  "no_schedules = \<lparr>sc_active = [], sc_seen = []\<rparr>"

definition apply_schedule_change :: "schedules \<Rightarrow> schedule_change \<Rightarrow> (schedule_log_error, schedules) result" where
  "apply_schedule_change st c =
     (case c of
        CreateSchedule r \<Rightarrow>
          (if sr_id r \<in> set (sc_seen st) then Inl (LogReused (sr_id r))
           else Inr \<lparr>sc_active = map_set (sr_id r) r (sc_active st), sc_seen = sc_seen st @ [sr_id r]\<rparr>)
      | DeleteSchedule i \<Rightarrow>
          (if \<not> map_has (sc_active st) i then Inl (LogInactive i)
           else Inr (st\<lparr>sc_active := map_del i (sc_active st)\<rparr>))
      | DispatchSchedule i accepted_at \<Rightarrow>
          (case map_get (sc_active st) i of
             None \<Rightarrow> Inl (LogInactive i)
           | Some r \<Rightarrow>
               rmap (\<lambda>r'. st\<lparr>sc_active := (case r' of None \<Rightarrow> map_del i (sc_active st)
                                           | Some r'' \<Rightarrow> map_set i r'' (sc_active st))\<rparr>)
                 (dispatched_record r accepted_at)))"

definition apply_schedule_event :: "schedules \<Rightarrow> session_event \<Rightarrow> (schedule_log_error, schedules) result" where
  "apply_schedule_event st e =
     (case ev_data e of
        ScheduleChange j \<Rightarrow> rbind (decode_schedule_change j) (apply_schedule_change st)
      | _ \<Rightarrow> Inr st)"

definition fold_schedule_events :: "event_log \<Rightarrow> nat \<Rightarrow> (schedule_log_error, schedules) result" where
  "fold_schedule_events events seed_length =
     (if length events < seed_length then Inl LogSeedLength
      else fold_log apply_schedule_event no_schedules (drop seed_length events))"

definition active_records :: "schedules \<Rightarrow> schedule_record list" where
  "active_records st = map snd (sc_active st)"

section \<open>Identifiers\<close>

definition schedule_name :: "nat \<Rightarrow> string" where
  "schedule_name n = ''schedule-'' @ show_nat n"

lemma schedule_name_inject [simp]: "schedule_name m = schedule_name n \<longleftrightarrow> m = n"
  by (simp add: schedule_name_def)

text \<open>The search loop of \<open>allocateScheduleId\<close>: every candidate that is taken uses up one seen identifier.\<close>

lemma taken_names_finite: "finite {k. n \<le> k \<and> schedule_name k \<in> set seen}"
proof -
  have "finite (schedule_name -` set seen)" by (rule finite_vimageI) (simp_all add: inj_def)
  then show ?thesis by (rule rev_finite_subset) auto
qed

function free_sequence :: "string list \<Rightarrow> nat \<Rightarrow> nat" where
  "free_sequence seen n = (if schedule_name n \<in> set seen then free_sequence seen (n + 1) else n)"
  by auto
termination
proof (relation "measure (\<lambda>(seen, n). card {k. n \<le> k \<and> schedule_name k \<in> set seen})")
  fix seen n
  assume taken: "schedule_name n \<in> set seen"
  have "{k. n + 1 \<le> k \<and> schedule_name k \<in> set seen} \<subset> {k. n \<le> k \<and> schedule_name k \<in> set seen}"
  proof (rule psubsetI)
    have "n \<in> {k. n \<le> k \<and> schedule_name k \<in> set seen}" using taken by simp
    moreover have "n \<notin> {k. n + 1 \<le> k \<and> schedule_name k \<in> set seen}" by simp
    ultimately show "{k. n + 1 \<le> k \<and> schedule_name k \<in> set seen} \<noteq> {k. n \<le> k \<and> schedule_name k \<in> set seen}"
      by blast
  qed auto
  then show "((seen, n + 1), (seen, n)) \<in> measure (\<lambda>(seen, n). card {k. n \<le> k \<and> schedule_name k \<in> set seen})"
    using psubset_card_mono [OF taken_names_finite] by simp
qed simp

declare free_sequence.simps [simp del]

definition allocate_schedule_id :: "schedules \<Rightarrow> string" where
  "allocate_schedule_id st = schedule_name (free_sequence (sc_seen st) (card (set (sc_seen st)) + 1))"

section \<open>Creating records\<close>

definition future_instant :: "int \<Rightarrow> int \<Rightarrow> (schedule_input_error, string) result" where
  "future_instant epoch now =
     (if \<not> safe_int now \<or> \<not> safe_int epoch \<or> epoch < MIN_FOUR_DIGIT_YEAR_MS \<or> MAX_FOUR_DIGIT_YEAR_MS < epoch
      then Inl TimeOutOfRange
      else if epoch \<le> now then Inl NotFuture
      else if \<not> utc_instant_shape (iso_string epoch) then Inl TimeOutOfRange
      else Inr (iso_string epoch))"

definition create_after_record ::
    "string \<Rightarrow> string \<Rightarrow> jsnum \<Rightarrow> int \<Rightarrow> (schedule_input_error, schedule_record) result" where
  "create_after_record i prompt after now =
     (if js_trim prompt = [] then Inl InvalidPrompt
      else (case safe_int_of (Some (JNum after)) of
              Some n \<Rightarrow>
                (if n \<le> 0 then Inl InvalidRule
                 else rmap (AfterRecord i (js_trim prompt) n) (future_instant (now + n * 1000) now))
            | None \<Rightarrow> Inl InvalidRule))"

definition create_every_record ::
    "string \<Rightarrow> string \<Rightarrow> jsnum \<Rightarrow> int \<Rightarrow> (schedule_input_error, schedule_record) result" where
  "create_every_record i prompt every now =
     (if js_trim prompt = [] then Inl InvalidPrompt
      else (case safe_int_of (Some (JNum every)) of
              Some n \<Rightarrow>
                (if n < MIN_EVERY_INTERVAL_SECONDS then Inl FrequencyTooHigh
                 else rmap (EveryRecord i (js_trim prompt) n) (future_instant (now + n * 1000) now))
            | None \<Rightarrow> Inl InvalidRule))"

section \<open>Views\<close>

record schedule_view =
  vw_record :: schedule_record
  vw_overdue :: bool

definition view_schedule :: "schedule_record \<Rightarrow> int \<Rightarrow> schedule_view" where
  "view_schedule r now = \<lparr>vw_record = r, vw_overdue = (date_parse (sr_at r) \<le> now)\<rparr>"

end
