(* ===== verification/Schedule_Facts.thy ===== *)
theory Schedule_Facts
  imports Schedule_Domain
begin

text \<open>
  Facts about the reminder domain: what the strict decoder admits and that it reads the written
  form of every legal change back, the invariant of the replay fold, the fixed-rate arithmetic,
  fresh identifiers, and the legality of newly created records.
\<close>

section \<open>Legal values\<close>

definition instant_ok :: "string \<Rightarrow> bool" where
  "instant_ok s \<longleftrightarrow> utc_instant_shape s \<and> iso_string (date_parse s) = s"

lemma instant_ok_iso [simp, intro]: "representable t \<Longrightarrow> instant_ok (iso_string t)"
  by (simp add: instant_ok_def iso_shape date_parse_iso)

lemma instant_ok_representable: "instant_ok s \<Longrightarrow> representable (date_parse s)"
  by (simp add: instant_ok_def shape_representable)

fun rate_ok :: "schedule_record \<Rightarrow> bool" where
  "rate_ok (AfterRecord _ _ n _) \<longleftrightarrow> 0 < n \<and> safe_int n"
| "rate_ok (AtRecord _ _ _) \<longleftrightarrow> True"
| "rate_ok (EveryRecord _ _ n _) \<longleftrightarrow> MIN_EVERY_INTERVAL_SECONDS \<le> n \<and> safe_int n \<and> safe_int (n * 1000)"

definition record_ok :: "schedule_record \<Rightarrow> bool" where
  "record_ok r \<longleftrightarrow> normalized_text (sr_id r) \<and> normalized_text (sr_prompt r) \<and> instant_ok (sr_at r) \<and> rate_ok r"

fun legal_change :: "schedule_change \<Rightarrow> bool" where
  "legal_change (CreateSchedule r) \<longleftrightarrow> record_ok r"
| "legal_change (DeleteSchedule i) \<longleftrightarrow> normalized_text i"
| "legal_change (DispatchSchedule i at) \<longleftrightarrow> normalized_text i \<and> (case at of Some t \<Rightarrow> instant_ok t | None \<Rightarrow> True)"

section \<open>The written form\<close>

definition int_json :: "int \<Rightarrow> json" where
  "int_json i = JNum (NInt i)"

fun record_json :: "schedule_record \<Rightarrow> json" where
  "record_json (AfterRecord i p n t) =
     JObj [(''id'', JStr i), (''kind'', JStr ''after''), (''prompt'', JStr p), (''afterSeconds'', int_json n), (''scheduledAt'', JStr t)]"
| "record_json (AtRecord i p t) =
     JObj [(''id'', JStr i), (''kind'', JStr ''at''), (''prompt'', JStr p), (''scheduledAt'', JStr t)]"
| "record_json (EveryRecord i p n t) =
     JObj [(''id'', JStr i), (''kind'', JStr ''every''), (''prompt'', JStr p), (''everySeconds'', int_json n), (''scheduledAt'', JStr t)]"

fun schedule_change_json :: "schedule_change \<Rightarrow> json" where
  "schedule_change_json (CreateSchedule r) =
     JObj [(''version'', int_json SCHEDULE_CHANGE_VERSION), (''operation'', JStr ''create''), (''schedule'', record_json r)]"
| "schedule_change_json (DeleteSchedule i) =
     JObj [(''version'', int_json SCHEDULE_CHANGE_VERSION), (''operation'', JStr ''delete''), (''id'', JStr i)]"
| "schedule_change_json (DispatchSchedule i at) =
     JObj ([(''version'', int_json SCHEDULE_CHANGE_VERSION), (''operation'', JStr ''dispatch''), (''id'', JStr i)]
           @ (case at of Some t \<Rightarrow> [(''acceptedAt'', JStr t)] | None \<Rightarrow> []))"

lemma decode_id_text [simp]: "decode_id (Some (JStr s)) = (if normalized_text s then Inr s else Inl LogId)"
  by (auto simp: decode_id_def normalized_text_def)

lemma decode_prompt_text [simp]: "decode_prompt (Some (JStr s)) = (if normalized_text s then Inr s else Inl LogPrompt)"
  by (auto simp: decode_prompt_def normalized_text_def)

lemma decode_instant_text [simp]: "decode_instant (Some (JStr s)) = (if instant_ok s then Inr s else Inl LogInstant)"
  by (auto simp: decode_instant_def instant_ok_def)

lemma decode_record_json:
  assumes "record_ok r"
  shows "decode_schedule_record (Some (record_json r)) = Inr r"
proof (cases r)
  case (AfterRecord i p n t)
  with assms show ?thesis
    by (simp add: record_ok_def decode_schedule_record_def decode_after_record_def has_exact_keys_def int_json_def)
next
  case (AtRecord i p t)
  with assms show ?thesis
    by (simp add: record_ok_def decode_schedule_record_def decode_at_record_def has_exact_keys_def)
next
  case (EveryRecord i p n t)
  with assms show ?thesis
    by (simp add: record_ok_def decode_schedule_record_def decode_every_record_def has_exact_keys_def int_json_def)
qed

lemma decode_schedule_change_json:
  assumes "legal_change c"
  shows "decode_schedule_change (schedule_change_json c) = Inr c"
proof (cases c)
  case (CreateSchedule r)
  with assms decode_record_json [of r] show ?thesis
    by (simp add: decode_schedule_change_def has_exact_keys_def int_json_def)
next
  case (DeleteSchedule i)
  with assms show ?thesis by (simp add: decode_schedule_change_def has_exact_keys_def int_json_def)
next
  case (DispatchSchedule i at)
  with assms show ?thesis
    by (cases at) (simp_all add: decode_schedule_change_def has_exact_keys_def int_json_def)
qed

lemma guarded_result [result_simps]:
  "(case x of None \<Rightarrow> Inl e | Some a \<Rightarrow> f a) = Inr b \<longleftrightarrow> (\<exists>a. x = Some a \<and> f a = Inr b)"
  "(if c then Inl e else m) = Inr b \<longleftrightarrow> \<not> c \<and> m = Inr b"
  "(case v of JObj r \<Rightarrow> g r | _ \<Rightarrow> Inl e) = Inr b \<longleftrightarrow> (\<exists>r. v = JObj r \<and> g r = Inr b)"
  by (auto split: option.splits json.splits)

lemma decode_id_ok: "decode_id v = Inr s \<Longrightarrow> normalized_text s"
  by (auto simp: decode_id_def normalized_text_def split: option.splits if_splits)

lemma decode_prompt_ok: "decode_prompt v = Inr s \<Longrightarrow> normalized_text s"
  by (auto simp: decode_prompt_def normalized_text_def split: option.splits if_splits)

lemma decode_instant_ok: "decode_instant v = Inr s \<Longrightarrow> instant_ok s"
  by (auto simp: decode_instant_def instant_ok_def split: option.splits if_splits)

lemmas decoded_text = decode_id_ok decode_prompt_ok decode_instant_ok

lemma safe_int_of_SomeD: "safe_int_of v = Some n \<Longrightarrow> safe_int n"
  by (induction v rule: safe_int_of.induct) (auto split: if_splits)

lemma decode_after_ok: "decode_after_record v = Inr r \<Longrightarrow> record_ok r"
  unfolding decode_after_record_def guarded_result rbind_eq_Inr rmap_eq_Inr
  by (auto simp: record_ok_def decoded_text safe_int_of_SomeD)

lemma decode_at_ok: "decode_at_record v = Inr r \<Longrightarrow> record_ok r"
  unfolding decode_at_record_def guarded_result rbind_eq_Inr rmap_eq_Inr
  by (auto simp: record_ok_def decoded_text)

lemma decode_every_ok: "decode_every_record v = Inr r \<Longrightarrow> record_ok r"
  unfolding decode_every_record_def guarded_result rbind_eq_Inr rmap_eq_Inr
  by (auto simp: record_ok_def decoded_text safe_int_of_SomeD)

lemma decode_record_ok: "decode_schedule_record v = Inr r \<Longrightarrow> record_ok r"
  by (auto simp: decode_schedule_record_def decode_after_ok decode_at_ok decode_every_ok
      split: option.splits json.splits if_splits)

lemma decode_change_ok: "decode_schedule_change j = Inr c \<Longrightarrow> legal_change c"
  by (auto simp: decode_schedule_change_def rbind_eq_Inr rmap_eq_Inr decode_record_ok decoded_text
      split: option.splits json.splits if_splits)

section \<open>Fixed-rate arithmetic\<close>

lemma occurrence_arith:
  fixes a t i :: int
  assumes "0 < i" "t \<le> a"
  shows "0 \<le> (a - t) div i" "t \<le> t + (a - t) div i * i" "t + (a - t) div i * i \<le> a" "a < t + (a - t) div i * i + i"
proof -
  show nn: "0 \<le> (a - t) div i" using assms by (simp add: pos_imp_zdiv_nonneg_iff)
  from nn assms(1) have "0 \<le> (a - t) div i * i" by simp
  then show "t \<le> t + (a - t) div i * i" by simp
  have "i * ((a - t) div i) \<le> a - t" "a - t < i * ((a - t) div i) + i"
    using div_bounds [OF assms(1), of "a - t"] by simp_all
  then show "t + (a - t) div i * i \<le> a" "a < t + (a - t) div i * i + i"
    by (simp_all add: mult.commute)
qed

text \<open>
  The decision of a fixed-rate record: the latest aligned occurrence at or before the decision
  time, and the next one if its year still has four digits.
\<close>

lemma resolve_every_spec:
  assumes at: "instant_ok at" and n: "0 < n" "safe_int (n * 1000)"
    and accepted: "representable accepted" "date_parse at \<le> accepted"
  shows "\<exists>k\<ge>0. let occ = date_parse at + k * (n * 1000) in
      resolve_every_occurrence at n accepted
        = Inr \<lparr>oc_at = iso_string occ,
               oc_next = (if occ + n * 1000 \<le> MAX_FOUR_DIGIT_YEAR_MS then Some (iso_string (occ + n * 1000)) else None)\<rparr>
      \<and> representable occ \<and> occ \<le> accepted \<and> accepted < occ + n * 1000"
proof -
  define target interval where "target = date_parse at" and "interval = n * 1000"
  define k where "k = (accepted - target) div interval"
  define occ where "occ = target + k * interval"
  have pos: "0 < interval" using n(1) by (simp add: interval_def)
  note arith = occurrence_arith [OF pos, of target accepted, folded k_def occ_def]
  have le: "target \<le> accepted" using accepted(2) by (simp add: target_def)
  have rep: "representable occ"
    using arith(2,3) [OF le] instant_ok_representable [OF at] accepted(1)
    by (simp add: representable_def target_def)
  have safe: "safe_int occ" "safe_int accepted" using rep accepted(1) by (simp_all add: representable_safe)
  have next_safe: "\<not> safe_int (occ + interval) \<or> MAX_FOUR_DIGIT_YEAR_MS < occ + interval \<longleftrightarrow> \<not> occ + interval \<le> MAX_FOUR_DIGIT_YEAR_MS"
  proof -
    have "safe_int (occ + interval)" if "occ + interval \<le> MAX_FOUR_DIGIT_YEAR_MS"
      using rep that pos by (intro representable_safe) (simp add: representable_def)
    then show ?thesis by auto
  qed
  have range: "MIN_FOUR_DIGIT_YEAR_MS \<le> accepted" "accepted \<le> MAX_FOUR_DIGIT_YEAR_MS"
    using accepted(1) by (simp_all add: representable_def)
  have "resolve_every_occurrence at n accepted
      = Inr \<lparr>oc_at = iso_string occ,
             oc_next = (if occ + interval \<le> MAX_FOUR_DIGIT_YEAR_MS then Some (iso_string (occ + interval)) else None)\<rparr>"
    unfolding resolve_every_occurrence_def Let_def target_def [symmetric] interval_def [symmetric] k_def [symmetric]
      occ_def [symmetric] next_safe
    using safe n(2) le pos arith(2,3) [OF le] range by (simp add: interval_def not_less not_le)
  then show ?thesis
    using arith(1,3,4) [OF le] rep
    by (intro exI [of _ k]) (simp add: Let_def target_def [symmetric] interval_def [symmetric] occ_def [symmetric])
qed

section \<open>The invariant of the fold\<close>

definition schedule_wf :: "schedules \<Rightarrow> bool" where
  "schedule_wf st \<longleftrightarrow>
     distinct (map fst (sc_active st)) \<and> distinct (sc_seen st) \<and> fst ` set (sc_active st) \<subseteq> set (sc_seen st)
     \<and> (\<forall>i r. map_get (sc_active st) i = Some r \<longrightarrow> sr_id r = i \<and> record_ok r)"

lemma schedule_wf_init: "schedule_wf no_schedules"
  by (simp add: schedule_wf_def no_schedules_def)

lemma Some_eq_map_option: "Some y = map_option f x \<longleftrightarrow> (\<exists>z. x = Some z \<and> y = f z)"
  by (cases x) auto

lemma dispatched_record_ok:
  assumes "record_ok r" "dispatched_record r at = Inr (Some r')"
  shows "sr_id r' = sr_id r \<and> record_ok r' \<and> is_every r \<and> is_every r'"
proof (cases r)
  case (EveryRecord i p n t)
  with assms obtain a oc s where at: "at = Some a" and oc: "resolve_every_occurrence t n (date_parse a) = Inr oc"
    and nxt: "oc_next oc = Some s" and r': "r' = EveryRecord i p n s"
    by (auto simp: dispatched_record_def rmap_eq_Inr Some_eq_map_option split: option.splits)
  have ok: "instant_ok t" "0 < n" "safe_int (n * 1000)"
    using assms(1) EveryRecord by (simp_all add: record_ok_def MIN_EVERY_INTERVAL_SECONDS_def)
  have acc: "representable (date_parse a)" "date_parse t \<le> date_parse a"
    using oc by (auto simp: resolve_every_occurrence_def representable_def Let_def split: if_splits)
  from resolve_every_spec [OF ok acc] oc nxt obtain occ where occ: "representable occ" "occ + n * 1000 \<le> MAX_FOUR_DIGIT_YEAR_MS"
      "s = iso_string (occ + n * 1000)"
    by (auto simp: Let_def split: if_splits)
  then have "instant_ok s" using ok(2) by (auto simp: representable_def)
  with assms(1) r' EveryRecord show ?thesis by (simp add: record_ok_def is_every_def)
qed (use assms in \<open>auto simp: dispatched_record_def split: if_splits\<close>)

lemma map_del_keys: "fst ` set (map_del i m) = fst ` set m - {i}"
  by (simp only: list.set_map [symmetric] delete_keys set_removeAll)

lemma apply_change_wf:
  assumes wf: "schedule_wf st" and c: "legal_change c" and step: "apply_schedule_change st c = Inr st'"
  shows "schedule_wf st'"
proof (cases c)
  case (CreateSchedule r)
  with step have new: "sr_id r \<notin> set (sc_seen st)"
    and st': "st' = \<lparr>sc_active = map_set (sr_id r) r (sc_active st), sc_seen = sc_seen st @ [sr_id r]\<rparr>"
    by (auto simp: apply_schedule_change_def split: if_splits)
  have "record_ok r" using c CreateSchedule by simp
  with wf new show ?thesis
    by (auto simp: st' schedule_wf_def distinct_update dom_update split: if_splits)
next
  case (DeleteSchedule i)
  with step have st': "st' = st\<lparr>sc_active := map_del i (sc_active st)\<rparr>"
    by (auto simp: apply_schedule_change_def split: if_splits)
  with wf show ?thesis by (auto simp: st' map_del_keys schedule_wf_def distinct_delete split: if_splits)
next
  case (DispatchSchedule i at)
  with step obtain r r' where r: "map_get (sc_active st) i = Some r" and d: "dispatched_record r at = Inr r'"
    and st': "st' = st\<lparr>sc_active := (case r' of None \<Rightarrow> map_del i (sc_active st) | Some r'' \<Rightarrow> map_set i r'' (sc_active st))\<rparr>"
    by (auto simp: apply_schedule_change_def rmap_eq_Inr split: option.splits)
  from wf r have ok: "sr_id r = i" "record_ok r" by (auto simp: schedule_wf_def)
  have mem: "i \<in> fst ` set (sc_active st)" using r by (metis map_of_eq_None_iff option.distinct(1))
  show ?thesis
  proof (cases r')
    case None
    with wf show ?thesis by (auto simp: st' map_del_keys None schedule_wf_def distinct_delete split: if_splits)
  next
    case (Some r'')
    have "sr_id r'' = i \<and> record_ok r''" using dispatched_record_ok [OF ok(2)] d ok(1) by (simp add: Some)
    with wf mem show ?thesis
      by (auto simp: st' Some schedule_wf_def distinct_update dom_update split: if_splits)
  qed
qed

lemma schedule_wf_step:
  assumes "schedule_wf st" "apply_schedule_event st e = Inr st'"
  shows "schedule_wf st'"
  using assms by (auto simp: apply_schedule_event_def rbind_eq_Inr dest: decode_change_ok apply_change_wf split: event_data.splits)

interpretation schedule: event_fold no_schedules apply_schedule_event schedule_wf
  by unfold_locales (auto simp: schedule_wf_init intro: schedule_wf_step)

lemma fold_schedule_wf: "fold_schedule_events events k = Inr st \<Longrightarrow> schedule_wf st"
  by (auto simp: fold_schedule_events_def split: if_splits intro: schedule.wf_fold)

section \<open>Fresh identifiers\<close>

lemma free_sequence_free: "schedule_name (free_sequence seen n) \<notin> set seen"
  by (induction seen n rule: free_sequence.induct) (subst free_sequence.simps, simp)

lemma free_sequence_taken: "schedule_name n \<in> set seen \<Longrightarrow> free_sequence seen n = free_sequence seen (n + 1)"
  by (subst free_sequence.simps) simp

lemma free_sequence_least: "n \<le> k \<Longrightarrow> k < free_sequence seen n \<Longrightarrow> schedule_name k \<in> set seen"
proof (induction seen n rule: free_sequence.induct)
  case (1 seen n)
  have taken: "schedule_name n \<in> set seen"
  proof (rule ccontr)
    assume "schedule_name n \<notin> set seen"
    then have "free_sequence seen n = n" by (subst free_sequence.simps) simp
    with "1.prems" show False by simp
  qed
  show ?case
  proof (cases "k = n")
    case False
    with "1.prems" taken show ?thesis by (intro "1.IH") (simp_all add: free_sequence_taken [OF taken])
  qed (use taken in simp)
qed

text \<open>The search makes at most as many further steps as there are identifiers in use.\<close>

lemma free_sequence_bounds: "n \<le> free_sequence seen n \<and> free_sequence seen n \<le> n + card (set seen)"
proof
  show "n \<le> free_sequence seen n"
    by (induction seen n rule: free_sequence.induct) (subst free_sequence.simps, auto)
  have "schedule_name ` {n..<free_sequence seen n} \<subseteq> set seen" by (auto intro: free_sequence_least)
  then have "card (schedule_name ` {n..<free_sequence seen n}) \<le> card (set seen)" by (intro card_mono) simp_all
  moreover have "card (schedule_name ` {n..<free_sequence seen n}) = free_sequence seen n - n"
    by (subst card_image) (simp_all add: inj_on_def)
  ultimately show "free_sequence seen n \<le> n + card (set seen)" by simp
qed

lemma show_nat_last: "last (show_nat n) = digit_char (n mod 10) \<and> show_nat n \<noteq> []"
  by (cases "n < 10") (simp_all add: show_nat.simps [of n])

lemma schedule_name_text: "normalized_text (schedule_name n)"
proof -
  have digit: "\<not> is_js_space (digit_char d)" if "d < 10" for d
    using that by (simp add: is_js_space_def digit_char_def)
  have "last (schedule_name n) = digit_char (n mod 10)" by (simp add: schedule_name_def show_nat_last)
  then have "\<not> is_js_space (last (schedule_name n))" using digit [of "n mod 10"] by simp
  moreover have "\<not> is_js_space (hd (schedule_name n))" by (simp add: schedule_name_def is_js_space_def)
  ultimately have "js_trim (schedule_name n) = schedule_name n" by (simp add: js_trim_id)
  then show ?thesis by (simp add: normalized_text_def) (simp add: schedule_name_def)
qed

lemma allocated_id:
  "allocate_schedule_id st \<notin> set (sc_seen st)" "normalized_text (allocate_schedule_id st)"
  by (simp_all add: allocate_schedule_id_def free_sequence_free schedule_name_text)

section \<open>Creation\<close>

lemma future_instant_ok:
  assumes "future_instant epoch now = Inr s"
  shows "instant_ok s \<and> date_parse s = epoch \<and> now < epoch"
proof -
  from assms have "representable epoch" "now < epoch" "s = iso_string epoch"
    by (auto simp: future_instant_def representable_def split: if_splits)
  then show ?thesis by (auto simp: date_parse_iso)
qed

lemma future_instant_iff:
  "future_instant epoch now = Inr s \<longleftrightarrow> representable epoch \<and> safe_int now \<and> now < epoch \<and> s = iso_string epoch"
  using representable_safe [of epoch] iso_shape [of epoch]
  by (auto simp: future_instant_def representable_def not_less not_le)

lemma created_after_ok:
  assumes "create_after_record i prompt x now = Inr r" "normalized_text i"
  shows "record_ok r \<and> sr_id r = i \<and> \<not> is_every r \<and> (\<exists>n>0. x = NInt n \<and> date_parse (sr_at r) = now + n * 1000)"
proof -
  from assms(1) obtain n t where x: "x = NInt n" "safe_int n" "0 < n" and r: "r = AfterRecord i (js_trim prompt) n t"
    and t: "future_instant (now + n * 1000) now = Inr t" and p: "js_trim prompt \<noteq> []"
    unfolding create_after_record_def guarded_result rmap_eq_Inr
    by (cases x) (auto split: if_splits)
  with future_instant_ok [OF t] assms(2) show ?thesis
    by (simp add: record_ok_def is_every_def)
qed

lemma created_every_ok:
  assumes "create_every_record i prompt x now = Inr r" "normalized_text i" "MIN_FOUR_DIGIT_YEAR_MS \<le> now"
  shows "record_ok r \<and> sr_id r = i \<and> is_every r \<and> (\<exists>n\<ge>MIN_EVERY_INTERVAL_SECONDS. x = NInt n \<and> date_parse (sr_at r) = now + n * 1000)"
proof -
  from assms(1) obtain n t where x: "x = NInt n" "safe_int n" "MIN_EVERY_INTERVAL_SECONDS \<le> n"
    and r: "r = EveryRecord i (js_trim prompt) n t"
    and t: "future_instant (now + n * 1000) now = Inr t" and p: "js_trim prompt \<noteq> []"
    unfolding create_every_record_def guarded_result rmap_eq_Inr
    by (cases x) (auto split: if_splits)
  have "representable (now + n * 1000)" using t by (simp add: future_instant_iff)
  then have "safe_int (n * 1000)" using assms(3) x(3)
    by (simp add: safe_int_def MIN_EVERY_INTERVAL_SECONDS_def max_safe_integer_def representable_def
        MIN_FOUR_DIGIT_YEAR_MS_def MAX_FOUR_DIGIT_YEAR_MS_def)
  with x future_instant_ok [OF t] assms(2) p show ?thesis
    by (auto simp: record_ok_def r is_every_def)
qed

lemma create_change_accepted:
  assumes "record_ok r" "sr_id r \<notin> set (sc_seen st)"
  shows "apply_schedule_change st (CreateSchedule r)
    = Inr \<lparr>sc_active = map_set (sr_id r) r (sc_active st), sc_seen = sc_seen st @ [sr_id r]\<rparr>"
  using assms by (simp add: apply_schedule_change_def)

section \<open>Identifiers in a stream\<close>

fun created_id :: "session_event \<Rightarrow> string list" where
  "created_id e =
     (case ev_data e of
        ScheduleChange j \<Rightarrow> (case decode_schedule_change j of Inr (CreateSchedule r) \<Rightarrow> [sr_id r] | _ \<Rightarrow> [])
      | _ \<Rightarrow> [])"

definition created_ids :: "event_log \<Rightarrow> string list" where
  "created_ids events = concat (map created_id events)"

lemma apply_schedule_change_seen:
  "apply_schedule_change st c = Inr st'
    \<Longrightarrow> sc_seen st' = sc_seen st @ (case c of CreateSchedule r \<Rightarrow> [sr_id r] | _ \<Rightarrow> [])"
  by (cases c) (auto simp: apply_schedule_change_def rmap_eq_Inr split: option.splits if_splits)

lemma apply_schedule_event_seen:
  assumes "apply_schedule_event st e = Inr st'"
  shows "sc_seen st' = sc_seen st @ created_id e"
proof (cases "\<exists>j. ev_data e = ScheduleChange j")
  case True
  then obtain j where j: "ev_data e = ScheduleChange j" by blast
  with assms obtain c where c: "decode_schedule_change j = Inr c" "apply_schedule_change st c = Inr st'"
    by (auto simp: apply_schedule_event_def rbind_eq_Inr)
  from apply_schedule_change_seen [OF c(2)] show ?thesis by (cases c) (simp_all add: j c(1))
qed (use assms in \<open>auto simp: apply_schedule_event_def split: event_data.splits\<close>)

lemma fold_schedule_seen:
  "fold_log apply_schedule_event st events = Inr st' \<Longrightarrow> sc_seen st' = sc_seen st @ created_ids events"
proof (induction events arbitrary: st)
  case (Cons e events)
  then obtain st1 where "apply_schedule_event st e = Inr st1" "fold_log apply_schedule_event st1 events = Inr st'"
    by (auto simp: rbind_eq_Inr)
  with Cons.IH apply_schedule_event_seen show ?case by (fastforce simp: created_ids_def)
qed (simp add: created_ids_def)

lemma fold_schedule_ids:
  assumes "fold_schedule_events events k = Inr st"
  shows "sc_seen st = created_ids (drop k events) \<and> distinct (created_ids (drop k events))
    \<and> distinct (map sr_id (active_records st)) \<and> sr_id ` set (active_records st) \<subseteq> set (created_ids (drop k events))"
proof -
  have wf: "schedule_wf st" using assms by (rule fold_schedule_wf)
  have seen: "sc_seen st = created_ids (drop k events)"
    using assms fold_schedule_seen [of no_schedules "drop k events" st]
    by (auto simp: fold_schedule_events_def no_schedules_def split: if_splits)
  have ids: "map sr_id (active_records st) = map fst (sc_active st)"
    using wf by (auto simp: active_records_def schedule_wf_def)
  have "sr_id ` set (active_records st) = fst ` set (sc_active st)"
    using arg_cong [OF ids, of set] by simp
  with wf seen ids show ?thesis by (simp add: schedule_wf_def)
qed

end
