(* ===== verification/Schedule_At.thy ===== *)
theory Schedule_At
  imports Schedule_Facts
begin

text \<open>
  Absolute targets of \<open>packages/schedule/schedule/src/domain.ts\<close>: instants with an explicit offset,
  and local calendar values in a named time zone. The time-zone database behind \<open>Intl\<close> is a
  parameter: the canonical name of a zone, and for each instant the local fields and the
  \<open>longOffset\<close> name a formatter of that zone emits.
\<close>

section \<open>Exact calendar fields\<close>

text \<open>
  The setters of \<open>Date\<close> normalize an out-of-range month, day or hour into a different date; the
  code reads every field back and rejects a value that changed.
\<close>

definition set_utc :: "calendar_parts \<Rightarrow> int" where
  "set_utc p =
     days_from_civil (cp_year p + (cp_month p - 1) div 12) ((cp_month p - 1) mod 12 + 1) (cp_day p) * ms_per_day
     + time_within_day p"

definition calendar_epoch :: "calendar_parts \<Rightarrow> (schedule_input_error, int) result" where
  "calendar_epoch p = (if utc_fields (set_utc p) \<noteq> p then Inl InvalidRule else Inr (set_utc p))"

definition milliseconds :: "string option \<Rightarrow> int" where
  "milliseconds f =
     (case f of None \<Rightarrow> 0 | Some ds \<Rightarrow> int (decimal_value (ds @ replicate (3 - length ds) CHR ''0'')))"

section \<open>Explicit offsets\<close>

text \<open>The optional fraction: a point and one to three digits, all the digits that follow.\<close>

definition split_fraction :: "string \<Rightarrow> (string option \<times> string) option" where
  "split_fraction s =
     (case s of
        c # cs \<Rightarrow>
          (if c = CHR ''.'' then
             (let ds = takeWhile is_digit cs in
              if 1 \<le> length ds \<and> length ds \<le> 3 then Some (Some ds, dropWhile is_digit cs) else None)
           else Some (None, s))
      | [] \<Rightarrow> Some (None, s))"

definition is_offset_zone :: "string \<Rightarrow> bool" where
  "is_offset_zone z \<longleftrightarrow> z = ''Z'' \<or> matches ''+##:##'' z \<or> matches ''-##:##'' z"

definition out_of_day :: "calendar_parts \<Rightarrow> bool" where
  "out_of_day p \<longleftrightarrow> cp_year p = 0 \<or> 23 < cp_hour p \<or> 59 < cp_minute p \<or> 59 < cp_second p"

definition parse_offset_instant :: "string \<Rightarrow> (schedule_input_error, int) result" where
  "parse_offset_instant s =
     (case split_fraction (drop 19 s) of
        None \<Rightarrow> Inl InvalidRule
      | Some (fraction, zone) \<Rightarrow>
          (if \<not> matches ''####-##-##T##:##:##'' (take 19 s) \<or> \<not> is_offset_zone zone then Inl InvalidRule
           else
             (let p = \<lparr>cp_year = field s 0 4, cp_month = field s 5 2, cp_day = field s 8 2, cp_hour = field s 11 2,
                       cp_minute = field s 14 2, cp_second = field s 17 2, cp_milli = milliseconds fraction\<rparr> in
              if out_of_day p then Inl InvalidRule
              else rbind (calendar_epoch p)
                (\<lambda>local.
                   if zone = ''Z'' then Inr local
                   else
                     (let h = field zone 1 2; m = field zone 4 2; neg = (hd zone = CHR ''-'') in
                      if 23 < h \<or> 59 < m \<or> neg \<and> h = 0 \<and> m = 0 then Inl InvalidRule
                      else Inr (local - (if neg then - 1 else 1) * (h * 60 + m) * 60000))))))"

section \<open>Time zones\<close>

definition is_zone_char :: "char \<Rightarrow> bool" where
  "is_zone_char c \<longleftrightarrow> is_lower c \<or> is_digit c \<or> (65 :: nat) \<le> of_char c \<and> of_char c \<le> (90 :: nat) \<or> c \<in> set ''_+.-''"

definition is_zone_alpha :: "char \<Rightarrow> bool" where
  "is_zone_alpha c \<longleftrightarrow> is_lower c \<or> (65 :: nat) \<le> of_char c \<and> of_char c \<le> (90 :: nat)"

fun segments :: "string \<Rightarrow> string list" where
  "segments [] = [[]]"
| "segments (c # cs) =
     (if c = CHR ''/'' then [] # segments cs
      else (case segments cs of s # ss \<Rightarrow> (c # s) # ss | [] \<Rightarrow> [[c]]))"

definition is_iana_zone :: "string \<Rightarrow> bool" where
  "is_iana_zone s =
     (case segments s of
        (c # cs) # rest \<Rightarrow>
          is_zone_alpha c \<and> list_all is_zone_char cs \<and> rest \<noteq> [] \<and> list_all (\<lambda>t. t \<noteq> [] \<and> list_all is_zone_char t) rest
      | _ \<Rightarrow> False)"

definition canonicalize_time_zone :: "(string \<Rightarrow> string option) \<Rightarrow> string \<Rightarrow> (schedule_input_error, string) result" where
  "canonicalize_time_zone canonical_name v =
     (if v = [] \<or> js_trim v \<noteq> v \<or> v \<noteq> ''UTC'' \<and> \<not> is_iana_zone v then Inl InvalidTimeZone
      else (case canonical_name v of
              None \<Rightarrow> Inl InvalidTimeZone
            | Some c \<Rightarrow> if c \<noteq> ''UTC'' \<and> \<not> is_iana_zone c then Inl InvalidTimeZone else Inr c))"

text \<open>The \<open>longOffset\<close> spelling: \<open>GMT\<close>, or \<open>GMT\<close> with a sign, hours, minutes and optional seconds.\<close>

definition offset_of_name :: "string \<Rightarrow> int option" where
  "offset_of_name s =
     (if take 3 s \<noteq> ''GMT'' then None
      else (case drop 3 s of
              [] \<Rightarrow> Some 0
            | sign # t \<Rightarrow>
                (if sign \<noteq> CHR ''+'' \<and> sign \<noteq> CHR ''-'' then None
                 else if matches ''##:##'' t \<or> matches ''##:##:##'' t then
                   Some ((if sign = CHR ''-'' then - 1 else 1)
                         * (field t 0 2 * 3600 + field t 3 2 * 60 + (if length t = 8 then field t 6 2 else 0)) * 1000)
                 else None)))"

type_synonym zone_formatter = "int \<Rightarrow> calendar_parts \<times> string"

definition local_projection :: "zone_formatter \<Rightarrow> int \<Rightarrow> (schedule_input_error, calendar_parts \<times> int) result" where
  "local_projection fmt t =
     (case offset_of_name (snd (fmt t)) of None \<Rightarrow> Inl InvalidTimeZone | Some off \<Rightarrow> Inr (fst (fmt t), off))"

definition parse_local_at :: "string \<Rightarrow> string \<Rightarrow> (schedule_input_error, calendar_parts) result" where
  "parse_local_at date time =
     (case split_fraction (drop 8 time) of
        None \<Rightarrow> Inl InvalidRule
      | Some (fraction, rest) \<Rightarrow>
          (if \<not> matches ''####-##-##'' date \<or> \<not> matches ''##:##:##'' (take 8 time) \<or> rest \<noteq> [] then Inl InvalidRule
           else
             (let p = \<lparr>cp_year = field date 0 4, cp_month = field date 5 2, cp_day = field date 8 2,
                       cp_hour = field time 0 2, cp_minute = field time 3 2, cp_second = field time 6 2,
                       cp_milli = milliseconds fraction\<rparr> in
              if out_of_day p then Inl InvalidRule
              else rmap (\<lambda>_. p) (calendar_epoch p))))"

definition clamp_instant :: "int \<Rightarrow> int" where
  "clamp_instant t = min MAX_FOUR_DIGIT_YEAR_MS (max MIN_FOUR_DIGIT_YEAR_MS t)"

definition offset_samples :: "int list" where
  "offset_samples = [-172800000, -86400000, 0, 86400000, 172800000]"

fun add_offset :: "int list \<Rightarrow> int \<Rightarrow> int list" where
  "add_offset offsets o' = (if o' \<in> set offsets then offsets else offsets @ [o'])"

definition sampled_offsets :: "zone_formatter \<Rightarrow> int \<Rightarrow> (schedule_input_error, int list) result" where
  "sampled_offsets fmt local =
     rmap (foldl add_offset [])
       (traverse (\<lambda>delta. rmap snd (local_projection fmt (clamp_instant (local + delta)))) offset_samples)"

fun candidate_step ::
    "zone_formatter \<Rightarrow> calendar_parts \<Rightarrow> int \<Rightarrow> int list \<times> bool \<Rightarrow> int \<Rightarrow> (schedule_input_error, int list \<times> bool) result" where
  "candidate_step fmt parts local (candidates, out_of_range) off =
     (let candidate = local - off in
      if candidate < MIN_FOUR_DIGIT_YEAR_MS \<or> MAX_FOUR_DIGIT_YEAR_MS < candidate then Inr (candidates, True)
      else rmap (\<lambda>(projected, _). (if projected = parts then candidates @ [candidate] else candidates, out_of_range))
        (local_projection fmt candidate))"

definition resolve_local_instant :: "calendar_parts \<Rightarrow> zone_formatter \<Rightarrow> (schedule_input_error, int) result" where
  "resolve_local_instant parts fmt =
     rbind (calendar_epoch parts)
       (\<lambda>local. rbind (sampled_offsets fmt local)
          (\<lambda>offsets. rbind (fold_log (candidate_step fmt parts local) ([], False) offsets)
             (\<lambda>(candidates, out_of_range).
                case sort candidates of
                  first # _ \<Rightarrow> Inr first
                | [] \<Rightarrow> if out_of_range then Inl TimeOutOfRange else Inl InvalidRule)))"

definition at_target ::
    "(string \<Rightarrow> string option) \<Rightarrow> (string \<Rightarrow> zone_formatter) \<Rightarrow> json \<Rightarrow> (schedule_input_error, int) result" where
  "at_target canonical_name formatter at =
     (case at of
        JStr s \<Rightarrow> parse_offset_instant s
      | JObj r \<Rightarrow>
          (if \<not> has_exact_keys r [''date'', ''time'', ''time_zone''] then Inl InvalidRule
           else (case (as_string (map_of r ''date''), as_string (map_of r ''time'')) of
                   (Some date, Some time) \<Rightarrow>
                     (case as_string (map_of r ''time_zone'') of
                        None \<Rightarrow> Inl InvalidTimeZone
                      | Some zone \<Rightarrow>
                          rbind (parse_local_at date time)
                            (\<lambda>p. rbind (canonicalize_time_zone canonical_name zone)
                               (\<lambda>z. resolve_local_instant p (formatter z))))
                 | _ \<Rightarrow> Inl InvalidRule))
      | _ \<Rightarrow> Inl InvalidRule)"

definition create_at_record ::
    "(string \<Rightarrow> string option) \<Rightarrow> (string \<Rightarrow> zone_formatter) \<Rightarrow> string \<Rightarrow> string \<Rightarrow> json \<Rightarrow> int
       \<Rightarrow> (schedule_input_error, schedule_record) result" where
  "create_at_record canonical_name formatter i prompt at now =
     (if js_trim prompt = [] then Inl InvalidPrompt
      else rbind (at_target canonical_name formatter at)
        (\<lambda>target. rmap (AtRecord i (js_trim prompt)) (future_instant target now)))"

section \<open>Facts\<close>

lemma set_utc_valid: "1 \<le> cp_month p \<Longrightarrow> cp_month p \<le> 12 \<Longrightarrow> set_utc p = utc_epoch p"
  by (simp add: set_utc_def utc_epoch_def)

lemma calendar_epoch_ok: "calendar_epoch p = Inr t \<longleftrightarrow> valid_parts p \<and> t = utc_epoch p"
proof
  assume h: "calendar_epoch p = Inr t"
  then have eq: "utc_fields t = p" "t = set_utc p" by (auto simp: calendar_epoch_def split: if_splits)
  then have "valid_parts p" "utc_epoch p = t" using epoch_of_fields by metis+
  then show "valid_parts p \<and> t = utc_epoch p" by simp
next
  assume h: "valid_parts p \<and> t = utc_epoch p"
  then have "set_utc p = utc_epoch p"
    using valid_date_day [of "cp_year p" "cp_month p" "cp_day p"] by (intro set_utc_valid) (simp_all add: valid_parts_def)
  with h show "calendar_epoch p = Inr t" by (simp add: calendar_epoch_def fields_of_epoch)
qed

text \<open>The documented behaviour of a formatter: it shifts the instant by the zone's offset and names that offset.\<close>

definition formats_zone :: "zone_formatter \<Rightarrow> (int \<Rightarrow> int) \<Rightarrow> bool" where
  "formats_zone fmt off \<longleftrightarrow>
     (\<forall>t. representable t \<longrightarrow> fst (fmt t) = utc_fields (t + off t) \<and> offset_of_name (snd (fmt t)) = Some (off t))"

lemma representable_clamp: "representable (clamp_instant t)"
  by (simp add: clamp_instant_def representable_def MIN_FOUR_DIGIT_YEAR_MS_def MAX_FOUR_DIGIT_YEAR_MS_def)

lemma local_projection_zone:
  "formats_zone fmt off \<Longrightarrow> representable t \<Longrightarrow> local_projection fmt t = Inr (utc_fields (t + off t), off t)"
  by (simp add: formats_zone_def local_projection_def)

lemma set_add_offsets: "set (foldl add_offset acc xs) = set acc \<union> set xs"
  by (induction xs arbitrary: acc) auto

lemma traverse_Inr: "(\<And>x. f x = Inr (g x)) \<Longrightarrow> traverse f xs = Inr (map g xs)"
  by (induction xs) simp_all

definition zone_samples :: "(int \<Rightarrow> int) \<Rightarrow> int \<Rightarrow> int set" where
  "zone_samples off local = (\<lambda>d. off (clamp_instant (local + d))) ` set offset_samples"

lemma sampled_offsets_zone:
  assumes "formats_zone fmt off"
  shows "\<exists>os. sampled_offsets fmt local = Inr os \<and> set os = zone_samples off local"
proof -
  have "traverse (\<lambda>delta. rmap snd (local_projection fmt (clamp_instant (local + delta)))) offset_samples
      = Inr (map (\<lambda>delta. off (clamp_instant (local + delta))) offset_samples)"
    by (rule traverse_Inr) (simp add: local_projection_zone [OF assms representable_clamp])
  then show ?thesis by (simp add: sampled_offsets_def set_add_offsets zone_samples_def)
qed

lemma candidates_zone:
  assumes "formats_zone fmt off"
  shows "\<exists>c' b'. fold_log (candidate_step fmt parts local) (c, b) os = Inr (c', b')
    \<and> set c' = set c \<union> {local - o' | o'. o' \<in> set os \<and> representable (local - o')
                          \<and> utc_fields (local - o' + off (local - o')) = parts}"
proof (induction os arbitrary: c b)
  case (Cons o' os)
  show ?case
  proof (cases "representable (local - o')")
    case True
    then have "candidate_step fmt parts local (c, b) o'
        = Inr (if utc_fields (local - o' + off (local - o')) = parts then c @ [local - o'] else c, b)"
      using local_projection_zone [OF assms True] by (simp add: representable_def Let_def)
    with Cons.IH [of "if utc_fields (local - o' + off (local - o')) = parts then c @ [local - o'] else c" b] True
    show ?thesis by (auto split: if_splits)
  next
    case False
    then have "candidate_step fmt parts local (c, b) o' = Inr (c, True)"
      by (auto simp: representable_def Let_def)
    with Cons.IH [of c True] False show ?thesis by auto
  qed
qed auto

lemma resolve_local_spec:
  assumes fmt: "formats_zone fmt off" and res: "resolve_local_instant parts fmt = Inr t"
  shows "representable t" "utc_fields (t + off t) = parts"
    and "\<And>u. representable u \<Longrightarrow> utc_fields (u + off u) = parts \<Longrightarrow> off u \<in> zone_samples off (utc_epoch parts) \<Longrightarrow> t \<le> u"
proof -
  obtain local where local: "calendar_epoch parts = Inr local"
    using res by (auto simp: resolve_local_instant_def rbind_eq_Inr)
  obtain os where os: "sampled_offsets fmt local = Inr os" "set os = zone_samples off local"
    using sampled_offsets_zone [OF fmt] by blast
  obtain c b where c: "fold_log (candidate_step fmt parts local) ([], False) os = Inr (c, b)"
    and set: "set c = {local - o' | o'. o' \<in> set os \<and> representable (local - o') \<and> utc_fields (local - o' + off (local - o')) = parts}"
    using candidates_zone [OF fmt, of parts local "[]" False os] by auto
  from res obtain rest where sorted: "sort c = t # rest"
    by (auto simp: resolve_local_instant_def local os c split: list.splits if_splits)
  then have "set c = set (t # rest)" by (metis set_sort)
  then have t: "t \<in> set c" by simp
  from t show "representable t" "utc_fields (t + off t) = parts" by (auto simp: set)
  fix u
  assume u: "representable u" "utc_fields (u + off u) = parts" "off u \<in> zone_samples off (utc_epoch parts)"
  have l: "local = utc_epoch parts" using local by (simp add: calendar_epoch_ok)
  have "u + off u = local" using epoch_of_fields(1) [of "u + off u"] u(2) l by simp
  then have shift: "local - off u = u" by simp
  from u(3) have "off u \<in> set os" by (simp add: os(2) l)
  then have "u \<in> set c" unfolding set mem_Collect_eq
    by (intro exI [of _ "off u"]) (simp only: shift u(1,2) simp_thms)
  then have "u \<in> set (t # rest)" using \<open>set c = set (t # rest)\<close> by simp
  moreover have "sorted (t # rest)" using sorted by (metis sorted_sort)
  ultimately show "t \<le> u" by auto
qed

lemma created_at_ok:
  assumes "create_at_record cn fm i prompt at now = Inr r" "normalized_text i"
  shows "record_ok r \<and> sr_id r = i \<and> \<not> is_every r
    \<and> (\<exists>target. at_target cn fm at = Inr target \<and> date_parse (sr_at r) = target \<and> now < target)"
proof -
  from assms(1) obtain target t where x: "at_target cn fm at = Inr target" and p: "js_trim prompt \<noteq> []"
    and t: "future_instant target now = Inr t" and r: "r = AtRecord i (js_trim prompt) t"
    by (auto simp: create_at_record_def rbind_eq_Inr rmap_eq_Inr split: if_splits)
  with future_instant_ok [OF t] assms(2) show ?thesis by (simp add: record_ok_def is_every_def)
qed

section \<open>Reading a written offset instant\<close>

definition local_text :: "calendar_parts \<Rightarrow> string" where
  "local_text p =
     padded 4 (nat (cp_year p)) @ ''-'' @ padded 2 (nat (cp_month p)) @ ''-'' @ padded 2 (nat (cp_day p)) @ ''T''
     @ padded 2 (nat (cp_hour p)) @ '':'' @ padded 2 (nat (cp_minute p)) @ '':'' @ padded 2 (nat (cp_second p))"

definition offset_text :: "bool \<Rightarrow> nat \<Rightarrow> nat \<Rightarrow> string" where
  "offset_text neg h m = (if neg then ''-'' else ''+'') @ padded 2 h @ '':'' @ padded 2 m"

lemma length_local_text: "length (local_text p) = 19"
  by (simp add: local_text_def)

lemma digits_split:
  assumes "list_all is_digit ds" "\<not> is_digit c"
  shows "takeWhile is_digit (ds @ c # cs) = ds" "dropWhile is_digit (ds @ c # cs) = c # cs"
  using assms by (induction ds) auto

lemma matches_local_text: "matches ''####-##-##T##:##:##'' (local_text p)"
proof -
  have pattern: "''####-##-##T##:##:##'' = replicate 4 CHR ''#'' @ ''-'' @ replicate 2 CHR ''#'' @ ''-''
      @ replicate 2 CHR ''#'' @ ''T'' @ replicate 2 CHR ''#'' @ '':'' @ replicate 2 CHR ''#'' @ '':''
      @ replicate 2 CHR ''#''"
    by (simp add: numeral_eq_Suc)
  have lit: "matches [c] [c]" if "c \<noteq> CHR ''#''" for c using that by (simp add: matches_def)
  show ?thesis unfolding pattern local_text_def
    by (simp only: matches_append length_replicate length_padded matches_digits padded_digits list.size) (simp add: lit)
qed

lemma offset_text_zone: "is_offset_zone (offset_text neg h m)"
proof -
  have pattern: "c # ''##:##'' = [c] @ replicate 2 CHR ''#'' @ '':'' @ replicate 2 CHR ''#''" for c
    by (simp add: numeral_eq_Suc)
  have lit: "matches [c] [c]" if "c \<noteq> CHR ''#''" for c using that by (simp add: matches_def)
  have "matches ((if neg then CHR ''-'' else CHR ''+'') # ''##:##'') (offset_text neg h m)"
    unfolding pattern offset_text_def
    by (cases neg) (simp_all only: matches_append length_replicate length_padded matches_digits padded_digits
        list.size if_True if_False, simp_all add: lit)
  then show ?thesis by (cases neg) (simp_all add: is_offset_zone_def)
qed

lemma parse_offset_written:
  assumes valid: "valid_parts p" and year: "1 \<le> cp_year p" "cp_year p \<le> 9999"
    and h: "h \<le> 23" and m: "m \<le> 59" and nonzero: "neg \<longrightarrow> h \<noteq> 0 \<or> m \<noteq> 0"
  shows "parse_offset_instant (local_text p @ ''.'' @ padded 3 (nat (cp_milli p)) @ offset_text neg h m)
    = Inr (utc_epoch p - (if neg then - 1 else 1) * (int h * 60 + int m) * 60000)"
proof -
  let ?zone = "offset_text neg h m"
  define s where "s = local_text p @ ''.'' @ padded 3 (nat (cp_milli p)) @ ?zone"
  have d: "1 \<le> cp_month p" "cp_month p \<le> 12" "1 \<le> cp_day p" "cp_day p \<le> 31"
    using valid valid_date_day [of "cp_year p" "cp_month p" "cp_day p"] by (simp_all add: valid_parts_def)
  have t: "0 \<le> cp_hour p" "cp_hour p \<le> 23" "0 \<le> cp_minute p" "cp_minute p \<le> 59" "0 \<le> cp_second p"
      "cp_second p \<le> 59" "0 \<le> cp_milli p" "cp_milli p \<le> 999"
    using valid by (simp_all add: valid_parts_def valid_time_def)
  obtain c cs where zone: "?zone = c # cs" "\<not> is_digit c" by (cases neg) (simp_all add: offset_text_def is_digit_def)
  have split: "split_fraction (drop 19 s) = Some (Some (padded 3 (nat (cp_milli p))), ?zone)"
    using digits_split [OF padded_digits zone(2), of 3 "nat (cp_milli p)" cs]
    by (simp add: s_def length_local_text split_fraction_def zone(1) Let_def)
  have take: "take 19 s = local_text p" by (simp add: s_def length_local_text)
  have fields: "field s 0 4 = cp_year p" "field s 5 2 = cp_month p" "field s 8 2 = cp_day p"
      "field s 11 2 = cp_hour p" "field s 14 2 = cp_minute p" "field s 17 2 = cp_second p"
    using d t year by (simp_all add: s_def local_text_def field_def field_padded)
  have ms: "milliseconds (Some (padded 3 (nat (cp_milli p)))) = cp_milli p"
    using t by (simp add: milliseconds_def field_padded)
  have offs: "field (offset_text n h m) 1 2 = int h" "field (offset_text n h m) 4 2 = int m"
      "hd (offset_text n h m) = CHR ''-'' \<longleftrightarrow> n" "offset_text n h m \<noteq> ''Z''" for n
    using h m by (simp_all add: offset_text_def field_def decimal_value_padded)
  have eta: "\<lparr>cp_year = cp_year p, cp_month = cp_month p, cp_day = cp_day p, cp_hour = cp_hour p,
      cp_minute = cp_minute p, cp_second = cp_second p, cp_milli = cp_milli p\<rparr> = p" by simp
  have day: "\<not> out_of_day p" using t year by (simp add: out_of_day_def)
  have cal: "calendar_epoch p = Inr (utc_epoch p)" using valid by (simp add: calendar_epoch_ok)
  show ?thesis unfolding s_def [symmetric]
    using h m nonzero
    by (simp add: parse_offset_instant_def split take matches_local_text offset_text_zone fields ms eta day cal offs
        Let_def del: One_nat_def)
qed

end
