(* ===== verification/Json_Text.thy ===== *)
theory Json_Text
  imports Json_Values
begin

text \<open>
  \<open>JSON.stringify\<close> as the program uses it: the literal of a string with its escapes, and the compact
  text of a value. \<open>read_quoted\<close> is a reference reader of string literals: it returns the original
  text. The decimal text of a number is a parameter, since it is the shortest one that reads back
  as the same double.
\<close>

section \<open>JSON string literals\<close>

abbreviation quotation :: char where "quotation \<equiv> CHR 0x22"
abbreviation backslash :: char where "backslash \<equiv> CHR 0x5C"

definition hex_digit :: "nat \<Rightarrow> char" where
  "hex_digit n = (if n < 10 then char_of (48 + n) else char_of (87 + n))"

definition hex_value :: "char \<Rightarrow> nat option" where
  "hex_value c =
     (let n = of_char c :: nat in
      if 48 \<le> n \<and> n \<le> 57 then Some (n - 48)
      else if 97 \<le> n \<and> n \<le> 102 then Some (n - 87)
      else if 65 \<le> n \<and> n \<le> 70 then Some (n - 55)
      else None)"

definition quote_char :: "char \<Rightarrow> string" where
  "quote_char c =
     (let n = of_char c :: nat in
      if c = quotation \<or> c = backslash then [backslash, c]
      else if n = 8 then backslash # ''b''
      else if n = 9 then backslash # ''t''
      else if n = 10 then backslash # ''n''
      else if n = 12 then backslash # ''f''
      else if n = 13 then backslash # ''r''
      else if n < 32 then backslash # ''u00'' @ [hex_digit (n div 16), hex_digit (n mod 16)]
      else [c])"

definition json_quote :: "string \<Rightarrow> string" where
  "json_quote s = quotation # concat (map quote_char s) @ [quotation]"

definition simple_escape :: "char \<Rightarrow> char option" where
  "simple_escape c =
     (if c \<in> {quotation, backslash, CHR ''/''} then Some c
      else if c = CHR ''b'' then Some (char_of (8 :: nat))
      else if c = CHR ''t'' then Some (char_of (9 :: nat))
      else if c = CHR ''n'' then Some (char_of (10 :: nat))
      else if c = CHR ''f'' then Some (char_of (12 :: nat))
      else if c = CHR ''r'' then Some (char_of (13 :: nat))
      else None)"

text \<open>The characters behind the opening quotation mark, and what follows the closing one.\<close>

fun read_body :: "nat \<Rightarrow> string \<Rightarrow> (string \<times> string) option" where
  "read_body 0 s = None"
| "read_body (Suc fuel) s =
     (case s of
        [] \<Rightarrow> None
      | c # cs \<Rightarrow>
          (if c = quotation then Some ([], cs)
           else if c = backslash then
             (case cs of
                [] \<Rightarrow> None
              | d # ds \<Rightarrow>
                  (case simple_escape d of
                     Some x \<Rightarrow> map_option (apfst ((#) x)) (read_body fuel ds)
                   | None \<Rightarrow>
                       (if d \<noteq> CHR ''u'' \<or> take 2 ds \<noteq> ''00'' then None
                        else (case drop 2 ds of
                                h # l # es \<Rightarrow>
                                  (case (hex_value h, hex_value l) of
                                     (Some a, Some b) \<Rightarrow> map_option (apfst ((#) (char_of (16 * a + b)))) (read_body fuel es)
                                   | _ \<Rightarrow> None)
                              | _ \<Rightarrow> None))))
           else if of_char c < (32 :: nat) then None
           else map_option (apfst ((#) c)) (read_body fuel cs)))"

definition read_quoted :: "string \<Rightarrow> (string \<times> string) option" where
  "read_quoted s = (case s of c # cs \<Rightarrow> if c = quotation then read_body (length s) cs else None | [] \<Rightarrow> None)"

lemma hex_value_digit: "n < 16 \<Longrightarrow> hex_value (hex_digit n) = Some n"
  by (auto simp: hex_value_def hex_digit_def Let_def)

lemma read_quote_char:
  "read_body (Suc fuel) (quote_char c @ s) = map_option (apfst ((#) c)) (read_body fuel s)"
proof -
  have char: "of_char c = n \<Longrightarrow> c = char_of n" for n :: nat by auto
  consider "c = quotation \<or> c = backslash" | "of_char c = (8 :: nat)" | "of_char c = (9 :: nat)" | "of_char c = (10 :: nat)"
    | "of_char c = (12 :: nat)" | "of_char c = (13 :: nat)"
    | "c \<noteq> quotation" "c \<noteq> backslash" "of_char c \<notin> {8, 9, 10, 12, 13 :: nat}" "of_char c < (32 :: nat)"
    | "c \<noteq> quotation" "c \<noteq> backslash" "\<not> of_char c < (32 :: nat)"
    by auto
  then show ?thesis
  proof cases
    case 7
    define n where "n = (of_char c :: nat)"
    have n: "n < 32" "n \<notin> {8, 9, 10, 12, 13}" using 7 by (simp_all add: n_def)
    have "c = char_of (16 * (n div 16) + n mod 16)" by (simp add: n_def)
    moreover have "quote_char c = [backslash, CHR ''u'', CHR ''0'', CHR ''0'', hex_digit (n div 16), hex_digit (n mod 16)]"
      using 7 n by (simp add: quote_char_def n_def [symmetric] Let_def)
    moreover have "hex_value (hex_digit (n div 16)) = Some (n div 16)" "hex_value (hex_digit (n mod 16)) = Some (n mod 16)"
      using n(1) by (intro hex_value_digit; linarith)+
    moreover have "simple_escape CHR ''u'' = None" by (simp add: simple_escape_def)
    ultimately show ?thesis by simp
  next
    case 8
    then have "quote_char c = [c]" by (auto simp: quote_char_def Let_def)
    with 8 show ?thesis by simp
  qed (auto dest!: char simp: quote_char_def simple_escape_def Let_def)
qed

lemma read_body_quoted:
  "length s \<le> fuel \<Longrightarrow> read_body (Suc fuel) (concat (map quote_char s) @ quotation # rest) = Some (s, rest)"
proof (induction s arbitrary: fuel)
  case (Cons c s)
  then obtain fuel' where "fuel = Suc fuel'" "length s \<le> fuel'" by (cases fuel) auto
  with Cons.IH [of fuel'] show ?case by (simp add: read_quote_char del: read_body.simps)
qed simp

lemma quote_char_length: "1 \<le> length (quote_char c)"
  by (simp add: quote_char_def Let_def)

lemma length_quoted: "length s \<le> length (concat (map quote_char s))"
proof (induction s)
  case (Cons c s)
  then show ?case using quote_char_length [of c] by simp
qed simp

theorem read_quoted_quote: "read_quoted (json_quote s @ rest) = Some (s, rest)"
  using read_body_quoted [of s "Suc (length (concat (map quote_char s)) + length rest)" rest] length_quoted [of s]
  by (simp add: read_quoted_def json_quote_def del: read_body.simps)

lemma quote_char_printable: "x \<in> set (quote_char c) \<Longrightarrow> 32 \<le> (of_char x :: nat)"
proof -
  have hex: "32 \<le> (of_char (hex_digit n) :: nat)" if "n < 16" for n using that by (auto simp: hex_digit_def)
  have "(of_char c :: nat) < 32 \<Longrightarrow> of_char c div 16 < (16 :: nat)" by simp
  then show "x \<in> set (quote_char c) \<Longrightarrow> 32 \<le> (of_char x :: nat)"
    by (auto simp: quote_char_def Let_def hex split: if_splits)
qed

lemma json_quote_printable: "x \<in> set (json_quote s) \<Longrightarrow> 32 \<le> (of_char x :: nat)"
  by (auto simp: json_quote_def dest: quote_char_printable)

section \<open>Values\<close>

fun json_text :: "(jsnum \<Rightarrow> string) \<Rightarrow> json \<Rightarrow> string"
  and json_items :: "(jsnum \<Rightarrow> string) \<Rightarrow> json list \<Rightarrow> string list"
  and json_members :: "(jsnum \<Rightarrow> string) \<Rightarrow> (string \<times> json) list \<Rightarrow> string list" where
  "json_text dec JNull = ''null''"
| "json_text dec (JBool b) = (if b then ''true'' else ''false'')"
| "json_text dec (JNum n) = (case n of NInf _ \<Rightarrow> ''null'' | NNaN \<Rightarrow> ''null'' | _ \<Rightarrow> dec n)"
| "json_text dec (JStr s) = json_quote s"
| "json_text dec (JArr xs) = ''['' @ join_with '','' (json_items dec xs) @ '']''"
| "json_text dec (JObj kvs) = ''{'' @ join_with '','' (json_members dec kvs) @ ''}''"
| "json_items dec [] = []"
| "json_items dec (x # xs) = json_text dec x # json_items dec xs"
| "json_members dec [] = []"
| "json_members dec ((k, v) # kvs) = (json_quote k @ '':'' @ json_text dec v) # json_members dec kvs"

end
