(* ===== verification/Schedule_Runtime.thy ===== *)
theory Schedule_Runtime
  imports Schedule_At Schedule_Framing Session_Log Inbox
begin

text \<open>
  The live side of reminders: the due decision and one drive of the runtime
  (\<open>packages/schedule/schedule/src/runtime.ts\<close>), and the three management tools of
  \<open>tools.ts\<close>. Everything an operation asks of its surroundings (liveness, the durability barrier,
  cancellation, the clock, a fresh message identity) is an argument, in the order it is asked.
  A drive works on the session and on the agent inbox, because the reminder is queued there.
\<close>

section \<open>The due decision\<close>

datatype due_choice =
    DueOneShot schedule_record
  | DueEvery "(schedule_record \<times> string) list" string
  | DueWait "int option"

definition target_of :: "schedule_record \<Rightarrow> int" where
  "target_of r = date_parse (sr_at r)"

definition due_records :: "schedules \<Rightarrow> int \<Rightarrow> bool \<Rightarrow> schedule_record list" where
  "due_records st now every =
     sort_key target_of (filter (\<lambda>r. is_every r = every \<and> target_of r \<le> now) (active_records st))"

definition every_reminder :: "int \<Rightarrow> schedule_record \<Rightarrow> (schedule_log_error, schedule_record \<times> string) result" where
  "every_reminder now r =
     (case r of
        EveryRecord _ _ n at \<Rightarrow> rmap (\<lambda>oc. (r, oc_at oc)) (resolve_every_occurrence at n now)
      | _ \<Rightarrow> Inl LogKind)"

definition sooner :: "int \<Rightarrow> int option \<Rightarrow> schedule_record \<Rightarrow> int option" where
  "sooner now selected r =
     (let candidate = target_of r in
      if now < candidate \<and> (case selected of None \<Rightarrow> True | Some s \<Rightarrow> candidate < s) then Some candidate else selected)"

definition due_decision :: "schedules \<Rightarrow> int \<Rightarrow> (schedule_log_error, due_choice) result" where
  "due_decision st now =
     (case due_records st now False of
        r # _ \<Rightarrow> Inr (DueOneShot r)
      | [] \<Rightarrow>
          (case due_records st now True of
             [] \<Rightarrow> Inr (DueWait (foldl (sooner now) None (active_records st)))
           | every \<Rightarrow> rmap (\<lambda>rs. DueEvery rs (iso_string now)) (traverse (every_reminder now) every)))"

fun decision_text :: "due_choice \<Rightarrow> string" where
  "decision_text (DueOneShot r) = render_reminder_framing r"
| "decision_text (DueEvery reminders _) = render_batch_framing reminders"
| "decision_text (DueWait _) = []"

fun decision_changes :: "due_choice \<Rightarrow> schedule_change list" where
  "decision_changes (DueOneShot r) = [DispatchSchedule (sr_id r) None]"
| "decision_changes (DueEvery reminders accepted_at) =
     map (\<lambda>(r, _). DispatchSchedule (sr_id r) (Some accepted_at)) reminders"
| "decision_changes (DueWait _) = []"

section \<open>One drive\<close>

record schedule_host =
  hs_session :: session
  hs_inbox :: inbox_state
  hs_faulted :: bool

record drive_env =
  dv_runnable :: bool
  dv_preflight :: bool
  dv_runnable_after :: bool
  dv_wake_now :: int
  dv_idle :: bool
  dv_runnable_claim :: bool
  dv_decision_now :: int
  dv_message_id :: message_id
  dv_at :: int
  dv_barrier :: bool

datatype drive_outcome =
    DriveStopped
  | DrivePreflightFailed
  | DriveCorrupt
  | DriveUndecided
  | DriveArmed "int option"
  | DriveBusy
  | DriveFollowupFailed
  | DriveAppendFailed
  | DriveDispatched due_choice bool

definition MAX_TIMER_DELAY_MS :: int where
  "MAX_TIMER_DELAY_MS = 2147483647"

definition arm_delay :: "int option \<Rightarrow> int \<Rightarrow> int option" where
  "arm_delay target now = map_option (\<lambda>t. min (t - now) MAX_TIMER_DELAY_MS) target"

text \<open>Appends in order; a refused one ends the sequence and leaves the earlier ones in the log.\<close>

fun append_all :: "session \<Rightarrow> int \<Rightarrow> event_data list \<Rightarrow> session \<times> bool" where
  "append_all s at [] = (s, True)"
| "append_all s at (d # ds) =
     (case append_event s at d None None of Inl _ \<Rightarrow> (s, False) | Inr (s', _) \<Rightarrow> append_all s' at ds)"

definition seed_length_of :: "session \<Rightarrow> nat" where
  "seed_length_of s = (case sh_seed_length (ses_header s) of Some n \<Rightarrow> n | None \<Rightarrow> 0)"

definition read_folded :: "session \<Rightarrow> (schedule_log_error, schedules) result" where
  "read_folded s = fold_schedule_events (ses_log s) (seed_length_of s)"

definition reminder_message :: "message_id \<Rightarrow> string \<Rightarrow> user_message" where
  "reminder_message i t = \<lparr>um_id = i, um_content = [TextBlock t], um_source = PluginSource ''schedule'' NoForm\<rparr>"

text \<open>\<open>agent.followup\<close>: the message joins the end of the next-turn list, logged as one inbox splice.\<close>

definition followup :: "schedule_host \<Rightarrow> int \<Rightarrow> user_message \<Rightarrow> schedule_host option" where
  "followup h at m =
     (case mutate (hs_inbox h) NextTurn (NInf False) (NInt 0) [m] True of
        Inl _ \<Rightarrow> None
      | Inr out \<Rightarrow>
          (case append_all (hs_session h) at (map InboxSpliced (io_splices out)) of
             (_, False) \<Rightarrow> None
           | (s', True) \<Rightarrow> Some (h\<lparr>hs_session := s', hs_inbox := io_state out\<rparr>)))"

definition dispatch_data :: "due_choice \<Rightarrow> event_data list" where
  "dispatch_data d = map (\<lambda>c. ScheduleChange (schedule_change_json c)) (decision_changes d)"

definition claim_due :: "drive_env \<Rightarrow> schedule_host \<Rightarrow> schedule_host \<times> drive_outcome" where
  "claim_due env h =
     (if \<not> dv_runnable_claim env then (h, DriveStopped)
      else (case read_folded (hs_session h) of
              Inl _ \<Rightarrow> (h\<lparr>hs_faulted := True\<rparr>, DriveCorrupt)
            | Inr st \<Rightarrow>
                (case due_decision st (dv_decision_now env) of
                   Inl _ \<Rightarrow> (h, DriveUndecided)
                 | Inr (DueWait target) \<Rightarrow> (h, DriveArmed (arm_delay target (dv_decision_now env)))
                 | Inr d \<Rightarrow>
                     (case followup h (dv_at env) (reminder_message (dv_message_id env) (decision_text d)) of
                        None \<Rightarrow> (h, DriveFollowupFailed)
                      | Some h' \<Rightarrow>
                          (case append_all (hs_session h') (dv_at env) (dispatch_data d) of
                             (s', False) \<Rightarrow> (h'\<lparr>hs_session := s', hs_faulted := True\<rparr>, DriveAppendFailed)
                           | (s', True) \<Rightarrow> (h'\<lparr>hs_session := s'\<rparr>, DriveDispatched d (dv_barrier env)))))))"

definition drive_once :: "drive_env \<Rightarrow> schedule_host \<Rightarrow> schedule_host \<times> drive_outcome" where
  "drive_once env h =
     (if \<not> dv_runnable env then (h, DriveStopped)
      else if \<not> dv_preflight env then (h, DrivePreflightFailed)
      else if \<not> dv_runnable_after env then (h, DriveStopped)
      else (case read_folded (hs_session h) of
              Inl _ \<Rightarrow> (h\<lparr>hs_faulted := True\<rparr>, DriveCorrupt)
            | Inr st \<Rightarrow>
                (case due_decision st (dv_wake_now env) of
                   Inl _ \<Rightarrow> (h, DriveUndecided)
                 | Inr (DueWait target) \<Rightarrow> (h, DriveArmed (arm_delay target (dv_wake_now env)))
                 | Inr _ \<Rightarrow> (if dv_idle env then claim_due env h else (h, DriveBusy)))))"

text \<open>
  The drain of coalesced triggers: a dispatch whose barrier succeeded requests the next drive,
  every other outcome leaves the loop. The drives share one list of surroundings.
\<close>

fun run_requested :: "drive_env list \<Rightarrow> schedule_host \<Rightarrow> schedule_host" where
  "run_requested [] h = h"
| "run_requested (env # envs) h =
     (if hs_faulted h then h
      else (case drive_once env h of
              (h', DriveDispatched _ True) \<Rightarrow> run_requested envs h'
            | (h', _) \<Rightarrow> h'))"

section \<open>Management tools\<close>

datatype tool_operation = ToolCreate | ToolList | ToolDelete

datatype tool_error =
    ToolInput schedule_input_error
  | ToolSelector
  | ToolCorrupt
  | ToolUncertain tool_operation "string option"
  | ToolInternal

record tool_env =
  tv_owner :: bool
  tv_cancelled :: bool
  tv_preflight :: bool
  tv_now :: int
  tv_cancelled_late :: bool
  tv_at :: int
  tv_barrier :: bool
  tv_view_now :: int

record create_args =
  ca_extra_key :: bool
  ca_prompt :: string
  ca_after :: "jsnum option"
  ca_at :: "json option"
  ca_every :: "jsnum option"

definition validate_create_args :: "create_args \<Rightarrow> (tool_error, unit) result" where
  "validate_create_args a =
     (if ca_extra_key a
         \<or> length (filter (\<lambda>present. present) [ca_after a \<noteq> None, ca_at a \<noteq> None, ca_every a \<noteq> None]) \<noteq> 1
      then Inl ToolSelector
      else if js_trim (ca_prompt a) = [] then Inl (ToolInput InvalidPrompt)
      else if (case ca_after a of Some n \<Rightarrow> (case safe_int_of (Some (JNum n)) of Some i \<Rightarrow> i \<le> 0 | None \<Rightarrow> True) | None \<Rightarrow> False)
      then Inl (ToolInput InvalidRule)
      else if (case ca_every a of Some n \<Rightarrow> \<not> is_safe_integer n | None \<Rightarrow> False) then Inl (ToolInput InvalidRule)
      else if (case ca_every a of Some (NInt i) \<Rightarrow> i < MIN_EVERY_INTERVAL_SECONDS | _ \<Rightarrow> False)
      then Inl (ToolInput FrequencyTooHigh)
      else Inr ())"

text \<open>The opening of every tool transaction: cancellation, the durability barrier, the fold.\<close>

definition open_transaction ::
    "tool_env \<Rightarrow> tool_operation \<Rightarrow> string option \<Rightarrow> session \<Rightarrow> (tool_error, schedules) result" where
  "open_transaction env op i s =
     (if tv_cancelled env then Inl ToolInternal
      else if \<not> tv_preflight env then Inl (ToolUncertain op i)
      else map_error (\<lambda>_. ToolCorrupt) (read_folded s))"

text \<open>The closing of a mutating transaction: late cancellation, the append, the second barrier.\<close>

definition close_transaction_with ::
    "tool_env \<Rightarrow> tool_operation \<Rightarrow> string \<Rightarrow> schedule_change \<Rightarrow> session \<Rightarrow> session \<times> (tool_error, unit) result" where
  "close_transaction_with env op i c s =
     (if tv_cancelled_late env then (s, Inl ToolInternal)
      else (case append_event s (tv_at env) (ScheduleChange (schedule_change_json c)) None None of
              Inl _ \<Rightarrow> (s, Inl ToolInternal)
            | Inr (s', _) \<Rightarrow> (s', if tv_barrier env then Inr () else Inl (ToolUncertain op (Some i)))))"

definition new_record ::
    "(string \<Rightarrow> string option) \<Rightarrow> (string \<Rightarrow> zone_formatter) \<Rightarrow> create_args \<Rightarrow> string \<Rightarrow> int
       \<Rightarrow> (schedule_input_error, schedule_record) result" where
  "new_record canonical_name formatter a i now =
     (case ca_at a of
        Some at \<Rightarrow> create_at_record canonical_name formatter i (ca_prompt a) at now
      | None \<Rightarrow>
          (case ca_after a of
             Some n \<Rightarrow> create_after_record i (ca_prompt a) n now
           | None \<Rightarrow> create_every_record i (ca_prompt a) (case ca_every a of Some n \<Rightarrow> n | None \<Rightarrow> NNaN) now))"

definition schedule_create_tool ::
    "(string \<Rightarrow> string option) \<Rightarrow> (string \<Rightarrow> zone_formatter) \<Rightarrow> tool_env \<Rightarrow> create_args \<Rightarrow> session
       \<Rightarrow> session \<times> (tool_error, schedule_view) result" where
  "schedule_create_tool canonical_name formatter env a s =
     (if \<not> tv_owner env then (s, Inl ToolInternal)
      else (case rbind (validate_create_args a) (\<lambda>_. open_transaction env ToolCreate None s) of
              Inl e \<Rightarrow> (s, Inl e)
            | Inr st \<Rightarrow>
                (let i = allocate_schedule_id st in
                 case new_record canonical_name formatter a i (tv_now env) of
                   Inl e \<Rightarrow> (s, Inl (ToolInput e))
                 | Inr r \<Rightarrow>
                     (case close_transaction_with env ToolCreate i (CreateSchedule r) s of
                        (s', res) \<Rightarrow> (s', rmap (\<lambda>_. view_schedule r (tv_view_now env)) res)))))"

definition schedule_list_tool :: "tool_env \<Rightarrow> session \<Rightarrow> (tool_error, schedule_view list) result" where
  "schedule_list_tool env s =
     (if \<not> tv_owner env then Inl ToolInternal
      else rmap (\<lambda>st. map (\<lambda>r. view_schedule r (tv_now env)) (active_records st)) (open_transaction env ToolList None s))"

definition schedule_delete_tool ::
    "tool_env \<Rightarrow> string \<Rightarrow> session \<Rightarrow> session \<times> (tool_error, bool) result" where
  "schedule_delete_tool env i s =
     (if i = [] \<or> js_trim i \<noteq> i then (s, Inl (ToolInput InvalidRule))
      else if \<not> tv_owner env then (s, Inl ToolInternal)
      else (case open_transaction env ToolDelete (Some i) s of
              Inl e \<Rightarrow> (s, Inl e)
            | Inr st \<Rightarrow>
                (if \<not> (\<exists>r\<in>set (active_records st). sr_id r = i) then (s, Inr False)
                 else (case close_transaction_with env ToolDelete i (DeleteSchedule i) s of
                         (s', res) \<Rightarrow> (s', rmap (\<lambda>_. True) res)))))"

end
