(* ===== verification/Schedule_Safety.thy ===== *)
theory Schedule_Safety
  imports Schedule_Runtime
begin

text \<open>
  What the live side of reminders keeps: a drive and every tool call leave a session whose
  reminder stream still folds and an inbox that still is the replay of its log; a dispatched
  reminder is queued as one message; and repeated drives at one clock reading clear every
  overdue reminder.
\<close>

section \<open>Appending schedule changes\<close>

lemma append_all_log_only:
  assumes "session_ok s" "\<forall>d\<in>set ds. log_only d"
  shows "\<exists>s' es. append_all s at ds = (s', True) \<and> session_ok s' \<and> ses_log s' = ses_log s @ es \<and> map ev_data es = ds
    \<and> ses_header s' = ses_header s \<and> session_nodes s' = session_nodes s"
  using assms
proof (induction ds arbitrary: s)
  case (Cons d ds)
  obtain s1 e where app: "append_event s at d None None = Inr (s1, e)" and s1: "session_ok s1" "ses_log s1 = ses_log s @ [e]"
      "ev_data e = d" "session_nodes s1 = session_nodes s"
    using append_log_only [OF Cons.prems(1), of d] Cons.prems(2) by fastforce
  have h: "ses_header s1 = ses_header s" using append_event_ok(3) [OF Cons.prems(1) app] .
  obtain s' es where "append_all s1 at ds = (s', True)" "session_ok s'" "ses_log s' = ses_log s1 @ es" "map ev_data es = ds"
      "ses_header s' = ses_header s1" "session_nodes s' = session_nodes s1"
    using Cons.IH [OF s1(1)] Cons.prems(2) by auto
  then show ?case
    by (intro exI [of _ s'] exI [of _ "e # es"]) (simp add: app s1 h)
qed auto

lemma seed_length_header: "ses_header s' = ses_header s \<Longrightarrow> seed_length_of s' = seed_length_of s"
  by (simp add: seed_length_of_def)

lemma read_folded_append:
  assumes "read_folded s = Inr st" "ses_log s' = ses_log s @ es" "ses_header s' = ses_header s"
  shows "read_folded s' = fold_log apply_schedule_event st es"
proof -
  have le: "seed_length_of s \<le> length (ses_log s)" and st: "fold_log apply_schedule_event no_schedules (drop (seed_length_of s) (ses_log s)) = Inr st"
    using assms(1) by (auto simp: read_folded_def fold_schedule_events_def split: if_splits)
  show ?thesis using le st
    by (simp add: read_folded_def fold_schedule_events_def seed_length_header [OF assms(3)] assms(2) fold_log_append)
qed

lemma fold_change_events:
  assumes "map ev_data es = map (\<lambda>c. ScheduleChange (schedule_change_json c)) cs" "\<forall>c\<in>set cs. legal_change c"
  shows "fold_log apply_schedule_event st es = fold_log apply_schedule_change st cs"
  using assms
proof (induction cs arbitrary: es st)
  case (Cons c cs)
  then obtain e es' where es: "es = e # es'" "ev_data e = ScheduleChange (schedule_change_json c)"
      "map ev_data es' = map (\<lambda>c. ScheduleChange (schedule_change_json c)) cs" by (cases es) auto
  have "decode_schedule_change (schedule_change_json c) = Inr c" using Cons.prems(2) by (simp add: decode_schedule_change_json)
  then have "apply_schedule_event st e = apply_schedule_change st c" by (simp add: apply_schedule_event_def es(2))
  then show ?case using Cons.IH [OF es(3)] Cons.prems(2) by (simp add: es(1))
qed simp

section \<open>What a decision finds and what its changes do\<close>

lemma active_record_iff:
  assumes "schedule_wf st"
  shows "r \<in> set (active_records st) \<longleftrightarrow> map_get (sc_active st) (sr_id r) = Some r"
proof
  assume "r \<in> set (active_records st)"
  then obtain i where i: "(i, r) \<in> set (sc_active st)" by (auto simp: active_records_def)
  then have "map_get (sc_active st) i = Some r" using assms by (simp add: schedule_wf_def)
  with assms show "map_get (sc_active st) (sr_id r) = Some r" by (auto simp: schedule_wf_def)
next
  assume "map_get (sc_active st) (sr_id r) = Some r"
  then show "r \<in> set (active_records st)" by (force simp: active_records_def dest: map_of_SomeD)
qed

lemma active_record_ok: "schedule_wf st \<Longrightarrow> r \<in> set (active_records st) \<Longrightarrow> record_ok r"
  by (simp add: active_record_iff) (auto simp: schedule_wf_def)

lemma due_records_iff:
  "r \<in> set (due_records st now every) \<longleftrightarrow> r \<in> set (active_records st) \<and> is_every r = every \<and> target_of r \<le> now"
  by (simp add: due_records_def)

lemma active_ids_distinct:
  assumes "schedule_wf st"
  shows "distinct (map sr_id (active_records st))"
proof -
  have "map sr_id (active_records st) = map fst (sc_active st)"
  proof -
    have "sr_id r = i" if "(i, r) \<in> set (sc_active st)" for i r
      using assms that by (simp add: schedule_wf_def)
    then show ?thesis by (auto simp: active_records_def)
  qed
  with assms show ?thesis by (simp add: schedule_wf_def)
qed

lemma due_ids_distinct: "schedule_wf st \<Longrightarrow> distinct (map sr_id (due_records st now every))"
  using active_ids_distinct [of st] distinct_map_filter [of sr_id "active_records st"]
  by (simp add: due_records_def distinct_map)

definition due_count :: "schedules \<Rightarrow> int \<Rightarrow> nat" where
  "due_count st now =
     length (filter (\<lambda>r. \<not> is_every r \<and> target_of r \<le> now) (active_records st))
     + (if \<exists>r\<in>set (active_records st). is_every r \<and> target_of r \<le> now then 1 else 0)"

definition overdue :: "schedules \<Rightarrow> int \<Rightarrow> schedule_record list" where
  "overdue st now = filter (\<lambda>r. target_of r \<le> now) (active_records st)"

lemma due_count_0: "due_count st now = 0 \<longleftrightarrow> overdue st now = []"
  by (auto simp: due_count_def overdue_def filter_empty_conv)

lemma due_records_Nil: "due_records st now every = [] \<longleftrightarrow> (\<forall>r\<in>set (active_records st). is_every r = every \<longrightarrow> now < target_of r)"
  using due_records_iff [of _ st now every] by (metis empty_iff list.set(1) list.set_sel(1) not_le)

lemma every_reminder_ok:
  assumes "record_ok r" "is_every r" "target_of r \<le> now" "representable now"
  shows "\<exists>t. every_reminder now r = Inr (r, t)"
proof (cases r)
  case (EveryRecord i p n at)
  have "instant_ok at" "0 < n" "safe_int (n * 1000)" "date_parse at \<le> now"
    using assms EveryRecord by (simp_all add: record_ok_def MIN_EVERY_INTERVAL_SECONDS_def target_of_def)
  from resolve_every_spec [OF this(1-3) assms(4) this(4)] show ?thesis
    by (auto simp: every_reminder_def EveryRecord Let_def)
qed (use assms(2) in \<open>simp_all add: is_every_def\<close>)

lemma every_reminder_fst: "every_reminder now r = Inr (r', t) \<Longrightarrow> r' = r \<and> representable now"
  by (auto simp: every_reminder_def rmap_eq_Inr resolve_every_occurrence_def representable_def Let_def
      split: schedule_record.splits if_splits)

lemma traverse_reminders:
  "traverse (every_reminder now) rs = Inr ps \<Longrightarrow> map fst ps = rs \<and> (rs \<noteq> [] \<longrightarrow> representable now)"
proof (induction rs arbitrary: ps)
  case (Cons r rs)
  then obtain r' t qs where "every_reminder now r = Inr (r', t)" "traverse (every_reminder now) rs = Inr qs" "ps = (r', t) # qs"
    by (auto simp: rbind_eq_Inr rmap_eq_Inr)
  with Cons.IH every_reminder_fst show ?case by fastforce
qed simp

lemma traverse_reminders_ok:
  assumes "\<forall>r\<in>set rs. record_ok r \<and> is_every r \<and> target_of r \<le> now" "representable now"
  shows "\<exists>ps. traverse (every_reminder now) rs = Inr ps"
  using assms(1)
proof (induction rs)
  case (Cons r rs)
  then obtain t ps where "every_reminder now r = Inr (r, t)" "traverse (every_reminder now) rs = Inr ps"
    using every_reminder_ok [OF _ _ _ assms(2), of r] by auto
  then show ?case by simp
qed simp

lemma due_decision_cases:
  assumes "schedule_wf st" "due_decision st now = Inr d"
  obtains (one_shot) r where "d = DueOneShot r" "r \<in> set (active_records st)" "\<not> is_every r" "target_of r \<le> now"
    | (every) reminders where "d = DueEvery reminders (iso_string now)" "map fst reminders = due_records st now True"
        "due_records st now True \<noteq> []" "due_records st now False = []" "representable now"
    | (wait) "d = DueWait (foldl (sooner now) None (active_records st))" "overdue st now = []"
proof (cases "due_records st now False")
  case (Cons r rs)
  with assms(2) have "d = DueOneShot r" by (simp add: due_decision_def)
  moreover have "r \<in> set (due_records st now False)" by (simp add: Cons)
  ultimately show thesis using that(1) by (simp add: due_records_iff)
next
  case Nil
  show thesis
  proof (cases "due_records st now True")
    case every: Nil
    with Nil assms(2) have "d = DueWait (foldl (sooner now) None (active_records st))" by (simp add: due_decision_def)
    moreover have "overdue st now = []" using Nil every by (auto simp: overdue_def filter_empty_conv due_records_Nil not_le)
    ultimately show thesis by (rule that(3))
  next
    case (Cons r rs)
    with Nil assms(2) obtain ps where ps: "traverse (every_reminder now) (due_records st now True) = Inr ps"
      and d: "d = DueEvery ps (iso_string now)"
      by (auto simp: due_decision_def rmap_eq_Inr)
    from traverse_reminders [OF ps] Cons Nil d that(2) show thesis by simp
  qed
qed

lemma dispatch_every:
  assumes wf: "schedule_wf st" and r: "map_get (sc_active st) i = Some r" "is_every r" "target_of r \<le> now"
    and now: "representable now"
  shows "\<exists>st'. apply_schedule_change st (DispatchSchedule i (Some (iso_string now))) = Inr st'
    \<and> (\<forall>j. j \<noteq> i \<longrightarrow> map_get (sc_active st') j = map_get (sc_active st) j)
    \<and> (\<forall>r'. map_get (sc_active st') i = Some r' \<longrightarrow> is_every r' \<and> now < target_of r')"
proof (cases r)
  case (EveryRecord k p n at)
  have ok: "record_ok r" using wf r(1) by (simp add: schedule_wf_def)
  then have at: "instant_ok at" "0 < n" "safe_int (n * 1000)" "date_parse at \<le> now"
    using r(3) EveryRecord by (simp_all add: record_ok_def MIN_EVERY_INTERVAL_SECONDS_def target_of_def)
  from resolve_every_spec [OF at(1-3) now at(4)] obtain occ where
    res: "resolve_every_occurrence at n now = Inr \<lparr>oc_at = iso_string occ,
        oc_next = (if occ + n * 1000 \<le> MAX_FOUR_DIGIT_YEAR_MS then Some (iso_string (occ + n * 1000)) else None)\<rparr>"
    and occ: "representable occ" "now < occ + n * 1000"
    by (auto simp: Let_def)
  have rep: "occ + n * 1000 \<le> MAX_FOUR_DIGIT_YEAR_MS \<Longrightarrow> representable (occ + n * 1000)"
    using occ(1) at(2) by (simp add: representable_def)
  show ?thesis
  proof (cases "occ + n * 1000 \<le> MAX_FOUR_DIGIT_YEAR_MS")
    case True
    then show ?thesis
      by (simp add: apply_schedule_change_def r(1) EveryRecord dispatched_record_def date_parse_iso now res rep
          is_every_def target_of_def occ(2))
  next
    case False
    then show ?thesis
      by (simp add: apply_schedule_change_def r(1) EveryRecord dispatched_record_def date_parse_iso now res)
  qed
qed (use r(2) in \<open>simp_all add: is_every_def\<close>)

lemma dispatch_batch:
  assumes "schedule_wf st" "distinct (map sr_id rs)" "representable now"
    and "\<forall>r\<in>set rs. map_get (sc_active st) (sr_id r) = Some r \<and> is_every r \<and> target_of r \<le> now"
  shows "\<exists>st'. fold_log apply_schedule_change st (map (\<lambda>r. DispatchSchedule (sr_id r) (Some (iso_string now))) rs) = Inr st'
    \<and> schedule_wf st' \<and> (\<forall>j. j \<notin> sr_id ` set rs \<longrightarrow> map_get (sc_active st') j = map_get (sc_active st) j)
    \<and> (\<forall>j r'. j \<in> sr_id ` set rs \<longrightarrow> map_get (sc_active st') j = Some r' \<longrightarrow> is_every r' \<and> now < target_of r')"
  using assms
proof (induction rs arbitrary: st)
  case (Cons r rs)
  have r: "map_get (sc_active st) (sr_id r) = Some r" "is_every r" "target_of r \<le> now" using Cons.prems(4) by simp_all
  obtain st1 where step: "apply_schedule_change st (DispatchSchedule (sr_id r) (Some (iso_string now))) = Inr st1"
    and other: "\<forall>j. j \<noteq> sr_id r \<longrightarrow> map_get (sc_active st1) j = map_get (sc_active st) j"
    and own: "\<forall>r'. map_get (sc_active st1) (sr_id r) = Some r' \<longrightarrow> is_every r' \<and> now < target_of r'"
    using dispatch_every [OF Cons.prems(1) r Cons.prems(3)] by blast
  have "record_ok r" using Cons.prems(1) r(1) by (simp add: schedule_wf_def)
  then have wf1: "schedule_wf st1" using apply_change_wf [OF Cons.prems(1) _ step] Cons.prems(3)
    by (simp add: record_ok_def instant_ok_iso)
  have new: "sr_id r \<notin> sr_id ` set rs" using Cons.prems(2) by simp
  have rest: "\<forall>q\<in>set rs. map_get (sc_active st1) (sr_id q) = Some q \<and> is_every q \<and> target_of q \<le> now"
    using Cons.prems(4) other new by (metis image_eqI list.set_intros(2))
  obtain st' where "fold_log apply_schedule_change st1 (map (\<lambda>r. DispatchSchedule (sr_id r) (Some (iso_string now))) rs) = Inr st'"
      "schedule_wf st'" "\<forall>j. j \<notin> sr_id ` set rs \<longrightarrow> map_get (sc_active st') j = map_get (sc_active st1) j"
      "\<forall>j r'. j \<in> sr_id ` set rs \<longrightarrow> map_get (sc_active st') j = Some r' \<longrightarrow> is_every r' \<and> now < target_of r'"
    using Cons.IH [OF wf1 _ Cons.prems(3) rest] Cons.prems(2) by auto
  with step other own new show ?case by (intro exI [of _ st']) auto
qed simp

lemma one_shot_removed:
  assumes wf: "schedule_wf st" and r: "r \<in> set (active_records st)" "\<not> is_every r" "target_of r \<le> now"
    and st': "apply_schedule_change st (DispatchSchedule (sr_id r) None) = Inr st'"
  shows "due_count st' now < due_count st now" "active_records st' = filter (\<lambda>q. q \<noteq> r) (active_records st)"
proof -
  have get: "map_get (sc_active st) (sr_id r) = Some r" using wf r(1) by (simp add: active_record_iff)
  have ids: "sr_id q = i" if "(i, q) \<in> set (sc_active st)" for i q using wf that by (simp add: schedule_wf_def)
  have same: "q = r" if "(sr_id r, q) \<in> set (sc_active st)" for q using wf that get by (simp add: schedule_wf_def)
  have "dispatched_record r None = Inr None" using r(2) by (simp add: dispatched_record_def is_every_def split: schedule_record.splits)
  then have act: "sc_active st' = map_del (sr_id r) (sc_active st)" using st' get by (auto simp: apply_schedule_change_def)
  have "filter (\<lambda>(i, q). sr_id r \<noteq> i) (sc_active st) = filter (\<lambda>(i, q). q \<noteq> r) (sc_active st)"
    using ids same by (intro filter_cong) auto
  then show rec: "active_records st' = filter (\<lambda>q. q \<noteq> r) (active_records st)"
    by (simp add: active_records_def act AList.delete_eq filter_map comp_def split_def)
  let ?P = "\<lambda>q. \<not> is_every q \<and> target_of q \<le> now"
  have "length (filter ?P (active_records st')) < length (filter ?P (active_records st))"
  proof -
    have "filter ?P (active_records st') = filter (\<lambda>q. q \<noteq> r) (filter ?P (active_records st))"
      by (simp add: rec conj_commute)
    moreover have "r \<in> set (filter ?P (active_records st))" using r by simp
    ultimately show ?thesis by (metis (mono_tags, lifting) length_filter_less)
  qed
  moreover have "(\<exists>q\<in>set (active_records st'). is_every q \<and> target_of q \<le> now)
      = (\<exists>q\<in>set (active_records st). is_every q \<and> target_of q \<le> now)"
    using r(2) by (auto simp: rec)
  ultimately show "due_count st' now < due_count st now" by (simp add: due_count_def)
qed

text \<open>The changes of a decision are accepted, and they bring the stream closer to nothing being overdue.\<close>

lemma decision_changes_ok:
  assumes wf: "schedule_wf st" and d: "due_decision st now = Inr d" and due: "\<nexists>t. d = DueWait t"
  shows "\<exists>st'. fold_log apply_schedule_change st (decision_changes d) = Inr st' \<and> schedule_wf st'
    \<and> due_count st' now < due_count st now \<and> (\<forall>c\<in>set (decision_changes d). legal_change c)"
  using wf d
proof (cases rule: due_decision_cases)
  case (one_shot r)
  have ok: "record_ok r" using wf one_shot(2) by (rule active_record_ok)
  then have c: "legal_change (DispatchSchedule (sr_id r) None)" by (simp add: record_ok_def)
  have "map_get (sc_active st) (sr_id r) = Some r" using wf one_shot(2) by (simp add: active_record_iff)
  moreover have "dispatched_record r None = Inr None"
    using one_shot(3) by (simp add: dispatched_record_def is_every_def split: schedule_record.splits)
  ultimately obtain st' where st': "apply_schedule_change st (DispatchSchedule (sr_id r) None) = Inr st'"
    by (simp add: apply_schedule_change_def)
  from apply_change_wf [OF wf c st'] one_shot_removed(1) [OF wf one_shot(2-4) st'] c st' show ?thesis
    by (simp add: one_shot(1))
next
  case (every reminders)
  let ?rs = "due_records st now True"
  have changes: "decision_changes d = map (\<lambda>r. DispatchSchedule (sr_id r) (Some (iso_string now))) ?rs"
    unfolding every(1) every(2) [symmetric] by (simp add: split_def)
  have mem: "\<forall>r\<in>set ?rs. map_get (sc_active st) (sr_id r) = Some r \<and> is_every r \<and> target_of r \<le> now"
    using wf by (auto simp: due_records_iff active_record_iff)
  from dispatch_batch [OF wf due_ids_distinct [OF wf] every(5) mem] obtain st' where
    fold: "fold_log apply_schedule_change st (decision_changes d) = Inr st'" and wf': "schedule_wf st'"
    and other: "\<forall>j. j \<notin> sr_id ` set ?rs \<longrightarrow> map_get (sc_active st') j = map_get (sc_active st) j"
    and own: "\<forall>j r'. j \<in> sr_id ` set ?rs \<longrightarrow> map_get (sc_active st') j = Some r' \<longrightarrow> is_every r' \<and> now < target_of r'"
    unfolding changes by blast
  have "now < target_of q" if q: "q \<in> set (active_records st')" for q
  proof (cases "sr_id q \<in> sr_id ` set ?rs")
    case True
    then show ?thesis using own q wf' by (auto simp: active_record_iff)
  next
    case False
    then have act: "q \<in> set (active_records st)" using other q wf wf' by (simp add: active_record_iff)
    have "q \<notin> set ?rs" using False by blast
    with act every(4) show ?thesis by (auto simp: due_records_iff due_records_Nil not_le)
  qed
  then have "overdue st' now = []" by (simp add: overdue_def filter_empty_conv not_le)
  then have "due_count st' now = 0" by (simp only: due_count_0)
  moreover have "due_count st now \<noteq> 0"
  proof -
    obtain q where "q \<in> set ?rs" using every(3) by (meson list.set_sel(1))
    then have "q \<in> set (overdue st now)" by (simp add: overdue_def due_records_iff)
    then show ?thesis unfolding due_count_0 by auto
  qed
  moreover have "\<forall>c\<in>set (decision_changes d). legal_change c"
    using mem wf every(5) active_record_ok [OF wf] unfolding changes
    by (auto simp: record_ok_def active_record_iff [OF wf])
  ultimately show ?thesis using fold wf' by auto
next
  case wait
  with due show ?thesis by blast
qed

section \<open>One drive\<close>

definition host_ok :: "schedule_host \<Rightarrow> bool" where
  "host_ok h \<longleftrightarrow>
     session_ok (hs_session h) \<and> \<not> hs_faulted h \<and> is_ok (read_folded (hs_session h))
     \<and> new_inbox (ses_header (hs_session h)) (ses_log (hs_session h)) = Inr (hs_inbox h)"

definition stream_of :: "schedule_host \<Rightarrow> schedules" where
  "stream_of h = (case read_folded (hs_session h) of Inr st \<Rightarrow> st | Inl _ \<Rightarrow> no_schedules)"

lemma host_stream: "host_ok h \<Longrightarrow> read_folded (hs_session h) = Inr (stream_of h) \<and> schedule_wf (stream_of h)"
  by (auto simp: host_ok_def stream_of_def is_ok_iff read_folded_def dest: fold_schedule_wf)

definition fresh_message :: "message_id \<Rightarrow> schedule_host \<Rightarrow> bool" where
  "fresh_message i h \<longleftrightarrow> i \<notin> um_id ` set (ib_next_turn (hs_inbox h) @ ib_next_step (hs_inbox h))"

lemma new_inbox_append:
  assumes "new_inbox (ses_header s) (ses_log s) = Inr ib" "ses_log s' = ses_log s @ es" "ses_header s' = ses_header s"
    and "seed_length_of s \<le> length (ses_log s)"
  shows "new_inbox (ses_header s') (ses_log s') = fold_log replay_inbox_event ib es"
  using assms by (simp add: new_inbox_def fold_log_append seed_length_of_def)

lemma replay_other_events:
  "\<forall>d\<in>set (map ev_data es). \<exists>j. d = ScheduleChange j \<Longrightarrow> fold_log replay_inbox_event ib es = Inr ib"
  by (induction es) (auto simp: replay_inbox_event_def)

lemma read_folded_seed: "read_folded s = Inr st \<Longrightarrow> seed_length_of s \<le> length (ses_log s)"
  by (auto simp: read_folded_def fold_schedule_events_def split: if_splits)

text \<open>Queueing a message logs one inbox splice and adds the message at the end of the next turn.\<close>

lemma followup_ok:
  assumes ok: "host_ok h" and fresh: "fresh_message (um_id m) h"
    and room: "int (length (ib_next_turn (hs_inbox h))) \<le> max_safe_integer"
  shows "\<exists>h' e sp. followup h at m = Some h' \<and> host_ok h' \<and> stream_of h' = stream_of h
    \<and> ses_log (hs_session h') = ses_log (hs_session h) @ [e] \<and> ev_data e = InboxSpliced sp
    \<and> ses_header (hs_session h') = ses_header (hs_session h)
    \<and> hs_inbox h' = (hs_inbox h)\<lparr>ib_next_turn := ib_next_turn (hs_inbox h) @ [m]\<rparr>"
proof -
  let ?ib = "hs_inbox h" and ?s = "hs_session h"
  define sp where "sp = \<lparr>is_target = NextTurn, is_start = int (length (ib_next_turn ?ib)), is_removed = None,
      is_inserted = [m], is_canceled = False\<rparr>"
  have wf: "inbox_wf ?ib"
  proof -
    have "new_inbox (ses_header ?s) (ses_log ?s) = Inr ?ib" using ok by (simp add: host_ok_def)
    then show ?thesis by (rule new_inbox_wf)
  qed
  let ?ib' = "?ib\<lparr>ib_next_turn := ib_next_turn ?ib @ [m]\<rparr>"
  have valid: "validate_splice ?ib sp = Inr ()"
  proof -
    have "first_duplicate [] (map um_id ((ib_next_turn ?ib @ [m]) @ ib_next_step ?ib)) = None"
      using wf fresh by (auto simp: first_duplicate_None inbox_wf_def fresh_message_def)
    then show ?thesis using room
      by (simp add: validate_splice_def sp_def removed_count_def js_splice_append safe_int_def max_safe_integer_def Let_def)
  qed
  have mut: "mutate ?ib NextTurn (NInf False) (NInt 0) [m] True
      = Inr \<lparr>io_splices = [sp], io_removed = [], io_notes = [Inserted m], io_state = ?ib'\<rparr>"
    using valid by (simp add: mutate_def actual_start_def actual_delete_count_def nan_to_zero_def Let_def sp_def
        js_splice_append slice_def)
  obtain s' es where app: "append_all ?s at [InboxSpliced sp] = (s', True)" "session_ok s'" "ses_log s' = ses_log ?s @ es"
      "map ev_data es = [InboxSpliced sp]" "ses_header s' = ses_header ?s"
    using append_all_log_only [of ?s "[InboxSpliced sp]" at] ok by (auto simp: host_ok_def)
  then obtain e where es: "es = [e]" "ev_data e = InboxSpliced sp" by (cases es) auto
  let ?h' = "h\<lparr>hs_session := s', hs_inbox := ?ib'\<rparr>"
  have run: "followup h at m = Some ?h'" using app(1) by (simp add: followup_def mut)
  have st: "read_folded ?s = Inr (stream_of h)" using host_stream [OF ok] by simp
  have folded: "read_folded s' = Inr (stream_of h)"
    using read_folded_append [OF st app(3,5)] by (simp add: es apply_schedule_event_def)
  have "apply_splice ?ib sp = Inr ?ib'"
    using valid by (simp add: apply_splice_def splice_state_def sp_def removed_count_def js_splice_append)
  then have "new_inbox (ses_header s') (ses_log s') = Inr ?ib'"
    using new_inbox_append [OF _ app(3,5) read_folded_seed [OF st]] ok
    by (simp add: host_ok_def es replay_inbox_event_def)
  then have "host_ok ?h'" "stream_of ?h' = stream_of h"
    using ok app(2) folded by (simp_all add: host_ok_def stream_of_def)
  with run app(3,5) es show ?thesis by (intro exI [of _ ?h'] exI [of _ e] exI [of _ sp]) simp
qed

definition drive_ok :: "schedule_host \<Rightarrow> drive_env \<Rightarrow> schedule_host \<Rightarrow> drive_outcome \<Rightarrow> bool" where
  "drive_ok h env h' out \<longleftrightarrow>
     host_ok h' \<and> out \<notin> {DriveCorrupt, DriveFollowupFailed, DriveAppendFailed}
     \<and> (case out of
          DriveDispatched d _ \<Rightarrow>
            due_decision (stream_of h) (dv_decision_now env) = Inr d \<and> (\<nexists>t. d = DueWait t)
            \<and> (\<exists>e es. ses_log (hs_session h') = ses_log (hs_session h) @ e # es \<and> map ev_data es = dispatch_data d)
            \<and> hs_inbox h' = (hs_inbox h)\<lparr>ib_next_turn := ib_next_turn (hs_inbox h)
                                 @ [reminder_message (dv_message_id env) (decision_text d)]\<rparr>
            \<and> due_count (stream_of h') (dv_decision_now env) < due_count (stream_of h) (dv_decision_now env)
        | _ \<Rightarrow> h' = h)"

lemma drive_ok_same:
  "host_ok h \<Longrightarrow> out \<in> {DriveStopped, DrivePreflightFailed, DriveUndecided, DriveBusy} \<or> (\<exists>t. out = DriveArmed t)
    \<Longrightarrow> drive_ok h env h out"
  by (auto simp: drive_ok_def)

lemma claim_due_ok:
  assumes ok: "host_ok h" and fresh: "fresh_message (dv_message_id env) h"
    and room: "int (length (ib_next_turn (hs_inbox h))) \<le> max_safe_integer"
  shows "case claim_due env h of (h', out) \<Rightarrow> drive_ok h env h' out"
proof (cases "dv_runnable_claim env")
  case True
  have st: "read_folded (hs_session h) = Inr (stream_of h)" "schedule_wf (stream_of h)" using host_stream [OF ok] by simp_all
  show ?thesis
  proof (cases "due_decision (stream_of h) (dv_decision_now env)")
    case (Inl e)
    then show ?thesis using True st(1) ok by (simp add: claim_due_def drive_ok_same)
  next
    case (Inr d)
    show ?thesis
    proof (cases "\<exists>t. d = DueWait t")
      case wait: True
      then show ?thesis using True st(1) ok Inr by (auto simp: claim_due_def drive_ok_same)
    next
      case False
      let ?m = "reminder_message (dv_message_id env) (decision_text d)"
      have "fresh_message (um_id ?m) h" using fresh by (simp add: reminder_message_def)
      from followup_ok [OF ok this room] obtain h1 e sp where f: "followup h (dv_at env) ?m = Some h1" and h1: "host_ok h1"
          "stream_of h1 = stream_of h" "ses_log (hs_session h1) = ses_log (hs_session h) @ [e]"
          "ses_header (hs_session h1) = ses_header (hs_session h)"
          "hs_inbox h1 = (hs_inbox h)\<lparr>ib_next_turn := ib_next_turn (hs_inbox h) @ [?m]\<rparr>"
        by blast
      obtain s' es where app: "append_all (hs_session h1) (dv_at env) (dispatch_data d) = (s', True)" "session_ok s'"
          "ses_log s' = ses_log (hs_session h1) @ es" "map ev_data es = dispatch_data d" "ses_header s' = ses_header (hs_session h1)"
        using append_all_log_only [of "hs_session h1" "dispatch_data d" "dv_at env"] h1(1)
        by (auto simp: host_ok_def dispatch_data_def)
      let ?h' = "h1\<lparr>hs_session := s'\<rparr>"
      have run: "claim_due env h = (?h', DriveDispatched d (dv_barrier env))"
        using True st(1) Inr False f app(1) by (cases d) (simp_all add: claim_due_def)
      from decision_changes_ok [OF st(2) Inr False] obtain st' where
        st': "fold_log apply_schedule_change (stream_of h) (decision_changes d) = Inr st'"
        "due_count st' (dv_decision_now env) < due_count (stream_of h) (dv_decision_now env)"
        "\<forall>c\<in>set (decision_changes d). legal_change c" by blast
      have st1: "read_folded (hs_session h1) = Inr (stream_of h)" using host_stream [OF h1(1)] h1(2) by simp
      have "fold_log apply_schedule_event (stream_of h) es = Inr st'"
        using fold_change_events [OF app(4) [unfolded dispatch_data_def] st'(3)] st'(1) by simp
      then have folded: "read_folded s' = Inr st'" using read_folded_append [OF st1 app(3,5)] by simp
      have "new_inbox (ses_header s') (ses_log s') = Inr (hs_inbox h1)"
        using new_inbox_append [OF _ app(3,5) read_folded_seed [OF st1]] h1(1) replay_other_events [of es]
        by (auto simp: host_ok_def app(4) dispatch_data_def)
      then have "host_ok ?h'" "stream_of ?h' = st'"
        using h1(1) app(2) folded by (simp_all add: host_ok_def stream_of_def)
      with Inr False h1(3,5) app(3,4) st'(2) show ?thesis unfolding run by (auto simp: drive_ok_def)
    qed
  qed
qed (use ok in \<open>simp add: claim_due_def drive_ok_same\<close>)

lemma drive_once_ok:
  assumes ok: "host_ok h" and fresh: "fresh_message (dv_message_id env) h"
    and room: "int (length (ib_next_turn (hs_inbox h))) \<le> max_safe_integer"
  shows "case drive_once env h of (h', out) \<Rightarrow> drive_ok h env h' out"
proof -
  have st: "read_folded (hs_session h) = Inr (stream_of h)" using host_stream [OF ok] by simp
  show ?thesis using claim_due_ok [OF assms] ok
    by (auto simp: drive_once_def st drive_ok_same split: sum.split due_choice.split)
qed

section \<open>The drain\<close>

lemma due_decision_total:
  assumes wf: "schedule_wf st" and now: "representable now"
  shows "\<exists>d. due_decision st now = Inr d \<and> ((\<exists>t. d = DueWait t) \<longleftrightarrow> overdue st now = [])"
proof -
  have "\<exists>d. due_decision st now = Inr d"
  proof (cases "due_records st now False")
    case Nil
    have "\<forall>r\<in>set (due_records st now True). record_ok r \<and> is_every r \<and> target_of r \<le> now"
      using active_record_ok [OF wf] by (auto simp: due_records_iff)
    from traverse_reminders_ok [OF this now] Nil show ?thesis
      by (auto simp: due_decision_def split: list.split)
  qed (simp add: due_decision_def)
  then obtain d where d: "due_decision st now = Inr d" by blast
  with wf have "(\<exists>t. d = DueWait t) \<longleftrightarrow> overdue st now = []"
  proof (cases rule: due_decision_cases)
    case (every reminders)
    then obtain q where "q \<in> set (due_records st now True)" by (meson list.set_sel(1))
    then have "q \<in> set (overdue st now)" by (simp add: overdue_def due_records_iff)
    with every(1) show ?thesis by auto
  qed (auto simp: overdue_def filter_empty_conv)
  with d show ?thesis by blast
qed

text \<open>Surroundings that let a drive through at one clock reading.\<close>

definition open_env :: "int \<Rightarrow> drive_env \<Rightarrow> bool" where
  "open_env now env \<longleftrightarrow>
     dv_runnable env \<and> dv_preflight env \<and> dv_runnable_after env \<and> dv_idle env \<and> dv_runnable_claim env \<and> dv_barrier env
     \<and> dv_wake_now env = now \<and> dv_decision_now env = now"

lemma drive_open:
  assumes ok: "host_ok h" and now: "representable now" "open_env now env" and fresh: "fresh_message (dv_message_id env) h"
    and room: "int (length (ib_next_turn (hs_inbox h))) \<le> max_safe_integer"
  shows "(overdue (stream_of h) now = [] \<and> (\<exists>t. drive_once env h = (h, DriveArmed t)))
    \<or> (\<exists>h' d. drive_once env h = (h', DriveDispatched d True))"
proof -
  have st: "read_folded (hs_session h) = Inr (stream_of h)" "schedule_wf (stream_of h)" using host_stream [OF ok] by simp_all
  obtain d where d: "due_decision (stream_of h) now = Inr d" "(\<exists>t. d = DueWait t) \<longleftrightarrow> overdue (stream_of h) now = []"
    using due_decision_total [OF st(2) now(1)] by blast
  show ?thesis
  proof (cases "\<exists>t. d = DueWait t")
    case True
    then show ?thesis using d now(2) by (auto simp: drive_once_def st(1) open_env_def)
  next
    case False
    obtain h' out where run: "claim_due env h = (h', out)" by (cases "claim_due env h")
    have same: "drive_once env h = claim_due env h"
      using False d(1) now(2) by (cases d) (simp_all add: drive_once_def st(1) open_env_def)
    have "drive_ok h env h' out" using claim_due_ok [OF ok fresh room, of] run by simp
    moreover have "out \<in> {DriveCorrupt, DriveFollowupFailed, DriveAppendFailed} \<or> (\<exists>d. out = DriveDispatched d True)"
      using run False d(1) now(2) by (cases d) (auto simp: claim_due_def st(1) open_env_def split: option.splits prod.splits bool.splits)
    ultimately show ?thesis using run same by (auto simp: drive_ok_def)
  qed
qed

lemma run_requested_drains:
  assumes "host_ok h" "representable now" "\<forall>env\<in>set envs. open_env now env \<and> fresh_message (dv_message_id env) h"
    and "distinct (map dv_message_id envs)" "due_count (stream_of h) now < length envs"
    and "int (length (ib_next_turn (hs_inbox h)) + length envs) \<le> max_safe_integer"
  shows "host_ok (run_requested envs h) \<and> overdue (stream_of (run_requested envs h)) now = []"
  using assms
proof (induction envs arbitrary: h)
  case (Cons env envs)
  have env: "open_env now env" "fresh_message (dv_message_id env) h" using Cons.prems(3) by simp_all
  have room: "int (length (ib_next_turn (hs_inbox h))) \<le> max_safe_integer" using Cons.prems(6) by simp
  have alive: "\<not> hs_faulted h" using Cons.prems(1) by (simp add: host_ok_def)
  from drive_open [OF Cons.prems(1,2) env room] show ?case
  proof (elim disjE exE conjE)
    fix t
    assume "overdue (stream_of h) now = []" "drive_once env h = (h, DriveArmed t)"
    then show ?thesis using Cons.prems(1) alive by simp
  next
    fix h' d
    assume run: "drive_once env h = (h', DriveDispatched d True)"
    then have "drive_ok h env h' (DriveDispatched d True)" using drive_once_ok [OF Cons.prems(1) env(2) room] by simp
    then have h': "host_ok h'" "due_count (stream_of h') now < due_count (stream_of h) now"
        "hs_inbox h' = (hs_inbox h)\<lparr>ib_next_turn := ib_next_turn (hs_inbox h) @ [reminder_message (dv_message_id env) (decision_text d)]\<rparr>"
      using env(1) by (auto simp: drive_ok_def open_env_def)
    have "\<forall>q\<in>set envs. open_env now q \<and> fresh_message (dv_message_id q) h'"
      using Cons.prems(3,4) by (auto simp: fresh_message_def h'(3) reminder_message_def) (metis image_eqI)
    then have "host_ok (run_requested envs h') \<and> overdue (stream_of (run_requested envs h')) now = []"
      using Cons.IH [OF h'(1) Cons.prems(2)] Cons.prems(4,5,6) h'(2,3) by simp
    then show ?thesis using run alive by simp
  qed
qed simp

end
