(* ===== verification/Schedule_Management.thy ===== *)
theory Schedule_Management
  imports Schedule_Safety
begin

text \<open>
  What the management tools of \<open>packages/schedule/schedule/src/tools.ts\<close> do to the session: a
  refused call logs nothing, an accepted one logs exactly its own change, and the stream still
  folds. A call can report an uncertain barrier after its change was logged; the fold then
  already shows the change.
\<close>

definition tool_session_ok :: "session \<Rightarrow> bool" where
  "tool_session_ok s \<longleftrightarrow> session_ok s \<and> is_ok (read_folded s)"

lemma tool_session_fold:
  assumes "tool_session_ok s"
  obtains st where "session_ok s" "read_folded s = Inr st" "schedule_wf st"
  using assms by (auto simp: tool_session_ok_def is_ok_iff read_folded_def dest: fold_schedule_wf)

text \<open>One logged change: the session grows by that event and the fold takes that step.\<close>

definition logged_change :: "session \<Rightarrow> schedule_change \<Rightarrow> session \<Rightarrow> bool" where
  "logged_change s c s' \<longleftrightarrow>
     tool_session_ok s' \<and> session_nodes s' = session_nodes s
     \<and> (\<exists>e. ses_log s' = ses_log s @ [e] \<and> ev_data e = ScheduleChange (schedule_change_json c))
     \<and> read_folded s' = rbind (read_folded s) (\<lambda>st. apply_schedule_change st c)"

lemma append_change_logged:
  assumes ok: "session_ok s" and st: "read_folded s = Inr st" and c: "legal_change c" and step: "apply_schedule_change st c = Inr st'"
  shows "\<exists>s' e. append_event s at (ScheduleChange (schedule_change_json c)) None None = Inr (s', e) \<and> logged_change s c s'"
proof -
  obtain s' e where app: "append_event s at (ScheduleChange (schedule_change_json c)) None None = Inr (s', e)"
    and s': "session_ok s'" "ses_log s' = ses_log s @ [e]" "ev_data e = ScheduleChange (schedule_change_json c)"
      "session_nodes s' = session_nodes s"
    using append_log_only [OF ok, of "ScheduleChange (schedule_change_json c)" at] by auto
  have "read_folded s' = fold_log apply_schedule_event st [e]"
    by (rule read_folded_append [OF st s'(2) append_event_ok(3) [OF ok app]])
  also have "\<dots> = Inr st'" by (simp add: apply_schedule_event_def s'(3) decode_schedule_change_json [OF c] step)
  finally have "read_folded s' = Inr st'" .
  with s' st step have "logged_change s c s'" by (simp add: logged_change_def tool_session_ok_def)
  with app show ?thesis by blast
qed

lemma close_transaction_cases:
  assumes "session_ok s" "read_folded s = Inr st" "legal_change c" "apply_schedule_change st c = Inr st'"
    and "close_transaction_with env op i c s = (s', res)"
  shows "s' = s \<and> res = Inl ToolInternal \<and> tv_cancelled_late env
    \<or> logged_change s c s' \<and> \<not> tv_cancelled_late env
        \<and> res = (if tv_barrier env then Inr () else Inl (ToolUncertain op (Some i)))"
proof -
  obtain s1 e where "append_event s (tv_at env) (ScheduleChange (schedule_change_json c)) None None = Inr (s1, e)" "logged_change s c s1"
    using append_change_logged [OF assms(1-4)] by blast
  with assms(5) show ?thesis by (auto simp: close_transaction_with_def split: if_splits)
qed

lemma open_transaction_ok:
  assumes "open_transaction env op i s = Inr st"
  shows "read_folded s = Inr st"
  using assms by (auto simp: open_transaction_def split: if_splits)

text \<open>A record the create tool builds, whatever its selector.\<close>

lemma new_record_ok:
  assumes "new_record cn fm a i now = Inr r" "normalized_text i" "MIN_FOUR_DIGIT_YEAR_MS \<le> now"
  shows "record_ok r \<and> sr_id r = i \<and> now < target_of r"
proof (cases "ca_at a")
  case (Some at)
  with assms(1) have "create_at_record cn fm i (ca_prompt a) at now = Inr r" by (simp add: new_record_def)
  from created_at_ok [OF this assms(2)] show ?thesis by (auto simp: target_of_def)
next
  case None
  show ?thesis
  proof (cases "ca_after a")
    case (Some n)
    with None assms(1) have "create_after_record i (ca_prompt a) n now = Inr r" by (simp add: new_record_def)
    from created_after_ok [OF this assms(2)] show ?thesis by (auto simp: target_of_def)
  next
    case n: None
    define x where "x = (case ca_every a of Some n \<Rightarrow> n | None \<Rightarrow> NNaN)"
    have "create_every_record i (ca_prompt a) x now = Inr r" using None n assms(1) by (simp add: new_record_def x_def)
    from created_every_ok [OF this assms(2,3)] show ?thesis by (auto simp: target_of_def MIN_EVERY_INTERVAL_SECONDS_def)
  qed
qed

lemma create_tool_cases:
  assumes ok: "tool_session_ok s" and now: "MIN_FOUR_DIGIT_YEAR_MS \<le> tv_now env"
    and run: "schedule_create_tool cn fm env a s = (s', res)"
  shows "s' = s \<and> (\<exists>e. res = Inl e)
    \<or> (\<exists>st r. read_folded s = Inr st \<and> sr_id r = allocate_schedule_id st \<and> sr_id r \<notin> set (sc_seen st) \<and> tv_now env < target_of r
        \<and> new_record cn fm a (allocate_schedule_id st) (tv_now env) = Inr r
        \<and> logged_change s (CreateSchedule r) s'
        \<and> read_folded s' = Inr \<lparr>sc_active = sc_active st @ [(sr_id r, r)], sc_seen = sc_seen st @ [sr_id r]\<rparr>
        \<and> res = (if tv_barrier env then Inr (view_schedule r (tv_view_now env)) else Inl (ToolUncertain ToolCreate (Some (sr_id r)))))"
proof -
  obtain st where st: "session_ok s" "read_folded s = Inr st" "schedule_wf st" using tool_session_fold [OF ok] .
  show ?thesis
  proof (cases "\<exists>e. res = Inl e \<and> s' = s")
    case False
    have owner: "tv_owner env" using run False by (auto simp: schedule_create_tool_def split: if_splits)
    obtain st0 where opened: "rbind (validate_create_args a) (\<lambda>_. open_transaction env ToolCreate None s) = Inr st0"
      using run False owner
      by (cases "rbind (validate_create_args a) (\<lambda>_. open_transaction env ToolCreate None s)")
        (auto simp: schedule_create_tool_def)
    then have "read_folded s = Inr st0" by (auto simp: rbind_eq_Inr dest: open_transaction_ok)
    with st(2) opened have opened: "rbind (validate_create_args a) (\<lambda>_. open_transaction env ToolCreate None s) = Inr st" by simp
    define i where "i = allocate_schedule_id st"
    have i: "i \<notin> set (sc_seen st)" "normalized_text i" by (simp_all add: i_def allocated_id)
    obtain r where r: "new_record cn fm a i (tv_now env) = Inr r"
      using run False owner opened
      by (cases "new_record cn fm a i (tv_now env)") (auto simp: schedule_create_tool_def i_def [symmetric] Let_def)
    note rec = new_record_ok [OF r i(2) now]
    define st' where "st' = \<lparr>sc_active = map_set (sr_id r) r (sc_active st), sc_seen = sc_seen st @ [sr_id r]\<rparr>"
    have step: "apply_schedule_change st (CreateSchedule r) = Inr st'"
      unfolding st'_def by (rule create_change_accepted) (use rec i in simp_all)
    obtain s1 res1 where close: "close_transaction_with env ToolCreate i (CreateSchedule r) s = (s1, res1)"
      by (cases "close_transaction_with env ToolCreate i (CreateSchedule r) s")
    have out: "s' = s1" "res = rmap (\<lambda>_. view_schedule r (tv_view_now env)) res1"
      using run owner opened r close by (simp_all add: schedule_create_tool_def i_def [symmetric] Let_def)
    have cok: "legal_change (CreateSchedule r)" using rec by simp
    from close_transaction_cases [OF st(1,2) cok step close] False out
    have logged: "logged_change s (CreateSchedule r) s'"
      and res: "res = (if tv_barrier env then Inr (view_schedule r (tv_view_now env)) else Inl (ToolUncertain ToolCreate (Some i)))"
      by (auto split: if_splits)
    have "map_get (sc_active st) (sr_id r) = None"
      using st(3) i(1) rec by (auto simp: schedule_wf_def map_of_eq_None_iff)
    then have "st' = \<lparr>sc_active = sc_active st @ [(sr_id r, r)], sc_seen = sc_seen st @ [sr_id r]\<rparr>"
      by (simp add: st'_def map_set_absent)
    moreover have "read_folded s' = Inr st'" using logged st(2) step by (simp add: logged_change_def)
    ultimately show ?thesis using st(2) rec i r logged res unfolding i_def by (intro disjI2 exI [of _ st] exI [of _ r]) simp
  qed auto
qed

lemma delete_tool_cases:
  assumes ok: "tool_session_ok s" and run: "schedule_delete_tool env i s = (s', res)"
  shows "s' = s \<and> ((\<exists>e. res = Inl e)
        \<or> res = Inr False \<and> (\<exists>st. read_folded s = Inr st \<and> map_get (sc_active st) i = None))
    \<or> (\<exists>st r. read_folded s = Inr st \<and> map_get (sc_active st) i = Some r
        \<and> logged_change s (DeleteSchedule i) s' \<and> read_folded s' = Inr (st\<lparr>sc_active := map_del i (sc_active st)\<rparr>)
        \<and> res = (if tv_barrier env then Inr True else Inl (ToolUncertain ToolDelete (Some i))))"
proof -
  obtain st where st: "session_ok s" "read_folded s = Inr st" "schedule_wf st" using tool_session_fold [OF ok] .
  have find: "(\<exists>r\<in>set (active_records st). sr_id r = i) \<longleftrightarrow> map_get (sc_active st) i \<noteq> None"
  proof
    assume "\<exists>r\<in>set (active_records st). sr_id r = i"
    then show "map_get (sc_active st) i \<noteq> None" using active_record_iff [OF st(3)] by auto
  next
    assume "map_get (sc_active st) i \<noteq> None"
    then obtain r where r: "map_get (sc_active st) i = Some r" by blast
    with st(3) have "sr_id r = i" by (simp add: schedule_wf_def)
    with r show "\<exists>r\<in>set (active_records st). sr_id r = i" using active_record_iff [OF st(3), of r] by blast
  qed
  show ?thesis
  proof (cases "\<exists>e. res = Inl e \<and> s' = s")
    case False
    have trimmed: "i \<noteq> []" "js_trim i = i" and owner: "tv_owner env"
      using run False by (auto simp: schedule_delete_tool_def split: if_splits)
    obtain st0 where opened: "open_transaction env ToolDelete (Some i) s = Inr st0"
      using run False trimmed owner
      by (cases "open_transaction env ToolDelete (Some i) s") (auto simp: schedule_delete_tool_def)
    with open_transaction_ok [OF opened] st(2) have opened: "open_transaction env ToolDelete (Some i) s = Inr st" by simp
    show ?thesis
    proof (cases "map_get (sc_active st) i")
      case None
      with run trimmed owner opened find st(2) show ?thesis by (auto simp: schedule_delete_tool_def)
    next
      case (Some r)
      have step: "apply_schedule_change st (DeleteSchedule i) = Inr (st\<lparr>sc_active := map_del i (sc_active st)\<rparr>)"
        using Some by (simp add: apply_schedule_change_def)
      obtain s1 res1 where close: "close_transaction_with env ToolDelete i (DeleteSchedule i) s = (s1, res1)"
        by (cases "close_transaction_with env ToolDelete i (DeleteSchedule i) s")
      have out: "s' = s1" "res = rmap (\<lambda>_. True) res1"
        using run trimmed owner opened close find Some by (auto simp: schedule_delete_tool_def)
      have cok: "legal_change (DeleteSchedule i)" using trimmed by (simp add: normalized_text_def)
      from close_transaction_cases [OF st(1,2) cok step close] False out
      have logged: "logged_change s (DeleteSchedule i) s'"
        and res: "res = (if tv_barrier env then Inr True else Inl (ToolUncertain ToolDelete (Some i)))"
        by (auto split: if_splits)
      have "read_folded s' = Inr (st\<lparr>sc_active := map_del i (sc_active st)\<rparr>)" using logged st(2) step by (simp add: logged_change_def)
      with st(2) Some logged res show ?thesis by blast
    qed
  qed auto
qed

end
