(* ===== verification/Sample_Schedules.thy ===== *)
theory Sample_Schedules
  imports Sample_Logs Schedule_Management
begin

text \<open>
  Concrete reminder sessions the closed examples run on: a one-shot and a fixed-rate reminder made
  through the create tool in a new session, and surroundings that let every operation through.
\<close>

definition sample_args :: create_args where
  "sample_args = \<lparr>ca_extra_key = False, ca_prompt = ''stretch'', ca_after = Some (NInt 60), ca_at = None, ca_every = None\<rparr>"

definition sample_every_args :: create_args where
  "sample_every_args = \<lparr>ca_extra_key = False, ca_prompt = ''stand up'', ca_after = None, ca_at = None, ca_every = Some (NInt 300)\<rparr>"

definition sample_tool_env :: "int \<Rightarrow> tool_env" where
  "sample_tool_env now =
     \<lparr>tv_owner = True, tv_cancelled = False, tv_preflight = True, tv_now = now, tv_cancelled_late = False, tv_at = now,
      tv_barrier = True, tv_view_now = now\<rparr>"

definition no_zone :: "string \<Rightarrow> string option" where
  "no_zone z = None"

definition utc_formatter :: zone_formatter where
  "utc_formatter t = (utc_fields t, ''GMT'')"

lemma new_tool_session: "tool_session_ok new_session" "read_folded new_session = Inr no_schedules"
proof -
  have "session_ok new_session" by (rule session_reach_ok [OF reach_create [OF new_session_created]])
  moreover show "read_folded new_session = Inr no_schedules" by code_simp
  ultimately show "tool_session_ok new_session" by (simp add: tool_session_ok_def)
qed

lemma create_runs:
  assumes ok: "tool_session_ok s" and st: "read_folded s = Inr st" and a: "validate_create_args a = Inr ()"
    and r: "new_record cn fm a (allocate_schedule_id st) now = Inr r" and now: "MIN_FOUR_DIGIT_YEAR_MS \<le> now"
  shows "\<exists>s'. schedule_create_tool cn fm (sample_tool_env now) a s = (s', Inr (view_schedule r now))
    \<and> logged_change s (CreateSchedule r) s'
    \<and> read_folded s' = Inr \<lparr>sc_active = sc_active st @ [(allocate_schedule_id st, r)], sc_seen = sc_seen st @ [allocate_schedule_id st]\<rparr>"
proof -
  let ?env = "sample_tool_env now"
  obtain s' res where run: "schedule_create_tool cn fm ?env a s = (s', res)" by (cases "schedule_create_tool cn fm ?env a s")
  have env: "tv_owner ?env" "tv_now ?env = now" "tv_barrier ?env" "tv_view_now ?env = now" "\<not> tv_cancelled_late ?env"
    by (simp_all add: sample_tool_env_def)
  have opened: "open_transaction ?env ToolCreate None s = Inr st" by (simp add: open_transaction_def sample_tool_env_def st)
  have rec: "record_ok r" "sr_id r = allocate_schedule_id st" using new_record_ok [OF r allocated_id(2) now] by simp_all
  have wf: "session_ok s" using ok by (simp add: tool_session_ok_def)
  have step: "apply_schedule_change st (CreateSchedule r)
      = Inr \<lparr>sc_active = map_set (sr_id r) r (sc_active st), sc_seen = sc_seen st @ [sr_id r]\<rparr>"
    by (rule create_change_accepted) (use rec allocated_id(1) in simp_all)
  have "legal_change (CreateSchedule r)" using rec by simp
  then have "res = Inr (view_schedule r now)"
    using append_change_logged [OF wf st _ step, of now] run opened a r env
    by (auto simp: schedule_create_tool_def close_transaction_with_def sample_tool_env_def Let_def)
  with create_tool_cases [OF ok _ run] now env st r rec(2) run show ?thesis by (auto split: if_splits)
qed

definition sample_reminder :: schedule_record where
  "sample_reminder = AfterRecord ''schedule-1'' ''stretch'' 60 (iso_string 1700000060000)"

definition sample_every :: schedule_record where
  "sample_every = EveryRecord ''schedule-2'' ''stand up'' 300 (iso_string 1700000300000)"

lemma sample_times: "representable 1700000000000" "representable 1700000060000" "representable 1700000300000" "representable 1700001000000"
  by (simp_all add: representable_def MIN_FOUR_DIGIT_YEAR_MS_def MAX_FOUR_DIGIT_YEAR_MS_def)

lemma sample_creates:
  "new_record cn fm sample_args ''schedule-1'' 1700000000000 = Inr sample_reminder"
  "new_record cn fm sample_every_args ''schedule-2'' 1700000000000 = Inr sample_every"
proof -
  have trim: "js_trim ''stretch'' = ''stretch''" "js_trim ''stand up'' = ''stand up''" by code_simp+
  have t: "future_instant 1700000060000 1700000000000 = Inr (iso_string 1700000060000)"
      "future_instant 1700000300000 1700000000000 = Inr (iso_string 1700000300000)"
    by (simp_all add: future_instant_iff sample_times representable_safe)
  show "new_record cn fm sample_args ''schedule-1'' 1700000000000 = Inr sample_reminder"
    by (simp add: new_record_def sample_args_def create_after_record_def trim t sample_reminder_def safe_int_def max_safe_integer_def)
  show "new_record cn fm sample_every_args ''schedule-2'' 1700000000000 = Inr sample_every"
    by (simp add: new_record_def sample_every_args_def create_every_record_def trim t sample_every_def safe_int_def
        max_safe_integer_def MIN_EVERY_INTERVAL_SECONDS_def)
qed

definition two_reminders :: schedules where
  "two_reminders = \<lparr>sc_active = [(''schedule-1'', sample_reminder), (''schedule-2'', sample_every)], sc_seen = [''schedule-1'', ''schedule-2'']\<rparr>"

text \<open>A session with a one-shot and a fixed-rate reminder, made by two calls of the create tool.\<close>

lemma reminder_session:
  obtains s1 s2 where
    "schedule_create_tool cn fm (sample_tool_env 1700000000000) sample_args new_session = (s1, Inr (view_schedule sample_reminder 1700000000000))"
    "schedule_create_tool cn fm (sample_tool_env 1700000000000) sample_every_args s1 = (s2, Inr (view_schedule sample_every 1700000000000))"
    "tool_session_ok s1" "tool_session_ok s2" "read_folded s2 = Inr two_reminders"
    "host_ok \<lparr>hs_session = s2, hs_inbox = empty_inbox, hs_faulted = False\<rparr>"
proof -
  have now: "MIN_FOUR_DIGIT_YEAR_MS \<le> 1700000000000" by (simp add: MIN_FOUR_DIGIT_YEAR_MS_def)
  have valid: "validate_create_args sample_args = Inr ()" "validate_create_args sample_every_args = Inr ()" by code_simp+
  have empty: "sc_active no_schedules = []" "sc_seen no_schedules = []" by (simp_all add: no_schedules_def)
  have i1: "allocate_schedule_id no_schedules = ''schedule-1''" by code_simp
  obtain s1 where s1: "schedule_create_tool cn fm (sample_tool_env 1700000000000) sample_args new_session
        = (s1, Inr (view_schedule sample_reminder 1700000000000))" "logged_change new_session (CreateSchedule sample_reminder) s1"
      "read_folded s1 = Inr \<lparr>sc_active = [(''schedule-1'', sample_reminder)], sc_seen = [''schedule-1'']\<rparr>"
    using create_runs [OF new_tool_session valid(1), of cn fm 1700000000000 sample_reminder] sample_creates(1) [of cn fm] now
    by (auto simp: i1 empty)
  have i2: "allocate_schedule_id \<lparr>sc_active = [(''schedule-1'', sample_reminder)], sc_seen = [''schedule-1'']\<rparr> = ''schedule-2''"
    by (simp add: allocate_schedule_id_def) code_simp
  have ok1: "tool_session_ok s1" using s1(2) by (simp add: logged_change_def)
  obtain s2 where s2: "schedule_create_tool cn fm (sample_tool_env 1700000000000) sample_every_args s1
        = (s2, Inr (view_schedule sample_every 1700000000000))" "logged_change s1 (CreateSchedule sample_every) s2"
      "read_folded s2 = Inr two_reminders"
    using create_runs [OF ok1 s1(3) valid(2), of cn fm 1700000000000 sample_every] sample_creates(2) [of cn fm] now
    by (auto simp: i2 two_reminders_def)
  have ok2: "tool_session_ok s2" using s2(2) by (simp add: logged_change_def)
  obtain e1 e2 where log: "ses_log s2 = [e1, e2]" "ev_data e1 = ScheduleChange (schedule_change_json (CreateSchedule sample_reminder))"
      "ev_data e2 = ScheduleChange (schedule_change_json (CreateSchedule sample_every))"
  proof -
    have "ses_log new_session = []" by (simp add: new_session_def session_of_def)
    with s1(2) s2(2) that show thesis by (auto simp: logged_change_def)
  qed
  have "\<forall>d\<in>set (map ev_data (drop k (ses_log s2))). \<exists>j. d = ScheduleChange j" for k
    using log by (auto dest!: in_set_dropD)
  then have "new_inbox (ses_header s2) (ses_log s2) = Inr empty_inbox"
    unfolding new_inbox_def by (rule replay_other_events)
  then have "host_ok \<lparr>hs_session = s2, hs_inbox = empty_inbox, hs_faulted = False\<rparr>"
    using ok2 by (simp add: host_ok_def tool_session_ok_def)
  with that s1(1) s2(1,3) ok1 ok2 show thesis by blast
qed

definition sample_drive_env :: "int \<Rightarrow> message_id \<Rightarrow> drive_env" where
  "sample_drive_env now i =
     \<lparr>dv_runnable = True, dv_preflight = True, dv_runnable_after = True, dv_wake_now = now, dv_idle = True,
      dv_runnable_claim = True, dv_decision_now = now, dv_message_id = i, dv_at = now, dv_barrier = True\<rparr>"

lemma sample_targets: "target_of sample_reminder = 1700000060000" "target_of sample_every = 1700000300000"
  by (simp_all add: target_of_def sample_reminder_def sample_every_def date_parse_iso sample_times)

lemma sample_kinds: "\<not> is_every sample_reminder" "is_every sample_every"
  by (simp_all add: is_every_def sample_reminder_def sample_every_def)

lemma two_reminders_due: "due_count two_reminders 1700001000000 = 2" "length (overdue two_reminders 1700001000000) = 2"
  by (simp_all add: due_count_def overdue_def two_reminders_def active_records_def sample_targets sample_kinds)

end
