(* ===== verification/Effects.thy ===== *)
theory Effects
  imports Prelude
begin

text \<open>
  Computations of the asynchronous driver: a state, JavaScript exceptions, and suspension. A
  run either returns, throws, stays suspended because the environment has not yet answered an
  \<open>await\<close>, or is cut off by the fuel of a loop; the last is proved never to happen for the
  loops of the driver, because each round consumes an answer. Triples over these outcomes carry
  the safety proofs.
\<close>

section \<open>Outcomes and combinators\<close>

datatype ('e, 'a) outcome =
    Returned 'a
  | Thrown 'e
  | Suspended
  | OutOfFuel

type_synonym ('s, 'e, 'a) comp = "'s \<Rightarrow> ('e, 'a) outcome \<times> 's"

definition return :: "'a \<Rightarrow> ('s, 'e, 'a) comp" where
  "return a s = (Returned a, s)"

definition throw :: "'e \<Rightarrow> ('s, 'e, 'a) comp" where
  "throw e s = (Thrown e, s)"

definition suspend :: "('s, 'e, 'a) comp" where
  "suspend s = (Suspended, s)"

definition reads :: "('s \<Rightarrow> 'a) \<Rightarrow> ('s, 'e, 'a) comp" where
  "reads f s = (Returned (f s), s)"

definition modify :: "('s \<Rightarrow> 's) \<Rightarrow> ('s, 'e, unit) comp" where
  "modify f s = (Returned (), f s)"

definition chain :: "('s, 'e, 'a) comp \<Rightarrow> ('a \<Rightarrow> ('s, 'e, 'b) comp) \<Rightarrow> ('s, 'e, 'b) comp" where
  "chain m f s =
     (case m s of
        (Returned a, s') \<Rightarrow> f a s'
      | (Thrown e, s') \<Rightarrow> (Thrown e, s')
      | (Suspended, s') \<Rightarrow> (Suspended, s')
      | (OutOfFuel, s') \<Rightarrow> (OutOfFuel, s'))"

definition try_catch :: "('s, 'e, 'a) comp \<Rightarrow> ('e \<Rightarrow> ('s, 'e, 'a) comp) \<Rightarrow> ('s, 'e, 'a) comp" where
  "try_catch m h s = (case m s of (Thrown e, s') \<Rightarrow> h e s' | r \<Rightarrow> r)"

text \<open>\<open>finally\<close>: it runs after a return or a throw, and its own throw replaces both.\<close>

definition try_finally :: "('s, 'e, 'a) comp \<Rightarrow> ('s, 'e, unit) comp \<Rightarrow> ('s, 'e, 'a) comp" where
  "try_finally m f s =
     (case m s of
        (Returned a, s') \<Rightarrow> chain f (\<lambda>_. return a) s'
      | (Thrown e, s') \<Rightarrow> chain f (\<lambda>_. throw e) s'
      | r \<Rightarrow> r)"

definition of_result :: "('x \<Rightarrow> 'e) \<Rightarrow> ('x, 'a) result \<Rightarrow> ('s, 'e, 'a) comp" where
  "of_result f r = (case r of Inl x \<Rightarrow> throw (f x) | Inr a \<Rightarrow> return a)"

definition unless :: "bool \<Rightarrow> ('s, 'e, unit) comp \<Rightarrow> ('s, 'e, unit) comp" where
  "unless c m = (if c then return () else m)"

fun each :: "('a \<Rightarrow> ('s, 'e, unit) comp) \<Rightarrow> 'a list \<Rightarrow> ('s, 'e, unit) comp" where
  "each f [] = return ()"
| "each f (x # xs) = chain (f x) (\<lambda>_. each f xs)"

text \<open>
  An endless loop: each round yields the next loop state (\<open>Inl\<close>) or the loop's result. The fuel
  of a loop is the budget of the state at its entry plus one.
\<close>

fun iterate :: "nat \<Rightarrow> ('x \<Rightarrow> ('s, 'e, 'x + 'a) comp) \<Rightarrow> 'x \<Rightarrow> ('s, 'e, 'a) comp" where
  "iterate 0 body x s = (OutOfFuel, s)"
| "iterate (Suc n) body x s =
     chain (body x) (\<lambda>r. case r of Inl x' \<Rightarrow> iterate n body x' | Inr a \<Rightarrow> return a) s"

definition loop :: "('s \<Rightarrow> nat) \<Rightarrow> ('x \<Rightarrow> ('s, 'e, 'x + 'a) comp) \<Rightarrow> 'x \<Rightarrow> ('s, 'e, 'a) comp" where
  "loop budget body x s = iterate (Suc (budget s)) body x s"

section \<open>Loops that consume never run out of fuel\<close>

text \<open>
  \<open>steady budget m\<close>: the computation never ends by lack of fuel and never grows the resource.
  \<open>consuming\<close>: a round that goes on has used some of it.
\<close>

definition steady :: "('s \<Rightarrow> nat) \<Rightarrow> ('s, 'e, 'a) comp \<Rightarrow> bool" where
  "steady budget m \<longleftrightarrow> (\<forall>s. fst (m s) \<noteq> OutOfFuel \<and> budget (snd (m s)) \<le> budget s)"

definition consuming :: "('s \<Rightarrow> nat) \<Rightarrow> ('x \<Rightarrow> ('s, 'e, 'x + 'a) comp) \<Rightarrow> bool" where
  "consuming budget body \<longleftrightarrow>
     (\<forall>x s x' s'. body x s = (Returned (Inl x'), s') \<longrightarrow> budget s' < budget s)"

named_theorems steady_intros \<open>computations that keep within their resource\<close>

lemma steadyD: "steady budget m \<Longrightarrow> m s = (r, s') \<Longrightarrow> r \<noteq> OutOfFuel \<and> budget s' \<le> budget s"
  by (metis steady_def fst_conv snd_conv)

lemma steadyI: "(\<And>s r s'. m s = (r, s') \<Longrightarrow> r \<noteq> OutOfFuel \<and> budget s' \<le> budget s) \<Longrightarrow> steady budget m"
  unfolding steady_def by (metis prod.collapse)

lemma steady_run: "steady budget m \<Longrightarrow> m t = (r, s') \<Longrightarrow> budget t \<le> budget s \<Longrightarrow> r \<noteq> OutOfFuel \<and> budget s' \<le> budget s"
  using steadyD by (metis le_trans)

lemma steady_basic [steady_intros]:
  "steady budget (return a)" "steady budget (throw e)" "steady budget suspend" "steady budget (reads f)"
  by (simp_all add: steady_def return_def throw_def suspend_def reads_def)

lemma steady_modify: "(\<And>s. budget (f s) \<le> budget s) \<Longrightarrow> steady budget (modify f)"
  by (simp add: steady_def modify_def)

lemma steady_chain [steady_intros]:
  assumes "steady budget m" "\<And>a. steady budget (f a)"
  shows "steady budget (chain m f)"
proof (rule steadyI)
  fix s r s'
  assume run: "chain m f s = (r, s')"
  obtain q t where m: "m s = (q, t)" by force
  note keep = steadyD [OF assms(1) m]
  show "r \<noteq> OutOfFuel \<and> budget s' \<le> budget s"
  proof (cases q)
    case (Returned a)
    then have "f a t = (r, s')" using run m by (simp add: chain_def)
    then show ?thesis using steady_run [OF assms(2)] keep by blast
  qed (use run m keep in \<open>auto simp: chain_def\<close>)
qed

lemma steady_catch [steady_intros]:
  assumes "steady budget m" "\<And>e. steady budget (h e)"
  shows "steady budget (try_catch m h)"
proof (rule steadyI)
  fix s r s'
  assume run: "try_catch m h s = (r, s')"
  obtain q t where m: "m s = (q, t)" by force
  note keep = steadyD [OF assms(1) m]
  show "r \<noteq> OutOfFuel \<and> budget s' \<le> budget s"
  proof (cases q)
    case (Thrown e)
    then have "h e t = (r, s')" using run m by (simp add: try_catch_def)
    then show ?thesis using steady_run [OF assms(2)] keep by blast
  qed (use run m keep in \<open>auto simp: try_catch_def\<close>)
qed

lemma steady_finally [steady_intros]:
  assumes "steady budget m" "steady budget f"
  shows "steady budget (try_finally m f)"
proof (rule steadyI)
  fix s r s'
  assume run: "try_finally m f s = (r, s')"
  obtain q t where m: "m s = (q, t)" by force
  note keep = steadyD [OF assms(1) m]
  have after: "steady budget (chain f (\<lambda>_. return a))" "steady budget (chain f (\<lambda>_. throw e))" for a e
    by (rule steady_chain, rule assms(2), rule steady_basic)+
  show "r \<noteq> OutOfFuel \<and> budget s' \<le> budget s"
  proof (cases q)
    case (Returned a)
    then have "chain f (\<lambda>_. return a) t = (r, s')" using run m by (simp add: try_finally_def)
    from steady_run [OF after(1) this, of s] keep show ?thesis by simp
  next
    case (Thrown e)
    then have "chain f (\<lambda>_. throw e) t = (r, s')" using run m by (simp add: try_finally_def)
    from steady_run [OF after(2) this, of s] keep show ?thesis by simp
  qed (use run m keep in \<open>auto simp: try_finally_def\<close>)
qed

lemma steady_of_result [steady_intros]: "steady budget (of_result f r)"
  by (cases r) (simp_all add: of_result_def steady_intros)

lemma steady_unless [steady_intros]: "steady budget m \<Longrightarrow> steady budget (unless c m)"
  by (simp add: unless_def steady_intros)

lemma steady_each [steady_intros]: "(\<And>x. steady budget (f x)) \<Longrightarrow> steady budget (each f xs)"
  by (induction xs) (auto intro: steady_intros)

lemma iterate_steady:
  assumes "\<And>x. steady budget (body x)" "consuming budget body" "budget s < n"
  shows "fst (iterate n body x s) \<noteq> OutOfFuel \<and> budget (snd (iterate n body x s)) \<le> budget s"
  using assms(3)
proof (induction n arbitrary: x s)
  case (Suc n)
  obtain q t where m: "body x s = (q, t)" by force
  note keep = steadyD [OF assms(1) m]
  show ?case
  proof (cases "\<exists>x'. q = Returned (Inl x')")
    case True
    then obtain x' where q: "q = Returned (Inl x')" by blast
    then have less: "budget t < budget s" using assms(2) m by (auto simp: consuming_def)
    then have "budget t < n" using Suc.prems by simp
    then show ?thesis using Suc.IH [of t x'] less by (simp add: chain_def m q)
  next
    case False
    then show ?thesis using keep by (cases q) (auto simp: chain_def m return_def split: sum.splits)
  qed
qed simp

lemma steady_loop:
  assumes "\<And>x. steady budget (body x)" "consuming budget body"
  shows "steady budget (loop budget body x)"
  using iterate_steady [OF assms, where n = "Suc (budget s)" for s] by (auto simp: steady_def loop_def)

text \<open>More fuel than the loop gets changes nothing.\<close>

lemma iterate_enough:
  assumes "consuming budget body" "budget s < m" "m \<le> n"
  shows "iterate m body x s = iterate n body x s"
  using assms(2,3)
proof (induction m arbitrary: n x s)
  case (Suc m)
  then obtain n' where n: "n = Suc n'" "m \<le> n'" by (cases n) auto
  obtain q t where b: "body x s = (q, t)" by force
  show ?case
  proof (cases "\<exists>x'. q = Returned (Inl x')")
    case True
    then obtain x' where q: "q = Returned (Inl x')" by blast
    then have "budget t < m" using assms(1) b Suc.prems by (fastforce simp: consuming_def)
    then show ?thesis using Suc.IH [OF _ n(2)] by (simp add: n chain_def b q)
  next
    case False
    then show ?thesis by (cases q) (auto simp: n chain_def b split: sum.splits)
  qed
qed simp

lemma loop_unfold:
  assumes "consuming budget body"
  shows "loop budget body x s =
    chain (body x) (\<lambda>r. case r of Inl x' \<Rightarrow> loop budget body x' | Inr a \<Rightarrow> return a) s"
proof -
  obtain q t where b: "body x s = (q, t)" by force
  have "iterate (budget s) body x' t = iterate (Suc (budget t)) body x' t" if "q = Returned (Inl x')" for x'
    using assms b that by (intro iterate_enough [symmetric, where budget = budget]) (auto simp: consuming_def Suc_leI)
  then show ?thesis by (cases q) (auto simp: loop_def chain_def b split: sum.splits)
qed

section \<open>Triples\<close>

text \<open>
  \<open>triple P m Q E W\<close>: from a state in \<open>P\<close>, a return ends in \<open>Q\<close>, a throw in \<open>E\<close>, and every state
  the run is left waiting in (or cut off in) satisfies \<open>W\<close>.
\<close>

definition triple ::
    "('s \<Rightarrow> bool) \<Rightarrow> ('s, 'e, 'a) comp \<Rightarrow> ('a \<Rightarrow> 's \<Rightarrow> bool) \<Rightarrow> ('e \<Rightarrow> 's \<Rightarrow> bool) \<Rightarrow> ('s \<Rightarrow> bool) \<Rightarrow> bool" where
  "triple P m Q E W \<longleftrightarrow>
     (\<forall>s. P s \<longrightarrow>
       (case m s of
          (Returned a, s') \<Rightarrow> Q a s'
        | (Thrown e, s') \<Rightarrow> E e s'
        | (Suspended, s') \<Rightarrow> W s'
        | (OutOfFuel, s') \<Rightarrow> W s'))"

lemma tripleI:
  assumes "\<And>s a s'. P s \<Longrightarrow> m s = (Returned a, s') \<Longrightarrow> Q a s'"
    and "\<And>s e s'. P s \<Longrightarrow> m s = (Thrown e, s') \<Longrightarrow> E e s'"
    and "\<And>s s'. P s \<Longrightarrow> m s = (Suspended, s') \<Longrightarrow> W s'"
    and "\<And>s s'. P s \<Longrightarrow> m s = (OutOfFuel, s') \<Longrightarrow> W s'"
  shows "triple P m Q E W"
  unfolding triple_def by (auto split: prod.splits outcome.splits intro: assms)

lemma tripleD:
  assumes "triple P m Q E W" "P s" "m s = (r, s')"
  shows "case r of Returned a \<Rightarrow> Q a s' | Thrown e \<Rightarrow> E e s' | Suspended \<Rightarrow> W s' | OutOfFuel \<Rightarrow> W s'"
  using assms by (auto simp: triple_def split: outcome.splits prod.splits)

lemma triple_conseq:
  assumes "triple P' m Q' E' W'" "\<And>s. P s \<Longrightarrow> P' s" "\<And>a s. Q' a s \<Longrightarrow> Q a s" "\<And>e s. E' e s \<Longrightarrow> E e s"
    "\<And>s. W' s \<Longrightarrow> W s"
  shows "triple P m Q E W"
  using assms by (fastforce simp: triple_def split: outcome.splits prod.splits)

lemma triple_pre: "triple P' m Q E W \<Longrightarrow> (\<And>s. P s \<Longrightarrow> P' s) \<Longrightarrow> triple P m Q E W"
  by (erule triple_conseq)

lemma triple_post: "triple P m Q' E W \<Longrightarrow> (\<And>a s. Q' a s \<Longrightarrow> Q a s) \<Longrightarrow> triple P m Q E W"
  by (erule triple_conseq)

lemma triple_exn: "triple P m Q E' W \<Longrightarrow> (\<And>e s. E' e s \<Longrightarrow> E e s) \<Longrightarrow> triple P m Q E W"
  by (erule triple_conseq)

lemma triple_return: "(\<And>s. P s \<Longrightarrow> Q a s) \<Longrightarrow> triple P (return a) Q E W"
  by (simp add: triple_def return_def)

lemma triple_throw: "(\<And>s. P s \<Longrightarrow> E e s) \<Longrightarrow> triple P (throw e) Q E W"
  by (simp add: triple_def throw_def)

lemma triple_suspend: "(\<And>s. P s \<Longrightarrow> W s) \<Longrightarrow> triple P suspend Q E W"
  by (simp add: triple_def suspend_def)

lemma triple_reads: "(\<And>s. P s \<Longrightarrow> Q (f s) s) \<Longrightarrow> triple P (reads f) Q E W"
  by (simp add: triple_def reads_def)

lemma triple_modify: "(\<And>s. P s \<Longrightarrow> Q () (f s)) \<Longrightarrow> triple P (modify f) Q E W"
  by (simp add: triple_def modify_def)

lemma triple_chain:
  assumes "triple P m R E W" "\<And>a. triple (R a) (f a) Q E W"
  shows "triple P (chain m f) Q E W"
  using assms unfolding triple_def chain_def
  by (fastforce split: outcome.splits prod.splits)

lemma triple_catch:
  assumes "triple P m Q R W" "\<And>e. triple (R e) (h e) Q E W"
  shows "triple P (try_catch m h) Q E W"
  using assms unfolding triple_def try_catch_def
  by (fastforce split: outcome.splits prod.splits)

lemma triple_finally:
  assumes "triple P m R F W" "\<And>a. triple (R a) f (\<lambda>_. Q a) E W" "\<And>e. triple (F e) f (\<lambda>_. E e) E W"
  shows "triple P (try_finally m f) Q E W"
  using assms unfolding triple_def try_finally_def chain_def return_def throw_def
  by (fastforce split: outcome.splits prod.splits)

lemma triple_of_result:
  "(\<And>a s. r = Inr a \<Longrightarrow> P s \<Longrightarrow> Q a s) \<Longrightarrow> (\<And>x s. r = Inl x \<Longrightarrow> P s \<Longrightarrow> E (f x) s) \<Longrightarrow> triple P (of_result f r) Q E W"
  by (cases r) (simp_all add: of_result_def triple_return triple_throw)

lemma triple_unless:
  "(\<And>s. c \<Longrightarrow> P s \<Longrightarrow> Q () s) \<Longrightarrow> (\<not> c \<Longrightarrow> triple P m Q E W) \<Longrightarrow> triple P (unless c m) Q E W"
  by (simp add: unless_def triple_return)

lemma triple_pure: "(A \<Longrightarrow> triple P m Q E W) \<Longrightarrow> triple (\<lambda>s. A \<and> P s) m Q E W"
  by (auto simp: triple_def)

lemma triple_ex: "(\<And>x. triple (P x) m Q E W) \<Longrightarrow> triple (\<lambda>s. \<exists>x. P x s) m Q E W"
  by (rule tripleI) (blast dest: tripleD [where r = "Returned a" for a, simplified]
      tripleD [where r = "Thrown e" for e, simplified] tripleD [where r = Suspended, simplified]
      tripleD [where r = OutOfFuel, simplified])+

lemma triple_if:
  "(c \<Longrightarrow> triple P m Q E W) \<Longrightarrow> (\<not> c \<Longrightarrow> triple P n Q E W) \<Longrightarrow> triple P (if c then m else n) Q E W"
  by simp

lemma triple_case_option:
  "(x = None \<Longrightarrow> triple P m Q E W) \<Longrightarrow> (\<And>y. x = Some y \<Longrightarrow> triple P (f y) Q E W)
    \<Longrightarrow> triple P (case x of None \<Rightarrow> m | Some y \<Rightarrow> f y) Q E W"
  by (cases x) simp_all

lemma triple_keep: "(\<And>s. P s \<Longrightarrow> P (f s)) \<Longrightarrow> triple P (modify f) (\<lambda>_. P) E W"
  by (rule triple_modify)

lemma triple_read_keep: "triple P (reads f) (\<lambda>_. P) E W"
  by (rule triple_reads)

lemma triple_case_sum:
  "(\<And>x. r = Inl x \<Longrightarrow> triple P (f x) Q E W) \<Longrightarrow> (\<And>y. r = Inr y \<Longrightarrow> triple P (g y) Q E W)
    \<Longrightarrow> triple P (case r of Inl x \<Rightarrow> f x | Inr y \<Rightarrow> g y) Q E W"
  by (cases r) simp_all

lemma triple_each:
  "(\<And>x. x \<in> set xs \<Longrightarrow> triple P (f x) (\<lambda>_. P) E W) \<Longrightarrow> triple P (each f xs) (\<lambda>_. P) E W"
proof (induction xs)
  case (Cons x xs)
  show ?case
    unfolding each.simps
    by (rule triple_chain [OF Cons.prems]) (simp_all add: Cons)
qed (simp add: triple_return)

lemma triple_iterate:
  assumes body: "\<And>x. triple (I x) (body x) (\<lambda>r s. case r of Inl x' \<Rightarrow> I x' s | Inr a \<Rightarrow> Q a s) E W"
    and cut: "\<And>x s. I x s \<Longrightarrow> W s"
  shows "triple (I x) (iterate n body x) Q E W"
proof (induction n arbitrary: x)
  case 0
  then show ?case using cut by (simp add: triple_def)
next
  case (Suc n)
  have "triple (I x) (chain (body x) (\<lambda>r. case r of Inl x' \<Rightarrow> iterate n body x' | Inr a \<Rightarrow> return a)) Q E W"
    by (rule triple_chain [OF body], split sum.split) (auto intro: Suc.IH triple_return)
  then show ?case by (simp add: triple_def)
qed

lemma triple_loop:
  assumes "\<And>x. triple (I x) (body x) (\<lambda>r s. case r of Inl x' \<Rightarrow> I x' s | Inr a \<Rightarrow> Q a s) E W"
    and "\<And>x s. I x s \<Longrightarrow> W s"
  shows "triple (I x) (loop budget body x) Q E W"
  using triple_iterate [OF assms, where n = "Suc (budget s)" for s] by (auto simp: triple_def loop_def)

end
