(* ===== verification/Prompt_Rendering.thy ===== *)
theory Prompt_Rendering
  imports Session_Events "HOL-Library.Multiset"
begin

text \<open>
  Rendering of an assembled prompt (\<open>packages/core/system-prompt/src/index.ts\<close>): strict
  interpolation of \<open>{{variable}}\<close> references, the joined system prompt, the dynamic context
  snapshot with its named sections, and the canonical order of the model-facing tools. A text
  is proved to be scanned once from left to right, so that a substituted value is never
  interpreted again.
\<close>

section \<open>Assemblies\<close>

text \<open>A section or a dynamic context contribution, resolved but not yet interpolated.\<close>

record assembled_text =
  at_name :: string
  at_text :: string

text \<open>The own properties of the variables record; a present key may hold \<open>undefined\<close>.\<close>

type_synonym prompt_variables = "(string \<times> string option) list"

record prompt_assembly =
  pa_sections :: "assembled_text list"
  pa_contexts :: "assembled_text list"
  pa_tools :: "tool_schema list"
  pa_variables :: prompt_variables

datatype prompt_error =
    MalformedReference string
  | MalformedName string string
  | UnknownVariable string string
  | UndefinedVariable string string
  | OrderDuplicate string
  | OrderWithoutRest
  | ReservedToolName
  | OrderUnknownTools "string list"

section \<open>Interpolation\<close>

text \<open>\<open>VARIABLE_NAME\<close>: \<open>^[a-z][a-z0-9_]*$\<close>.\<close>

definition is_variable_name :: "string \<Rightarrow> bool" where
  "is_variable_name s =
     (case s of [] \<Rightarrow> False
      | c # cs \<Rightarrow> is_lower c \<and> list_all (\<lambda>x. is_lower x \<or> is_digit x \<or> x = CHR ''_'') cs)"

text \<open>The text before the first occurrence of two equal characters, and the text behind them.\<close>

fun split_double :: "char \<Rightarrow> string \<Rightarrow> (string \<times> string) option" where
  "split_double q (a # b # rest) =
     (if a = q \<and> b = q then Some ([], rest)
      else map_option (\<lambda>(p, r). (a # p, r)) (split_double q (b # rest)))"
| "split_double q _ = None"

definition is_brace :: "char \<Rightarrow> bool" where
  "is_brace c \<longleftrightarrow> c = CHR ''{'' \<or> c = CHR ''}''"

text \<open>
  \<open>GROUP_AT\<close> behind the opening braces: the name up to the next brace, which must begin a
  closing pair, and the text behind it.
\<close>

definition match_group :: "string \<Rightarrow> (string \<times> string) option" where
  "match_group s =
     (case dropWhile (\<lambda>c. \<not> is_brace c) s of
        a # b # rest \<Rightarrow>
          (if a = CHR ''}'' \<and> b = CHR ''}'' then Some (takeWhile (\<lambda>c. \<not> is_brace c) s, rest) else None)
      | _ \<Rightarrow> None)"

lemma split_double_length: "split_double q s = Some (p, r) \<Longrightarrow> length r < length s"
  by (induction q s arbitrary: p r rule: split_double.induct) (auto split: if_splits)

lemma match_group_length: "match_group s = Some (n, r) \<Longrightarrow> length r < length s"
proof -
  assume "match_group s = Some (n, r)"
  then have "length r < length (dropWhile (\<lambda>c. \<not> is_brace c) s)"
    by (auto simp: match_group_def split: list.splits if_splits)
  then show ?thesis using length_dropWhile_le [of "\<lambda>c. \<not> is_brace c" s] by linarith
qed

text \<open>The scan from the position \<open>last\<close> on; \<open>owner\<close> is the input's name for diagnostics.\<close>

function interpolate_from :: "string \<Rightarrow> prompt_variables \<Rightarrow> string \<Rightarrow> (prompt_error, string) result" where
  "interpolate_from owner variables text =
     (case split_double (CHR ''{'') text of
        None \<Rightarrow> Inr text
      | Some (before, behind) \<Rightarrow>
          (case match_group behind of
             None \<Rightarrow>
               (if split_double (CHR ''}'') behind \<noteq> None then Inl (MalformedReference owner)
                else rmap (\<lambda>rest. before @ ''{{'' @ rest) (interpolate_from owner variables behind))
           | Some (name, after) \<Rightarrow>
               (if \<not> is_variable_name name then Inl (MalformedName owner name)
                else (case map_of variables name of
                        None \<Rightarrow> Inl (UnknownVariable owner name)
                      | Some None \<Rightarrow> Inl (UndefinedVariable owner name)
                      | Some (Some v) \<Rightarrow>
                          rmap (\<lambda>rest. before @ v @ rest) (interpolate_from owner variables after)))))"
  by pat_completeness auto

termination
  by (relation "measure (\<lambda>(_, _, text). length text)")
    (auto dest!: split_double_length match_group_length)

declare interpolate_from.simps [simp del]

definition interpolate :: "assembled_text \<Rightarrow> prompt_variables \<Rightarrow> (prompt_error, string) result" where
  "interpolate input variables = interpolate_from (at_name input) variables (at_text input)"

section \<open>Rendering\<close>

definition paragraph_break :: string where
  "paragraph_break = [newline, newline]"

definition render_prompt :: "prompt_assembly \<Rightarrow> (prompt_error, string) result" where
  "render_prompt a =
     rmap (\<lambda>texts. join_with paragraph_break (filter (\<lambda>t. t \<noteq> []) texts))
       (traverse (\<lambda>section. interpolate section (pa_variables a)) (pa_sections a))"

definition render_context_sections :: "prompt_assembly \<Rightarrow> (prompt_error, (string \<times> string) list) result" where
  "render_context_sections a =
     rmap (filter (\<lambda>(_, t). t \<noteq> []))
       (traverse (\<lambda>c. rmap (Pair (at_name c)) (interpolate c (pa_variables a))) (pa_contexts a))"

definition context_preamble :: string where
  "context_preamble = ''Current runtime context. This snapshot supersedes earlier runtime-context snapshots.''"

definition join_context_sections :: "(string \<times> string) list \<Rightarrow> string" where
  "join_context_sections sections =
     (let body = join_with paragraph_break (map snd sections) in
      if body = [] then [] else context_preamble @ paragraph_break @ body)"

section \<open>Tool order\<close>

definition TOOL_ORDER_REST :: string where
  "TOOL_ORDER_REST = ''<unlisted-tools>''"

fun first_repeated :: "string set \<Rightarrow> string list \<Rightarrow> string option" where
  "first_repeated seen [] = None"
| "first_repeated seen (x # xs) = (if x \<in> seen then Some x else first_repeated (insert x seen) xs)"

definition validate_tool_order :: "string list option \<Rightarrow> (prompt_error, string list option) result" where
  "validate_tool_order order =
     (case order of None \<Rightarrow> Inr None
      | Some names \<Rightarrow>
          (case first_repeated {} names of
             Some n \<Rightarrow> Inl (OrderDuplicate n)
           | None \<Rightarrow> if TOOL_ORDER_REST \<notin> set names then Inl OrderWithoutRest else Inr (Some names)))"

text \<open>Code-unit comparison of names; the array sort is stable.\<close>

fun name_less :: "string \<Rightarrow> string \<Rightarrow> bool" where
  "name_less [] [] = False"
| "name_less [] (_ # _) = True"
| "name_less (_ # _) [] = False"
| "name_less (a # as) (b # bs) =
     ((of_char a :: nat) < of_char b \<or> (a = b \<and> name_less as bs))"

fun insert_tool :: "tool_schema \<Rightarrow> tool_schema list \<Rightarrow> tool_schema list" where
  "insert_tool t [] = [t]"
| "insert_tool t (u # us) = (if name_less (ts_name u) (ts_name t) then u # insert_tool t us else t # u # us)"

definition sort_tools :: "tool_schema list \<Rightarrow> tool_schema list" where
  "sort_tools ts = foldr insert_tool ts []"

definition order_tools ::
    "tool_schema list \<Rightarrow> string list option \<Rightarrow> string list \<Rightarrow> (prompt_error, tool_schema list) result" where
  "order_tools tools order known =
     (if \<exists>t\<in>set tools. ts_name t = TOOL_ORDER_REST then Inl ReservedToolName
      else (case order of
              None \<Rightarrow> Inr (sort_tools tools)
            | Some names \<Rightarrow>
                (case filter (\<lambda>n. n \<noteq> TOOL_ORDER_REST \<and> n \<notin> set known) names of
                   [] \<Rightarrow>
                     (let rest = sort_tools (filter (\<lambda>t. ts_name t \<notin> set names) tools) in
                      Inr (concat (map (\<lambda>n. if n = TOOL_ORDER_REST then rest
                                             else filter (\<lambda>t. ts_name t = n) tools) names)))
                 | unknown \<Rightarrow> Inl (OrderUnknownTools unknown))))"

section \<open>A text is scanned once\<close>

text \<open>How a prompt author writes a text: literals without an opening brace, and references.\<close>

datatype prompt_piece =
    Literal string
  | Reference string

fun written_piece :: "prompt_piece \<Rightarrow> string" where
  "written_piece (Literal s) = s"
| "written_piece (Reference n) = ''{{'' @ n @ ''}}''"

fun piece_value :: "prompt_variables \<Rightarrow> prompt_piece \<Rightarrow> string" where
  "piece_value vs (Literal s) = s"
| "piece_value vs (Reference n) = (case map_of vs n of Some (Some v) \<Rightarrow> v | _ \<Rightarrow> [])"

fun piece_ok :: "prompt_variables \<Rightarrow> prompt_piece \<Rightarrow> bool" where
  "piece_ok vs (Literal s) \<longleftrightarrow> CHR ''{'' \<notin> set s"
| "piece_ok vs (Reference n) \<longleftrightarrow> is_variable_name n \<and> (\<exists>v. map_of vs n = Some (Some v))"

lemma split_double_skip: "q \<notin> set s \<Longrightarrow> split_double q (s @ t) = map_option (\<lambda>(p, r). (s @ p, r)) (split_double q t)"
proof (induction s)
  case (Cons c cs)
  then have c: "c \<noteq> q" and ih: "split_double q (cs @ t) = map_option (\<lambda>(p, r). (cs @ p, r)) (split_double q t)" by auto
  show ?case
  proof (cases "cs @ t")
    case Nil
    then show ?thesis by simp
  next
    case (Cons d ds)
    then show ?thesis using c ih by (simp add: option.map_comp o_def split_def)
  qed
qed (simp add: option.map_ident split_def)

lemma split_double_absent: "q \<notin> set s \<Longrightarrow> split_double q s = None"
  by (induction q s rule: split_double.induct) auto

lemma match_group_name: "is_variable_name n \<Longrightarrow> match_group (n @ ''}}'' @ t) = Some (n, t)"
proof -
  have ok: "\<not> is_brace c" if "is_lower c \<or> is_digit c \<or> c = CHR ''_''" for c
    using that by (auto simp: is_brace_def is_lower_def is_digit_def)
  assume "is_variable_name n"
  then have "\<forall>c\<in>set n. \<not> is_brace c"
    using ok by (auto simp: is_variable_name_def list_all_iff split: list.splits)
  then show ?thesis by (simp add: match_group_def is_brace_def)
qed

lemma interpolate_literal:
  assumes "CHR ''{'' \<notin> set s"
  shows "interpolate_from owner vs (s @ t) = rmap ((@) s) (interpolate_from owner vs t)"
proof (cases "split_double (CHR ''{'') t")
  case None
  then show ?thesis
    by (simp add: interpolate_from.simps [of owner vs t] interpolate_from.simps [of owner vs "s @ t"] split_double_skip [OF assms])
next
  case (Some pr)
  obtain p r where pr: "pr = (p, r)" by (cases pr)
  have map: "rmap f (rmap g m) = rmap (\<lambda>x. f (g x)) m" for f g and m :: "(prompt_error, string) result"
    by (cases m) simp_all
  show ?thesis using Some pr
    by (auto simp: interpolate_from.simps [of owner vs t] interpolate_from.simps [of owner vs "s @ t"] split_double_skip [OF assms] map
        split: option.splits prod.splits)
qed

lemma interpolate_reference:
  assumes "is_variable_name n" "map_of vs n = Some (Some v)"
  shows "interpolate_from owner vs (''{{'' @ n @ ''}}'' @ t) = rmap ((@) v) (interpolate_from owner vs t)"
  by (subst interpolate_from.simps) (simp add: match_group_name [OF assms(1), simplified] assms)

lemma interpolate_pieces:
  "\<forall>p\<in>set ps. piece_ok vs p \<Longrightarrow>
     interpolate_from owner vs (concat (map written_piece ps)) = Inr (concat (map (piece_value vs) ps))"
proof (induction ps)
  case Nil
  show ?case by (subst interpolate_from.simps) simp
next
  case (Cons p ps)
  then show ?case
    by (cases p) (auto simp: interpolate_literal interpolate_reference [simplified])
qed

section \<open>The tool order keeps every tool\<close>

lemma insert_tool_mset: "mset (insert_tool t ts) = add_mset t (mset ts)"
  by (induction ts) auto

lemma sort_tools_mset: "mset (sort_tools ts) = mset ts"
  by (induction ts) (simp_all add: sort_tools_def insert_tool_mset)

lemma name_less_asym: "name_less a b \<Longrightarrow> \<not> name_less b a"
  by (induction a b rule: name_less.induct) auto

lemma name_less_trans: "name_less a b \<Longrightarrow> name_less b c \<Longrightarrow> name_less a c"
proof (induction a b arbitrary: c rule: name_less.induct)
  case (2 x xs)
  then show ?case by (cases c) auto
next
  case (4 x xs y ys)
  then show ?case by (cases c) auto
qed auto

lemma name_less_linear: "name_less a b \<or> a = b \<or> name_less b a"
proof (induction a b rule: name_less.induct)
  case (4 x xs y ys)
  then show ?case using of_char_eq_iff [of x y, where ?'a = nat] by (auto simp del: of_char_eq_iff)
qed auto

definition tools_sorted :: "tool_schema list \<Rightarrow> bool" where
  "tools_sorted ts \<longleftrightarrow> sorted_wrt (\<lambda>t u. \<not> name_less (ts_name u) (ts_name t)) ts"

lemma insert_tool_sorted: "tools_sorted ts \<Longrightarrow> tools_sorted (insert_tool t ts)"
proof (induction ts)
  case (Cons u us)
  have set: "set (insert_tool t us) = insert t (set us)"
    by (metis insert_tool_mset set_mset_add_mset_insert set_mset_mset)
  show ?case
  proof (cases "name_less (ts_name u) (ts_name t)")
    case True
    then show ?thesis using Cons by (auto simp: tools_sorted_def set dest: name_less_asym)
  next
    case False
    have "\<not> name_less (ts_name x) (ts_name t)" if "x \<in> set us" for x
      using False Cons.prems that name_less_linear name_less_trans
      by (simp add: tools_sorted_def) metis
    then show ?thesis using False Cons.prems by (auto simp: tools_sorted_def)
  qed
qed (simp add: tools_sorted_def)

lemma sort_tools_sorted: "tools_sorted (sort_tools ts)"
  by (induction ts) (simp_all add: sort_tools_def insert_tool_sorted, simp add: tools_sorted_def)

lemma first_repeated_None: "first_repeated seen xs = None \<longleftrightarrow> distinct xs \<and> seen \<inter> set xs = {}"
  by (induction xs arbitrary: seen) auto

lemma filter_by_name:
  "distinct names \<Longrightarrow> mset (concat (map (\<lambda>n. filter (\<lambda>t. ts_name t = n) tools) names))
     = mset (filter (\<lambda>t. ts_name t \<in> set names) tools)"
proof (induction names)
  case (Cons n ns)
  have "mset (filter (\<lambda>t. ts_name t = n) tools) + mset (filter (\<lambda>t. ts_name t \<in> set ns) tools)
      = mset (filter (\<lambda>t. ts_name t \<in> set (n # ns)) tools)"
    using Cons.prems by (induction tools) auto
  then show ?case using Cons by simp
qed simp

lemma order_with_rest:
  assumes "distinct names" "r \<in> set names"
  shows "mset (concat (map (\<lambda>n. if n = r then rest else f n) names))
    = mset rest + mset (concat (map f (remove1 r names)))"
  using assms
proof (induction names)
  case (Cons n ns)
  show ?case
  proof (cases "n = r")
    case True
    then have "r \<notin> set ns" using Cons.prems by simp
    then have same: "map (\<lambda>m. if m = r then rest else f m) ns = map f ns" by auto
    show ?thesis using True by (simp add: same)
  next
    case False
    then show ?thesis using Cons by simp
  qed
qed simp

lemma order_tools_keeps:
  assumes order: "validate_tool_order order0 = Inr order" and out: "order_tools tools order known = Inr ordered"
  shows "mset ordered = mset tools"
proof (cases order)
  case None
  then show ?thesis using out by (auto simp: order_tools_def sort_tools_mset split: if_splits)
next
  case (Some names)
  then have d: "distinct names" and r: "TOOL_ORDER_REST \<in> set names"
    using order by (auto simp: validate_tool_order_def first_repeated_None split: option.splits if_splits)
  let ?R = TOOL_ORDER_REST
  let ?rest = "sort_tools (filter (\<lambda>t. ts_name t \<notin> set names) tools)"
  let ?pick = "\<lambda>n. filter (\<lambda>t. ts_name t = n) tools"
  have none: "\<forall>t\<in>set tools. ts_name t \<noteq> ?R" using out by (auto simp: order_tools_def split: if_splits)
  have "ordered = concat (map (\<lambda>n. if n = ?R then ?rest else ?pick n) names)"
    using out Some by (auto simp: order_tools_def Let_def split: if_splits list.splits)
  then have "mset ordered = mset ?rest + mset (concat (map ?pick (remove1 ?R names)))"
    using order_with_rest [OF d r] by simp
  also have "mset (concat (map ?pick (remove1 ?R names))) = mset (filter (\<lambda>t. ts_name t \<in> set (remove1 ?R names)) tools)"
    by (rule filter_by_name) (simp add: d)
  also have "filter (\<lambda>t. ts_name t \<in> set (remove1 ?R names)) tools = filter (\<lambda>t. ts_name t \<in> set names) tools"
    by (rule filter_cong) (use none d in \<open>auto simp: set_remove1_eq\<close>)
  finally have "mset ordered = mset (filter (\<lambda>t. ts_name t \<in> set names) tools) + mset (filter (\<lambda>t. \<not> ts_name t \<in> set names) tools)"
    by (simp add: sort_tools_mset)
  also have "\<dots> = mset tools" by (rule multiset_partition [of "mset tools", folded mset_filter, symmetric])
  finally show ?thesis .
qed

end
