(* ===== verification/Agent_Host.thy ===== *)
theory Agent_Host
  imports Effects Prompt_Rendering Session_Log Inbox
begin

text \<open>
  The agent object (\<open>ReactLoopAgent\<close> in \<open>packages/core/agent-loop/src/agent.ts\<close>) and the way the
  rest of the program reaches it. The driver is asynchronous: whenever it awaits, other code
  runs, sends messages, cancels, appends events of its own or settles a running tool, and then
  the awaited operation answers. The environment is a script of such entries, each a list of
  actions and one answer; \<open>next_answer\<close> performs the actions and hands the answer to the driver.
  Also here: the phase, the inbox and session operations of the agent, and the durable
  projection of the runtime context (\<open>runtime-context.ts\<close>).
\<close>

section \<open>Errors, tools and answers\<close>

datatype driver_error =
    LlmFailed llm_failure
  | Canceled agent_cancel_cause
  | Raised string
  | AppendFailed append_error
  | SurfaceFailed surface_error
  | InboxFailed inbox_error
  | BlocksFailed assemble_error
  | PromptFailed prompt_error

text \<open>\<open>ToolExecutionResult\<close>: the error entry is the optional routing information.\<close>

record tool_outcome =
  to_content :: "content_block list"
  to_is_error :: bool
  to_error :: "(string \<times> string) option"
  to_meta :: "json option"
  to_contexts :: "user_message list"
  to_concludes :: bool

text \<open>\<open>ScheduledToolPreparation\<close>, and how a dispatched call settles (a result with or without
  the post-execute stage, or an internal failure).\<close>

datatype tool_preparation =
    DispatchCall
  | PostResult tool_outcome
  | FinalResult tool_outcome

datatype tool_settlement =
    CallFinished tool_outcome bool
  | CallFailed driver_error

record prepared_call =
  pc_config :: llm_call_config
  pc_defaults :: adapter_defaults
  pc_window :: "jsnum option"

datatype pre_step_decision =
    RejectStep
  | EnterStep "user_message list"

text \<open>What other code does while the driver waits.\<close>

datatype host_action =
    SendMessage user_message inbox_target bool
  | CancelWork agent_cancel_cause bool
  | InboxCall inbox_command
  | OtherAppend event_data "json option" "json option"
  | SettleCall nat tool_settlement
  | ClockAt int
  | LimitsAt nat nat

text \<open>What an operation outside the loop answers: its value, or a rejection.\<close>

datatype host_answer =
    Resumed
  | Rejected driver_error
  | Assembled prompt_assembly
  | Decided "pre_step_decision option"
  | Proposed "llm_call_config option"
  | CallPrepared prepared_call
  | NextChunk stream_chunk
  | StreamDone
  | RetryRequest bool
  | ParallelMode bool
  | ToolPrepared tool_preparation
  | ToolSettled nat
  | ToolFinalized tool_outcome
  | ToolFinished tool_outcome

type_synonym host_script = "(host_action list \<times> host_answer) list"

section \<open>State\<close>

text \<open>The abort cause of the phase's controller, the counters, and the latched wake.\<close>

datatype phase =
    Idle int
  | Maintenance "agent_cancel_cause option" int bool
  | Running "agent_cancel_cause option" int int bool

text \<open>The variables of one \<open>runGroup\<close>: the cap it read at its start, the settled slots with their
  need of the post stage, the sequence number of each started call, and the promises in flight.\<close>

record tool_pool =
  tp_cap :: nat
  tp_slots :: "(tool_outcome \<times> bool) option list"
  tp_call_seqs :: "nat option list"
  tp_started :: nat
  tp_committed :: nat
  tp_aborted :: bool
  tp_concluded :: bool
  tp_failure :: "driver_error option"
  tp_in_flight :: "nat list"
  tp_settled :: "nat list"

datatype emission =
    EmitStatus bool
  | EmitError int int driver_error
  | EmitInbox notification

text \<open>One request handed to the model runtime.\<close>

record model_request =
  mq_config :: llm_call_config
  mq_messages :: "message list"
  mq_system :: "string option"
  mq_tools :: "tool_schema list option"

text \<open>\<open>None\<close>: no snapshot ever existed; \<open>Some None\<close>: none is retained.\<close>

type_synonym retained_context = "(nat \<times> string option) option option"

record agent =
  ag_session :: session
  ag_inbox :: inbox_state
  ag_phase :: phase
  ag_header_logged :: bool
  ag_retained :: retained_context
  ag_pool :: tool_pool
  ag_clock :: int
  ag_ids :: nat
  ag_max_parallel :: nat
  ag_max_steps :: nat
  ag_emitted :: "emission list"
  ag_sent :: "model_request list"
  ag_script :: host_script

text \<open>Construction-time facts: the identity, the declared route, fresh identities and the text of
  an error chain.\<close>

record agent_env =
  ae_id :: string
  ae_provider :: "string option"
  ae_model :: "string option"
  ae_max_tokens :: "jsnum option"
  ae_new_id :: "nat \<Rightarrow> message_id"
  ae_error_text :: "driver_error \<Rightarrow> string"

type_synonym 'a driver = "(agent, driver_error, 'a) comp"

fun phase_abort :: "phase \<Rightarrow> agent_cancel_cause option" where
  "phase_abort (Idle _) = None"
| "phase_abort (Maintenance a _ _) = a"
| "phase_abort (Running a _ _ _) = a"

fun is_idle :: "phase \<Rightarrow> bool" where
  "is_idle (Idle _) = True"
| "is_idle _ = False"

fun is_maintenance :: "phase \<Rightarrow> bool" where
  "is_maintenance (Maintenance _ _ _) = True"
| "is_maintenance _ = False"

fun status_running :: "phase \<Rightarrow> bool" where
  "status_running (Running _ _ _ _) = True"
| "status_running _ = False"

fun set_wake :: "bool \<Rightarrow> phase \<Rightarrow> phase" where
  "set_wake w (Idle l) = Idle l"
| "set_wake w (Maintenance a l _) = Maintenance a l w"
| "set_wake w (Running a t s _) = Running a t s w"

text \<open>\<open>AbortController.abort\<close>: the first cause stays.\<close>

fun abort_phase :: "agent_cancel_cause \<Rightarrow> phase \<Rightarrow> phase" where
  "abort_phase c (Idle l) = Idle l"
| "abort_phase c (Maintenance a l w) = Maintenance (case a of None \<Rightarrow> Some c | Some c' \<Rightarrow> Some c') l w"
| "abort_phase c (Running a t s w) = Running (case a of None \<Rightarrow> Some c | Some c' \<Rightarrow> Some c') t s w"

section \<open>Runtime context\<close>

definition CONTEXT_SOURCE :: string where
  "CONTEXT_SOURCE = ''lasmex-system-prompt''"

definition CONTEXT_CLEARED :: string where
  "CONTEXT_CLEARED = ''Current runtime context: none. Earlier runtime-context snapshots no longer apply.''"

definition is_owned :: "user_message \<Rightarrow> bool" where
  "is_owned m = (case um_source m of PluginSource p _ \<Rightarrow> p = CONTEXT_SOURCE | _ \<Rightarrow> False)"

definition text_of :: "user_message \<Rightarrow> string option" where
  "text_of m = (case um_content m of [TextBlock t] \<Rightarrow> Some t | _ \<Rightarrow> None)"

definition cites :: "session_event \<Rightarrow> nat \<Rightarrow> bool" where
  "cites e n = (case ev_sources e of Some (JArr js) \<Rightarrow> JNum (NInt (int n)) \<in> set js | _ \<Rightarrow> False)"

definition follow_retained :: "retained_context \<Rightarrow> session_event \<Rightarrow> retained_context" where
  "follow_retained r e =
     (case ev_data e of
        UserMessageEv m \<Rightarrow>
          (if is_owned m then Some (Some (ev_seq e, text_of m))
           else (case r of Some (Some (n, t)) \<Rightarrow>
                   if is_replacement_surface_event e \<and> cites e n then Some None else r
                 | _ \<Rightarrow> r))
      | _ \<Rightarrow> (case r of Some (Some (n, t)) \<Rightarrow>
                if is_replacement_surface_event e \<and> cites e n then Some None else r
              | _ \<Rightarrow> r))"

text \<open>The constructor's scan, from the newest event back; the list comes reversed.\<close>

fun restore_retained :: "nat list \<Rightarrow> session_event list \<Rightarrow> retained_context \<Rightarrow> retained_context" where
  "restore_retained nodes [] r = r"
| "restore_retained nodes (e # es) r =
     (case ev_data e of
        UserMessageEv m \<Rightarrow>
          (if \<not> is_owned m then restore_retained nodes es r
           else if ev_seq e \<in> set nodes then Some (Some (ev_seq e, text_of m))
           else restore_retained nodes es (if r = None then Some None else r))
      | _ \<Rightarrow> restore_retained nodes es r)"

definition project_context ::
    "retained_context \<Rightarrow> string \<Rightarrow> (string \<times> string) list \<Rightarrow> message_id \<Rightarrow> user_message option" where
  "project_context r current sections mid =
     (if r = None \<and> current = [] then None
      else (let snapshot = (if current = [] then CONTEXT_CLEARED else current) in
            if (case r of Some (Some (_, t)) \<Rightarrow> t = Some snapshot | _ \<Rightarrow> False) then None
            else Some \<lparr>um_id = mid, um_content = [TextBlock snapshot],
                       um_source = PluginSource CONTEXT_SOURCE
                         (if sections = [] then NoForm else FormSnapshot sections)\<rparr>))"

section \<open>Session and inbox operations\<close>

definition log_append ::
    "event_data \<Rightarrow> json option \<Rightarrow> json option \<Rightarrow> agent \<Rightarrow> (driver_error, session_event \<times> agent) result" where
  "log_append d op srcs h =
     (case append_event (ag_session h) (ag_clock h) d op srcs of
        Inl e \<Rightarrow> Inl (AppendFailed e)
      | Inr (s, e) \<Rightarrow> Inr (e, h\<lparr>ag_session := s, ag_retained := follow_retained (ag_retained h) e\<rparr>))"

fun log_splices :: "inbox_splice list \<Rightarrow> agent \<Rightarrow> (driver_error, agent) result" where
  "log_splices [] h = Inr h"
| "log_splices (sp # sps) h =
     rbind (log_append (InboxSpliced sp) None None h) (\<lambda>(_, h'). log_splices sps h')"

text \<open>One call on the agent's inbox: the splices it logs, its new lists, its notifications.\<close>

definition inbox_call :: "inbox_command \<Rightarrow> agent \<Rightarrow> (driver_error, user_message list \<times> agent) result" where
  "inbox_call c h =
     (case run_inbox (ag_inbox h) c of
        Inl e \<Rightarrow> Inl (InboxFailed e)
      | Inr out \<Rightarrow>
          rmap (\<lambda>h'. (io_removed out,
                      h'\<lparr>ag_inbox := io_state out, ag_emitted := ag_emitted h' @ map EmitInbox (io_notes out)\<rparr>))
            (log_splices (io_splices out) h))"

text \<open>The branch of \<open>wakeDriver\<close> for an agent that is not idle.\<close>

definition latch_wake :: "bool \<Rightarrow> agent \<Rightarrow> agent" where
  "latch_wake after_abort h =
     (if phase_abort (ag_phase h) \<noteq> Some CancelDisposed \<and> (is_maintenance (ag_phase h) \<or> after_abort)
      then h\<lparr>ag_phase := set_wake True (ag_phase h)\<rparr> else h)"

definition waking_after_abort :: "bool \<Rightarrow> phase \<Rightarrow> bool" where
  "waking_after_abort wakeup p \<longleftrightarrow> wakeup \<and> \<not> is_idle p \<and> phase_abort p \<noteq> None"

definition queue_message :: "user_message \<Rightarrow> inbox_target \<Rightarrow> bool \<Rightarrow> agent \<Rightarrow> (driver_error, agent) result" where
  "queue_message m target wakeup h =
     rmap snd (inbox_call (DoSplice (if waking_after_abort wakeup (ag_phase h) then NextTurn else target)
                             (NInf False) (NInt 0) [m]) h)"

definition cancel_work :: "agent_cancel_cause \<Rightarrow> bool \<Rightarrow> agent \<Rightarrow> (driver_error, agent) result" where
  "cancel_work cause keep h =
     rmap (\<lambda>h'. h'\<lparr>ag_phase := abort_phase cause (ag_phase h')\<rparr>)
       (if keep then Inr h
        else rmap (\<lambda>(_, h'). h'\<lparr>ag_phase := set_wake False (ag_phase h')\<rparr>) (inbox_call DoClear h))"

section \<open>The environment\<close>

text \<open>A settled dispatch fills its slot, or records the first internal failure.\<close>

definition settle_call :: "nat \<Rightarrow> tool_settlement \<Rightarrow> tool_pool \<Rightarrow> tool_pool" where
  "settle_call i r p =
     (if i \<in> set (tp_in_flight p) \<and> i \<notin> set (tp_settled p) then
        (case r of
           CallFinished out post \<Rightarrow>
             p\<lparr>tp_slots := (tp_slots p)[i := Some (out, post)], tp_settled := tp_settled p @ [i]\<rparr>
         | CallFailed e \<Rightarrow>
             p\<lparr>tp_failure := (case tp_failure p of None \<Rightarrow> Some e | Some e' \<Rightarrow> Some e'),
               tp_settled := tp_settled p @ [i]\<rparr>)
      else p)"

definition kept :: "agent \<Rightarrow> (driver_error, agent) result \<Rightarrow> agent" where
  "kept h r = (case r of Inl _ \<Rightarrow> h | Inr h' \<Rightarrow> h')"

text \<open>An exception of other code's own call stays with that code.\<close>

fun act :: "host_action \<Rightarrow> agent \<Rightarrow> agent" where
  "act (SendMessage m target wakeup) h =
     kept h (rmap (if wakeup then latch_wake (waking_after_abort wakeup (ag_phase h)) else id)
               (queue_message m target wakeup h))"
| "act (CancelWork cause keep) h = kept h (cancel_work cause keep h)"
| "act (InboxCall c) h = kept h (rmap snd (inbox_call c h))"
| "act (OtherAppend d op srcs) h = kept h (rmap snd (log_append d op srcs h))"
| "act (SettleCall i r) h = h\<lparr>ag_pool := settle_call i r (ag_pool h)\<rparr>"
| "act (ClockAt t) h = h\<lparr>ag_clock := t\<rparr>"
| "act (LimitsAt p s) h = h\<lparr>ag_max_parallel := p, ag_max_steps := s\<rparr>"

definition next_answer :: "host_answer driver" where
  "next_answer h =
     (case ag_script h of
        [] \<Rightarrow> (Suspended, h)
      | (acts, ans) # rest \<Rightarrow> (Returned ans, fold act acts (h\<lparr>ag_script := rest\<rparr>)))"

fun as_resumed :: "host_answer \<Rightarrow> unit option" where
  "as_resumed Resumed = Some ()" | "as_resumed _ = None"

text \<open>An answer of another kind is no answer to this operation: the driver stays suspended.\<close>

definition await :: "(host_answer \<Rightarrow> 'a option) \<Rightarrow> 'a driver" where
  "await select =
     chain next_answer
       (\<lambda>ans. case ans of Rejected e \<Rightarrow> throw e
         | _ \<Rightarrow> (case select ans of Some a \<Rightarrow> return a | None \<Rightarrow> suspend))"

fun as_assembled :: "host_answer \<Rightarrow> prompt_assembly option" where
  "as_assembled (Assembled a) = Some a" | "as_assembled _ = None"

fun as_decided :: "host_answer \<Rightarrow> pre_step_decision option option" where
  "as_decided (Decided d) = Some d" | "as_decided _ = None"

fun as_proposed :: "host_answer \<Rightarrow> llm_call_config option option" where
  "as_proposed (Proposed c) = Some c" | "as_proposed _ = None"

fun as_call_prepared :: "host_answer \<Rightarrow> prepared_call option" where
  "as_call_prepared (CallPrepared c) = Some c" | "as_call_prepared _ = None"

fun as_chunk :: "host_answer \<Rightarrow> stream_chunk option option" where
  "as_chunk (NextChunk c) = Some (Some c)" | "as_chunk StreamDone = Some None" | "as_chunk _ = None"

fun as_retry :: "host_answer \<Rightarrow> bool option" where
  "as_retry (RetryRequest b) = Some b" | "as_retry _ = None"

fun as_parallel :: "host_answer \<Rightarrow> bool option" where
  "as_parallel (ParallelMode b) = Some b" | "as_parallel _ = None"

fun as_tool_prepared :: "host_answer \<Rightarrow> tool_preparation option" where
  "as_tool_prepared (ToolPrepared p) = Some p" | "as_tool_prepared _ = None"

fun as_settled :: "host_answer \<Rightarrow> nat option" where
  "as_settled (ToolSettled i) = Some i" | "as_settled _ = None"

fun as_finalized :: "host_answer \<Rightarrow> tool_outcome option" where
  "as_finalized (ToolFinalized r) = Some r" | "as_finalized _ = None"

fun as_finished :: "host_answer \<Rightarrow> tool_outcome option" where
  "as_finished (ToolFinished r) = Some r" | "as_finished _ = None"

text \<open>
  Operations that never reject. The continuation of an inner asynchronous function is one: it
  runs after other pending reactions.
\<close>

definition await_value :: "(host_answer \<Rightarrow> 'a option) \<Rightarrow> 'a driver" where
  "await_value select =
     chain next_answer (\<lambda>ans. case select ans of Some a \<Rightarrow> return a | None \<Rightarrow> suspend)"

definition resume :: "unit driver" where
  "resume = await_value as_resumed"

definition awaited :: "'a driver \<Rightarrow> 'a driver" where
  "awaited m = try_finally m resume"

section \<open>Steps of the driver\<close>

definition append_log :: "event_data \<Rightarrow> json option \<Rightarrow> json option \<Rightarrow> session_event driver" where
  "append_log d op srcs h =
     (case log_append d op srcs h of Inl e \<Rightarrow> (Thrown e, h) | Inr (e, h') \<Rightarrow> (Returned e, h'))"

definition append_surface :: "event_data \<Rightarrow> nat list option \<Rightarrow> session_event driver" where
  "append_surface d srcs = append_log d (Some (surface_op_json OpAppend)) (map_option seqs_json srcs)"

definition use_inbox :: "inbox_command \<Rightarrow> user_message list driver" where
  "use_inbox c h = (case inbox_call c h of Inl e \<Rightarrow> (Thrown e, h) | Inr (ms, h') \<Rightarrow> (Returned ms, h'))"

definition throw_if_aborted :: "unit driver" where
  "throw_if_aborted =
     chain (reads (\<lambda>h. phase_abort (ag_phase h))) (\<lambda>a. case a of None \<Rightarrow> return () | Some c \<Rightarrow> throw (Canceled c))"

definition fresh_id :: "agent_env \<Rightarrow> message_id driver" where
  "fresh_id env h = (Returned (ae_new_id env (ag_ids h)), h\<lparr>ag_ids := Suc (ag_ids h)\<rparr>)"

definition emit :: "emission \<Rightarrow> unit driver" where
  "emit x = modify (\<lambda>h. h\<lparr>ag_emitted := ag_emitted h @ [x]\<rparr>)"

definition set_phase :: "phase \<Rightarrow> agent \<Rightarrow> agent" where
  "set_phase p h =
     h\<lparr>ag_phase := p,
       ag_emitted := ag_emitted h @
         (if status_running p \<noteq> status_running (ag_phase h) then [EmitStatus (status_running p)] else [])\<rparr>"

text \<open>\<open>throwError\<close>: report at the live position, then rethrow.\<close>

definition report_error :: "driver_error \<Rightarrow> unit driver" where
  "report_error e =
     chain (reads ag_phase)
       (\<lambda>p. emit (case p of
                     Running _ turn step _ \<Rightarrow> EmitError turn step e
                   | Maintenance _ last_turn _ \<Rightarrow> EmitError last_turn 0 e
                   | Idle last_turn \<Rightarrow> EmitError last_turn 0 e))"

definition throw_error :: "driver_error \<Rightarrow> 'a driver" where
  "throw_error e = chain (report_error e) (\<lambda>_. throw e)"

text \<open>Cached session reads.\<close>

definition read_header :: "epoch_header option driver" where
  "read_header h = (case read_request_header (ag_session h) of (s, x) \<Rightarrow> (Returned x, h\<lparr>ag_session := s\<rparr>))"

definition read_context :: "request_context option driver" where
  "read_context h = (case read_request_context (ag_session h) of (s, x) \<Rightarrow> (Returned x, h\<lparr>ag_session := s\<rparr>))"

definition read_log :: "event_log driver" where
  "read_log h = (case read_events (ag_session h) of (s, x) \<Rightarrow> (Returned x, h\<lparr>ag_session := s\<rparr>))"

definition read_messages :: "message list driver" where
  "read_messages h =
     (case derive_messages (ag_session h) of
        Inl e \<Rightarrow> (Thrown (SurfaceFailed e), h)
      | Inr (s, ms) \<Rightarrow> (Returned ms, h\<lparr>ag_session := s\<rparr>))"

end
