(* ===== verification/Scope_Chain.thy ===== *)
theory Scope_Chain
  imports Prelude
begin

text \<open>
  The scope tree (\<open>packages/core/scope/src/index.ts\<close>). Scope keys are opaque identities; one
  module-level map gives each key its enclosing scope. Registration views inherit down the chain
  of enclosing scopes and event admission extends up it, so every reader walks parents to the
  root: the links must never form a cycle. The walks are loops that may run forever on a cyclic
  map; \<open>None\<close> is the walk that does not return, and the reachable maps are proved cycle-free.
\<close>

type_synonym scope_key = nat
type_synonym scope_parents = "scope_key \<rightharpoonup> scope_key"

datatype scope_error =
    AlreadyBound
  | LinkCycle

section \<open>Walks\<close>

text \<open>\<open>scopeChainOf\<close>: the keys from a scope to its root, nearest first.\<close>

partial_function (option) scope_chain :: "scope_parents \<Rightarrow> scope_key option \<Rightarrow> scope_key list option" where
  "scope_chain parents cursor =
     (case cursor of
        None \<Rightarrow> Some []
      | Some k \<Rightarrow> Option.bind (scope_chain parents (parents k)) (\<lambda>ks. Some (k # ks)))"

text \<open>The loop of \<open>linkScopeParent\<close> and of the carrier's filter: does the walk from the cursor
  meet the key?\<close>

partial_function (option) walk_meets :: "scope_parents \<Rightarrow> scope_key \<Rightarrow> scope_key option \<Rightarrow> bool option" where
  "walk_meets parents key cursor =
     (case cursor of
        None \<Rightarrow> Some False
      | Some c \<Rightarrow> if c = key then Some True else walk_meets parents key (parents c))"

declare scope_chain.simps [code] walk_meets.simps [code]

section \<open>Operations\<close>

definition link_scope_parent ::
    "scope_key \<Rightarrow> scope_key \<Rightarrow> scope_parents \<Rightarrow> (scope_error, scope_parents) result option" where
  "link_scope_parent key parent parents =
     Option.bind (walk_meets parents key (Some parent))
       (\<lambda>met. Some (if met then Inl LinkCycle else Inr (parents(key \<mapsto> parent))))"

definition bind_scope_parent ::
    "scope_key \<Rightarrow> scope_key \<Rightarrow> scope_parents \<Rightarrow> (scope_error, scope_parents) result option" where
  "bind_scope_parent key parent parents =
     (if parents key \<noteq> None then Some (Inl AlreadyBound) else link_scope_parent key parent parents)"

text \<open>\<open>ScopeParentBinding.rebind\<close>, held by the binder of the key alone.\<close>

definition rebind_scope_parent ::
    "scope_key \<Rightarrow> scope_key \<Rightarrow> scope_parents \<Rightarrow> (scope_error, scope_parents) result option" where
  "rebind_scope_parent key parent parents = link_scope_parent key parent parents"

text \<open>The filter of a carrier built by \<open>scopeTarget\<close>: whether a listener whose context has the given
  scope tag receives an event routed to the key.\<close>

definition carrier_admits :: "scope_parents \<Rightarrow> bool \<Rightarrow> scope_key option \<Rightarrow> scope_key option \<Rightarrow> bool option" where
  "carrier_admits parents base_filter key tag =
     (if \<not> base_filter then Some False
      else (case tag of None \<Rightarrow> Some True | Some t \<Rightarrow> walk_meets parents t key))"

text \<open>The parent maps the operations can build; a key's binding, once made, may be moved.\<close>

inductive scopes_reach :: "scope_parents \<Rightarrow> bool" where
  scopes_empty: "scopes_reach Map.empty"
| scopes_bind: "scopes_reach ps \<Longrightarrow> bind_scope_parent key parent ps = Some (Inr ps') \<Longrightarrow> scopes_reach ps'"
| scopes_rebind: "scopes_reach ps \<Longrightarrow> ps key \<noteq> None \<Longrightarrow> rebind_scope_parent key parent ps = Some (Inr ps') \<Longrightarrow> scopes_reach ps'"

section \<open>The links form a forest\<close>

text \<open>The pairs of a scope and a scope it encloses directly.\<close>

definition encloses :: "scope_parents \<Rightarrow> (scope_key \<times> scope_key) set" where
  "encloses parents = {(p, k). parents k = Some p}"

definition forest :: "scope_parents \<Rightarrow> bool" where
  "forest parents \<longleftrightarrow> finite (dom parents) \<and> acyclic (encloses parents)"

lemma encloses_iff [simp]: "(p, k) \<in> encloses parents \<longleftrightarrow> parents k = Some p"
  by (simp add: encloses_def)

lemma encloses_empty [simp]: "encloses Map.empty = {}"
  by (auto simp: encloses_def)

lemma finite_encloses: "finite (dom parents) \<Longrightarrow> finite (encloses parents)"
proof -
  assume "finite (dom parents)"
  then have "finite ((\<lambda>k. (the (parents k), k)) ` dom parents)" by simp
  moreover have "encloses parents \<subseteq> (\<lambda>k. (the (parents k), k)) ` dom parents"
    by (auto simp: encloses_def image_iff)
  ultimately show ?thesis by (rule rev_finite_subset)
qed

lemma forest_wf: "forest parents \<Longrightarrow> wf (encloses parents)"
  by (simp add: forest_def finite_acyclic_wf finite_encloses)

lemma walk_None [simp]: "walk_meets parents key None = Some False" "scope_chain parents None = Some []"
  by (simp_all add: walk_meets.simps scope_chain.simps)

lemma walk_Some:
  "walk_meets parents key (Some c) = (if c = key then Some True else walk_meets parents key (parents c))"
  "scope_chain parents (Some k) = Option.bind (scope_chain parents (parents k)) (\<lambda>ks. Some (k # ks))"
  by (simp_all add: walk_meets.simps scope_chain.simps)

lemma enclosing_step: "(key, c) \<in> (encloses parents)\<^sup>* \<longleftrightarrow> c = key \<or> (\<exists>p. parents c = Some p \<and> (key, p) \<in> (encloses parents)\<^sup>*)"
  by (auto elim: rtranclE intro: rtrancl_into_rtrancl)

lemma walk_meets_iff:
  assumes "forest parents"
  shows "walk_meets parents key (Some c) = Some ((key, c) \<in> (encloses parents)\<^sup>*)"
  using forest_wf [OF assms]
proof (induction c rule: wf_induct_rule)
  case (less c)
  show ?case
  proof (cases "parents c")
    case None
    then show ?thesis by (subst enclosing_step) (simp add: walk_Some)
  next
    case (Some p)
    then have "walk_meets parents key (Some p) = Some ((key, p) \<in> (encloses parents)\<^sup>*)" by (intro less) simp
    then show ?thesis using Some by (subst enclosing_step) (auto simp: walk_Some)
  qed
qed

text \<open>The walk to the root: it lists the scope and everything that encloses it, each once.\<close>

definition chain_of :: "scope_parents \<Rightarrow> scope_key option \<Rightarrow> scope_key list" where
  "chain_of parents cursor = (case scope_chain parents cursor of None \<Rightarrow> [] | Some ks \<Rightarrow> ks)"

lemma chain_of_None [simp]: "chain_of parents None = []"
  by (simp add: chain_of_def)

lemma scope_chain_total:
  assumes "forest parents"
  shows "scope_chain parents (Some k) = Some (k # chain_of parents (parents k))
    \<and> set (k # chain_of parents (parents k)) = {a. (a, k) \<in> (encloses parents)\<^sup>*}
    \<and> distinct (k # chain_of parents (parents k))"
  using forest_wf [OF assms]
proof (induction k rule: wf_induct_rule)
  case (less k)
  have acyclic: "acyclic (encloses parents)" using assms by (simp add: forest_def)
  show ?case
  proof (cases "parents k")
    case None
    then show ?thesis by (auto simp: walk_Some elim: rtranclE)
  next
    case (Some p)
    then have IH: "scope_chain parents (Some p) = Some (p # chain_of parents (parents p))"
      "set (p # chain_of parents (parents p)) = {a. (a, p) \<in> (encloses parents)\<^sup>*}"
      "distinct (p # chain_of parents (parents p))"
      using less [of p] by simp_all
    have chain: "chain_of parents (parents k) = p # chain_of parents (parents p)"
      using Some IH(1) by (simp add: chain_of_def)
    have "(k, p) \<notin> (encloses parents)\<^sup>*"
      using acyclic Some by (metis acyclic_def encloses_iff rtrancl_into_trancl1)
    then have "distinct (k # chain_of parents (parents k))" using IH(2,3) chain by auto
    moreover have "set (k # chain_of parents (parents k)) = {a. (a, k) \<in> (encloses parents)\<^sup>*}"
      using IH(2) chain Some enclosing_step [of _ k parents] by auto
    moreover have "scope_chain parents (Some k) = Some (k # chain_of parents (parents k))"
      using Some IH(1) chain by (simp add: walk_Some)
    ultimately show ?thesis by simp
  qed
qed

lemma chain_of_Some: "forest parents \<Longrightarrow> chain_of parents (Some k) = k # chain_of parents (parents k)"
  using scope_chain_total [of parents k] by (simp add: chain_of_def)

lemma scope_chain_eq: "forest parents \<Longrightarrow> scope_chain parents cursor = Some (chain_of parents cursor)"
  using scope_chain_total [of parents] by (cases cursor) (simp_all add: chain_of_Some)

lemma chain_of_set: "forest parents \<Longrightarrow> set (chain_of parents (Some k)) = {a. (a, k) \<in> (encloses parents)\<^sup>*}"
  using scope_chain_total [of parents k] by (simp add: chain_of_Some)

lemma chain_of_distinct: "forest parents \<Longrightarrow> distinct (chain_of parents cursor)"
  using scope_chain_total [of parents] by (cases cursor) (simp_all add: chain_of_Some)

lemma walk_meets_chain: "forest parents \<Longrightarrow> walk_meets parents key cursor = Some (key \<in> set (chain_of parents cursor))"
  by (cases cursor) (simp_all add: walk_meets_iff chain_of_set)

lemma link_keeps_forest:
  assumes "forest parents" "link_scope_parent key parent parents = Some (Inr parents')"
  shows "forest parents'"
proof -
  let ?old = "{(p, k). parents k = Some p \<and> k \<noteq> key}"
  have outside: "(key, parent) \<notin> (encloses parents)\<^sup>*" and new: "parents' = parents(key \<mapsto> parent)"
    using assms by (auto simp: link_scope_parent_def walk_meets_iff split: if_splits)
  have old: "?old \<subseteq> encloses parents" by auto
  have "encloses parents' = insert (parent, key) ?old" unfolding new by (auto simp: encloses_def)
  moreover have "acyclic ?old" using assms(1) old acyclic_subset unfolding forest_def by blast
  moreover have "(key, parent) \<notin> ?old\<^sup>*" using outside rtrancl_mono [OF old] by blast
  ultimately have "acyclic (encloses parents')" by (simp add: acyclic_insert)
  moreover have "finite (dom parents')" using assms(1) new by (simp add: forest_def)
  ultimately show ?thesis by (simp add: forest_def)
qed

lemma scopes_reach_forest: "scopes_reach parents \<Longrightarrow> forest parents"
proof (induction rule: scopes_reach.induct)
  case scopes_empty
  then show ?case by (simp add: forest_def acyclic_def)
qed (auto simp: bind_scope_parent_def rebind_scope_parent_def intro: link_keeps_forest split: if_splits)

text \<open>The operations return on every reachable map, and a link is refused exactly when the key
  already encloses its new parent or is it.\<close>

lemma link_decides:
  assumes "forest parents"
  shows "link_scope_parent key parent parents
    = Some (if key \<in> set (chain_of parents (Some parent)) then Inl LinkCycle else Inr (parents(key \<mapsto> parent)))"
  by (simp add: link_scope_parent_def walk_meets_chain [OF assms])

lemma carrier_admits_iff:
  assumes "forest parents"
  shows "carrier_admits parents base_filter key tag
    = Some (base_filter \<and> (\<forall>t. tag = Some t \<longrightarrow> t \<in> set (chain_of parents key)))"
  by (cases tag) (simp_all add: carrier_admits_def walk_meets_chain [OF assms])

end
