(* ===== verification/Scoped_Layers.thy ===== *)
theory Scoped_Layers
  imports Scope_Chain
begin

text \<open>
  The storage of the scope-aware registries (\<open>packages/core/scope/src/store.ts\<close>): entry tables,
  and the layers of one registry, a global one and one for each scope with contributions. Layers
  are mutable objects that the undo closures of their registrations capture, so they are kept by
  identity: an index into the list of every layer ever created. A layer is created on a scope's
  first contribution and reclaimed when its last one is undone.

  Each kind of layer states its tables through the contract \<open>layer_tables\<close>; the registry then
  shows, in every scope, exactly the live registrations made there, in order, whatever sequence
  of registrations and disposals came before.
\<close>

section \<open>Entry tables\<close>

text \<open>\<open>NamedEntries\<close> and \<open>AnonymousEntries\<close>. The key of an anonymous entry is a fresh symbol. An undo
  runs once and only while its entry is in the table, so the table it captured is the current one:
  a table is replaced only after it has been drained.\<close>

type_synonym 'v named_entries = "(string, 'v) js_map"
type_synonym 'v anonymous_entries = "(nat, 'v) js_map"

definition named_insert :: "(string \<Rightarrow> 'e) \<Rightarrow> string \<Rightarrow> 'v \<Rightarrow> 'v named_entries \<Rightarrow> ('e, 'v named_entries) result" where
  "named_insert duplicate name v data =
     (if map_has data name then Inl (duplicate name) else Inr (map_set name v data))"

definition named_undo :: "string \<Rightarrow> 'v named_entries \<Rightarrow> 'v named_entries" where
  "named_undo name data = map_del name data"

definition anonymous_append :: "nat \<Rightarrow> 'v \<Rightarrow> 'v anonymous_entries \<Rightarrow> 'v anonymous_entries" where
  "anonymous_append symbol v data = map_set symbol v data"

definition anonymous_undo :: "nat \<Rightarrow> 'v anonymous_entries \<Rightarrow> 'v anonymous_entries" where
  "anonymous_undo symbol data = map_del symbol data"

section \<open>Layers\<close>

text \<open>What a registry supplies: its layer constructor, the emptiness test, and, for one contribution,
  the mutation and its undo. The number identifies the registration (its symbol).\<close>

record ('e, 'c, 'l) layer_kind =
  lk_create :: "scope_key option \<Rightarrow> 'l"
  lk_is_empty :: "'l \<Rightarrow> bool"
  lk_put :: "nat \<Rightarrow> 'c \<Rightarrow> 'l \<Rightarrow> ('e, 'l) result"
  lk_undo :: "nat \<Rightarrow> 'c \<Rightarrow> 'l \<Rightarrow> 'l"

text \<open>What an effect's closures capture: the scope, the layer object, the contribution, the change
  notification flag, and the undo's \<open>active\<close> flag.\<close>

record 'c registration =
  rg_scope :: "scope_key option"
  rg_layer :: nat
  rg_content :: 'c
  rg_notify :: bool
  rg_active :: bool

record ('c, 'l) layers =
  ly_objects :: "'l list"
  ly_scoped :: "(scope_key, nat) js_map"
  ly_registrations :: "'c registration list"
  ly_changes :: nat

definition new_layers :: "('e, 'c, 'l) layer_kind \<Rightarrow> ('c, 'l) layers" where
  "new_layers kind = \<lparr>ly_objects = [lk_create kind None], ly_scoped = [], ly_registrations = [], ly_changes = 0\<rparr>"

definition global_layer :: "('c, 'l) layers \<Rightarrow> 'l" where
  "global_layer st = ly_objects st ! 0"

definition peek_layer :: "('c, 'l) layers \<Rightarrow> scope_key option \<Rightarrow> 'l option" where
  "peek_layer st scope =
     (case scope of
        None \<Rightarrow> None
      | Some k \<Rightarrow> (case map_get (ly_scoped st) k of None \<Rightarrow> None | Some i \<Rightarrow> Some (ly_objects st ! i)))"

text \<open>\<open>chainLayers\<close>: the existing layers along the chain, farthest ancestor first.\<close>

definition chain_layers :: "('c, 'l) layers \<Rightarrow> scope_parents \<Rightarrow> scope_key option \<Rightarrow> 'l list" where
  "chain_layers st parents scope =
     List.map_filter (\<lambda>k. peek_layer st (Some k)) (rev (chain_of parents scope))"

text \<open>\<open>merge\<close>: global entries, then the shadows of the chain; a shadow keeps the position of the
  entry it hides.\<close>

definition shadow_entries :: "('k, 'v) js_map \<Rightarrow> ('k, 'v) js_map \<Rightarrow> ('k, 'v) js_map" where
  "shadow_entries merged entries = foldl (\<lambda>m (name, v). map_set name v m) merged entries"

definition merge_layers ::
    "('c, 'l) layers \<Rightarrow> scope_parents \<Rightarrow> scope_key option \<Rightarrow> ('l \<Rightarrow> 'v named_entries) \<Rightarrow> 'v named_entries" where
  "merge_layers st parents scope pick =
     foldl shadow_entries (pick (global_layer st)) (map pick (chain_layers st parents scope))"

section \<open>Registration and disposal\<close>

text \<open>The layer a registration goes to, created when its scope has none.\<close>

definition layer_for ::
    "('e, 'c, 'l) layer_kind \<Rightarrow> scope_key option \<Rightarrow> ('c, 'l) layers \<Rightarrow> nat \<times> bool \<times> ('c, 'l) layers" where
  "layer_for kind scope st =
     (case scope of
        None \<Rightarrow> (0, False, st)
      | Some k \<Rightarrow>
          (case map_get (ly_scoped st) k of
             Some i \<Rightarrow> (i, False, st)
           | None \<Rightarrow>
               (length (ly_objects st), True,
                st\<lparr>ly_objects := ly_objects st @ [lk_create kind scope],
                   ly_scoped := map_set k (length (ly_objects st)) (ly_scoped st)\<rparr>)))"

definition drop_layer :: "scope_key option \<Rightarrow> ('c, 'l) layers \<Rightarrow> ('c, 'l) layers" where
  "drop_layer scope st =
     (case scope of None \<Rightarrow> st | Some k \<Rightarrow> st\<lparr>ly_scoped := map_del k (ly_scoped st)\<rparr>)"

text \<open>\<open>effect\<close>: a refused action reclaims the layer it created; an accepted one yields its cleanup, named
  here by the registration's number, and notifies.\<close>

definition register_effect ::
    "('e, 'c, 'l) layer_kind \<Rightarrow> scope_key option \<Rightarrow> bool \<Rightarrow> 'c \<Rightarrow> ('c, 'l) layers
       \<Rightarrow> ('e, nat) result \<times> ('c, 'l) layers" where
  "register_effect kind scope notify c st =
     (let number = length (ly_registrations st) in
      (case layer_for kind scope st of
         (i, created, st1) \<Rightarrow>
           (case lk_put kind number c (ly_objects st1 ! i) of
              Inl e \<Rightarrow>
                (Inl e, if created \<and> lk_is_empty kind (ly_objects st1 ! i) then drop_layer scope st1 else st1)
            | Inr l \<Rightarrow>
                (Inr number,
                 st1\<lparr>ly_objects := (ly_objects st1)[i := l],
                     ly_registrations := ly_registrations st1
                       @ [\<lparr>rg_scope = scope, rg_layer = i, rg_content = c, rg_notify = notify, rg_active = True\<rparr>],
                     ly_changes := ly_changes st1 + (if notify then 1 else 0)\<rparr>))))"

definition run_undo :: "('e, 'c, 'l) layer_kind \<Rightarrow> nat \<Rightarrow> ('c, 'l) layers \<Rightarrow> ('c, 'l) layers" where
  "run_undo kind number st =
     (let r = ly_registrations st ! number in
      if \<not> rg_active r then st
      else st\<lparr>ly_objects := (ly_objects st)[rg_layer r := lk_undo kind number (rg_content r) (ly_objects st ! rg_layer r)],
              ly_registrations := (ly_registrations st)[number := r\<lparr>rg_active := False\<rparr>]\<rparr>)"

text \<open>The cleanup of an effect.\<close>

definition run_cleanup :: "('e, 'c, 'l) layer_kind \<Rightarrow> nat \<Rightarrow> ('c, 'l) layers \<Rightarrow> ('c, 'l) layers" where
  "run_cleanup kind number st =
     (let r = ly_registrations st ! number;
          st1 = run_undo kind number st;
          st2 = (if lk_is_empty kind (ly_objects st1 ! rg_layer r) then drop_layer (rg_scope r) st1 else st1)
      in st2\<lparr>ly_changes := ly_changes st2 + (if rg_notify r then 1 else 0)\<rparr>)"

text \<open>The states a registry reaches. The disposer that Cordis returns for an effect runs its cleanup
  once.\<close>

inductive layers_reach :: "('e, 'c, 'l) layer_kind \<Rightarrow> ('c, 'l) layers \<Rightarrow> bool" for kind where
  reach_new: "layers_reach kind (new_layers kind)"
| reach_register: "layers_reach kind st \<Longrightarrow> register_effect kind scope notify c st = (out, st') \<Longrightarrow> layers_reach kind st'"
| reach_cleanup: "layers_reach kind st \<Longrightarrow> number < length (ly_registrations st)
    \<Longrightarrow> rg_active (ly_registrations st ! number) \<Longrightarrow> layers_reach kind (run_cleanup kind number st)"

section \<open>Entry tables as maps\<close>

lemma map_del_split: "k \<notin> fst ` set xs \<Longrightarrow> k \<notin> fst ` set ys \<Longrightarrow> map_del k (xs @ [(k, v)] @ ys) = xs @ ys"
  by (induction xs) (auto simp: AList.delete_idem)

lemma shadow_entries_get:
  "distinct (map fst entries) \<Longrightarrow>
   map_get (shadow_entries merged entries) k = (case map_get entries k of Some v \<Rightarrow> Some v | None \<Rightarrow> map_get merged k)"
proof (induction entries arbitrary: merged)
  case (Cons e entries)
  then have "map_get entries (fst e) = None" by (simp add: map_of_eq_None_iff)
  then show ?case using Cons by (cases e) (auto simp: shadow_entries_def split: option.split)
qed (simp add: shadow_entries_def)

lemma shadow_entries_distinct: "distinct (map fst merged) \<Longrightarrow> distinct (map fst (shadow_entries merged entries))"
  unfolding shadow_entries_def
  by (induction entries arbitrary: merged) (auto simp: map_set_distinct split: prod.splits)

text \<open>The nearest table with the name decides.\<close>

fun nearest :: "('k, 'v) js_map list \<Rightarrow> 'k \<Rightarrow> 'v option" where
  "nearest [] name = None"
| "nearest (t # ts) name = (case nearest ts name of Some v \<Rightarrow> Some v | None \<Rightarrow> map_get t name)"

lemma nearest_append:
  "nearest (xs @ ys) name = (case nearest ys name of Some v \<Rightarrow> Some v | None \<Rightarrow> nearest xs name)"
  by (induction xs) (auto split: option.split)

lemma shadowing_nearest:
  "\<forall>t\<in>set tables. distinct (map fst t) \<Longrightarrow>
   map_get (foldl shadow_entries merged tables) name = nearest (merged # tables) name"
proof (induction tables arbitrary: merged)
  case (Cons t tables)
  then have "map_get (foldl shadow_entries (shadow_entries merged t) tables) name = nearest (shadow_entries merged t # tables) name"
    by (intro Cons.IH) simp
  then show ?case using Cons.prems by (auto simp: shadow_entries_get split: option.split)
qed simp

lemma shadowing_distinct:
  "distinct (map fst merged) \<Longrightarrow> distinct (map fst (foldl shadow_entries merged tables))"
  by (induction tables arbitrary: merged) (simp_all add: shadow_entries_distinct)

text \<open>A table as rows of contributions, under injective keys.\<close>

definition as_rows :: "('a \<Rightarrow> 'k) \<Rightarrow> ('a \<Rightarrow> 'b \<Rightarrow> 'c) \<Rightarrow> ('a, 'b) js_map \<Rightarrow> ('k, 'c) js_map" where
  "as_rows f h t = map (\<lambda>(k, v). (f k, h k v)) t"

lemma as_rows_simps [simp]:
  "as_rows f h [] = []"
  "as_rows f h (t @ u) = as_rows f h t @ as_rows f h u"
  "as_rows f h [(k, v)] = [(f k, h k v)]"
  "as_rows f h t = [] \<longleftrightarrow> t = []"
  by (simp_all add: as_rows_def)

lemma as_rows_keys: "map fst (as_rows f h t) = map f (map fst t)"
  by (induction t) (auto simp: as_rows_def)

lemma as_rows_get [simp]: "inj f \<Longrightarrow> map_get (as_rows f h t) (f k) = map_option (h k) (map_get t k)"
  by (induction t) (auto simp: as_rows_def inj_eq)

lemma as_rows_del: "inj f \<Longrightarrow> as_rows f h (map_del k t) = map_del (f k) (as_rows f h t)"
  by (induction t) (auto simp: as_rows_def inj_eq)

lemma as_rows_inject: "inj f \<Longrightarrow> (\<And>k. inj (h k)) \<Longrightarrow> as_rows f h t = as_rows f h u \<longleftrightarrow> t = u"
proof (induction t arbitrary: u)
  case Nil
  show ?case by (cases u) (simp_all add: as_rows_def)
next
  case (Cons e t)
  then show ?case by (cases u) (auto simp: as_rows_def inj_eq split: prod.splits)
qed

section \<open>The contract of a layer kind\<close>

text \<open>
  A layer is a family of ordered tables. Each contribution belongs to one table and has a key
  there: its name, its registration number, or the one cell of the table. Putting a new key
  appends, a named or cell key that is taken is refused, and the undo removes the key.
\<close>

locale layer_tables =
  fixes kind :: "('e, 'c, 'l) layer_kind"
    and tables :: "'l \<Rightarrow> 's \<Rightarrow> ('k, 'c) js_map"
    and slot :: "'c \<Rightarrow> 's"
    and key :: "nat \<Rightarrow> 'c \<Rightarrow> 'k"
    and numbered :: "'c \<Rightarrow> bool"
  assumes create_tables: "tables (lk_create kind scope) s = []"
    and is_empty_tables: "lk_is_empty kind l \<longleftrightarrow> (\<forall>s. tables l s = [])"
    and put_tables: "map_get (tables l (slot c)) (key n c) = None \<Longrightarrow>
      \<exists>l'. lk_put kind n c l = Inr l'
        \<and> (\<forall>s. tables l' s = (if s = slot c then tables l s @ [(key n c, c)] else tables l s))"
    and put_taken: "\<not> numbered c \<Longrightarrow> map_has (tables l (slot c)) (key n c) \<Longrightarrow> \<exists>e. lk_put kind n c l = Inl e"
    and undo_tables: "tables (lk_undo kind n c l) s = (if s = slot c then map_del (key n c) (tables l s) else tables l s)"
    and numbered_key: "numbered c \<Longrightarrow> slot c = slot d \<Longrightarrow> key m c = key n d \<longleftrightarrow> m = n"
begin

text \<open>The live registrations of a scope, in the order of registration.\<close>

definition live :: "('c, 'l) layers \<Rightarrow> scope_key option \<Rightarrow> 's \<Rightarrow> ('k, 'c) js_map" where
  "live st scope s =
     map (\<lambda>(n, r). (key n (rg_content r), rg_content r))
       (filter (\<lambda>(n, r). rg_active r \<and> rg_scope r = scope \<and> slot (rg_content r) = s)
          (List.enumerate 0 (ly_registrations st)))"

definition shown :: "('c, 'l) layers \<Rightarrow> scope_key option \<Rightarrow> 's \<Rightarrow> ('k, 'c) js_map" where
  "shown st scope s =
     (case scope of
        None \<Rightarrow> tables (global_layer st) s
      | Some k \<Rightarrow> (case peek_layer st (Some k) of None \<Rightarrow> [] | Some l \<Rightarrow> tables l s))"

text \<open>The object a scope's contributions live in.\<close>

definition attached :: "('c, 'l) layers \<Rightarrow> scope_key option \<Rightarrow> nat option" where
  "attached st scope = (case scope of None \<Rightarrow> Some 0 | Some k \<Rightarrow> map_get (ly_scoped st) k)"

definition attachments_ok :: "('c, 'l) layers \<Rightarrow> bool" where
  "attachments_ok st \<longleftrightarrow>
     ly_objects st \<noteq> []
     \<and> (\<forall>scope i. attached st scope = Some i \<longrightarrow> i < length (ly_objects st))
     \<and> (\<forall>a b i. attached st a = Some i \<and> attached st b = Some i \<longrightarrow> a = b)"

definition registry_ok :: "('c, 'l) layers \<Rightarrow> bool" where
  "registry_ok st \<longleftrightarrow> attachments_ok st
     \<and> (\<forall>r\<in>set (ly_registrations st). rg_active r \<longrightarrow> attached st (rg_scope r) = Some (rg_layer r))
     \<and> (\<forall>scope s. shown st scope s = live st scope s \<and> distinct (map fst (live st scope s)))
     \<and> (\<forall>k i. map_get (ly_scoped st) k = Some i \<longrightarrow> \<not> lk_is_empty kind (ly_objects st ! i))"

lemma shown_attached:
  "shown st scope s = (case attached st scope of None \<Rightarrow> [] | Some i \<Rightarrow> tables (ly_objects st ! i) s)"
  by (auto simp: shown_def attached_def global_layer_def peek_layer_def split: option.splits)

section \<open>The live registrations\<close>

definition listed :: "nat \<Rightarrow> 'c registration list \<Rightarrow> scope_key option \<Rightarrow> 's \<Rightarrow> ('k, 'c) js_map" where
  "listed n rs scope s =
     map (\<lambda>(n, r). (key n (rg_content r), rg_content r))
       (filter (\<lambda>(n, r). rg_active r \<and> rg_scope r = scope \<and> slot (rg_content r) = s) (List.enumerate n rs))"

lemma live_listed: "live st scope s = listed 0 (ly_registrations st) scope s"
  by (simp add: live_def listed_def)

lemma listed_append: "listed n (xs @ ys) scope s = listed n xs scope s @ listed (n + length xs) ys scope s"
  by (simp add: listed_def enumerate_append_eq)

lemma listed_Cons:
  "listed n (r # rs) scope s =
     (if rg_active r \<and> rg_scope r = scope \<and> slot (rg_content r) = s then [(key n (rg_content r), rg_content r)] else [])
       @ listed (Suc n) rs scope s"
  by (simp add: listed_def)

lemma listed_Nil [simp]: "listed n [] scope s = []"
  by (simp add: listed_def)

lemma listed_member:
  "(k, c) \<in> set (listed n rs scope s) \<Longrightarrow> \<exists>m. n \<le> m \<and> m < n + length rs \<and> k = key m c \<and> slot c = s"
proof (induction rs arbitrary: n)
  case (Cons r rs)
  show ?case
  proof (cases "(k, c) \<in> set (listed (Suc n) rs scope s)")
    case True
    from Cons.IH [OF this] show ?thesis by (metis Suc_leD add_Suc_right add_Suc_shift length_Cons)
  next
    case False
    then have "k = key n c \<and> slot c = s" using Cons.prems by (auto simp: listed_Cons split: if_splits)
    then show ?thesis by auto
  qed
qed simp

lemma live_deactivated:
  assumes "number < length rs" "rg_active (rs ! number)"
    and "distinct (map fst (listed 0 rs (rg_scope (rs ! number)) (slot (rg_content (rs ! number)))))"
  shows "listed 0 (rs[number := (rs ! number)\<lparr>rg_active := False\<rparr>]) scope s =
    (if scope = rg_scope (rs ! number) \<and> s = slot (rg_content (rs ! number))
     then map_del (key number (rg_content (rs ! number))) (listed 0 rs scope s) else listed 0 rs scope s)"
proof -
  let ?r = "rs ! number" and ?before = "take number rs" and ?behind = "drop (Suc number) rs"
  let ?A = "listed 0 ?before scope s" and ?B = "listed (Suc number) ?behind scope s"
  have split: "rs = ?before @ ?r # ?behind" using assms(1) by (rule id_take_nth_drop)
  have len: "length ?before = number" using assms(1) by simp
  have old: "listed 0 rs scope s = ?A
      @ (if scope = rg_scope ?r \<and> s = slot (rg_content ?r) then [(key number (rg_content ?r), rg_content ?r)] else []) @ ?B"
    using len assms(2) by (subst split) (auto simp: listed_append listed_Cons)
  have new: "listed 0 (rs[number := ?r\<lparr>rg_active := False\<rparr>]) scope s = ?A @ ?B"
    using len assms(1) by (simp add: upd_conv_take_nth_drop listed_append listed_Cons)
  show ?thesis
  proof (cases "scope = rg_scope ?r \<and> s = slot (rg_content ?r)")
    case True
    then have "distinct (map fst (listed 0 rs scope s))" using assms(3) by simp
    moreover have whole: "listed 0 rs scope s = ?A @ [(key number (rg_content ?r), rg_content ?r)] @ ?B"
      using True unfolding old by (simp only: if_True refl simp_thms)
    ultimately have "distinct (map fst (?A @ [(key number (rg_content ?r), rg_content ?r)] @ ?B))"
      by simp
    then have "key number (rg_content ?r) \<notin> fst ` set ?A" "key number (rg_content ?r) \<notin> fst ` set ?B"
      by auto
    then have "map_del (key number (rg_content ?r)) (listed 0 rs scope s) = ?A @ ?B"
      unfolding whole by (rule map_del_split)
    with True new show ?thesis by simp
  qed (auto simp: old new)
qed

section \<open>Every step keeps the registry\<close>

lemma new_registry_ok: "registry_ok (new_layers kind)"
proof -
  have "attached (new_layers kind) scope = (if scope = None then Some 0 else None)" for scope
    by (simp add: attached_def new_layers_def split: option.split)
  then show ?thesis
    by (auto simp: registry_ok_def attachments_ok_def shown_attached live_def new_layers_def create_tables)
qed

lemma attached_bound: "attachments_ok st \<Longrightarrow> attached st scope = Some i \<Longrightarrow> i < length (ly_objects st)"
  unfolding attachments_ok_def by blast

lemma attached_inj: "attachments_ok st \<Longrightarrow> attached st a = Some i \<Longrightarrow> attached st b = Some i \<Longrightarrow> a = b"
  unfolding attachments_ok_def by blast

lemma attachments_okI:
  assumes "ly_objects st \<noteq> []" "\<And>scope i. attached st scope = Some i \<Longrightarrow> i < length (ly_objects st)"
    and "\<And>a b i. attached st a = Some i \<Longrightarrow> attached st b = Some i \<Longrightarrow> a = b"
  shows "attachments_ok st"
  using assms unfolding attachments_ok_def by blast

lemma attachments_same:
  assumes "ly_scoped st' = ly_scoped st" "length (ly_objects st') = length (ly_objects st)"
  shows "attachments_ok st' = attachments_ok st"
proof -
  have "attached st' = attached st" using assms(1) by (intro ext) (simp add: attached_def split: option.split)
  moreover have "ly_objects st' = [] \<longleftrightarrow> ly_objects st = []" using assms(2) by (metis length_0_conv)
  ultimately show ?thesis using assms(2) by (simp add: attachments_ok_def)
qed

lemma layer_for_ok:
  assumes "attachments_ok st" "layer_for kind scope st = (i, created, st1)"
  shows "attachments_ok st1" "attached st1 scope = Some i" "created \<longleftrightarrow> attached st scope = None"
    "scope' \<noteq> scope \<Longrightarrow> attached st1 scope' = attached st scope'"
    "attached st scope' = Some j \<Longrightarrow> ly_objects st1 ! j = ly_objects st ! j"
    "ly_registrations st1 = ly_registrations st" "ly_changes st1 = ly_changes st"
    "tables (ly_objects st1 ! i) s = shown st scope s"
    "created \<Longrightarrow> drop_layer scope st1 = st\<lparr>ly_objects := ly_objects st1, ly_scoped := map_del (the scope) (ly_scoped st1)\<rparr>"
proof -
  let ?new = "st\<lparr>ly_objects := ly_objects st @ [lk_create kind scope],
      ly_scoped := map_set (the scope) (length (ly_objects st)) (ly_scoped st)\<rparr>"
  consider (there) "attached st scope = Some i" "created = False" "st1 = st"
    | (fresh) k where "scope = Some k" "attached st scope = None" "i = length (ly_objects st)" "created" "st1 = ?new"
    using assms(2) by (auto simp: layer_for_def attached_def split: option.splits)
  then have "attachments_ok st1 \<and> attached st1 scope = Some i \<and> (created \<longleftrightarrow> attached st scope = None)
    \<and> (\<forall>scope'. scope' \<noteq> scope \<longrightarrow> attached st1 scope' = attached st scope')
    \<and> (\<forall>scope' j. attached st scope' = Some j \<longrightarrow> ly_objects st1 ! j = ly_objects st ! j)
    \<and> ly_registrations st1 = ly_registrations st \<and> ly_changes st1 = ly_changes st
    \<and> (\<forall>s. tables (ly_objects st1 ! i) s = shown st scope s)
    \<and> (created \<longrightarrow> drop_layer scope st1 = st\<lparr>ly_objects := ly_objects st1, ly_scoped := map_del (the scope) (ly_scoped st1)\<rparr>)"
  proof cases
    case there
    then show ?thesis using assms(1) by (simp add: shown_attached)
  next
    case fresh
    have att: "attached ?new scope' = (if scope' = scope then Some i else attached st scope')" for scope'
      using fresh by (cases scope') (auto simp: attached_def)
    note less = attached_bound [OF assms(1)] and inj = attached_inj [OF assms(1)]
    have "attachments_ok ?new"
    proof (rule attachments_okI)
      show "j < length (ly_objects ?new)" if "attached ?new scope' = Some j" for scope' j
        using that less [of scope' j] fresh(3) unfolding att by (auto split: if_splits)
      show "a = b" if "attached ?new a = Some j" "attached ?new b = Some j" for a b j
        using that less inj [of a j b] fresh(3) unfolding att by (fastforce split: if_splits)
    qed simp
    moreover have "tables (ly_objects ?new ! i) s = shown st scope s" for s
      using fresh(2,3) by (simp add: shown_attached create_tables)
    moreover have "ly_objects ?new ! j = ly_objects st ! j" if "attached st scope' = Some j" for scope' j
      using less [OF that] by (simp add: nth_append)
    ultimately show ?thesis using fresh att by (simp add: drop_layer_def)
  qed
  then show "attachments_ok st1" "attached st1 scope = Some i" "created \<longleftrightarrow> attached st scope = None"
    "scope' \<noteq> scope \<Longrightarrow> attached st1 scope' = attached st scope'"
    "attached st scope' = Some j \<Longrightarrow> ly_objects st1 ! j = ly_objects st ! j"
    "ly_registrations st1 = ly_registrations st" "ly_changes st1 = ly_changes st"
    "tables (ly_objects st1 ! i) s = shown st scope s"
    "created \<Longrightarrow> drop_layer scope st1 = st\<lparr>ly_objects := ly_objects st1, ly_scoped := map_del (the scope) (ly_scoped st1)\<rparr>"
    by blast+
qed

lemma registry_okD:
  assumes "registry_ok st"
  shows "attachments_ok st" "shown st scope s = live st scope s" "distinct (map fst (live st scope s))"
    "r \<in> set (ly_registrations st) \<Longrightarrow> rg_active r \<Longrightarrow> attached st (rg_scope r) = Some (rg_layer r)"
    "attached st (Some k) = Some i \<Longrightarrow> \<not> lk_is_empty kind (ly_objects st ! i)"
  using assms unfolding registry_ok_def by (auto simp: attached_def)

lemma registry_okI:
  assumes "attachments_ok st" "\<And>scope s. shown st scope s = live st scope s"
    "\<And>scope s. distinct (map fst (live st scope s))"
    "\<And>r. r \<in> set (ly_registrations st) \<Longrightarrow> rg_active r \<Longrightarrow> attached st (rg_scope r) = Some (rg_layer r)"
    "\<And>k i. attached st (Some k) = Some i \<Longrightarrow> \<not> lk_is_empty kind (ly_objects st ! i)"
  shows "registry_ok st"
  using assms unfolding registry_ok_def by (auto simp: attached_def)

text \<open>A new registration's key is taken only by a live one of the same name or cell.\<close>

lemma put_decides:
  assumes "registry_ok st" "tables l (slot c) = live st scope (slot c)"
  shows "(case lk_put kind (length (ly_registrations st)) c l of
      Inl e \<Rightarrow> map_has (live st scope (slot c)) (key (length (ly_registrations st)) c)
    | Inr l' \<Rightarrow> key (length (ly_registrations st)) c \<notin> fst ` set (live st scope (slot c))
        \<and> (\<forall>s. tables l' s = (if s = slot c then tables l s @ [(key (length (ly_registrations st)) c, c)] else tables l s)))"
proof -
  let ?n = "length (ly_registrations st)"
  have absent: "key ?n c \<notin> fst ` set (live st scope (slot c))" if "numbered c"
  proof
    assume "key ?n c \<in> fst ` set (live st scope (slot c))"
    then obtain d where "(key ?n c, d) \<in> set (live st scope (slot c))" by auto
    then obtain m where "m < ?n" "key ?n c = key m d" "slot d = slot c"
      using listed_member [of "key ?n c" d 0 "ly_registrations st" scope "slot c"] by (auto simp: live_listed)
    then show False using numbered_key [OF that, of d ?n m] by simp
  qed
  show ?thesis
  proof (cases "map_has (live st scope (slot c)) (key ?n c)")
    case True
    moreover have "key ?n c \<in> fst ` set (live st scope (slot c))"
      using True by (meson map_of_eq_None_iff)
    then have "\<not> numbered c" using absent by blast
    ultimately obtain e where "lk_put kind ?n c l = Inl e" using put_taken assms(2) by metis
    then show ?thesis using True by simp
  next
    case False
    moreover obtain l' where "lk_put kind ?n c l = Inr l'"
      "\<forall>s. tables l' s = (if s = slot c then tables l s @ [(key ?n c, c)] else tables l s)"
      using put_tables [of l c ?n] False assms(2) by auto
    ultimately show ?thesis by (auto simp: map_of_eq_None_iff)
  qed
qed

lemma register_keeps:
  assumes ok: "registry_ok st" and run: "register_effect kind scope notify c st = (out, st')"
  shows "registry_ok st'"
proof -
  let ?n = "length (ly_registrations st)"
  obtain i created st1 where lf: "layer_for kind scope st = (i, created, st1)" by (cases "layer_for kind scope st")
  note at = layer_for_ok [OF registry_okD(1) [OF ok] lf]
  let ?l = "ly_objects st1 ! i"
  have tab: "tables ?l s = live st scope s" for s using at(8) registry_okD(2) [OF ok] by simp
  note put = put_decides [OF ok tab [of "slot c"]]
  show ?thesis
  proof (cases "lk_put kind ?n c ?l")
    case (Inl e)
    then have has: "map_has (live st scope (slot c)) (key ?n c)" using put by simp
    then have "shown st scope (slot c) \<noteq> []" using registry_okD(2) [OF ok] by auto
    then have "\<not> created" using at(3) by (auto simp: shown_attached)
    then have "st' = st1" using run lf Inl by (simp add: register_effect_def Let_def)
    moreover have "st1 = st" using lf \<open>\<not> created\<close> by (auto simp: layer_for_def split: option.splits)
    ultimately show ?thesis using ok by simp
  next
    case (Inr l')
    let ?r = "\<lparr>rg_scope = scope, rg_layer = i, rg_content = c, rg_notify = notify, rg_active = True\<rparr>"
    have st': "st' = st1\<lparr>ly_objects := (ly_objects st1)[i := l'], ly_registrations := ly_registrations st @ [?r],
        ly_changes := ly_changes st1 + (if notify then 1 else 0)\<rparr>"
      using run lf Inr at(6) by (simp add: register_effect_def Let_def)
    have absent: "key ?n c \<notin> fst ` set (live st scope (slot c))"
      and tab': "tables l' s = (if s = slot c then live st scope s @ [(key ?n c, c)] else live st scope s)" for s
      using put Inr tab by auto
    have att: "attached st' scope' = attached st1 scope'" for scope'
      by (simp add: st' attached_def split: option.split)
    have att_old: "attached st scope' = Some j \<Longrightarrow> attached st1 scope' = Some j" for scope' j
      using at(2,4) lf by (cases "scope' = scope") (auto simp: layer_for_def attached_def split: option.splits)
    have ok': "attachments_ok st'"
      using attachments_same [of st' st1] at(1) by (simp add: st')
    have live': "live st' scope' s = live st scope' s @ (if scope' = scope \<and> s = slot c then [(key ?n c, c)] else [])" for scope' s
      by (auto simp: live_listed st' listed_append listed_Cons)
    have there: "ly_objects st' ! i = l'" using attached_bound [OF at(1) at(2)] by (simp add: st')
    have other: "ly_objects st' ! j = ly_objects st ! j" "attached st scope' = Some j"
      if "attached st1 scope' = Some j" "scope' \<noteq> scope" for scope' j
    proof -
      show "attached st scope' = Some j" using that at(4) by simp
      then have "ly_objects st1 ! j = ly_objects st ! j" by (rule at(5))
      moreover have "j \<noteq> i" using attached_inj [OF at(1) that(1), of scope] at(2) that(2) by auto
      ultimately show "ly_objects st' ! j = ly_objects st ! j" by (simp add: st')
    qed
    show ?thesis
    proof (rule registry_okI [OF ok'])
      show "shown st' scope' s = live st' scope' s" for scope' s
      proof (cases "scope' = scope")
        case True
        then show ?thesis by (simp add: shown_attached att at(2) there tab' live')
      next
        case False
        have "shown st' scope' s = shown st scope' s"
        proof (cases "attached st1 scope'")
          case None
          then show ?thesis using at(4) [OF False] by (simp add: shown_attached att)
        next
          case (Some j)
          from other [OF this False] Some show ?thesis by (simp add: shown_attached att)
        qed
        then show ?thesis using False registry_okD(2) [OF ok] by (simp add: live')
      qed
      show "distinct (map fst (live st' scope' s))" for scope' s
        using registry_okD(3) [OF ok] absent by (auto simp: live')
      show "attached st' (rg_scope r) = Some (rg_layer r)" if "r \<in> set (ly_registrations st')" "rg_active r" for r
        using that registry_okD(4) [OF ok, of r] att_old at(2) by (auto simp: att) (auto simp: st')
      show "\<not> lk_is_empty kind (ly_objects st' ! j)" if "attached st' (Some k) = Some j" for k j
      proof (cases "Some k = scope")
        case True
        then have "j = i" using that at(2) by (simp add: att)
        moreover have "tables l' (slot c) \<noteq> []" using tab' [of "slot c"] by simp
        ultimately show ?thesis by (simp add: is_empty_tables there) blast
      next
        case False
        with that other [of "Some k" j] registry_okD(5) [OF ok, of k j] show ?thesis by (simp add: att)
      qed
    qed
  qed
qed

lemma undo_keeps:
  assumes ok: "registry_ok st" and number: "number < length (ly_registrations st)" "rg_active (ly_registrations st ! number)"
    and st': "st' = run_undo kind number st" and r: "r = ly_registrations st ! number"
  shows "attachments_ok st'" "ly_scoped st' = ly_scoped st" "attached st (rg_scope r) = Some (rg_layer r)"
    "shown st' scope s = live st' scope s" "distinct (map fst (live st' scope s))"
    "r' \<in> set (ly_registrations st') \<Longrightarrow> rg_active r' \<Longrightarrow> attached st' (rg_scope r') = Some (rg_layer r') \<and> r' \<in> set (ly_registrations st)"
    "attached st' (Some k) = Some j \<Longrightarrow> Some k \<noteq> rg_scope r \<Longrightarrow> \<not> lk_is_empty kind (ly_objects st' ! j)"
proof -
  let ?l' = "lk_undo kind number (rg_content r) (ly_objects st ! rg_layer r)"
  have run: "st' = st\<lparr>ly_objects := (ly_objects st)[rg_layer r := ?l'],
      ly_registrations := (ly_registrations st)[number := r\<lparr>rg_active := False\<rparr>]\<rparr>"
    using number(2) unfolding st' r by (simp add: run_undo_def Let_def)
  show scoped: "ly_scoped st' = ly_scoped st" by (simp add: run)
  have att: "attached st' scope = attached st scope" for scope
    by (simp add: run attached_def split: option.split)
  show here: "attached st (rg_scope r) = Some (rg_layer r)"
    using registry_okD(4) [OF ok] number by (simp add: r)
  note bound = attached_bound [OF registry_okD(1) [OF ok]]
  show ok': "attachments_ok st'"
    using attachments_same [of st' st] registry_okD(1) [OF ok] by (simp add: run)
  have live': "live st' scope s = (if scope = rg_scope r \<and> s = slot (rg_content r)
      then map_del (key number (rg_content r)) (live st scope s) else live st scope s)" for scope s
    using live_deactivated [OF number, of scope s] registry_okD(3) [OF ok] by (simp add: live_listed run r)
  show "distinct (map fst (live st' scope s))"
    using registry_okD(3) [OF ok] by (simp add: live' map_del_distinct)
  have other: "ly_objects st' ! j = ly_objects st ! j" if "attached st scope = Some j" "scope \<noteq> rg_scope r" for scope j
  proof -
    have "rg_layer r \<noteq> j" using attached_inj [OF registry_okD(1) [OF ok] that(1), of "rg_scope r"] here that(2) by auto
    then show ?thesis by (simp add: run)
  qed
  show "shown st' scope s = live st' scope s"
  proof (cases "scope = rg_scope r")
    case True
    have "ly_objects st' ! rg_layer r = ?l'" using bound [OF here] by (simp add: run)
    moreover have "tables (ly_objects st ! rg_layer r) s = live st scope s"
      using registry_okD(2) [OF ok, of scope s] here True by (simp add: shown_attached)
    ultimately show ?thesis using True here by (auto simp: shown_attached att undo_tables live')
  next
    case False
    have "shown st' scope s = shown st scope s"
      using other [OF _ False] by (cases "attached st scope") (simp_all add: shown_attached att)
    then show ?thesis using False registry_okD(2) [OF ok] by (simp add: live')
  qed
  show "attached st' (rg_scope r') = Some (rg_layer r') \<and> r' \<in> set (ly_registrations st)"
    if "r' \<in> set (ly_registrations st')" "rg_active r'"
  proof -
    have "r' \<in> set (ly_registrations st)"
      using that by (auto simp: run dest: set_update_subset_insert [THEN subsetD])
    then show ?thesis using registry_okD(4) [OF ok _ that(2)] by (simp add: att)
  qed
  show "\<not> lk_is_empty kind (ly_objects st' ! j)" if "attached st' (Some k) = Some j" "Some k \<noteq> rg_scope r"
    using that other [of "Some k" j] registry_okD(5) [OF ok, of k j] by (simp add: att)
qed

text \<open>A fact of the lists: deactivating leaves no other active record equal to the deactivated one's
  scope and layer unaccounted; when its layer is empty, no active registration is left in the scope.\<close>

lemma empty_layer_unused:
  assumes "shown st scope s = live st scope s" "attached st scope = Some i" "lk_is_empty kind (ly_objects st ! i)"
    and "r \<in> set (ly_registrations st)" "rg_active r" "rg_scope r = scope" "s = slot (rg_content r)"
  shows False
proof -
  have "live st scope s = []" using assms(1-3) by (simp add: shown_attached is_empty_tables)
  moreover obtain n where "n < length (ly_registrations st)" "ly_registrations st ! n = r"
    using assms(4) by (auto simp: in_set_conv_nth)
  then have "(n, r) \<in> set (List.enumerate 0 (ly_registrations st))" by (simp add: in_set_enumerate_eq)
  then have "(key n (rg_content r), rg_content r) \<in> set (live st scope s)"
    using assms(5-7) by (force simp: live_def)
  ultimately show False by simp
qed

lemma cleanup_keeps:
  assumes ok: "registry_ok st" and number: "number < length (ly_registrations st)" "rg_active (ly_registrations st ! number)"
  shows "registry_ok (run_cleanup kind number st)"
proof -
  let ?r = "ly_registrations st ! number" and ?st1 = "run_undo kind number st"
  note undone = undo_keeps [OF ok number refl refl]
  define st2 where "st2 = (if lk_is_empty kind (ly_objects ?st1 ! rg_layer ?r) then drop_layer (rg_scope ?r) ?st1 else ?st1)"
  have "registry_ok st2"
  proof (cases "lk_is_empty kind (ly_objects ?st1 ! rg_layer ?r) \<and> rg_scope ?r \<noteq> None")
    case True
    then obtain k where k: "rg_scope ?r = Some k" by auto
    have st2: "st2 = ?st1\<lparr>ly_scoped := map_del k (ly_scoped ?st1)\<rparr>"
      using True k by (simp add: st2_def drop_layer_def)
    have att: "attached st2 scope = (if scope = Some k then None else attached ?st1 scope)" for scope
      by (cases scope) (auto simp: st2 attached_def)
    have here: "attached ?st1 (Some k) = Some (rg_layer ?r)"
      using undone(2,3) k by (simp add: attached_def)
    have live: "live st2 scope s = live ?st1 scope s" for scope s by (simp add: live_def st2)
    have objs: "ly_objects st2 = ly_objects ?st1" by (simp add: st2)
    show ?thesis
    proof (rule registry_okI)
      show "attachments_ok st2"
      proof (rule attachments_okI)
        show "ly_objects st2 \<noteq> []" using undone(1) by (simp add: st2 attachments_ok_def)
        show "i < length (ly_objects st2)" if "attached st2 scope = Some i" for scope i
          using that attached_bound [OF undone(1), of scope i] unfolding att by (simp add: st2 split: if_splits)
        show "a = b" if "attached st2 a = Some i" "attached st2 b = Some i" for a b i
          using that attached_inj [OF undone(1), of a i b] unfolding att by (simp split: if_splits)
      qed
      show "shown st2 scope s = live st2 scope s" for scope s
      proof (cases "scope = Some k")
        case True
        have "live ?st1 (Some k) s = []"
          using undone(4) [of "Some k" s] here \<open>_ \<and> _\<close> by (simp add: shown_attached is_empty_tables)
        then show ?thesis using True by (simp add: shown_attached att live)
      next
        case False
        then show ?thesis using undone(4) [of scope s] by (cases "attached ?st1 scope") (simp_all add: shown_attached att live objs)
      qed
      show "distinct (map fst (live st2 scope s))" for scope s using undone(5) by (simp add: live)
      show "attached st2 (rg_scope r') = Some (rg_layer r')" if "r' \<in> set (ly_registrations st2)" "rg_active r'" for r'
      proof -
        have in1: "r' \<in> set (ly_registrations ?st1)" using that(1) by (simp add: st2)
        have "lk_is_empty kind (ly_objects ?st1 ! rg_layer ?r)" using True by simp
        then have "rg_scope r' \<noteq> Some k"
          using empty_layer_unused [OF undone(4) here _ in1 that(2)] by blast
        then show ?thesis using undone(6) [OF in1 that(2)] by (simp add: att)
      qed
      show "\<not> lk_is_empty kind (ly_objects st2 ! j)" if "attached st2 (Some k') = Some j" for k' j
        using that undone(7) [of k' j] k by (auto simp: att objs split: if_splits)
    qed
  next
    case False
    then have st2: "st2 = ?st1" by (auto simp: st2_def drop_layer_def split: option.split)
    show ?thesis unfolding st2
    proof (rule registry_okI [OF undone(1) undone(4) undone(5)])
      show "attached ?st1 (rg_scope r') = Some (rg_layer r')" if "r' \<in> set (ly_registrations ?st1)" "rg_active r'" for r'
        using undone(6) [OF that] by simp
      show "\<not> lk_is_empty kind (ly_objects ?st1 ! j)" if at: "attached ?st1 (Some k) = Some j" for k j
      proof (cases "Some k = rg_scope ?r")
        case True
        then have "j = rg_layer ?r" using at undone(2,3) by (simp add: attached_def split: option.splits)
        then show ?thesis using False True by auto
      qed (rule undone(7) [OF at])
    qed
  qed
  moreover have "run_cleanup kind number st = st2\<lparr>ly_changes := ly_changes st2 + (if rg_notify ?r then 1 else 0)\<rparr>"
    by (simp add: run_cleanup_def st2_def Let_def)
  moreover have "registry_ok (st2\<lparr>ly_changes := n\<rparr>) = registry_ok st2" for n
  proof -
    have "attached (st2\<lparr>ly_changes := n\<rparr>) = attached st2"
      by (intro ext) (simp add: attached_def split: option.split)
    moreover from this have "shown (st2\<lparr>ly_changes := n\<rparr>) = shown st2"
      by (intro ext) (simp add: shown_attached split: option.split)
    moreover have "live (st2\<lparr>ly_changes := n\<rparr>) = live st2" by (intro ext) (simp add: live_def)
    ultimately show ?thesis by (simp add: registry_ok_def attachments_ok_def)
  qed
  ultimately show ?thesis by simp
qed

text \<open>What an operation changes in the live registrations.\<close>

lemma layer_for_registrations: "layer_for kind scope st = (i, created, st1) \<Longrightarrow> ly_registrations st1 = ly_registrations st"
  by (auto simp: layer_for_def split: option.splits)

lemma register_live:
  assumes "register_effect kind scope notify c st = (Inr n, st')"
  shows "live st' scope' s = live st scope' s @ (if scope' = scope \<and> s = slot c then [(key n c, c)] else [])"
    "n = length (ly_registrations st)"
proof -
  obtain i created st1 where lf: "layer_for kind scope st = (i, created, st1)" by (cases "layer_for kind scope st")
  have "n = length (ly_registrations st) \<and> ly_registrations st' = ly_registrations st
      @ [\<lparr>rg_scope = scope, rg_layer = i, rg_content = c, rg_notify = notify, rg_active = True\<rparr>]"
    using assms lf layer_for_registrations [OF lf] by (auto simp: register_effect_def Let_def split: sum.splits)
  then show "live st' scope' s = live st scope' s @ (if scope' = scope \<and> s = slot c then [(key n c, c)] else [])"
    "n = length (ly_registrations st)"
    by (auto simp: live_listed listed_append listed_Cons)
qed

lemma register_refused:
  assumes "register_effect kind scope notify c st = (Inl e, st')"
  shows "live st' = live st"
proof -
  obtain i created st1 where lf: "layer_for kind scope st = (i, created, st1)" by (cases "layer_for kind scope st")
  have "ly_registrations st' = ly_registrations st"
    using assms lf layer_for_registrations [OF lf]
    by (auto simp: register_effect_def Let_def drop_layer_def split: sum.splits if_splits option.splits)
  then show ?thesis by (intro ext) (simp add: live_listed)
qed

text \<open>The registry shows exactly its live registrations.\<close>

lemma reach_registry_ok: "layers_reach kind st \<Longrightarrow> registry_ok st"
  by (induction rule: layers_reach.induct) (auto intro: new_registry_ok register_keeps cleanup_keeps)

lemma registry_shows_live: "layers_reach kind st \<Longrightarrow> shown st scope s = live st scope s"
  by (rule registry_okD(2) [OF reach_registry_ok])

lemma registry_keys_distinct: "layers_reach kind st \<Longrightarrow> distinct (map fst (shown st scope s))"
  using registry_okD(3) [OF reach_registry_ok] by (simp add: registry_shows_live)

lemma registry_reclaims:
  assumes "layers_reach kind st" "\<And>s. live st (Some k) s = []"
  shows "peek_layer st (Some k) = None"
proof (cases "map_get (ly_scoped st) k")
  case (Some i)
  then have "attached st (Some k) = Some i" by (simp add: attached_def)
  moreover have "tables (ly_objects st ! i) s = []" for s
    using registry_shows_live [OF assms(1), of "Some k" s] assms(2) calculation by (simp add: shown_attached)
  ultimately show ?thesis
    using registry_okD(5) [OF reach_registry_ok [OF assms(1)], of k i] by (simp add: is_empty_tables)
qed (simp add: peek_layer_def)

end

end
