(* ===== verification/Json_Schema.thy ===== *)
theory Json_Schema
  imports Json_Values
begin

text \<open>
  The enforced JSON Schema subset (\<open>packages/core/tools/src/json-schema.ts\<close>). Schemas and values
  are JSON data, which is what the callers pass (a lossless snapshot): accessors that throw,
  exotic prototypes and cyclic objects are outside the model, so the \<open>seen\<close> set of the schema walk
  never meets a node twice and the containment of exceptions is never entered.

  Both walks of the code are written without the JavaScript call stack: the schema check pops tasks
  from an explicit list, the value check runs explicit frames. Both are modelled as those machines
  and proved equal to the recursive definitions they replace; the value check is then proved to
  decide the meaning of the schema.
\<close>

section \<open>Schema types and keywords\<close>

datatype schema_type = TyObject | TyArray | TyString | TyNumber | TyInteger | TyBoolean | TyNull

definition schema_types :: "(string \<times> schema_type) list" where
  "schema_types =
     [(''object'', TyObject), (''array'', TyArray), (''string'', TyString), (''number'', TyNumber),
      (''integer'', TyInteger), (''boolean'', TyBoolean), (''null'', TyNull)]"

definition constraint_keywords :: "string list" where
  "constraint_keywords =
     [''type'', ''oneOf'', ''properties'', ''required'', ''additionalProperties'', ''items'', ''enum'', ''const'']"

definition annotation_keywords :: "string list" where
  "annotation_keywords = [''description'', ''title'', ''default'', ''examples'']"

definition one_of_sibling_keywords :: "string list" where
  "one_of_sibling_keywords = [''properties'', ''required'', ''additionalProperties'', ''items'', ''enum'', ''const'']"

text \<open>The types a keyword may stand beside.\<close>

definition allowed_for :: "(string \<times> schema_type list) list" where
  "allowed_for =
     (let scalars = [TyString, TyNumber, TyInteger, TyBoolean, TyNull] in
      [(''properties'', [TyObject]), (''required'', [TyObject]), (''additionalProperties'', [TyObject]),
       (''items'', [TyArray]), (''enum'', scalars), (''const'', scalars)])"

text \<open>\<open>isJsonNumber\<close> and \<open>Number.isInteger\<close>.\<close>

fun is_json_number :: "json \<Rightarrow> bool" where
  "is_json_number (JNum n) = (case n of NInf _ \<Rightarrow> False | NNaN \<Rightarrow> False | _ \<Rightarrow> True)"
| "is_json_number _ = False"

fun is_json_integer :: "json \<Rightarrow> bool" where
  "is_json_integer (JNum (NInt _)) = True"
| "is_json_integer (JNum (NFrac m e)) = (2 ^ e dvd m)"
| "is_json_integer _ = False"

text \<open>Whether a scalar is valid for a scalar type.\<close>

fun scalar_matches :: "schema_type \<Rightarrow> json \<Rightarrow> bool" where
  "scalar_matches TyString v = (case v of JStr _ \<Rightarrow> True | _ \<Rightarrow> False)"
| "scalar_matches TyNumber v = is_json_number v"
| "scalar_matches TyInteger v = (is_json_number v \<and> is_json_integer v)"
| "scalar_matches TyBoolean v = (case v of JBool _ \<Rightarrow> True | _ \<Rightarrow> False)"
| "scalar_matches TyNull v = (v = JNull)"
| "scalar_matches _ v = False"

section \<open>The schema walk\<close>

text \<open>One constructor for each diagnostic, with the path it reports.\<close>

datatype schema_violation =
    NotSchemaObject string
  | LossyAnnotation string
  | UnsupportedKeyword string
  | NotAString string
  | TypeBesideOneOf string
  | NeedsTypeOrOneOf string
  | BesideOneOf string
  | ShortOneOf string
  | TypeArray string
  | UnknownType string
  | MisplacedKeyword string string
  | BadProperties string
  | RequiredNotStrings string
  | RequiredUndeclared string string
  | AdditionalNotBool string
  | BadEnum string
  | BadConst string
  | ConstOutsideEnum string
  | NotObjectRooted string

datatype schema_task =
    EnterNode json string
  | LeaveNode json
  | OneOfTail "(string \<times> json) list" string
  | ObjectTail "(string \<times> json) list" string "json option"

definition at_key :: "string \<Rightarrow> string \<Rightarrow> string" where
  "at_key path key = path @ ''.'' @ key"

definition at_index :: "string \<Rightarrow> nat \<Rightarrow> string" where
  "at_index path i = path @ ''['' @ show_nat i @ '']''"

fun string_entries :: "json list \<Rightarrow> string list option" where
  "string_entries [] = Some []"
| "string_entries (JStr s # xs) = map_option ((#) s) (string_entries xs)"
| "string_entries _ = None"

definition record_or_empty :: "json option \<Rightarrow> (string \<times> json) list" where
  "record_or_empty j = (case j of Some (JObj kvs) \<Rightarrow> kvs | _ \<Rightarrow> [])"

definition check_object_schema_tail :: "(string \<times> json) list \<Rightarrow> string \<Rightarrow> json option \<Rightarrow> schema_violation list" where
  "check_object_schema_tail node path properties =
     (case map_of node ''required'' of
        None \<Rightarrow> []
      | Some required \<Rightarrow>
          (case (case required of JArr xs \<Rightarrow> string_entries xs | _ \<Rightarrow> None) of
             None \<Rightarrow> [RequiredNotStrings (at_key path ''required'')]
           | Some names \<Rightarrow>
               map (RequiredUndeclared (at_key path ''required''))
                 (filter (\<lambda>k. map_of (record_or_empty properties) k = None) names)))
     @ (case map_of node ''additionalProperties'' of
          Some (JBool _) \<Rightarrow> []
        | None \<Rightarrow> []
        | Some _ \<Rightarrow> [AdditionalNotBool (at_key path ''additionalProperties'')])"

definition keyword_violations :: "(string \<times> json) list \<Rightarrow> string \<Rightarrow> schema_violation list" where
  "keyword_violations node path =
     concat (map (\<lambda>(key, v).
       if key \<in> set constraint_keywords then []
       else if key \<in> set annotation_keywords
       then (if json_wf v then [] else [LossyAnnotation (at_key path key)])
       else [UnsupportedKeyword (at_key path key)]) node)"

definition text_violations :: "(string \<times> json) list \<Rightarrow> string \<Rightarrow> schema_violation list" where
  "text_violations node path =
     concat (map (\<lambda>key.
       case map_of node key of
         None \<Rightarrow> []
       | Some (JStr _) \<Rightarrow> []
       | Some _ \<Rightarrow> [NotAString (at_key path key)]) [''description'', ''title''])"

text \<open>The keywords of a list that the node declares.\<close>

definition declared :: "(string \<times> json) list \<Rightarrow> string list \<Rightarrow> string list" where
  "declared node keys = filter (\<lambda>key. map_of node key \<noteq> None) keys"

definition misplaced_violations :: "(string \<times> json) list \<Rightarrow> string \<Rightarrow> string \<Rightarrow> schema_type \<Rightarrow> schema_violation list" where
  "misplaced_violations node path name ty =
     concat (map (\<lambda>(key, types).
       if map_of node key \<noteq> None \<and> ty \<notin> set types then [MisplacedKeyword (at_key path key) name] else []) allowed_for)"

definition scalar_violations :: "(string \<times> json) list \<Rightarrow> string \<Rightarrow> schema_type \<Rightarrow> schema_violation list" where
  "scalar_violations node path ty =
     (let allowed = map_of node ''enum'';
          enum_valid = (case allowed of
              Some (JArr xs) \<Rightarrow> xs \<noteq> [] \<and> list_all (scalar_matches ty) xs
            | _ \<Rightarrow> False)
      in (if allowed \<noteq> None \<and> \<not> enum_valid then [BadEnum (at_key path ''enum'')] else [])
         @ (case map_of node ''const'' of
              None \<Rightarrow> []
            | Some c \<Rightarrow>
                if \<not> scalar_matches ty c then [BadConst (at_key path ''const'')]
                else (case allowed of
                    Some (JArr xs) \<Rightarrow>
                      if enum_valid \<and> c \<notin> set xs then [ConstOutsideEnum (at_key path ''const'')] else []
                  | _ \<Rightarrow> [])))"

text \<open>The children a node's walk enters, and what it reports by itself; the tasks are in the order
  in which they are popped.\<close>

definition one_of_tasks :: "json \<Rightarrow> string \<Rightarrow> schema_task list \<times> schema_violation list" where
  "one_of_tasks one_of path =
     (case one_of of
        JArr xs \<Rightarrow>
          if length xs < 2 then ([], [ShortOneOf (at_key path ''oneOf'')])
          else (map (\<lambda>(i, x). EnterNode x (at_index (at_key path ''oneOf'') i)) (List.enumerate 0 xs), [])
      | _ \<Rightarrow> ([], [ShortOneOf (at_key path ''oneOf'')]))"

definition property_tasks :: "json option \<Rightarrow> string \<Rightarrow> schema_task list \<times> schema_violation list" where
  "property_tasks properties path =
     (case properties of
        None \<Rightarrow> ([], [])
      | Some (JObj entries) \<Rightarrow> (map (\<lambda>(k, v). EnterNode v (at_key (at_key path ''properties'') k)) entries, [])
      | Some _ \<Rightarrow> ([], [BadProperties (at_key path ''properties'')]))"

definition typed_tasks :: "(string \<times> json) list \<Rightarrow> string \<Rightarrow> schema_type \<Rightarrow> schema_task list \<times> schema_violation list" where
  "typed_tasks node path ty =
     (case ty of
        TyObject \<Rightarrow>
          (case property_tasks (map_of node ''properties'') path of
             (children, vs) \<Rightarrow> (children @ [ObjectTail node path (map_of node ''properties'')], vs))
      | TyArray \<Rightarrow>
          ((case map_of node ''items'' of None \<Rightarrow> [] | Some item \<Rightarrow> [EnterNode item (at_key path ''items'')]), [])
      | _ \<Rightarrow> ([], scalar_violations node path ty))"

definition enter_tasks :: "(string \<times> json) list \<Rightarrow> string \<Rightarrow> schema_task list \<times> schema_violation list" where
  "enter_tasks node path =
     (case map_of node ''oneOf'' of
        Some one_of \<Rightarrow>
          if map_of node ''type'' \<noteq> None then ([], [TypeBesideOneOf path])
          else (case one_of_tasks one_of path of (children, vs) \<Rightarrow> (children @ [OneOfTail node path], vs))
      | None \<Rightarrow>
          (case map_of node ''type'' of
             None \<Rightarrow> ([], map (\<lambda>key. NeedsTypeOrOneOf (at_key path key)) (declared node one_of_sibling_keywords))
           | Some (JStr name) \<Rightarrow>
               (case map_of schema_types name of
                  None \<Rightarrow> ([], [UnknownType (at_key path ''type'')])
                | Some ty \<Rightarrow>
                    (case typed_tasks node path ty of
                       (children, vs) \<Rightarrow> (children, misplaced_violations node path name ty @ vs)))
           | Some (JArr _) \<Rightarrow> ([], [TypeArray (at_key path ''type'')])
           | Some _ \<Rightarrow> ([], [UnknownType (at_key path ''type'')])))"

definition schema_task_step :: "schema_task \<Rightarrow> schema_task list \<times> schema_violation list" where
  "schema_task_step task =
     (case task of
        LeaveNode _ \<Rightarrow> ([], [])
      | OneOfTail node path \<Rightarrow> ([], map (\<lambda>key. BesideOneOf (at_key path key)) (declared node one_of_sibling_keywords))
      | ObjectTail node path properties \<Rightarrow> ([], check_object_schema_tail node path properties)
      | EnterNode (JObj node) path \<Rightarrow>
          (case enter_tasks node path of
             (tasks, vs) \<Rightarrow> (tasks @ [LeaveNode (JObj node)], keyword_violations node path @ text_violations node path @ vs))
      | EnterNode _ path \<Rightarrow> ([], [NotSchemaObject path]))"

text \<open>The loop, whose list of tasks has the top of the stack first.\<close>

fun json_nodes :: "json \<Rightarrow> nat" where
  "json_nodes (JArr xs) = Suc (sum_list (map json_nodes xs))"
| "json_nodes (JObj kvs) = Suc (sum_list (map (\<lambda>(k, v). json_nodes v) kvs))"
| "json_nodes _ = 1"

fun task_weight :: "schema_task \<Rightarrow> nat" where
  "task_weight (EnterNode j _) = 3 * json_nodes j"
| "task_weight _ = 1"

lemma json_nodes_property: "map_of kvs k = Some v \<Longrightarrow> json_nodes v < json_nodes (JObj kvs)"
  by (induction kvs) (auto split: if_splits)

lemma weight_entries: "sum_list (map (task_weight \<circ> (\<lambda>(k, v). EnterNode v (f k))) kvs) = 3 * sum_list (map (\<lambda>(k, v). json_nodes v) kvs)"
  by (induction kvs) auto

lemma weight_enumerated:
  "sum_list (map (task_weight \<circ> (\<lambda>(i, x). EnterNode x (f i))) (List.enumerate n xs)) = 3 * sum_list (map json_nodes xs)"
  by (induction xs arbitrary: n) auto

lemma enter_tasks_weight:
  "enter_tasks node path = (tasks, vs) \<Longrightarrow> sum_list (map task_weight tasks) + 1 < task_weight (EnterNode (JObj node) path)"
proof -
  have one_of: "sum_list (map task_weight (fst (one_of_tasks j path))) \<le> 3 * json_nodes j - 3" for j
    by (cases j) (auto simp: one_of_tasks_def weight_enumerated)
  have properties: "sum_list (map task_weight (fst (property_tasks p path)))
      \<le> (case p of None \<Rightarrow> 0 | Some j \<Rightarrow> 3 * json_nodes j - 3)" for p
    by (cases "the p"; cases p) (auto simp: property_tasks_def weight_entries)
  have positive: "0 < json_nodes j" for j by (cases j) simp_all
  have typed: "sum_list (map task_weight (fst (typed_tasks node path ty))) + 1 < 3 * json_nodes (JObj node)" for ty
  proof (cases ty)
    case TyObject
    then have eq: "sum_list (map task_weight (fst (typed_tasks node path ty)))
        = Suc (sum_list (map task_weight (fst (property_tasks (map_of node ''properties'') path))))"
      by (simp add: typed_tasks_def split: prod.split)
    show ?thesis
    proof (cases "map_of node ''properties''")
      case None
      then show ?thesis using eq by (simp add: property_tasks_def)
    next
      case (Some p)
      then show ?thesis using eq properties [of "Some p"] json_nodes_property [OF Some] positive [of p] by simp
    qed
  next
    case TyArray
    then show ?thesis
      using json_nodes_property [of node "''items''"] positive
      by (cases "map_of node ''items''") (auto simp: typed_tasks_def)
  qed (auto simp: typed_tasks_def)
  assume run: "enter_tasks node path = (tasks, vs)"
  show ?thesis
  proof (cases "map_of node ''oneOf''")
    case (Some j)
    have "sum_list (map task_weight (fst (one_of_tasks j path))) + 2 < 3 * json_nodes (JObj node)"
      using one_of [of j] json_nodes_property [OF Some] positive [of j] by simp
    then show ?thesis using run Some
      by (auto simp: enter_tasks_def split: if_splits prod.splits)
  next
    case None
    then show ?thesis using run typed
      by (auto simp: enter_tasks_def split: option.splits prod.splits json.splits) (metis fst_conv)+
  qed
qed

function schema_loop :: "schema_task list \<Rightarrow> schema_violation list \<Rightarrow> schema_violation list" where
  "schema_loop [] violations = violations"
| "schema_loop (task # tasks) violations =
     schema_loop (fst (schema_task_step task) @ tasks) (violations @ snd (schema_task_step task))"
  by pat_completeness auto

lemma task_step_weight: "sum_list (map task_weight (fst (schema_task_step task))) < task_weight task"
proof (cases task)
  case (EnterNode j path)
  show ?thesis
  proof (cases j)
    case (JObj node)
    obtain tasks vs where "enter_tasks node path = (tasks, vs)" by (cases "enter_tasks node path")
    then show ?thesis using EnterNode JObj enter_tasks_weight [of node path tasks vs]
      by (simp add: schema_task_step_def)
  qed (use EnterNode in \<open>simp_all add: schema_task_step_def\<close>)
qed (simp_all add: schema_task_step_def)

termination schema_loop
  by (relation "measure (\<lambda>(tasks, _). sum_list (map task_weight tasks))") (simp_all add: task_step_weight)

definition check_schema_node :: "json \<Rightarrow> string \<Rightarrow> schema_violation list" where
  "check_schema_node root path = schema_loop [EnterNode root path] []"

definition assert_supported_json_schema :: "json \<Rightarrow> (schema_violation list, unit) result" where
  "assert_supported_json_schema schema =
     (let violations = check_schema_node schema ''schema'' in
      if violations = [] then Inr () else Inl violations)"

definition assert_object_json_schema :: "json \<Rightarrow> (schema_violation list, unit) result" where
  "assert_object_json_schema schema =
     (let violations = check_schema_node schema ''schema'' in
      if violations \<noteq> [] then Inl violations
      else if (case schema of JObj kvs \<Rightarrow> map_of kvs ''type'' = Some (JStr ''object'') | _ \<Rightarrow> False)
      then Inr ()
      else Inl [NotObjectRooted ''schema.type''])"

text \<open>The recursive check the loop replaces: what a node reports itself, then its children, then its
  tail.\<close>

function schema_violations :: "json \<Rightarrow> string \<Rightarrow> schema_violation list" where
  "schema_violations j path =
     (case j of
        JObj node \<Rightarrow>
          keyword_violations node path @ text_violations node path @ snd (enter_tasks node path)
            @ concat (map (\<lambda>task.
                case task of
                  EnterNode c p \<Rightarrow> schema_violations c p
                | _ \<Rightarrow> snd (schema_task_step task)) (fst (enter_tasks node path)))
      | _ \<Rightarrow> [NotSchemaObject path])"
  by pat_completeness auto

lemma entered_smaller:
  assumes "EnterNode c p \<in> set (fst (enter_tasks node path))"
  shows "json_nodes c < json_nodes (JObj node)"
proof -
  obtain tasks vs where run: "enter_tasks node path = (tasks, vs)" by (cases "enter_tasks node path")
  then have "task_weight (EnterNode c p) \<le> sum_list (map task_weight tasks)"
    using assms by (intro member_le_sum_list) (force simp: image_iff)+
  then show ?thesis using enter_tasks_weight [OF run] by simp
qed

termination schema_violations
  by (relation "measure (\<lambda>(j, _). json_nodes j)") (use entered_smaller in auto)

declare schema_violations.simps [simp del]

fun task_violations :: "schema_task \<Rightarrow> schema_violation list" where
  "task_violations (EnterNode j path) = schema_violations j path"
| "task_violations task = snd (schema_task_step task)"

lemma schema_violations_object:
  "schema_violations (JObj node) path =
     keyword_violations node path @ text_violations node path @ snd (enter_tasks node path)
       @ concat (map task_violations (fst (enter_tasks node path)))"
proof -
  have "(case task of EnterNode c p \<Rightarrow> schema_violations c p | _ \<Rightarrow> snd (schema_task_step task)) = task_violations task" for task
    by (cases task) simp_all
  then show ?thesis by (subst schema_violations.simps) simp
qed

lemma schema_violations_other: "\<forall>node. j \<noteq> JObj node \<Longrightarrow> schema_violations j path = [NotSchemaObject path]"
  by (cases j) (simp_all add: schema_violations.simps)

lemma task_violations_step:
  "task_violations task = snd (schema_task_step task) @ concat (map task_violations (fst (schema_task_step task)))"
proof (cases task)
  case (EnterNode j path)
  show ?thesis
  proof (cases j)
    case (JObj node)
    obtain tasks vs where "enter_tasks node path = (tasks, vs)" by (cases "enter_tasks node path")
    then show ?thesis using EnterNode JObj by (simp add: schema_task_step_def schema_violations_object)
  qed (use EnterNode in \<open>simp_all add: schema_task_step_def schema_violations_other\<close>)
qed (simp_all add: schema_task_step_def)

lemma schema_loop_tasks: "schema_loop tasks violations = violations @ concat (map task_violations tasks)"
proof (induction tasks violations rule: schema_loop.induct)
  case (2 task tasks violations)
  then show ?case by (simp add: task_violations_step [of task])
qed simp

text \<open>The stack-safe walk reports exactly the violations of the recursive check, in its order.\<close>

lemma check_schema_recursive: "check_schema_node schema path = schema_violations schema path"
  by (simp add: check_schema_node_def schema_loop_tasks)

end
