(* ===== verification/Json_Validation.thy ===== *)
theory Json_Validation
  imports Json_Schema
begin

text \<open>
  Validation of a value against an asserted schema (\<open>checkValue\<close> of
  \<open>packages/core/tools/src/json-schema.ts\<close>): the machine of explicit frames, the recursive check it
  replaces, and the meaning of a schema, which the check decides.
\<close>

section \<open>Schema nodes\<close>

text \<open>\<open>JsonSchemaNode\<close>, the reading of a raw schema after its assertion; annotations play no part.\<close>

datatype schema_node =
  SchemaNode
    (sn_type: "schema_type option")
    (sn_one_of: "schema_node list option")
    (sn_properties: "(string \<times> schema_node) list option")
    (sn_required: "string list option")
    (sn_additional: "bool option")
    (sn_items: "schema_node option")
    (sn_enum: "json list option")
    (sn_const: "json option")

function node_of_json :: "json \<Rightarrow> schema_node" where
  "node_of_json j =
     (let kvs = record_or_empty (Some j) in
      SchemaNode
        (case map_of kvs ''type'' of Some (JStr name) \<Rightarrow> map_of schema_types name | _ \<Rightarrow> None)
        (case map_of kvs ''oneOf'' of Some (JArr xs) \<Rightarrow> Some (map node_of_json xs) | _ \<Rightarrow> None)
        (case map_of kvs ''properties'' of Some (JObj ps) \<Rightarrow> Some (map (\<lambda>(k, v). (k, node_of_json v)) ps) | _ \<Rightarrow> None)
        (case map_of kvs ''required'' of Some (JArr xs) \<Rightarrow> string_entries xs | _ \<Rightarrow> None)
        (case map_of kvs ''additionalProperties'' of Some (JBool b) \<Rightarrow> Some b | _ \<Rightarrow> None)
        (case map_of kvs ''items'' of Some v \<Rightarrow> Some (node_of_json v) | None \<Rightarrow> None)
        (case map_of kvs ''enum'' of Some (JArr xs) \<Rightarrow> Some xs | _ \<Rightarrow> None)
        (map_of kvs ''const''))"
  by pat_completeness auto

lemma record_or_empty_nodes:
  assumes "map_of (record_or_empty (Some j)) k = Some v"
  shows "json_nodes v < json_nodes j"
proof (cases j)
  case (JObj kvs)
  then show ?thesis using assms json_nodes_property [of kvs k v] by (simp add: record_or_empty_def)
qed (use assms in \<open>simp_all add: record_or_empty_def\<close>)

lemma json_nodes_element: "x \<in> set xs \<Longrightarrow> json_nodes x < json_nodes (JArr xs)"
  by (induction xs) auto

lemma json_nodes_entry: "(k, v) \<in> set kvs \<Longrightarrow> json_nodes v < json_nodes (JObj kvs)"
  by (induction kvs) auto

termination node_of_json
proof (relation "measure json_nodes", goal_cases)
  case 1
  show ?case by simp
qed (auto dest!: record_or_empty_nodes intro: json_nodes_entry json_nodes_element less_trans)

declare node_of_json.simps [simp del]

section \<open>Frames\<close>

datatype value_violation =
    NotLossless string
  | LossyObject string
  | LossyArray string
  | BranchMismatch string nat
  | NotOfType schema_type string
  | NotFiniteNumber string
  | NotInEnum string "json list"
  | NotConst string json
  | MissingProperty string
  | UndeclaredProperty string

definition diagnostic_path :: "string \<Rightarrow> string" where
  "diagnostic_path path = (if path = '''' then ''arguments'' else path)"

definition property_path :: "string \<Rightarrow> string \<Rightarrow> string" where
  "property_path path key = (if path = '''' then key else at_key path key)"

record value_child =
  vc_node :: schema_node
  vc_value :: json
  vc_path :: string

datatype frame_kind = OneOfFrame | ObjectFrame | ArrayFrame

text \<open>A frame is in its children phase exactly when it has a kind.\<close>

record value_frame =
  vf_node :: schema_node
  vf_value :: json
  vf_path :: string
  vf_kind :: "frame_kind option"
  vf_children :: "value_child list"
  vf_index :: nat
  vf_violations :: "value_violation list"
  vf_tail :: "value_violation list"
  vf_matches :: nat

definition new_frame :: "schema_node \<Rightarrow> json \<Rightarrow> string \<Rightarrow> value_frame" where
  "new_frame node v path =
     \<lparr>vf_node = node, vf_value = v, vf_path = path, vf_kind = None, vf_children = [], vf_index = 0,
      vf_violations = [], vf_tail = [], vf_matches = 0\<rparr>"

definition check_scalar_value :: "schema_node \<Rightarrow> json \<Rightarrow> string \<Rightarrow> value_violation list" where
  "check_scalar_value node v path =
     (case (case sn_enum node of Some allowed \<Rightarrow> if v \<notin> set allowed then Some allowed else None | None \<Rightarrow> None) of
        Some allowed \<Rightarrow> [NotInEnum (diagnostic_path path) allowed]
      | None \<Rightarrow>
          (case sn_const node of
             Some c \<Rightarrow> if v \<noteq> c then [NotConst (diagnostic_path path) c] else []
           | None \<Rightarrow> []))"

text \<open>What the start phase of a frame does: it finishes with a result, or becomes a container of
  children with its own violations and those that follow its children's.\<close>

datatype frame_start =
    Finish "value_violation list"
  | Expand frame_kind "value_child list" "value_violation list" "value_violation list"

definition start_object :: "schema_node \<Rightarrow> (string \<times> json) list \<Rightarrow> string \<Rightarrow> frame_start" where
  "start_object node kvs path =
     (let properties = (case sn_properties node of Some ps \<Rightarrow> ps | None \<Rightarrow> []);
          required = (case sn_required node of Some ks \<Rightarrow> ks | None \<Rightarrow> [])
      in Expand ObjectFrame
           (List.map_filter (\<lambda>(key, child).
              case map_of kvs key of
                None \<Rightarrow> None
              | Some v \<Rightarrow> Some \<lparr>vc_node = child, vc_value = v, vc_path = property_path path key\<rparr>) properties)
           (map (\<lambda>key. MissingProperty (property_path path key)) (filter (\<lambda>key. map_of kvs key = None) required))
           (if sn_additional node = Some False
            then map (\<lambda>key. UndeclaredProperty (property_path path key))
                   (filter (\<lambda>key. map_of properties key = None) (map fst kvs))
            else []))"

definition start_array :: "schema_node \<Rightarrow> json list \<Rightarrow> string \<Rightarrow> frame_start" where
  "start_array node xs path =
     Expand ArrayFrame
       (case sn_items node of
          None \<Rightarrow> []
        | Some items \<Rightarrow>
            map (\<lambda>(i, x). \<lparr>vc_node = items, vc_value = x, vc_path = at_index path i\<rparr>) (List.enumerate 0 xs))
       [] []"

definition start_typed :: "schema_node \<Rightarrow> schema_type \<Rightarrow> json \<Rightarrow> string \<Rightarrow> frame_start" where
  "start_typed node ty v path =
     (case ty of
        TyObject \<Rightarrow>
          (case v of JObj kvs \<Rightarrow> start_object node kvs path | _ \<Rightarrow> Finish [NotOfType TyObject (diagnostic_path path)])
      | TyArray \<Rightarrow>
          (case v of JArr xs \<Rightarrow> start_array node xs path | _ \<Rightarrow> Finish [NotOfType TyArray (diagnostic_path path)])
      | TyNumber \<Rightarrow>
          (case v of
             JNum _ \<Rightarrow>
               if \<not> is_json_number v then Finish [NotFiniteNumber (diagnostic_path path)]
               else Finish (check_scalar_value node v path)
           | _ \<Rightarrow> Finish [NotOfType TyNumber (diagnostic_path path)])
      | _ \<Rightarrow>
          if scalar_matches ty v then Finish (check_scalar_value node v path)
          else Finish [NotOfType ty (diagnostic_path path)])"

definition start_value :: "schema_node \<Rightarrow> json \<Rightarrow> string \<Rightarrow> frame_start" where
  "start_value node v path =
     (case sn_one_of node of
        Some branches \<Rightarrow>
          Expand OneOfFrame (map (\<lambda>b. \<lparr>vc_node = b, vc_value = v, vc_path = path\<rparr>) branches) [] []
      | None \<Rightarrow>
          (case sn_type node of
             None \<Rightarrow> Finish (if json_wf v then [] else [NotLossless (diagnostic_path path)])
           | Some ty \<Rightarrow> start_typed node ty v path))"

text \<open>The result of a frame whose children are done.\<close>

definition container_result :: "frame_kind \<Rightarrow> json \<Rightarrow> string \<Rightarrow> value_violation list \<Rightarrow> nat \<Rightarrow> value_violation list" where
  "container_result kind v path violations matches =
     (case kind of
        OneOfFrame \<Rightarrow> if matches = 1 then [] else [BranchMismatch (diagnostic_path path) matches]
      | ObjectFrame \<Rightarrow>
          if violations \<noteq> [] then violations else if json_wf v then [] else [LossyObject (diagnostic_path path)]
      | ArrayFrame \<Rightarrow>
          if violations \<noteq> [] then violations else if json_wf v then [] else [LossyArray (diagnostic_path path)])"

definition received :: "value_violation list \<Rightarrow> value_frame \<Rightarrow> value_frame" where
  "received res f =
     (if vf_kind f = Some OneOfFrame
      then (if res = [] then f\<lparr>vf_matches := vf_matches f + 1\<rparr> else f)
      else f\<lparr>vf_violations := vf_violations f @ res\<rparr>)"

text \<open>\<open>finish\<close>: pop the frame and hand its result to the parent, or to the root.\<close>

definition finish_frame ::
    "value_violation list \<Rightarrow> value_frame list \<Rightarrow> value_violation list option
       \<Rightarrow> value_frame list \<times> value_violation list option" where
  "finish_frame res rest root =
     (case rest of [] \<Rightarrow> ([], Some res) | parent # outer \<Rightarrow> (received res parent # outer, root))"

definition frame_step ::
    "value_frame \<Rightarrow> value_frame list \<Rightarrow> value_violation list option \<Rightarrow> value_frame list \<times> value_violation list option" where
  "frame_step f rest root =
     (case vf_kind f of
        Some kind \<Rightarrow>
          if vf_index f < length (vf_children f)
          then (let child = vf_children f ! vf_index f in
                (new_frame (vc_node child) (vc_value child) (vc_path child) # f\<lparr>vf_index := vf_index f + 1\<rparr> # rest, root))
          else finish_frame (container_result kind (vf_value f) (vf_path f) (vf_violations f @ vf_tail f) (vf_matches f)) rest root
      | None \<Rightarrow>
          (case start_value (vf_node f) (vf_value f) (vf_path f) of
             Finish res \<Rightarrow> finish_frame res rest root
           | Expand kind children violations tail \<Rightarrow>
               (f\<lparr>vf_kind := Some kind, vf_children := children, vf_index := 0, vf_violations := violations,
                  vf_tail := tail, vf_matches := 0\<rparr> # rest, root)))"

section \<open>Children are smaller\<close>

lemma start_value_children:
  assumes "start_value node v path = Expand kind children violations tail" "c \<in> set children"
  shows "size (vc_node c) < size node"
proof -
  obtain ty one_of props required additional items en co where
    node: "node = SchemaNode ty one_of props required additional items en co" by (cases node)
  consider (branch) bs where "one_of = Some bs" "vc_node c \<in> set bs"
    | (property) ps k where "props = Some ps" "(k, vc_node c) \<in> set ps"
    | (item) "items = Some (vc_node c)"
    using assms node
    by (fastforce simp: start_value_def start_typed_def start_object_def start_array_def Let_def List.map_filter_def
        split: option.splits schema_type.splits json.splits if_splits)
  then show ?thesis
  proof cases
    case branch
    then have "size (vc_node c) \<le> size_list size bs" by (simp add: size_list_estimation')
    then show ?thesis using branch by (simp add: node)
  next
    case property
    then have "size (vc_node c) \<le> size_list (size_prod (\<lambda>_. 0) size) ps"
      by (intro size_list_estimation' [of "(k, vc_node c)"]) auto
    then show ?thesis using property by (simp add: node)
  qed (simp add: node)
qed

section \<open>The recursive check\<close>

text \<open>Children in order, their results settled at once.\<close>

definition settle_children ::
    "frame_kind \<Rightarrow> json \<Rightarrow> string \<Rightarrow> value_violation list \<Rightarrow> value_violation list list \<Rightarrow> value_violation list \<Rightarrow> value_violation list" where
  "settle_children kind v path violations results tail =
     container_result kind v path (violations @ concat results @ tail) (length (filter (\<lambda>r. r = []) results))"

function value_violations :: "schema_node \<Rightarrow> json \<Rightarrow> string \<Rightarrow> value_violation list" where
  "value_violations node v path =
     (case start_value node v path of
        Finish res \<Rightarrow> res
      | Expand kind children violations tail \<Rightarrow>
          settle_children kind v path violations
            (map (\<lambda>c. value_violations (vc_node c) (vc_value c) (vc_path c)) children) tail)"
  by pat_completeness auto

termination value_violations
  by (relation "measure (\<lambda>(node, _). size node)") (auto dest: start_value_children)

declare value_violations.simps [simp del]

text \<open>How many rounds a check takes.\<close>

function value_cost :: "schema_node \<Rightarrow> json \<Rightarrow> string \<Rightarrow> nat" where
  "value_cost node v path =
     (case start_value node v path of
        Finish res \<Rightarrow> 1
      | Expand kind children violations tail \<Rightarrow>
          2 + sum_list (map (\<lambda>c. Suc (value_cost (vc_node c) (vc_value c) (vc_path c))) children))"
  by pat_completeness auto

termination value_cost
  by (relation "measure (\<lambda>(node, _). size node)") (auto dest: start_value_children)

declare value_cost.simps [simp del]

definition child_cost :: "value_child \<Rightarrow> nat" where
  "child_cost c = value_cost (vc_node c) (vc_value c) (vc_path c)"

definition frame_cost :: "value_frame \<Rightarrow> nat" where
  "frame_cost f =
     (case vf_kind f of
        None \<Rightarrow> value_cost (vf_node f) (vf_value f) (vf_path f)
      | Some _ \<Rightarrow> 1 + sum_list (map (\<lambda>c. Suc (child_cost c)) (drop (vf_index f) (vf_children f))))"

lemma frame_cost_new [simp]: "frame_cost (new_frame node v path) = value_cost node v path"
  by (simp add: frame_cost_def new_frame_def)

lemma frame_cost_received [simp]: "frame_cost (received res f) = frame_cost f"
  by (simp add: received_def frame_cost_def split: option.split)

lemma value_cost_positive: "0 < value_cost node v path"
  by (subst value_cost.simps) (simp split: frame_start.split)

lemma frame_cost_positive: "0 < frame_cost f"
  by (simp add: frame_cost_def value_cost_positive split: option.split)

lemma finish_frame_cost: "sum_list (map frame_cost (fst (finish_frame res rest root))) = sum_list (map frame_cost rest)"
  by (simp add: finish_frame_def split: list.split)

lemma frame_step_cost: "sum_list (map frame_cost (fst (frame_step f rest root))) < frame_cost f + sum_list (map frame_cost rest)"
proof (cases "vf_kind f")
  case None
  then show ?thesis using frame_cost_positive [of f]
    by (cases "start_value (vf_node f) (vf_value f) (vf_path f)")
      (simp_all add: frame_step_def finish_frame_cost frame_cost_def child_cost_def value_cost.simps [of "vf_node f"])
next
  case (Some kind)
  show ?thesis
  proof (cases "vf_index f < length (vf_children f)")
    case True
    then show ?thesis using Some
      by (simp add: frame_step_def Let_def frame_cost_def [of f] frame_cost_def [of "f\<lparr>vf_index := _\<rparr>"] child_cost_def
          Cons_nth_drop_Suc [symmetric])
  next
    case False
    then show ?thesis using Some frame_cost_positive [of f] by (simp add: frame_step_def finish_frame_cost)
  qed
qed

text \<open>The loop over the frames; it ends with the result the root frame finished with.\<close>

function validation_loop :: "value_frame list \<Rightarrow> value_violation list option \<Rightarrow> value_violation list option" where
  "validation_loop [] root = root"
| "validation_loop (f # rest) root =
     validation_loop (fst (frame_step f rest root)) (snd (frame_step f rest root))"
  by pat_completeness auto

termination validation_loop
  by (relation "measure (\<lambda>(frames, _). sum_list (map frame_cost frames))") (simp_all add: case_prod_beta frame_step_cost)

definition check_value :: "schema_node \<Rightarrow> json \<Rightarrow> string \<Rightarrow> value_violation list" where
  "check_value schema v path =
     (case validation_loop [new_frame schema v path] None of
        Some res \<Rightarrow> res
      | None \<Rightarrow> [NotLossless (diagnostic_path path)])"

definition validate_json_schema_value :: "schema_node \<Rightarrow> json \<Rightarrow> string \<Rightarrow> value_violation list" where
  "validate_json_schema_value schema v path = check_value schema v path"

section \<open>The frames compute the recursive check\<close>

definition after_finish :: "value_violation list \<Rightarrow> value_frame list \<Rightarrow> value_violation list option \<Rightarrow> value_violation list option" where
  "after_finish res rest root =
     validation_loop (fst (finish_frame res rest root)) (snd (finish_frame res rest root))"

definition child_violations :: "value_child \<Rightarrow> value_violation list" where
  "child_violations c = value_violations (vc_node c) (vc_value c) (vc_path c)"

lemma settled_container:
  "container_result kind v path (violations @ concat results @ tail) (matches + length (filter (\<lambda>r. r = []) results))
   = (if kind = OneOfFrame then container_result kind v path [] (matches + length (filter (\<lambda>r. r = []) results))
      else container_result kind v path (violations @ concat results @ tail) 0)"
  by (cases kind) (simp_all add: container_result_def)

lemma children_phase:
  assumes run: "\<And>c rest root. c \<in> set (drop (vf_index f) (vf_children f)) \<Longrightarrow>
      validation_loop (new_frame (vc_node c) (vc_value c) (vc_path c) # rest) root = after_finish (child_violations c) rest root"
    and kind: "vf_kind f = Some kind"
  shows "validation_loop (f # rest) root =
    after_finish
      (container_result kind (vf_value f) (vf_path f)
         (vf_violations f @ concat (map child_violations (drop (vf_index f) (vf_children f))) @ vf_tail f)
         (vf_matches f + length (filter (\<lambda>r. r = []) (map child_violations (drop (vf_index f) (vf_children f))))))
      rest root"
  using assms
proof (induction "length (vf_children f) - vf_index f" arbitrary: f)
  case 0
  then have "\<not> vf_index f < length (vf_children f)" by simp
  then show ?case using 0 by (simp add: frame_step_def after_finish_def)
next
  case (Suc n)
  then have less: "vf_index f < length (vf_children f)" by simp
  let ?c = "vf_children f ! vf_index f"
  let ?next = "received (child_violations ?c) (f\<lparr>vf_index := vf_index f + 1\<rparr>)"
  have drop: "drop (vf_index f) (vf_children f) = ?c # drop (Suc (vf_index f)) (vf_children f)"
    using less by (simp add: Cons_nth_drop_Suc)
  have fields: "vf_index ?next = Suc (vf_index f)" "vf_children ?next = vf_children f" "vf_kind ?next = Some kind"
    "vf_value ?next = vf_value f" "vf_path ?next = vf_path f" "vf_tail ?next = vf_tail f"
    using Suc.prems(2) by (simp_all add: received_def)
  have "validation_loop (f # rest) root
      = validation_loop (new_frame (vc_node ?c) (vc_value ?c) (vc_path ?c) # f\<lparr>vf_index := vf_index f + 1\<rparr> # rest) root"
    using less Suc.prems(2) by (simp add: frame_step_def Let_def)
  also have "\<dots> = validation_loop (?next # rest) root"
    using Suc.prems(1) [of ?c] by (simp add: drop after_finish_def finish_frame_def)
  also have "\<dots> = after_finish
      (container_result kind (vf_value ?next) (vf_path ?next)
         (vf_violations ?next @ concat (map child_violations (drop (vf_index ?next) (vf_children ?next))) @ vf_tail ?next)
         (vf_matches ?next + length (filter (\<lambda>r. r = []) (map child_violations (drop (vf_index ?next) (vf_children ?next))))))
      rest root"
    using Suc.hyps(2) fields Suc.prems(1) by (intro Suc.hyps(1)) (auto simp: drop)
  finally show ?case
    using Suc.prems(2) unfolding fields drop settled_container
    by (cases kind) (auto simp: received_def)
qed

lemma loop_value: "validation_loop (new_frame node v path # rest) root = after_finish (value_violations node v path) rest root"
proof (induction node v path arbitrary: rest root rule: value_violations.induct)
  case (1 node v path)
  show ?case
  proof (cases "start_value node v path")
    case (Finish res)
    then show ?thesis
      by (simp add: frame_step_def after_finish_def new_frame_def value_violations.simps [of node])
  next
    case (Expand kind children violations tail)
    let ?f = "(new_frame node v path)\<lparr>vf_kind := Some kind, vf_children := children, vf_index := 0,
        vf_violations := violations, vf_tail := tail, vf_matches := 0\<rparr>"
    have "validation_loop (new_frame node v path # rest) root = validation_loop (?f # rest) root"
      using Expand by (simp add: frame_step_def new_frame_def)
    moreover have "\<dots> = after_finish (settle_children kind v path violations (map child_violations children) tail) rest root"
      using 1 [OF Expand] by (subst children_phase [where f = ?f and kind = kind])
        (simp_all add: child_violations_def settle_children_def new_frame_def)
    moreover have "child_violations = (\<lambda>c. value_violations (vc_node c) (vc_value c) (vc_path c))"
      by (rule ext) (simp add: child_violations_def)
    ultimately show ?thesis using Expand by (simp add: value_violations.simps [of node])
  qed
qed

lemma check_value_recursive: "check_value schema v path = value_violations schema v path"
  unfolding check_value_def loop_value after_finish_def by (simp add: finish_frame_def)

section \<open>What a schema means\<close>

text \<open>The scalar constraints of a node.\<close>

definition scalar_allowed :: "schema_node \<Rightarrow> json \<Rightarrow> bool" where
  "scalar_allowed node v \<longleftrightarrow>
     (case sn_enum node of None \<Rightarrow> True | Some allowed \<Rightarrow> v \<in> set allowed)
     \<and> (case sn_const node of None \<Rightarrow> True | Some c \<Rightarrow> v = c)"

text \<open>A union is met by exactly one branch. An object has its required properties, declared properties
  meet their schemas, and a closed object has no others.\<close>

function conforms :: "schema_node \<Rightarrow> json \<Rightarrow> bool" where
  "conforms node v =
     (case sn_one_of node of
        Some branches \<Rightarrow> length (filter (\<lambda>b. conforms b v) branches) = 1
      | None \<Rightarrow>
          (case sn_type node of
             None \<Rightarrow> json_wf v
           | Some TyObject \<Rightarrow>
               (case v of
                  JObj kvs \<Rightarrow>
                    json_wf v
                    \<and> (\<forall>k\<in>set (case sn_required node of None \<Rightarrow> [] | Some ks \<Rightarrow> ks). map_of kvs k \<noteq> None)
                    \<and> (\<forall>p\<in>set (case sn_properties node of None \<Rightarrow> [] | Some ps \<Rightarrow> ps).
                         case map_of kvs (fst p) of None \<Rightarrow> True | Some w \<Rightarrow> conforms (snd p) w)
                    \<and> (sn_additional node = Some False
                         \<longrightarrow> fst ` set kvs \<subseteq> fst ` set (case sn_properties node of None \<Rightarrow> [] | Some ps \<Rightarrow> ps))
                | _ \<Rightarrow> False)
           | Some TyArray \<Rightarrow>
               (case v of
                  JArr xs \<Rightarrow>
                    json_wf v \<and> (case sn_items node of None \<Rightarrow> True | Some item \<Rightarrow> \<forall>x\<in>set xs. conforms item x)
                | _ \<Rightarrow> False)
           | Some ty \<Rightarrow> scalar_matches ty v \<and> scalar_allowed node v))"
  by pat_completeness auto

lemma schema_child_size:
  "sn_one_of node = Some bs \<Longrightarrow> b \<in> set bs \<Longrightarrow> size b < size node"
  "sn_properties node = Some ps \<Longrightarrow> (k, c) \<in> set ps \<Longrightarrow> size c < size node"
  "sn_items node = Some c \<Longrightarrow> size c < size node"
proof -
  obtain ty one_of props required additional items en co where
    node: "node = SchemaNode ty one_of props required additional items en co" by (cases node)
  show "size b < size node" if "sn_one_of node = Some bs" "b \<in> set bs"
  proof -
    have "size b \<le> size_list size bs" using that(2) by (simp add: size_list_estimation')
    then show ?thesis using that(1) by (simp add: node)
  qed
  show "size c < size node" if "sn_properties node = Some ps" "(k, c) \<in> set ps"
  proof -
    have "size c \<le> size_list (size_prod (\<lambda>_. 0) size) ps"
      using that(2) by (intro size_list_estimation' [of "(k, c)"]) auto
    then show ?thesis using that(1) by (simp add: node)
  qed
  show "size c < size node" if "sn_items node = Some c" using that by (simp add: node)
qed

termination conforms
  by (relation "measure (\<lambda>(node, _). size node)")
    (auto intro: schema_child_size simp: eq_commute [of "Some _"] split: option.splits)

declare conforms.simps [simp del]

lemma check_scalar_ok: "check_scalar_value node v path = [] \<longleftrightarrow> scalar_allowed node v"
  by (auto simp: check_scalar_value_def scalar_allowed_def split: option.split)

lemma violations_unfold:
  "value_violations node v path = [] \<longleftrightarrow>
     (case start_value node v path of
        Finish res \<Rightarrow> res = []
      | Expand kind children violations tail \<Rightarrow>
          (case kind of
             OneOfFrame \<Rightarrow> length (filter (\<lambda>c. value_violations (vc_node c) (vc_value c) (vc_path c) = []) children) = 1
           | _ \<Rightarrow> violations = [] \<and> tail = [] \<and> json_wf v
               \<and> (\<forall>c\<in>set children. value_violations (vc_node c) (vc_value c) (vc_path c) = [])))"
  by (subst value_violations.simps)
    (auto simp: settle_children_def container_result_def filter_map comp_def split: frame_start.split frame_kind.split)

lemma all_enumerated: "(\<forall>p\<in>set (List.enumerate n xs). P (snd p)) \<longleftrightarrow> (\<forall>x\<in>set xs. P x)"
proof -
  have "set xs = snd ` set (List.enumerate n xs)" by (metis map_snd_enumerate set_map)
  then show ?thesis by simp
qed

lemma no_pairs: "(\<forall>a b. (a, b) \<notin> set kvs) \<longleftrightarrow> kvs = []"
  by (cases kvs) auto

lemma violations_decide: "value_violations node v path = [] \<longleftrightarrow> conforms node v"
proof (induction "size node" arbitrary: node v path rule: less_induct)
  case less
  show ?case
  proof (cases "sn_one_of node")
    case (Some bs)
    have IH: "b \<in> set bs \<Longrightarrow> value_violations b v path = [] \<longleftrightarrow> conforms b v" for b
      using less schema_child_size(1) [OF Some] by blast
    have "value_violations node v path = [] \<longleftrightarrow> length (filter (\<lambda>b. value_violations b v path = []) bs) = 1"
      by (subst violations_unfold) (simp add: start_value_def Some filter_map comp_def)
    also have "filter (\<lambda>b. value_violations b v path = []) bs = filter (\<lambda>b. conforms b v) bs"
      by (rule filter_cong) (simp_all add: IH)
    finally show ?thesis by (subst conforms.simps) (simp add: Some)
  next
    case None
    show ?thesis
    proof (cases "sn_type node")
      case None
      then show ?thesis using \<open>sn_one_of node = None\<close>
        by (subst violations_unfold, subst conforms.simps) (simp add: start_value_def)
    next
      case (Some ty)
      have start: "start_value node v path = start_typed node ty v path"
        using None Some by (simp add: start_value_def)
      consider (object) kvs where "ty = TyObject" "v = JObj kvs" | (array) xs where "ty = TyArray" "v = JArr xs"
        | (other) "ty = TyObject \<longrightarrow> (\<forall>kvs. v \<noteq> JObj kvs)" "ty = TyArray \<longrightarrow> (\<forall>xs. v \<noteq> JArr xs)"
        by blast
      then show ?thesis
      proof cases
        case object
        have IH: "sn_properties node = Some ps \<Longrightarrow> (k, c) \<in> set ps \<Longrightarrow> value_violations c w p = [] \<longleftrightarrow> conforms c w" for ps k c w p
          using less schema_child_size(2) by blast
        have "start_value node (JObj kvs) path = start_object node kvs path"
          using start object by (simp add: start_typed_def)
        then show ?thesis unfolding object(2)
          by (subst violations_unfold, subst conforms.simps)
            (auto simp: object(1) None Some start_object_def Let_def filter_empty_conv map_of_eq_None_iff
              List.map_filter_def IH no_pairs split: option.splits)
      next
        case array
        have IH: "sn_items node = Some c \<Longrightarrow> value_violations c w p = [] \<longleftrightarrow> conforms c w" for c w p
          using less schema_child_size(3) by blast
        have "start_value node (JArr xs) path = start_array node xs path"
          using start array by (simp add: start_typed_def)
        then show ?thesis unfolding array(2)
          by (subst violations_unfold, subst conforms.simps)
            (auto simp: array(1) None Some start_array_def IH case_prod_beta all_enumerated [of 0 xs "conforms _", symmetric]
              split: option.splits)
      next
        case other
        then have "\<exists>res. start_typed node ty v path = Finish res
            \<and> (res = [] \<longleftrightarrow> ty \<noteq> TyObject \<and> ty \<noteq> TyArray \<and> scalar_matches ty v \<and> scalar_allowed node v)"
          by (cases ty; cases v) (auto simp: start_typed_def check_scalar_ok)
        then obtain res where "start_value node v path = Finish res"
          and res: "res = [] \<longleftrightarrow> ty \<noteq> TyObject \<and> ty \<noteq> TyArray \<and> scalar_matches ty v \<and> scalar_allowed node v"
          using start by auto
        then have "value_violations node v path = [] \<longleftrightarrow> res = []" by (subst violations_unfold) simp
        moreover have "conforms node v \<longleftrightarrow> ty \<noteq> TyObject \<and> ty \<noteq> TyArray \<and> scalar_matches ty v \<and> scalar_allowed node v"
          using other by (subst conforms.simps) (cases ty; cases v; simp add: None Some)
        ultimately show ?thesis using res by blast
      qed
    qed
  qed
qed

text \<open>The stack-safe validator accepts exactly the conforming values.\<close>

lemma validation_decides: "validate_json_schema_value schema v path = [] \<longleftrightarrow> conforms schema v"
  by (simp add: validate_json_schema_value_def check_value_recursive violations_decide)

end
