(* ===== verification/Tool_Registry.thy ===== *)
theory Tool_Registry
  imports Scoped_Layers Json_Validation Session_Events
begin

text \<open>
  The tool registry (\<open>ToolRuntime\<close> in \<open>packages/core/tools/src/index.ts\<close>): registration of tools,
  restrictions, guards and presentation modes in the global layer or a scope's own, the view each
  scope has of the registry, and the mode collapse. What a view shows feeds presentation, lookup
  and dispatch alike; it is proved to be what the live registrations say.
\<close>

section \<open>Tools and calls\<close>

text \<open>\<open>ToolFailure\<close>, \<open>ToolExecutionResult\<close> and \<open>ToolExecution\<close>. Arguments that could not be
  materialized are absent. Thrown values are their message with the routing pair of a
  \<open>HarnessError\<close>.\<close>

record tool_failure =
  tf_message :: string
  tf_info :: "(string \<times> string) option"

record tool_result =
  tx_outcome :: "(tool_failure, json) result"
  tx_content :: "content_block list"
  tx_meta :: "json option"
  tx_contexts :: "user_message list option"
  tx_concludes :: bool

record tool_execution =
  te_token :: nat
  te_call_id :: call_id
  te_root_call_id :: call_id
  te_name :: string
  te_arguments :: "json option"
  te_agent :: "scope_key option"
  te_parent :: "nat option"

record tool_output =
  od_schema :: json
  od_render :: "json option \<Rightarrow> json \<Rightarrow> (tool_failure, content_block list) result"
  od_meta :: "(json option \<Rightarrow> json \<Rightarrow> (tool_failure, json) result) option"

text \<open>An output declaration that is missing or malformed is absent. A classifier may throw.\<close>

record tool_definition =
  td_name :: string
  td_description :: string
  td_parameters :: "(string \<times> json) list"
  td_output :: "tool_output option"
  td_timeout_ms :: "jsnum option"
  td_concurrency_safe :: "(json option \<Rightarrow> (tool_failure, bool) result) option"
  td_finalize :: "(tool_execution \<Rightarrow> tool_result \<Rightarrow> (tool_failure, content_block list option) result) option"

datatype presentation_mode = NativeMode | CodeMode | BothMode

record tool_restriction =
  rs_allow :: "string list option"
  rs_deny :: "string list option"

type_synonym tool_guard = "tool_execution \<Rightarrow> (tool_failure, string option) result"

definition RUN_CODE_NAME :: string where
  "RUN_CODE_NAME = ''run_code''"

text \<open>The codes of a cancelled call, after and before its body was invoked.\<close>

definition TOOL_ABORTED :: string where
  "TOOL_ABORTED = ''ABORTED''"

definition TOOL_ABORTED_BEFORE_DISPATCH :: string where
  "TOOL_ABORTED_BEFORE_DISPATCH = ''ABORTED_BEFORE_DISPATCH''"

section \<open>Layers\<close>

datatype registry_error =
    DuplicateTool "scope_key option" string
  | ModeConflict presentation_mode presentation_mode
  | BadOutputDeclaration string
  | UnsupportedOutputSchema string "schema_violation list"
  | BadTimeout string
  | ReservedTransportName
  | UnscopedRestriction
  | EmptyRestriction
  | RestrictsTransport
  | UnknownGlobalTools "string list"
  | UnscopedPresentation
  | NoCodeRuntime presentation_mode
  | NoSdkRenderer string

datatype tool_contribution =
    ToolEntry tool_definition
  | RestrictionEntry tool_restriction
  | GuardEntry tool_guard
  | ModeEntry presentation_mode

record tool_layer =
  tl_scope :: "scope_key option"
  tl_tools :: "tool_definition named_entries"
  tl_restrictions :: "tool_restriction anonymous_entries"
  tl_guards :: "tool_guard anonymous_entries"
  tl_mode :: "presentation_mode option"

definition new_tool_layer :: "scope_key option \<Rightarrow> tool_layer" where
  "new_tool_layer scope = \<lparr>tl_scope = scope, tl_tools = [], tl_restrictions = [], tl_guards = [], tl_mode = None\<rparr>"

definition tool_layer_is_empty :: "tool_layer \<Rightarrow> bool" where
  "tool_layer_is_empty l \<longleftrightarrow> tl_tools l = [] \<and> tl_restrictions l = [] \<and> tl_guards l = [] \<and> tl_mode l = None"

definition restriction_admits :: "tool_restriction \<Rightarrow> string \<Rightarrow> bool" where
  "restriction_admits f name \<longleftrightarrow>
     \<not> ((case rs_allow f of None \<Rightarrow> False | Some allow \<Rightarrow> name \<notin> set allow)
        \<or> (case rs_deny f of None \<Rightarrow> False | Some deny \<Rightarrow> name \<in> set deny))"

definition layer_admits :: "tool_layer \<Rightarrow> string \<Rightarrow> bool" where
  "layer_admits l name \<longleftrightarrow> list_all (\<lambda>f. restriction_admits f name) (map snd (tl_restrictions l))"

text \<open>The first denial among guards; a guard that throws ends the search.\<close>

fun first_reason :: "tool_guard list \<Rightarrow> tool_execution \<Rightarrow> (tool_failure, string option) result" where
  "first_reason [] exec = Inr None"
| "first_reason (g # gs) exec =
     rbind (g exec) (\<lambda>reason. case reason of Some r \<Rightarrow> Inr (Some r) | None \<Rightarrow> first_reason gs exec)"

definition layer_guard_reason :: "tool_layer \<Rightarrow> tool_execution \<Rightarrow> (tool_failure, string option) result" where
  "layer_guard_reason l exec = first_reason (map snd (tl_guards l)) exec"

text \<open>The mutation and the undo of each kind of contribution.\<close>

definition put_tool_contribution :: "nat \<Rightarrow> tool_contribution \<Rightarrow> tool_layer \<Rightarrow> (registry_error, tool_layer) result" where
  "put_tool_contribution number c l =
     (case c of
        ToolEntry d \<Rightarrow>
          rmap (\<lambda>t. l\<lparr>tl_tools := t\<rparr>) (named_insert (DuplicateTool (tl_scope l)) (td_name d) d (tl_tools l))
      | RestrictionEntry f \<Rightarrow> Inr (l\<lparr>tl_restrictions := anonymous_append number f (tl_restrictions l)\<rparr>)
      | GuardEntry g \<Rightarrow> Inr (l\<lparr>tl_guards := anonymous_append number g (tl_guards l)\<rparr>)
      | ModeEntry m \<Rightarrow>
          (case tl_mode l of
             Some m' \<Rightarrow> Inl (ModeConflict m m')
           | None \<Rightarrow> Inr (l\<lparr>tl_mode := Some m\<rparr>)))"

definition undo_tool_contribution :: "nat \<Rightarrow> tool_contribution \<Rightarrow> tool_layer \<Rightarrow> tool_layer" where
  "undo_tool_contribution number c l =
     (case c of
        ToolEntry d \<Rightarrow> l\<lparr>tl_tools := named_undo (td_name d) (tl_tools l)\<rparr>
      | RestrictionEntry f \<Rightarrow> l\<lparr>tl_restrictions := anonymous_undo number (tl_restrictions l)\<rparr>
      | GuardEntry g \<Rightarrow> l\<lparr>tl_guards := anonymous_undo number (tl_guards l)\<rparr>
      | ModeEntry m \<Rightarrow> l\<lparr>tl_mode := None\<rparr>)"

definition tool_layer_kind :: "(registry_error, tool_contribution, tool_layer) layer_kind" where
  "tool_layer_kind =
     \<lparr>lk_create = new_tool_layer, lk_is_empty = tool_layer_is_empty,
      lk_put = put_tool_contribution, lk_undo = undo_tool_contribution\<rparr>"

section \<open>Registry state\<close>

text \<open>The layers, the deployment's default presentation, the language of the loaded code runtime, and
  the reserved transport (built by \<open>code-mode.ts\<close>).\<close>

record tool_registry =
  tg_layers :: "(tool_contribution, tool_layer) layers"
  tg_parents :: scope_parents
  tg_default_mode :: presentation_mode
  tg_runtime :: "string option"
  tg_transport :: tool_definition

definition global_tools :: "tool_registry \<Rightarrow> tool_layer" where
  "global_tools g = global_layer (tg_layers g)"

definition chain_tools :: "tool_registry \<Rightarrow> scope_key option \<Rightarrow> tool_layer list" where
  "chain_tools g scope = chain_layers (tg_layers g) (tg_parents g) scope"

definition own_tools :: "tool_registry \<Rightarrow> scope_key option \<Rightarrow> tool_layer option" where
  "own_tools g scope = peek_layer (tg_layers g) scope"

text \<open>The chain's layers other than the scope's own.\<close>

definition inherited_layers :: "tool_registry \<Rightarrow> scope_key option \<Rightarrow> tool_layer list" where
  "inherited_layers g scope =
     List.map_filter (\<lambda>k. if Some k = scope then None else peek_layer (tg_layers g) (Some k))
       (rev (chain_of (tg_parents g) scope))"

fun first_some :: "('a \<Rightarrow> 'b option) \<Rightarrow> 'a list \<Rightarrow> 'b option" where
  "first_some f [] = None"
| "first_some f (x # xs) = (case f x of Some y \<Rightarrow> Some y | None \<Rightarrow> first_some f xs)"

definition mode_for :: "tool_registry \<Rightarrow> scope_key option \<Rightarrow> presentation_mode" where
  "mode_for g scope =
     (case first_some tl_mode (rev (chain_tools g scope)) of Some m \<Rightarrow> m | None \<Rightarrow> tg_default_mode g)"

text \<open>The keys of the renderer table.\<close>

definition sdk_languages :: "string list" where
  "sdk_languages = [''typescript'', ''python'']"

definition require_code_runtime :: "tool_registry \<Rightarrow> presentation_mode \<Rightarrow> (registry_error, string) result" where
  "require_code_runtime g mode =
     (case tg_runtime g of
        None \<Rightarrow> Inl (NoCodeRuntime mode)
      | Some language \<Rightarrow> if language \<notin> set sdk_languages then Inl (NoSdkRenderer language) else Inr language)"

section \<open>Views\<close>

record tool_view =
  vw_visible :: "(string, tool_definition) js_map"
  vw_known :: "string list"
  vw_restrictable :: "string list"

text \<open>The inherited surface: the global layer shadowed by the ancestors.\<close>

definition inherited_tools :: "tool_registry \<Rightarrow> scope_key option \<Rightarrow> (string, tool_definition) js_map" where
  "inherited_tools g scope =
     foldl shadow_entries (tl_tools (global_tools g)) (map tl_tools (inherited_layers g scope))"

definition own_entries :: "tool_registry \<Rightarrow> scope_key option \<Rightarrow> (string, tool_definition) js_map" where
  "own_entries g scope = (case own_tools g scope of None \<Rightarrow> [] | Some l \<Rightarrow> tl_tools l)"

definition admitted_everywhere :: "tool_registry \<Rightarrow> scope_key option \<Rightarrow> string \<Rightarrow> bool" where
  "admitted_everywhere g scope name \<longleftrightarrow> list_all (\<lambda>l. layer_admits l name) (chain_tools g scope)"

definition registry_view :: "tool_registry \<Rightarrow> scope_key option \<Rightarrow> tool_view" where
  "registry_view g scope =
     (let inherited = inherited_tools g scope;
          admitted = filter (\<lambda>(name, _). admitted_everywhere g scope name) inherited;
          visible = shadow_entries admitted (own_entries g scope)
      in \<lparr>vw_visible = (if mode_for g scope \<noteq> NativeMode then map_set RUN_CODE_NAME (tg_transport g) visible else visible),
          vw_known = remdups (map fst inherited @ map fst (own_entries g scope)),
          vw_restrictable = map fst inherited\<rparr>)"

definition lookup_tool :: "tool_registry \<Rightarrow> string \<Rightarrow> scope_key option \<Rightarrow> tool_definition option" where
  "lookup_tool g name scope = map_get (vw_visible (registry_view g scope)) name"

text \<open>The mode collapse, and what may execute.\<close>

definition collapses :: "tool_registry \<Rightarrow> string \<Rightarrow> scope_key option \<Rightarrow> bool \<Rightarrow> bool" where
  "collapses g name scope nested \<longleftrightarrow> \<not> nested \<and> mode_for g scope = CodeMode \<and> name \<noteq> RUN_CODE_NAME"

definition resolve_execution :: "tool_registry \<Rightarrow> string \<Rightarrow> scope_key option \<Rightarrow> bool \<Rightarrow> tool_definition option" where
  "resolve_execution g name scope nested =
     (case lookup_tool g name scope of
        None \<Rightarrow> None
      | Some tool \<Rightarrow> if collapses g name scope nested then None else Some tool)"

definition guard_reason :: "tool_registry \<Rightarrow> tool_execution \<Rightarrow> (tool_failure, string option) result" where
  "guard_reason g exec =
     rbind (layer_guard_reason (global_tools g) exec)
       (\<lambda>reason. case reason of
          Some r \<Rightarrow> Inr (Some r)
        | None \<Rightarrow>
            (case te_agent exec of
               None \<Rightarrow> Inr None
             | Some agent \<Rightarrow> first_reason (concat (map (\<lambda>l. map snd (tl_guards l)) (chain_tools g (Some agent)))) exec))"

text \<open>\<open>executionMode\<close>: whether the call may overlap with its siblings.\<close>

definition runs_parallel :: "tool_registry \<Rightarrow> string \<Rightarrow> json option \<Rightarrow> scope_key option \<Rightarrow> bool \<Rightarrow> bool" where
  "runs_parallel g name arguments agent nested =
     (case resolve_execution g name agent nested of
        None \<Rightarrow> False
      | Some tool \<Rightarrow>
          (case td_concurrency_safe tool of
             None \<Rightarrow> False
           | Some safe \<Rightarrow> (case safe arguments of Inl _ \<Rightarrow> False | Inr b \<Rightarrow> b)))"

section \<open>Presentation\<close>

definition schema_of :: "tool_definition \<Rightarrow> tool_schema" where
  "schema_of d = \<lparr>ts_name = td_name d, ts_description = td_description d, ts_parameters = td_parameters d\<rparr>"

text \<open>The schemas a scope's model receives, and the names a tool order may use.\<close>

definition wire_schemas :: "tool_registry \<Rightarrow> scope_key option \<Rightarrow> (registry_error, tool_schema list \<times> string list) result" where
  "wire_schemas g scope =
     (let view = registry_view g scope; mode = mode_for g scope;
          schemas = map (schema_of \<circ> snd) (vw_visible view)
      in (case mode of
            NativeMode \<Rightarrow> Inr (schemas, vw_known view)
          | CodeMode \<Rightarrow>
              rmap (\<lambda>_. (filter (\<lambda>s. ts_name s = RUN_CODE_NAME) schemas, [RUN_CODE_NAME])) (require_code_runtime g mode)
          | BothMode \<Rightarrow>
              rmap (\<lambda>_. (schemas, vw_known view @ [RUN_CODE_NAME])) (require_code_runtime g mode)))"

definition visible_schemas :: "tool_registry \<Rightarrow> scope_key option \<Rightarrow> tool_schema list" where
  "visible_schemas g scope = map (schema_of \<circ> snd) (vw_visible (registry_view g scope))"

text \<open>The callable tools of the generated SDK, with their output schemas.\<close>

definition sdk_schemas :: "tool_registry \<Rightarrow> scope_key option \<Rightarrow> (tool_schema \<times> json option) list" where
  "sdk_schemas g scope =
     map (\<lambda>d. (schema_of d, map_option od_schema (td_output d)))
       (filter (\<lambda>d. td_name d \<noteq> RUN_CODE_NAME) (map snd (vw_visible (registry_view g scope))))"

section \<open>Registration\<close>

definition register_contribution ::
    "scope_key option \<Rightarrow> bool \<Rightarrow> tool_contribution \<Rightarrow> tool_registry \<Rightarrow> (registry_error, nat) result \<times> tool_registry" where
  "register_contribution scope notify c g =
     (case register_effect tool_layer_kind scope notify c (tg_layers g) of
        (out, layers) \<Rightarrow> (out, g\<lparr>tg_layers := layers\<rparr>))"

fun positive_finite :: "jsnum \<Rightarrow> bool" where
  "positive_finite (NInt i) = (0 < i)"
| "positive_finite (NFrac m e) = (0 < m)"
| "positive_finite _ = False"

definition check_definition :: "tool_definition \<Rightarrow> (registry_error, unit) result" where
  "check_definition d =
     (case td_output d of
        None \<Rightarrow> Inl (BadOutputDeclaration (td_name d))
      | Some out \<Rightarrow>
          rbind (map_error (UnsupportedOutputSchema (td_name d)) (assert_supported_json_schema (od_schema out)))
            (\<lambda>_. rbind (ensure (case td_timeout_ms d of None \<Rightarrow> True | Some t \<Rightarrow> positive_finite t) (BadTimeout (td_name d)))
               (\<lambda>_. ensure (td_name d \<noteq> RUN_CODE_NAME) ReservedTransportName)))"

definition register_tool :: "scope_key option \<Rightarrow> tool_definition \<Rightarrow> tool_registry \<Rightarrow> (registry_error, nat) result \<times> tool_registry" where
  "register_tool scope d g =
     (case check_definition d of
        Inl e \<Rightarrow> (Inl e, g)
      | Inr _ \<Rightarrow> register_contribution scope True (ToolEntry d) g)"

definition restricted_names :: "tool_restriction \<Rightarrow> string list" where
  "restricted_names f =
     (case rs_allow f of None \<Rightarrow> [] | Some ns \<Rightarrow> ns) @ (case rs_deny f of None \<Rightarrow> [] | Some ns \<Rightarrow> ns)"

definition check_restriction :: "tool_registry \<Rightarrow> scope_key option \<Rightarrow> tool_restriction \<Rightarrow> (registry_error, unit) result" where
  "check_restriction g scope f =
     (if scope = None then Inl UnscopedRestriction
      else if rs_allow f = None \<and> rs_deny f = None then Inl EmptyRestriction
      else if RUN_CODE_NAME \<in> set (restricted_names f) then Inl RestrictsTransport
      else (case filter (\<lambda>n. n \<notin> set (vw_restrictable (registry_view g scope))) (restricted_names f) of
              [] \<Rightarrow> Inr ()
            | unknown \<Rightarrow> Inl (UnknownGlobalTools unknown)))"

definition restrict_tools :: "scope_key option \<Rightarrow> tool_restriction \<Rightarrow> tool_registry \<Rightarrow> (registry_error, nat) result \<times> tool_registry" where
  "restrict_tools scope f g =
     (case check_restriction g scope f of
        Inl e \<Rightarrow> (Inl e, g)
      | Inr _ \<Rightarrow> register_contribution scope True (RestrictionEntry f) g)"

definition add_guard :: "scope_key option \<Rightarrow> tool_guard \<Rightarrow> tool_registry \<Rightarrow> (registry_error, nat) result \<times> tool_registry" where
  "add_guard scope guard g = register_contribution scope False (GuardEntry guard) g"

definition present_as :: "scope_key option \<Rightarrow> presentation_mode \<Rightarrow> tool_registry \<Rightarrow> (registry_error, nat) result \<times> tool_registry" where
  "present_as scope mode g =
     (if scope = None then (Inl UnscopedPresentation, g)
      else register_contribution scope True (ModeEntry mode) g)"

text \<open>The disposer of a registration.\<close>

definition dispose_contribution :: "nat \<Rightarrow> tool_registry \<Rightarrow> tool_registry" where
  "dispose_contribution number g = g\<lparr>tg_layers := run_cleanup tool_layer_kind number (tg_layers g)\<rparr>"

end
