(* ===== verification/Tool_Calls.thy ===== *)
theory Tool_Calls
  imports Agent_Host Tool_Registry
begin

text \<open>
  The scheduler of one assistant step's tool calls
  (\<open>packages/core/agent-loop/src/tool-calls.ts\<close>): exclusive barriers and bounded parallel pools,
  results committed in model order, cancellation that drains what was started and records a
  synthetic result for what was not, and the internal failure that stops the pool.
\<close>

section \<open>Durable call and result events\<close>

text \<open>A tool-call block: its identity, name and raw arguments.\<close>

type_synonym tool_block = "call_id \<times> string \<times> string"

definition tool_blocks :: "content_block list \<Rightarrow> tool_block list" where
  "tool_blocks bs = concat (map (\<lambda>b. case b of ToolCallBlock i n a \<Rightarrow> [(i, n, a)] | _ \<Rightarrow> []) bs)"

definition append_tool_call :: "int \<Rightarrow> int \<Rightarrow> tool_block \<Rightarrow> nat driver" where
  "append_tool_call turn step b =
     (case b of (i, n, a) \<Rightarrow>
        chain (append_log (ToolCall turn step i n a) None None) (\<lambda>e. return (ev_seq e)))"

definition result_payload :: "int \<Rightarrow> int \<Rightarrow> call_id \<Rightarrow> message_id \<Rightarrow> tool_outcome \<Rightarrow> tool_result_data" where
  "result_payload turn step i mid out =
     \<lparr>trd_turn = turn, trd_step = step,
      trd_message = \<lparr>trm_id = mid, trm_call_id = i, trm_block_call_id = i, trm_content = to_content out,
                     trm_is_error = Some (to_is_error out)\<rparr>,
      trd_error = to_error out, trd_meta = to_meta out\<rparr>"

definition append_tool_result :: "agent_env \<Rightarrow> int \<Rightarrow> int \<Rightarrow> tool_block \<Rightarrow> tool_outcome \<Rightarrow> nat \<Rightarrow> unit driver" where
  "append_tool_result env turn step b out call_seq =
     chain (fresh_id env)
       (\<lambda>mid. chain (append_surface (ToolResult (result_payload turn step (fst b) mid out)) (Some [call_seq]))
          (\<lambda>_. return ()))"

definition skipped_outcome :: tool_outcome where
  "skipped_outcome =
     \<lparr>to_content = [TextBlock ''Error: tool call aborted before dispatch''], to_is_error = True,
      to_error = Some (''AbortError'', TOOL_ABORTED_BEFORE_DISPATCH), to_meta = None,
      to_contexts = [], to_concludes = False\<rparr>"

definition append_skipped_tool_call :: "agent_env \<Rightarrow> int \<Rightarrow> int \<Rightarrow> tool_block \<Rightarrow> unit driver" where
  "append_skipped_tool_call env turn step b =
     chain (append_tool_call turn step b) (\<lambda>n. append_tool_result env turn step b skipped_outcome n)"

section \<open>One group\<close>

definition new_pool :: "nat \<Rightarrow> nat \<Rightarrow> bool \<Rightarrow> tool_pool" where
  "new_pool n cap aborted =
     \<lparr>tp_cap = cap, tp_slots = replicate n None, tp_call_seqs = replicate n None, tp_started = 0, tp_committed = 0,
      tp_aborted = aborted, tp_concluded = False, tp_failure = None, tp_in_flight = [], tp_settled = []\<rparr>"

definition upd_pool :: "(tool_pool \<Rightarrow> tool_pool) \<Rightarrow> unit driver" where
  "upd_pool f = modify (\<lambda>h. h\<lparr>ag_pool := f (ag_pool h)\<rparr>)"

definition signal_aborted :: "agent \<Rightarrow> bool" where
  "signal_aborted h \<longleftrightarrow> phase_abort (ag_phase h) \<noteq> None"

definition throw_scheduler_failure :: "unit driver" where
  "throw_scheduler_failure =
     chain (reads (\<lambda>h. tp_failure (ag_pool h))) (\<lambda>f. case f of None \<Rightarrow> return () | Some e \<Rightarrow> throw e)"

definition accept_context :: "user_message \<Rightarrow> unit driver" where
  "accept_context m =
     chain (reads (\<lambda>h. length (ib_next_step (ag_inbox h))))
       (\<lambda>n. chain (use_inbox (DoSplice NextStep (nat_num n) (NInt 0) [m])) (\<lambda>_. return ()))"

text \<open>One round of \<open>commitReady\<close> for the settled slot of the next call in model order.\<close>

definition committed_pool :: "tool_outcome \<Rightarrow> tool_pool \<Rightarrow> tool_pool" where
  "committed_pool out p =
     p\<lparr>tp_concluded := (tp_concluded p \<or> to_concludes out), tp_committed := Suc (tp_committed p)\<rparr>"

definition commit_result :: "agent_env \<Rightarrow> int \<Rightarrow> int \<Rightarrow> tool_block \<Rightarrow> nat \<Rightarrow> tool_outcome \<Rightarrow> unit driver" where
  "commit_result env turn step b call_seq out =
     chain (append_tool_result env turn step b out call_seq)
       (\<lambda>_. chain (each accept_context (to_contexts out)) (\<lambda>_. upd_pool (committed_pool out)))"

definition commit_slot :: "agent_env \<Rightarrow> int \<Rightarrow> int \<Rightarrow> tool_block \<Rightarrow> tool_outcome \<times> bool \<Rightarrow> nat \<Rightarrow> unit driver" where
  "commit_slot env turn step b slot call_seq =
     chain (if snd slot then await as_finalized else await as_finished)
       (commit_result env turn step b call_seq)"

text \<open>The ready slot at the commit position, with the call it belongs to and its event.\<close>

definition ready_slot :: "tool_block list \<Rightarrow> tool_pool \<Rightarrow> (tool_block \<times> (tool_outcome \<times> bool) \<times> nat) option" where
  "ready_slot calls p =
     (let i = tp_committed p in
      if i < length calls then
        (case tp_slots p ! i of
           Some slot \<Rightarrow> map_option (\<lambda>n. (calls ! i, slot, n)) (tp_call_seqs p ! i)
         | None \<Rightarrow> None)
      else None)"

fun commit_rounds :: "agent_env \<Rightarrow> int \<Rightarrow> int \<Rightarrow> tool_block list \<Rightarrow> nat \<Rightarrow> unit driver" where
  "commit_rounds env turn step calls 0 = return ()"
| "commit_rounds env turn step calls (Suc n) =
     chain (reads (\<lambda>h. ready_slot calls (ag_pool h)))
       (\<lambda>ready. case ready of
          None \<Rightarrow> return ()
        | Some (b, slot, call_seq) \<Rightarrow>
            chain (commit_slot env turn step b slot call_seq) (\<lambda>_. commit_rounds env turn step calls n))"

text \<open>Each round commits one more call, so the length of the group bounds the rounds.\<close>

definition commit_ready :: "agent_env \<Rightarrow> int \<Rightarrow> int \<Rightarrow> tool_block list \<Rightarrow> unit driver" where
  "commit_ready env turn step calls = commit_rounds env turn step calls (length calls)"

text \<open>What a preparation does to the pool: a dispatch is in flight, a result fills its slot.\<close>

definition prepared_pool :: "nat \<Rightarrow> tool_preparation \<Rightarrow> tool_pool \<Rightarrow> tool_pool" where
  "prepared_pool i prep p =
     (case prep of
        DispatchCall \<Rightarrow> p\<lparr>tp_in_flight := tp_in_flight p @ [i]\<rparr>
      | PostResult out \<Rightarrow> p\<lparr>tp_slots := (tp_slots p)[i := Some (out, True)]\<rparr>
      | FinalResult out \<Rightarrow> p\<lparr>tp_slots := (tp_slots p)[i := Some (out, False)]\<rparr>)"

definition prepare_started :: "nat \<Rightarrow> unit driver" where
  "prepare_started i =
     chain (await as_tool_prepared)
       (\<lambda>prep. chain throw_scheduler_failure (\<lambda>_. upd_pool (prepared_pool i prep)))"

definition started_pool :: "nat \<Rightarrow> nat \<Rightarrow> tool_pool \<Rightarrow> tool_pool" where
  "started_pool i n p = p\<lparr>tp_call_seqs := (tp_call_seqs p)[i := Some n], tp_started := Suc (tp_started p)\<rparr>"

definition start_call :: "int \<Rightarrow> int \<Rightarrow> tool_block list \<Rightarrow> nat \<Rightarrow> unit driver" where
  "start_call turn step calls i =
     chain (append_tool_call turn step (calls ! i))
       (\<lambda>n. chain (upd_pool (started_pool i n)) (\<lambda>_. prepare_started i))"

definition note_abort :: "unit driver" where
  "note_abort =
     chain (reads signal_aborted) (\<lambda>a. upd_pool (\<lambda>p. p\<lparr>tp_aborted := (tp_aborted p \<or> a)\<rparr>))"

text \<open>Whether \<open>fillPool\<close> may look at the next call.\<close>

definition pool_open :: "tool_block list \<Rightarrow> tool_pool \<Rightarrow> bool" where
  "pool_open calls p \<longleftrightarrow> \<not> tp_aborted p \<and> tp_started p < length calls \<and> length (tp_in_flight p) < tp_cap p"

text \<open>A later call of a parallel group is classified again; only a parallel one may join.\<close>

definition may_join :: "bool \<Rightarrow> nat \<Rightarrow> bool driver" where
  "may_join parallel i = (if 0 < i \<and> parallel then await as_parallel else return True)"

text \<open>After a start or a settlement: commit what is ready, stop on a failure, note an abort.\<close>

definition settle_pool :: "agent_env \<Rightarrow> int \<Rightarrow> int \<Rightarrow> tool_block list \<Rightarrow> unit driver" where
  "settle_pool env turn step calls =
     chain (awaited (commit_ready env turn step calls))
       (\<lambda>_. chain throw_scheduler_failure (\<lambda>_. note_abort))"

definition start_next :: "agent_env \<Rightarrow> int \<Rightarrow> int \<Rightarrow> tool_block list \<Rightarrow> nat \<Rightarrow> unit driver" where
  "start_next env turn step calls i =
     chain (awaited (start_call turn step calls i))
       (\<lambda>_. chain throw_scheduler_failure (\<lambda>_. settle_pool env turn step calls))"

fun fill_rounds :: "agent_env \<Rightarrow> int \<Rightarrow> int \<Rightarrow> tool_block list \<Rightarrow> bool \<Rightarrow> nat \<Rightarrow> unit driver" where
  "fill_rounds env turn step calls parallel 0 = return ()"
| "fill_rounds env turn step calls parallel (Suc n) =
     chain (reads ag_pool)
       (\<lambda>p. if \<not> pool_open calls p then return ()
         else chain (may_join parallel (tp_started p))
           (\<lambda>join. if \<not> join then return ()
             else chain (start_next env turn step calls (tp_started p))
               (\<lambda>_. fill_rounds env turn step calls parallel n)))"

text \<open>Each round starts one more call, so the length of the group bounds the rounds.\<close>

definition fill_pool :: "agent_env \<Rightarrow> int \<Rightarrow> int \<Rightarrow> tool_block list \<Rightarrow> bool \<Rightarrow> unit driver" where
  "fill_pool env turn step calls parallel = fill_rounds env turn step calls parallel (length calls)"

text \<open>\<open>Promise.race\<close> over the promises in flight: one of the settled ones.\<close>

definition race :: "nat driver" where
  "race =
     chain (await_value as_settled)
       (\<lambda>i. chain (reads (\<lambda>h. i \<in> set (tp_in_flight (ag_pool h)) \<and> i \<in> set (tp_settled (ag_pool h))))
          (\<lambda>ok. if ok then return i else suspend))"

definition raced_pool :: "nat \<Rightarrow> tool_pool \<Rightarrow> tool_pool" where
  "raced_pool i p = p\<lparr>tp_in_flight := remove1 i (tp_in_flight p), tp_settled := remove1 i (tp_settled p)\<rparr>"

definition take_settled :: "agent_env \<Rightarrow> int \<Rightarrow> int \<Rightarrow> tool_block list \<Rightarrow> nat \<Rightarrow> unit driver" where
  "take_settled env turn step calls i =
     chain (upd_pool (raced_pool i))
       (\<lambda>_. chain throw_scheduler_failure (\<lambda>_. settle_pool env turn step calls))"

definition drain_round ::
    "agent_env \<Rightarrow> int \<Rightarrow> int \<Rightarrow> tool_block list \<Rightarrow> bool \<Rightarrow> unit \<Rightarrow> (unit + unit) driver" where
  "drain_round env turn step calls parallel _ =
     chain (reads (\<lambda>h. tp_in_flight (ag_pool h)))
       (\<lambda>flying. if flying = [] then return (Inr ())
         else chain race
           (\<lambda>i. chain (take_settled env turn step calls i)
              (\<lambda>_. chain (awaited (fill_pool env turn step calls parallel)) (\<lambda>_. return (Inl ())))))"

definition script_left :: "agent \<Rightarrow> nat" where
  "script_left h = length (ag_script h)"

definition drain_pool :: "agent_env \<Rightarrow> int \<Rightarrow> int \<Rightarrow> tool_block list \<Rightarrow> bool \<Rightarrow> unit driver" where
  "drain_pool env turn step calls parallel =
     loop script_left (drain_round env turn step calls parallel) ()"

text \<open>The catch of \<open>runGroup\<close>: the first failure wins, and it surfaces once every started
  dispatch has settled.\<close>

definition all_settled :: "agent \<Rightarrow> bool" where
  "all_settled h \<longleftrightarrow> set (tp_in_flight (ag_pool h)) \<subseteq> set (tp_settled (ag_pool h))"

definition failed_pool :: "driver_error \<Rightarrow> tool_pool \<Rightarrow> tool_pool" where
  "failed_pool e p = p\<lparr>tp_failure := (case tp_failure p of None \<Rightarrow> Some e | Some e' \<Rightarrow> Some e')\<rparr>"

definition fail_group :: "driver_error \<Rightarrow> unit driver" where
  "fail_group e =
     chain (upd_pool (failed_pool e))
       (\<lambda>_. chain resume
          (\<lambda>_. chain (reads all_settled)
             (\<lambda>ok. if ok then throw_scheduler_failure else suspend)))"

record group_outcome =
  go_consumed :: nat
  go_aborted :: bool
  go_concluded :: bool

definition run_pool :: "agent_env \<Rightarrow> int \<Rightarrow> int \<Rightarrow> tool_block list \<Rightarrow> bool \<Rightarrow> unit driver" where
  "run_pool env turn step calls parallel =
     try_catch
       (chain (awaited (fill_pool env turn step calls parallel))
          (\<lambda>_. drain_pool env turn step calls parallel))
       fail_group"

definition finish_group ::
    "agent_env \<Rightarrow> int \<Rightarrow> int \<Rightarrow> tool_block list \<Rightarrow> tool_pool \<Rightarrow> group_outcome driver" where
  "finish_group env turn step calls p =
     (if tp_aborted p
      then chain (each (append_skipped_tool_call env turn step) (drop (tp_started p) calls))
             (\<lambda>_. return \<lparr>go_consumed = length calls, go_aborted = True, go_concluded = tp_concluded p\<rparr>)
      else if tp_committed p \<noteq> tp_started p
      then throw (Raised ''tool-call scheduler: uncommitted settled calls'')
      else return \<lparr>go_consumed = tp_started p, go_aborted = False, go_concluded = tp_concluded p\<rparr>)"

definition run_group ::
    "agent_env \<Rightarrow> int \<Rightarrow> int \<Rightarrow> tool_block list \<Rightarrow> bool \<Rightarrow> group_outcome driver" where
  "run_group env turn step calls parallel =
     chain (reads (\<lambda>h. new_pool (length calls) (ag_max_parallel h) (signal_aborted h)))
       (\<lambda>fresh. chain (upd_pool (\<lambda>_. fresh))
          (\<lambda>_. chain (run_pool env turn step calls parallel)
             (\<lambda>_. chain (reads ag_pool) (finish_group env turn step calls))))"

section \<open>All calls of a step\<close>

text \<open>The calls not yet consumed, and whether a committed result concluded the turn.\<close>

definition after_group ::
    "agent_env \<Rightarrow> int \<Rightarrow> int \<Rightarrow> tool_block list \<Rightarrow> bool \<Rightarrow> group_outcome
       \<Rightarrow> ((tool_block list \<times> bool) + bool) driver" where
  "after_group env turn step planned concluded out =
     (let left = drop (go_consumed out) planned; concluded' = (concluded \<or> go_concluded out) in
      if go_aborted out
      then chain (each (append_skipped_tool_call env turn step) left) (\<lambda>_. return (Inr concluded'))
      else return (Inl (left, concluded')))"

definition call_round ::
    "agent_env \<Rightarrow> int \<Rightarrow> int \<Rightarrow> tool_block list \<times> bool \<Rightarrow> ((tool_block list \<times> bool) + bool) driver" where
  "call_round env turn step st =
     (case st of (planned, concluded) \<Rightarrow>
        (if planned = [] then return (Inr concluded)
         else chain (await as_parallel)
           (\<lambda>parallel. chain (awaited (run_group env turn step (if parallel then planned else [hd planned]) parallel))
              (after_group env turn step planned concluded))))"

definition execute_tool_calls :: "agent_env \<Rightarrow> int \<Rightarrow> int \<Rightarrow> tool_block list \<Rightarrow> bool driver" where
  "execute_tool_calls env turn step calls = loop script_left (call_round env turn step) (calls, False)"

end
