(* ===== verification/Agent_Turn.thy ===== *)
theory Agent_Turn
  imports Tool_Calls
begin

text \<open>
  The driver of \<open>packages/core/agent-loop/src/agent.ts\<close>: composing a request from the session
  log, streaming one model step with its retries and tool calls, the steps of a turn, and the
  phase machine that starts, cancels and restarts the driver.
\<close>

section \<open>Pure parts\<close>

definition request_proposal :: "epoch_header \<Rightarrow> llm_call_config" where
  "request_proposal h =
     (case eh_adapter_defaults h of
        None \<Rightarrow> eh_config h
      | Some d \<Rightarrow>
          (let c = (if ad_reasoning_effort d then (eh_config h)\<lparr>cc_reasoning_effort := None\<rparr> else eh_config h)
           in if ad_max_tokens d then c\<lparr>cc_max_tokens := None\<rparr> else c))"

definition is_direct :: "user_message \<Rightarrow> bool" where
  "is_direct m \<longleftrightarrow> um_source m = UserSource"

definition order_entered :: "user_message list \<Rightarrow> user_message list" where
  "order_entered ms =
     (let context = filter (\<lambda>m. \<not> is_direct m) ms; direct = filter is_direct ms in
      if context = [] \<or> direct = [] then ms else context @ direct)"

text \<open>\<open>[...new Set(xs)]\<close>: the first occurrence of each element.\<close>

definition js_unique :: "'a list \<Rightarrow> 'a list" where
  "js_unique xs = rev (remdups (rev xs))"

definition message_text :: "user_message \<Rightarrow> string" where
  "message_text m = concat (map (\<lambda>b. case b of TextBlock t \<Rightarrow> t | _ \<Rightarrow> []) (um_content m))"

definition anchor_text :: "string \<Rightarrow> string list \<Rightarrow> string" where
  "anchor_text request completed_tools =
     (let names = join_with '', '' (js_unique completed_tools);
          completed = (if names = [] then ''(unnamed tool)'' else names)
      in ''<system-reminder>'' @ [newline]
         @ ''Completed tool calls: '' @ completed @ ''.'' @ [newline]
         @ ''Do not call those tools again merely to satisfy the quoted request; use their results above. ''
         @ ''Complete only the remaining part of the request. If it specifies an exact final response, ''
         @ ''reproduce that response verbatim, including punctuation.'' @ [newline, newline]
         @ ''<direct-user-request>'' @ [newline] @ request @ [newline] @ ''</direct-user-request>'' @ [newline]
         @ ''</system-reminder>'')"

definition continuation_anchor :: "message_id \<Rightarrow> user_message \<Rightarrow> string list \<Rightarrow> user_message" where
  "continuation_anchor mid m completed_tools =
     \<lparr>um_id = mid, um_content = [TextBlock (anchor_text (message_text m) completed_tools)],
      um_source = PluginSource ''agent-loop'' (FormNotice ''Continue after tool result'')\<rparr>"

text \<open>The names of the calls a turn has made, in log order.\<close>

definition completed_tools :: "int \<Rightarrow> event_log \<Rightarrow> string list" where
  "completed_tools turn events =
     concat (map (\<lambda>e. case ev_data e of ToolCall t _ _ n _ \<Rightarrow> if t = turn then [n] else [] | _ \<Rightarrow> []) events)"

text \<open>The \<open>LlmError\<close> constructor and its argument checks.\<close>

definition llm_error :: "llm_failure \<Rightarrow> driver_error" where
  "llm_error f =
     (if lf_message f = [] then Raised ''LlmError message must be a non-empty string''
      else if lf_code f = [] then Raised ''LlmError code must be a non-empty string''
      else if (case lf_status f of None \<Rightarrow> False | Some (NInt i) \<Rightarrow> i < 100 \<or> 599 < i | Some _ \<Rightarrow> True)
        then Raised ''LlmError status must be an integer from 100 through 599''
      else if (case lf_retry_after f of None \<Rightarrow> False | Some (NInt i) \<Rightarrow> i \<le> 0 | Some (NFrac m _) \<Rightarrow> m \<le> 0 | Some _ \<Rightarrow> True)
        then Raised ''LlmError providerRetryAfterMs must be a positive finite number''
      else if lf_request_id f = Some [] then Raised ''LlmError requestId must be a non-empty string''
      else LlmFailed f)"

definition plain_failure :: "string \<Rightarrow> string \<Rightarrow> llm_failure" where
  "plain_failure message code =
     \<lparr>lf_message = message, lf_code = code, lf_status = None, lf_retry_after = None, lf_request_id = None\<rparr>"

definition failure_of :: "agent_env \<Rightarrow> driver_error \<Rightarrow> llm_failure" where
  "failure_of env e =
     (case e of LlmFailed f \<Rightarrow> f | _ \<Rightarrow> plain_failure (ae_error_text env e) ''UNKNOWN'')"

section \<open>Composing a request\<close>

definition seed_config :: "agent_env \<Rightarrow> bool \<Rightarrow> epoch_header option \<Rightarrow> llm_call_config option" where
  "seed_config env logged persisted =
     (if logged then map_option request_proposal persisted
      else (let provider = (case ae_provider env of Some p \<Rightarrow> p | None \<Rightarrow> []);
                model = (case ae_model env of Some m \<Rightarrow> m | None \<Rightarrow> [])
            in Some
             \<lparr>cc_provider = provider, cc_model = model,
              cc_reasoning_effort =
                (case persisted of
                   None \<Rightarrow> None
                 | Some h \<Rightarrow>
                     (if cc_provider (eh_config h) = provider \<and> cc_model (eh_config h) = model
                          \<and> \<not> default_flag ad_reasoning_effort h
                      then cc_reasoning_effort (eh_config h) else None)),
              cc_temperature = None, cc_max_tokens = ae_max_tokens env, cc_stop = None\<rparr>))"

definition composed_header :: "llm_call_config \<Rightarrow> prepared_call option \<Rightarrow> string \<Rightarrow> tool_schema list \<Rightarrow> epoch_header" where
  "composed_header config prepared system tools =
     canonical_header
       \<lparr>eh_config = config, eh_adapter_defaults = map_option pc_defaults prepared,
        eh_system = (if system \<noteq> [] then Some system else None),
        eh_tools = (if tools \<noteq> [] then Some tools else None)\<rparr>"

definition composed_context :: "llm_call_config \<Rightarrow> prepared_call option \<Rightarrow> request_context" where
  "composed_context config prepared =
     \<lparr>rc_provider = cc_provider config, rc_model = cc_model config,
      rc_context_window = (case prepared of Some p \<Rightarrow> pc_window p | None \<Rightarrow> None)\<rparr>"

definition context_differs :: "request_context option \<Rightarrow> request_context \<Rightarrow> bool" where
  "context_differs previous c =
     (case previous of
        None \<Rightarrow> True
      | Some p \<Rightarrow> rc_provider p \<noteq> rc_provider c \<or> rc_model p \<noteq> rc_model c
          \<or> \<not> same_number (rc_context_window p) (rc_context_window c))"

definition record_header :: "epoch_header \<Rightarrow> unit driver" where
  "record_header header =
     chain read_header
       (\<lambda>baseline. chain (reads ag_header_logged)
          (\<lambda>logged. if \<not> logged
             then chain (append_log (RequestHeader header (if baseline = None then HeaderInitial else HeaderResume)) None None)
                    (\<lambda>_. modify (\<lambda>h. h\<lparr>ag_header_logged := True\<rparr>))
             else if (case baseline of None \<Rightarrow> True | Some b \<Rightarrow> \<not> header_equals b header)
             then chain (append_log (RequestHeader header HeaderChange) None None) (\<lambda>_. return ())
             else return ()))"

definition record_context :: "request_context \<Rightarrow> unit driver" where
  "record_context c =
     chain read_context
       (\<lambda>previous. if context_differs previous c
          then chain (append_log (RequestContext c) None None) (\<lambda>_. return ()) else return ())"

definition NO_ADAPTER :: string where
  "NO_ADAPTER = ''NO_ADAPTER''"

text \<open>An unregistered route may still be served by middleware.\<close>

definition prepare_call :: "llm_call_config \<Rightarrow> (llm_call_config \<times> prepared_call option) driver" where
  "prepare_call proposed =
     try_catch (chain (await as_call_prepared) (\<lambda>p. return (pc_config p, Some p)))
       (\<lambda>e. case e of
              LlmFailed f \<Rightarrow> if lf_code f = NO_ADAPTER then return (proposed, None) else throw e
            | _ \<Rightarrow> throw e)"

definition no_route_text :: "agent_env \<Rightarrow> string" where
  "no_route_text env = ''agent '' @ ae_id env @ '' has no provider/model: set AgentOptions.provider and AgentOptions.model or supply both via the agent/request waterfall''"

text \<open>The header and the context in force, and the request they make.\<close>

definition compose_request ::
    "tool_schema list \<Rightarrow> string \<Rightarrow> message list \<Rightarrow> llm_call_config \<Rightarrow> prepared_call option \<Rightarrow> model_request driver" where
  "compose_request tools system messages config prepared =
     (let header = composed_header config prepared system tools in
      chain (record_header header)
        (\<lambda>_. chain (record_context (composed_context config prepared))
           (\<lambda>_. chain throw_if_aborted
              (\<lambda>_. return \<lparr>mq_config = eh_config header, mq_messages = messages,
                            mq_system = eh_system header, mq_tools = eh_tools header\<rparr>))))"

definition propose_request ::
    "agent_env \<Rightarrow> tool_schema list \<Rightarrow> string \<Rightarrow> message list \<Rightarrow> llm_call_config \<Rightarrow> model_request driver" where
  "propose_request env tools system messages proposed =
     (if cc_provider proposed = [] \<or> cc_model proposed = [] then throw (Raised (no_route_text env))
      else chain (prepare_call proposed)
        (\<lambda>x. chain throw_if_aborted (\<lambda>_. compose_request tools system messages (fst x) (snd x))))"

definition build_request :: "agent_env \<Rightarrow> tool_schema list \<Rightarrow> string \<Rightarrow> message list \<Rightarrow> model_request driver" where
  "build_request env tools system messages =
     chain read_header
       (\<lambda>persisted. chain (reads ag_header_logged)
          (\<lambda>logged. case seed_config env logged persisted of
             None \<Rightarrow> throw (Raised ''TypeError'')
           | Some seed \<Rightarrow>
             chain (await as_proposed)
               (\<lambda>answer. chain throw_if_aborted
                  (\<lambda>_. propose_request env tools system messages (case answer of None \<Rightarrow> seed | Some c \<Rightarrow> c)))))"

section \<open>One model step\<close>

datatype step_end = StepCompleted | StepMaxTokens

text \<open>A \<open>for await\<close> whose body throws closes the stream before the error goes on.\<close>

definition closing_stream :: "'a driver \<Rightarrow> 'a driver" where
  "closing_stream m = try_catch m (\<lambda>e. chain next_answer (\<lambda>_. throw e))"

definition log_chunk :: "int \<Rightarrow> int \<Rightarrow> assembler \<times> nat list \<Rightarrow> stream_chunk \<Rightarrow> (assembler \<times> nat list) driver" where
  "log_chunk turn step st c =
     closing_stream
       (chain throw_if_aborted
         (\<lambda>_. chain (append_log (AssistantChunk turn step c) None None)
            (\<lambda>e. return (ba_push (fst st) c, snd st @ [ev_seq e]))))"

definition chunk_round ::
    "int \<Rightarrow> int \<Rightarrow> assembler \<times> nat list \<Rightarrow> ((assembler \<times> nat list) + (assembler \<times> nat list)) driver" where
  "chunk_round turn step st =
     chain (await as_chunk)
       (\<lambda>next_chunk. case next_chunk of
          None \<Rightarrow> return (Inr st)
        | Some c \<Rightarrow> chain (log_chunk turn step st c) (\<lambda>st'. return (Inl st')))"

definition stream_chunks :: "int \<Rightarrow> int \<Rightarrow> (assembler \<times> nat list) driver" where
  "stream_chunks turn step = loop script_left (chunk_round turn step) (new_assembler, [])"

text \<open>The chunks' failure, when the stream ended in one.\<close>

definition stream_failure :: "assembler \<Rightarrow> llm_failure option" where
  "stream_failure a = (case ba_finish_reason a of FinishError f \<Rightarrow> Some f | FinishAborted f \<Rightarrow> Some f | _ \<Rightarrow> None)"

definition record_reply ::
    "agent_env \<Rightarrow> int \<Rightarrow> int \<Rightarrow> model_request \<Rightarrow> assembler \<Rightarrow> nat list \<Rightarrow> content_block list driver" where
  "record_reply env turn step request a seqs =
     chain (of_result BlocksFailed (ba_blocks a))
       (\<lambda>blocks. chain (fresh_id env)
          (\<lambda>mid. chain (append_surface
                  (AssistantMessageEv turn step
                     \<lparr>am_id = mid, am_content = blocks, am_provider = cc_provider (mq_config request),
                      am_model = cc_model (mq_config request), am_replay_state = ba_replay a\<rparr>
                     (ba_usage a))
                  (Some seqs))
             (\<lambda>_. return blocks)))"

definition dispatch_request :: "model_request \<Rightarrow> unit driver" where
  "dispatch_request request =
     chain (modify (\<lambda>h. h\<lparr>ag_sent := ag_sent h @ [request]\<rparr>)) (\<lambda>_. await as_resumed)"

text \<open>A failed stream: middleware may ask for another request.\<close>

definition retry_request :: "llm_failure \<Rightarrow> (unit + step_end option) driver" where
  "retry_request f =
     chain (await as_retry)
       (\<lambda>retry. chain throw_if_aborted (\<lambda>_. if retry then return (Inl ()) else throw (llm_error f)))"

definition settle_reply ::
    "agent_env \<Rightarrow> int \<Rightarrow> int \<Rightarrow> finish_reason \<Rightarrow> content_block list \<Rightarrow> (unit + step_end option) driver" where
  "settle_reply env turn step finish blocks =
     (if finish = FinishMaxTokens then return (Inr (Some StepMaxTokens))
      else if tool_blocks blocks = [] then return (Inr (Some StepCompleted))
      else chain (awaited (execute_tool_calls env turn step (tool_blocks blocks)))
        (\<lambda>concluded. return (Inr (if concluded then Some StepCompleted else None))))"

definition settle_stream ::
    "agent_env \<Rightarrow> int \<Rightarrow> int \<Rightarrow> model_request \<Rightarrow> assembler \<times> nat list \<Rightarrow> (unit + step_end option) driver" where
  "settle_stream env turn step request st =
     (case stream_failure (fst st) of
        Some f \<Rightarrow> retry_request f
      | None \<Rightarrow> chain (record_reply env turn step request (fst st) (snd st))
          (settle_reply env turn step (ba_finish_reason (fst st))))"

definition request_round ::
    "agent_env \<Rightarrow> int \<Rightarrow> int \<Rightarrow> prompt_assembly \<Rightarrow> string \<Rightarrow> unit \<Rightarrow> (unit + step_end option) driver" where
  "request_round env turn step assembly system _ =
     chain read_messages
       (\<lambda>messages. chain (awaited (build_request env (pa_tools assembly) system messages))
          (\<lambda>request. chain (dispatch_request request)
             (\<lambda>_. chain throw_if_aborted
                (\<lambda>_. chain (stream_chunks turn step)
                   (\<lambda>st. chain throw_if_aborted (\<lambda>_. settle_stream env turn step request st))))))"

definition run_requests :: "agent_env \<Rightarrow> int \<Rightarrow> int \<Rightarrow> prompt_assembly \<Rightarrow> step_end option driver" where
  "run_requests env turn step assembly =
     chain throw_if_aborted
       (\<lambda>_. chain (of_result PromptFailed (render_prompt assembly))
          (\<lambda>system. loop script_left (request_round env turn step assembly system) ()))"

definition run_step :: "agent_env \<Rightarrow> prompt_assembly \<Rightarrow> step_end option driver" where
  "run_step env assembly =
     chain (reads ag_phase)
       (\<lambda>p. case p of
          Running _ turn step _ \<Rightarrow> run_requests env turn step assembly
        | _ \<Rightarrow> throw (Raised (''agent '' @ ae_id env @ '': step outside running phase'')))"

section \<open>One turn\<close>

datatype prepared_step =
    StepRejected
  | StepEntered "user_message list" prompt_assembly

definition project_runtime_context :: "agent_env \<Rightarrow> (string \<times> string) list \<Rightarrow> user_message option driver" where
  "project_runtime_context env sections =
     chain (reads ag_retained)
       (\<lambda>r. let current = join_context_sections sections in
          if project_context r current sections [] = None then return None
          else chain (fresh_id env) (\<lambda>mid. return (project_context r current sections mid)))"

definition decision_of ::
    "user_message list \<Rightarrow> user_message option \<Rightarrow> prompt_assembly \<Rightarrow> pre_step_decision option \<Rightarrow> prepared_step" where
  "decision_of claimed context assembly answer =
     (case (case answer of
              Some d \<Rightarrow> d
            | None \<Rightarrow> EnterStep (claimed @ (case context of None \<Rightarrow> [] | Some m \<Rightarrow> [m]))) of
        RejectStep \<Rightarrow> StepRejected
      | EnterStep ms \<Rightarrow> StepEntered (order_entered ms) assembly)"

definition pre_step :: "agent_env \<Rightarrow> inbox_target \<Rightarrow> int \<Rightarrow> prepared_step driver" where
  "pre_step env target turn =
     chain (use_inbox (DoClaim target turn))
       (\<lambda>claimed. chain (await as_assembled)
          (\<lambda>assembly. chain throw_if_aborted
             (\<lambda>_. chain (of_result PromptFailed (render_context_sections assembly))
                (\<lambda>sections. chain (project_runtime_context env sections)
                   (\<lambda>context. chain (await as_decided)
                      (\<lambda>answer. chain throw_if_aborted
                         (\<lambda>_. return (decision_of claimed context assembly answer))))))))"

text \<open>The loop variables of a turn: how its last step ended, the boundary the next step claims
  from, and the latest direct request.\<close>

type_synonym turn_vars = "step_end option \<times> inbox_target \<times> user_message option"

fun end_reason :: "step_end \<Rightarrow> turn_end_reason" where
  "end_reason StepCompleted = TurnCompleted"
| "end_reason StepMaxTokens = TurnMaxTokens"

fun phase_step :: "phase \<Rightarrow> int" where
  "phase_step (Running _ _ s _) = s"
| "phase_step _ = 0"

fun phase_turn :: "phase \<Rightarrow> int" where
  "phase_turn (Running _ t _ _) = t"
| "phase_turn (Maintenance _ t _) = t"
| "phase_turn (Idle t) = t"

fun at_step :: "int \<Rightarrow> phase \<Rightarrow> phase" where
  "at_step s (Running a t _ w) = Running a t s w"
| "at_step s p = p"

fun at_turn :: "int \<Rightarrow> phase \<Rightarrow> phase" where
  "at_turn t (Running a _ s w) = Running a t s w"
| "at_turn t p = p"

definition upd_phase :: "(phase \<Rightarrow> phase) \<Rightarrow> unit driver" where
  "upd_phase f = modify (\<lambda>h. h\<lparr>ag_phase := f (ag_phase h)\<rparr>)"

text \<open>The messages that enter the step, with the continuation anchor of a result-only step, and
  the direct request from here on.\<close>

definition anchored_messages ::
    "agent_env \<Rightarrow> int \<Rightarrow> step_end option \<Rightarrow> user_message option \<Rightarrow> user_message list
       \<Rightarrow> (user_message list \<times> user_message option) driver" where
  "anchored_messages env turn ends latest ms =
     (case find_last is_direct ms of
        Some d \<Rightarrow> return (ms, Some d)
      | None \<Rightarrow>
          chain (reads (\<lambda>h. phase_step (ag_phase h)))
            (\<lambda>s. case latest of
               Some request \<Rightarrow>
                 (if 0 < s \<and> ends = None
                  then chain read_log
                    (\<lambda>events. chain (fresh_id env)
                       (\<lambda>mid. return (ms @ [continuation_anchor mid request (completed_tools turn events)], latest)))
                  else return (ms, latest))
             | None \<Rightarrow> return (ms, latest)))"

definition enter_messages :: "user_message list \<Rightarrow> unit driver" where
  "enter_messages ms = each (\<lambda>m. chain (append_surface (UserMessageEv m) None) (\<lambda>_. return ())) ms"

definition open_step :: "agent_env \<Rightarrow> int \<Rightarrow> int \<Rightarrow> user_message list \<Rightarrow> prompt_assembly \<Rightarrow> step_end option driver" where
  "open_step env turn step ms assembly =
     chain (append_log (StepStart turn step) None None)
       (\<lambda>_. chain (upd_phase (at_step step))
          (\<lambda>_. try_finally
             (chain (enter_messages ms) (\<lambda>_. awaited (run_step env assembly)))
             (chain (append_log (StepEnd turn step) None None) (\<lambda>_. return ()))))"

definition merge_ends :: "step_end option \<Rightarrow> step_end option \<Rightarrow> step_end option" where
  "merge_ends ends step_ended = (if ends = Some StepMaxTokens then ends else step_ended)"

definition next_step_empty :: "bool driver" where
  "next_step_empty = reads (\<lambda>h. ib_next_step (ag_inbox h) = [])"

definition max_steps_text :: "agent_env \<Rightarrow> nat \<Rightarrow> string" where
  "max_steps_text env n = ''agent '' @ ae_id env @ '' exceeded maxStepsPerTurn ('' @ show_nat n @ '')''"

text \<open>After the step: the stopping hook runs when the turn is about to end; the loop goes on when
  steering arrived.\<close>

definition after_step :: "step_end option \<Rightarrow> user_message option \<Rightarrow> (turn_vars + (turn_end_reason \<times> bool)) driver" where
  "after_step ends latest =
     (case ends of
        None \<Rightarrow> return (Inl (ends, NextStep, latest))
      | Some r \<Rightarrow>
          chain next_step_empty
            (\<lambda>empty. if \<not> empty then return (Inl (ends, NextStep, latest))
               else chain (await as_resumed)
                 (\<lambda>_. chain throw_if_aborted
                    (\<lambda>_. chain next_step_empty
                       (\<lambda>still. return (if still then Inr (end_reason r, True)
                                        else Inl (ends, NextStep, latest)))))))"

text \<open>One iteration. A result carries the turn's end, and whether the driver looks for the next
  turn afterwards.\<close>

text \<open>The entered messages run one step, end the turn, or own only its boundary.\<close>

definition enter_step ::
    "agent_env \<Rightarrow> int \<Rightarrow> step_end option \<Rightarrow> int \<Rightarrow> prompt_assembly \<Rightarrow> user_message list \<times> user_message option
       \<Rightarrow> (turn_vars + (turn_end_reason \<times> bool)) driver" where
  "enter_step env turn ends done_steps assembly x =
     (if fst x = [] \<and> ends \<noteq> None then return (Inr (end_reason (the ends), True))
      else if fst x = [] \<and> done_steps = 0 then return (Inr (TurnCompleted, False))
      else chain throw_if_aborted
        (\<lambda>_. chain (open_step env turn (done_steps + 1) (fst x) assembly)
           (\<lambda>step_ended. chain throw_if_aborted (\<lambda>_. after_step (merge_ends ends step_ended) (snd x)))))"

definition decided_step ::
    "agent_env \<Rightarrow> int \<Rightarrow> step_end option \<Rightarrow> user_message option \<Rightarrow> int \<Rightarrow> prepared_step
       \<Rightarrow> (turn_vars + (turn_end_reason \<times> bool)) driver" where
  "decided_step env turn ends latest done_steps decision =
     (case decision of
        StepRejected \<Rightarrow> return (Inr (TurnBlocked, False))
      | StepEntered entered assembly \<Rightarrow>
          chain (anchored_messages env turn ends latest entered)
            (enter_step env turn ends done_steps assembly))"

definition capped_step ::
    "agent_env \<Rightarrow> int \<Rightarrow> turn_vars \<Rightarrow> int \<Rightarrow> nat \<Rightarrow> (turn_vars + (turn_end_reason \<times> bool)) driver" where
  "capped_step env turn vars done_steps cap =
     (case vars of (ends, target, latest) \<Rightarrow>
        (if int cap < done_steps + 1
         then throw (LlmFailed (plain_failure (max_steps_text env cap) ''MAX_STEPS''))
         else chain (awaited (pre_step env target turn)) (decided_step env turn ends latest done_steps)))"

definition turn_round :: "agent_env \<Rightarrow> int \<Rightarrow> turn_vars \<Rightarrow> (turn_vars + (turn_end_reason \<times> bool)) driver" where
  "turn_round env turn vars =
     chain throw_if_aborted
       (\<lambda>_. chain (reads (\<lambda>h. (phase_step (ag_phase h), ag_max_steps h)))
          (\<lambda>x. capped_step env turn vars (fst x) (snd x)))"

definition close_turn :: "int \<Rightarrow> turn_end_reason \<Rightarrow> unit driver" where
  "close_turn turn reason =
     try_catch (chain (append_log (TurnEnd turn reason) None None) (\<lambda>_. return ())) throw_error"

text \<open>The catch of a turn: cancellation ends it as aborted, any other failure is reported and
  recorded.\<close>

definition failed_turn :: "agent_env \<Rightarrow> driver_error \<Rightarrow> turn_end_reason driver" where
  "failed_turn env e =
     chain (reads (\<lambda>h. phase_abort (ag_phase h)))
       (\<lambda>a. case a of
          Some c \<Rightarrow> return (TurnAborted c)
        | None \<Rightarrow> chain (report_error e) (\<lambda>_. return (TurnError (failure_of env e))))"

definition run_steps :: "agent_env \<Rightarrow> int \<Rightarrow> (turn_end_reason \<times> bool) driver" where
  "run_steps env turn = loop script_left (turn_round env turn) (None, NextTurn, None)"

definition turn_body :: "agent_env \<Rightarrow> int \<Rightarrow> bool driver" where
  "turn_body env turn =
     chain
       (try_catch
          (chain (run_steps env turn) (\<lambda>r. return (Inr r)))
          (\<lambda>e. chain (failed_turn env e) (\<lambda>reason. return (Inl (reason, e)))))
       (\<lambda>r. case r of
          Inl (reason, e) \<Rightarrow> chain (close_turn turn reason) (\<lambda>_. throw e)
        | Inr (reason, go_on) \<Rightarrow> chain (close_turn turn reason) (\<lambda>_. return go_on))"

fun renewed :: "phase \<Rightarrow> phase" where
  "renewed (Running _ t _ _) = Running None t 0 False"
| "renewed p = p"

text \<open>After the turn: go on while work is queued, with a fresh controller and step count.\<close>

definition renew_turn :: "bool \<Rightarrow> bool driver" where
  "renew_turn go_on =
     (if \<not> go_on then return False
      else chain (reads (\<lambda>h. has_pending (ag_inbox h)))
        (\<lambda>more. if \<not> more then return False
           else chain (upd_phase renewed) (\<lambda>_. return True)))"

definition open_turn :: "agent_env \<Rightarrow> int \<Rightarrow> bool driver" where
  "open_turn env turn =
     chain (try_catch (chain (append_log (TurnStart turn) None None) (\<lambda>_. return ())) throw_error)
       (\<lambda>_. chain (upd_phase (at_turn turn)) (\<lambda>_. chain (turn_body env turn) renew_turn))"

definition run_turn :: "agent_env \<Rightarrow> bool driver" where
  "run_turn env =
     chain (reads ag_phase)
       (\<lambda>p. if \<not> status_running p
          then throw_error (Raised (''agent '' @ ae_id env @ '': turn without driver reservation''))
          else chain throw_if_aborted (\<lambda>_. open_turn env (phase_turn p + 1)))"

section \<open>The phase machine\<close>

definition again_round :: "bool driver \<Rightarrow> unit \<Rightarrow> (unit + unit) driver" where
  "again_round m _ = chain m (\<lambda>again. return (if again then Inl () else Inr ()))"

definition turns_loop :: "agent_env \<Rightarrow> unit driver" where
  "turns_loop env = loop script_left (again_round (awaited (run_turn env))) ()"

text \<open>The driver boundary: failures end here; a latched wake asks for another driver.\<close>

definition retire :: "bool driver" where
  "retire =
     chain (reads ag_phase)
       (\<lambda>p. case p of
          Running _ turn _ wake \<Rightarrow>
            chain (modify (set_phase (Idle turn)))
              (\<lambda>_. reads (\<lambda>h. wake \<and> has_pending (ag_inbox h)))
        | _ \<Rightarrow> return False)"

definition kick :: "agent_env \<Rightarrow> bool driver" where
  "kick env = chain (try_catch (turns_loop env) (\<lambda>_. return ())) (\<lambda>_. retire)"

definition start_driver :: "unit driver" where
  "start_driver = modify (\<lambda>h. set_phase (Running None (phase_turn (ag_phase h)) 0 False) h)"

definition run_driver :: "agent_env \<Rightarrow> unit driver" where
  "run_driver env = loop script_left (again_round (chain start_driver (\<lambda>_. kick env))) ()"

definition wake_driver :: "agent_env \<Rightarrow> bool \<Rightarrow> unit driver" where
  "wake_driver env after_abort =
     chain (reads (\<lambda>h. is_idle (ag_phase h)))
       (\<lambda>idle. if idle then run_driver env else modify (latch_wake after_abort))"

definition of_update :: "(agent \<Rightarrow> (driver_error, agent) result) \<Rightarrow> unit driver" where
  "of_update f h = (case f h of Inl e \<Rightarrow> (Thrown e, h) | Inr h' \<Rightarrow> (Returned (), h'))"

definition send :: "agent_env \<Rightarrow> user_message \<Rightarrow> inbox_target \<Rightarrow> bool \<Rightarrow> unit driver" where
  "send env m target wakeup =
     chain (reads (\<lambda>h. waking_after_abort wakeup (ag_phase h)))
       (\<lambda>late. chain (of_update (queue_message m target wakeup))
          (\<lambda>_. if wakeup then wake_driver env late else return ()))"

definition cancel :: "agent_cancel_cause \<Rightarrow> bool \<Rightarrow> unit driver" where
  "cancel cause keep = of_update (cancel_work cause keep)"

definition end_maintenance :: "agent_env \<Rightarrow> int \<Rightarrow> unit driver" where
  "end_maintenance env last_turn =
     chain (reads ag_phase)
       (\<lambda>q. chain (modify (set_phase (Idle last_turn)))
          (\<lambda>_. chain (reads (\<lambda>h. has_pending (ag_inbox h)))
             (\<lambda>more. case q of
                Maintenance _ _ wake \<Rightarrow> if wake \<and> more then wake_driver env False else return ()
              | _ \<Rightarrow> return ())))"

definition maintain :: "agent_env \<Rightarrow> int \<Rightarrow> unit driver" where
  "maintain env last_turn =
     chain (modify (set_phase (Maintenance None last_turn False)))
       (\<lambda>_. try_finally (await as_resumed) (end_maintenance env last_turn))"

definition run_maintenance :: "agent_env \<Rightarrow> unit driver" where
  "run_maintenance env =
     chain (reads ag_phase)
       (\<lambda>p. case p of
          Idle last_turn \<Rightarrow> maintain env last_turn
        | _ \<Rightarrow> throw (Raised (''agent '' @ ae_id env @ '' already has active work'')))"

section \<open>Construction and use\<close>

definition last_turn_of :: "event_log \<Rightarrow> int" where
  "last_turn_of events =
     (case find_last (\<lambda>e. case ev_data e of TurnStart _ \<Rightarrow> True | _ \<Rightarrow> False) events of
        Some e \<Rightarrow> (case ev_data e of TurnStart t \<Rightarrow> t | _ \<Rightarrow> 0)
      | None \<Rightarrow> 0)"

definition new_agent :: "session \<Rightarrow> int \<Rightarrow> nat \<Rightarrow> nat \<Rightarrow> host_script \<Rightarrow> (inbox_error, agent) result" where
  "new_agent s now cap steps script =
     rmap (\<lambda>ib. \<lparr>ag_session = s, ag_inbox = ib, ag_phase = Idle (last_turn_of (ses_log s)),
                 ag_header_logged = False,
                 ag_retained = restore_retained (session_nodes s) (rev (ses_log s)) None,
                 ag_pool = new_pool 0 cap False, ag_clock = now, ag_ids = 0, ag_max_parallel = cap,
                 ag_max_steps = steps, ag_emitted = [], ag_sent = [], ag_script = script\<rparr>)
       (new_inbox (ses_header s) (ses_log s))"

datatype agent_use =
    UseSend user_message inbox_target bool
  | UseCancel agent_cancel_cause bool
  | UseMaintenance

fun use_agent :: "agent_env \<Rightarrow> agent_use \<Rightarrow> unit driver" where
  "use_agent env (UseSend m target wakeup) = send env m target wakeup"
| "use_agent env (UseCancel cause keep) = cancel cause keep"
| "use_agent env UseMaintenance = run_maintenance env"

end
