(* ===== verification/Agent_Invariant.thy ===== *)
theory Agent_Invariant
  imports Agent_Turn
begin

text \<open>
  The invariant of a running driver. \<open>within\<close> says that the agent's parts agree with its log (the
  session is coherent, the inbox is the replay of its splices, no pool exceeds its cap), that
  the phase counts the given turn and step, and that the log, accepted by the turn invariant, is
  at the given place. Whatever other code does between two steps of the driver keeps it.
\<close>

section \<open>Places of a log\<close>

definition log_of :: "agent \<Rightarrow> event_log" where
  "log_of h = ses_log (ag_session h)"

text \<open>Every model message names distinct calls.\<close>

definition calls_distinct :: "event_log \<Rightarrow> bool" where
  "calls_distinct log \<longleftrightarrow>
     (\<forall>e\<in>set log. case ev_data e of
        AssistantMessageEv _ _ m _ \<Rightarrow> distinct (map fst (tool_blocks (am_content m))) | _ \<Rightarrow> True)"

datatype place = Between | InTurn | InStep "call_id set"

definition positioned :: "place \<Rightarrow> int \<Rightarrow> int \<Rightarrow> event_log \<Rightarrow> bool" where
  "positioned pl turn step log \<longleftrightarrow>
     (calls_distinct log \<longrightarrow>
       (\<exists>tr. seed_session log = Inr tr \<and>
         (case pl of
            Between \<Rightarrow> tr_open_turn tr = None \<and> tr_next_turn tr = turn + 1
          | InTurn \<Rightarrow> tr_open_turn tr = Some turn \<and> tr_open_step tr = None \<and> tr_next_step tr = step + 1
          | InStep P \<Rightarrow> tr_open_turn tr = Some turn \<and> tr_open_step tr = Some step \<and> tr_pending tr = P)))"

text \<open>Call and result events, with their own and the cited sequence number.\<close>

definition call_entry :: "session_event \<Rightarrow> (nat \<times> call_id) list" where
  "call_entry e = (case ev_data e of ToolCall _ _ i _ _ \<Rightarrow> [(ev_seq e, i)] | _ \<Rightarrow> [])"

definition result_entry :: "session_event \<Rightarrow> (nat \<times> call_id) list" where
  "result_entry e =
     (case (ev_data e, ev_sources e) of
        (ToolResult d, Some (JArr [JNum (NInt n)])) \<Rightarrow> [(nat n, trm_call_id (trd_message d))]
      | _ \<Rightarrow> [])"

definition calls_of :: "event_log \<Rightarrow> (nat \<times> call_id) list" where
  "calls_of es = concat (map call_entry es)"

definition results_of :: "event_log \<Rightarrow> (nat \<times> call_id) list" where
  "results_of es = concat (map result_entry es)"

lemma entries_append [simp]:
  "calls_of (xs @ ys) = calls_of xs @ calls_of ys" "results_of (xs @ ys) = results_of xs @ results_of ys"
  "calls_of [] = []" "results_of [] = []" "calls_of [e] = call_entry e" "results_of [e] = result_entry e"
  by (simp_all add: calls_of_def results_of_def)

text \<open>Events that other code appends on its own: none of the driver's boundaries, requests, chunks,
  calls or results, and no inbox splice.\<close>

fun independent :: "event_data \<Rightarrow> bool" where
  "independent (UserMessageEv _) = True"
| "independent (CompactionStart _) = True"
| "independent (CompactionSummary _) = True"
| "independent (CompactionEnd _) = True"
| "independent (CompactionPrune _ _ _ _) = True"
| "independent (GoalChange _) = True"
| "independent (ScheduleChange _) = True"
| "independent (OtherEvent _ _) = True"
| "independent _ = False"

fun action_ok :: "host_action \<Rightarrow> bool" where
  "action_ok (OtherAppend d _ _) = independent d"
| "action_ok _ = True"

definition script_ok :: "host_script \<Rightarrow> bool" where
  "script_ok script \<longleftrightarrow> (\<forall>(acts, ans)\<in>set script. \<forall>a\<in>set acts. action_ok a)"

fun quiet :: "event_data \<Rightarrow> bool" where
  "quiet (InboxSpliced _) = True"
| "quiet d = independent d"

lemma independent_quiet: "independent d \<Longrightarrow> quiet d"
  by (cases d) simp_all

lemma quiet_entries: "quiet (ev_data e) \<Longrightarrow> call_entry e = [] \<and> result_entry e = []"
  by (cases "ev_data e") (simp_all add: call_entry_def result_entry_def)

lemma calls_distinct_append [simp]: "calls_distinct (xs @ ys) \<longleftrightarrow> calls_distinct xs \<and> calls_distinct ys"
  by (auto simp: calls_distinct_def)

lemma positioned_event:
  assumes pos: "positioned pl t s log" and contiguous: "contiguous log" and seq: "ev_seq e = length log"
    and move: "\<And>tr. tr_last_seq tr < int (ev_seq e) \<Longrightarrow> seed_session log = Inr tr \<Longrightarrow> trace_wf tr \<Longrightarrow> calls_distinct [e] \<Longrightarrow>
      (case pl of
            Between \<Rightarrow> tr_open_turn tr = None \<and> tr_next_turn tr = t + 1
          | InTurn \<Rightarrow> tr_open_turn tr = Some t \<and> tr_open_step tr = None \<and> tr_next_step tr = s + 1
          | InStep P \<Rightarrow> tr_open_turn tr = Some t \<and> tr_open_step tr = Some s \<and> tr_pending tr = P) \<Longrightarrow>
      \<exists>tr'. trace_step tr e = Inr tr' \<and>
        (case pl' of
            Between \<Rightarrow> tr_open_turn tr' = None \<and> tr_next_turn tr' = t' + 1
          | InTurn \<Rightarrow> tr_open_turn tr' = Some t' \<and> tr_open_step tr' = None \<and> tr_next_step tr' = s' + 1
          | InStep P \<Rightarrow> tr_open_turn tr' = Some t' \<and> tr_open_step tr' = Some s' \<and> tr_pending tr' = P)"
  shows "positioned pl' t' s' (log @ [e])"
  unfolding positioned_def
proof
  assume d: "calls_distinct (log @ [e])"
  with pos obtain tr where tr: "seed_session log = Inr tr"
    and at: "case pl of
            Between \<Rightarrow> tr_open_turn tr = None \<and> tr_next_turn tr = t + 1
          | InTurn \<Rightarrow> tr_open_turn tr = Some t \<and> tr_open_step tr = None \<and> tr_next_step tr = s + 1
          | InStep P \<Rightarrow> tr_open_turn tr = Some t \<and> tr_open_step tr = Some s \<and> tr_pending tr = P"
    by (auto simp: positioned_def)
  have last: "tr_last_seq tr < int (ev_seq e)" using trace_last_seq [OF tr contiguous] seq by simp
  have wf: "trace_wf tr" using tr unfolding seed_session_def by (rule trace.wf_fold)
  from move [OF last tr wf _ at] d tr
  show "\<exists>tr. seed_session (log @ [e]) = Inr tr \<and>
         (case pl' of
            Between \<Rightarrow> tr_open_turn tr = None \<and> tr_next_turn tr = t' + 1
          | InTurn \<Rightarrow> tr_open_turn tr = Some t' \<and> tr_open_step tr = None \<and> tr_next_step tr = s' + 1
          | InStep P \<Rightarrow> tr_open_turn tr = Some t' \<and> tr_open_step tr = Some s' \<and> tr_pending tr = P)"
    by (auto simp: seed_session_def fold_log_snoc)
qed

lemma quiet_trace:
  "quiet (ev_data e) \<Longrightarrow> tr_last_seq tr < int (ev_seq e) \<Longrightarrow> trace_step tr e = Inr (tr\<lparr>tr_last_seq := int (ev_seq e)\<rparr>)"
  by (cases "ev_data e") (simp_all add: trace_simps)

lemma positioned_quiet:
  assumes "positioned pl t s log" "contiguous log" "ev_seq e = length log" "quiet (ev_data e)"
  shows "positioned pl t s (log @ [e])"
  by (rule positioned_event [OF assms(1-3)]) (simp add: quiet_trace [OF assms(4)] split: place.splits)

section \<open>The agent's own parts\<close>

definition seed_fits :: "session \<Rightarrow> bool" where
  "seed_fits s \<longleftrightarrow> (case sh_seed_length (ses_header s) of Some n \<Rightarrow> n | None \<Rightarrow> 0) \<le> length (ses_log s)"

definition pool_bounded :: "tool_pool \<Rightarrow> bool" where
  "pool_bounded p \<longleftrightarrow> length (tp_in_flight p) \<le> tp_cap p"

text \<open>What settlements do to a pool while the driver waits.\<close>

definition pool_noise :: "tool_pool \<Rightarrow> tool_pool \<Rightarrow> bool" where
  "pool_noise = (\<lambda>p p'. \<exists>i r. p' = settle_call i r p)\<^sup>*\<^sup>*"

lemma pool_noise_refl [simp]: "pool_noise p p"
  by (simp add: pool_noise_def)

lemma pool_noise_trans: "pool_noise p q \<Longrightarrow> pool_noise q r \<Longrightarrow> pool_noise p r"
  unfolding pool_noise_def by (rule rtranclp_trans)

lemma pool_noise_settle: "pool_noise p (settle_call i r p)"
  unfolding pool_noise_def by (rule r_into_rtranclp) blast

text \<open>A property of pools that settling one call keeps is kept by waiting.\<close>

lemma pool_noise_induct:
  assumes "pool_noise p p'" "P p" "\<And>q i r. P q \<Longrightarrow> P (settle_call i r q)"
  shows "P p'"
  using assms(1) unfolding pool_noise_def
  by (induction rule: rtranclp_induct) (use assms in auto)

definition agent_ok :: "agent \<Rightarrow> bool" where
  "agent_ok h \<longleftrightarrow>
     session_ok (ag_session h) \<and> seed_fits (ag_session h)
     \<and> new_inbox (ses_header (ag_session h)) (log_of h) = Inr (ag_inbox h)
     \<and> pool_bounded (ag_pool h) \<and> script_ok (ag_script h)"

lemma agent_ok_contiguous: "agent_ok h \<Longrightarrow> contiguous (log_of h)"
  by (simp add: agent_ok_def log_of_def session_ok_contiguous)

lemma log_append_shape:
  assumes ok: "session_ok (ag_session h)" and app: "log_append d op srcs h = Inr (e, h')"
  shows "\<exists>s r. h' = h\<lparr>ag_session := s, ag_retained := r\<rparr> \<and> session_ok s \<and> ses_log s = log_of h @ [e]
    \<and> ses_header s = ses_header (ag_session h) \<and> ev_seq e = length (log_of h) \<and> ev_data e = d
    \<and> ev_surface_op e = op \<and> ev_sources e = srcs"
proof -
  from app obtain s where s: "append_event (ag_session h) (ag_clock h) d op srcs = Inr (s, e)"
    and h': "h' = h\<lparr>ag_session := s, ag_retained := follow_retained (ag_retained h) e\<rparr>"
    by (auto simp: log_append_def split: sum.splits)
  have e: "e = new_event (ag_session h) (ag_clock h) d op srcs"
    using s by (auto simp: append_event_def rbind_eq_Inr rmap_eq_Inr Let_def)
  show ?thesis
    using append_event_ok [OF ok s] h' by (intro exI [of _ s] exI conjI) (simp_all add: e new_event_def log_of_def)
qed

lemma log_append_only_runs:
  assumes "session_ok (ag_session h)" "log_only d"
  shows "\<exists>e h'. log_append d None None h = Inr (e, h')"
  using append_log_only [OF assms, of "ag_clock h"] by (auto simp: log_append_def)

lemma other_replay: "(\<forall>sp. ev_data e \<noteq> InboxSpliced sp) \<Longrightarrow> replay_inbox_event ib e = Inr ib"
  by (cases "ev_data e") (simp_all add: replay_inbox_event_def)

lemma log_append_agent_ok:
  assumes ok: "agent_ok h" and app: "log_append d op srcs h = Inr (e, h')" and d: "\<forall>sp. d \<noteq> InboxSpliced sp"
  shows "agent_ok h'" "log_of h' = log_of h @ [e]" "ev_seq e = length (log_of h)" "ev_data e = d"
    "ev_surface_op e = op" "ev_sources e = srcs" "ag_phase h' = ag_phase h" "ag_pool h' = ag_pool h"
    "ag_inbox h' = ag_inbox h" "ag_script h' = ag_script h"
proof -
  have sok: "session_ok (ag_session h)" using ok by (simp add: agent_ok_def)
  from log_append_shape [OF sok app] obtain s r where h': "h' = h\<lparr>ag_session := s, ag_retained := r\<rparr>"
    and s: "session_ok s" "ses_log s = log_of h @ [e]" "ses_header s = ses_header (ag_session h)"
    and e: "ev_seq e = length (log_of h)" "ev_data e = d" "ev_surface_op e = op" "ev_sources e = srcs"
    by blast
  have "new_inbox (ses_header (ag_session h)) (log_of h @ [e]) = Inr (ag_inbox h)"
    using new_inbox_more [of "ses_header (ag_session h)" "log_of h" "ag_inbox h" "[e]"] ok other_replay [of e] d e(2)
    by (simp add: agent_ok_def seed_fits_def log_of_def)
  then show "agent_ok h'"
    using ok s by (simp add: agent_ok_def h' log_of_def seed_fits_def)
  show "log_of h' = log_of h @ [e]" "ag_phase h' = ag_phase h" "ag_pool h' = ag_pool h"
    "ag_inbox h' = ag_inbox h" "ag_script h' = ag_script h"
    using s by (simp_all add: h' log_of_def)
  show "ev_seq e = length (log_of h)" "ev_data e = d" "ev_surface_op e = op" "ev_sources e = srcs"
    by (fact e)+
qed

lemma log_splices_ok:
  assumes "session_ok (ag_session h)" "log_splices sps h = Inr h'"
  shows "session_ok (ag_session h') \<and> ses_header (ag_session h') = ses_header (ag_session h)
    \<and> (\<exists>es. log_of h' = log_of h @ es \<and> map ev_data es = map InboxSpliced sps)
    \<and> ag_phase h' = ag_phase h \<and> ag_pool h' = ag_pool h \<and> ag_script h' = ag_script h"
  using assms
proof (induction sps arbitrary: h)
  case (Cons sp sps)
  from Cons.prems(2) obtain e h1 where app: "log_append (InboxSpliced sp) None None h = Inr (e, h1)"
    and rest: "log_splices sps h1 = Inr h'"
    by (auto simp: rbind_eq_Inr)
  from log_append_shape [OF Cons.prems(1) app] obtain s r where h1: "h1 = h\<lparr>ag_session := s, ag_retained := r\<rparr>"
      "session_ok s" "ses_log s = log_of h @ [e]" "ses_header s = ses_header (ag_session h)" "ev_data e = InboxSpliced sp"
    by blast
  then have "session_ok (ag_session h1)" by simp
  from Cons.IH [OF this rest] h1 obtain es where "log_of h' = log_of h1 @ es" "map ev_data es = map InboxSpliced sps"
    by auto
  with Cons.IH [OF \<open>session_ok (ag_session h1)\<close> rest] h1 show ?case
    by (auto simp: log_of_def intro!: exI [of _ "e # es"])
qed (simp add: log_of_def)

lemma log_splices_runs: "session_ok (ag_session h) \<Longrightarrow> \<exists>h'. log_splices sps h = Inr h'"
proof (induction sps arbitrary: h)
  case (Cons sp sps)
  obtain e h1 where app: "log_append (InboxSpliced sp) None None h = Inr (e, h1)"
    using log_append_only_runs [OF Cons.prems, of "InboxSpliced sp"] by auto
  have "session_ok (ag_session h1)" using log_append_shape [OF Cons.prems app] by (elim exE conjE) simp
  from Cons.IH [OF this] app show ?case by auto
qed simp

lemma replay_splices:
  "map ev_data es = map InboxSpliced sps \<Longrightarrow> fold_log apply_splice ib sps = Inr ib'
     \<Longrightarrow> fold_log replay_inbox_event ib es = Inr ib'"
proof (induction sps arbitrary: es ib)
  case (Cons sp sps)
  then obtain e es' where es: "es = e # es'" "ev_data e = InboxSpliced sp" "map ev_data es' = map InboxSpliced sps"
    by (cases es) auto
  from Cons.prems(2) obtain ib1 where "apply_splice ib sp = Inr ib1" "fold_log apply_splice ib1 sps = Inr ib'"
    by (auto simp: rbind_eq_Inr)
  then show ?case using Cons.IH [OF es(3)] es by (simp add: replay_inbox_event_def)
qed simp

lemma inbox_call_ok:
  assumes ok: "agent_ok h" and call: "inbox_call c h = Inr (ms, h')"
  shows "agent_ok h'" "\<exists>es. log_of h' = log_of h @ es \<and> (\<forall>e\<in>set es. \<exists>sp. ev_data e = InboxSpliced sp)"
    "ag_phase h' = ag_phase h" "ag_pool h' = ag_pool h" "ag_script h' = ag_script h"
proof -
  from call obtain out h1 where out: "run_inbox (ag_inbox h) c = Inr out" and log: "log_splices (io_splices out) h = Inr h1"
    and h': "h' = h1\<lparr>ag_inbox := io_state out, ag_emitted := ag_emitted h1 @ map EmitInbox (io_notes out)\<rparr>"
    by (auto simp: inbox_call_def rmap_eq_Inr split: sum.splits)
  have sok: "session_ok (ag_session h)" using ok by (simp add: agent_ok_def)
  from log_splices_ok [OF sok log] obtain es where h1: "session_ok (ag_session h1)"
      "ses_header (ag_session h1) = ses_header (ag_session h)" "log_of h1 = log_of h @ es" "map ev_data es = map InboxSpliced (io_splices out)"
      "ag_phase h1 = ag_phase h" "ag_pool h1 = ag_pool h" "ag_script h1 = ag_script h"
    by auto
  have "fold_log replay_inbox_event (ag_inbox h) es = Inr (io_state out)"
    by (rule replay_splices [OF h1(4) run_inbox_apply [OF out]])
  then have "new_inbox (ses_header (ag_session h)) (log_of h @ es) = Inr (io_state out)"
    using new_inbox_more [of "ses_header (ag_session h)" "log_of h" "ag_inbox h" es] ok
    by (simp add: agent_ok_def seed_fits_def log_of_def)
  then show "agent_ok h'" using ok h1 by (simp add: agent_ok_def h' log_of_def seed_fits_def)
  have "\<exists>sp. ev_data e = InboxSpliced sp" if "e \<in> set es" for e
  proof -
    have "ev_data e \<in> set (map InboxSpliced (io_splices out))" using that h1(4) by (metis image_eqI list.set_map)
    then show ?thesis by auto
  qed
  then show "\<exists>es. log_of h' = log_of h @ es \<and> (\<forall>e\<in>set es. \<exists>sp. ev_data e = InboxSpliced sp)"
    using h1(3) by (auto simp: h' log_of_def)
  show "ag_phase h' = ag_phase h" "ag_pool h' = ag_pool h" "ag_script h' = ag_script h"
    using h1 by (simp_all add: h')
qed

section \<open>Where the driver stands\<close>

definition within :: "place \<Rightarrow> int \<Rightarrow> int \<Rightarrow> int \<Rightarrow> int \<Rightarrow> agent \<Rightarrow> bool" where
  "within pl turn step pt ps h \<longleftrightarrow>
     agent_ok h \<and> (\<exists>a w. ag_phase h = Running a pt ps w) \<and> positioned pl turn step (log_of h)"

text \<open>The calls and results logged behind a base.\<close>

definition traced :: "event_log \<Rightarrow> (nat \<times> call_id) list \<Rightarrow> (nat \<times> call_id) list \<Rightarrow> agent \<Rightarrow> bool" where
  "traced base cs rs h \<longleftrightarrow> (\<exists>es. log_of h = base @ es \<and> calls_of es = cs \<and> results_of es = rs)"

definition driving :: "agent \<Rightarrow> bool" where
  "driving h \<longleftrightarrow> (\<exists>pl turn step pt ps. within pl turn step pt ps h)"

lemma within_driving: "within pl turn step pt ps h \<Longrightarrow> driving h"
  unfolding driving_def by blast

text \<open>What other code does keeps the invariant of the parts and the log's place.\<close>

definition noisy :: "agent \<Rightarrow> agent \<Rightarrow> bool" where
  "noisy h h' \<longleftrightarrow>
     agent_ok h' \<and> (\<exists>es. log_of h' = log_of h @ es \<and> (\<forall>e\<in>set es. quiet (ev_data e)))
     \<and> (\<forall>a t s w. ag_phase h = Running a t s w \<longrightarrow> (\<exists>a' w'. ag_phase h' = Running a' t s w'))
     \<and> ag_script h' = ag_script h \<and> pool_noise (ag_pool h) (ag_pool h')"

lemma positioned_quiet_run:
  assumes "positioned pl t s log" "contiguous (log @ es)" "\<forall>e\<in>set es. quiet (ev_data e)"
  shows "positioned pl t s (log @ es)"
  using assms
proof (induction es rule: rev_induct)
  case (snoc e es)
  have "positioned pl t s (log @ es)" using snoc by (metis append_assoc contiguous_prefix in_set_conv_decomp_first append_is_Nil_conv set_append Un_iff)
  moreover have "contiguous ((log @ es) @ [e])" using snoc.prems(2) by simp
  ultimately show ?case
    using positioned_quiet [of pl t s "log @ es" e] snoc.prems(3) contiguous_snoc [of "log @ es" e] by simp
qed simp

lemma noisy_within:
  assumes st: "within pl turn step pt ps h" and noise: "noisy h h'"
  shows "within pl turn step pt ps h'"
proof -
  from noise obtain es where es: "log_of h' = log_of h @ es" "\<forall>e\<in>set es. quiet (ev_data e)" by (auto simp: noisy_def)
  have ok: "agent_ok h'" using noise by (simp add: noisy_def)
  then have "contiguous (log_of h @ es)" using agent_ok_contiguous [of h'] es(1) by simp
  then have "positioned pl turn step (log_of h')"
    using positioned_quiet_run [OF _ _ es(2)] st es(1) by (simp add: within_def)
  with ok st noise show ?thesis unfolding within_def noisy_def by blast
qed

lemma noisy_traced:
  assumes st: "traced base cs rs h" and noise: "noisy h h'"
  shows "traced base cs rs h'"
proof -
  have quiet_run: "calls_of xs = [] \<and> results_of xs = []" if "\<forall>e\<in>set xs. quiet (ev_data e)" for xs
    using that by (induction xs) (simp_all add: calls_of_def results_of_def quiet_entries)
  from noise obtain es where es: "log_of h' = log_of h @ es" "\<forall>e\<in>set es. quiet (ev_data e)" by (auto simp: noisy_def)
  from st obtain xs where "log_of h = base @ xs" "calls_of xs = cs" "results_of xs = rs"
    by (auto simp: traced_def)
  then have "log_of h' = base @ (xs @ es) \<and> calls_of (xs @ es) = cs \<and> results_of (xs @ es) = rs"
    using es quiet_run [OF es(2)] by simp
  then show ?thesis unfolding traced_def by blast
qed

lemma noisy_refl: "agent_ok h \<Longrightarrow> noisy h h"
  by (simp add: noisy_def)

lemma noisy_trans: "noisy h h1 \<Longrightarrow> noisy h1 h2 \<Longrightarrow> noisy h h2"
proof -
  assume n1: "noisy h h1" and n2: "noisy h1 h2"
  from n1 n2 obtain xs ys where "log_of h1 = log_of h @ xs" "\<forall>e\<in>set xs. quiet (ev_data e)"
      "log_of h2 = log_of h1 @ ys" "\<forall>e\<in>set ys. quiet (ev_data e)"
    by (auto simp: noisy_def)
  then have "\<exists>es. log_of h2 = log_of h @ es \<and> (\<forall>e\<in>set es. quiet (ev_data e))"
    by (intro exI [of _ "xs @ ys"]) auto
  with n1 n2 show "noisy h h2" unfolding noisy_def using pool_noise_trans by metis
qed

lemma abort_phase_shape: "abort_phase c p = (case p of Idle l \<Rightarrow> Idle l
    | Maintenance a l w \<Rightarrow> Maintenance (case a of None \<Rightarrow> Some c | Some d \<Rightarrow> Some d) l w
    | Running a t s w \<Rightarrow> Running (case a of None \<Rightarrow> Some c | Some d \<Rightarrow> Some d) t s w)"
  by (cases p) simp_all

lemma agent_ok_fields [simp]:
  "agent_ok (h\<lparr>ag_phase := p\<rparr>) = agent_ok h" "log_of (h\<lparr>ag_phase := p\<rparr>) = log_of h"
  "agent_ok (h\<lparr>ag_clock := t\<rparr>) = agent_ok h" "log_of (h\<lparr>ag_clock := t\<rparr>) = log_of h"
  "agent_ok (h\<lparr>ag_max_parallel := p', ag_max_steps := s'\<rparr>) = agent_ok h"
  "log_of (h\<lparr>ag_max_parallel := p', ag_max_steps := s'\<rparr>) = log_of h"
  "log_of (h\<lparr>ag_pool := q\<rparr>) = log_of h" "log_of (h\<lparr>ag_script := sc\<rparr>) = log_of h"
  "agent_ok (h\<lparr>ag_ids := n\<rparr>) = agent_ok h" "log_of (h\<lparr>ag_ids := n\<rparr>) = log_of h"
  "agent_ok (h\<lparr>ag_emitted := em\<rparr>) = agent_ok h" "log_of (h\<lparr>ag_emitted := em\<rparr>) = log_of h"
  "agent_ok (h\<lparr>ag_sent := sn\<rparr>) = agent_ok h" "log_of (h\<lparr>ag_sent := sn\<rparr>) = log_of h"
  "agent_ok (h\<lparr>ag_header_logged := b\<rparr>) = agent_ok h" "log_of (h\<lparr>ag_header_logged := b\<rparr>) = log_of h"
  by (simp_all add: agent_ok_def log_of_def)

lemma inbox_call_noisy: "agent_ok h \<Longrightarrow> inbox_call c h = Inr (ms, h') \<Longrightarrow> noisy h h'"
  using inbox_call_ok [of h c ms h'] unfolding noisy_def by (metis quiet.simps(1) pool_noise_refl)

lemma latch_wake_noisy: "agent_ok h \<Longrightarrow> noisy h (latch_wake b h)"
  by (auto simp: latch_wake_def noisy_def)

lemma kept_noisy: "agent_ok h \<Longrightarrow> (\<And>h'. r = Inr h' \<Longrightarrow> noisy h h') \<Longrightarrow> noisy h (kept h r)"
  by (cases r) (simp_all add: kept_def noisy_refl)

lemma settle_call_bounded: "pool_bounded p \<Longrightarrow> pool_bounded (settle_call i r p)"
  by (auto simp: pool_bounded_def settle_call_def split: tool_settlement.splits)

lemma cancel_work_noisy:
  assumes ok: "agent_ok h" and run: "cancel_work c keep h = Inr h'"
  shows "noisy h h'"
proof -
  have abort: "noisy h1 (h1\<lparr>ag_phase := abort_phase c (ag_phase h1)\<rparr>)" if "agent_ok h1" for h1
    using that by (auto simp: noisy_def)
  show ?thesis
  proof (cases keep)
    case True
    then show ?thesis using run ok abort by (auto simp: cancel_work_def)
  next
    case False
    then obtain ms h1 where call: "inbox_call DoClear h = Inr (ms, h1)"
      and h': "h' = (h1\<lparr>ag_phase := set_wake False (ag_phase h1)\<rparr>)\<lparr>ag_phase := abort_phase c (set_wake False (ag_phase h1))\<rparr>"
      using run by (auto simp: cancel_work_def rmap_eq_Inr)
    have n1: "noisy h h1" by (rule inbox_call_noisy [OF ok call])
    then have ok1: "agent_ok h1" by (simp add: noisy_def)
    have n2: "noisy h1 (h1\<lparr>ag_phase := set_wake False (ag_phase h1)\<rparr>)"
      using ok1 by (auto simp: noisy_def)
    have "agent_ok (h1\<lparr>ag_phase := set_wake False (ag_phase h1)\<rparr>)" using ok1 by simp
    from noisy_trans [OF noisy_trans [OF n1 n2] abort [OF this]] show ?thesis by (simp add: h')
  qed
qed

lemma act_noisy:
  assumes ok: "agent_ok h" and a: "action_ok a"
  shows "noisy h (act a h)"
proof (cases a)
  case (SendMessage m target wakeup)
  show ?thesis unfolding SendMessage act.simps
  proof (rule kept_noisy [OF ok])
    fix h' assume "rmap (if wakeup then latch_wake (waking_after_abort wakeup (ag_phase h)) else id)
        (queue_message m target wakeup h) = Inr h'"
    then obtain ms h1 where call: "inbox_call (DoSplice (if waking_after_abort wakeup (ag_phase h) then NextTurn else target)
        (NInf False) (NInt 0) [m]) h = Inr (ms, h1)"
      and h': "h' = (if wakeup then latch_wake (waking_after_abort wakeup (ag_phase h)) h1 else h1)"
      by (auto simp: queue_message_def rmap_eq_Inr)
    have n1: "noisy h h1" by (rule inbox_call_noisy [OF ok call])
    then have "agent_ok h1" by (simp add: noisy_def)
    with n1 show "noisy h h'" using noisy_trans latch_wake_noisy by (auto simp: h')
  qed
next
  case (CancelWork c keep)
  show ?thesis unfolding CancelWork act.simps by (rule kept_noisy [OF ok]) (rule cancel_work_noisy [OF ok])
next
  case (InboxCall c)
  show ?thesis unfolding InboxCall act.simps
    by (rule kept_noisy [OF ok]) (auto simp: rmap_eq_Inr intro: inbox_call_noisy [OF ok])
next
  case (OtherAppend d op srcs)
  then have d: "independent d" using a by simp
  then have sp: "\<forall>sp. d \<noteq> InboxSpliced sp" by (cases d) simp_all
  show ?thesis unfolding OtherAppend act.simps
  proof (rule kept_noisy [OF ok])
    fix h' assume "rmap snd (log_append d op srcs h) = Inr h'"
    then obtain e where app: "log_append d op srcs h = Inr (e, h')" by (auto simp: rmap_eq_Inr)
    show "noisy h h'"
      using log_append_agent_ok [OF ok app sp] independent_quiet [OF d] by (auto simp: noisy_def)
  qed
next
  case (SettleCall i r)
  have "pool_bounded (settle_call i r (ag_pool h))" using ok by (simp add: agent_ok_def settle_call_bounded)
  then show ?thesis using ok by (simp add: SettleCall noisy_def agent_ok_def log_of_def pool_noise_settle)
qed (use ok in \<open>simp_all add: noisy_def\<close>)

section \<open>Waiting keeps the invariant\<close>

text \<open>\<open>stable P\<close>: the entry of the environment's script at which the driver waits keeps \<open>P\<close>.\<close>

definition stable :: "(agent \<Rightarrow> bool) \<Rightarrow> bool" where
  "stable P \<longleftrightarrow> (\<forall>h acts ans rest. P h \<and> ag_script h = (acts, ans) # rest \<longrightarrow> P (fold act acts (h\<lparr>ag_script := rest\<rparr>)))"

lemma acts_noisy: "agent_ok h \<Longrightarrow> \<forall>a\<in>set acts. action_ok a \<Longrightarrow> noisy h (fold act acts h)"
proof (induction acts arbitrary: h)
  case Nil
  then show ?case by (simp add: noisy_refl)
next
  case (Cons a acts)
  have n: "noisy h (act a h)" using Cons.prems by (simp add: act_noisy)
  then have "agent_ok (act a h)" by (simp add: noisy_def)
  then show ?case using Cons n noisy_trans by auto
qed

text \<open>Noise keeps \<open>P\<close>, and so does the entry itself.\<close>

lemma stableI:
  assumes "\<And>h. P h \<Longrightarrow> agent_ok h" "\<And>h h'. P h \<Longrightarrow> noisy h h' \<Longrightarrow> P h'"
    and "\<And>h acts ans rest. P h \<Longrightarrow> ag_script h = (acts, ans) # rest \<Longrightarrow> P (h\<lparr>ag_script := rest\<rparr>)"
  shows "stable P"
  unfolding stable_def
proof (intro allI impI)
  fix h acts ans rest
  assume "P h \<and> ag_script h = (acts, ans) # rest"
  then have st: "P h" and sc: "ag_script h = (acts, ans) # rest" by auto
  have ok: "script_ok ((acts, ans) # rest)" using assms(1) [OF st] sc by (simp add: agent_ok_def)
  have st': "P (h\<lparr>ag_script := rest\<rparr>)" by (rule assms(3) [OF st sc])
  have "noisy (h\<lparr>ag_script := rest\<rparr>) (fold act acts (h\<lparr>ag_script := rest\<rparr>))"
    using ok assms(1) [OF st'] by (intro acts_noisy) (auto simp: script_ok_def)
  with st' show "P (fold act acts (h\<lparr>ag_script := rest\<rparr>))" by (rule assms(2))
qed

lemma within_entry: "within pl turn step pt ps h \<Longrightarrow> ag_script h = x # rest \<Longrightarrow> within pl turn step pt ps (h\<lparr>ag_script := rest\<rparr>)"
  by (auto simp: within_def agent_ok_def log_of_def script_ok_def)

lemma stable_within [intro, simp]: "stable (within pl turn step pt ps)"
  by (rule stableI) (auto intro: noisy_within within_entry, simp add: within_def)

lemma stable_within_traced [intro, simp]: "stable (\<lambda>h. within pl turn step pt ps h \<and> traced base cs rs h)"
  by (rule stableI) (auto intro: noisy_within within_entry noisy_traced, auto simp: within_def traced_def)

lemma stable_conj: "stable P \<Longrightarrow> stable Q \<Longrightarrow> stable (\<lambda>h. P h \<and> Q h)"
  by (simp add: stable_def)

lemma stable_ex: "(\<And>x. stable (P x)) \<Longrightarrow> stable (\<lambda>h. \<exists>x. P x h)"
  unfolding stable_def by blast

lemma stable_const: "stable (\<lambda>h. A)"
  by (simp add: stable_def)

lemma triple_next_answer:
  assumes "stable P" "\<And>h. P h \<Longrightarrow> W h"
  shows "triple P next_answer (\<lambda>_. P) E W"
  using assms by (auto simp: triple_def next_answer_def stable_def split: list.splits)

lemma triple_await:
  assumes "stable P" "\<And>h. P h \<Longrightarrow> W h" "\<And>e h. P h \<Longrightarrow> E e h"
  shows "triple P (await f) (\<lambda>_. P) E W"
  unfolding await_def
  by (rule triple_chain [OF triple_next_answer [OF assms(1,2)]])
    (auto split: host_answer.split option.split intro: triple_return triple_throw triple_suspend assms)

lemma triple_await_value:
  assumes "stable P" "\<And>h. P h \<Longrightarrow> W h"
  shows "triple P (await_value f) (\<lambda>_. P) E W"
  unfolding await_value_def
  by (rule triple_chain [OF triple_next_answer [OF assms]])
    (auto split: option.split intro: triple_return triple_suspend assms)

lemma triple_awaited:
  assumes "triple P m Q E W" "\<And>a. stable (Q a)" "\<And>e. stable (E e)" "\<And>a h. Q a h \<Longrightarrow> W h" "\<And>e h. E e h \<Longrightarrow> W h"
  shows "triple P (awaited m) Q E W"
  unfolding awaited_def resume_def
  by (rule triple_finally [OF assms(1)]) (rule triple_await_value; fact assms)+

end
