(* ===== verification/Agent_Logging.thy ===== *)
theory Agent_Logging
  imports Agent_Invariant
begin

text \<open>
  What each durable step of the driver does to the place of its log: the moves of the turn
  invariant for the events the driver appends, and the triples of its append, inbox and waiting
  operations.
\<close>

section \<open>Moves\<close>

lemma require_open [simp]: "tr_open_turn tr = Some t \<Longrightarrow> tr_open_step tr = Some s \<Longrightarrow> require_open_step tr k t s = Inr ()"
  by simp

named_theorems moves \<open>where an appended event leaves the log\<close>

lemma moves_boundary [moves]:
  assumes "contiguous log" "ev_seq e = length log"
  shows "positioned Between t s log \<Longrightarrow> ev_data e = TurnStart (t + 1) \<Longrightarrow> positioned InTurn (t + 1) 0 (log @ [e])"
    and "positioned InTurn t s log \<Longrightarrow> ev_data e = TurnEnd t r \<Longrightarrow> positioned Between t s (log @ [e])"
    and "positioned InTurn t s log \<Longrightarrow> ev_data e = StepStart t (s + 1) \<Longrightarrow> positioned (InStep {}) t (s + 1) (log @ [e])"
    and "positioned (InStep P) t s log \<Longrightarrow> ev_data e = StepEnd t s \<Longrightarrow> positioned InTurn t s (log @ [e])"
proof -
  show "positioned InTurn (t + 1) 0 (log @ [e])" if "positioned Between t s log" "ev_data e = TurnStart (t + 1)"
    by (rule positioned_event [OF that(1) assms]) (use that(2) in \<open>auto simp: trace_simps trace_wf_def\<close>)
  show "positioned Between t s (log @ [e])" if "positioned InTurn t s log" "ev_data e = TurnEnd t r"
    by (rule positioned_event [OF that(1) assms]) (use that(2) in \<open>auto simp: trace_simps trace_wf_def\<close>)
  show "positioned (InStep {}) t (s + 1) (log @ [e])" if "positioned InTurn t s log" "ev_data e = StepStart t (s + 1)"
    by (rule positioned_event [OF that(1) assms]) (use that(2) in \<open>auto simp: trace_simps trace_wf_def\<close>)
  show "positioned InTurn t s (log @ [e])" if "positioned (InStep P) t s log" "ev_data e = StepEnd t s"
    by (rule positioned_event [OF that(1) assms]) (use that(2) in \<open>auto simp: trace_simps trace_wf_def\<close>)
qed

text \<open>Events of the open step: chunks, the reply, calls and results, and the request records.\<close>

lemma moves_step [moves]:
  assumes "contiguous log" "ev_seq e = length log" "positioned (InStep P) t s log"
  shows "ev_data e = AssistantChunk t s c \<Longrightarrow> positioned (InStep P) t s (log @ [e])"
    and "ev_data e = AssistantMessageEv t s m u \<Longrightarrow> positioned (InStep P) t s (log @ [e])"
    and "ev_data e = ToolCall t s i n a \<Longrightarrow> positioned (InStep (insert i P)) t s (log @ [e])"
    and "ev_data e = RequestHeader eh r \<Longrightarrow> positioned (InStep P) t s (log @ [e])"
    and "ev_data e = RequestContext rc \<Longrightarrow> positioned (InStep P) t s (log @ [e])"
    and "ev_data e = UserMessageEv um \<Longrightarrow> positioned (InStep P) t s (log @ [e])"
  by (rule positioned_event [OF assms(3) assms(1,2)]; auto simp: trace_simps)+

lemma move_result:
  assumes "contiguous log" "ev_seq e = length log" "positioned (InStep P) t s log"
    and "ev_data e = ToolResult d" "ev_surface_op e = Some (JStr ''append'')" "trd_turn d = t" "trd_step d = s"
    and "calls_distinct log \<Longrightarrow> trm_call_id (trd_message d) \<in> P"
  shows "positioned (InStep (P - {trm_call_id (trd_message d)})) t s (log @ [e])"
proof (cases "calls_distinct log")
  case True
  then show ?thesis
    by (intro positioned_event [OF assms(3) assms(1,2)]) (use assms(4-8) in \<open>auto simp: trace_simps\<close>)
next
  case False
  then show ?thesis by (simp add: positioned_def)
qed

lemma positioned_cong: "(calls_distinct log \<Longrightarrow> pl = pl') \<Longrightarrow> positioned pl t s log = positioned pl' t s log"
  by (auto simp: positioned_def)

section \<open>Triples of the basic operations\<close>

lemma within_contiguous: "within pl t s pt ps h \<Longrightarrow> contiguous (log_of h)"
  by (simp add: within_def agent_ok_contiguous)

lemma triple_append:
  assumes "\<And>e h h'. P h \<Longrightarrow> log_append d op srcs h = Inr (e, h') \<Longrightarrow> Q e h'"
    and "\<And>x h. P h \<Longrightarrow> log_append d op srcs h = Inl x \<Longrightarrow> E x h"
  shows "triple P (append_log d op srcs) Q E W"
  using assms by (auto simp: triple_def append_log_def split: sum.splits)

text \<open>One append that moves the log to another place. The trace of calls and results grows by the
  entries of the event.\<close>

lemma within_append:
  assumes st: "within pl t s pt ps h" and app: "log_append d op srcs h = Inr (e, h')" and d: "\<forall>sp. d \<noteq> InboxSpliced sp"
    and move: "\<And>e. contiguous (log_of h) \<Longrightarrow> ev_seq e = length (log_of h) \<Longrightarrow> ev_data e = d \<Longrightarrow> ev_surface_op e = op \<Longrightarrow> ev_sources e = srcs
      \<Longrightarrow> positioned pl t s (log_of h) \<Longrightarrow> positioned pl' t' s' (log_of h @ [e])"
  shows "within pl' t' s' pt ps h'"
proof -
  have ok: "agent_ok h" using st by (simp add: within_def)
  note a = log_append_agent_ok [OF ok app d]
  have "positioned pl' t' s' (log_of h @ [e])"
    by (rule move) (use st a agent_ok_contiguous [OF ok] in \<open>auto simp: within_def\<close>)
  then show ?thesis using a st by (simp add: within_def)
qed

lemma traced_append:
  assumes "agent_ok h" "log_append d op srcs h = Inr (e, h')" "\<forall>sp. d \<noteq> InboxSpliced sp" "traced base cs rs h"
  shows "traced base (cs @ call_entry e) (rs @ result_entry e) h'"
proof -
  note a = log_append_agent_ok [OF assms(1-3)]
  from assms(4) obtain es where "log_of h = base @ es" "calls_of es = cs" "results_of es = rs" by (auto simp: traced_def)
  then show ?thesis using a by (auto simp: traced_def intro!: exI [of _ "es @ [e]"])
qed

lemma log_only_driver [simp]:
  "log_only (TurnStart t)" "log_only (TurnEnd t r)" "log_only (StepStart t s)" "log_only (StepEnd t s)"
  "log_only (AssistantChunk t s c)" "log_only (ToolCall t s i n a)" "log_only (RequestHeader eh r')" "log_only (RequestContext rc)"
  by (simp_all add: log_only_def is_surface_eligible_type_def assert_supported_request_header_def raw_payload_def get_field_def)

lemma triple_append_only:
  assumes only: "log_only d" "\<forall>sp. d \<noteq> InboxSpliced sp"
    and move: "\<And>log e. contiguous log \<Longrightarrow> ev_seq e = length log \<Longrightarrow> ev_data e = d \<Longrightarrow> positioned pl t s log \<Longrightarrow> positioned pl' t' s' (log @ [e])"
  shows "triple (within pl t s pt ps) (append_log d None None) (\<lambda>_. within pl' t' s' pt ps) E W"
proof (rule triple_append)
  show "within pl' t' s' pt ps h'" if "within pl t s pt ps h" "log_append d None None h = Inr (e, h')" for e h h'
    by (rule within_append [OF that only(2) move])
  show "E x h" if "within pl t s pt ps h" "log_append d None None h = Inl x" for x h
  proof -
    have "session_ok (ag_session h)" using that(1) by (simp add: within_def agent_ok_def)
    from log_append_only_runs [OF this only(1)] that(2) show ?thesis by auto
  qed
qed

lemma triple_append_surface:
  assumes d: "\<forall>sp. d \<noteq> InboxSpliced sp"
    and move: "\<And>log e. contiguous log \<Longrightarrow> ev_seq e = length log \<Longrightarrow> ev_data e = d \<Longrightarrow> positioned pl t s log \<Longrightarrow> positioned pl t s (log @ [e])"
    and fail: "\<And>x h. within pl t s pt ps h \<Longrightarrow> E x h"
  shows "triple (within pl t s pt ps) (append_surface d srcs) (\<lambda>_. within pl t s pt ps) E W"
  unfolding append_surface_def
  by (rule triple_append) (rule within_append [OF _ _ d move], assumption+, rule fail)

text \<open>Operations that only make noise.\<close>

lemma triple_use_inbox:
  assumes "\<And>h. P h \<Longrightarrow> agent_ok h" "\<And>h h'. P h \<Longrightarrow> noisy h h' \<Longrightarrow> P h'" "\<And>x h. P h \<Longrightarrow> E x h"
  shows "triple P (use_inbox c) (\<lambda>_. P) E W"
  using assms inbox_call_noisy by (fastforce simp: triple_def use_inbox_def split: sum.splits)

lemma within_frame [simp]:
  "within pl t s pt ps (h\<lparr>ag_ids := n\<rparr>) = within pl t s pt ps h"
  "within pl t s pt ps (h\<lparr>ag_emitted := em\<rparr>) = within pl t s pt ps h"
  "within pl t s pt ps (h\<lparr>ag_sent := sn\<rparr>) = within pl t s pt ps h"
  "within pl t s pt ps (h\<lparr>ag_header_logged := b\<rparr>) = within pl t s pt ps h"
  by (simp_all add: within_def)

lemma traced_frame [simp]:
  "traced base cs rs (h\<lparr>ag_ids := n\<rparr>) = traced base cs rs h"
  "traced base cs rs (h\<lparr>ag_pool := q\<rparr>) = traced base cs rs h"
  by (simp_all add: traced_def)

lemma within_pool: "within pl t s pt ps h \<Longrightarrow> pool_bounded q \<Longrightarrow> within pl t s pt ps (h\<lparr>ag_pool := q\<rparr>)"
  by (auto simp: within_def agent_ok_def log_of_def)

lemma triple_fresh_id: "(\<And>h n. P h \<Longrightarrow> P (h\<lparr>ag_ids := n\<rparr>)) \<Longrightarrow> triple P (fresh_id env) (\<lambda>_. P) E W"
  by (simp add: triple_def fresh_id_def)

lemma triple_throw_if_aborted: "(\<And>x h. P h \<Longrightarrow> E x h) \<Longrightarrow> triple P throw_if_aborted (\<lambda>_. P) E W"
  unfolding throw_if_aborted_def
  by (rule triple_chain [where R = "\<lambda>_. P", OF triple_reads])
    (auto split: option.split intro: triple_return triple_throw)

text \<open>Cached reads leave the log and the agent's parts as they are.\<close>

lemma within_session:
  assumes "within pl t s pt ps h" "session_ok ses" "ses_log ses = ses_log (ag_session h)" "ses_header ses = ses_header (ag_session h)"
  shows "within pl t s pt ps (h\<lparr>ag_session := ses\<rparr>)"
  using assms by (auto simp: within_def agent_ok_def log_of_def seed_fits_def)

lemma read_request_header_header: "read_request_header s = (s', x) \<Longrightarrow> ses_header s' = ses_header s"
  by (auto simp: read_request_header_def Let_def split: if_splits)

lemma read_request_context_header: "read_request_context s = (s', x) \<Longrightarrow> ses_header s' = ses_header s"
  by (auto simp: read_request_context_def Let_def split: if_splits)

lemma read_events_header: "read_events s = (s', x) \<Longrightarrow> ses_header s' = ses_header s"
  by (auto simp: read_events_def split: option.splits)

lemma derive_messages_header: "derive_messages s = Inr (s', x) \<Longrightarrow> ses_header s' = ses_header s"
  by (auto simp: derive_messages_def rbind_eq_Inr rmap_eq_Inr Let_def split: prod.splits)

lemma triple_reads_session:
  "triple (within pl t s pt ps) read_header (\<lambda>_. within pl t s pt ps) E W"
  "triple (within pl t s pt ps) read_context (\<lambda>_. within pl t s pt ps) E W"
  "triple (within pl t s pt ps) read_log (\<lambda>_. within pl t s pt ps) E W"
proof -
  have ok: "session_ok (ag_session h)" if "within pl t s pt ps h" for h
    using that by (simp add: within_def agent_ok_def)
  show "triple (within pl t s pt ps) read_header (\<lambda>_. within pl t s pt ps) E W"
    unfolding triple_def read_header_def
  proof (clarsimp split: prod.splits)
    fix h ses x assume st: "within pl t s pt ps h" and r: "read_request_header (ag_session h) = (ses, x)"
    show "within pl t s pt ps (h\<lparr>ag_session := ses\<rparr>)"
      using read_request_header_ok [OF ok [OF st] r] read_request_header_header [OF r] by (intro within_session [OF st]) auto
  qed
  show "triple (within pl t s pt ps) read_context (\<lambda>_. within pl t s pt ps) E W"
    unfolding triple_def read_context_def
  proof (clarsimp split: prod.splits)
    fix h ses x assume st: "within pl t s pt ps h" and r: "read_request_context (ag_session h) = (ses, x)"
    show "within pl t s pt ps (h\<lparr>ag_session := ses\<rparr>)"
      using read_request_context_ok [OF ok [OF st] r] read_request_context_header [OF r] by (intro within_session [OF st]) auto
  qed
  show "triple (within pl t s pt ps) read_log (\<lambda>_. within pl t s pt ps) E W"
    unfolding triple_def read_log_def
  proof (clarsimp split: prod.splits)
    fix h ses x assume st: "within pl t s pt ps h" and r: "read_events (ag_session h) = (ses, x)"
    show "within pl t s pt ps (h\<lparr>ag_session := ses\<rparr>)"
      using read_events_ok [OF ok [OF st]] read_events_header [OF r] r by (intro within_session [OF st]) auto
  qed
qed

lemma triple_read_messages:
  assumes "\<And>x h. within pl t s pt ps h \<Longrightarrow> E x h"
  shows "triple (within pl t s pt ps) read_messages (\<lambda>_. within pl t s pt ps) E W"
proof (rule tripleI)
  fix h ms h' assume st: "within pl t s pt ps h" and run: "read_messages h = (Returned ms, h')"
  from run obtain ses where d: "derive_messages (ag_session h) = Inr (ses, ms)" and h': "h' = h\<lparr>ag_session := ses\<rparr>"
    by (auto simp: read_messages_def split: sum.splits)
  have ok: "session_ok (ag_session h)" using st by (simp add: within_def agent_ok_def)
  obtain st0 where "fold_log admit admit_init (ses_log (ag_session h)) = Inr (ses_log (ag_session h), st0)"
    using ok by (auto simp: session_ok_def)
  then obtain nodes reps where "fold_surface (ses_log (ag_session h)) = Inr (nodes, reps)"
    using fold_surface_complete by blast
  from derive_messages_ok [OF ok this] d have "session_ok ses" "ses_log ses = ses_log (ag_session h)" by auto
  with derive_messages_header [OF d] show "within pl t s pt ps h'" unfolding h' by (intro within_session [OF st])
next
  fix h x h' assume "within pl t s pt ps h" "read_messages h = (Thrown x, h')"
  then show "E x h'" using assms by (auto simp: read_messages_def split: sum.splits prod.splits)
qed (auto simp: read_messages_def split: sum.splits prod.splits)

end
