(* ===== verification/Tool_Pool.thy ===== *)
theory Tool_Pool
  imports Agent_Logging
begin

text \<open>
  The tool-call scheduler keeps its books: the pool's slots, promises and commit position agree
  at every point, settled results are committed in model order, and when a step's calls are done
  each has one call event and one result event citing it, the ones a cancellation skipped
  included.
\<close>

section \<open>The pool\<close>

text \<open>\<open>busy\<close> is the call being prepared.\<close>

definition pool_inv :: "nat \<Rightarrow> nat set \<Rightarrow> tool_pool \<Rightarrow> bool" where
  "pool_inv n busy p \<longleftrightarrow>
     length (tp_slots p) = n \<and> length (tp_call_seqs p) = n
     \<and> tp_committed p \<le> tp_started p \<and> tp_started p \<le> n
     \<and> (\<forall>i<n. tp_call_seqs p ! i \<noteq> None \<longleftrightarrow> i < tp_started p)
     \<and> (\<forall>i<n. tp_slots p ! i \<noteq> None \<longrightarrow> i < tp_started p \<and> i \<notin> busy)
     \<and> (\<forall>i<tp_committed p. tp_slots p ! i \<noteq> None)
     \<and> distinct (tp_in_flight p) \<and> distinct (tp_settled p) \<and> set (tp_settled p) \<subseteq> set (tp_in_flight p)
     \<and> (\<forall>i\<in>set (tp_in_flight p). i < tp_started p \<and> i \<notin> busy)
     \<and> (\<forall>i\<in>set (tp_in_flight p). i \<notin> set (tp_settled p) \<longrightarrow> tp_slots p ! i = None)
     \<and> (\<forall>i\<in>set (tp_settled p). tp_slots p ! i \<noteq> None \<or> tp_failure p \<noteq> None)
     \<and> (\<forall>i<tp_started p. i \<notin> busy \<and> tp_slots p ! i = None \<longrightarrow> i \<in> set (tp_in_flight p) \<or> tp_failure p \<noteq> None)
     \<and> pool_bounded p"

text \<open>A failure belongs to a promise the pool still waits for.\<close>

definition failure_owned :: "tool_pool \<Rightarrow> bool" where
  "failure_owned p \<longleftrightarrow> (tp_failure p \<noteq> None \<longrightarrow> tp_in_flight p \<noteq> [])"

text \<open>Nothing ready is left uncommitted, but for what settled since.\<close>

definition caught_up :: "tool_pool \<Rightarrow> bool" where
  "caught_up p \<longleftrightarrow> tp_committed p = tp_started p \<or> tp_committed p \<in> set (tp_in_flight p) \<or> tp_failure p \<noteq> None"

lemma settle_fields [simp]:
  "tp_started (settle_call i r p) = tp_started p" "tp_committed (settle_call i r p) = tp_committed p"
  "tp_call_seqs (settle_call i r p) = tp_call_seqs p" "tp_in_flight (settle_call i r p) = tp_in_flight p"
  "tp_aborted (settle_call i r p) = tp_aborted p" "tp_concluded (settle_call i r p) = tp_concluded p"
  "tp_cap (settle_call i r p) = tp_cap p"
  by (simp_all add: settle_call_def split: tool_settlement.split)

definition filled :: "nat \<Rightarrow> tool_pool \<Rightarrow> bool" where
  "filled j p \<longleftrightarrow> j < length (tp_slots p) \<and> tp_slots p ! j \<noteq> None"

lemma settle_slot: "filled j p \<Longrightarrow> filled j (settle_call i r p)"
  by (cases "j = i")
    (auto simp: filled_def settle_call_def nth_list_update split: tool_settlement.split)

lemma settle_inv:
  assumes inv: "pool_inv n busy p"
  shows "pool_inv n busy (settle_call i r p)"
proof (cases "i \<in> set (tp_in_flight p) \<and> i \<notin> set (tp_settled p)")
  case False
  then show ?thesis using inv by (auto simp: settle_call_def)
next
  case True
  then have i: "i < tp_started p" "i \<notin> busy" "i < n" using inv by (auto simp: pool_inv_def)
  show ?thesis
  proof (cases r)
    case (CallFinished out post)
    then show ?thesis using inv True i
      by (auto simp add: settle_call_def pool_inv_def pool_bounded_def nth_list_update)
  next
    case (CallFailed e)
    then show ?thesis using inv True i
      by (simp add: settle_call_def pool_inv_def pool_bounded_def split: option.split)
  qed
qed

lemma settle_failure: "tp_failure p \<noteq> None \<Longrightarrow> tp_failure (settle_call i r p) \<noteq> None"
  by (auto simp: settle_call_def split: tool_settlement.split option.split)

lemma settle_owned: "failure_owned p \<Longrightarrow> failure_owned (settle_call i r p)"
  by (auto simp: failure_owned_def settle_call_def split: tool_settlement.split)

lemma settle_caught_up: "caught_up p \<Longrightarrow> caught_up (settle_call i r p)"
  using settle_failure [of p i r] by (auto simp: caught_up_def)

text \<open>What waiting keeps of a pool.\<close>

lemma noise_keeps:
  assumes "pool_noise p p'"
  shows "tp_started p' = tp_started p" "tp_committed p' = tp_committed p" "tp_call_seqs p' = tp_call_seqs p"
    "tp_in_flight p' = tp_in_flight p" "tp_aborted p' = tp_aborted p" "tp_concluded p' = tp_concluded p"
    "tp_cap p' = tp_cap p"
  using pool_noise_induct [OF assms, where P = "\<lambda>q. tp_started q = tp_started p \<and> tp_committed q = tp_committed p
    \<and> tp_call_seqs q = tp_call_seqs p \<and> tp_in_flight q = tp_in_flight p \<and> tp_aborted q = tp_aborted p
    \<and> tp_concluded q = tp_concluded p \<and> tp_cap q = tp_cap p"]
  by auto

lemma noise_inv: "pool_noise p p' \<Longrightarrow> pool_inv n busy p \<Longrightarrow> pool_inv n busy p'"
  by (rule pool_noise_induct [where P = "pool_inv n busy"]) (auto intro: settle_inv)

lemma noise_owned: "pool_noise p p' \<Longrightarrow> failure_owned p \<Longrightarrow> failure_owned p'"
  by (rule pool_noise_induct [where P = failure_owned]) (auto intro: settle_owned)

lemma noise_caught_up: "pool_noise p p' \<Longrightarrow> caught_up p \<Longrightarrow> caught_up p'"
  by (rule pool_noise_induct [where P = caught_up]) (auto intro: settle_caught_up)

lemma noise_slot: "pool_noise p p' \<Longrightarrow> filled j p \<Longrightarrow> filled j p'"
  by (rule pool_noise_induct [where P = "filled j"]) (auto intro: settle_slot)

section \<open>The group's assertion\<close>

definition entry :: "tool_block list \<Rightarrow> tool_pool \<Rightarrow> nat \<Rightarrow> nat \<times> call_id" where
  "entry calls p i = (the (tp_call_seqs p ! i), fst (calls ! i))"

definition entries :: "tool_block list \<Rightarrow> tool_pool \<Rightarrow> nat \<Rightarrow> (nat \<times> call_id) list" where
  "entries calls p k = map (entry calls p) [0..<k]"

definition open_ids :: "tool_block list \<Rightarrow> nat \<Rightarrow> nat \<Rightarrow> call_id set" where
  "open_ids calls i j = (\<lambda>k. fst (calls ! k)) ` {i..<j}"

definition ids_distinct :: "tool_block list \<Rightarrow> agent \<Rightarrow> bool" where
  "ids_distinct calls h \<longleftrightarrow> (calls_distinct (log_of h) \<longrightarrow> distinct (map fst calls))"

text \<open>The fixed facts of one run of a group: the log and the entries at its start, the position,
  and the calls.\<close>

record group_base =
  gb_base :: event_log
  gb_calls :: "(nat \<times> call_id) list"
  gb_results :: "(nat \<times> call_id) list"
  gb_turn :: int
  gb_step :: int
  gb_blocks :: "tool_block list"

definition in_step :: "group_base \<Rightarrow> call_id set \<Rightarrow> agent \<Rightarrow> bool" where
  "in_step G P = within (InStep P) (gb_turn G) (gb_step G) (gb_turn G) (gb_step G)"

definition lost_step :: "int \<Rightarrow> int \<Rightarrow> agent \<Rightarrow> bool" where
  "lost_step turn step h \<longleftrightarrow> (\<exists>P. within (InStep P) turn step turn step h)"

abbreviation lost :: "group_base \<Rightarrow> agent \<Rightarrow> bool" where
  "lost G \<equiv> lost_step (gb_turn G) (gb_step G)"

definition at_group :: "group_base \<Rightarrow> nat set \<Rightarrow> agent \<Rightarrow> bool" where
  "at_group G busy h \<longleftrightarrow>
     (let p = ag_pool h; calls = gb_blocks G in
      in_step G (open_ids calls (tp_committed p) (tp_started p)) h
      \<and> traced (gb_base G) (gb_calls G @ entries calls p (tp_started p)) (gb_results G @ entries calls p (tp_committed p)) h
      \<and> pool_inv (length calls) busy p \<and> ids_distinct calls h)"

lemma stable_lost [intro, simp]: "stable (lost_step t s)"
  unfolding lost_step_def [abs_def] by (rule stable_ex) simp

lemma lost_driving: "lost_step t s h \<Longrightarrow> driving h"
  by (auto simp: lost_step_def intro: within_driving)

lemma in_step_lost: "in_step G P h \<Longrightarrow> lost G h"
  by (auto simp: in_step_def lost_step_def)

lemma at_group_lost: "at_group G busy h \<Longrightarrow> lost G h"
  by (auto simp: at_group_def Let_def intro: in_step_lost)

lemma noisy_ids: "noisy h h' \<Longrightarrow> ids_distinct calls h \<Longrightarrow> ids_distinct calls h'"
  by (auto simp: noisy_def ids_distinct_def)

lemma noisy_pool: "noisy h h' \<Longrightarrow> pool_noise (ag_pool h) (ag_pool h')"
  by (simp add: noisy_def)

lemma entries_cong: "tp_call_seqs p' = tp_call_seqs p \<Longrightarrow> entries calls p' k = entries calls p k"
  by (simp add: entries_def entry_def)

lemma noisy_at_group:
  assumes g: "at_group G busy h" and noise: "noisy h h'"
  shows "at_group G busy h'"
proof -
  note k = noise_keeps [OF noisy_pool [OF noise]]
  from g show ?thesis
    unfolding at_group_def Let_def k entries_cong [OF k(3)] in_step_def
    using noisy_within [OF _ noise] noisy_traced [OF _ noise] noise_inv [OF noisy_pool [OF noise]] noisy_ids [OF noise]
    by auto
qed

lemma at_group_agent: "at_group G busy h \<Longrightarrow> agent_ok h"
  by (auto simp: at_group_def in_step_def within_def Let_def)

lemma at_group_entry: "at_group G busy h \<Longrightarrow> ag_script h = x # rest \<Longrightarrow> at_group G busy (h\<lparr>ag_script := rest\<rparr>)"
  by (auto simp: at_group_def in_step_def Let_def traced_def ids_distinct_def intro: within_entry)

text \<open>The group's assertion together with a property of the pool that waiting keeps.\<close>

definition keeps_noise :: "(tool_pool \<Rightarrow> bool) \<Rightarrow> bool" where
  "keeps_noise X \<longleftrightarrow> (\<forall>p p'. pool_noise p p' \<and> X p \<longrightarrow> X p')"

lemma keeps_noise_basic [simp]:
  "keeps_noise failure_owned" "keeps_noise caught_up" "keeps_noise (\<lambda>p. True)"
  "keeps_noise X \<Longrightarrow> keeps_noise Y \<Longrightarrow> keeps_noise (\<lambda>p. X p \<and> Y p)"
  "keeps_noise (filled i)"
  "keeps_noise (\<lambda>p. R (tp_started p) (tp_committed p) (tp_call_seqs p) (tp_in_flight p) (tp_aborted p))"
  using noise_owned noise_caught_up noise_slot noise_keeps by (auto simp: keeps_noise_def)

definition grouped :: "group_base \<Rightarrow> nat set \<Rightarrow> (tool_pool \<Rightarrow> bool) \<Rightarrow> agent \<Rightarrow> bool" where
  "grouped G busy X h \<longleftrightarrow> at_group G busy h \<and> X (ag_pool h)"

lemma stable_grouped: "keeps_noise X \<Longrightarrow> stable (grouped G busy X)"
  by (rule stableI)
    (auto simp: grouped_def keeps_noise_def intro: at_group_agent at_group_entry noisy_at_group dest: noisy_pool)

lemma grouped_driving: "grouped G busy X h \<Longrightarrow> driving h"
  by (auto simp: grouped_def intro: lost_driving at_group_lost)

lemma grouped_lost: "grouped G busy X h \<Longrightarrow> lost G h"
  by (auto simp: grouped_def intro: at_group_lost)


section \<open>Triples of the scheduler\<close>

lemma surface_not_splice: "\<forall>sp. ToolResult d \<noteq> InboxSpliced sp" "\<forall>sp. ToolCall t s i n a \<noteq> InboxSpliced sp"
  by simp_all

lemma ids_append:
  assumes "agent_ok h" "log_append d op srcs h = Inr (e, h')" "\<forall>sp. d \<noteq> InboxSpliced sp" "ids_distinct calls h"
  shows "ids_distinct calls h'"
  using log_append_agent_ok [OF assms(1-3)] assms(4) by (auto simp: ids_distinct_def)

text \<open>A step whose calls and results so far are explicit.\<close>

definition booked :: "group_base \<Rightarrow> call_id set \<Rightarrow> (nat \<times> call_id) list \<Rightarrow> (nat \<times> call_id) list \<Rightarrow> agent \<Rightarrow> bool" where
  "booked G P cs rs h \<longleftrightarrow>
     in_step G P h \<and> traced (gb_base G) (gb_calls G @ cs) (gb_results G @ rs) h \<and> ids_distinct (gb_blocks G) h"

lemma booked_agent: "booked G P cs rs h \<Longrightarrow> agent_ok h"
  by (simp add: booked_def in_step_def within_def)

lemma booked_lost: "booked G P cs rs h \<Longrightarrow> lost G h"
  unfolding booked_def by (elim conjE) (rule in_step_lost)

lemma at_group_booked:
  "at_group G busy h \<longleftrightarrow>
     booked G (open_ids (gb_blocks G) (tp_committed (ag_pool h)) (tp_started (ag_pool h)))
       (entries (gb_blocks G) (ag_pool h) (tp_started (ag_pool h)))
       (entries (gb_blocks G) (ag_pool h) (tp_committed (ag_pool h))) h
     \<and> pool_inv (length (gb_blocks G)) busy (ag_pool h)"
  by (auto simp: at_group_def booked_def Let_def)

lemma booked_pool: "booked G P cs rs h \<Longrightarrow> pool_bounded q \<Longrightarrow> booked G P cs rs (h\<lparr>ag_pool := q\<rparr>)"
  by (auto simp: booked_def in_step_def ids_distinct_def intro: within_pool)

lemma booked_noisy: "booked G P cs rs h \<Longrightarrow> noisy h h' \<Longrightarrow> booked G P cs rs h'"
  by (auto simp: booked_def in_step_def intro: noisy_within noisy_traced noisy_ids)

lemma booked_ids [simp]: "booked G P cs rs (h\<lparr>ag_ids := n\<rparr>) = booked G P cs rs h"
  by (simp add: booked_def in_step_def ids_distinct_def)

lemma stable_booked [intro, simp]: "stable (booked G P cs rs)"
  by (rule stableI)
    (auto intro: booked_agent booked_noisy, auto simp: booked_def in_step_def ids_distinct_def traced_def intro: within_entry)

lemma booked_call:
  assumes b: "booked G P cs rs h" and app: "log_append (ToolCall (gb_turn G) (gb_step G) i nm a) None None h = Inr (e, h')"
  shows "booked G (insert i P) (cs @ [(ev_seq e, i)]) rs h' \<and> ag_pool h' = ag_pool h"
proof -
  have ok: "agent_ok h" by (rule booked_agent [OF b])
  note a = log_append_agent_ok [OF ok app surface_not_splice(2)]
  have "within (InStep (insert i P)) (gb_turn G) (gb_step G) (gb_turn G) (gb_step G) h'"
    by (rule within_append [OF _ app surface_not_splice(2), of "InStep P" "gb_turn G" "gb_step G"])
      (use b in \<open>auto simp: booked_def in_step_def intro: moves_step(3)\<close>)
  moreover have "traced (gb_base G) ((gb_calls G @ cs) @ call_entry e) ((gb_results G @ rs) @ result_entry e) h'"
    by (rule traced_append [OF ok app surface_not_splice(2)]) (use b in \<open>simp add: booked_def\<close>)
  moreover have "ids_distinct (gb_blocks G) h'"
    by (rule ids_append [OF ok app surface_not_splice(2)]) (use b in \<open>simp add: booked_def\<close>)
  moreover have "call_entry e = [(ev_seq e, i)]" "result_entry e = []"
    using a(4) by (simp_all add: call_entry_def result_entry_def)
  ultimately show ?thesis using a(8) by (simp add: booked_def in_step_def)
qed

lemma booked_result:
  assumes b: "booked G P cs rs h"
    and app: "log_append (ToolResult (result_payload (gb_turn G) (gb_step G) i mid out)) (Some (surface_op_json OpAppend)) (Some (seqs_json [n])) h = Inr (e, h')"
    and "open": "ids_distinct (gb_blocks G) h \<Longrightarrow> calls_distinct (log_of h) \<Longrightarrow> i \<in> P"
  shows "booked G (P - {i}) cs (rs @ [(n, i)]) h' \<and> ag_pool h' = ag_pool h"
proof -
  have ok: "agent_ok h" by (rule booked_agent [OF b])
  note a = log_append_agent_ok [OF ok app surface_not_splice(1)]
  let ?d = "result_payload (gb_turn G) (gb_step G) i mid out"
  have id: "trm_call_id (trd_message ?d) = i" "trd_turn ?d = gb_turn G" "trd_step ?d = gb_step G" by (simp_all add: result_payload_def)
  have "within (InStep (P - {i})) (gb_turn G) (gb_step G) (gb_turn G) (gb_step G) h'"
  proof (rule within_append [OF _ app surface_not_splice(1), of "InStep P" "gb_turn G" "gb_step G"])
    show "within (InStep P) (gb_turn G) (gb_step G) (gb_turn G) (gb_step G) h" using b by (simp add: booked_def in_step_def)
    fix e :: session_event assume e: "contiguous (log_of h)" "ev_seq e = length (log_of h)" "ev_data e = ToolResult ?d"
      "ev_surface_op e = Some (surface_op_json OpAppend)" "positioned (InStep P) (gb_turn G) (gb_step G) (log_of h)"
    show "positioned (InStep (P - {i})) (gb_turn G) (gb_step G) (log_of h @ [e])"
      using move_result [OF e(1,2,5,3)] e(4) id "open" b by (simp add: booked_def)
  qed
  moreover have "traced (gb_base G) ((gb_calls G @ cs) @ call_entry e) ((gb_results G @ rs) @ result_entry e) h'"
    by (rule traced_append [OF ok app surface_not_splice(1)]) (use b in \<open>simp add: booked_def\<close>)
  moreover have "ids_distinct (gb_blocks G) h'"
    by (rule ids_append [OF ok app surface_not_splice(1)]) (use b in \<open>simp add: booked_def\<close>)
  moreover have "call_entry e = []" "result_entry e = [(n, i)]"
    using a(4,6) id by (simp_all add: call_entry_def result_entry_def seqs_json_def)
  ultimately show ?thesis using a(8) by (simp add: booked_def in_step_def)
qed

lemma triple_tool_call:
  "triple (\<lambda>h. booked G P cs rs h \<and> X (ag_pool h)) (append_tool_call (gb_turn G) (gb_step G) b)
     (\<lambda>n h. booked G (insert (fst b) P) (cs @ [(n, fst b)]) rs h \<and> X (ag_pool h)) (\<lambda>_. lost G) W"
proof -
  obtain i nm a where b: "b = (i, nm, a)" by (cases b)
  show ?thesis unfolding append_tool_call_def b prod.case
    by (rule triple_chain [where R = "\<lambda>e h. booked G (insert i P) (cs @ [(ev_seq e, i)]) rs h \<and> X (ag_pool h)", OF triple_append])
      (auto dest: booked_call intro: booked_lost triple_return)
qed

lemma triple_tool_result:
  assumes "\<And>h. booked G P cs rs h \<Longrightarrow> X (ag_pool h) \<Longrightarrow> calls_distinct (log_of h) \<Longrightarrow> fst b \<in> P"
  shows "triple (\<lambda>h. booked G P cs rs h \<and> X (ag_pool h)) (append_tool_result env (gb_turn G) (gb_step G) b out n)
     (\<lambda>_ h. booked G (P - {fst b}) cs (rs @ [(n, fst b)]) h \<and> X (ag_pool h)) (\<lambda>_. lost G) W"
  unfolding append_tool_result_def append_surface_def option.map
proof (rule triple_chain [OF triple_fresh_id])
  show "\<And>h na. booked G P cs rs h \<and> X (ag_pool h) \<Longrightarrow> booked G P cs rs (h\<lparr>ag_ids := na\<rparr>) \<and> X (ag_pool (h\<lparr>ag_ids := na\<rparr>))" by simp
  fix mid
  show "triple (\<lambda>h. booked G P cs rs h \<and> X (ag_pool h))
     (chain (append_log (ToolResult (result_payload (gb_turn G) (gb_step G) (fst b) mid out)) (Some (surface_op_json OpAppend)) (Some (seqs_json [n])))
        (\<lambda>_. return ()))
     (\<lambda>_ h. booked G (P - {fst b}) cs (rs @ [(n, fst b)]) h \<and> X (ag_pool h)) (\<lambda>_. lost G) W"
  proof (rule triple_chain [where R = "\<lambda>_ h. booked G (P - {fst b}) cs (rs @ [(n, fst b)]) h \<and> X (ag_pool h)", OF triple_append])
    fix e h h' assume "booked G P cs rs h \<and> X (ag_pool h)"
      and "log_append (ToolResult (result_payload (gb_turn G) (gb_step G) (fst b) mid out)) (Some (surface_op_json OpAppend)) (Some (seqs_json [n])) h = Inr (e, h')"
    then show "booked G (P - {fst b}) cs (rs @ [(n, fst b)]) h' \<and> X (ag_pool h')"
      using booked_result [of G P cs rs h "fst b" mid out n e h'] assms by auto
  qed (auto intro: booked_lost triple_return)
qed

lemma triple_skipped:
  assumes "P = {}"
  shows "triple (booked G P cs rs) (append_skipped_tool_call env (gb_turn G) (gb_step G) b)
     (\<lambda>_ h. \<exists>n. booked G P (cs @ [(n, fst b)]) (rs @ [(n, fst b)]) h) (\<lambda>_. lost G) W"
  unfolding append_skipped_tool_call_def
proof (rule triple_chain)
  show "triple (booked G P cs rs) (append_tool_call (gb_turn G) (gb_step G) b)
     (\<lambda>n h. booked G (insert (fst b) P) (cs @ [(n, fst b)]) rs h) (\<lambda>_. lost G) W"
    using triple_tool_call [where X = "\<lambda>_. True"] by simp
  fix n
  have "triple (\<lambda>h. booked G (insert (fst b) P) (cs @ [(n, fst b)]) rs h \<and> True) (append_tool_result env (gb_turn G) (gb_step G) b skipped_outcome n)
     (\<lambda>_ h. booked G (insert (fst b) P - {fst b}) (cs @ [(n, fst b)]) (rs @ [(n, fst b)]) h \<and> True) (\<lambda>_. lost G) W"
    by (rule triple_tool_result [where X = "\<lambda>_. True"]) simp
  then show "triple (\<lambda>h. booked G (insert (fst b) P) (cs @ [(n, fst b)]) rs h) (append_tool_result env (gb_turn G) (gb_step G) b skipped_outcome n)
     (\<lambda>_ h. \<exists>n. booked G P (cs @ [(n, fst b)]) (rs @ [(n, fst b)]) h) (\<lambda>_. lost G) W"
    by (rule triple_conseq) (use assms in auto)
qed

text \<open>Each of a list of calls skipped: one call and one result citing it, in order.\<close>

lemma triple_skip_all:
  "triple (booked G {} cs rs) (each (append_skipped_tool_call env (gb_turn G) (gb_step G)) bs)
     (\<lambda>_ h. \<exists>ns. length ns = length bs \<and> booked G {} (cs @ zip ns (map fst bs)) (rs @ zip ns (map fst bs)) h) (\<lambda>_. lost G) W"
proof (induction bs arbitrary: cs rs)
  case Nil
  then show ?case by (auto intro!: triple_return)
next
  case (Cons b bs)
  show ?case unfolding each.simps
  proof (rule triple_chain [OF triple_skipped [OF refl]], rule triple_ex)
    fix n
    show "triple (booked G {} (cs @ [(n, fst b)]) (rs @ [(n, fst b)])) (each (append_skipped_tool_call env (gb_turn G) (gb_step G)) bs)
      (\<lambda>_ h. \<exists>ns. length ns = length (b # bs) \<and> booked G {} (cs @ zip ns (map fst (b # bs))) (rs @ zip ns (map fst (b # bs))) h) (\<lambda>_. lost G) W"
    proof (rule triple_conseq [OF Cons.IH])
      fix h assume "\<exists>ns. length ns = length bs \<and> booked G {} ((cs @ [(n, fst b)]) @ zip ns (map fst bs)) ((rs @ [(n, fst b)]) @ zip ns (map fst bs)) h"
      then obtain ns where "length ns = length bs"
        "booked G {} ((cs @ [(n, fst b)]) @ zip ns (map fst bs)) ((rs @ [(n, fst b)]) @ zip ns (map fst bs)) h" by blast
      then show "\<exists>ns. length ns = length (b # bs) \<and> booked G {} (cs @ zip ns (map fst (b # bs))) (rs @ zip ns (map fst (b # bs))) h"
        by (intro exI [of _ "n # ns"]) simp
    qed
  qed
qed


subsection \<open>Starting a call\<close>

lemma triple_upd_pool:
  "(\<And>h. P h \<Longrightarrow> Q (h\<lparr>ag_pool := f (ag_pool h)\<rparr>)) \<Longrightarrow> triple P (upd_pool f) (\<lambda>_. Q) E W"
  unfolding upd_pool_def by (rule triple_modify)

lemma grouped_pool:
  assumes g: "grouped G busy X h" and inv: "pool_inv (length (gb_blocks G)) busy' q" and X: "X' q"
    and same: "tp_committed q = tp_committed (ag_pool h)" "tp_started q = tp_started (ag_pool h)"
      "tp_call_seqs q = tp_call_seqs (ag_pool h)"
  shows "grouped G busy' X' (h\<lparr>ag_pool := q\<rparr>)"
  using g inv X booked_pool [of G _ _ _ h q]
  by (simp add: grouped_def at_group_booked same entries_cong [OF same(3)] pool_inv_def)

lemma triple_throw_failure:
  assumes "\<And>h. P h \<Longrightarrow> lost G h"
  shows "triple P throw_scheduler_failure (\<lambda>_ h. P h \<and> tp_failure (ag_pool h) = None) (\<lambda>_. lost G) W"
  unfolding throw_scheduler_failure_def
  by (rule triple_chain [where R = "\<lambda>f h. P h \<and> tp_failure (ag_pool h) = f", OF triple_reads])
    (auto split: option.split intro: triple_return triple_throw assms)

lemma entries_Suc: "entries calls p (Suc k) = entries calls p k @ [entry calls p k]"
  by (simp add: entries_def)

lemma entries_update: "k \<le> i \<Longrightarrow> entries calls (p\<lparr>tp_call_seqs := (tp_call_seqs p)[i := x], tp_started := j\<rparr>) k = entries calls p k"
  by (simp add: entries_def entry_def)

lemma open_ids_Suc: "i \<le> j \<Longrightarrow> open_ids calls i (Suc j) = insert (fst (calls ! j)) (open_ids calls i j)"
  by (auto simp: open_ids_def atLeastLessThanSuc)

lemma pool_inv_empty:
  assumes "pool_inv n busy p"
  shows "tp_started p \<le> j \<Longrightarrow> j < n \<Longrightarrow> tp_slots p ! j = None" "j \<in> busy \<Longrightarrow> j < n \<Longrightarrow> tp_slots p ! j = None"
proof -
  have "\<forall>i<n. tp_slots p ! i \<noteq> None \<longrightarrow> i < tp_started p \<and> i \<notin> busy" using assms by (simp add: pool_inv_def)
  then show "tp_started p \<le> j \<Longrightarrow> j < n \<Longrightarrow> tp_slots p ! j = None" "j \<in> busy \<Longrightarrow> j < n \<Longrightarrow> tp_slots p ! j = None"
    using leD by blast+
qed

lemma started_inv:
  assumes inv: "pool_inv n {} p" and i: "tp_started p = i" "i < n"
  shows "pool_inv n {i} (started_pool i k p)"
proof -
  have "tp_slots p ! i = None" using pool_inv_empty(1) [OF inv, of i] i by simp
  moreover have "i \<notin> set (tp_in_flight p)" using inv i by (auto simp: pool_inv_def)
  ultimately show ?thesis using inv i
    by (auto simp: started_pool_def pool_inv_def pool_bounded_def nth_list_update less_Suc_eq)
qed

lemma dispatched_inv:
  assumes inv: "pool_inv n {i} q" and st: "tp_started q = Suc i" "length (tp_in_flight q) < tp_cap q"
  shows "pool_inv n {} (q\<lparr>tp_in_flight := tp_in_flight q @ [i]\<rparr>)"
proof -
  have free: "i \<notin> set (tp_in_flight q)" "i < n" "tp_slots q ! i = None"
    using inv st pool_inv_empty(2) [OF inv, of i] by (auto simp: pool_inv_def)
  have "set (tp_settled q) \<subseteq> insert i (set (tp_in_flight q))" using inv by (auto simp: pool_inv_def)
  then show ?thesis using inv st free
    by (simp add: pool_inv_def pool_bounded_def) blast
qed

lemma resulted_inv:
  assumes inv: "pool_inv n {i} q" and st: "tp_started q = Suc i"
  shows "pool_inv n {} (q\<lparr>tp_slots := (tp_slots q)[i := Some r]\<rparr>)"
proof -
  have free: "i \<notin> set (tp_in_flight q)" "i < n" "tp_slots q ! i = None"
    using inv st pool_inv_empty(2) [OF inv, of i] by (auto simp: pool_inv_def)
  moreover have "i \<notin> set (tp_settled q)" using inv free by (auto simp: pool_inv_def)
  ultimately show ?thesis using inv st
    by (auto simp add: pool_inv_def pool_bounded_def nth_list_update)
qed

lemma prepared_inv:
  assumes "pool_inv n {i} q" "tp_started q = Suc i" "length (tp_in_flight q) < tp_cap q"
  shows "pool_inv n {} (prepared_pool i prep q)"
  using assms by (cases prep) (simp_all add: prepared_pool_def dispatched_inv resulted_inv)

lemma prepared_fields [simp]:
  "tp_started (prepared_pool i prep p) = tp_started p" "tp_committed (prepared_pool i prep p) = tp_committed p"
  "tp_call_seqs (prepared_pool i prep p) = tp_call_seqs p" "tp_failure (prepared_pool i prep p) = tp_failure p"
  by (simp_all add: prepared_pool_def split: tool_preparation.split)

text \<open>A call being prepared, while the pool has room for it.\<close>

definition preparing :: "nat \<Rightarrow> tool_pool \<Rightarrow> bool" where
  "preparing i p \<longleftrightarrow> failure_owned p \<and> tp_started p = Suc i \<and> length (tp_in_flight p) < tp_cap p"

definition startable :: "nat \<Rightarrow> nat \<Rightarrow> tool_pool \<Rightarrow> bool" where
  "startable n i p \<longleftrightarrow> failure_owned p \<and> tp_started p = i \<and> i < n \<and> length (tp_in_flight p) < tp_cap p"

lemma preparing_noise [simp]: "keeps_noise (preparing i)"
  unfolding keeps_noise_def preparing_def using noise_owned noise_keeps by auto

lemma triple_grouped_failure:
  "triple (grouped G busy X) throw_scheduler_failure (\<lambda>_. grouped G busy (\<lambda>p. X p \<and> tp_failure p = None)) (\<lambda>_. lost G) W"
  by (rule triple_conseq [OF triple_throw_failure [of "grouped G busy X" G]]) (auto simp: grouped_def intro: at_group_lost)

lemma triple_prepare_started:
  "triple (grouped G {i} (preparing i)) (prepare_started i) (\<lambda>_. grouped G {} failure_owned) (\<lambda>_. lost G) driving"
  unfolding prepare_started_def
proof (rule triple_chain [OF triple_await [OF stable_grouped [OF preparing_noise] grouped_driving grouped_lost]], assumption, assumption,
    rule triple_chain [OF triple_grouped_failure], rule triple_upd_pool)
  fix prep h
  assume g: "grouped G {i} (\<lambda>p. preparing i p \<and> tp_failure p = None) h"
  then have "pool_inv (length (gb_blocks G)) {i} (ag_pool h)" "preparing i (ag_pool h)" "tp_failure (ag_pool h) = None"
    by (auto simp: grouped_def at_group_booked)
  then show "grouped G {} failure_owned (h\<lparr>ag_pool := prepared_pool i prep (ag_pool h)\<rparr>)"
    by (intro grouped_pool [OF g] prepared_inv) (auto simp: preparing_def failure_owned_def)
qed

text \<open>The books right after the call event of call \<open>i\<close>.\<close>

lemma started_grouped:
  assumes b: "booked G (insert (fst (gb_blocks G ! i)) (open_ids (gb_blocks G) (tp_committed p) i))
      (entries (gb_blocks G) p i @ [(k, fst (gb_blocks G ! i))]) (entries (gb_blocks G) p (tp_committed p)) h"
    and inv: "pool_inv (length (gb_blocks G)) {} p" and st: "startable (length (gb_blocks G)) i p"
  shows "grouped G {i} (preparing i) (h\<lparr>ag_pool := started_pool i k p\<rparr>)"
proof -
  let ?calls = "gb_blocks G" and ?q = "started_pool i k p"
  have i: "tp_started p = i" "i < length ?calls" using st by (simp_all add: startable_def)
  have c: "tp_committed p \<le> i" "i < length (tp_call_seqs p)" using inv i by (auto simp: pool_inv_def)
  have inv': "pool_inv (length ?calls) {i} ?q" by (rule started_inv [OF inv i])
  have "entries ?calls ?q (Suc i) = entries ?calls p i @ [(k, fst (?calls ! i))]"
    using c(2) by (simp add: started_pool_def entries_Suc entries_update entry_def)
  moreover have "entries ?calls ?q (tp_committed p) = entries ?calls p (tp_committed p)"
    unfolding started_pool_def using c(1) by (rule entries_update)
  moreover have "open_ids ?calls (tp_committed p) (Suc i) = insert (fst (?calls ! i)) (open_ids ?calls (tp_committed p) i)"
    using c(1) by (rule open_ids_Suc)
  moreover have "tp_started ?q = Suc i" "tp_committed ?q = tp_committed p" using i by (simp_all add: started_pool_def)
  ultimately have "at_group G {i} (h\<lparr>ag_pool := ?q\<rparr>)"
    using booked_pool [OF b, of ?q] inv' by (simp add: at_group_booked pool_inv_def)
  then show ?thesis using st by (simp add: grouped_def preparing_def startable_def started_pool_def failure_owned_def)
qed

lemma triple_start_call:
  "triple (grouped G {} (startable (length (gb_blocks G)) i))
     (start_call (gb_turn G) (gb_step G) (gb_blocks G) i)
     (\<lambda>_. grouped G {} failure_owned) (\<lambda>_. lost G) driving"
proof -
  let ?calls = "gb_blocks G" and ?n = "length (gb_blocks G)"
  let ?X = "\<lambda>p. pool_inv ?n {} p \<and> startable ?n i p"
  let ?pre = "\<lambda>(p :: tool_pool) h. booked G (open_ids ?calls (tp_committed p) i) (entries ?calls p i) (entries ?calls p (tp_committed p)) h
    \<and> ag_pool h = p \<and> ?X p"
  have pre: "grouped G {} (startable ?n i) h \<longleftrightarrow> (\<exists>p. ?pre p h)" for h
    by (auto simp: grouped_def at_group_booked startable_def)
  show ?thesis
    unfolding pre start_call_def
  proof (rule triple_ex, rule triple_chain [OF triple_tool_call [where X = "\<lambda>q. q = p \<and> ?X p" for p]],
      rule triple_chain [OF triple_upd_pool triple_prepare_started])
    fix p k h
    assume "booked G (insert (fst (?calls ! i)) (open_ids ?calls (tp_committed p) i))
        (entries ?calls p i @ [(k, fst (?calls ! i))]) (entries ?calls p (tp_committed p)) h \<and> ag_pool h = p \<and> ?X p"
    then show "grouped G {i} (preparing i) (h\<lparr>ag_pool := started_pool i k (ag_pool h)\<rparr>)"
      using started_grouped by auto
  qed
qed

end
