(* ===== verification/Tool_Safety.thy ===== *)
theory Tool_Safety
  imports Tool_Pool
begin

text \<open>
  The triples of committing, filling, draining, and of whole groups: when a step's calls are done,
  each has one call event and one result event citing it, in model order.
\<close>

subsection \<open>Committing\<close>

lemma booked_cong:
  assumes "booked G P cs rs h" "distinct (map fst (gb_blocks G)) \<Longrightarrow> P = P'"
  shows "booked G P' cs rs h"
proof -
  have "calls_distinct (log_of h) \<Longrightarrow> InStep P = InStep P'" using assms by (simp add: booked_def ids_distinct_def)
  then show ?thesis using assms(1) positioned_cong [of "log_of h" "InStep P" "InStep P'"]
    by (auto simp: booked_def in_step_def within_def)
qed

lemma distinct_ids:
  "distinct (map fst calls) \<Longrightarrow> fst (calls ! x) = fst (calls ! y) \<Longrightarrow> x < length calls \<Longrightarrow> y < length calls \<Longrightarrow> x = y"
  using nth_eq_iff_index_eq [of "map fst calls" x y] by simp

lemma open_ids_remove:
  assumes "distinct (map fst calls)" "i < j" "j \<le> length calls"
  shows "open_ids calls i j - {fst (calls ! i)} = open_ids calls (Suc i) j"
proof -
  have inj: "inj_on (\<lambda>k. fst (calls ! k)) {i..<j}"
    using assms by (intro inj_onI) (auto intro: distinct_ids)
  have "{i..<j} = insert i {Suc i..<j}" using assms(2) by auto
  then show ?thesis using inj by (auto simp: open_ids_def inj_on_def)
qed

lemma triple_accept_context:
  "triple (\<lambda>h. booked G P cs rs h \<and> ag_pool h = p) (accept_context m) (\<lambda>_ h. booked G P cs rs h \<and> ag_pool h = p) (\<lambda>_. lost G) W"
  unfolding accept_context_def
proof (rule triple_chain [where R = "\<lambda>_ h. booked G P cs rs h \<and> ag_pool h = p", OF triple_reads], assumption,
    rule triple_chain [where R = "\<lambda>_ h. booked G P cs rs h \<and> ag_pool h = p"])
  fix n
  show "triple (\<lambda>h. booked G P cs rs h \<and> ag_pool h = p) (use_inbox (DoSplice NextStep (nat_num n) (NInt 0) [m]))
     (\<lambda>_ h. booked G P cs rs h \<and> ag_pool h = p) (\<lambda>_. lost G) W"
  proof (rule tripleI)
    fix h ms h' assume b: "booked G P cs rs h \<and> ag_pool h = p"
      and "use_inbox (DoSplice NextStep (nat_num n) (NInt 0) [m]) h = (Returned ms, h')"
    then have call: "inbox_call (DoSplice NextStep (nat_num n) (NInt 0) [m]) h = Inr (ms, h')"
      by (auto simp: use_inbox_def split: sum.splits)
    have ok: "agent_ok h" using b booked_agent by blast
    show "booked G P cs rs h' \<and> ag_pool h' = p"
      using booked_noisy [OF _ inbox_call_noisy [OF ok call]] inbox_call_ok(4) [OF ok call] b by auto
  qed (auto simp: use_inbox_def split: sum.splits intro: booked_lost)
qed (simp add: triple_return)

lemma committed_inv:
  assumes "pool_inv n {} p" "filled (tp_committed p) p"
  shows "pool_inv n {} (committed_pool out p)"
  using assms by (auto simp: committed_pool_def pool_inv_def pool_bounded_def filled_def less_Suc_eq)

text \<open>The call at the commit position has settled.\<close>

definition committing :: "nat \<Rightarrow> nat \<Rightarrow> tool_pool \<Rightarrow> bool" where
  "committing i k p \<longleftrightarrow> failure_owned p \<and> tp_committed p = i \<and> filled i p \<and> tp_call_seqs p ! i = Some k"

lemma committing_noise [simp]: "keeps_noise (committing i k)"
  unfolding keeps_noise_def committing_def using noise_owned noise_keeps noise_slot by auto

text \<open>The books after the result of call \<open>i\<close> is logged.\<close>

lemma committed_grouped:
  assumes b: "booked G (open_ids (gb_blocks G) i (tp_started p) - {fst (gb_blocks G ! i)})
      (entries (gb_blocks G) p (tp_started p)) (entries (gb_blocks G) p i @ [(k, fst (gb_blocks G ! i))]) h"
    and inv: "pool_inv (length (gb_blocks G)) {} p" and c: "committing i k p"
  shows "grouped G {} (\<lambda>q. failure_owned q \<and> tp_committed q = Suc i) (h\<lparr>ag_pool := committed_pool out p\<rparr>)"
proof -
  let ?calls = "gb_blocks G" and ?q = "committed_pool out p"
  have i: "tp_committed p = i" "filled i p" "tp_call_seqs p ! i = Some k" using c by (simp_all add: committing_def)
  have l: "i < tp_started p" "tp_started p \<le> length ?calls" using inv i(2) by (auto simp: pool_inv_def filled_def)
  have inv': "pool_inv (length ?calls) {} ?q" by (rule committed_inv [OF inv]) (simp add: i)
  then have "booked G (open_ids ?calls i (tp_started p) - {fst (?calls ! i)}) (entries ?calls p (tp_started p))
      (entries ?calls p i @ [(k, fst (?calls ! i))]) (h\<lparr>ag_pool := ?q\<rparr>)"
    by (intro booked_pool [OF b]) (simp add: pool_inv_def)
  then have "booked G (open_ids ?calls (Suc i) (tp_started p)) (entries ?calls p (tp_started p))
      (entries ?calls p i @ [(k, fst (?calls ! i))]) (h\<lparr>ag_pool := ?q\<rparr>)"
    by (rule booked_cong) (rule open_ids_remove, assumption, use l in auto)
  moreover have "entries ?calls p i @ [(k, fst (?calls ! i))] = entries ?calls p (Suc i)"
    using i(3) by (simp add: entries_Suc entry_def)
  moreover have "entries ?calls ?q j = entries ?calls p j" for j by (rule entries_cong) (simp add: committed_pool_def)
  moreover have "tp_started ?q = tp_started p" "tp_committed ?q = Suc i" "tp_failure ?q = tp_failure p" "tp_in_flight ?q = tp_in_flight p"
    by (simp_all add: committed_pool_def i)
  ultimately show ?thesis using inv' c by (simp add: grouped_def at_group_booked committing_def failure_owned_def)
qed

lemma triple_commit_result:
  "triple (grouped G {} (committing i k))
     (commit_result env (gb_turn G) (gb_step G) (gb_blocks G ! i) k out)
     (\<lambda>_. grouped G {} (\<lambda>p. failure_owned p \<and> tp_committed p = Suc i)) (\<lambda>_. lost G) driving"
proof -
  let ?calls = "gb_blocks G" and ?n = "length (gb_blocks G)"
  let ?X = "\<lambda>p. pool_inv ?n {} p \<and> committing i k p"
  let ?b = "\<lambda>P rs (p :: tool_pool) h. booked G P (entries ?calls p (tp_started p)) rs h \<and> ag_pool h = p \<and> ?X p"
  have pre: "grouped G {} (committing i k) h \<longleftrightarrow>
      (\<exists>p. ?b (open_ids ?calls i (tp_started p)) (entries ?calls p i) p h)" for h
    by (auto simp: grouped_def at_group_booked committing_def)
  have contexts: "triple (?b P rs p) (each accept_context ms) (\<lambda>_. ?b P rs p) (\<lambda>_. lost G) driving" for P rs p ms
  proof (rule triple_each)
    fix m
    have "triple (\<lambda>h. ?X p \<and> (booked G P (entries ?calls p (tp_started p)) rs h \<and> ag_pool h = p)) (accept_context m)
        (\<lambda>_. ?b P rs p) (\<lambda>_. lost G) driving"
      by (rule triple_pure, rule triple_conseq [OF triple_accept_context]) auto
    then show "triple (?b P rs p) (accept_context m) (\<lambda>_. ?b P rs p) (\<lambda>_. lost G) driving"
      by (rule triple_conseq) auto
  qed
  show ?thesis
    unfolding pre commit_result_def
  proof (rule triple_ex)
    fix p :: tool_pool
    let ?P = "open_ids ?calls i (tp_started p)" and ?id = "fst (?calls ! i)"
    show "triple (?b ?P (entries ?calls p i) p)
      (chain (append_tool_result env (gb_turn G) (gb_step G) (?calls ! i) out k)
        (\<lambda>_. chain (each accept_context (to_contexts out)) (\<lambda>_. upd_pool (committed_pool out))))
      (\<lambda>_. grouped G {} (\<lambda>p. failure_owned p \<and> tp_committed p = Suc i)) (\<lambda>_. lost G) driving"
    proof (rule triple_chain [OF triple_tool_result [where X = "\<lambda>q. q = p \<and> ?X p"]], rule_tac [2] triple_chain [OF contexts triple_upd_pool])
      show "?id \<in> ?P" if "ag_pool h = p \<and> ?X p" for h
        using that by (auto simp: open_ids_def committing_def filled_def pool_inv_def)
    qed (auto intro: committed_grouped)
  qed
qed

lemma triple_commit_slot:
  "triple (grouped G {} (committing i k))
     (commit_slot env (gb_turn G) (gb_step G) (gb_blocks G ! i) slot k)
     (\<lambda>_. grouped G {} (\<lambda>p. failure_owned p \<and> tp_committed p = Suc i)) (\<lambda>_. lost G) driving"
proof -
  have "triple (grouped G {} (committing i k)) (await f) (\<lambda>_. grouped G {} (committing i k)) (\<lambda>_. lost G) driving" for f :: "host_answer \<Rightarrow> tool_outcome option"
    by (rule triple_await [OF stable_grouped]) (auto intro: grouped_driving grouped_lost)
  then show ?thesis
    unfolding commit_slot_def by (intro triple_chain [OF _ triple_commit_result]) simp
qed

lemma ready_slot_cases:
  assumes inv: "pool_inv (length calls) {} p"
  shows "case ready_slot calls p of
      None \<Rightarrow> caught_up p
    | Some (b, slot, k) \<Rightarrow> b = calls ! tp_committed p \<and> filled (tp_committed p) p \<and> tp_call_seqs p ! tp_committed p = Some k"
proof (cases "tp_committed p < length calls \<and> tp_slots p ! tp_committed p \<noteq> None")
  case True
  then have "tp_committed p < tp_started p" using inv by (auto simp: pool_inv_def)
  moreover have "tp_call_seqs p ! tp_committed p \<noteq> None \<longleftrightarrow> tp_committed p < tp_started p"
    using inv True unfolding pool_inv_def by blast
  ultimately obtain k where k: "tp_call_seqs p ! tp_committed p = Some k" by blast
  obtain slot where slot: "tp_slots p ! tp_committed p = Some slot" using True by blast
  have "ready_slot calls p = Some (calls ! tp_committed p, slot, k)"
    using True k slot by (simp add: ready_slot_def Let_def)
  moreover have "length (tp_slots p) = length calls" using inv by (simp add: pool_inv_def)
  ultimately show ?thesis using True k slot by (simp add: filled_def)
next
  case False
  then have none: "ready_slot calls p = None"
    by (cases "tp_slots p ! tp_committed p") (use False in \<open>auto simp: ready_slot_def Let_def\<close>)
  have "caught_up p"
  proof (cases "tp_committed p < tp_started p")
    case True
    moreover have "tp_started p \<le> length calls" using inv by (simp add: pool_inv_def)
    ultimately have "tp_slots p ! tp_committed p = None" using False by linarith
    moreover have "\<forall>i<tp_started p. i \<notin> {} \<and> tp_slots p ! i = None \<longrightarrow> i \<in> set (tp_in_flight p) \<or> tp_failure p \<noteq> None"
      using inv unfolding pool_inv_def by blast
    ultimately show ?thesis using True unfolding caught_up_def by blast
  next
    case False
    then show ?thesis using inv by (auto simp: pool_inv_def caught_up_def)
  qed
  then show ?thesis by (simp add: none)
qed

lemma ready_slot_none: "pool_inv (length calls) {} p \<Longrightarrow> ready_slot calls p = None \<Longrightarrow> caught_up p"
  using ready_slot_cases [of calls p] by simp

lemma pool_full_caught_up: "pool_inv n {} p \<Longrightarrow> n \<le> tp_committed p \<Longrightarrow> caught_up p"
  unfolding pool_inv_def caught_up_def by linarith

lemma triple_commit_rounds:
  "triple (grouped G {} (\<lambda>p. failure_owned p \<and> length (gb_blocks G) \<le> m + tp_committed p))
     (commit_rounds env (gb_turn G) (gb_step G) (gb_blocks G) m)
     (\<lambda>_. grouped G {} (\<lambda>p. failure_owned p \<and> caught_up p)) (\<lambda>_. lost G) driving"
proof (induction m)
  case 0
  have "grouped G {} (\<lambda>p. failure_owned p \<and> caught_up p) h"
    if g: "grouped G {} (\<lambda>p. failure_owned p \<and> length (gb_blocks G) \<le> 0 + tp_committed p) h" for h
  proof -
    have "pool_inv (length (gb_blocks G)) {} (ag_pool h)" using g by (simp add: grouped_def at_group_booked)
    then show ?thesis using g pool_full_caught_up by (simp add: grouped_def)
  qed
  then show ?case by (simp add: triple_return)
next
  case (Suc m)
  let ?X = "\<lambda>p. failure_owned p \<and> length (gb_blocks G) \<le> Suc m + tp_committed p"
  let ?Q = "\<lambda>_ :: unit. grouped G {} (\<lambda>p. failure_owned p \<and> caught_up p)"
  have found: "triple (\<lambda>h. grouped G {} ?X h \<and> Some (b, slot, k) = ready_slot (gb_blocks G) (ag_pool h))
      (chain (commit_slot env (gb_turn G) (gb_step G) b slot k) (\<lambda>_. commit_rounds env (gb_turn G) (gb_step G) (gb_blocks G) m))
      ?Q (\<lambda>_. lost G) driving" for b slot k
  proof (rule triple_conseq [OF triple_ex [where P = "\<lambda>i h. (length (gb_blocks G) \<le> Suc m + i \<and> b = gb_blocks G ! i) \<and> grouped G {} (committing i k) h",
          OF triple_pure]])
    fix i assume "length (gb_blocks G) \<le> Suc m + i \<and> b = gb_blocks G ! i"
    then show "triple (grouped G {} (committing i k))
        (chain (commit_slot env (gb_turn G) (gb_step G) b slot k) (\<lambda>_. commit_rounds env (gb_turn G) (gb_step G) (gb_blocks G) m))
        ?Q (\<lambda>_. lost G) driving"
      using triple_chain [OF triple_commit_slot triple_conseq [OF Suc.IH]] by (simp add: grouped_def)
  next
    fix h assume h: "grouped G {} ?X h \<and> Some (b, slot, k) = ready_slot (gb_blocks G) (ag_pool h)"
    then have "pool_inv (length (gb_blocks G)) {} (ag_pool h)" by (simp add: grouped_def at_group_booked)
    from ready_slot_cases [OF this] h
    show "\<exists>i. (length (gb_blocks G) \<le> Suc m + i \<and> b = gb_blocks G ! i) \<and> grouped G {} (committing i k) h"
      by (intro exI [of _ "tp_committed (ag_pool h)"]) (auto simp: grouped_def committing_def split: option.splits)
  qed auto
  show ?case unfolding commit_rounds.simps
  proof (rule triple_chain [where R = "\<lambda>r h. grouped G {} ?X h \<and> r = ready_slot (gb_blocks G) (ag_pool h)", OF triple_reads])
    fix r
    have none: "triple (\<lambda>h. grouped G {} ?X h \<and> None = ready_slot (gb_blocks G) (ag_pool h)) (return ()) ?Q (\<lambda>_. lost G) driving"
      by (rule triple_return) (use ready_slot_none in \<open>auto simp: grouped_def at_group_booked\<close>)
    show "triple (\<lambda>h. grouped G {} ?X h \<and> r = ready_slot (gb_blocks G) (ag_pool h))
        (case r of None \<Rightarrow> return ()
         | Some (b, slot, call_seq) \<Rightarrow>
            chain (commit_slot env (gb_turn G) (gb_step G) b slot call_seq)
              (\<lambda>_. commit_rounds env (gb_turn G) (gb_step G) (gb_blocks G) m))
        ?Q (\<lambda>_. lost G) driving"
      using found none by (cases r) (auto split: prod.split)
  qed simp
qed

lemma triple_commit_ready:
  "triple (grouped G {} failure_owned) (commit_ready env (gb_turn G) (gb_step G) (gb_blocks G))
     (\<lambda>_. grouped G {} (\<lambda>p. failure_owned p \<and> caught_up p)) (\<lambda>_. lost G) driving"
  unfolding commit_ready_def
  by (rule triple_conseq [OF triple_commit_rounds]) (auto simp: grouped_def)


subsection \<open>Filling and draining\<close>

lemma grouped_conseq: "grouped G busy X h \<Longrightarrow> (\<And>p. X p \<Longrightarrow> Y p) \<Longrightarrow> grouped G busy Y h"
  by (simp add: grouped_def)

lemma grouped_and: "grouped G busy X h \<and> Y (ag_pool h) \<longleftrightarrow> grouped G busy (\<lambda>p. X p \<and> Y p) h"
  by (simp add: grouped_def conj_assoc)

lemma aborted_inv: "pool_inv n busy p \<Longrightarrow> pool_inv n busy (p\<lparr>tp_aborted := a\<rparr>)"
  by (simp add: pool_inv_def pool_bounded_def)

lemma triple_note_abort:
  assumes "\<And>p a. X p \<Longrightarrow> X (p\<lparr>tp_aborted := a\<rparr>)"
  shows "triple (grouped G {} X) note_abort (\<lambda>_. grouped G {} X) (\<lambda>_. lost G) W"
  unfolding note_abort_def
proof (rule triple_chain [where R = "\<lambda>_. grouped G {} X", OF triple_reads], assumption, rule triple_upd_pool)
  fix a h assume g: "grouped G {} X h"
  then have "pool_inv (length (gb_blocks G)) {} (ag_pool h)" "X (ag_pool h)" by (auto simp: grouped_def at_group_booked)
  then show "grouped G {} X (h\<lparr>ag_pool := (ag_pool h)\<lparr>tp_aborted := (tp_aborted (ag_pool h) \<or> a)\<rparr>\<rparr>)"
    by (intro grouped_pool [OF g]) (auto intro: aborted_inv assms)
qed

text \<open>A round of the pool starts from a pool whose ready results are committed.\<close>

definition settled_books :: "tool_pool \<Rightarrow> bool" where
  "settled_books p \<longleftrightarrow> failure_owned p \<and> caught_up p"

lemma settled_books_basic [simp]: "keeps_noise settled_books" "settled_books (p\<lparr>tp_aborted := a\<rparr>) = settled_books p"
  unfolding settled_books_def [abs_def] by (simp, simp add: failure_owned_def caught_up_def)

lemma triple_settle_pool:
  "triple (grouped G {} failure_owned) (settle_pool env (gb_turn G) (gb_step G) (gb_blocks G))
    (\<lambda>_. grouped G {} settled_books) (\<lambda>_. lost G) driving"
  unfolding settle_pool_def
proof (rule triple_chain)
  show "triple (grouped G {} failure_owned) (awaited (commit_ready env (gb_turn G) (gb_step G) (gb_blocks G)))
    (\<lambda>_. grouped G {} settled_books) (\<lambda>_. lost G) driving"
    unfolding settled_books_def [abs_def]
    by (rule triple_awaited [OF triple_commit_ready]) (auto intro: stable_grouped grouped_driving lost_driving)
  have "triple (grouped G {} settled_books) note_abort (\<lambda>_. grouped G {} settled_books) (\<lambda>_. lost G) driving"
    by (rule triple_note_abort) simp
  then show "triple (grouped G {} settled_books) (chain throw_scheduler_failure (\<lambda>_. note_abort)) (\<lambda>_. grouped G {} settled_books) (\<lambda>_. lost G) driving"
    by (intro triple_chain [OF triple_grouped_failure]) (erule triple_conseq, auto intro: grouped_conseq)
qed

lemma triple_settle_after:
  "triple (grouped G {} X) (chain throw_scheduler_failure (\<lambda>_. settle_pool env (gb_turn G) (gb_step G) (gb_blocks G)))
    (\<lambda>_. grouped G {} settled_books) (\<lambda>_. lost G) driving"
  by (rule triple_chain [OF triple_grouped_failure], rule triple_conseq [OF triple_settle_pool])
    (auto simp: grouped_def failure_owned_def)

lemma triple_start_next:
  "triple (grouped G {} (startable (length (gb_blocks G)) i)) (start_next env (gb_turn G) (gb_step G) (gb_blocks G) i)
    (\<lambda>_. grouped G {} settled_books) (\<lambda>_. lost G) driving"
  unfolding start_next_def
  by (rule triple_chain [OF triple_awaited [OF triple_start_call] triple_settle_after])
    (auto intro: stable_grouped grouped_driving lost_driving)

lemma triple_may_join:
  assumes "keeps_noise X"
  shows "triple (grouped G {} X) (may_join parallel i) (\<lambda>_. grouped G {} X) (\<lambda>_. lost G) driving"
  unfolding may_join_def
  by (auto intro!: triple_await stable_grouped [OF assms] triple_return intro: grouped_driving grouped_lost)

text \<open>The pool has room for its next call.\<close>

definition roomy :: "nat \<Rightarrow> nat \<Rightarrow> tool_pool \<Rightarrow> bool" where
  "roomy n i p \<longleftrightarrow> settled_books p \<and> startable n i p"

lemma roomy_noise [simp]: "keeps_noise (roomy n i)"
  unfolding keeps_noise_def roomy_def startable_def
  using noise_keeps noise_owned settled_books_basic(1) unfolding keeps_noise_def by auto

lemma triple_fill_rounds:
  "triple (grouped G {} settled_books)
     (fill_rounds env (gb_turn G) (gb_step G) (gb_blocks G) parallel m)
     (\<lambda>_. grouped G {} settled_books) (\<lambda>_. lost G) driving"
proof (induction m)
  case 0
  show ?case by (simp add: triple_return)
next
  case (Suc m)
  let ?calls = "gb_blocks G"
  have join: "triple (grouped G {} (roomy (length ?calls) i))
      (if \<not> join then return ()
       else chain (start_next env (gb_turn G) (gb_step G) ?calls i)
              (\<lambda>_. fill_rounds env (gb_turn G) (gb_step G) ?calls parallel m))
      (\<lambda>_. grouped G {} settled_books) (\<lambda>_. lost G) driving" for join i
  proof -
    have "triple (grouped G {} (roomy (length ?calls) i)) (start_next env (gb_turn G) (gb_step G) ?calls i)
        (\<lambda>_. grouped G {} settled_books) (\<lambda>_. lost G) driving"
      by (rule triple_conseq [OF triple_start_next]) (auto simp: roomy_def grouped_def)
    from triple_chain [OF this Suc.IH] have start: "triple (grouped G {} (roomy (length ?calls) i))
        (chain (start_next env (gb_turn G) (gb_step G) ?calls i) (\<lambda>_. fill_rounds env (gb_turn G) (gb_step G) ?calls parallel m))
        (\<lambda>_. grouped G {} settled_books) (\<lambda>_. lost G) driving" .
    show ?thesis
      by (rule triple_if [OF triple_return start]) (simp add: roomy_def grouped_def)
  qed
  show ?case unfolding fill_rounds.simps
  proof (rule triple_chain [where R = "\<lambda>p h. grouped G {} settled_books h \<and> ag_pool h = p", OF triple_reads])
    fix p :: tool_pool
    let ?rest = "chain (may_join parallel (tp_started p))
           (\<lambda>join. if \<not> join then return ()
             else chain (start_next env (gb_turn G) (gb_step G) ?calls (tp_started p))
               (\<lambda>_. fill_rounds env (gb_turn G) (gb_step G) ?calls parallel m))"
    have "open": "triple (\<lambda>h. grouped G {} settled_books h \<and> ag_pool h = p) ?rest
        (\<lambda>_. grouped G {} settled_books) (\<lambda>_. lost G) driving" if "pool_open ?calls p"
      by (rule triple_conseq [OF triple_chain [OF triple_may_join [OF roomy_noise] join]])
        (use that in \<open>auto simp: grouped_def pool_open_def roomy_def startable_def settled_books_def\<close>)
    show "triple (\<lambda>h. grouped G {} settled_books h \<and> ag_pool h = p)
        (if \<not> pool_open ?calls p then return () else ?rest)
        (\<lambda>_. grouped G {} settled_books) (\<lambda>_. lost G) driving"
      by (rule triple_if [OF triple_return "open"]) simp_all
  qed simp
qed

lemma triple_fill_pool:
  "triple (grouped G {} settled_books) (awaited (fill_pool env (gb_turn G) (gb_step G) (gb_blocks G) parallel))
     (\<lambda>_. grouped G {} settled_books) (\<lambda>_. lost G) driving"
  unfolding fill_pool_def
  by (rule triple_awaited [OF triple_fill_rounds]) (auto intro: stable_grouped grouped_driving lost_driving)

lemma triple_race:
  assumes "keeps_noise X"
  shows "triple (grouped G {} X) race
    (\<lambda>i. grouped G {} (\<lambda>p. X p \<and> i \<in> set (tp_in_flight p) \<and> i \<in> set (tp_settled p))) E driving"
  unfolding race_def
proof (rule triple_chain)
  show "triple (grouped G {} X) (await_value as_settled) (\<lambda>_. grouped G {} X) E driving"
    by (rule triple_await_value [OF stable_grouped [OF assms]]) (rule grouped_driving)
  fix i
  show "triple (grouped G {} X) (chain (reads (\<lambda>h. i \<in> set (tp_in_flight (ag_pool h)) \<and> i \<in> set (tp_settled (ag_pool h))))
          (\<lambda>ok. if ok then return i else suspend))
    (\<lambda>i. grouped G {} (\<lambda>p. X p \<and> i \<in> set (tp_in_flight p) \<and> i \<in> set (tp_settled p))) E driving"
  proof (rule triple_chain [where R = "\<lambda>ok. grouped G {} (\<lambda>p. X p \<and> (ok \<longrightarrow> i \<in> set (tp_in_flight p) \<and> i \<in> set (tp_settled p)))",
          OF triple_reads])
    fix ok
    show "triple (grouped G {} (\<lambda>p. X p \<and> (ok \<longrightarrow> i \<in> set (tp_in_flight p) \<and> i \<in> set (tp_settled p))))
        (if ok then return i else suspend)
        (\<lambda>i. grouped G {} (\<lambda>p. X p \<and> i \<in> set (tp_in_flight p) \<and> i \<in> set (tp_settled p))) E driving"
      by (cases ok) (simp_all add: triple_return triple_suspend grouped_driving)
  qed (simp add: grouped_def)
qed

lemma raced_inv:
  assumes inv: "pool_inv n {} p" and i: "i \<in> set (tp_in_flight p)" "i \<in> set (tp_settled p)"
  shows "pool_inv n {} (raced_pool i p)"
proof -
  have d: "distinct (tp_in_flight p)" "distinct (tp_settled p)" using inv by (simp_all add: pool_inv_def)
  have sets: "set (remove1 i (tp_in_flight p)) = set (tp_in_flight p) - {i}" "set (remove1 i (tp_settled p)) = set (tp_settled p) - {i}"
    using d by (simp_all add: set_remove1_eq)
  have filled: "tp_slots p ! i \<noteq> None \<or> tp_failure p \<noteq> None" using inv i(2) unfolding pool_inv_def by blast
  have bound: "length (remove1 i (tp_in_flight p)) \<le> tp_cap p"
    using inv by (auto simp: pool_inv_def pool_bounded_def length_remove1)
  have subset: "set (tp_settled p) - {i} \<subseteq> set (tp_in_flight p) - {i}" using inv unfolding pool_inv_def by blast
  have waiting: "\<forall>j\<in>set (tp_in_flight p) - {i}. j \<notin> set (tp_settled p) - {i} \<longrightarrow> tp_slots p ! j = None"
    using inv unfolding pool_inv_def by blast
  have told: "\<forall>j\<in>set (tp_settled p) - {i}. tp_slots p ! j \<noteq> None \<or> tp_failure p \<noteq> None"
    using inv unfolding pool_inv_def by blast
  have owed: "\<forall>j<tp_started p. j \<notin> {} \<and> tp_slots p ! j = None \<longrightarrow> j \<in> set (tp_in_flight p) - {i} \<or> tp_failure p \<noteq> None"
    using inv filled unfolding pool_inv_def by blast
  have early: "\<forall>j\<in>set (tp_in_flight p) - {i}. j < tp_started p \<and> j \<notin> {}" using inv unfolding pool_inv_def by blast
  let ?q = "raced_pool i p"
  have same: "tp_slots ?q = tp_slots p" "tp_call_seqs ?q = tp_call_seqs p" "tp_committed ?q = tp_committed p"
    "tp_started ?q = tp_started p" "tp_failure ?q = tp_failure p" "tp_cap ?q = tp_cap p"
    "tp_in_flight ?q = remove1 i (tp_in_flight p)" "tp_settled ?q = remove1 i (tp_settled p)"
    by (simp_all add: raced_pool_def)
  show ?thesis
    using inv d bound subset waiting told owed early
    unfolding pool_inv_def pool_bounded_def same sets
    by (elim conjE, intro conjI) (assumption | rule distinct_remove1)+
qed

text \<open>The pool has run dry: nothing in flight, so nothing is owed.\<close>

definition dry :: "tool_pool \<Rightarrow> bool" where
  "dry p \<longleftrightarrow> tp_in_flight p = [] \<and> tp_failure p = None \<and> tp_committed p = tp_started p"

lemma dry_pool: "settled_books p \<Longrightarrow> tp_in_flight p = [] \<Longrightarrow> dry p"
  by (auto simp: settled_books_def failure_owned_def caught_up_def dry_def)

lemma triple_take_settled:
  "triple (grouped G {} (\<lambda>p. settled_books p \<and> i \<in> set (tp_in_flight p) \<and> i \<in> set (tp_settled p)))
     (take_settled env (gb_turn G) (gb_step G) (gb_blocks G) i)
     (\<lambda>_. grouped G {} settled_books) (\<lambda>_. lost G) driving"
  unfolding take_settled_def
proof (rule triple_chain [OF triple_upd_pool triple_settle_after])
  fix h assume g: "grouped G {} (\<lambda>p. settled_books p \<and> i \<in> set (tp_in_flight p) \<and> i \<in> set (tp_settled p)) h"
  then have "pool_inv (length (gb_blocks G)) {} (raced_pool i (ag_pool h))"
    by (intro raced_inv) (auto simp: grouped_def at_group_booked)
  from grouped_pool [OF g this, of "\<lambda>_. True"]
  show "grouped G {} (\<lambda>_. True) (h\<lparr>ag_pool := raced_pool i (ag_pool h)\<rparr>)" by (simp add: raced_pool_def)
qed

lemma triple_drain_round:
  "triple (grouped G {} settled_books) (drain_round env (gb_turn G) (gb_step G) (gb_blocks G) parallel u)
     (\<lambda>r. case r of Inl _ \<Rightarrow> grouped G {} settled_books | Inr _ \<Rightarrow> grouped G {} dry) (\<lambda>_. lost G) driving"
  unfolding drain_round_def
proof (rule triple_chain [where R = "\<lambda>flying h. grouped G {} settled_books h \<and> flying = tp_in_flight (ag_pool h)", OF triple_reads])
  fix flying
  let ?Q = "\<lambda>r. case r of Inl _ \<Rightarrow> grouped G {} settled_books | Inr _ \<Rightarrow> grouped G {} dry"
  let ?rest = "chain race
           (\<lambda>i. chain (take_settled env (gb_turn G) (gb_step G) (gb_blocks G) i)
              (\<lambda>_. chain (awaited (fill_pool env (gb_turn G) (gb_step G) (gb_blocks G) parallel)) (\<lambda>_. return (Inl ()))))"
  have empty: "triple (\<lambda>h. grouped G {} settled_books h \<and> [] = tp_in_flight (ag_pool h)) (return (Inr ())) ?Q (\<lambda>_. lost G) driving"
    by (rule triple_return) (use dry_pool in \<open>auto simp: grouped_def\<close>)
  have more: "triple (grouped G {} settled_books) ?rest ?Q (\<lambda>_. lost G) driving"
    by (rule triple_chain [OF triple_race triple_chain [OF triple_take_settled triple_chain [OF triple_fill_pool triple_return]]]) simp_all
  show "triple (\<lambda>h. grouped G {} settled_books h \<and> flying = tp_in_flight (ag_pool h))
    (if flying = [] then return (Inr ()) else ?rest) ?Q (\<lambda>_. lost G) driving"
    by (rule triple_if) (use empty in simp, rule triple_pre [OF more], simp)
qed simp

lemma triple_drain_pool:
  "triple (grouped G {} settled_books) (drain_pool env (gb_turn G) (gb_step G) (gb_blocks G) parallel)
     (\<lambda>_. grouped G {} dry) (\<lambda>_. lost G) driving"
  unfolding drain_pool_def
  by (rule triple_loop [where I = "\<lambda>_. grouped G {} settled_books" and Q = "\<lambda>_. grouped G {} dry",
        OF triple_conseq [OF triple_drain_round]]) (auto intro: grouped_driving split: sum.splits)

section \<open>One group, and all calls of a step\<close>

text \<open>The catch of a group always throws the first failure.\<close>

lemma lost_pool: "lost_step t s h \<Longrightarrow> pool_bounded q \<Longrightarrow> lost_step t s (h\<lparr>ag_pool := q\<rparr>)"
  by (auto simp: lost_step_def intro: within_pool)

lemma lost_agent: "lost_step t s h \<Longrightarrow> agent_ok h"
  by (auto simp: lost_step_def within_def)

lemma lost_noisy: "lost_step t s h \<Longrightarrow> noisy h h' \<Longrightarrow> lost_step t s h'"
  by (auto simp: lost_step_def intro: noisy_within)

lemma lost_entry: "lost_step t s h \<Longrightarrow> ag_script h = x # rest \<Longrightarrow> lost_step t s (h\<lparr>ag_script := rest\<rparr>)"
  by (auto simp: lost_step_def intro: within_entry)

lemma noise_failure: "pool_noise p p' \<Longrightarrow> tp_failure p \<noteq> None \<Longrightarrow> tp_failure p' \<noteq> None"
  by (rule pool_noise_induct [where P = "\<lambda>q. tp_failure q \<noteq> None"]) (assumption, assumption, rule settle_failure)

text \<open>A failed group only waits for its promises.\<close>

definition failing :: "group_base \<Rightarrow> agent \<Rightarrow> bool" where
  "failing G h \<longleftrightarrow> lost G h \<and> tp_failure (ag_pool h) \<noteq> None"

lemma stable_failing [simp]: "stable (failing G)"
proof (rule stableI)
  fix h h' assume "failing G h" "noisy h h'"
  then show "failing G h'" unfolding failing_def using lost_noisy noise_failure [OF noisy_pool] by blast
qed (auto simp: failing_def intro: lost_agent lost_entry)

lemma failing_basic [intro]: "failing G h \<Longrightarrow> lost G h" "failing G h \<Longrightarrow> driving h"
  by (auto simp: failing_def intro: lost_driving)

lemma triple_fail_group: "triple (lost G) (fail_group e) (\<lambda>_ _. False) (\<lambda>_. lost G) driving"
  unfolding fail_group_def
proof (rule triple_chain [where R = "\<lambda>_. failing G"], rule triple_upd_pool)
  fix h assume l: "lost G h"
  have "pool_bounded (failed_pool e (ag_pool h))"
    using lost_agent [OF l] by (simp add: failed_pool_def agent_ok_def pool_bounded_def)
  with l show "failing G (h\<lparr>ag_pool := failed_pool e (ag_pool h)\<rparr>)"
    by (auto simp: failing_def failed_pool_def intro: lost_pool split: option.split)
next
  have ready: "triple (failing G) throw_scheduler_failure (\<lambda>_ _. False) (\<lambda>_. lost G) driving"
    by (rule triple_conseq [OF triple_throw_failure [of "failing G" G]]) (auto simp: failing_def)
  have waiting: "triple (failing G) (suspend :: unit driver) (\<lambda>_ _. False) (\<lambda>_. lost G) driving"
    by (rule triple_suspend) auto
  show "triple (failing G) (chain resume (\<lambda>_. chain (reads all_settled) (\<lambda>ok. if ok then throw_scheduler_failure else suspend)))
      (\<lambda>_ _. False) (\<lambda>_. lost G) driving"
    unfolding resume_def
    by (rule triple_chain [OF triple_await_value], simp, blast, rule triple_chain [OF triple_reads], assumption)
      (simp add: ready waiting)
qed

text \<open>The calls of a list, each with one call event and one result citing it, in order.\<close>

definition replied :: "group_base \<Rightarrow> tool_block list \<Rightarrow> agent \<Rightarrow> bool" where
  "replied G bs h \<longleftrightarrow>
     (\<exists>ns. length ns = length bs \<and> booked G {} (zip ns (map fst bs)) (zip ns (map fst bs)) h)"

lemma stable_replied [intro, simp]: "stable (replied G bs)"
  unfolding replied_def [abs_def] by (intro stable_ex stable_conj stable_const stable_booked)

lemma replied_lost: "replied G bs h \<Longrightarrow> lost G h"
  by (auto simp: replied_def intro: booked_lost)

lemma new_pool_inv: "pool_inv n {} (new_pool n cap a)"
  by (auto simp: pool_inv_def pool_bounded_def new_pool_def)

lemma dry_replied:
  assumes g: "grouped G {} dry h"
  shows "replied G (take (tp_started (ag_pool h)) (gb_blocks G)) h \<and> tp_started (ag_pool h) \<le> length (gb_blocks G)"
proof -
  let ?p = "ag_pool h" and ?calls = "gb_blocks G"
  let ?ns = "map (\<lambda>i. the (tp_call_seqs ?p ! i)) [0..<tp_started ?p]"
  have d: "tp_committed ?p = tp_started ?p" using g by (simp add: grouped_def dry_def)
  have le: "tp_started ?p \<le> length ?calls" using g by (simp add: grouped_def at_group_booked pool_inv_def)
  have "zip ?ns (map fst (take (tp_started ?p) ?calls)) = entries ?calls ?p (tp_started ?p)"
    using le by (intro nth_equalityI) (auto simp: entries_def entry_def)
  then have "booked G {} (zip ?ns (map fst (take (tp_started ?p) ?calls))) (zip ?ns (map fst (take (tp_started ?p) ?calls))) h"
    using g d by (simp add: grouped_def at_group_booked open_ids_def)
  moreover have "length ?ns = length (take (tp_started ?p) ?calls)" using le by simp
  ultimately show ?thesis using le unfolding replied_def by blast
qed

lemma replied_extend:
  assumes "length ns = length as" "booked G {} (zip ns (map fst as) @ cs) (zip ns (map fst as) @ cs) h"
    and "cs = zip ms (map fst bs)" "length ms = length bs"
  shows "replied G (as @ bs) h"
  unfolding replied_def
  by (rule exI [of _ "ns @ ms"]) (use assms in simp)

text \<open>Skipping the rest answers it.\<close>

lemma triple_skip_replied:
  "triple (replied G as) (each (append_skipped_tool_call env (gb_turn G) (gb_step G)) bs) (\<lambda>_. replied G (as @ bs)) (\<lambda>_. lost G) W"
proof -
  have "triple (\<lambda>h. \<exists>ns. length ns = length as \<and> booked G {} (zip ns (map fst as)) (zip ns (map fst as)) h)
      (each (append_skipped_tool_call env (gb_turn G) (gb_step G)) bs) (\<lambda>_. replied G (as @ bs)) (\<lambda>_. lost G) W"
  proof (rule triple_ex, rule triple_pure)
    fix ns :: "nat list" assume ns: "length ns = length as"
    show "triple (booked G {} (zip ns (map fst as)) (zip ns (map fst as)))
      (each (append_skipped_tool_call env (gb_turn G) (gb_step G)) bs) (\<lambda>_. replied G (as @ bs)) (\<lambda>_. lost G) W"
      by (rule triple_conseq [OF triple_skip_all]) (auto intro: replied_extend [OF ns _ refl])
  qed
  then show ?thesis unfolding replied_def [of G as, abs_def] .
qed

lemma triple_run_pool:
  "triple (grouped G {} settled_books) (run_pool env (gb_turn G) (gb_step G) (gb_blocks G) parallel)
     (\<lambda>_. grouped G {} dry) (\<lambda>_. lost G) driving"
  unfolding run_pool_def
  by (rule triple_catch [OF triple_chain [OF triple_fill_pool triple_drain_pool]], rule triple_conseq [OF triple_fail_group]) auto

lemma triple_finish_group:
  "triple (\<lambda>h. grouped G {} dry h \<and> ag_pool h = p) (finish_group env (gb_turn G) (gb_step G) (gb_blocks G) p)
     (\<lambda>out h. replied G (take (go_consumed out) (gb_blocks G)) h \<and> go_consumed out \<le> length (gb_blocks G)) (\<lambda>_. lost G) driving"
proof -
  let ?calls = "gb_blocks G"
  let ?Q = "\<lambda>(out :: group_outcome) h. replied G (take (go_consumed out) ?calls) h \<and> go_consumed out \<le> length ?calls"
  have "triple (replied G (take (tp_started p) ?calls))
      (chain (each (append_skipped_tool_call env (gb_turn G) (gb_step G)) (drop (tp_started p) ?calls))
         (\<lambda>_. return \<lparr>go_consumed = length ?calls, go_aborted = True, go_concluded = tp_concluded p\<rparr>)) ?Q (\<lambda>_. lost G) driving"
    by (rule triple_chain [OF triple_skip_replied], rule triple_return) simp
  then have aborted: "triple (\<lambda>h. grouped G {} dry h \<and> ag_pool h = p)
      (chain (each (append_skipped_tool_call env (gb_turn G) (gb_step G)) (drop (tp_started p) ?calls))
         (\<lambda>_. return \<lparr>go_consumed = length ?calls, go_aborted = True, go_concluded = tp_concluded p\<rparr>)) ?Q (\<lambda>_. lost G) driving"
    by (rule triple_conseq) (use dry_replied in auto)
  have finished: "triple (\<lambda>h. grouped G {} dry h \<and> ag_pool h = p)
      (return \<lparr>go_consumed = tp_started p, go_aborted = False, go_concluded = tp_concluded p\<rparr>) ?Q (\<lambda>_. lost G) driving"
    by (rule triple_return) (use dry_replied in auto)
  have stuck: "triple (\<lambda>h. grouped G {} dry h \<and> ag_pool h = p)
      (throw (Raised ''tool-call scheduler: uncommitted settled calls'')) ?Q (\<lambda>_. lost G) driving"
    by (rule triple_throw) (auto intro: grouped_lost)
  show ?thesis unfolding finish_group_def
    by (split if_split)+ (simp add: aborted finished stuck)
qed

lemma triple_run_group:
  "triple (booked G {} [] []) (run_group env (gb_turn G) (gb_step G) (gb_blocks G) parallel)
     (\<lambda>out h. replied G (take (go_consumed out) (gb_blocks G)) h \<and> go_consumed out \<le> length (gb_blocks G)) (\<lambda>_. lost G) driving"
  unfolding run_group_def
proof (rule triple_chain [where R = "\<lambda>fresh h. (\<exists>cap a. fresh = new_pool (length (gb_blocks G)) cap a) \<and> booked G {} [] [] h", OF triple_reads],
    blast, rule triple_pure, elim exE, rule triple_chain [OF triple_upd_pool], rule_tac [2] triple_chain [OF triple_run_pool],
    rule_tac [2] triple_chain [OF triple_reads triple_finish_group])
  fix fresh cap a h assume fresh: "fresh = new_pool (length (gb_blocks G)) cap a" and b: "booked G {} [] [] h"
  have inv: "pool_inv (length (gb_blocks G)) {} fresh" unfolding fresh by (rule new_pool_inv)
  then have "booked G {} [] [] (h\<lparr>ag_pool := fresh\<rparr>)"
    by (intro booked_pool [OF b]) (simp add: pool_inv_def)
  with inv show "grouped G {} settled_books (h\<lparr>ag_pool := fresh\<rparr>)"
    by (simp add: fresh grouped_def at_group_booked open_ids_def entries_def new_pool_def settled_books_def failure_owned_def caught_up_def)
qed simp

text \<open>Some calls done, the rest planned; the next group starts where the done ones end.\<close>

definition next_group :: "group_base \<Rightarrow> nat list \<Rightarrow> tool_block list \<Rightarrow> tool_block list \<Rightarrow> group_base" where
  "next_group G ns before bs =
     G\<lparr>gb_calls := gb_calls G @ zip ns (map fst before), gb_results := gb_results G @ zip ns (map fst before), gb_blocks := bs\<rparr>"

definition base_distinct :: "group_base \<Rightarrow> bool" where
  "base_distinct G \<longleftrightarrow> (calls_distinct (gb_base G) \<longrightarrow> distinct (map fst (gb_blocks G)))"

lemma traced_distinct: "traced base cs rs h \<Longrightarrow> calls_distinct (log_of h) \<Longrightarrow> calls_distinct base"
  by (auto simp: traced_def)

lemma next_group_fields [simp]:
  "gb_turn (next_group G ns as bs) = gb_turn G" "gb_step (next_group G ns as bs) = gb_step G"
  "gb_blocks (next_group G ns as bs) = bs" "gb_base (next_group G ns as bs) = gb_base G"
  by (simp_all add: next_group_def)

lemma next_group_start:
  assumes "base_distinct G" "gb_blocks G = as @ bs @ cs" "booked G {} (zip ns (map fst as)) (zip ns (map fst as)) h"
  shows "booked (next_group G ns as bs) {} [] [] h"
proof -
  have t: "traced (gb_base G) (gb_calls G @ zip ns (map fst as)) (gb_results G @ zip ns (map fst as)) h"
    using assms(3) by (simp add: booked_def)
  have "ids_distinct bs h"
    using traced_distinct [OF t] assms(1,2) by (auto simp: ids_distinct_def base_distinct_def)
  then show ?thesis using assms(3) t by (simp add: booked_def in_step_def next_group_def)
qed

lemma next_group_done:
  assumes "base_distinct G" "length ns = length as" "replied (next_group G ns as bs) xs h"
  shows "replied G (as @ xs) h"
proof -
  from assms(3) obtain ms where len: "length ms = length xs"
    and b: "booked (next_group G ns as bs) {} (zip ms (map fst xs)) (zip ms (map fst xs)) h"
    unfolding replied_def by blast
  have t: "traced (gb_base G) (gb_calls G @ zip ns (map fst as) @ zip ms (map fst xs)) (gb_results G @ zip ns (map fst as) @ zip ms (map fst xs)) h"
    using b by (simp add: booked_def next_group_def)
  have "ids_distinct (gb_blocks G) h"
    using traced_distinct [OF t] assms(1) by (auto simp: ids_distinct_def base_distinct_def)
  then have "booked G {} (zip ns (map fst as) @ zip ms (map fst xs)) (zip ns (map fst as) @ zip ms (map fst xs)) h"
    using b t by (simp add: booked_def in_step_def)
  then show ?thesis by (rule replied_extend [OF assms(2) _ refl len])
qed

definition progressed :: "group_base \<Rightarrow> tool_block list \<Rightarrow> agent \<Rightarrow> bool" where
  "progressed G planned h \<longleftrightarrow> (\<exists>before. gb_blocks G = before @ planned \<and> replied G before h)"

lemma stable_progressed [intro, simp]: "stable (progressed G planned)"
  unfolding progressed_def [abs_def] by (intro stable_ex stable_conj stable_const stable_replied)

lemma progressed_lost: "progressed G planned h \<Longrightarrow> lost G h"
  by (auto simp: progressed_def intro: replied_lost)

lemma triple_next_group:
  assumes base: "base_distinct G" and planned: "planned = grp @ more'"
  shows "triple (progressed G planned) (run_group env (gb_turn G) (gb_step G) grp parallel)
     (\<lambda>out. progressed G (drop (go_consumed out) planned)) (\<lambda>_. lost G) driving"
proof -
  have "triple (\<lambda>h. \<exists>before ns. (gb_blocks G = before @ planned \<and> length ns = length before) \<and>
        booked G {} (zip ns (map fst before)) (zip ns (map fst before)) h)
      (run_group env (gb_turn G) (gb_step G) grp parallel)
      (\<lambda>out. progressed G (drop (go_consumed out) planned)) (\<lambda>_. lost G) driving"
  proof (rule triple_ex, rule triple_ex, rule triple_pure, elim conjE)
    fix before and ns :: "nat list" assume before: "gb_blocks G = before @ planned" "length ns = length before"
    let ?G = "next_group G ns before grp"
    have "triple (booked ?G {} [] []) (run_group env (gb_turn G) (gb_step G) grp parallel)
      (\<lambda>out h. replied ?G (take (go_consumed out) grp) h \<and> go_consumed out \<le> length grp) (\<lambda>_. lost G) driving"
      using triple_run_group [of ?G env parallel] by simp
    then show "triple (booked G {} (zip ns (map fst before)) (zip ns (map fst before)))
      (run_group env (gb_turn G) (gb_step G) grp parallel)
      (\<lambda>out. progressed G (drop (go_consumed out) planned)) (\<lambda>_. lost G) driving"
    proof (rule triple_conseq)
      show "booked ?G {} [] [] h" if "booked G {} (zip ns (map fst before)) (zip ns (map fst before)) h" for h
        by (rule next_group_start [OF base _ that]) (use before planned in simp)
      fix out :: group_outcome and h
      assume post: "replied ?G (take (go_consumed out) grp) h \<and> go_consumed out \<le> length grp"
      then have "replied G (before @ take (go_consumed out) grp) h" using next_group_done [OF base before(2)] by blast
      moreover have "gb_blocks G = (before @ take (go_consumed out) grp) @ drop (go_consumed out) planned"
        using post before(1) planned by simp
      ultimately show "progressed G (drop (go_consumed out) planned) h" unfolding progressed_def by blast
    qed
  qed
  then show ?thesis by (rule triple_conseq) (auto simp: progressed_def replied_def)
qed

lemma triple_after_group:
  "triple (progressed G (drop (go_consumed out) planned)) (after_group env (gb_turn G) (gb_step G) planned concluded out)
     (\<lambda>r. case r of Inl st' \<Rightarrow> progressed G (fst st') | Inr _ \<Rightarrow> replied G (gb_blocks G)) (\<lambda>_. lost G) driving"
proof -
  let ?left = "drop (go_consumed out) planned" and ?concluded = "concluded \<or> go_concluded out"
  let ?Q = "\<lambda>r :: tool_block list \<times> bool + bool. case r of Inl st' \<Rightarrow> progressed G (fst st') | Inr _ \<Rightarrow> replied G (gb_blocks G)"
  have "triple (\<lambda>h. \<exists>before. gb_blocks G = before @ ?left \<and> replied G before h)
      (chain (each (append_skipped_tool_call env (gb_turn G) (gb_step G)) ?left) (\<lambda>_. return (Inr ?concluded))) ?Q (\<lambda>_. lost G) driving"
  proof (rule triple_ex, rule triple_pure)
    fix before assume b: "gb_blocks G = before @ ?left"
    show "triple (replied G before) (chain (each (append_skipped_tool_call env (gb_turn G) (gb_step G)) ?left)
            (\<lambda>_. return (Inr ?concluded))) ?Q (\<lambda>_. lost G) driving"
      by (rule triple_chain [OF triple_skip_replied], rule triple_return) (simp add: b)
  qed
  then have skipped: "triple (progressed G ?left)
      (chain (each (append_skipped_tool_call env (gb_turn G) (gb_step G)) ?left) (\<lambda>_. return (Inr ?concluded))) ?Q (\<lambda>_. lost G) driving"
    unfolding progressed_def [of G ?left, abs_def] .
  have next_one: "triple (progressed G ?left) (return (Inl (?left, ?concluded))) ?Q (\<lambda>_. lost G) driving"
    by (rule triple_return) simp
  show ?thesis unfolding after_group_def Let_def
    by (split if_split) (simp add: skipped next_one)
qed

lemma triple_call_round:
  assumes base: "base_distinct G"
  shows "triple (progressed G (fst st)) (call_round env (gb_turn G) (gb_step G) st)
     (\<lambda>r. case r of Inl st' \<Rightarrow> progressed G (fst st') | Inr _ \<Rightarrow> replied G (gb_blocks G)) (\<lambda>_. lost G) driving"
proof -
  obtain planned concluded where st: "st = (planned, concluded)" by (cases st)
  let ?Q = "\<lambda>r :: tool_block list \<times> bool + bool. case r of Inl st' \<Rightarrow> progressed G (fst st') | Inr _ \<Rightarrow> replied G (gb_blocks G)"
  show ?thesis
  proof (cases "planned = []")
    case True
    have "triple (progressed G []) (return (Inr concluded)) ?Q (\<lambda>_. lost G) driving"
      by (rule triple_return) (auto simp: progressed_def)
    with True show ?thesis by (simp add: call_round_def st)
  next
    case False
    have ready: "triple (progressed G planned) (await as_parallel) (\<lambda>_. progressed G planned) (\<lambda>_. lost G) driving"
      by (rule triple_await) (auto intro: lost_driving progressed_lost)
    have grp: "triple (progressed G planned)
        (awaited (run_group env (gb_turn G) (gb_step G) (if parallel then planned else [hd planned]) parallel))
        (\<lambda>out. progressed G (drop (go_consumed out) planned)) (\<lambda>_. lost G) driving" for parallel
      by (rule triple_awaited [OF triple_next_group [OF base, where more' = "if parallel then [] else tl planned"]])
        (use False in \<open>auto intro: lost_driving progressed_lost\<close>)
    show ?thesis using triple_chain [OF ready triple_chain [OF grp triple_after_group]] False
      by (simp add: call_round_def st)
  qed
qed

theorem triple_execute_calls:
  assumes base: "base_distinct G"
  shows "triple (booked G {} [] []) (execute_tool_calls env (gb_turn G) (gb_step G) (gb_blocks G))
     (\<lambda>_. replied G (gb_blocks G)) (\<lambda>_. lost G) driving"
  unfolding execute_tool_calls_def
proof (rule triple_conseq [OF triple_loop [where I = "\<lambda>st. progressed G (fst st)" and Q = "\<lambda>_. replied G (gb_blocks G)"]])
  fix st
  show "triple (progressed G (fst st)) (call_round env (gb_turn G) (gb_step G) st)
    (\<lambda>r s. case r of Inl x' \<Rightarrow> progressed G (fst x') s | Inr a \<Rightarrow> replied G (gb_blocks G) s) (\<lambda>_. lost G) driving"
    by (rule triple_conseq [OF triple_call_round [OF base]]) (auto split: sum.splits)
next
  show "\<And>st h. progressed G (fst st) h \<Longrightarrow> driving h" by (auto intro: lost_driving progressed_lost)
  show "\<And>h. booked G {} [] [] h \<Longrightarrow> progressed G (fst (gb_blocks G, False)) h" by (auto simp: progressed_def replied_def)
qed

end
