(* ===== verification/Agent_Safety.thy ===== *)
theory Agent_Safety
  imports Tool_Safety
begin

text \<open>
  The driver keeps the turn invariant of its session. From an idle agent whose log the invariant
  accepts with no turn open, every log the driver writes is accepted at every point at which it
  can be observed, whatever other code does meanwhile; and whenever the driver is idle again, no
  turn is open.
\<close>

section \<open>Composing and streaming a request\<close>

definition at_step_open :: "int \<Rightarrow> int \<Rightarrow> agent \<Rightarrow> bool" where
  "at_step_open t s = within (InStep {}) t s t s"

lemma step_open_basic [intro, simp]:
  "stable (at_step_open t s)" "at_step_open t s h \<Longrightarrow> driving h" "at_step_open t s h \<Longrightarrow> lost_step t s h"
  by (auto simp: at_step_open_def lost_step_def intro: within_driving)

lemma step_open_frame [simp]:
  "at_step_open t s (h\<lparr>ag_ids := n\<rparr>) = at_step_open t s h"
  "at_step_open t s (h\<lparr>ag_emitted := em\<rparr>) = at_step_open t s h"
  "at_step_open t s (h\<lparr>ag_sent := sn\<rparr>) = at_step_open t s h"
  "at_step_open t s (h\<lparr>ag_header_logged := b\<rparr>) = at_step_open t s h"
  by (simp_all add: at_step_open_def)

lemma lost_basic [intro]: "lost_step t s h \<Longrightarrow> driving h"
  by (rule lost_driving)

lemma triple_step_await:
  "triple (at_step_open t s) (await f) (\<lambda>_. at_step_open t s) (\<lambda>_. at_step_open t s) driving"
  by (rule triple_await) auto

lemma triple_step_check:
  "triple (at_step_open t s) throw_if_aborted (\<lambda>_. at_step_open t s) (\<lambda>_. at_step_open t s) driving"
  by (rule triple_throw_if_aborted)

lemma triple_step_record:
  "log_only d \<Longrightarrow> \<forall>sp. d \<noteq> InboxSpliced sp \<Longrightarrow>
    (\<And>log e. contiguous log \<Longrightarrow> ev_seq e = length log \<Longrightarrow> ev_data e = d \<Longrightarrow> positioned (InStep {}) t s log \<Longrightarrow> positioned (InStep {}) t s (log @ [e]))
   \<Longrightarrow> triple (at_step_open t s) (append_log d None None) (\<lambda>_. at_step_open t s) (\<lambda>_. at_step_open t s) driving"
  unfolding at_step_open_def by (rule triple_append_only)

lemma triple_step_reads:
  "triple (at_step_open t s) read_header (\<lambda>_. at_step_open t s) E driving"
  "triple (at_step_open t s) read_context (\<lambda>_. at_step_open t s) E driving"
  "triple (at_step_open t s) read_messages (\<lambda>_. at_step_open t s) (\<lambda>_. at_step_open t s) driving"
  unfolding at_step_open_def
  by (rule triple_reads_session, rule triple_reads_session, rule triple_read_messages)

lemma triple_record_header:
  "triple (at_step_open t s) (record_header hd') (\<lambda>_. at_step_open t s) (\<lambda>_. at_step_open t s) driving"
  unfolding record_header_def
  by (rule triple_chain [OF triple_step_reads(1)],
      rule triple_chain [OF triple_read_keep])
    (auto intro!: triple_chain [OF triple_step_record] triple_keep triple_return intro: moves_step)

lemma triple_record_context:
  "triple (at_step_open t s) (record_context c) (\<lambda>_. at_step_open t s) (\<lambda>_. at_step_open t s) driving"
  unfolding record_context_def
  by (rule triple_chain [OF triple_step_reads(2)])
    (auto intro!: triple_chain [OF triple_step_record] triple_return intro: moves_step)

lemma triple_prepare_call:
  "triple (at_step_open t s) (prepare_call c) (\<lambda>_. at_step_open t s) (\<lambda>_. at_step_open t s) driving"
  unfolding prepare_call_def
  by (rule triple_catch [where R = "\<lambda>_. at_step_open t s", OF triple_chain [OF triple_step_await triple_return]])
    (auto intro!: triple_return triple_throw split: driver_error.split)

lemma triple_compose_request:
  "triple (at_step_open t s) (compose_request tools system messages config prepared) (\<lambda>_. at_step_open t s) (\<lambda>_. at_step_open t s) driving"
  unfolding compose_request_def Let_def
  by (rule triple_chain [OF triple_record_header], rule triple_chain [OF triple_record_context],
      rule triple_chain [OF triple_step_check], rule triple_return)

lemma triple_propose_request:
  "triple (at_step_open t s) (propose_request env tools system messages proposed) (\<lambda>_. at_step_open t s) (\<lambda>_. at_step_open t s) driving"
  unfolding propose_request_def
  by (rule triple_if [OF triple_throw], assumption, rule triple_chain [OF triple_prepare_call],
      rule triple_chain [OF triple_step_check triple_compose_request])

lemma triple_build_request:
  "triple (at_step_open t s) (awaited (build_request env tools system messages)) (\<lambda>_. at_step_open t s) (\<lambda>_. at_step_open t s) driving"
  unfolding build_request_def
  by (rule triple_awaited, rule triple_chain [OF triple_step_reads(1)], rule triple_chain [OF triple_read_keep],
      rule triple_case_option [OF triple_throw], assumption, rule triple_chain [OF triple_step_await],
      rule triple_chain [OF triple_step_check triple_propose_request]) auto

lemma triple_closing:
  assumes "triple P m Q E W" "\<And>e. stable (E e)" "\<And>e h. E e h \<Longrightarrow> W h"
  shows "triple P (closing_stream m) Q E W"
  unfolding closing_stream_def
  by (rule triple_catch [OF assms(1)], rule triple_chain [OF triple_next_answer [OF assms(2)]]) (auto intro: assms triple_throw)

lemma triple_chunk_round:
  "triple (at_step_open t s) (chunk_round t s st) (\<lambda>_. at_step_open t s) (\<lambda>_. at_step_open t s) driving"
proof -
  have logged: "triple (at_step_open t s) (log_chunk t s st c) (\<lambda>_. at_step_open t s) (\<lambda>_. at_step_open t s) driving" for c
    unfolding log_chunk_def
    by (rule triple_closing [OF triple_chain [OF triple_step_check triple_chain [OF triple_step_record triple_return]]])
      (auto intro: moves_step)
  show ?thesis unfolding chunk_round_def
    by (rule triple_chain [OF triple_step_await], rule triple_case_option [OF triple_return], assumption,
        rule triple_chain [OF logged triple_return])
qed

lemma triple_stream_chunks:
  "triple (at_step_open t s) (stream_chunks t s) (\<lambda>_. at_step_open t s) (\<lambda>_. at_step_open t s) driving"
  unfolding stream_chunks_def
  by (rule triple_loop [where I = "\<lambda>_. at_step_open t s", OF triple_conseq [OF triple_chunk_round]]) (auto split: sum.splits)

text \<open>The reply's calls are among the calls the log names.\<close>

definition replied_with :: "int \<Rightarrow> int \<Rightarrow> content_block list \<Rightarrow> agent \<Rightarrow> bool" where
  "replied_with t s blocks h \<longleftrightarrow>
     at_step_open t s h \<and> (calls_distinct (log_of h) \<longrightarrow> distinct (map fst (tool_blocks blocks)))"

lemma reply_not_splice: "\<forall>sp. AssistantMessageEv t s m u \<noteq> InboxSpliced sp"
  by simp

lemma triple_record_reply:
  "triple (at_step_open t s) (record_reply env t s request a seqs) (\<lambda>blocks. replied_with t s blocks) (\<lambda>_. at_step_open t s) driving"
  unfolding record_reply_def
proof (rule triple_chain [OF triple_of_result [where Q = "\<lambda>_. at_step_open t s"]], assumption, assumption,
    rule triple_chain [OF triple_fresh_id])
  show "\<And>h n. at_step_open t s h \<Longrightarrow> at_step_open t s (h\<lparr>ag_ids := n\<rparr>)" by simp
  fix blocks mid
  let ?m = "\<lparr>am_id = mid, am_content = blocks, am_provider = cc_provider (mq_config request),
    am_model = cc_model (mq_config request), am_replay_state = ba_replay a\<rparr>"
  show "triple (at_step_open t s)
      (chain (append_surface (AssistantMessageEv t s ?m (ba_usage a)) (Some seqs)) (\<lambda>_. return blocks))
      (\<lambda>blocks. replied_with t s blocks) (\<lambda>_. at_step_open t s) driving"
    unfolding append_surface_def
  proof (rule triple_chain [OF triple_append [where Q = "\<lambda>_. replied_with t s blocks"]])
    fix e h h'
    assume st: "at_step_open t s h"
      and app: "log_append (AssistantMessageEv t s ?m (ba_usage a)) (Some (surface_op_json OpAppend)) (map_option seqs_json (Some seqs)) h = Inr (e, h')"
    have ok: "agent_ok h" using st by (simp add: at_step_open_def within_def)
    note a = log_append_agent_ok [OF ok app reply_not_splice]
    have "at_step_open t s h'"
      using within_append [OF _ app reply_not_splice, of "InStep {}" t s t s] st unfolding at_step_open_def
      by (blast intro: moves_step(2))
    moreover have "calls_distinct (log_of h') \<longrightarrow> distinct (map fst (tool_blocks blocks))"
      using a(2,4) by (auto simp: calls_distinct_def)
    ultimately show "replied_with t s blocks h'" by (simp add: replied_with_def)
  qed (simp_all add: triple_return)
qed

lemma triple_reply_calls:
  "triple (replied_with t s blocks) (awaited (execute_tool_calls env t s (tool_blocks blocks)))
     (\<lambda>_. at_step_open t s) (\<lambda>_. lost_step t s) driving"
proof (rule triple_awaited)
  let ?G = "\<lambda>log. \<lparr>gb_base = log, gb_calls = [], gb_results = [], gb_turn = t, gb_step = s, gb_blocks = tool_blocks blocks\<rparr>"
  have "triple (\<lambda>h. \<exists>log. base_distinct (?G log) \<and> booked (?G log) {} [] [] h)
      (execute_tool_calls env t s (tool_blocks blocks)) (\<lambda>_. at_step_open t s) (\<lambda>_. lost_step t s) driving"
  proof (rule triple_ex, rule triple_pure)
    fix log assume "base_distinct (?G log)"
    from triple_execute_calls [OF this, of env]
    have "triple (booked (?G log) {} [] []) (execute_tool_calls env t s (tool_blocks blocks))
        (\<lambda>_. replied (?G log) (tool_blocks blocks)) (\<lambda>_. lost_step t s) driving" by simp
    then show "triple (booked (?G log) {} [] []) (execute_tool_calls env t s (tool_blocks blocks))
        (\<lambda>_. at_step_open t s) (\<lambda>_. lost_step t s) driving"
      by (rule triple_conseq) (auto simp: replied_def booked_def in_step_def at_step_open_def)
  qed
  then show "triple (replied_with t s blocks) (execute_tool_calls env t s (tool_blocks blocks))
      (\<lambda>_. at_step_open t s) (\<lambda>_. lost_step t s) driving"
  proof (rule triple_conseq)
    fix h assume "replied_with t s blocks h"
    then show "\<exists>log. base_distinct (?G log) \<and> booked (?G log) {} [] [] h"
      by (intro exI [of _ "log_of h"])
        (auto simp: replied_with_def base_distinct_def booked_def in_step_def at_step_open_def traced_def ids_distinct_def)
  qed auto
qed auto

lemma triple_lose: "triple P m Q (\<lambda>_. at_step_open t s) W \<Longrightarrow> triple P m Q (\<lambda>_. lost_step t s) W"
  by (erule triple_exn) auto

lemma triple_settle_reply:
  "triple (replied_with t s blocks) (settle_reply env t s finish blocks) (\<lambda>_. at_step_open t s) (\<lambda>_. lost_step t s) driving"
  unfolding settle_reply_def
  by (intro triple_if triple_return triple_chain [OF triple_reply_calls]) (simp_all add: replied_with_def)

lemma triple_settle_stream:
  "triple (at_step_open t s) (settle_stream env t s request st) (\<lambda>_. at_step_open t s) (\<lambda>_. lost_step t s) driving"
proof -
  have retry: "triple (at_step_open t s) (retry_request f) (\<lambda>_. at_step_open t s) (\<lambda>_. at_step_open t s) driving" for f
    unfolding retry_request_def
    by (rule triple_chain [OF triple_step_await], rule triple_chain [OF triple_step_check])
      (rule triple_if [OF triple_return triple_throw])
  show ?thesis unfolding settle_stream_def
    by (intro triple_case_option triple_lose [OF retry] triple_chain [OF triple_lose [OF triple_record_reply] triple_settle_reply])
qed

lemma triple_request_round:
  "triple (at_step_open t s) (request_round env t s assembly system u) (\<lambda>_. at_step_open t s) (\<lambda>_. lost_step t s) driving"
proof -
  have sent: "triple (at_step_open t s) (dispatch_request request) (\<lambda>_. at_step_open t s) (\<lambda>_. at_step_open t s) driving" for request
    unfolding dispatch_request_def by (rule triple_chain [OF triple_keep triple_step_await]) simp
  show ?thesis unfolding request_round_def
    by (intro triple_chain [OF triple_lose [OF triple_step_reads(3)]] triple_chain [OF triple_lose [OF triple_build_request]]
        triple_chain [OF triple_lose [OF sent]] triple_chain [OF triple_lose [OF triple_step_check]]
        triple_chain [OF triple_lose [OF triple_stream_chunks]] triple_settle_stream)
qed

section \<open>Steps and turns\<close>

lemma triple_run_step:
  "triple (at_step_open t s) (run_step env assembly) (\<lambda>_. at_step_open t s) (\<lambda>_. lost_step t s) driving"
  unfolding run_step_def
proof (rule triple_chain [OF triple_reads [where Q = "\<lambda>p h. (\<exists>a w. p = Running a t s w) \<and> at_step_open t s h"]])
  have requests: "triple (at_step_open t s) (run_requests env t s assembly) (\<lambda>_. at_step_open t s) (\<lambda>_. lost_step t s) driving"
    unfolding run_requests_def
    by (rule triple_chain [OF triple_lose [OF triple_step_check]],
        rule triple_chain [OF triple_of_result [where Q = "\<lambda>_. at_step_open t s"]], assumption, simp,
        rule triple_loop [where I = "\<lambda>_. at_step_open t s", OF triple_post [OF triple_request_round]])
      (auto split: sum.splits)
  show "triple (\<lambda>h. (\<exists>a w. p = Running a t s w) \<and> at_step_open t s h)
      (case p of
          Running _ turn step _ \<Rightarrow> run_requests env turn step assembly
        | _ \<Rightarrow> throw (Raised (''agent '' @ ae_id env @ '': step outside running phase'')))
      (\<lambda>_. at_step_open t s) (\<lambda>_. lost_step t s) driving" for p
    by (rule triple_pure) (auto intro: requests)
qed (auto simp: at_step_open_def within_def)

lemma within_phase:
  "within pl t s pt ps h \<Longrightarrow> within pl t s pt' ps' (h\<lparr>ag_phase := Running a pt' ps' w\<rparr>)"
  by (auto simp: within_def)

lemma triple_enter_messages:
  "triple (at_step_open t s) (enter_messages ms) (\<lambda>_. at_step_open t s) (\<lambda>_. lost_step t s) driving"
  unfolding enter_messages_def
proof (rule triple_each)
  fix m
  have "triple (at_step_open t s) (append_surface (UserMessageEv m) None) (\<lambda>_. at_step_open t s) (\<lambda>_. at_step_open t s) driving"
    unfolding at_step_open_def by (rule triple_append_surface) (auto intro: moves_step)
  then show "triple (at_step_open t s) (chain (append_surface (UserMessageEv m) None) (\<lambda>_. return ())) (\<lambda>_. at_step_open t s)
      (\<lambda>_. lost_step t s) driving"
    by (rule triple_chain [OF triple_lose]) (simp add: triple_return)
qed

lemma triple_step_end:
  "triple (lost_step t s) (chain (append_log (StepEnd t s) None None) (\<lambda>_. return ())) (\<lambda>_. within InTurn t s t s) E driving"
proof -
  have "triple (within (InStep P) t s t s) (append_log (StepEnd t s) None None) (\<lambda>_. within InTurn t s t s) E driving" for P
    by (rule triple_append_only) (auto intro: moves_boundary)
  then have "triple (lost_step t s) (append_log (StepEnd t s) None None) (\<lambda>_. within InTurn t s t s) E driving"
    unfolding lost_step_def [abs_def] by (rule triple_ex)
  then show ?thesis by (rule triple_chain) (simp add: triple_return)
qed

lemma triple_step_body:
  "triple (at_step_open t s)
     (try_finally (chain (enter_messages ms) (\<lambda>_. awaited (run_step env assembly)))
        (chain (append_log (StepEnd t s) None None) (\<lambda>_. return ())))
     (\<lambda>_. within InTurn t s t s) (\<lambda>_. within InTurn t s t s) driving"
proof (rule triple_finally)
  show "triple (at_step_open t s) (chain (enter_messages ms) (\<lambda>_. awaited (run_step env assembly)))
      (\<lambda>_. lost_step t s) (\<lambda>_. lost_step t s) driving"
    by (rule triple_chain [OF triple_enter_messages], rule triple_awaited [OF triple_post [OF triple_run_step]]) auto
qed (rule triple_step_end)+

lemma triple_open_step:
  "triple (within InTurn t s t s) (open_step env t (s + 1) ms assembly)
     (\<lambda>_. within InTurn t (s + 1) t (s + 1)) (\<lambda>_. within InTurn t (s + 1) t (s + 1)) driving"
  unfolding open_step_def
proof (rule triple_chain [OF _ triple_chain [OF _ triple_step_body]])
  show "triple (within InTurn t s t s) (append_log (StepStart t (s + 1)) None None)
      (\<lambda>_. within (InStep {}) t (s + 1) t s) (\<lambda>_. within InTurn t (s + 1) t (s + 1)) driving"
    by (rule triple_append_only) (auto intro: moves_boundary)
  show "triple (within (InStep {}) t (s + 1) t s) (upd_phase (at_step (s + 1))) (\<lambda>_. at_step_open t (s + 1))
      (\<lambda>_. within InTurn t (s + 1) t (s + 1)) driving"
    unfolding upd_phase_def at_step_open_def
  proof (rule triple_modify)
    fix h assume st: "within (InStep {}) t (s + 1) t s h"
    then obtain a w where "ag_phase h = Running a t s w" by (auto simp: within_def)
    then show "within (InStep {}) t (s + 1) t (s + 1) (h\<lparr>ag_phase := at_step (s + 1) (ag_phase h)\<rparr>)"
      using within_phase [OF st] by simp
  qed
qed

lemma triple_project_context:
  "(\<And>h n. P h \<Longrightarrow> P (h\<lparr>ag_ids := n\<rparr>)) \<Longrightarrow> triple P (project_runtime_context env sections) (\<lambda>_. P) E W"
  unfolding project_runtime_context_def Let_def
  by (rule triple_chain [OF triple_read_keep])
    (auto intro!: triple_return triple_chain [OF triple_fresh_id])

text \<open>Waiting and reading at a place of the turn.\<close>

definition turn_open :: "int \<Rightarrow> int \<Rightarrow> agent \<Rightarrow> bool" where
  "turn_open t s = within InTurn t s t s"

lemma turn_open_basic [intro, simp]:
  "stable (turn_open t s)" "turn_open t s h \<Longrightarrow> driving h"
  by (auto simp: turn_open_def intro: within_driving)

lemma turn_open_frame [simp]:
  "turn_open t s (h\<lparr>ag_ids := n\<rparr>) = turn_open t s h" "turn_open t s (h\<lparr>ag_emitted := em\<rparr>) = turn_open t s h"
  by (simp_all add: turn_open_def)

lemma triple_turn_await: "triple (turn_open t s) (await f) (\<lambda>_. turn_open t s) (\<lambda>_. turn_open t s) driving"
  by (rule triple_await) auto

lemma triple_turn_check: "triple (turn_open t s) throw_if_aborted (\<lambda>_. turn_open t s) (\<lambda>_. turn_open t s) driving"
  by (rule triple_throw_if_aborted)

lemma triple_pre_step:
  "triple (turn_open t s) (pre_step env target turn) (\<lambda>_. turn_open t s) (\<lambda>_. turn_open t s) driving"
  unfolding pre_step_def
  by (rule triple_chain [OF triple_use_inbox], simp add: turn_open_def within_def, simp add: turn_open_def noisy_within, assumption,
      rule triple_chain [OF triple_turn_await], rule triple_chain [OF triple_turn_check],
      rule triple_chain [OF triple_of_result [where Q = "\<lambda>_. turn_open t s"]], assumption, assumption,
      rule triple_chain [OF triple_project_context], simp, rule triple_chain [OF triple_turn_await],
      rule triple_chain [OF triple_turn_check], rule triple_return, assumption)

lemma triple_anchored:
  "triple (turn_open t s) (anchored_messages env turn ends latest ms) (\<lambda>_. turn_open t s) E driving"
proof -
  have log: "triple (turn_open t s) read_log (\<lambda>_. turn_open t s) E driving"
    unfolding turn_open_def by (rule triple_reads_session)
  show ?thesis
    unfolding anchored_messages_def
    by (auto intro!: triple_return triple_chain [OF triple_read_keep] triple_chain [OF log] triple_chain [OF triple_fresh_id]
        split: option.split)
qed

lemma triple_after_step:
  "triple (turn_open t s) (after_step ends latest) (\<lambda>_. turn_open t s) (\<lambda>_. turn_open t s) driving"
  unfolding after_step_def next_step_empty_def
  by (auto intro!: triple_return triple_chain [OF triple_read_keep] triple_chain [OF triple_turn_await]
      triple_chain [OF triple_turn_check] split: option.split)

text \<open>Between two steps of turn \<open>t\<close>.\<close>

definition in_turn :: "int \<Rightarrow> agent \<Rightarrow> bool" where
  "in_turn t h \<longleftrightarrow> (\<exists>s. turn_open t s h)"

lemma in_turn_basic [intro]: "in_turn t h \<Longrightarrow> driving h" "turn_open t s h \<Longrightarrow> in_turn t h"
  by (auto simp: in_turn_def)

lemma stable_in_turn [intro, simp]: "stable (in_turn t)"
  unfolding in_turn_def [abs_def] by (rule stable_ex) simp

lemma triple_weaken_turn:
  "triple P m Q (\<lambda>_. turn_open t s) W \<Longrightarrow> triple P m Q (\<lambda>_. in_turn t) W"
  by (erule triple_conseq) auto

lemma triple_enter_step:
  "triple (turn_open t s) (enter_step env t ends s assembly x) (\<lambda>_. in_turn t) (\<lambda>_. in_turn t) driving"
proof -
  have opened: "triple (turn_open t s) (open_step env t (s + 1) ms assembly) (\<lambda>_. turn_open t (s + 1)) (\<lambda>_. in_turn t) driving" for ms
    by (rule triple_weaken_turn) (unfold turn_open_def, rule triple_open_step)
  have after: "triple (turn_open t (s + 1)) (chain throw_if_aborted (\<lambda>_. after_step ends' latest)) (\<lambda>_. in_turn t) (\<lambda>_. in_turn t) driving"
    for ends' latest
    by (rule triple_chain [OF triple_weaken_turn [OF triple_turn_check]], rule triple_weaken_turn, rule triple_post [OF triple_after_step]) auto
  show ?thesis unfolding enter_step_def
    by (rule triple_if [OF triple_return triple_if [OF triple_return
            triple_chain [OF triple_weaken_turn [OF triple_turn_check] triple_chain [OF opened after]]]]) auto
qed

lemma triple_capped_step:
  "triple (turn_open t s) (capped_step env t vars s cap) (\<lambda>_. in_turn t) (\<lambda>_. in_turn t) driving"
proof -
  obtain ends target latest where vars: "vars = (ends, target, latest)" by (cases vars)
  have pre: "triple (turn_open t s) (awaited (pre_step env target t)) (\<lambda>_. turn_open t s) (\<lambda>_. in_turn t) driving"
    by (rule triple_weaken_turn, rule triple_awaited [OF triple_pre_step]) auto
  have decided: "triple (turn_open t s) (decided_step env t ends latest s decision) (\<lambda>_. in_turn t) (\<lambda>_. in_turn t) driving" for decision
  proof (cases decision)
    case StepRejected
    show ?thesis unfolding decided_step_def StepRejected prepared_step.case by (rule triple_return) auto
  next
    case (StepEntered es assembly)
    show ?thesis unfolding decided_step_def StepEntered prepared_step.case
      by (rule triple_chain [OF triple_anchored triple_enter_step])
  qed
  show ?thesis unfolding capped_step_def vars prod.case
    by (rule triple_if [OF triple_throw triple_chain [OF pre decided]]) auto
qed

lemma triple_turn_round:
  "triple (in_turn t) (turn_round env t vars) (\<lambda>_. in_turn t) (\<lambda>_. in_turn t) driving"
proof -
  have "triple (turn_open t s) (turn_round env t vars) (\<lambda>_. in_turn t) (\<lambda>_. in_turn t) driving" for s
    unfolding turn_round_def
  proof (rule triple_chain [OF triple_weaken_turn [OF triple_turn_check]],
      rule triple_chain [OF triple_reads [where Q = "\<lambda>x h. fst x = s \<and> turn_open t s h"]])
    show "\<And>h. turn_open t s h \<Longrightarrow> fst (phase_step (ag_phase h), ag_max_steps h) = s \<and> turn_open t s h"
      by (auto simp: turn_open_def within_def)
    show "triple (\<lambda>h. fst x = s \<and> turn_open t s h) (capped_step env t vars (fst x) (snd x)) (\<lambda>_. in_turn t) (\<lambda>_. in_turn t) driving" for x
      by (rule triple_pure) (simp add: triple_capped_step)
  qed
  then show ?thesis unfolding in_turn_def [of t, abs_def] by (rule triple_ex)
qed

text \<open>Between two turns; \<open>p\<close> is the phase's step counter.\<close>

definition turn_closed :: "int \<Rightarrow> int \<Rightarrow> agent \<Rightarrow> bool" where
  "turn_closed t p = within Between t p t p"

definition between_turns :: "agent \<Rightarrow> bool" where
  "between_turns h \<longleftrightarrow> (\<exists>t p. turn_closed t p h)"

definition ready_turn :: "agent \<Rightarrow> bool" where
  "ready_turn h \<longleftrightarrow> (\<exists>t. turn_closed t 0 h)"

lemma closed_basic [intro, simp]:
  "stable (turn_closed t p)" "turn_closed t p h \<Longrightarrow> driving h" "turn_closed t p h \<Longrightarrow> between_turns h"
  by (auto simp: turn_closed_def between_turns_def intro: within_driving)

lemma between_basic [intro]: "between_turns h \<Longrightarrow> driving h" "ready_turn h \<Longrightarrow> between_turns h" "turn_closed t 0 h \<Longrightarrow> ready_turn h"
  by (auto simp: between_turns_def ready_turn_def)

lemma stable_between [intro, simp]: "stable between_turns" "stable ready_turn"
  unfolding between_turns_def [abs_def] ready_turn_def [abs_def] by (intro stable_ex, simp)+

lemma positioned_Between: "positioned Between t s log = positioned Between t s' log"
  by (simp add: positioned_def)

lemma within_emit:
  "within pl t s pt ps h \<Longrightarrow> within pl t s pt ps (h\<lparr>ag_emitted := em\<rparr>)"
  by simp

lemma triple_report:
  assumes "\<And>h em. P h \<Longrightarrow> P (h\<lparr>ag_emitted := em\<rparr>)"
  shows "triple P (report_error e) (\<lambda>_. P) E W"
  unfolding report_error_def emit_def
  by (rule triple_chain [OF triple_read_keep], rule triple_modify) (rule assms)

lemma triple_throw_error:
  assumes "\<And>h em. P h \<Longrightarrow> P (h\<lparr>ag_emitted := em\<rparr>)"
  shows "triple P (throw_error e) Q (\<lambda>_. P) W"
  unfolding throw_error_def by (rule triple_chain [OF triple_report], rule assms, assumption) (rule triple_throw)

text \<open>Closing a turn appends its end, whatever the reason.\<close>

lemma triple_close_turn:
  "triple (in_turn t) (close_turn t reason) (\<lambda>_. between_turns) (\<lambda>_ _. False) driving"
proof -
  have one: "triple (within InTurn t s t s) (append_log (TurnEnd t reason) None None) (\<lambda>_. within Between t s t s) (\<lambda>_ _. False) driving" for s
    by (rule triple_append_only) (auto intro: moves_boundary)
  have "triple (\<lambda>h. \<exists>s. turn_open t s h) (append_log (TurnEnd t reason) None None) (\<lambda>_. between_turns) (\<lambda>_ _. False) driving"
    by (rule triple_ex, unfold turn_open_def, rule triple_conseq [OF one]) (auto simp: between_turns_def turn_closed_def)
  then have "triple (in_turn t) (append_log (TurnEnd t reason) None None) (\<lambda>_. between_turns) (\<lambda>_ _. False) driving"
    unfolding in_turn_def [abs_def] .
  then have "triple (in_turn t) (chain (append_log (TurnEnd t reason) None None) (\<lambda>_. return ())) (\<lambda>_. between_turns) (\<lambda>_ _. False) driving"
    by (rule triple_chain) (simp add: triple_return)
  then show ?thesis unfolding close_turn_def
    by (rule triple_catch) (simp add: triple_def)
qed

lemma triple_failed_turn: "triple (in_turn t) (failed_turn env e) (\<lambda>_. in_turn t) E driving"
  unfolding failed_turn_def
  by (rule triple_chain [OF triple_read_keep])
    (auto intro!: triple_return triple_chain [OF triple_report] simp: in_turn_def split: option.split)

lemma triple_turn_body:
  "triple (in_turn t) (turn_body env t) (\<lambda>_. between_turns) (\<lambda>_. between_turns) driving"
proof -
  have steps: "triple (in_turn t) (run_steps env t) (\<lambda>_. in_turn t) (\<lambda>_. in_turn t) driving"
    unfolding run_steps_def
    by (rule triple_loop [where I = "\<lambda>_. in_turn t", OF triple_post [OF triple_turn_round]]) (auto split: sum.splits)
  have close: "triple (in_turn t) (close_turn t reason) (\<lambda>_. between_turns) (\<lambda>_. between_turns) driving" for reason
    by (rule triple_exn [OF triple_close_turn]) auto
  show ?thesis unfolding turn_body_def
    by (rule triple_chain [OF triple_catch [OF triple_chain [OF steps triple_return] triple_chain [OF triple_failed_turn triple_return]]],
        assumption, assumption)
      (auto split: sum.split prod.split intro!: triple_chain [OF close] triple_return triple_throw)
qed

text \<open>One turn, started with a fresh step counter.\<close>

lemma triple_renew_turn:
  "triple between_turns (renew_turn go_on) (\<lambda>again. if again then ready_turn else between_turns) E driving"
proof -
  have renew: "triple between_turns (upd_phase renewed) (\<lambda>_. ready_turn) E driving"
    unfolding upd_phase_def
  proof (rule triple_modify)
    fix h assume "between_turns h"
    then obtain t p where w: "within Between t p t p h" by (auto simp: between_turns_def turn_closed_def)
    then obtain a w' where "ag_phase h = Running a t p w'" by (auto simp: within_def)
    then have "within Between t p t 0 (h\<lparr>ag_phase := renewed (ag_phase h)\<rparr>)" using within_phase [OF w] by simp
    then show "ready_turn (h\<lparr>ag_phase := renewed (ag_phase h)\<rparr>)"
      using positioned_Between [of t p _ 0] by (auto simp: ready_turn_def turn_closed_def within_def)
  qed
  show ?thesis unfolding renew_turn_def
    by (rule triple_if [OF triple_return triple_chain [OF triple_read_keep
            triple_if [OF triple_return triple_chain [OF renew triple_return]]]]) simp_all
qed

lemma triple_open_turn:
  "triple (turn_closed t 0) (open_turn env (t + 1)) (\<lambda>again. if again then ready_turn else between_turns) (\<lambda>_. between_turns) driving"
proof -
  have "triple (within Between t 0 t 0) (append_log (TurnStart (t + 1)) None None) (\<lambda>_. within InTurn (t + 1) 0 t 0) (\<lambda>_ _. False) driving"
    by (rule triple_append_only) (auto intro: moves_boundary)
  then have start: "triple (turn_closed t 0) (try_catch (chain (append_log (TurnStart (t + 1)) None None) (\<lambda>_. return ())) throw_error)
      (\<lambda>_. within InTurn (t + 1) 0 t 0) (\<lambda>_. between_turns) driving"
    unfolding turn_closed_def by (intro triple_catch [OF triple_chain [OF _ triple_return]]) (auto simp: triple_def)
  have turn: "triple (within InTurn (t + 1) 0 t 0) (upd_phase (at_turn (t + 1))) (\<lambda>_. in_turn (t + 1)) (\<lambda>_. between_turns) driving"
    unfolding upd_phase_def
  proof (rule triple_modify)
    fix h assume st: "within InTurn (t + 1) 0 t 0 h"
    then obtain a w where "ag_phase h = Running a t 0 w" by (auto simp: within_def)
    then show "in_turn (t + 1) (h\<lparr>ag_phase := at_turn (t + 1) (ag_phase h)\<rparr>)"
      using within_phase [OF st, of "t + 1" 0 a w] by (auto simp: in_turn_def turn_open_def intro!: exI [of _ 0])
  qed
  show ?thesis unfolding open_turn_def
    by (rule triple_chain [OF start triple_chain [OF turn triple_chain [OF triple_turn_body triple_renew_turn]]])
qed

lemma triple_run_turn:
  "triple ready_turn (run_turn env) (\<lambda>again. if again then ready_turn else between_turns) (\<lambda>_. between_turns) driving"
proof -
  let ?Q = "\<lambda>again. if again then ready_turn else between_turns"
  have "triple (turn_closed t 0) (run_turn env) ?Q (\<lambda>_. between_turns) driving" for t
    unfolding run_turn_def
  proof (rule triple_chain [OF triple_reads [where Q = "\<lambda>p h. (\<exists>a w. p = Running a t 0 w) \<and> turn_closed t 0 h"]])
    show "turn_closed t 0 h \<Longrightarrow> (\<exists>a w. ag_phase h = Running a t 0 w) \<and> turn_closed t 0 h" for h
      by (simp add: turn_closed_def within_def)
    have check: "triple (turn_closed t 0) throw_if_aborted (\<lambda>_. turn_closed t 0) (\<lambda>_. between_turns) driving"
      by (rule triple_throw_if_aborted) auto
    show "triple (\<lambda>h. (\<exists>a w. p = Running a t 0 w) \<and> turn_closed t 0 h)
        (if \<not> status_running p
          then throw_error (Raised (''agent '' @ ae_id env @ '': turn without driver reservation''))
          else chain throw_if_aborted (\<lambda>_. open_turn env (phase_turn p + 1))) ?Q (\<lambda>_. between_turns) driving" for p
      by (rule triple_pure, elim exE) (use triple_chain [OF check triple_open_turn] in simp)
  qed
  then show ?thesis unfolding ready_turn_def [abs_def] by (rule triple_ex)
qed

section \<open>The phase machine\<close>

text \<open>An agent at rest: its parts agree and no turn of its log is open.\<close>

definition at_rest :: "int \<Rightarrow> agent \<Rightarrow> bool" where
  "at_rest t h \<longleftrightarrow> agent_ok h \<and> positioned Between t 0 (log_of h)"

definition idle_at :: "int \<Rightarrow> agent \<Rightarrow> bool" where
  "idle_at t h \<longleftrightarrow> at_rest t h \<and> ag_phase h = Idle t"

definition is_idle_agent :: "agent \<Rightarrow> bool" where
  "is_idle_agent h \<longleftrightarrow> (\<exists>t. idle_at t h)"

text \<open>What holds at every point at which the driver can be observed.\<close>

definition lawful :: "agent \<Rightarrow> bool" where
  "lawful h \<longleftrightarrow> agent_ok h \<and> (calls_distinct (log_of h) \<longrightarrow> is_ok (seed_session (log_of h)))"

lemma positioned_ok: "positioned pl t s log \<Longrightarrow> calls_distinct log \<Longrightarrow> is_ok (seed_session log)"
  by (auto simp: positioned_def is_ok_def)

lemma driving_lawful: "driving h \<Longrightarrow> lawful h"
  by (auto simp: driving_def within_def lawful_def intro: positioned_ok)

lemma rest_lawful: "at_rest t h \<Longrightarrow> lawful h"
  by (auto simp: at_rest_def lawful_def intro: positioned_ok)

lemma idle_lawful: "is_idle_agent h \<Longrightarrow> lawful h"
  by (auto simp: is_idle_agent_def idle_at_def intro: rest_lawful)

lemma set_phase_frame [simp]:
  "agent_ok (set_phase p h) = agent_ok h" "log_of (set_phase p h) = log_of h" "ag_phase (set_phase p h) = p"
  by (simp_all add: set_phase_def agent_ok_def log_of_def)

lemma triple_again:
  assumes "triple P m (\<lambda>again. if again then P else Q) E W"
  shows "triple P (again_round m u) (\<lambda>r. case r of Inl _ \<Rightarrow> P | Inr _ \<Rightarrow> Q) E W"
  unfolding again_round_def by (rule triple_chain [OF assms]) (auto intro: triple_return)

lemma triple_retire: "triple between_turns retire (\<lambda>_. is_idle_agent) (\<lambda>_ _. False) lawful"
  unfolding retire_def
proof (rule triple_chain [OF triple_reads [where Q = "\<lambda>p h. between_turns h \<and> ag_phase h = p"]])
  fix p
  show "triple (\<lambda>h. between_turns h \<and> ag_phase h = p)
    (case p of
        Running _ turn _ wake \<Rightarrow>
          chain (modify (set_phase (Idle turn))) (\<lambda>_. reads (\<lambda>h. wake \<and> has_pending (ag_inbox h)))
      | _ \<Rightarrow> return False) (\<lambda>_. is_idle_agent) (\<lambda>_ _. False) lawful"
  proof (cases p)
    case (Running a turn st wake)
    have "triple (\<lambda>h. between_turns h \<and> ag_phase h = Running a turn st wake) (modify (set_phase (Idle turn)))
        (\<lambda>_. is_idle_agent) (\<lambda>_ _. False) lawful"
    proof (rule triple_modify)
      fix h assume b: "between_turns h \<and> ag_phase h = Running a turn st wake"
      then obtain t p where "within Between t p t p h" by (auto simp: between_turns_def turn_closed_def)
      with b show "is_idle_agent (set_phase (Idle turn) h)"
        using positioned_Between [of turn p _ 0] by (auto simp: is_idle_agent_def idle_at_def at_rest_def within_def)
    qed
    then show ?thesis unfolding Running phase.case by (rule triple_chain) (rule triple_reads)
  qed (auto intro!: triple_return simp: between_turns_def turn_closed_def within_def)
qed simp

lemma triple_kick:
  "triple ready_turn (kick env) (\<lambda>_. is_idle_agent) (\<lambda>_ _. False) lawful"
proof -
  have turn: "triple ready_turn (awaited (run_turn env)) (\<lambda>again. if again then ready_turn else between_turns)
      (\<lambda>_. between_turns) driving"
    by (rule triple_awaited [OF triple_run_turn]) (auto split: if_splits)
  have "triple ready_turn (turns_loop env) (\<lambda>_. between_turns) (\<lambda>_. between_turns) driving"
    unfolding turns_loop_def
    by (rule triple_loop [where I = "\<lambda>_. ready_turn" and Q = "\<lambda>_. between_turns", OF triple_post [OF triple_again [OF turn]]])
      (auto split: sum.splits)
  then have "triple ready_turn (try_catch (turns_loop env) (\<lambda>_. return ())) (\<lambda>_. between_turns) (\<lambda>_ _. False) driving"
    by (rule triple_catch) (simp add: triple_return)
  then have "triple ready_turn (try_catch (turns_loop env) (\<lambda>_. return ())) (\<lambda>_. between_turns) (\<lambda>_ _. False) lawful"
    by (rule triple_conseq) (auto intro: driving_lawful)
  then show ?thesis unfolding kick_def by (rule triple_chain) (rule triple_retire)
qed

lemma triple_run_driver:
  "triple is_idle_agent (run_driver env) (\<lambda>_. is_idle_agent) (\<lambda>_ _. False) lawful"
proof -
  have start: "triple is_idle_agent start_driver (\<lambda>_. ready_turn) (\<lambda>_ _. False) lawful"
    unfolding start_driver_def
  proof (rule triple_modify)
    fix h assume "is_idle_agent h"
    then obtain t where "idle_at t h" by (auto simp: is_idle_agent_def)
    then show "ready_turn (set_phase (Running None (phase_turn (ag_phase h)) 0 False) h)"
      by (auto simp: idle_at_def at_rest_def ready_turn_def turn_closed_def within_def)
  qed
  have "triple is_idle_agent (chain start_driver (\<lambda>_. kick env))
      (\<lambda>again. if again then is_idle_agent else is_idle_agent) (\<lambda>_ _. False) lawful"
    by (rule triple_chain [OF start]) (simp add: triple_kick)
  from triple_again [OF this]
  have "triple is_idle_agent (again_round (chain start_driver (\<lambda>_. kick env)) u)
      (\<lambda>r s. case r of Inl _ \<Rightarrow> is_idle_agent s | Inr _ \<Rightarrow> is_idle_agent s) (\<lambda>_ _. False) lawful" for u
    by (rule triple_post) (auto split: sum.splits)
  then show ?thesis unfolding run_driver_def
    by (rule triple_loop [where I = "\<lambda>_. is_idle_agent"]) (rule idle_lawful)
qed

lemma noisy_rest: "at_rest t h \<Longrightarrow> noisy h h' \<Longrightarrow> at_rest t h'"
proof -
  assume st: "at_rest t h" and noise: "noisy h h'"
  from noise obtain es where es: "log_of h' = log_of h @ es" "\<forall>e\<in>set es. quiet (ev_data e)" by (auto simp: noisy_def)
  have ok: "agent_ok h'" using noise by (simp add: noisy_def)
  then have "contiguous (log_of h @ es)" using agent_ok_contiguous [of h'] es(1) by simp
  then show "at_rest t h'" using positioned_quiet_run [OF _ _ es(2)] st es(1) ok by (simp add: at_rest_def)
qed

lemma stable_rest [intro, simp]: "stable (at_rest t)"
  by (rule stableI) (auto intro: noisy_rest, auto simp: at_rest_def agent_ok_def log_of_def script_ok_def)

text \<open>Operations that only make noise keep an idle agent idle.\<close>

lemma inbox_call_idle:
  assumes st: "idle_at t h" and call: "inbox_call c h = Inr (ms, h')"
  shows "idle_at t h'"
proof -
  have ok: "agent_ok h" using st by (simp add: idle_at_def at_rest_def)
  show ?thesis using st noisy_rest [OF _ inbox_call_noisy [OF ok call]] inbox_call_ok(3) [OF ok call] by (simp add: idle_at_def)
qed

lemma triple_of_update:
  "(\<And>h h'. P h \<Longrightarrow> f h = Inr h' \<Longrightarrow> Q h') \<Longrightarrow> (\<And>e h. P h \<Longrightarrow> E e h) \<Longrightarrow> triple P (of_update f) (\<lambda>_. Q) E W"
  by (auto simp: triple_def of_update_def split: sum.splits)

lemma queue_message_idle: "idle_at t h \<Longrightarrow> queue_message m target wakeup h = Inr h' \<Longrightarrow> idle_at t h'"
  by (auto simp: queue_message_def rmap_eq_Inr intro: inbox_call_idle)

lemma cancel_work_idle:
  assumes "idle_at t h" "cancel_work cause keep h = Inr h'"
  shows "idle_at t h'"
proof -
  have frame: "idle_at t (h1\<lparr>ag_phase := p\<rparr>)" if "idle_at t h1" "p = Idle t" for h1 p
    using that by (simp add: idle_at_def at_rest_def)
  show ?thesis
    using assms inbox_call_idle [OF assms(1)]
    by (cases keep) (auto simp: cancel_work_def rmap_eq_Inr idle_at_def at_rest_def)
qed

lemma triple_wake_driver:
  "triple is_idle_agent (wake_driver env after_abort) (\<lambda>_. is_idle_agent) (\<lambda>_ _. False) lawful"
  unfolding wake_driver_def
proof (rule triple_chain [OF triple_reads [where Q = "\<lambda>idle h. idle \<and> is_idle_agent h"]])
  fix idle
  show "triple (\<lambda>h. idle \<and> is_idle_agent h) (if idle then run_driver env else modify (latch_wake after_abort))
      (\<lambda>_. is_idle_agent) (\<lambda>_ _. False) lawful"
    by (rule triple_pure) (simp add: triple_run_driver)
qed (auto simp: is_idle_agent_def idle_at_def)

lemma triple_send:
  "triple is_idle_agent (send env m target wakeup) (\<lambda>_. is_idle_agent) (\<lambda>_. is_idle_agent) lawful"
  unfolding send_def
proof (rule triple_chain [OF triple_read_keep], rule triple_chain)
  show "triple is_idle_agent (of_update (queue_message m target wakeup)) (\<lambda>_. is_idle_agent) (\<lambda>_. is_idle_agent) lawful"
    by (rule triple_of_update) (auto simp: is_idle_agent_def intro: queue_message_idle)
  show "triple is_idle_agent (if wakeup then wake_driver env late else return ()) (\<lambda>_. is_idle_agent) (\<lambda>_. is_idle_agent) lawful" for late
    by (auto intro: triple_conseq [OF triple_wake_driver] triple_return)
qed

lemma triple_cancel:
  "triple is_idle_agent (cancel cause keep) (\<lambda>_. is_idle_agent) (\<lambda>_. is_idle_agent) lawful"
  unfolding cancel_def by (rule triple_of_update) (auto simp: is_idle_agent_def intro: cancel_work_idle)

lemma triple_end_maintenance:
  "triple (at_rest t) (end_maintenance env t) (\<lambda>_. is_idle_agent) (\<lambda>_. is_idle_agent) lawful"
  unfolding end_maintenance_def
proof (rule triple_chain [OF triple_read_keep], rule triple_chain [OF triple_modify [where Q = "\<lambda>_. is_idle_agent"]],
    simp add: is_idle_agent_def idle_at_def at_rest_def, rule triple_chain [OF triple_read_keep])
  fix q more'
  have wake: "triple is_idle_agent (wake_driver env False) (\<lambda>_. is_idle_agent) (\<lambda>_. is_idle_agent) lawful"
    by (rule triple_exn [OF triple_wake_driver]) auto
  show "triple is_idle_agent (case q of
                           Maintenance _ _ wake \<Rightarrow> if wake \<and> more' then wake_driver env False else return ()
                         | _ \<Rightarrow> return ()) (\<lambda>_. is_idle_agent) (\<lambda>_. is_idle_agent) lawful"
    by (cases q) (auto intro: wake triple_return)
qed

lemma triple_maintenance:
  "triple is_idle_agent (run_maintenance env) (\<lambda>_. is_idle_agent) (\<lambda>_. is_idle_agent) lawful"
  unfolding run_maintenance_def
proof (rule triple_chain [OF triple_reads [where Q = "\<lambda>p h. \<exists>t. p = Idle t \<and> idle_at t h"]])
  have "triple (idle_at t) (maintain env t) (\<lambda>_. is_idle_agent) (\<lambda>_. is_idle_agent) lawful" for t
    unfolding maintain_def
    by (rule triple_chain [OF triple_modify [where Q = "\<lambda>_. at_rest t"]], simp add: idle_at_def at_rest_def,
        rule triple_finally [OF triple_await [where P = "at_rest t" and E = "\<lambda>_. at_rest t"]])
      (auto intro: triple_end_maintenance rest_lawful)
  then show "triple (\<lambda>h. \<exists>t. p = Idle t \<and> idle_at t h)
      (case p of
          Idle last_turn \<Rightarrow> maintain env last_turn
        | _ \<Rightarrow> throw (Raised (''agent '' @ ae_id env @ '' already has active work'')))
      (\<lambda>_. is_idle_agent) (\<lambda>_. is_idle_agent) lawful" for p
    by (intro triple_ex triple_pure) simp
qed (auto simp: is_idle_agent_def idle_at_def)

lemma triple_use_agent:
  "triple is_idle_agent (use_agent env u) (\<lambda>_. is_idle_agent) (\<lambda>_. is_idle_agent) lawful"
  by (cases u) (simp_all add: triple_send triple_cancel triple_maintenance)

section \<open>A whole life of the agent\<close>

text \<open>Uses one after the other, each when the previous one has come to its end; the flag tells
  whether all did.\<close>

fun run_uses :: "agent_env \<Rightarrow> agent_use list \<Rightarrow> agent \<Rightarrow> bool \<times> agent" where
  "run_uses env [] h = (True, h)"
| "run_uses env (u # us) h =
     (case use_agent env u h of
        (Returned _, h') \<Rightarrow> run_uses env us h'
      | (Thrown _, h') \<Rightarrow> run_uses env us h'
      | (_, h') \<Rightarrow> (False, h'))"

lemma run_uses_safe:
  assumes "is_idle_agent h"
  shows "lawful (snd (run_uses env us h)) \<and> (fst (run_uses env us h) \<longrightarrow> is_idle_agent (snd (run_uses env us h)))"
  using assms
proof (induction us arbitrary: h)
  case Nil
  then show ?case by (simp add: idle_lawful)
next
  case (Cons u us)
  obtain r h' where run: "use_agent env u h = (r, h')" by force
  note after = tripleD [OF triple_use_agent Cons.prems run]
  show ?case
    by (cases r) (use after Cons.IH in \<open>simp_all add: run\<close>)
qed

lemma last_turn_numbering:
  "last_turn_of events = (if started_turns events = [] then 0 else last (started_turns events))"
  by (induction events rule: rev_induct)
    (auto simp: last_turn_of_def find_last_def started_turns_def split: event_data.splits)

lemma last_turn_trace:
  assumes "seed_session events = Inr tr" "tr_open_turn tr = None"
  shows "tr_next_turn tr = last_turn_of events + 1"
proof -
  have wf: "trace_wf tr" using assms(1) unfolding seed_session_def by (rule trace.wf_fold)
  then have "1 \<le> tr_next_turn tr" by (simp add: trace_wf_def)
  moreover have "started_turns events = [1..tr_next_turn tr - 1]"
    using trace_numbering [OF assms(1)] assms(2) by (simp add: last_started_def)
  ultimately show ?thesis
    by (cases "tr_next_turn tr = 1") (simp_all add: last_turn_numbering upto_rec2)
qed

lemma new_agent_idle:
  assumes "session_ok s" "seed_fits s" "script_ok script"
    and "seed_session (ses_log s) = Inr tr" "tr_open_turn tr = None"
    and "new_agent s now cap steps script = Inr h"
  shows "is_idle_agent h"
proof -
  from assms(6) obtain ib where ib: "new_inbox (ses_header s) (ses_log s) = Inr ib"
    and h: "ag_session h = s" "ag_inbox h = ib" "ag_phase h = Idle (last_turn_of (ses_log s))"
      "ag_pool h = new_pool 0 cap False" "ag_script h = script"
    by (auto simp: new_agent_def rmap_eq_Inr)
  have "agent_ok h"
    using assms(1-3) ib by (simp add: agent_ok_def h log_of_def pool_bounded_def new_pool_def)
  moreover have "positioned Between (last_turn_of (ses_log s)) 0 (log_of h)"
    using assms(4,5) last_turn_trace by (simp add: positioned_def log_of_def h)
  ultimately show ?thesis by (auto simp: is_idle_agent_def idle_at_def at_rest_def h)
qed

end
