(* ===== verification/Agent_Termination.thy ===== *)
theory Agent_Termination
  imports Agent_Turn
begin

text \<open>
  Every loop of the driver consumes an answer of the environment's script in each round that goes
  on, so the fuel of a loop, the length of the script at its start plus one, always suffices: no
  use of the agent ends by lack of fuel.
\<close>

section \<open>What a computation pays\<close>

text \<open>\<open>pays\<close>: a return has used an answer. \<open>costly\<close>: a throw has, too. \<open>goes_on\<close>: a round that asks
  for another one has.\<close>

abbreviation thrifty :: "'a driver \<Rightarrow> bool" where
  "thrifty \<equiv> steady script_left"

definition pays :: "'a driver \<Rightarrow> bool" where
  "pays m \<longleftrightarrow> (\<forall>h a h'. m h = (Returned a, h') \<longrightarrow> script_left h' < script_left h)"

definition costly :: "'a driver \<Rightarrow> bool" where
  "costly m \<longleftrightarrow> pays m \<and> (\<forall>h e h'. m h = (Thrown e, h') \<longrightarrow> script_left h' < script_left h)"

definition goes_on :: "('x + 'a) driver \<Rightarrow> bool" where
  "goes_on m \<longleftrightarrow> (\<forall>h x h'. m h = (Returned (Inl x), h') \<longrightarrow> script_left h' < script_left h)"

lemma consuming_goes_on: "(\<And>x. goes_on (body x)) \<Longrightarrow> consuming script_left body"
  by (auto simp: consuming_def goes_on_def)

lemma thrifty_loop: "(\<And>x. thrifty (body x)) \<Longrightarrow> (\<And>x. goes_on (body x)) \<Longrightarrow> thrifty (loop script_left body x)"
  by (rule steady_loop) (auto intro: consuming_goes_on)

named_theorems paying \<open>computations that use an answer\<close>

lemma chain_Returned:
  assumes "chain m f h = (Returned b, h')"
  shows "\<exists>a h1. m h = (Returned a, h1) \<and> f a h1 = (Returned b, h')"
  using assms by (auto simp: chain_def split: prod.splits outcome.splits)

lemma pays_chain [paying]:
  assumes "pays m" "\<And>a. thrifty (f a)"
  shows "pays (chain m f)"
  unfolding pays_def
proof (intro allI impI)
  fix h b h' assume "chain m f h = (Returned b, h')"
  from chain_Returned [OF this] obtain a h1 where m: "m h = (Returned a, h1)" and f: "f a h1 = (Returned b, h')" by blast
  have "script_left h1 < script_left h" using assms(1) m unfolding pays_def by blast
  moreover have "script_left h' \<le> script_left h1" using steadyD [OF assms(2) f] by blast
  ultimately show "script_left h' < script_left h" by simp
qed

lemma goes_chain:
  assumes "thrifty m" "\<And>a. goes_on (f a)"
  shows "goes_on (chain m f)"
  unfolding goes_on_def
proof (intro allI impI)
  fix h x h' assume "chain m f h = (Returned (Inl x), h')"
  from chain_Returned [OF this] obtain a h1 where m: "m h = (Returned a, h1)" and f: "f a h1 = (Returned (Inl x), h')" by blast
  have "script_left h1 \<le> script_left h" using steadyD [OF assms(1) m] by blast
  moreover have "script_left h' < script_left h1" using assms(2) f unfolding goes_on_def by blast
  ultimately show "script_left h' < script_left h" by simp
qed

lemma pays_goes: "pays m \<Longrightarrow> goes_on m"
  by (simp add: pays_def goes_on_def)

lemma goes_stop [simp]: "goes_on (return (Inr a))" "goes_on (throw e)"
  by (simp_all add: goes_on_def return_def throw_def)

lemma costly_pays: "costly m \<Longrightarrow> pays m"
  by (simp add: costly_def)

lemma costly_catch:
  assumes "costly m" "\<And>e. thrifty (h e)"
  shows "pays (try_catch m h)"
  unfolding pays_def
proof (intro allI impI)
  fix s a s' assume run: "try_catch m h s = (Returned a, s')"
  obtain r s1 where m: "m s = (r, s1)" by force
  show "script_left s' < script_left s"
  proof (cases r)
    case (Thrown e)
    then have "script_left s1 < script_left s" using assms(1) m by (auto simp: costly_def)
    moreover have "h e s1 = (Returned a, s')" using run m Thrown by (simp add: try_catch_def)
    then have "script_left s' \<le> script_left s1" using steadyD [OF assms(2)] by blast
    ultimately show ?thesis by simp
  qed (use run m assms(1) in \<open>auto simp: try_catch_def costly_def pays_def\<close>)
qed

lemma costly_chain:
  assumes "costly m" "\<And>a. thrifty (f a)"
  shows "costly (chain m f)"
  unfolding costly_def
proof (intro conjI allI impI)
  show "pays (chain m f)" using assms by (intro pays_chain costly_pays)
  fix h e h' assume run: "chain m f h = (Thrown e, h')"
  obtain r h1 where m: "m h = (r, h1)" by force
  show "script_left h' < script_left h"
  proof (cases r)
    case (Returned a)
    then have "script_left h1 < script_left h" using assms(1) m by (auto simp: costly_def pays_def)
    moreover have "f a h1 = (Thrown e, h')" using run m Returned by (simp add: chain_def)
    then have "script_left h' \<le> script_left h1" using steadyD [OF assms(2)] by blast
    ultimately show ?thesis by simp
  qed (use run m assms(1) in \<open>auto simp: chain_def costly_def\<close>)
qed

lemma costly_loop:
  assumes "\<And>x. costly (body x)"
  shows "costly (loop script_left body x)"
proof -
  have down: "script_left h' < script_left h"
    if "iterate n body x h = (r, h')" "r = Returned a \<or> r = Thrown e" for n x h h' r a e
    using that
  proof (induction n arbitrary: x h)
    case (Suc n)
    obtain q h1 where b: "body x h = (q, h1)" by force
    show ?case
    proof (cases q)
      case (Returned y)
      then have less: "script_left h1 < script_left h" using assms b by (auto simp: costly_def pays_def)
      show ?thesis
      proof (cases y)
        case (Inl x')
        then have "iterate n body x' h1 = (r, h')" using Suc.prems b Returned by (simp add: chain_def)
        from Suc.IH [OF this Suc.prems(2)] less show ?thesis by simp
      next
        case (Inr a)
        then show ?thesis using Suc.prems b Returned less by (auto simp: chain_def return_def)
      qed
    next
      case (Thrown e')
      then show ?thesis using Suc.prems b assms by (auto simp: chain_def costly_def)
    qed (use Suc.prems b in \<open>auto simp: chain_def\<close>)
  qed simp
  then show ?thesis unfolding costly_def pays_def loop_def by blast
qed

section \<open>The environment's answers\<close>

lemma log_append_script: "log_append d op srcs h = Inr (e, h') \<Longrightarrow> ag_script h' = ag_script h"
  by (auto simp: log_append_def split: sum.splits)

lemma log_splices_script: "log_splices sps h = Inr h' \<Longrightarrow> ag_script h' = ag_script h"
proof (induction sps arbitrary: h)
  case (Cons sp sps)
  then obtain e h1 where "log_append (InboxSpliced sp) None None h = Inr (e, h1)" "log_splices sps h1 = Inr h'"
    by (auto simp: rbind_eq_Inr)
  then show ?case using Cons.IH log_append_script by fastforce
qed simp

lemma inbox_call_script: "inbox_call c h = Inr (ms, h') \<Longrightarrow> ag_script h' = ag_script h"
  by (auto simp: inbox_call_def rmap_eq_Inr dest!: log_splices_script split: sum.splits)

lemma queue_message_script: "queue_message m target wakeup h = Inr h' \<Longrightarrow> ag_script h' = ag_script h"
  by (auto simp: queue_message_def rmap_eq_Inr dest: inbox_call_script)

lemma cancel_work_script: "cancel_work cause keep h = Inr h' \<Longrightarrow> ag_script h' = ag_script h"
  by (auto simp: cancel_work_def rmap_eq_Inr dest: inbox_call_script split: if_splits)

lemma kept_script: "(\<And>h'. r = Inr h' \<Longrightarrow> ag_script h' = ag_script h) \<Longrightarrow> ag_script (kept h r) = ag_script h"
  by (cases r) (simp_all add: kept_def)

lemma act_script [simp]: "ag_script (act a h) = ag_script h"
proof (cases a)
  case (SendMessage m target wakeup)
  show ?thesis unfolding SendMessage act.simps
    by (rule kept_script) (auto simp: rmap_eq_Inr latch_wake_def split: if_splits dest!: queue_message_script)
next
  case (OtherAppend d op srcs)
  show ?thesis unfolding OtherAppend act.simps
    by (rule kept_script) (auto simp: rmap_eq_Inr dest: log_append_script)
qed (auto simp: rmap_eq_Inr dest: cancel_work_script inbox_call_script intro!: kept_script)

lemma acts_script [simp]: "ag_script (fold act acts h) = ag_script h"
  by (induction acts arbitrary: h) simp_all

lemma next_answer_pays: "thrifty next_answer" "pays next_answer"
  by (auto simp: steady_def pays_def next_answer_def script_left_def split: list.splits prod.splits)

lemma await_costly [paying, steady_intros]: "thrifty (await f)" "costly (await f)"
proof -
  let ?k = "\<lambda>ans. case ans of Rejected e \<Rightarrow> throw e | _ \<Rightarrow> (case f ans of Some a \<Rightarrow> return a | None \<Rightarrow> suspend)"
  have k: "thrifty (?k ans)" for ans
    by (auto intro: steady_intros split: host_answer.split option.split)
  show "thrifty (await f)" unfolding await_def by (rule steady_chain [OF next_answer_pays(1) k])
  have "costly next_answer" using next_answer_pays(2)
    by (auto simp: costly_def next_answer_def split: list.splits)
  then show "costly (await f)" unfolding await_def by (rule costly_chain) (rule k)
qed

lemma await_value_costly [paying, steady_intros]: "thrifty (await_value f)" "costly (await_value f)"
proof -
  have k: "thrifty (case f ans of Some a \<Rightarrow> return a | None \<Rightarrow> suspend)" for ans
    by (auto intro: steady_intros split: option.split)
  show "thrifty (await_value f)" unfolding await_value_def by (rule steady_chain [OF next_answer_pays(1) k])
  have "costly next_answer" using next_answer_pays(2)
    by (auto simp: costly_def next_answer_def split: list.splits)
  then show "costly (await_value f)" unfolding await_value_def by (rule costly_chain) (rule k)
qed

lemma awaited_costly:
  assumes "thrifty m"
  shows "thrifty (awaited m)" "costly (awaited m)"
proof -
  have r: "thrifty resume" "costly resume" unfolding resume_def by (rule await_value_costly)+
  show "thrifty (awaited m)" unfolding awaited_def by (rule steady_finally [OF assms r(1)])
  have after: "script_left h' < script_left h1" if "thrifty k" "chain resume (\<lambda>_. k) h1 = (q, h')" "(\<exists>a. q = Returned a) \<or> (\<exists>e. q = Thrown e)"
    for k :: "'a driver" and h1 q h'
    using costly_chain [OF r(2), of "\<lambda>_. k"] that unfolding costly_def pays_def by blast
  have down: "script_left h' < script_left h" if run: "awaited m h = (q, h')" and q: "(\<exists>a. q = Returned a) \<or> (\<exists>e. q = Thrown e)" for h q h'
  proof -
    obtain p h1 where m: "m h = (p, h1)" by force
    have le: "script_left h1 \<le> script_left h" using steadyD [OF assms m] by blast
    show ?thesis
    proof (cases p)
      case (Returned a)
      then have "chain resume (\<lambda>_. return a) h1 = (q, h')" using run m by (simp add: awaited_def try_finally_def)
      from after [OF steady_basic(1) this q] le show ?thesis by simp
    next
      case (Thrown e)
      then have "chain resume (\<lambda>_. throw e) h1 = (q, h')" using run m by (simp add: awaited_def try_finally_def)
      from after [OF steady_basic(2) this q] le show ?thesis by simp
    qed (use run m q in \<open>auto simp: awaited_def try_finally_def\<close>)
  qed
  then show "costly (awaited m)" unfolding costly_def pays_def by blast
qed

section \<open>The driver\<close>

lemma thrifty_modify: "(\<And>h. ag_script (f h) = ag_script h) \<Longrightarrow> thrifty (modify f)"
  by (rule steady_modify) (simp add: script_left_def)

lemma set_phase_script [simp]: "ag_script (set_phase p h) = ag_script h"
  by (simp add: set_phase_def)

lemma latch_wake_script [simp]: "ag_script (latch_wake b h) = ag_script h"
  by (simp add: latch_wake_def)

lemma thrifty_if: "thrifty m \<Longrightarrow> thrifty n \<Longrightarrow> thrifty (if c then m else n)"
  by simp

lemma thrifty_case_option: "thrifty m \<Longrightarrow> (\<And>x. thrifty (f x)) \<Longrightarrow> thrifty (case y of None \<Rightarrow> m | Some x \<Rightarrow> f x)"
  by (cases y) simp_all

lemma thrifty_case_prod: "(\<And>a b. thrifty (f a b)) \<Longrightarrow> thrifty (case p of (a, b) \<Rightarrow> f a b)"
  by (cases p) simp

lemma goes_if: "goes_on m \<Longrightarrow> goes_on n \<Longrightarrow> goes_on (if c then m else n)"
  by simp

lemma goes_case_option: "goes_on m \<Longrightarrow> (\<And>x. goes_on (f x)) \<Longrightarrow> goes_on (case y of None \<Rightarrow> m | Some x \<Rightarrow> f x)"
  by (cases y) simp_all

lemma thrifty_append [steady_intros]: "thrifty (append_log d op srcs)"
  by (auto simp: steady_def append_log_def script_left_def dest: log_append_script split: sum.split)

lemma thrifty_inbox [steady_intros]: "thrifty (use_inbox c)"
  by (auto simp: steady_def use_inbox_def script_left_def dest: inbox_call_script split: sum.split)

lemma thrifty_fresh_id [steady_intros]: "thrifty (fresh_id env)"
  by (simp add: steady_def fresh_id_def script_left_def)

lemma thrifty_update [steady_intros]:
  "thrifty (upd_pool f)" "thrifty (upd_phase g)" "thrifty (emit x)" "thrifty (modify (set_phase p))" "thrifty (modify (latch_wake b))"
  by (simp_all add: upd_pool_def upd_phase_def emit_def thrifty_modify)

lemma thrifty_read [steady_intros]: "thrifty read_header" "thrifty read_context" "thrifty read_log" "thrifty read_messages"
  by (auto simp: steady_def read_header_def read_context_def read_log_def read_messages_def script_left_def split: prod.split sum.split)

lemma thrifty_surface [steady_intros]: "thrifty (append_surface d srcs)"
  by (simp add: append_surface_def thrifty_append)

lemma thrifty_check [steady_intros]: "thrifty throw_if_aborted" "thrifty throw_scheduler_failure"
  unfolding throw_if_aborted_def throw_scheduler_failure_def
  by (intro steady_chain thrifty_case_option steady_basic)+

lemma thrifty_report [steady_intros]: "thrifty (report_error e)" "thrifty (throw_error e)"
  unfolding throw_error_def report_error_def by (intro steady_intros)+

lemma thrifty_resume [steady_intros]: "thrifty resume"
  unfolding resume_def by (rule await_value_costly)

lemmas thrifty_cases = thrifty_if thrifty_case_option thrifty_case_prod

text \<open>The tool calls.\<close>

lemma thrifty_tool_call [steady_intros]:
  "thrifty (append_tool_call t s b)" "thrifty (append_tool_result env t s b out n)" "thrifty (append_skipped_tool_call env t s b)"
  unfolding append_skipped_tool_call_def append_tool_call_def append_tool_result_def by (intro steady_intros thrifty_cases)+

lemma thrifty_commit [steady_intros]:
  "thrifty (accept_context m)" "thrifty (commit_slot env t s b slot n)"
  unfolding accept_context_def commit_slot_def commit_result_def by (intro steady_intros thrifty_cases)+

lemma thrifty_commit_rounds [steady_intros]: "thrifty (commit_rounds env t s calls n)"
  by (induction n) (auto intro!: steady_intros thrifty_cases)

lemma thrifty_commit_ready [steady_intros]: "thrifty (commit_ready env t s calls)"
  unfolding commit_ready_def by (rule thrifty_commit_rounds)

lemma thrifty_awaited [steady_intros]: "thrifty m \<Longrightarrow> thrifty (awaited m)"
  by (rule awaited_costly)

lemma thrifty_start [steady_intros]:
  "thrifty note_abort" "thrifty (settle_pool env t s calls)" "thrifty (start_call t s calls i)" "thrifty (start_next env t s calls i)"
  "thrifty (may_join parallel i)"
  unfolding start_next_def settle_pool_def note_abort_def start_call_def prepare_started_def may_join_def
  by (intro steady_intros thrifty_cases)+

lemma thrifty_fill_rounds [steady_intros]: "thrifty (fill_rounds env t s calls parallel n)"
  by (induction n) (auto intro!: steady_intros thrifty_cases)

lemma thrifty_fill [steady_intros]: "thrifty (fill_pool env t s calls parallel)" "thrifty (take_settled env t s calls i)"
  unfolding fill_pool_def take_settled_def by (intro steady_intros)+

lemma race_pays: "thrifty race" "pays race"
  unfolding race_def
  by (intro steady_intros thrifty_cases, rule pays_chain, rule costly_pays, rule await_value_costly, intro steady_intros thrifty_cases)

lemma drain_round_steady: "thrifty (drain_round env t s calls parallel u)" "goes_on (drain_round env t s calls parallel u)"
proof -
  let ?rest = "chain race
       (\<lambda>i. chain (take_settled env t s calls i)
          (\<lambda>_. chain (awaited (fill_pool env t s calls parallel)) (\<lambda>_. return (Inl () :: unit + unit))))"
  have rest: "thrifty (chain (take_settled env t s calls i)
          (\<lambda>_. chain (awaited (fill_pool env t s calls parallel)) (\<lambda>_. return (Inl () :: unit + unit))))" for i
    by (intro steady_intros)
  have pays: "pays ?rest" by (rule pays_chain [OF race_pays(2) rest])
  have thrift: "thrifty ?rest" by (rule steady_chain [OF race_pays(1) rest])
  show "thrifty (drain_round env t s calls parallel u)"
    unfolding drain_round_def by (intro steady_chain steady_basic thrifty_if thrift)
  show "goes_on (drain_round env t s calls parallel u)"
    unfolding drain_round_def by (intro goes_chain steady_basic goes_if goes_stop pays_goes pays)
qed

lemma thrifty_group [steady_intros]: "thrifty (run_group env t s calls parallel)"
  unfolding run_group_def run_pool_def drain_pool_def fail_group_def finish_group_def
  by (intro steady_intros thrifty_cases thrifty_loop drain_round_steady)

lemma call_round_steady: "thrifty (call_round env t s st)" "goes_on (call_round env t s st)"
proof -
  obtain planned concluded where st: "st = (planned, concluded)" by (cases st)
  have after: "thrifty (after_group env t s planned concluded out)" for out
    unfolding after_group_def Let_def by (intro steady_intros thrifty_cases)
  have rest: "thrifty (chain (awaited (run_group env t s (if parallel then planned else [hd planned]) parallel))
      (after_group env t s planned concluded))" for parallel
    by (intro steady_intros after)
  show "thrifty (call_round env t s st)"
    unfolding call_round_def st prod.case by (intro steady_intros thrifty_cases rest)
  show "goes_on (call_round env t s st)"
    unfolding call_round_def st prod.case
    by (intro goes_if goes_stop pays_goes pays_chain costly_pays await_costly rest)
qed

lemma thrifty_tools [steady_intros]: "thrifty (execute_tool_calls env t s calls)"
  unfolding execute_tool_calls_def by (rule thrifty_loop [OF call_round_steady])

text \<open>The steps.\<close>

lemma thrifty_record [steady_intros]: "thrifty (record_header hd')" "thrifty (record_context c)"
  unfolding record_header_def record_context_def
  by (intro steady_intros thrifty_cases thrifty_modify; simp)+

lemma thrifty_prepare [steady_intros]: "thrifty (prepare_call c)"
  unfolding prepare_call_def
  by (rule steady_catch) (auto intro: steady_intros split: driver_error.split)

lemma thrifty_build [steady_intros]: "thrifty (build_request env tools system messages)"
  unfolding build_request_def propose_request_def compose_request_def Let_def
  by (intro steady_intros thrifty_cases)

lemma thrifty_closing [steady_intros]: "thrifty m \<Longrightarrow> thrifty (closing_stream m)"
  unfolding closing_stream_def by (intro steady_intros next_answer_pays)

lemma chunk_round_steady: "thrifty (chunk_round t s st)" "goes_on (chunk_round t s st)"
proof -
  have rest: "thrifty (case c of None \<Rightarrow> return (Inr st) | Some c \<Rightarrow> chain (log_chunk t s st c) (\<lambda>st'. return (Inl st')))" for c
    unfolding log_chunk_def by (intro steady_intros thrifty_cases)
  show "thrifty (chunk_round t s st)" unfolding chunk_round_def by (intro steady_intros rest)
  show "goes_on (chunk_round t s st)"
    unfolding chunk_round_def by (intro pays_goes pays_chain costly_pays await_costly rest)
qed

lemma thrifty_stream [steady_intros]: "thrifty (stream_chunks t s)"
  unfolding stream_chunks_def by (rule thrifty_loop [OF chunk_round_steady])

lemma thrifty_settle [steady_intros]: "thrifty (settle_stream env t s request st)"
  unfolding settle_stream_def retry_request_def record_reply_def settle_reply_def
  by (intro steady_intros thrifty_cases)

lemma request_round_steady: "thrifty (request_round env t s assembly system u)" "goes_on (request_round env t s assembly system u)"
proof -
  have rest: "thrifty (chain throw_if_aborted
      (\<lambda>_. chain (stream_chunks t s) (\<lambda>st. chain throw_if_aborted (\<lambda>_. settle_stream env t s request st))))" for request
    by (intro steady_intros)
  have sent: "thrifty (dispatch_request request)" "pays (dispatch_request request)" for request
    unfolding dispatch_request_def
    by (intro steady_intros thrifty_modify; simp) (auto simp: pays_def chain_def modify_def script_left_def
        dest: await_costly(2) [unfolded costly_def pays_def script_left_def, THEN conjunct1, rule_format])
  show "thrifty (request_round env t s assembly system u)"
    unfolding request_round_def by (intro steady_intros rest sent)
  show "goes_on (request_round env t s assembly system u)"
    unfolding request_round_def
    by (rule goes_chain [OF thrifty_read(4)], rule goes_chain [OF thrifty_awaited [OF thrifty_build]],
        rule pays_goes, rule pays_chain [OF sent(2) rest])
qed

lemma thrifty_step [steady_intros]: "thrifty (run_step env assembly)"
  unfolding run_step_def run_requests_def
  by (rule steady_chain [OF steady_basic(4)], split phase.split)
    (intro conjI allI impI steady_intros thrifty_loop request_round_steady)

text \<open>The turns and the phase machine.\<close>

lemma thrifty_open_step [steady_intros]: "thrifty (open_step env t s ms assembly)"
  unfolding open_step_def enter_messages_def by (intro steady_intros)

lemma thrifty_pre_step [steady_intros]: "thrifty (pre_step env target turn)"
  unfolding pre_step_def project_runtime_context_def Let_def by (intro steady_intros thrifty_cases)

lemma thrifty_anchored [steady_intros]: "thrifty (anchored_messages env turn ends latest ms)"
  unfolding anchored_messages_def by (intro steady_intros thrifty_cases)

lemma thrifty_after_step [steady_intros]: "thrifty (after_step ends latest)"
  unfolding after_step_def next_step_empty_def by (intro steady_intros thrifty_cases)

lemma thrifty_decided [steady_intros]: "thrifty (decided_step env t ends latest n decision)"
  unfolding decided_step_def enter_step_def
  by (split prepared_step.split) (intro conjI allI impI steady_intros thrifty_cases)

lemma turn_round_steady: "thrifty (turn_round env t vars)" "goes_on (turn_round env t vars)"
proof -
  obtain ends target latest where vars: "vars = (ends, target, latest)" by (cases vars)
  have pre: "thrifty (chain (awaited (pre_step env target t)) (decided_step env t ends latest n))" for n
    by (intro steady_intros)
  have paid: "pays (chain (awaited (pre_step env target t)) (decided_step env t ends latest n))" for n
    by (intro pays_chain costly_pays awaited_costly thrifty_pre_step thrifty_decided)
  show "thrifty (turn_round env t vars)"
    unfolding turn_round_def capped_step_def vars prod.case by (intro steady_intros thrifty_if pre)
  show "goes_on (turn_round env t vars)"
    unfolding turn_round_def capped_step_def vars prod.case
    by (rule goes_chain [OF thrifty_check(1)], rule goes_chain [OF steady_basic(4)], intro goes_if goes_stop pays_goes paid)
qed

lemma thrifty_turn [steady_intros]: "thrifty (run_turn env)"
proof -
  have steps: "thrifty (run_steps env t)" for t
    unfolding run_steps_def by (rule thrifty_loop [OF turn_round_steady])
  have close: "thrifty (close_turn t reason)" "thrifty (failed_turn env e)" for t reason e
    unfolding close_turn_def failed_turn_def by (intro steady_intros thrifty_cases)+
  have body: "thrifty (turn_body env t)" for t
    unfolding turn_body_def
    by (rule steady_chain, intro steady_intros steps close) (auto split: sum.split intro!: steady_intros close)
  show ?thesis
    unfolding run_turn_def open_turn_def renew_turn_def by (intro steady_intros thrifty_if body)
qed

lemma again_round_steady:
  "thrifty m \<Longrightarrow> thrifty (again_round m u)" "pays m \<Longrightarrow> goes_on (again_round m u)" "costly m \<Longrightarrow> costly (again_round m u)"
  unfolding again_round_def
  by (intro steady_intros, assumption, intro pays_goes pays_chain steady_intros, assumption, intro costly_chain steady_intros, assumption)

lemma kick_steady: "thrifty (kick env)" "pays (kick env)"
proof -
  have turn: "thrifty (awaited (run_turn env))" "costly (awaited (run_turn env))"
    by (rule awaited_costly [OF thrifty_turn])+
  have loops: "thrifty (turns_loop env)" "costly (turns_loop env)"
    unfolding turns_loop_def
    by (rule thrifty_loop [OF again_round_steady(1) [OF turn(1)] again_round_steady(2) [OF costly_pays [OF turn(2)]]],
        rule costly_loop [OF again_round_steady(3) [OF turn(2)]])
  have retire: "thrifty retire"
    unfolding retire_def by (rule steady_chain [OF steady_basic(4)], split phase.split) (intro conjI allI impI steady_intros)
  show "thrifty (kick env)"
    unfolding kick_def by (intro steady_intros loops retire)
  show "pays (kick env)"
    unfolding kick_def by (rule pays_chain [OF costly_catch [OF loops(2)] retire]) (rule steady_basic)
qed

lemma thrifty_driver [steady_intros]: "thrifty (run_driver env)"
proof -
  have start: "thrifty start_driver" unfolding start_driver_def by (rule thrifty_modify) simp
  have "pays (chain start_driver (\<lambda>_. kick env))"
    unfolding pays_def
  proof (intro allI impI)
    fix h a h' assume "chain start_driver (\<lambda>_. kick env) h = (Returned a, h')"
    from chain_Returned [OF this] obtain x h1 where m: "start_driver h = (Returned x, h1)" and k: "kick env h1 = (Returned a, h')" by blast
    have "script_left h1 \<le> script_left h" using steadyD [OF start m] by blast
    moreover have "script_left h' < script_left h1" using kick_steady(2) k unfolding pays_def by blast
    ultimately show "script_left h' < script_left h" by simp
  qed
  then show ?thesis unfolding run_driver_def
    by (intro thrifty_loop again_round_steady steady_chain start kick_steady)
qed

lemma thrifty_of_update: "(\<And>h h'. f h = Inr h' \<Longrightarrow> ag_script h' = ag_script h) \<Longrightarrow> thrifty (of_update f)"
  by (auto simp: steady_def of_update_def script_left_def split: sum.split)

lemma thrifty_wake [steady_intros]: "thrifty (wake_driver env b)"
  unfolding wake_driver_def by (intro steady_intros thrifty_if)

lemma thrifty_use: "thrifty (use_agent env u)"
proof (cases u)
  case (UseSend m target wakeup)
  have "thrifty (of_update (queue_message m target wakeup))" by (rule thrifty_of_update) (rule queue_message_script)
  then show ?thesis unfolding UseSend use_agent.simps send_def by (intro steady_intros thrifty_if)
next
  case (UseCancel cause keep)
  show ?thesis unfolding UseCancel use_agent.simps cancel_def by (rule thrifty_of_update) (rule cancel_work_script)
next
  case UseMaintenance
  have "thrifty (end_maintenance env t)" for t
    unfolding end_maintenance_def
    by (rule steady_chain [OF steady_basic(4)], rule steady_chain [OF thrifty_update(4)], rule steady_chain [OF steady_basic(4)],
        split phase.split) (intro conjI allI impI steady_intros thrifty_if)
  then have "thrifty (maintain env t)" for t
    unfolding maintain_def by (intro steady_intros)
  then show ?thesis unfolding UseMaintenance use_agent.simps run_maintenance_def
    by (intro steady_chain [OF steady_basic(4)], split phase.split) (intro conjI allI impI steady_intros)
qed

end
