(* ===== verification/Agent_Requests.thy ===== *)
theory Agent_Requests
  imports Agent_Logging
begin

text \<open>
  A request the driver composes is the one its log describes: when it is built, the header in
  force in the log has the request's configuration, system text and tools, and the recorded
  context names its route.
\<close>

lemma stable_agent [simp, intro]: "stable agent_ok"
  by (rule stableI) (auto simp: noisy_def, auto simp: agent_ok_def log_of_def script_ok_def)

lemma agent_session:
  assumes "agent_ok h" "session_ok ses" "ses_log ses = ses_log (ag_session h)" "ses_header ses = ses_header (ag_session h)"
  shows "agent_ok (h\<lparr>ag_session := ses\<rparr>)" "log_of (h\<lparr>ag_session := ses\<rparr>) = log_of h"
  using assms by (auto simp: agent_ok_def log_of_def seed_fits_def)

definition header_in_force :: "agent \<Rightarrow> epoch_header option" where
  "header_in_force h = fold_request_header (log_of h) None"

definition context_in_force :: "agent \<Rightarrow> request_context option" where
  "context_in_force h = foldl fold_context_step None (log_of h)"

lemma triple_header_read:
  assumes "\<And>h ses. P h \<Longrightarrow> agent_ok (h\<lparr>ag_session := ses\<rparr>) \<Longrightarrow> log_of (h\<lparr>ag_session := ses\<rparr>) = log_of h \<Longrightarrow> P (h\<lparr>ag_session := ses\<rparr>)"
    and "\<And>h. P h \<Longrightarrow> agent_ok h"
  shows "triple P read_header (\<lambda>x h. P h \<and> x = header_in_force h) E W"
  unfolding triple_def read_header_def
proof (clarsimp split: prod.splits)
  fix h ses x assume p: "P h" and r: "read_request_header (ag_session h) = (ses, x)"
  have ok: "agent_ok h" by (rule assms(2) [OF p])
  then have "session_ok (ag_session h)" by (simp add: agent_ok_def)
  note k = read_request_header_ok [OF this r] read_request_header_header [OF r]
  note s = agent_session [OF ok, of ses]
  show "P (h\<lparr>ag_session := ses\<rparr>) \<and> x = header_in_force (h\<lparr>ag_session := ses\<rparr>)"
    using assms(1) [OF p, of ses] s k by (simp add: header_in_force_def log_of_def)
qed

lemma triple_context_read:
  assumes "\<And>h ses. P h \<Longrightarrow> agent_ok (h\<lparr>ag_session := ses\<rparr>) \<Longrightarrow> log_of (h\<lparr>ag_session := ses\<rparr>) = log_of h \<Longrightarrow> P (h\<lparr>ag_session := ses\<rparr>)"
    and "\<And>h. P h \<Longrightarrow> agent_ok h"
  shows "triple P read_context (\<lambda>x h. P h \<and> x = context_in_force h) E W"
  unfolding triple_def read_context_def
proof (clarsimp split: prod.splits)
  fix h ses x assume p: "P h" and r: "read_request_context (ag_session h) = (ses, x)"
  have ok: "agent_ok h" by (rule assms(2) [OF p])
  then have "session_ok (ag_session h)" by (simp add: agent_ok_def)
  note k = read_request_context_ok [OF this r] read_request_context_header [OF r]
  note s = agent_session [OF ok, of ses]
  show "P (h\<lparr>ag_session := ses\<rparr>) \<and> x = context_in_force (h\<lparr>ag_session := ses\<rparr>)"
    using assms(1) [OF p, of ses] s k by (simp add: context_in_force_def log_of_def)
qed

text \<open>Assertions about the agent's parts and the folds of its log only.\<close>

definition in_force :: "epoch_header \<Rightarrow> agent \<Rightarrow> bool" where
  "in_force header h \<longleftrightarrow> agent_ok h \<and> header_in_force h = Some header"

definition described :: "epoch_header \<Rightarrow> agent \<Rightarrow> bool" where
  "described header h \<longleftrightarrow> in_force header h \<and>
     (\<exists>c. context_in_force h = Some c \<and> rc_provider c = cc_provider (eh_config header)
       \<and> rc_model c = cc_model (eh_config header))"

lemma force_snoc:
  "log_of h' = log_of h @ [e] \<Longrightarrow> header_in_force h' = fold_header_step (header_in_force h) e"
  "log_of h' = log_of h @ [e] \<Longrightarrow> context_in_force h' = fold_context_step (context_in_force h) e"
  by (simp_all add: header_in_force_def context_in_force_def fold_request_header_def)

lemma equal_headers:
  assumes "header_in_force h = Some b" "header_equals b (canonical_header a)"
  shows "b = canonical_header a"
proof -
  have b: "canonical_header b = b"
    using fold_request_header_canonical [of None "log_of h" b] assms(1) by (simp add: header_in_force_def)
  have "config_numeric (eh_config b)"
    using assms(2) by (auto simp: header_equals_def call_config_equals_iff split: if_splits)
  from header_equals_canonical [OF this, of a] assms(2) show ?thesis by (simp add: b)
qed

lemma header_not_splice: "\<forall>sp. RequestHeader eh r \<noteq> InboxSpliced sp" "\<forall>sp. RequestContext c \<noteq> InboxSpliced sp"
  by simp_all

lemma triple_append_header:
  "triple agent_ok (append_log (RequestHeader header reason) None None) (\<lambda>_. in_force (canonical_header header)) (\<lambda>_ _. True) W"
proof (rule triple_append)
  fix e h h' assume ok: "agent_ok h" and app: "log_append (RequestHeader header reason) None None h = Inr (e, h')"
  note a = log_append_agent_ok [OF ok app header_not_splice(1)]
  show "in_force (canonical_header header) h'"
    using a(1,4) force_snoc(1) [OF a(2)] by (simp add: in_force_def fold_header_step_def)
qed simp

lemma triple_record_header_in_force:
  assumes canonical: "canonical_header header = header"
  shows "triple agent_ok (record_header header) (\<lambda>_. in_force header) (\<lambda>_ _. True) W"
  unfolding record_header_def
proof (rule triple_chain [OF triple_header_read], assumption, assumption, rule triple_chain [OF triple_read_keep])
  fix baseline logged
  have first_header: "triple (\<lambda>h. agent_ok h \<and> baseline = header_in_force h)
      (chain (append_log (RequestHeader header (if baseline = None then HeaderInitial else HeaderResume)) None None)
         (\<lambda>_. modify (\<lambda>h. h\<lparr>ag_header_logged := True\<rparr>))) (\<lambda>_. in_force header) (\<lambda>_ _. True) W"
    by (rule triple_chain [OF triple_pre [OF triple_append_header]], simp, rule triple_modify)
      (simp add: canonical in_force_def header_in_force_def)
  have changed: "triple (\<lambda>h. agent_ok h \<and> baseline = header_in_force h)
      (chain (append_log (RequestHeader header HeaderChange) None None) (\<lambda>_. return ())) (\<lambda>_. in_force header) (\<lambda>_ _. True) W"
    by (rule triple_chain [OF triple_pre [OF triple_append_header]], simp, rule triple_return) (simp add: canonical)
  have same: "triple (\<lambda>h. agent_ok h \<and> baseline = header_in_force h) (return ()) (\<lambda>_. in_force header) (\<lambda>_ _. True) W"
    if "\<not> (case baseline of None \<Rightarrow> True | Some b \<Rightarrow> \<not> header_equals b header)"
    by (rule triple_return) (use that equal_headers [of _ _ header] canonical in \<open>auto simp: in_force_def split: option.splits\<close>)
  show "triple (\<lambda>h. agent_ok h \<and> baseline = header_in_force h)
     (if \<not> logged
      then chain (append_log (RequestHeader header (if baseline = None then HeaderInitial else HeaderResume)) None None)
             (\<lambda>_. modify (\<lambda>h. h\<lparr>ag_header_logged := True\<rparr>))
      else if (case baseline of None \<Rightarrow> True | Some b \<Rightarrow> \<not> header_equals b header)
      then chain (append_log (RequestHeader header HeaderChange) None None) (\<lambda>_. return ())
      else return ()) (\<lambda>_. in_force header) (\<lambda>_ _. True) W"
    by (rule triple_if [OF first_header triple_if [OF changed same]])
qed

lemma triple_append_context:
  "triple (in_force header) (append_log (RequestContext c) None None)
     (\<lambda>_ h. in_force header h \<and> context_in_force h = Some c) (\<lambda>_ _. True) W"
proof (rule triple_append)
  fix e h h' assume f: "in_force header h" and app: "log_append (RequestContext c) None None h = Inr (e, h')"
  have ok: "agent_ok h" using f by (simp add: in_force_def)
  note a = log_append_agent_ok [OF ok app header_not_splice(2)]
  show "in_force header h' \<and> context_in_force h' = Some c"
    using f a(1,4) force_snoc [OF a(2)] by (simp add: in_force_def fold_header_step_def fold_context_step_def)
qed simp

lemma triple_record_context_described:
  assumes c: "rc_provider c = cc_provider (eh_config header)" "rc_model c = cc_model (eh_config header)"
  shows "triple (in_force header) (record_context c) (\<lambda>_. described header) (\<lambda>_ _. True) W"
  unfolding record_context_def
proof (rule triple_chain [OF triple_context_read])
  fix previous
  have logged: "triple (\<lambda>h. in_force header h \<and> previous = context_in_force h)
      (chain (append_log (RequestContext c) None None) (\<lambda>_. return ())) (\<lambda>_. described header) (\<lambda>_ _. True) W"
  proof (rule triple_chain)
    show "triple (\<lambda>h. in_force header h \<and> previous = context_in_force h) (append_log (RequestContext c) None None)
        (\<lambda>_ h. in_force header h \<and> context_in_force h = Some c) (\<lambda>_ _. True) W"
      by (rule triple_pre [OF triple_append_context]) simp
    show "triple (\<lambda>h. in_force header h \<and> context_in_force h = Some c) (return ()) (\<lambda>_. described header) (\<lambda>_ _. True) W"
      by (rule triple_return) (use c in \<open>simp add: described_def\<close>)
  qed
  have same: "triple (\<lambda>h. in_force header h \<and> previous = context_in_force h) (return ()) (\<lambda>_. described header) (\<lambda>_ _. True) W"
    if "\<not> context_differs previous c"
    by (rule triple_return) (use that c in \<open>auto simp: described_def context_differs_def split: option.splits\<close>)
  show "triple (\<lambda>h. in_force header h \<and> previous = context_in_force h)
      (if context_differs previous c then chain (append_log (RequestContext c) None None) (\<lambda>_. return ()) else return ())
      (\<lambda>_. described header) (\<lambda>_ _. True) W"
    by (rule triple_if [OF logged same])
qed (auto simp: in_force_def header_in_force_def)

text \<open>The request is what the log describes when it is returned.\<close>

definition request_of :: "epoch_header \<Rightarrow> message list \<Rightarrow> model_request" where
  "request_of header messages =
     \<lparr>mq_config = eh_config header, mq_messages = messages, mq_system = eh_system header, mq_tools = eh_tools header\<rparr>"

definition request_described :: "message list \<Rightarrow> model_request \<Rightarrow> agent \<Rightarrow> bool" where
  "request_described messages r h \<longleftrightarrow> (\<exists>header. described header h \<and> r = request_of header messages)"

lemma triple_compose_described:
  "triple agent_ok (compose_request tools system messages config prepared) (request_described messages) (\<lambda>_ _. True) (\<lambda>_. True)"
proof -
  let ?hd = "composed_header config prepared system tools"
  have canonical: "canonical_header ?hd = ?hd" by (simp add: composed_header_def)
  have route: "rc_provider (composed_context config prepared) = cc_provider (eh_config ?hd)"
    "rc_model (composed_context config prepared) = cc_model (eh_config ?hd)"
    by (simp_all add: composed_context_def composed_header_def)
  show ?thesis unfolding compose_request_def Let_def
    by (rule triple_chain [OF triple_record_header_in_force [OF canonical]], rule triple_chain [OF triple_record_context_described [OF route]],
        rule triple_chain [OF triple_throw_if_aborted], simp, rule triple_return)
      (auto simp: request_described_def request_of_def)
qed

lemma triple_agent_await: "triple agent_ok (await f) (\<lambda>_. agent_ok) (\<lambda>_. agent_ok) (\<lambda>_. True)"
  by (rule triple_await) auto

lemma triple_agent_check: "triple agent_ok throw_if_aborted (\<lambda>_. agent_ok) (\<lambda>_ _. True) (\<lambda>_. True)"
  by (rule triple_throw_if_aborted) simp

lemma triple_agent_prepare: "triple agent_ok (prepare_call c) (\<lambda>_. agent_ok) (\<lambda>_ _. True) (\<lambda>_. True)"
  unfolding prepare_call_def
  by (rule triple_catch [where R = "\<lambda>_. agent_ok", OF triple_chain [OF triple_agent_await triple_return]])
    (auto intro!: triple_return triple_throw split: driver_error.split)

lemma triple_propose_described:
  "triple agent_ok (propose_request env tools system messages proposed) (request_described messages) (\<lambda>_ _. True) (\<lambda>_. True)"
  unfolding propose_request_def
  by (rule triple_if [OF triple_throw], simp, rule triple_chain [OF triple_agent_prepare],
      rule triple_chain [OF triple_agent_check triple_compose_described])

theorem triple_request_described:
  "triple agent_ok (build_request env tools system messages) (request_described messages) (\<lambda>_ _. True) (\<lambda>_. True)"
  unfolding build_request_def
  by (rule triple_chain [OF triple_header_read], assumption, assumption, rule triple_chain [OF triple_read_keep],
      rule triple_case_option [OF triple_throw], simp, rule triple_chain [OF triple_pre [OF triple_exn [OF triple_agent_await]]], simp, simp,
      rule triple_chain [OF triple_agent_check triple_propose_described])

end
