(* ===== verification/Sample_Agent.thy ===== *)
theory Sample_Agent
  imports Agent_Safety Agent_Termination Agent_Requests Sample_Logs
begin

text \<open>
  A concrete agent and scripts for its environment, on which the driver's properties are applied.
\<close>

definition driver_env :: agent_env where
  "driver_env =
     \<lparr>ae_id = ''s1'', ae_provider = Some ''p'', ae_model = Some ''m'', ae_max_tokens = None,
      ae_new_id = (\<lambda>n. replicate n (CHR ''i'')), ae_error_text = (\<lambda>_. ''e'')\<rparr>"

definition sample_outcome :: tool_outcome where
  "sample_outcome =
     \<lparr>to_content = [], to_is_error = False, to_error = None, to_meta = None, to_contexts = [], to_concludes = False\<rparr>"

text \<open>An agent inside step 1 of turn 1, whose environment answers two calls out of order.\<close>

definition pool_script :: host_script where
  "pool_script =
     [([], ParallelMode True), ([], ToolPrepared DispatchCall), ([], Resumed), ([], Resumed),
      ([], ParallelMode True), ([], ToolPrepared DispatchCall),
      ([SettleCall 1 (CallFinished sample_outcome True)], Resumed), ([], Resumed), ([], Resumed),
      ([], ToolSettled 1), ([], Resumed), ([], Resumed),
      ([SettleCall 0 (CallFinished sample_outcome False)], ToolSettled 0),
      ([], ToolFinished sample_outcome), ([], ToolFinalized sample_outcome), ([], Resumed), ([], Resumed), ([], Resumed)]"

definition fresh_agent :: "host_script \<Rightarrow> agent" where
  "fresh_agent script =
     \<lparr>ag_session = new_session, ag_inbox = empty_inbox, ag_phase = Idle 0, ag_header_logged = False,
      ag_retained = None, ag_pool = new_pool 0 2 False, ag_clock = 5, ag_ids = 0, ag_max_parallel = 2,
      ag_max_steps = 3, ag_emitted = [], ag_sent = [], ag_script = script\<rparr>"

definition step_agent :: "host_script \<Rightarrow> agent" where
  "step_agent script =
     snd (chain (append_log (TurnStart 1) None None) (\<lambda>_. append_log (StepStart 1 1) None None)
       ((fresh_agent script)\<lparr>ag_phase := Running None 1 1 False\<rparr>))"

text \<open>A turn of one step that ends with an empty reply.\<close>

definition sample_config :: llm_call_config where
  "sample_config =
     \<lparr>cc_provider = ''p'', cc_model = ''m'', cc_reasoning_effort = None, cc_temperature = None,
      cc_max_tokens = None, cc_stop = None\<rparr>"

definition sample_call :: prepared_call where
  "sample_call =
     \<lparr>pc_config = sample_config, pc_defaults = \<lparr>ad_reasoning_effort = False, ad_max_tokens = False\<rparr>,
      pc_window = None\<rparr>"

definition sample_assembly :: prompt_assembly where
  "sample_assembly = \<lparr>pa_sections = [], pa_contexts = [], pa_tools = [], pa_variables = []\<rparr>"

definition sample_input :: user_message where
  "sample_input = \<lparr>um_id = ''u'', um_content = [], um_source = UserSource\<rparr>"

definition reply_script :: host_script where
  "reply_script =
     [([], Assembled sample_assembly), ([], Decided None), ([], Resumed),
      ([], Proposed None), ([], CallPrepared sample_call), ([], Resumed), ([], Resumed),
      ([], NextChunk (FinishChunk FinishStop None)), ([], StreamDone), ([], Resumed), ([], Resumed), ([], Resumed)]"

text \<open>The same turn, waiting with two calls in flight.\<close>

definition busy_script :: host_script where
  "busy_script =
     [([], Assembled sample_assembly), ([], Decided None), ([], Resumed),
      ([], Proposed None), ([], CallPrepared sample_call), ([], Resumed), ([], Resumed),
      ([], NextChunk (ToolCallDelta 0 ''a'' (Some ''t'') [])), ([], NextChunk (ToolCallDelta 1 ''b'' (Some ''u'') [])),
      ([], NextChunk (FinishChunk FinishToolCalls None)), ([], StreamDone),
      ([], ParallelMode True), ([], ToolPrepared DispatchCall), ([], Resumed), ([], Resumed),
      ([], ParallelMode True), ([], ToolPrepared DispatchCall), ([], Resumed), ([], Resumed), ([], Resumed)]"

definition request_script :: host_script where
  "request_script = [([], Proposed None), ([], CallPrepared sample_call)]"

definition sample_calls :: "tool_block list" where
  "sample_calls = [(''a'', ''t'', []), (''b'', ''u'', [])]"

definition sample_tool :: "string \<Rightarrow> tool_schema" where
  "sample_tool n = \<lparr>ts_name = n, ts_description = [], ts_parameters = []\<rparr>"

lemma fresh_agent_new: "new_agent new_session 5 2 3 script = Inr (fresh_agent script)"
  by (simp add: new_agent_def fresh_agent_def new_session_def session_of_def new_inbox_def last_turn_of_def find_last_def sample_header_def)

lemma fresh_session_ok: "session_ok new_session" "seed_fits new_session"
  using session_reach_ok [OF reach_create [OF new_session_created]]
  by (simp_all add: seed_fits_def new_session_def session_of_def sample_header_def)

lemma fresh_session_trace: "seed_session (ses_log new_session) = Inr fresh_trace" "tr_open_turn fresh_trace = None"
  by (simp_all add: seed_session_def new_session_def session_of_def fresh_trace_def)

lemma sample_scripts_ok [simp]: "script_ok pool_script" "script_ok reply_script" "script_ok busy_script" "script_ok request_script"
  by (simp_all add: script_ok_def pool_script_def reply_script_def busy_script_def request_script_def)

lemma fresh_agent_idle: "script_ok script \<Longrightarrow> is_idle_agent (fresh_agent script)"
  by (rule new_agent_idle [OF fresh_session_ok _ fresh_session_trace fresh_agent_new])

lemma step_agent_within:
  assumes "script_ok script"
  shows "within (InStep {}) 1 1 1 1 (step_agent script)"
proof -
  let ?h = "(fresh_agent script)\<lparr>ag_phase := Running None 1 1 False\<rparr>"
  have "agent_ok (fresh_agent script)"
    using fresh_agent_idle [OF assms] by (auto simp: is_idle_agent_def idle_at_def at_rest_def)
  moreover have "positioned Between 0 0 (log_of (fresh_agent script))"
    by (simp add: positioned_def log_of_def fresh_agent_def fresh_session_trace fresh_trace_def)
  ultimately have start: "within Between 0 0 1 1 ?h" by (auto simp: within_def)
  have one: "triple (within Between 0 0 1 1) (append_log (TurnStart 1) None None) (\<lambda>_. within InTurn 1 0 1 1) (\<lambda>_ _. False) (\<lambda>_. False)"
    by (rule triple_append_only) (auto intro: moves_boundary(1) [where t = 0, simplified])
  have two: "triple (within InTurn 1 0 1 1) (append_log (StepStart 1 1) None None) (\<lambda>_. within (InStep {}) 1 1 1 1) (\<lambda>_ _. False) (\<lambda>_. False)"
    by (rule triple_append_only) (auto intro: moves_boundary(3) [where s = 0, simplified])
  from triple_chain [OF one two] start show ?thesis
    unfolding triple_def step_agent_def by (fastforce split: prod.splits outcome.splits)
qed

end
