(* ===== verification/Tool_Views.thy ===== *)
theory Tool_Views
  imports Tool_Registry
begin

text \<open>
  Facts about the views of the tool registry: the tool layer fulfils the contract of the scoped
  registries, so each scope's tables are its live registrations, and a view is a function of
  them. Restrictions and guards only ever take away.
\<close>

section \<open>The tool layer fulfils the contract\<close>

datatype tool_slot = ToolSlot | RestrictionSlot | GuardSlot | ModeSlot

datatype entry_key = ByName string | ByNumber nat | TheCell

fun tool_slot_of :: "tool_contribution \<Rightarrow> tool_slot" where
  "tool_slot_of (ToolEntry _) = ToolSlot"
| "tool_slot_of (RestrictionEntry _) = RestrictionSlot"
| "tool_slot_of (GuardEntry _) = GuardSlot"
| "tool_slot_of (ModeEntry _) = ModeSlot"

fun tool_key :: "nat \<Rightarrow> tool_contribution \<Rightarrow> entry_key" where
  "tool_key n (ToolEntry d) = ByName (td_name d)"
| "tool_key n (RestrictionEntry _) = ByNumber n"
| "tool_key n (GuardEntry _) = ByNumber n"
| "tool_key n (ModeEntry _) = TheCell"

fun tool_numbered :: "tool_contribution \<Rightarrow> bool" where
  "tool_numbered (RestrictionEntry _) = True"
| "tool_numbered (GuardEntry _) = True"
| "tool_numbered _ = False"

fun tool_tables :: "tool_layer \<Rightarrow> tool_slot \<Rightarrow> (entry_key, tool_contribution) js_map" where
  "tool_tables l ToolSlot = as_rows ByName (\<lambda>_. ToolEntry) (tl_tools l)"
| "tool_tables l RestrictionSlot = as_rows ByNumber (\<lambda>_. RestrictionEntry) (tl_restrictions l)"
| "tool_tables l GuardSlot = as_rows ByNumber (\<lambda>_. GuardEntry) (tl_guards l)"
| "tool_tables l ModeSlot = (case tl_mode l of None \<Rightarrow> [] | Some m \<Rightarrow> [(TheCell, ModeEntry m)])"

lemma entry_inj [simp]: "inj ByName" "inj ByNumber" "inj ToolEntry" "inj RestrictionEntry" "inj GuardEntry"
  by (simp_all add: inj_def)

interpretation tl: layer_tables tool_layer_kind tool_tables tool_slot_of tool_key tool_numbered
proof
  show "tool_tables (lk_create tool_layer_kind scope) s = []" for scope s
    by (cases s) (simp_all add: tool_layer_kind_def new_tool_layer_def)
  have slots: "(\<forall>s. P s) \<longleftrightarrow> P ToolSlot \<and> P RestrictionSlot \<and> P GuardSlot \<and> P ModeSlot" for P
    by (metis tool_slot.exhaust)
  show "lk_is_empty tool_layer_kind l = (\<forall>s. tool_tables l s = [])" for l
    unfolding slots by (auto simp: tool_layer_kind_def tool_layer_is_empty_def split: option.splits)
  show "\<exists>l'. lk_put tool_layer_kind n c l = Inr l'
      \<and> (\<forall>s. tool_tables l' s = (if s = tool_slot_of c then tool_tables l s @ [(tool_key n c, c)] else tool_tables l s))"
    if "map_get (tool_tables l (tool_slot_of c)) (tool_key n c) = None" for l c n
    using that unfolding slots
    by (cases c; cases "tl_mode l") (auto simp: tool_layer_kind_def put_tool_contribution_def named_insert_def anonymous_append_def
        as_rows_get map_set_absent split: option.splits)
  show "\<exists>e. lk_put tool_layer_kind n c l = Inl e"
    if "\<not> tool_numbered c" "map_has (tool_tables l (tool_slot_of c)) (tool_key n c)" for c l n
    using that by (cases c; cases "tl_mode l") (auto simp: tool_layer_kind_def put_tool_contribution_def named_insert_def as_rows_get split: option.splits)
  show "tool_tables (lk_undo tool_layer_kind n c l) s
      = (if s = tool_slot_of c then map_del (tool_key n c) (tool_tables l s) else tool_tables l s)" for n c l s
    by (cases c; cases s) (auto simp: tool_layer_kind_def undo_tool_contribution_def named_undo_def anonymous_undo_def
        as_rows_del split: option.splits)
  show "(tool_key m c = tool_key n d) = (m = n)" if "tool_numbered c" "tool_slot_of c = tool_slot_of d" for c d m n
    using that by (cases c; cases d) auto
qed

section \<open>The tables of one scope\<close>

definition layer_at :: "tool_registry \<Rightarrow> scope_key option \<Rightarrow> tool_layer option" where
  "layer_at g scope = (case scope of None \<Rightarrow> Some (global_tools g) | Some _ \<Rightarrow> own_tools g scope)"

definition tools_at :: "tool_registry \<Rightarrow> scope_key option \<Rightarrow> (string, tool_definition) js_map" where
  "tools_at g scope = (case layer_at g scope of None \<Rightarrow> [] | Some l \<Rightarrow> tl_tools l)"

definition restrictions_at :: "tool_registry \<Rightarrow> scope_key option \<Rightarrow> (nat, tool_restriction) js_map" where
  "restrictions_at g scope = (case layer_at g scope of None \<Rightarrow> [] | Some l \<Rightarrow> tl_restrictions l)"

definition guards_at :: "tool_registry \<Rightarrow> scope_key option \<Rightarrow> (nat, tool_guard) js_map" where
  "guards_at g scope = (case layer_at g scope of None \<Rightarrow> [] | Some l \<Rightarrow> tl_guards l)"

definition mode_at :: "tool_registry \<Rightarrow> scope_key option \<Rightarrow> presentation_mode option" where
  "mode_at g scope = (case layer_at g scope of None \<Rightarrow> None | Some l \<Rightarrow> tl_mode l)"

abbreviation rows_at :: "tool_registry \<Rightarrow> scope_key option \<Rightarrow> tool_slot \<Rightarrow> (entry_key, tool_contribution) js_map" where
  "rows_at g \<equiv> tl.shown (tg_layers g)"

lemma rows_layer_at: "rows_at g scope s = (case layer_at g scope of None \<Rightarrow> [] | Some l \<Rightarrow> tool_tables l s)"
  by (cases scope) (simp_all add: tl.shown_def layer_at_def global_tools_def own_tools_def)

lemma rows_at_slots:
  "rows_at g scope ToolSlot = as_rows ByName (\<lambda>_. ToolEntry) (tools_at g scope)"
  "rows_at g scope RestrictionSlot = as_rows ByNumber (\<lambda>_. RestrictionEntry) (restrictions_at g scope)"
  "rows_at g scope GuardSlot = as_rows ByNumber (\<lambda>_. GuardEntry) (guards_at g scope)"
  "rows_at g scope ModeSlot = (case mode_at g scope of None \<Rightarrow> [] | Some m \<Rightarrow> [(TheCell, ModeEntry m)])"
  by (simp_all add: rows_layer_at tools_at_def restrictions_at_def guards_at_def mode_at_def split: option.split)

section \<open>Views as functions of the tables\<close>

lemma shadow_nothing [simp]: "shadow_entries m [] = m"
  by (simp add: shadow_entries_def)

lemma shadow_absent:
  "foldl shadow_entries m (map tl_tools (List.map_filter (\<lambda>k. layer_at g (Some k)) ks))
   = foldl shadow_entries m (map (\<lambda>k. tools_at g (Some k)) ks)"
  by (induction ks arbitrary: m) (auto simp: List.map_filter_simps tools_at_def split: option.split)

lemma chain_tools_at: "chain_tools g scope = List.map_filter (\<lambda>k. layer_at g (Some k)) (rev (chain_of (tg_parents g) scope))"
  by (simp add: chain_tools_def chain_layers_def layer_at_def own_tools_def)

lemma inherited_layers_at:
  "inherited_layers g scope
   = List.map_filter (\<lambda>k. layer_at g (Some k)) (filter (\<lambda>k. Some k \<noteq> scope) (rev (chain_of (tg_parents g) scope)))"
proof -
  have "List.map_filter (\<lambda>k. if Some k = scope then None else f k) ks = List.map_filter f (filter (\<lambda>k. Some k \<noteq> scope) ks)"
    for f :: "scope_key \<Rightarrow> tool_layer option" and ks
    by (induction ks) (auto simp: List.map_filter_simps split: option.split)
  then show ?thesis by (simp add: inherited_layers_def layer_at_def own_tools_def)
qed

lemma inherited_tools_at:
  "inherited_tools g scope = foldl shadow_entries (tools_at g None)
     (map (\<lambda>k. tools_at g (Some k)) (filter (\<lambda>k. Some k \<noteq> scope) (rev (chain_of (tg_parents g) scope))))"
  by (simp add: inherited_tools_def inherited_layers_at shadow_absent tools_at_def [of g None] layer_at_def [of g None])

lemma own_entries_at: "own_entries g (Some k) = tools_at g (Some k)" "own_entries g None = []"
  by (simp_all add: own_entries_def tools_at_def layer_at_def own_tools_def peek_layer_def)

lemma admitted_at:
  "admitted_everywhere g scope name \<longleftrightarrow>
     (\<forall>k\<in>set (chain_of (tg_parents g) scope). \<forall>f\<in>snd ` set (restrictions_at g (Some k)). restriction_admits f name)"
proof -
  have "list_all (\<lambda>l. layer_admits l name) (List.map_filter (\<lambda>k. layer_at g (Some k)) ks)
      \<longleftrightarrow> (\<forall>k\<in>set ks. \<forall>f\<in>snd ` set (restrictions_at g (Some k)). restriction_admits f name)" for ks
    by (induction ks)
      (auto simp: List.map_filter_simps layer_admits_def list_all_iff restrictions_at_def split: option.splits)
  from this [of "rev (chain_of (tg_parents g) scope)"] show ?thesis
    by (simp add: admitted_everywhere_def chain_tools_at)
qed

lemma mode_for_at:
  "mode_for g scope =
     (case first_some (\<lambda>k. mode_at g (Some k)) (chain_of (tg_parents g) scope) of
        Some m \<Rightarrow> m | None \<Rightarrow> tg_default_mode g)"
proof -
  have "first_some tl_mode (List.map_filter (\<lambda>k. layer_at g (Some k)) ks) = first_some (\<lambda>k. mode_at g (Some k)) ks" for ks
    by (induction ks) (auto simp: List.map_filter_simps mode_at_def split: option.split)
  moreover have "rev (List.map_filter f ks) = List.map_filter f (rev ks)" for f :: "scope_key \<Rightarrow> tool_layer option" and ks
    by (simp add: List.map_filter_def rev_map rev_filter)
  ultimately show ?thesis by (simp add: mode_for_def chain_tools_at)
qed

lemma rbind_option_id [simp]: "rbind m (\<lambda>r. case r of None \<Rightarrow> Inr None | Some x \<Rightarrow> Inr (Some x)) = m"
  by (cases m) (simp_all split: option.split)

lemma first_reason_append:
  "first_reason (xs @ ys) exec =
     rbind (first_reason xs exec) (\<lambda>r. case r of Some d \<Rightarrow> Inr (Some d) | None \<Rightarrow> first_reason ys exec)"
proof (induction xs)
  case (Cons g gs)
  have "rbind (case r of None \<Rightarrow> first_reason gs exec | Some d \<Rightarrow> Inr (Some d))
      (\<lambda>r. case r of None \<Rightarrow> first_reason ys exec | Some d \<Rightarrow> Inr (Some d))
    = (case r of None \<Rightarrow> first_reason (gs @ ys) exec | Some d \<Rightarrow> Inr (Some d))" for r
    using Cons by (cases r) simp_all
  then show ?case by (simp add: rbind_assoc)
qed (simp add: rbind_def split: sum.split)

text \<open>The guards a call meets: the global ones, then those of its agent's chain.\<close>

definition guards_for :: "tool_registry \<Rightarrow> scope_key option \<Rightarrow> tool_guard list" where
  "guards_for g agent = concat (map (\<lambda>scope. map snd (guards_at g scope)) (None # map Some (rev (chain_of (tg_parents g) agent))))"

lemma guard_reason_at: "guard_reason g exec = first_reason (guards_for g (te_agent exec)) exec"
proof -
  have "concat (map (\<lambda>l. map snd (tl_guards l)) (List.map_filter (\<lambda>k. layer_at g (Some k)) ks))
      = concat (map (\<lambda>k. map snd (guards_at g (Some k))) ks)" for ks
    by (induction ks) (auto simp: List.map_filter_simps guards_at_def split: option.split)
  then show ?thesis
    by (cases "te_agent exec")
      (simp_all add: guard_reason_def guards_for_def first_reason_append chain_tools_at comp_def guards_at_def [of g None]
        layer_at_def [of g None] layer_guard_reason_def cong: option.case_cong)
qed

section \<open>Reachable registries\<close>

definition new_registry :: "presentation_mode \<Rightarrow> tool_definition \<Rightarrow> tool_registry" where
  "new_registry mode transport =
     \<lparr>tg_layers = new_layers tool_layer_kind, tg_parents = Map.empty, tg_default_mode = mode, tg_runtime = None,
      tg_transport = transport\<rparr>"

text \<open>Scopes are bound and runtimes come and go while tools are registered and disposed.\<close>

inductive registry_reach :: "tool_registry \<Rightarrow> bool" where
  registry_new: "td_name transport = RUN_CODE_NAME \<Longrightarrow> registry_reach (new_registry mode transport)"
| registry_tool: "registry_reach g \<Longrightarrow> register_tool scope d g = (out, g') \<Longrightarrow> registry_reach g'"
| registry_restrict: "registry_reach g \<Longrightarrow> restrict_tools scope f g = (out, g') \<Longrightarrow> registry_reach g'"
| registry_guard: "registry_reach g \<Longrightarrow> add_guard scope guard g = (out, g') \<Longrightarrow> registry_reach g'"
| registry_present: "registry_reach g \<Longrightarrow> present_as scope mode g = (out, g') \<Longrightarrow> registry_reach g'"
| registry_dispose: "registry_reach g \<Longrightarrow> number < length (ly_registrations (tg_layers g))
    \<Longrightarrow> rg_active (ly_registrations (tg_layers g) ! number) \<Longrightarrow> registry_reach (dispose_contribution number g)"
| registry_scopes: "registry_reach g \<Longrightarrow> scopes_reach ps \<Longrightarrow> registry_reach (g\<lparr>tg_parents := ps\<rparr>)"
| registry_runtime: "registry_reach g \<Longrightarrow> registry_reach (g\<lparr>tg_runtime := language\<rparr>)"

lemma register_contribution_reach:
  "register_contribution scope notify c g = (out, g') \<Longrightarrow> layers_reach tool_layer_kind (tg_layers g)
   \<Longrightarrow> layers_reach tool_layer_kind (tg_layers g') \<and> tg_parents g' = tg_parents g \<and> tg_transport g' = tg_transport g
     \<and> tg_default_mode g' = tg_default_mode g \<and> tg_runtime g' = tg_runtime g"
  by (auto simp: register_contribution_def intro: reach_register split: prod.splits)

lemma registry_reach_layers:
  "registry_reach g \<Longrightarrow> layers_reach tool_layer_kind (tg_layers g) \<and> forest (tg_parents g) \<and> td_name (tg_transport g) = RUN_CODE_NAME"
proof (induction rule: registry_reach.induct)
  case (registry_new transport mode)
  then show ?case by (simp add: new_registry_def reach_new scopes_reach_forest scopes_empty)
qed (auto simp: register_tool_def restrict_tools_def add_guard_def present_as_def dispose_contribution_def
      intro: reach_cleanup scopes_reach_forest dest!: register_contribution_reach split: sum.splits if_splits)

section \<open>What an operation changes\<close>

lemma register_rows:
  assumes "layers_reach tool_layer_kind (tg_layers g)" "register_contribution scope notify c g = (out, g')"
  shows "rows_at g' scope' s = rows_at g scope' s
    @ (case out of Inl _ \<Rightarrow> [] | Inr n \<Rightarrow> if scope' = scope \<and> s = tool_slot_of c then [(tool_key n c, c)] else [])"
proof -
  have reach: "layers_reach tool_layer_kind (tg_layers g')"
    using register_contribution_reach [OF assms(2,1)] by simp
  have run: "register_effect tool_layer_kind scope notify c (tg_layers g) = (out, tg_layers g')"
    using assms(2) by (auto simp: register_contribution_def split: prod.splits)
  show ?thesis
    unfolding tl.registry_shows_live [OF reach] tl.registry_shows_live [OF assms(1)]
    using run tl.register_live [of scope notify c "tg_layers g" _ "tg_layers g'"] tl.register_refused [of scope notify c "tg_layers g" _ "tg_layers g'"]
    by (cases out) simp_all
qed

lemma register_tables:
  assumes "layers_reach tool_layer_kind (tg_layers g)" "register_contribution scope notify c g = (Inr n, g')"
  shows "tools_at g' scope' = tools_at g scope'
      @ (case c of ToolEntry d \<Rightarrow> if scope' = scope then [(td_name d, d)] else [] | _ \<Rightarrow> [])"
    and "restrictions_at g' scope' = restrictions_at g scope'
      @ (case c of RestrictionEntry f \<Rightarrow> if scope' = scope then [(n, f)] else [] | _ \<Rightarrow> [])"
    and "guards_at g' scope' = guards_at g scope'
      @ (case c of GuardEntry gd \<Rightarrow> if scope' = scope then [(n, gd)] else [] | _ \<Rightarrow> [])"
    and "(\<And>m. c \<noteq> ModeEntry m) \<Longrightarrow> mode_at g' scope' = mode_at g scope'"
proof -
  note rows = register_rows [OF assms]
  have "as_rows ByName (\<lambda>_. ToolEntry) (tools_at g' scope') = as_rows ByName (\<lambda>_. ToolEntry) (tools_at g scope'
      @ (case c of ToolEntry d \<Rightarrow> if scope' = scope then [(td_name d, d)] else [] | _ \<Rightarrow> []))"
    using rows [of scope' ToolSlot] by (cases c) (auto simp: rows_at_slots)
  then show "tools_at g' scope' = tools_at g scope'
      @ (case c of ToolEntry d \<Rightarrow> if scope' = scope then [(td_name d, d)] else [] | _ \<Rightarrow> [])"
    by (simp only: as_rows_inject entry_inj)
  have "as_rows ByNumber (\<lambda>_. RestrictionEntry) (restrictions_at g' scope') = as_rows ByNumber (\<lambda>_. RestrictionEntry) (restrictions_at g scope'
      @ (case c of RestrictionEntry f \<Rightarrow> if scope' = scope then [(n, f)] else [] | _ \<Rightarrow> []))"
    using rows [of scope' RestrictionSlot] by (cases c) (auto simp: rows_at_slots)
  then show "restrictions_at g' scope' = restrictions_at g scope'
      @ (case c of RestrictionEntry f \<Rightarrow> if scope' = scope then [(n, f)] else [] | _ \<Rightarrow> [])"
    by (simp only: as_rows_inject entry_inj)
  have "as_rows ByNumber (\<lambda>_. GuardEntry) (guards_at g' scope') = as_rows ByNumber (\<lambda>_. GuardEntry) (guards_at g scope'
      @ (case c of GuardEntry gd \<Rightarrow> if scope' = scope then [(n, gd)] else [] | _ \<Rightarrow> []))"
    using rows [of scope' GuardSlot] by (cases c) (auto simp: rows_at_slots)
  then show "guards_at g' scope' = guards_at g scope'
      @ (case c of GuardEntry gd \<Rightarrow> if scope' = scope then [(n, gd)] else [] | _ \<Rightarrow> [])"
    by (simp only: as_rows_inject entry_inj)
  show "mode_at g' scope' = mode_at g scope'" if "\<And>m. c \<noteq> ModeEntry m"
    using rows [of scope' ModeSlot] that by (cases c; cases "mode_at g scope'"; cases "mode_at g' scope'") (auto simp: rows_at_slots)
qed

section \<open>Well-formed tables\<close>

text \<open>Names are keys, unique in a layer, and never the transport's.\<close>

definition tools_ok :: "tool_registry \<Rightarrow> bool" where
  "tools_ok g \<longleftrightarrow>
     (\<forall>scope. distinct (map fst (tools_at g scope))
        \<and> (\<forall>(name, d)\<in>set (tools_at g scope). name = td_name d \<and> name \<noteq> RUN_CODE_NAME))"

lemma live_contents:
  assumes "layers_reach tool_layer_kind (tg_layers g)" "(name, d) \<in> set (tools_at g scope)"
  shows "\<exists>r\<in>set (ly_registrations (tg_layers g)). rg_active r \<and> rg_scope r = scope \<and> rg_content r = ToolEntry d \<and> name = td_name d"
proof -
  have "(ByName name, ToolEntry d) \<in> set (rows_at g scope ToolSlot)"
    using assms(2) by (force simp: rows_at_slots as_rows_def)
  then have "(ByName name, ToolEntry d) \<in> set (tl.live (tg_layers g) scope ToolSlot)"
    by (simp add: tl.registry_shows_live [OF assms(1)])
  then obtain p where "p \<in> set (List.enumerate 0 (ly_registrations (tg_layers g)))"
    and p: "rg_active (snd p)" "rg_scope (snd p) = scope"
      "(ByName name, ToolEntry d) = (tool_key (fst p) (rg_content (snd p)), rg_content (snd p))"
    unfolding tl.live_def set_map set_filter by (auto simp del: prod.inject)
  then have "snd p \<in> set (ly_registrations (tg_layers g))" by (metis in_set_enumerate_eq add_0_right diff_zero nth_mem)
  moreover have content: "rg_content (snd p) = ToolEntry d" using p(3) by simp
  moreover have "name = td_name d" using p(3) unfolding content by simp
  ultimately show ?thesis using p by blast
qed

lemma tools_distinct:
  assumes "layers_reach tool_layer_kind (tg_layers g)"
  shows "distinct (map fst (tools_at g scope))"
proof -
  have "distinct (map fst (rows_at g scope ToolSlot))" by (rule tl.registry_keys_distinct [OF assms])
  then show ?thesis unfolding rows_at_slots as_rows_keys distinct_map [of ByName] by blast
qed

text \<open>Only checked definitions are registered; an undo keeps the record of what was registered.\<close>

definition entries_checked :: "tool_registry \<Rightarrow> bool" where
  "entries_checked g \<longleftrightarrow>
     (\<forall>r\<in>set (ly_registrations (tg_layers g)). \<forall>d. rg_content r = ToolEntry d \<longrightarrow> is_ok (check_definition d))"

lemma register_checked:
  assumes "register_contribution scope notify c g = (out, g')" "entries_checked g"
    and "\<And>d. c = ToolEntry d \<Longrightarrow> is_ok (check_definition d)"
  shows "entries_checked g'"
proof -
  obtain i created st1 where lf: "layer_for tool_layer_kind scope (tg_layers g) = (i, created, st1)"
    by (cases "layer_for tool_layer_kind scope (tg_layers g)")
  have "set (ly_registrations (tg_layers g')) \<subseteq> insert
      \<lparr>rg_scope = scope, rg_layer = i, rg_content = c, rg_notify = notify, rg_active = True\<rparr> (set (ly_registrations (tg_layers g)))"
    using assms(1) lf tl.layer_for_registrations [OF lf]
    by (auto simp: register_contribution_def register_effect_def Let_def drop_layer_def split: prod.splits sum.splits if_splits option.splits)
  then show ?thesis using assms(2,3) by (auto simp: entries_checked_def)
qed

lemma cleanup_contents:
  "rg_content ` set (ly_registrations (run_cleanup kind n st)) \<subseteq> rg_content ` set (ly_registrations st)"
  if "n < length (ly_registrations st)"
proof -
  have "ly_registrations (run_cleanup kind n st) = ly_registrations st
      \<or> ly_registrations (run_cleanup kind n st) = (ly_registrations st)[n := (ly_registrations st ! n)\<lparr>rg_active := False\<rparr>]"
    by (auto simp: run_cleanup_def run_undo_def drop_layer_def Let_def split: option.splits)
  moreover have "rg_content ` set ((ly_registrations st)[n := (ly_registrations st ! n)\<lparr>rg_active := False\<rparr>])
      \<subseteq> rg_content ` set (ly_registrations st)"
    using that set_update_subset_insert [of "ly_registrations st" n] nth_mem [OF that] by fastforce
  ultimately show ?thesis by auto
qed

lemma registry_reach_checked: "registry_reach g \<Longrightarrow> entries_checked g"
proof (induction rule: registry_reach.induct)
  case (registry_new transport mode)
  then show ?case by (simp add: entries_checked_def new_registry_def new_layers_def)
next
  case (registry_tool g scope d out g')
  then show ?case
    by (auto simp: register_tool_def is_ok_iff dest: register_checked split: sum.splits)
next
  case (registry_restrict g scope f out g')
  then show ?case by (auto simp: restrict_tools_def dest: register_checked split: sum.splits)
next
  case (registry_guard g scope guard out g')
  then show ?case by (auto simp: add_guard_def dest: register_checked)
next
  case (registry_present g scope mode out g')
  then show ?case by (auto simp: present_as_def dest: register_checked split: if_splits)
next
  case (registry_dispose g number)
  have "rg_content ` set (ly_registrations (tg_layers (dispose_contribution number g)))
      \<subseteq> rg_content ` set (ly_registrations (tg_layers g))"
    using registry_dispose cleanup_contents by (simp add: dispose_contribution_def)
  then show ?case using registry_dispose.IH by (force simp: entries_checked_def)
qed (simp_all add: entries_checked_def)

lemma registry_tools_ok: "registry_reach g \<Longrightarrow> tools_ok g"
proof -
  assume reach: "registry_reach g"
  note layers = registry_reach_layers [OF reach, THEN conjunct1]
  have "name = td_name d \<and> name \<noteq> RUN_CODE_NAME" if mem: "(name, d) \<in> set (tools_at g scope)" for name d scope
  proof -
    obtain r where "r \<in> set (ly_registrations (tg_layers g))" "rg_content r = ToolEntry d" "name = td_name d"
      using live_contents [OF layers mem] by blast
    then show ?thesis using registry_reach_checked [OF reach]
      by (auto simp: entries_checked_def is_ok_iff check_definition_def rbind_eq_Inr split: option.splits)
  qed
  then show ?thesis using tools_distinct [OF layers] by (auto simp: tools_ok_def)
qed

text \<open>The tools registered in a scope and not disposed.\<close>

definition live_tools :: "tool_registry \<Rightarrow> scope_key option \<Rightarrow> tool_definition list" where
  "live_tools g scope =
     List.map_filter (\<lambda>r. case rg_content r of
         ToolEntry d \<Rightarrow> if rg_active r \<and> rg_scope r = scope then Some d else None
       | _ \<Rightarrow> None) (ly_registrations (tg_layers g))"

lemma listed_tools:
  "tl.listed n rs scope ToolSlot = as_rows ByName (\<lambda>_. ToolEntry)
     (map (\<lambda>d. (td_name d, d)) (List.map_filter (\<lambda>r. case rg_content r of
         ToolEntry d \<Rightarrow> if rg_active r \<and> rg_scope r = scope then Some d else None
       | _ \<Rightarrow> None) rs))"
  by (induction rs arbitrary: n)
    (auto simp: tl.listed_Cons as_rows_def List.map_filter_simps split: tool_contribution.split)

lemma tools_at_live: "registry_reach g \<Longrightarrow> tools_at g scope = map (\<lambda>d. (td_name d, d)) (live_tools g scope)"
proof -
  assume "registry_reach g"
  then have "as_rows ByName (\<lambda>_. ToolEntry) (tools_at g scope) = tl.live (tg_layers g) scope ToolSlot"
    using registry_reach_layers by (simp add: tl.registry_shows_live flip: rows_at_slots(1))
  then show ?thesis by (simp only: tl.live_listed listed_tools as_rows_inject entry_inj live_tools_def)
qed

section \<open>What a scope sees\<close>

text \<open>The scopes a scope inherits from, farthest first; the global layer is the farthest.\<close>

definition ancestors :: "tool_registry \<Rightarrow> scope_key option \<Rightarrow> scope_key option list" where
  "ancestors g scope = None # map Some (filter (\<lambda>k. Some k \<noteq> scope) (rev (chain_of (tg_parents g) scope)))"

definition inherited_tool :: "tool_registry \<Rightarrow> scope_key option \<Rightarrow> string \<Rightarrow> tool_definition option" where
  "inherited_tool g scope name = nearest (map (tools_at g) (ancestors g scope)) name"

lemma inherited_get:
  assumes "tools_ok g"
  shows "map_get (inherited_tools g scope) name = inherited_tool g scope name"
    "distinct (map fst (inherited_tools g scope))"
proof -
  have dist: "distinct (map fst (tools_at g s))" for s using assms by (simp add: tools_ok_def)
  show "map_get (inherited_tools g scope) name = inherited_tool g scope name"
    unfolding inherited_tools_at inherited_tool_def ancestors_def
    by (subst shadowing_nearest) (auto simp: dist comp_def)
  show "distinct (map fst (inherited_tools g scope))"
    unfolding inherited_tools_at by (rule shadowing_distinct) (rule dist)
qed

lemma map_get_filter_keys:
  "distinct (map fst m) \<Longrightarrow> map_get (filter (\<lambda>(k, _). P k) m) k = (if P k then map_get m k else None)"
  by (induction m) (auto simp: map_of_eq_None_iff)

lemma lookup_tool_cases:
  assumes "tools_ok g"
  shows "lookup_tool g name scope =
    (if name = RUN_CODE_NAME then (if mode_for g scope = NativeMode then None else Some (tg_transport g))
     else (case map_get (own_entries g scope) name of
             Some d \<Rightarrow> Some d
           | None \<Rightarrow> if admitted_everywhere g scope name then inherited_tool g scope name else None))"
proof -
  have dist: "distinct (map fst (own_entries g scope))"
    using assms by (cases scope) (simp_all add: own_entries_at tools_ok_def)
  have absent: "map_get (tools_at g s) RUN_CODE_NAME = None" for s
    using assms by (force simp: tools_ok_def map_of_eq_None_iff)
  have "map_get (own_entries g scope) RUN_CODE_NAME = None"
    using absent by (cases scope) (simp_all add: own_entries_at)
  moreover have "nearest (map (tools_at g) ss) RUN_CODE_NAME = None" for ss
    by (induction ss) (simp_all add: absent)
  ultimately show ?thesis
    using inherited_get [OF assms, of scope]
    by (auto simp: lookup_tool_def registry_view_def Let_def shadow_entries_get [OF dist] map_get_filter_keys inherited_tool_def
        split: option.split)
qed

lemma view_names:
  assumes "registry_reach g"
  shows "distinct (map fst (vw_visible (registry_view g scope)))
    \<and> (\<forall>(name, d)\<in>set (vw_visible (registry_view g scope)). td_name d = name)"
proof -
  note ok = registry_tools_ok [OF assms] and layers = registry_reach_layers [OF assms]
  have dist: "distinct (map fst (own_entries g scope))"
    using ok by (cases scope) (simp_all add: own_entries_at tools_ok_def)
  have visible: "distinct (map fst (vw_visible (registry_view g scope)))"
    using inherited_get(2) [OF ok, of scope]
    by (simp add: registry_view_def Let_def map_set_distinct shadow_entries_distinct distinct_map_filter)
  moreover have "td_name d = name" if "(name, d) \<in> set (vw_visible (registry_view g scope))" for name d
  proof -
    have tables: "map_get (tools_at g s) n = Some x \<Longrightarrow> td_name x = n" for s n x
      using ok by (auto simp: tools_ok_def dest!: map_of_SomeD)
    have near: "nearest (map (tools_at g) ss) n = Some x \<Longrightarrow> td_name x = n" for ss n x
      by (induction ss) (auto dest: tables split: option.splits)
    have "lookup_tool g name scope = Some d" using that visible by (simp add: lookup_tool_def)
    then show ?thesis using layers tables [of scope] near [of "ancestors g scope"]
      unfolding lookup_tool_cases [OF ok]
      by (cases scope) (auto simp: own_entries_at inherited_tool_def split: if_splits option.splits)
  qed
  ultimately show ?thesis by auto
qed

section \<open>Restrictions and guards only take away\<close>

lemma first_reason_None: "first_reason gs exec = Inr None \<longleftrightarrow> (\<forall>gd\<in>set gs. gd exec = Inr None)"
proof (induction gs)
  case (Cons gd gs)
  then show ?case by (cases "gd exec") (auto split: option.splits)
qed simp

lemma restriction_effect:
  assumes reach: "registry_reach g" and run: "restrict_tools (Some k) f g = (Inr n, g')"
  shows "tools_at g' = tools_at g" "mode_for g' = mode_for g" "tg_parents g' = tg_parents g" "tg_transport g' = tg_transport g"
    "admitted_everywhere g' scope name \<longleftrightarrow>
       admitted_everywhere g scope name \<and> (k \<in> set (chain_of (tg_parents g) scope) \<longrightarrow> restriction_admits f name)"
proof -
  note layers = registry_reach_layers [OF reach, THEN conjunct1]
  have reg: "register_contribution (Some k) True (RestrictionEntry f) g = (Inr n, g')"
    using run by (auto simp: restrict_tools_def split: sum.splits)
  note same = register_contribution_reach [OF reg layers] and tabs = register_tables [OF layers reg]
  show "tools_at g' = tools_at g" by (rule ext) (simp add: tabs(1))
  show parents: "tg_parents g' = tg_parents g" "tg_transport g' = tg_transport g" using same by simp_all
  have "mode_at g' = mode_at g" by (rule ext) (simp add: tabs(4))
  then show "mode_for g' = mode_for g" using same by (intro ext) (simp add: mode_for_at cong: option.case_cong)
  show "admitted_everywhere g' scope name \<longleftrightarrow>
       admitted_everywhere g scope name \<and> (k \<in> set (chain_of (tg_parents g) scope) \<longrightarrow> restriction_admits f name)"
    unfolding admitted_at parents by (auto simp: tabs(2) split: if_splits)
qed

lemma restriction_lookup:
  assumes reach: "registry_reach g" and run: "restrict_tools (Some k) f g = (Inr n, g')"
  shows "lookup_tool g' name scope =
    (if name \<noteq> RUN_CODE_NAME \<and> map_get (own_entries g scope) name = None
        \<and> k \<in> set (chain_of (tg_parents g) scope) \<and> \<not> restriction_admits f name
     then None else lookup_tool g name scope)"
proof -
  note eff = restriction_effect [OF assms]
  have "own_entries g' scope = own_entries g scope" by (cases scope) (simp_all add: own_entries_at eff(1))
  moreover have "inherited_tool g' scope name = inherited_tool g scope name"
    by (simp add: inherited_tool_def ancestors_def eff)
  moreover have "tools_ok g'" by (rule registry_tools_ok [OF registry_restrict [OF reach run]])
  ultimately show ?thesis
    using eff by (auto simp: lookup_tool_cases [OF registry_tools_ok [OF reach]] lookup_tool_cases split: option.split)
qed

lemma guard_effect:
  assumes reach: "registry_reach g" and run: "add_guard scope guard g = (Inr n, g')"
  shows "set (guards_for g' agent) =
    set (guards_for g agent) \<union> (if scope \<in> set (None # map Some (chain_of (tg_parents g) agent)) then {guard} else {})"
proof -
  note layers = registry_reach_layers [OF reach, THEN conjunct1]
  have reg: "register_contribution scope False (GuardEntry guard) g = (Inr n, g')" using run by (simp add: add_guard_def)
  note same = register_contribution_reach [OF reg layers] and tabs = register_tables [OF layers reg]
  show ?thesis unfolding guards_for_def using same by (cases scope) (auto simp: tabs(3))
qed

lemma guard_denies:
  assumes "registry_reach g" "add_guard scope guard g = (Inr n, g')"
  shows "guard_reason g' exec = Inr None \<longleftrightarrow>
    guard_reason g exec = Inr None
      \<and> (scope \<in> set (None # map Some (chain_of (tg_parents g) (te_agent exec))) \<longrightarrow> guard exec = Inr None)"
  unfolding guard_reason_at first_reason_None guard_effect [OF assms] by auto

section \<open>The mode collapse\<close>

lemma collapse_leaves_transport:
  assumes "registry_reach g" "mode_for g scope = CodeMode" "resolve_execution g name scope False = Some d"
  shows "name = RUN_CODE_NAME \<and> d = tg_transport g"
  using assms(2,3) lookup_tool_cases [OF registry_tools_ok [OF assms(1)], of name scope]
  by (auto simp: resolve_execution_def collapses_def split: option.splits if_splits)

lemma native_has_no_transport:
  assumes "registry_reach g" "mode_for g scope = NativeMode"
  shows "lookup_tool g RUN_CODE_NAME scope = None"
  by (simp add: lookup_tool_cases [OF registry_tools_ok [OF assms(1)]] assms(2))

end
