(* ===== verification/Tool_Execution.thy ===== *)
theory Tool_Execution
  imports Tool_Views
begin

text \<open>
  The execution pipeline of the tool registry (\<open>packages/core/tools/src/index.ts\<close>): pre-execute policy,
  approval, guards, around-dispatch wrappers, the tool body, post-execute policy, the final content
  transform and the notification of observers. A host record answers for the other code at each
  \<open>await\<close>: the policy waterfalls, the approval service, the wrappers and the bodies they dispatch, how
  long each takes, and when the caller aborts. The registry may change while the call runs, so it
  is a function of the time.
\<close>

section \<open>Failures\<close>

definition error_of :: "string \<Rightarrow> tool_failure" where
  "error_of message = \<lparr>tf_message = message, tf_info = None\<rparr>"

definition quoted :: "string \<Rightarrow> string" where
  "quoted name = ''\"'' @ name @ ''\"''"

definition tool_not_found :: "string \<Rightarrow> string option \<Rightarrow> tool_failure" where
  "tool_not_found name route =
     \<lparr>tf_message = ''unknown tool '' @ quoted name @ (case route of None \<Rightarrow> '''' | Some r \<Rightarrow> '': '' @ r),
      tf_info = Some (''ToolNotFoundError'', ''UNKNOWN_TOOL'')\<rparr>"

definition tool_output_error :: "string \<Rightarrow> string list \<Rightarrow> tool_failure" where
  "tool_output_error name violations =
     \<lparr>tf_message = ''tool '' @ quoted name @ '' returned invalid output: '' @ join_with ''; '' violations,
      tf_info = Some (''ToolOutputError'', ''INVALID_TOOL_OUTPUT'')\<rparr>"

definition projection_error :: "string \<Rightarrow> string \<Rightarrow> tool_failure \<Rightarrow> tool_failure" where
  "projection_error name projector f = tool_output_error name [''output.'' @ projector @ '' failed: '' @ tf_message f]"

definition tool_error_result :: "tool_failure \<Rightarrow> tool_result" where
  "tool_error_result f =
     \<lparr>tx_outcome = Inl f, tx_content = [TextBlock (''Error: '' @ tf_message f)], tx_meta = None, tx_contexts = None,
      tx_concludes = False\<rparr>"

definition some_contexts :: "user_message list \<Rightarrow> user_message list option" where
  "some_contexts cs = (if cs = [] then None else Some cs)"

definition contexts_of :: "tool_result \<Rightarrow> user_message list" where
  "contexts_of r = (case tx_contexts r of None \<Rightarrow> [] | Some cs \<Rightarrow> cs)"

definition aborted_failure :: "string \<Rightarrow> string \<Rightarrow> tool_failure" where
  "aborted_failure message code = \<lparr>tf_message = message, tf_info = Some (''AbortError'', code)\<rparr>"

definition tool_aborted_result :: "tool_result option \<Rightarrow> tool_result" where
  "tool_aborted_result prior =
     (tool_error_result (aborted_failure ''tool call aborted'' TOOL_ABORTED))
       \<lparr>tx_contexts := (case prior of None \<Rightarrow> None | Some r \<Rightarrow> some_contexts (contexts_of r))\<rparr>"

definition tool_aborted_before_dispatch_result :: "tool_result option \<Rightarrow> tool_result" where
  "tool_aborted_before_dispatch_result prior =
     (tool_error_result (aborted_failure ''tool call aborted before dispatch'' TOOL_ABORTED_BEFORE_DISPATCH))
       \<lparr>tx_contexts := (case prior of None \<Rightarrow> None | Some r \<Rightarrow> some_contexts (contexts_of r))\<rparr>"

definition result_failed :: "tool_result \<Rightarrow> bool" where
  "result_failed r = (\<not> is_ok (tx_outcome r))"

section \<open>Lossless results\<close>

fun block_lossless :: "content_block \<Rightarrow> bool" where
  "block_lossless (ImageBlock j) = json_wf j"
| "block_lossless (OtherBlock _ j) = json_wf j"
| "block_lossless (ToolResultBlock _ blocks _) = list_all block_lossless blocks"
| "block_lossless _ = True"

fun source_lossless :: "message_source \<Rightarrow> bool" where
  "source_lossless (ModelSource _ _ (Some j)) = json_wf j"
| "source_lossless (GoalSource _ a b) = (json_wf (JNum a) \<and> json_wf (JNum b))"
| "source_lossless (OtherSource _ j) = json_wf j"
| "source_lossless _ = True"

definition presentation_lossless :: "tool_result \<Rightarrow> bool" where
  "presentation_lossless r \<longleftrightarrow>
     list_all block_lossless (tx_content r)
     \<and> (case tx_meta r of None \<Rightarrow> True | Some j \<Rightarrow> json_wf j)
     \<and> list_all (\<lambda>m. list_all block_lossless (um_content m) \<and> source_lossless (um_source m)) (contexts_of r)"

text \<open>\<open>materializeFinalResult\<close>: the durable projection, or a refusal of lossy data. A failure never
  concludes a turn.\<close>

definition materialize_final_result :: "tool_result \<Rightarrow> (tool_failure, tool_result) result" where
  "materialize_final_result r =
     (if \<not> presentation_lossless r then Inl (error_of ''tool result must be losslessly JSON-serializable'')
      else Inr (if result_failed r then r\<lparr>tx_concludes := False\<rparr> else r))"

section \<open>The host\<close>

datatype pre_decision =
    AllowCall
  | DenyCall string
  | AskCall "string option"

datatype approval_outcome = AllowedOnce | ApprovalRejected | ApprovalCancelled | ApprovalUnavailable

text \<open>A snapshot of an untyped value: it may throw, or find the value lossy.\<close>

type_synonym snapshot = "(tool_failure, json option) result"

text \<open>An accept decision may replace the content or the value; having both is an error.\<close>

datatype post_decision =
    AcceptResult "content_block list option" "snapshot option" "user_message list"
  | BlockResult "content_block list" "user_message list"

text \<open>One run of the tool body that an around-dispatch wrapper asks for: the time until then, whether
  the wrapper's signal is aborted before and after, how long the body takes, what it returns, and
  the contexts and the conclusion it declared.\<close>

record body_attempt =
  at_wait :: nat
  at_signal_aborted :: bool
  at_run :: nat
  at_signal_aborted_after :: bool
  at_returned :: "(tool_failure, snapshot) result"
  at_deferred :: "user_message list"
  at_concludes :: bool

text \<open>What the around-dispatch waterfall returns: the result object of one of its attempts, or one a
  wrapper made (whose value is then a snapshot).\<close>

datatype around_answer =
    ReturnsAttempt nat
  | ReturnsFailure tool_result
  | ReturnsSuccess snapshot "user_message list option"

record exec_host =
  xh_abort_at :: "nat option"
  xh_registry :: "nat \<Rightarrow> tool_registry"
  xh_arguments :: snapshot
  xh_arguments_time :: nat
  xh_gate :: "(tool_failure, pre_decision) result"
  xh_gate_time :: nat
  xh_approval :: "(tool_failure, approval_outcome) result option"
  xh_approval_time :: nat
  xh_attempts :: "body_attempt list"
  xh_around :: "(tool_failure, around_answer) result"
  xh_around_time :: nat
  xh_post :: "(tool_failure, post_decision) result"
  xh_post_time :: nat
  xh_violation_text :: "value_violation \<Rightarrow> string"

text \<open>What happens in one execution, as an observer of the registry's dispatches sees it.\<close>

datatype pipeline_event =
    PreExecute
  | AskApproval
  | Execute
  | BodyInvoked tool_definition nat
  | PostExecute
  | ResultNotified tool_result

record exec_state =
  xs_now :: nat
  xs_body_invoked :: bool
  xs_deferred :: "user_message list"
  xs_concluding :: bool
  xs_trace :: "pipeline_event list"

definition new_exec_state :: exec_state where
  "new_exec_state = \<lparr>xs_now = 0, xs_body_invoked = False, xs_deferred = [], xs_concluding = False, xs_trace = []\<rparr>"

definition wait_for :: "nat \<Rightarrow> exec_state \<Rightarrow> exec_state" where
  "wait_for d st = st\<lparr>xs_now := xs_now st + d\<rparr>"

definition trace_event :: "pipeline_event \<Rightarrow> exec_state \<Rightarrow> exec_state" where
  "trace_event ev st = st\<lparr>xs_trace := xs_trace st @ [ev]\<rparr>"

definition caller_cancelled :: "exec_host \<Rightarrow> exec_state \<Rightarrow> bool" where
  "caller_cancelled host st = (case xh_abort_at host of None \<Rightarrow> False | Some t \<Rightarrow> t \<le> xs_now st)"

definition registry_now :: "exec_host \<Rightarrow> exec_state \<Rightarrow> tool_registry" where
  "registry_now host st = xh_registry host (xs_now st)"

definition is_nested :: "tool_execution \<Rightarrow> bool" where
  "is_nested exec = (te_parent exec \<noteq> None)"

definition resolve_now :: "exec_host \<Rightarrow> tool_execution \<Rightarrow> exec_state \<Rightarrow> tool_definition option" where
  "resolve_now host exec st = resolve_execution (registry_now host st) (te_name exec) (te_agent exec) (is_nested exec)"

section \<open>Successful values\<close>

definition snapshot_tool_value :: "string \<Rightarrow> snapshot \<Rightarrow> (tool_failure, json) result" where
  "snapshot_tool_value name candidate =
     (case candidate of
        Inl f \<Rightarrow> Inl (tool_output_error name [''value snapshot failed: '' @ tf_message f])
      | Inr None \<Rightarrow> Inl (tool_output_error name [''value is not lossless JSON''])
      | Inr (Some j) \<Rightarrow> if json_wf j then Inr j else Inl (tool_output_error name [''value is not lossless JSON'']))"

definition check_projection :: "string \<Rightarrow> string \<Rightarrow> bool \<Rightarrow> (tool_failure, unit) result" where
  "check_projection name projector lossless =
     ensure lossless (tool_output_error name [''output.'' @ projector @ '' returned non-lossless JSON''])"

definition render_value :: "tool_definition \<Rightarrow> tool_output \<Rightarrow> tool_execution \<Rightarrow> json \<Rightarrow> (tool_failure, content_block list) result" where
  "render_value d out exec v =
     rbind (map_error (projection_error (td_name d) ''render'') (od_render out (te_arguments exec) v))
       (\<lambda>content. rmap (\<lambda>_. content) (check_projection (td_name d) ''render'' (list_all block_lossless content)))"

definition project_meta :: "tool_definition \<Rightarrow> tool_output \<Rightarrow> tool_execution \<Rightarrow> json \<Rightarrow> (tool_failure, json option) result" where
  "project_meta d out exec v =
     (case (if is_nested exec then None else od_meta out) of
        None \<Rightarrow> Inr None
      | Some f \<Rightarrow>
          rbind (map_error (projection_error (td_name d) ''presentationMeta'') (f (te_arguments exec) v))
            (\<lambda>j. rmap (\<lambda>_. Some j) (check_projection (td_name d) ''presentationMeta'' (json_wf j))))"

definition success_result :: "json \<Rightarrow> content_block list \<Rightarrow> json option \<Rightarrow> bool \<Rightarrow> tool_result" where
  "success_result v content meta concludes =
     \<lparr>tx_outcome = Inr v, tx_content = content, tx_meta = meta, tx_contexts = None, tx_concludes = concludes\<rparr>"

text \<open>A registered tool always has an output declaration.\<close>

definition create_success_result ::
    "exec_host \<Rightarrow> tool_execution \<Rightarrow> tool_definition \<Rightarrow> snapshot \<Rightarrow> exec_state \<Rightarrow> (tool_failure, tool_result) result" where
  "create_success_result host exec d candidate st =
     (case td_output d of
        None \<Rightarrow> Inl (error_of ''tool output is undefined'')
      | Some out \<Rightarrow>
          rbind (snapshot_tool_value (td_name d) candidate)
            (\<lambda>v. let violations = validate_json_schema_value (node_of_json (od_schema out)) v ''value'' in
               if violations \<noteq> [] then Inl (tool_output_error (td_name d) (map (xh_violation_text host) violations))
               else rbind (render_value d out exec v)
                      (\<lambda>content. rbind (project_meta d out exec v)
                         (\<lambda>meta. materialize_final_result (success_result v content meta (xs_concluding st))))))"

section \<open>Dispatch\<close>

definition enter_attempt :: "body_attempt \<Rightarrow> exec_state \<Rightarrow> exec_state" where
  "enter_attempt a st = wait_for (at_wait a) st"

definition invoke_body :: "tool_definition \<Rightarrow> body_attempt \<Rightarrow> exec_state \<Rightarrow> exec_state" where
  "invoke_body d a st =
     (let st1 = trace_event (BodyInvoked d (xs_now st)) (st\<lparr>xs_body_invoked := True\<rparr>) in
      (wait_for (at_run a) st1)
        \<lparr>xs_deferred := xs_deferred st1 @ at_deferred a, xs_concluding := xs_concluding st1 \<or> at_concludes a\<rparr>)"

text \<open>\<open>dispatchToolBody\<close> under the fused signal: the result, and whether the registry marked the object as
  the canonical success of this call.\<close>

definition dispatch_tool_body ::
    "exec_host \<Rightarrow> tool_execution \<Rightarrow> body_attempt \<Rightarrow> exec_state \<Rightarrow> (tool_result \<times> bool) \<times> exec_state" where
  "dispatch_tool_body host exec a st =
     (let st1 = enter_attempt a st in
      if caller_cancelled host st1 \<or> at_signal_aborted a then ((tool_aborted_before_dispatch_result None, False), st1)
      else (case resolve_now host exec st1 of
              None \<Rightarrow> ((tool_error_result (tool_not_found (te_name exec) None), False), st1)
            | Some d \<Rightarrow>
                (let st2 = invoke_body d a st1 in
                 (case rbind (at_returned a) (\<lambda>candidate. create_success_result host exec d candidate st2) of
                    Inl f \<Rightarrow> ((tool_error_result f, False), st2)
                  | Inr r \<Rightarrow>
                      (if caller_cancelled host st2 \<or> at_signal_aborted_after a
                       then (tool_aborted_result (Some r), False) else (r, True), st2)))))"

fun run_attempts ::
    "exec_host \<Rightarrow> tool_execution \<Rightarrow> body_attempt list \<Rightarrow> exec_state \<Rightarrow> (tool_result \<times> bool) list \<times> exec_state" where
  "run_attempts host exec [] st = ([], st)"
| "run_attempts host exec (a # as) st =
     (case dispatch_tool_body host exec a st of
        (r, st1) \<Rightarrow> (case run_attempts host exec as st1 of (rs, st2) \<Rightarrow> (r # rs, st2)))"

text \<open>The registry's reading of a value: a snapshot through the tool's own output contract.\<close>

definition normalize_success ::
    "exec_host \<Rightarrow> tool_execution \<Rightarrow> snapshot \<Rightarrow> user_message list option \<Rightarrow> exec_state \<Rightarrow> (tool_failure, tool_result) result" where
  "normalize_success host exec candidate contexts st =
     (case resolve_now host exec st of
        None \<Rightarrow> Inl (tool_not_found (te_name exec) None)
      | Some d \<Rightarrow>
          rmap (\<lambda>r. if contexts \<noteq> None then r\<lparr>tx_contexts := contexts\<rparr> else r)
            (create_success_result host exec d candidate st))"

text \<open>\<open>normalizeDispatchResult\<close>: a canonical object passes, a failure is rebuilt from its own fields, and
  any other success is validated and rendered anew.\<close>

definition normalize_dispatch_result ::
    "exec_host \<Rightarrow> tool_execution \<Rightarrow> (tool_result \<times> bool) list \<Rightarrow> around_answer \<Rightarrow> exec_state
       \<Rightarrow> (tool_failure, tool_result) result" where
  "normalize_dispatch_result host exec attempts answer st =
     (case answer of
        ReturnsAttempt i \<Rightarrow>
          (case nth_opt attempts i of
             None \<Rightarrow> Inl (error_of ''no such attempt'')
           | Some (r, canonical) \<Rightarrow> Inr (if canonical then r else r\<lparr>tx_concludes := False\<rparr>))
      | ReturnsFailure r \<Rightarrow>
          (case tx_outcome r of
             Inl _ \<Rightarrow> Inr (r\<lparr>tx_concludes := False\<rparr>)
           | Inr v \<Rightarrow> normalize_success host exec (Inr (Some v)) (tx_contexts r) st)
      | ReturnsSuccess candidate contexts \<Rightarrow> normalize_success host exec candidate contexts st)"

definition cancellation_result :: "exec_state \<Rightarrow> tool_result \<Rightarrow> tool_result" where
  "cancellation_result st prior =
     (if xs_body_invoked st then tool_aborted_result (Some prior) else tool_aborted_before_dispatch_result (Some prior))"

definition unless_cancelled :: "exec_host \<Rightarrow> exec_state \<Rightarrow> tool_result \<Rightarrow> tool_result" where
  "unless_cancelled host st r =
     (if caller_cancelled host st \<and> \<not> result_failed r then cancellation_result st r else r)"

text \<open>What \<open>prepare\<close> and \<open>dispatch\<close> hand to the next stage.\<close>

datatype staged_result =
    NeedsPost tool_result
  | NeedsFinish tool_result

definition with_deferred :: "exec_state \<Rightarrow> tool_result \<Rightarrow> tool_result" where
  "with_deferred st r =
     (if xs_deferred st = [] then r else r\<lparr>tx_contexts := Some (xs_deferred st @ contexts_of r)\<rparr>)"

definition dispatch_execution :: "exec_host \<Rightarrow> tool_execution \<Rightarrow> exec_state \<Rightarrow> staged_result \<times> exec_state" where
  "dispatch_execution host exec st =
     (case run_attempts host exec (xh_attempts host) (trace_event Execute st) of
        (attempts, st1) \<Rightarrow>
          (let st2 = wait_for (xh_around_time host) st1 in
           (case rbind (xh_around host) (\<lambda>answer. normalize_dispatch_result host exec attempts answer st2) of
              Inl f \<Rightarrow> (NeedsFinish (tool_error_result f), st2)
            | Inr r \<Rightarrow> (NeedsPost (unless_cancelled host st2 (with_deferred st2 r)), st2))))"

section \<open>Post-execute and the end\<close>

definition failure_message_from_content :: "content_block list \<Rightarrow> string" where
  "failure_message_from_content content =
     (let text = join_with [newline] (map (\<lambda>b. case b of TextBlock t \<Rightarrow> t | _ \<Rightarrow> ''['' @ block_type b @ '' content]'') content) in
      if text \<noteq> '''' then text else ''tool result blocked by post-execute policy'')"

definition blocked_result :: "content_block list \<Rightarrow> user_message list \<Rightarrow> tool_result" where
  "blocked_result feedback contexts =
     \<lparr>tx_outcome = Inl (error_of (failure_message_from_content feedback)), tx_content = feedback, tx_meta = None,
      tx_contexts = some_contexts contexts, tx_concludes = False\<rparr>"

definition with_contexts :: "user_message list \<Rightarrow> tool_result \<Rightarrow> tool_result" where
  "with_contexts cs r = (if cs = [] then r else r\<lparr>tx_contexts := Some cs\<rparr>)"

definition apply_post_decision ::
    "exec_host \<Rightarrow> tool_execution \<Rightarrow> tool_result \<Rightarrow> post_decision \<Rightarrow> exec_state \<Rightarrow> (tool_failure, tool_result) result" where
  "apply_post_decision host exec r decision st =
     (case decision of
        BlockResult feedback contexts \<Rightarrow> Inr (blocked_result feedback contexts)
      | AcceptResult (Some _) (Some _) _ \<Rightarrow>
          Inl (error_of ''tools/post-execute accept decision cannot replace both value and content'')
      | AcceptResult None (Some candidate) contexts \<Rightarrow>
          if result_failed r then Inl (error_of ''tools/post-execute cannot replace the value of a failed result'')
          else rmap (with_contexts (contexts_of r @ contexts)) (normalize_success host exec candidate None st)
      | AcceptResult content None contexts \<Rightarrow>
          Inr (with_contexts (contexts_of r @ contexts)
                 (case content of None \<Rightarrow> r | Some c \<Rightarrow> r\<lparr>tx_content := c\<rparr>)))"

definition post_execute ::
    "exec_host \<Rightarrow> tool_execution \<Rightarrow> tool_result \<Rightarrow> exec_state \<Rightarrow> (tool_failure, tool_result) result \<times> exec_state" where
  "post_execute host exec r st =
     (let st1 = wait_for (xh_post_time host) (trace_event PostExecute st) in
      (rbind (xh_post host) (\<lambda>decision. apply_post_decision host exec r decision st1), st1))"

text \<open>The finalizer captured when the call started.\<close>

type_synonym content_finalizer = "(tool_execution \<Rightarrow> tool_result \<Rightarrow> (tool_failure, content_block list option) result) option"

definition materialized_or_error :: "(tool_failure, tool_result) result \<Rightarrow> tool_result" where
  "materialized_or_error m = (case m of Inr r \<Rightarrow> r | Inl f \<Rightarrow> tool_error_result f)"

definition apply_final_content ::
    "tool_execution \<Rightarrow> content_finalizer \<Rightarrow> tool_result \<Rightarrow> (tool_failure, tool_result) result" where
  "apply_final_content exec finalizer r =
     (case finalizer of
        None \<Rightarrow> Inr r
      | Some f \<Rightarrow>
          rmap (\<lambda>content. case content of None \<Rightarrow> r | Some c \<Rightarrow> r\<lparr>tx_content := c\<rparr>) (f exec r))"

definition finish_execution ::
    "tool_execution \<Rightarrow> content_finalizer \<Rightarrow> tool_result \<Rightarrow> exec_state \<Rightarrow> tool_result \<times> exec_state" where
  "finish_execution exec finalizer r st =
     (let materialized = materialized_or_error (materialize_final_result r);
          final = materialized_or_error (rbind (apply_final_content exec finalizer materialized) materialize_final_result)
      in (final, trace_event (ResultNotified final) st))"

definition finalize_execution ::
    "exec_host \<Rightarrow> tool_execution \<Rightarrow> content_finalizer \<Rightarrow> tool_result \<Rightarrow> exec_state \<Rightarrow> tool_result \<times> exec_state" where
  "finalize_execution host exec finalizer r st =
     (case post_execute host exec r st of
        (Inl f, st1) \<Rightarrow> finish_execution exec finalizer (tool_error_result f) st1
      | (Inr r', st1) \<Rightarrow> finish_execution exec finalizer (unless_cancelled host st1 r') st1)"

definition complete_staged ::
    "exec_host \<Rightarrow> tool_execution \<Rightarrow> content_finalizer \<Rightarrow> staged_result \<Rightarrow> exec_state \<Rightarrow> tool_result \<times> exec_state" where
  "complete_staged host exec finalizer staged st =
     (case staged of
        NeedsPost r \<Rightarrow> finalize_execution host exec finalizer r st
      | NeedsFinish r \<Rightarrow> finish_execution exec finalizer r st)"

section \<open>Preparation\<close>

text \<open>\<open>createExecution\<close>: the mode collapse and lossy arguments end the call before any policy sees it.
  (The dash of the collapse message is written as a colon.)\<close>

record tool_input =
  ti_call_id :: call_id
  ti_root_call_id :: "call_id option"
  ti_name :: string
  ti_agent :: "scope_key option"
  ti_parent :: "nat option"

definition execution_of :: "nat \<Rightarrow> tool_input \<Rightarrow> json option \<Rightarrow> tool_execution" where
  "execution_of token input arguments =
     \<lparr>te_token = token, te_call_id = ti_call_id input,
      te_root_call_id = (case ti_root_call_id input of Some r \<Rightarrow> r | None \<Rightarrow> ti_call_id input),
      te_name = ti_name input, te_arguments = arguments, te_agent = ti_agent input, te_parent = ti_parent input\<rparr>"

definition collapse_route :: "string \<Rightarrow> string" where
  "collapse_route name =
     ''only `'' @ RUN_CODE_NAME @ ''` is callable directly: call `'' @ name @ ''` from inside a `'' @ RUN_CODE_NAME
       @ ''` program instead''"

definition create_execution ::
    "exec_host \<Rightarrow> nat \<Rightarrow> tool_input \<Rightarrow> exec_state
       \<Rightarrow> ((tool_result, unit) result \<times> tool_execution \<times> content_finalizer) \<times> exec_state" where
  "create_execution host token input st =
     (let g = registry_now host st;
          visible = lookup_tool g (ti_name input) (ti_agent input);
          collapsed = (visible \<noteq> None \<and> collapses g (ti_name input) (ti_agent input) (ti_parent input \<noteq> None));
          st1 = wait_for (xh_arguments_time host) st;
          finalizer = (if collapsed \<and> \<not> caller_cancelled host st1 then None
                       else Option.bind visible td_finalize)
      in ((case xh_arguments host of
             Inl f \<Rightarrow> (Inl (tool_error_result f), execution_of token input None, finalizer)
           | Inr None \<Rightarrow>
               (Inl (tool_error_result (error_of ''tool execution arguments must be losslessly JSON-serializable'')),
                execution_of token input None, finalizer)
           | Inr (Some j) \<Rightarrow>
               (if \<not> collapsed then Inr ()
                else if caller_cancelled host st1 then Inl (tool_aborted_before_dispatch_result None)
                else Inl (tool_error_result (tool_not_found (ti_name input) (Some (collapse_route (ti_name input))))),
                execution_of token input (Some j), finalizer)), st1))"

definition approval_decision :: "string \<Rightarrow> approval_outcome \<Rightarrow> string option \<times> bool" where
  "approval_decision name out =
     (case out of
        AllowedOnce \<Rightarrow> (None, False)
      | ApprovalRejected \<Rightarrow> (Some (''the user rejected tool '' @ quoted name), False)
      | ApprovalCancelled \<Rightarrow> (Some (''approval for tool '' @ quoted name @ '' was cancelled''), True)
      | ApprovalUnavailable \<Rightarrow>
          (Some (''tool '' @ quoted name @ '' requires approval, but no approval channel is available''), False))"

text \<open>\<open>serviceAsk\<close>: the denial reason, if any, and whether approval was cancelled.\<close>

definition service_ask ::
    "exec_host \<Rightarrow> tool_execution \<Rightarrow> string option \<Rightarrow> exec_state \<Rightarrow> (tool_failure, string option \<times> bool) result \<times> exec_state" where
  "service_ask host exec reason st =
     (case xh_approval host of
        None \<Rightarrow>
          (Inr (Some (case reason of Some r \<Rightarrow> r | None \<Rightarrow> ''tool '' @ quoted (te_name exec) @ '' requires approval (not yet supported)''), False), st)
      | Some outcome \<Rightarrow>
          if te_agent exec = None
          then (Inr (Some (''tool '' @ quoted (te_name exec) @ '' requires approval, but the call has no agent to route it through''), False), st)
          else (rmap (approval_decision (te_name exec)) outcome,
                wait_for (xh_approval_time host) (trace_event AskApproval st)))"

definition decide_gate ::
    "exec_host \<Rightarrow> tool_execution \<Rightarrow> pre_decision \<Rightarrow> exec_state \<Rightarrow> (tool_failure, string option \<times> bool) result \<times> exec_state" where
  "decide_gate host exec gate st =
     (case gate of
        AllowCall \<Rightarrow> (Inr (None, False), st)
      | DenyCall reason \<Rightarrow> (Inr (Some reason, False), st)
      | AskCall reason \<Rightarrow> service_ask host exec reason st)"

text \<open>After the gate: a cancelled approval of a cancelled call, the denial or the first guard's, or the
  dispatch unless the call is cancelled.\<close>

definition denied_result :: "string \<Rightarrow> tool_result" where
  "denied_result reason = tool_error_result (error_of reason)"

definition judge_call ::
    "exec_host \<Rightarrow> tool_execution \<Rightarrow> string option \<times> bool \<Rightarrow> exec_state \<Rightarrow> (tool_failure, staged_result option) result" where
  "judge_call host exec decision st =
     (if caller_cancelled host st \<and> snd decision then Inr (Some (NeedsPost (tool_aborted_before_dispatch_result None)))
      else rbind (case fst decision of Some reason \<Rightarrow> Inr (Some reason) | None \<Rightarrow> guard_reason (registry_now host st) exec)
        (\<lambda>denial. case denial of
            Some reason \<Rightarrow> rmap (\<lambda>r. Some (NeedsPost r)) (materialize_final_result (denied_result reason))
          | None \<Rightarrow>
              Inr (if caller_cancelled host st then Some (NeedsPost (tool_aborted_before_dispatch_result None)) else None)))"

text \<open>\<open>prepareExecution\<close>: a staged result, or nothing when the call is to be dispatched.\<close>

definition prepare_execution ::
    "exec_host \<Rightarrow> tool_execution \<Rightarrow> exec_state \<Rightarrow> staged_result option \<times> exec_state" where
  "prepare_execution host exec st =
     (if caller_cancelled host st then (Some (NeedsFinish (tool_aborted_before_dispatch_result None)), st)
      else (let st1 = wait_for (xh_gate_time host) (trace_event PreExecute st) in
        (case xh_gate host of
           Inl f \<Rightarrow> (Some (NeedsFinish (tool_error_result f)), st1)
         | Inr gate \<Rightarrow>
             (case decide_gate host exec gate st1 of
                (Inl f, st2) \<Rightarrow> (Some (NeedsFinish (tool_error_result f)), st2)
              | (Inr decision, st2) \<Rightarrow>
                  (case judge_call host exec decision st2 of
                     Inl f \<Rightarrow> (Some (NeedsFinish (tool_error_result f)), st2)
                   | Inr staged \<Rightarrow> (staged, st2))))))"

definition execute_tool :: "exec_host \<Rightarrow> nat \<Rightarrow> tool_input \<Rightarrow> tool_result \<times> exec_state" where
  "execute_tool host token input =
     (case create_execution host token input new_exec_state of
        ((Inl r, exec, finalizer), st) \<Rightarrow> finish_execution exec finalizer r st
      | ((Inr _, exec, finalizer), st) \<Rightarrow>
          (case prepare_execution host exec st of
             (Some staged, st1) \<Rightarrow> complete_staged host exec finalizer staged st1
           | (None, st1) \<Rightarrow>
               (case dispatch_execution host exec st1 of
                  (staged, st2) \<Rightarrow> complete_staged host exec finalizer staged st2)))"

end
