(* ===== verification/Tool_Pipeline.thy ===== *)
theory Tool_Pipeline
  imports Tool_Execution
begin

text \<open>
  Facts about the execution pipeline: the stages come in the order the package's invariant
  companion (\<open>packages/core/tools/src/invariant.ts\<close>) demands, a body runs only for a call that policy,
  guards and the registry admit and the caller has not cancelled, a cancelled call never succeeds,
  and a successful value conforms to the output schema of its tool.
\<close>

section \<open>The stage companion\<close>

datatype tool_stage = StagePre | StageExecute | StagePost

text \<open>The companion's check of one dispatch of an execution, and its record of the stage. Freezing is
  immutability here.\<close>

definition stage_step :: "tool_execution \<Rightarrow> tool_stage option \<Rightarrow> pipeline_event \<Rightarrow> (string, tool_stage option) result" where
  "stage_step exec stage ev =
     (case ev of
        PreExecute \<Rightarrow> if stage \<noteq> None then Inl ''tools/pre-execute repeated for one execution'' else Inr (Some StagePre)
      | Execute \<Rightarrow>
          if stage \<noteq> Some StagePre then Inl ''tools/execute must follow tools/pre-execute'' else Inr (Some StageExecute)
      | PostExecute \<Rightarrow>
          if stage \<noteq> Some StagePre \<and> stage \<noteq> Some StageExecute
          then Inl ''tools/post-execute must follow tools/pre-execute or tools/execute'' else Inr (Some StagePost)
      | ResultNotified _ \<Rightarrow>
          if te_name exec = '''' \<or> te_call_id exec = ''''
          then Inl ''tools/result execution must carry non-empty name and callId'' else Inr None
      | _ \<Rightarrow> Inr stage)"

section \<open>Traces\<close>

lemma wait_for_simps [simp]:
  "xs_trace (wait_for d st) = xs_trace st" "xs_now (wait_for d st) = xs_now st + d"
  "xs_body_invoked (wait_for d st) = xs_body_invoked st" "xs_deferred (wait_for d st) = xs_deferred st"
  "xs_concluding (wait_for d st) = xs_concluding st"
  by (simp_all add: wait_for_def)

lemma trace_event_simps [simp]:
  "xs_trace (trace_event ev st) = xs_trace st @ [ev]" "xs_now (trace_event ev st) = xs_now st"
  "xs_body_invoked (trace_event ev st) = xs_body_invoked st" "xs_deferred (trace_event ev st) = xs_deferred st"
  "xs_concluding (trace_event ev st) = xs_concluding st"
  by (simp_all add: trace_event_def)

text \<open>What an observer sees of the attempts: bodies of resolved tools, invoked while neither the
  caller nor the clock forbids it.\<close>

definition body_allowed :: "exec_host \<Rightarrow> tool_execution \<Rightarrow> nat \<Rightarrow> pipeline_event \<Rightarrow> bool" where
  "body_allowed host exec since ev \<longleftrightarrow>
     (\<exists>d t. ev = BodyInvoked d t \<and> since \<le> t
        \<and> resolve_execution (xh_registry host t) (te_name exec) (te_agent exec) (is_nested exec) = Some d
        \<and> (\<forall>a. xh_abort_at host = Some a \<longrightarrow> t < a))"

lemma not_cancelled: "\<not> caller_cancelled host st \<longleftrightarrow> (\<forall>a. xh_abort_at host = Some a \<longrightarrow> xs_now st < a)"
  by (auto simp: caller_cancelled_def split: option.split)

lemma caller_cancelled_mono: "caller_cancelled host st \<Longrightarrow> xs_now st \<le> xs_now st' \<Longrightarrow> caller_cancelled host st'"
  by (auto simp: caller_cancelled_def split: option.splits)

lemma attempt_trace:
  assumes "dispatch_tool_body host exec a st = (r, st')"
  shows "xs_now st \<le> xs_now st' \<and> (\<exists>bodies. xs_trace st' = xs_trace st @ bodies \<and> (\<forall>ev\<in>set bodies. body_allowed host exec (xs_now st) ev))"
proof -
  let ?st1 = "enter_attempt a st"
  have st1: "xs_now ?st1 = xs_now st + at_wait a" "xs_trace ?st1 = xs_trace st"
    by (simp_all add: enter_attempt_def)
  show ?thesis
  proof (cases "caller_cancelled host ?st1 \<or> at_signal_aborted a \<or> resolve_now host exec ?st1 = None")
    case True
    then have "st' = ?st1" using assms by (auto simp: dispatch_tool_body_def Let_def split: if_splits option.splits)
    then show ?thesis using st1 by auto
  next
    case False
    then obtain d where d: "resolve_now host exec ?st1 = Some d" "\<not> caller_cancelled host ?st1" by auto
    then have st': "st' = invoke_body d a ?st1"
      using assms False by (auto simp: dispatch_tool_body_def Let_def split: if_splits option.splits sum.splits)
    have "xs_trace st' = xs_trace st @ [BodyInvoked d (xs_now ?st1)]" "xs_now st' = xs_now ?st1 + at_run a"
      using st1 by (simp_all add: st' invoke_body_def Let_def)
    moreover have "body_allowed host exec (xs_now st) (BodyInvoked d (xs_now ?st1))"
      using d st1 by (auto simp: body_allowed_def resolve_now_def registry_now_def not_cancelled)
    ultimately show ?thesis using st1 by auto
  qed
qed

lemma body_allowed_later: "body_allowed host exec t ev \<Longrightarrow> s \<le> t \<Longrightarrow> body_allowed host exec s ev"
  by (auto simp: body_allowed_def)

lemma attempts_trace:
  assumes "run_attempts host exec as st = (rs, st')"
  shows "xs_now st \<le> xs_now st' \<and> (\<exists>bodies. xs_trace st' = xs_trace st @ bodies \<and> (\<forall>ev\<in>set bodies. body_allowed host exec (xs_now st) ev))"
  using assms
proof (induction as arbitrary: st rs)
  case (Cons a as)
  obtain r st1 where one: "dispatch_tool_body host exec a st = (r, st1)" by (cases "dispatch_tool_body host exec a st")
  obtain rs' where rest: "run_attempts host exec as st1 = (rs', st')"
    using Cons.prems one by (auto split: prod.splits)
  from attempt_trace [OF one] obtain b1 where b1: "xs_now st \<le> xs_now st1" "xs_trace st1 = xs_trace st @ b1"
    "\<forall>ev\<in>set b1. body_allowed host exec (xs_now st) ev" by auto
  from Cons.IH [OF rest] obtain b2 where b2: "xs_now st1 \<le> xs_now st'" "xs_trace st' = xs_trace st1 @ b2"
    "\<forall>ev\<in>set b2. body_allowed host exec (xs_now st1) ev" by auto
  have "\<forall>ev\<in>set (b1 @ b2). body_allowed host exec (xs_now st) ev"
    using b1 b2 body_allowed_later by auto
  then show ?case using b1 b2 by (intro conjI exI [of _ "b1 @ b2"]) auto
qed auto

section \<open>Canonical results\<close>

text \<open>A success carries a value its tool declares.\<close>

definition declared_by :: "exec_host \<Rightarrow> tool_execution \<Rightarrow> json \<Rightarrow> bool" where
  "declared_by host exec v \<longleftrightarrow>
     (\<exists>t d out. resolve_execution (xh_registry host t) (te_name exec) (te_agent exec) (is_nested exec) = Some d
        \<and> td_output d = Some out \<and> json_wf v \<and> conforms (node_of_json (od_schema out)) v)"

definition canonical :: "exec_host \<Rightarrow> tool_execution \<Rightarrow> tool_result \<Rightarrow> bool" where
  "canonical host exec r \<longleftrightarrow> (\<forall>v. tx_outcome r = Inr v \<longrightarrow> declared_by host exec v)"

lemma canonical_failure [simp]:
  "tx_outcome r = Inl f \<Longrightarrow> canonical host exec r"
  by (simp add: canonical_def)

lemma failed_outcomes [simp]:
  "tx_outcome (tool_error_result f) = Inl f"
  "tx_outcome (blocked_result c cs) = Inl (error_of (failure_message_from_content c))"
  by (simp_all add: tool_error_result_def blocked_result_def)

lemma aborted_failed [simp]:
  "result_failed (tool_aborted_result p)" "result_failed (tool_aborted_before_dispatch_result p)"
  "result_failed (tool_error_result f)" "result_failed (blocked_result c cs)"
  by (simp_all add: result_failed_def tool_aborted_result_def tool_aborted_before_dispatch_result_def)

lemma canonical_failed: "result_failed r \<Longrightarrow> canonical host exec r"
  by (auto simp: canonical_def result_failed_def)

lemma canonical_aborted [simp]:
  "canonical host exec (tool_aborted_result p)" "canonical host exec (tool_aborted_before_dispatch_result p)"
  "canonical host exec (tool_error_result f)"
  by (rule canonical_failed, simp)+

lemma canonical_fields [simp]:
  "canonical host exec (r\<lparr>tx_contexts := c\<rparr>) = canonical host exec r"
  "canonical host exec (r\<lparr>tx_content := b\<rparr>) = canonical host exec r"
  "canonical host exec (r\<lparr>tx_concludes := e\<rparr>) = canonical host exec r"
  "result_failed (r\<lparr>tx_contexts := c\<rparr>) = result_failed r"
  "result_failed (r\<lparr>tx_content := b\<rparr>) = result_failed r"
  "result_failed (r\<lparr>tx_concludes := e\<rparr>) = result_failed r"
  by (simp_all add: canonical_def result_failed_def)

lemma materialize_outcome: "materialize_final_result r = Inr r' \<Longrightarrow> tx_outcome r' = tx_outcome r"
  by (auto simp: materialize_final_result_def split: if_splits)

lemma create_success_canonical:
  assumes "create_success_result host exec d candidate st = Inr r"
    and "resolve_execution (xh_registry host t) (te_name exec) (te_agent exec) (is_nested exec) = Some d"
  shows "canonical host exec r"
proof -
  obtain out v content meta where out: "td_output d = Some out" and v: "snapshot_tool_value (td_name d) candidate = Inr v"
    and valid: "validate_json_schema_value (node_of_json (od_schema out)) v ''value'' = []"
    and r: "materialize_final_result (success_result v content meta (xs_concluding st)) = Inr r"
    using assms(1) by (auto simp: create_success_result_def rbind_eq_Inr Let_def split: option.splits if_splits)
  have "tx_outcome r = Inr v" using materialize_outcome [OF r] by (simp add: success_result_def)
  moreover have "json_wf v" using v by (auto simp: snapshot_tool_value_def split: sum.splits option.splits if_splits)
  ultimately show ?thesis using out valid assms(2) by (auto simp: canonical_def declared_by_def validation_decides)
qed

lemma normalize_success_canonical: "normalize_success host exec candidate contexts st = Inr r \<Longrightarrow> canonical host exec r"
  by (auto simp: normalize_success_def rmap_eq_Inr resolve_now_def registry_now_def
      intro: create_success_canonical split: option.splits)

lemma attempt_canonical:
  assumes "dispatch_tool_body host exec a st = ((r, mark), st')"
  shows "canonical host exec r"
proof -
  have "canonical host exec r" if "create_success_result host exec d candidate st2 = Inr r"
    "resolve_now host exec st1 = Some d" for d candidate st1 st2 r
    using that create_success_canonical by (auto simp: resolve_now_def registry_now_def)
  then show ?thesis using assms
    by (auto simp: dispatch_tool_body_def Let_def rbind_eq_Inr split: if_splits option.splits sum.splits)
qed

lemma attempts_canonical:
  "run_attempts host exec as st = (rs, st') \<Longrightarrow> \<forall>x\<in>set rs. canonical host exec (fst x)"
proof (induction as arbitrary: st rs)
  case (Cons a as)
  obtain r mark st1 where one: "dispatch_tool_body host exec a st = ((r, mark), st1)"
    by (cases "dispatch_tool_body host exec a st") auto
  obtain rs' where rest: "run_attempts host exec as st1 = (rs', st')" and "rs = (r, mark) # rs'"
    using Cons.prems one by (auto split: prod.splits)
  then show ?case using attempt_canonical [OF one] Cons.IH [OF rest] by simp
qed simp

lemma normalized_canonical:
  assumes "normalize_dispatch_result host exec attempts answer st = Inr r" "\<forall>x\<in>set attempts. canonical host exec (fst x)"
  shows "canonical host exec r"
proof (cases answer)
  case (ReturnsAttempt i)
  then have i: "i < length attempts" and r: "r = (if snd (attempts ! i) then fst (attempts ! i) else (fst (attempts ! i))\<lparr>tx_concludes := False\<rparr>)"
    using assms(1) by (auto simp: normalize_dispatch_result_def case_prod_beta split: option.splits)
  have "canonical host exec (fst (attempts ! i))" using assms(2) nth_mem [OF i] by blast
  then show ?thesis by (simp add: r)
qed (use assms(1) in \<open>auto simp: normalize_dispatch_result_def intro: normalize_success_canonical split: sum.splits\<close>)

lemma unless_cancelled_canonical: "canonical host exec r \<Longrightarrow> canonical host exec (unless_cancelled host' st r)"
  by (simp add: unless_cancelled_def cancellation_result_def)

lemma post_canonical:
  "apply_post_decision host exec r decision st = Inr r' \<Longrightarrow> canonical host exec r \<Longrightarrow> canonical host exec r'"
  by (auto simp: apply_post_decision_def with_contexts_def rmap_eq_Inr
      intro: normalize_success_canonical split: post_decision.splits option.splits if_splits)

lemma final_outcome:
  assumes "finish_execution exec finalizer r st = (final, st')"
  shows "tx_outcome final = tx_outcome r \<or> result_failed final"
proof -
  define m where "m = materialized_or_error (materialize_final_result r)"
  define q where "q = rbind (apply_final_content exec finalizer m) materialize_final_result"
  have m: "tx_outcome m = tx_outcome r \<or> result_failed m"
    unfolding m_def by (cases "materialize_final_result r") (auto simp: materialized_or_error_def dest: materialize_outcome)
  have final: "final = materialized_or_error q"
    using assms by (simp add: finish_execution_def Let_def m_def q_def)
  have q: "tx_outcome r' = tx_outcome m" if run: "q = Inr r'" for r'
  proof -
    obtain r1 where "apply_final_content exec finalizer m = Inr r1" "materialize_final_result r1 = Inr r'"
      using run by (auto simp: q_def rbind_eq_Inr)
    then show ?thesis
      by (auto simp: apply_final_content_def rmap_eq_Inr dest!: materialize_outcome split: option.splits)
  qed
  show ?thesis
  proof (cases q)
    case (Inr r')
    then have "final = r'" using final by (simp add: materialized_or_error_def)
    then have "tx_outcome final = tx_outcome m" using q [OF Inr] by simp
    with m show ?thesis by (auto simp: result_failed_def)
  qed (simp add: final materialized_or_error_def)
qed

lemma finish_trace:
  "finish_execution exec finalizer r st = (final, st') \<Longrightarrow> xs_trace st' = xs_trace st @ [ResultNotified final] \<and> xs_now st' = xs_now st"
  by (auto simp: finish_execution_def Let_def)

section \<open>The stages\<close>

lemma finalize_final:
  assumes "finalize_execution host exec finalizer r st = (final, st')" "canonical host exec r"
  shows "canonical host exec final" "\<not> result_failed final \<Longrightarrow> \<not> caller_cancelled host st'"
    "xs_trace st' = xs_trace st @ [PostExecute, ResultNotified final]" "xs_now st \<le> xs_now st'"
proof -
  obtain m st1 where post: "post_execute host exec r st = (m, st1)" by (cases "post_execute host exec r st")
  define q where "q = (case m of Inl f \<Rightarrow> tool_error_result f | Inr r' \<Rightarrow> unless_cancelled host st1 r')"
  have fin: "finish_execution exec finalizer q st1 = (final, st')"
    using assms(1) post by (simp add: finalize_execution_def q_def split: sum.splits)
  have st1: "xs_trace st1 = xs_trace st @ [PostExecute]" "xs_now st \<le> xs_now st1"
    using post by (auto simp: post_execute_def Let_def)
  have "canonical host exec r'" if "m = Inr r'" for r'
    using post that post_canonical [OF _ assms(2)] by (auto simp: post_execute_def Let_def rbind_eq_Inr)
  then have "canonical host exec q"
    unfolding q_def by (cases m) (simp_all add: unless_cancelled_canonical)
  then show "canonical host exec final"
    using final_outcome [OF fin] by (auto simp: canonical_def result_failed_def)
  have q: "result_failed q \<or> \<not> caller_cancelled host st1"
    unfolding q_def by (cases m) (auto simp: unless_cancelled_def cancellation_result_def)
  have "caller_cancelled host st' \<longleftrightarrow> caller_cancelled host st1"
    using finish_trace [OF fin] by (simp add: caller_cancelled_def split: option.split)
  then show "\<not> result_failed final \<Longrightarrow> \<not> caller_cancelled host st'"
    using q final_outcome [OF fin] by (auto simp: result_failed_def)
  show "xs_trace st' = xs_trace st @ [PostExecute, ResultNotified final]" "xs_now st \<le> xs_now st'"
    using finish_trace [OF fin] st1 by auto
qed

definition staged_ok :: "exec_host \<Rightarrow> tool_execution \<Rightarrow> staged_result \<Rightarrow> bool" where
  "staged_ok host exec staged \<longleftrightarrow>
     (case staged of NeedsPost r \<Rightarrow> canonical host exec r | NeedsFinish r \<Rightarrow> result_failed r)"

text \<open>The last stages of a trace.\<close>

definition closing :: "staged_result \<Rightarrow> tool_result \<Rightarrow> pipeline_event list" where
  "closing staged final =
     (case staged of NeedsPost _ \<Rightarrow> [PostExecute, ResultNotified final] | NeedsFinish _ \<Rightarrow> [ResultNotified final])"

lemma complete_final:
  assumes "complete_staged host exec finalizer staged st = (final, st')" "staged_ok host exec staged"
  shows "canonical host exec final" "\<not> result_failed final \<Longrightarrow> \<not> caller_cancelled host st'"
    "xs_trace st' = xs_trace st @ closing staged final" "xs_now st \<le> xs_now st'"
proof -
  have "canonical host exec final \<and> (\<not> result_failed final \<longrightarrow> \<not> caller_cancelled host st')
    \<and> xs_trace st' = xs_trace st @ closing staged final \<and> xs_now st \<le> xs_now st'"
  proof (cases staged)
    case (NeedsPost r)
    then have "finalize_execution host exec finalizer r st = (final, st')" "canonical host exec r"
      using assms by (simp_all add: complete_staged_def staged_ok_def)
    from finalize_final [OF this] show ?thesis by (simp add: NeedsPost closing_def)
  next
    case (NeedsFinish r)
    then have fin: "finish_execution exec finalizer r st = (final, st')" and "result_failed r"
      using assms by (simp_all add: complete_staged_def staged_ok_def)
    then have "result_failed final" using final_outcome [OF fin] by (auto simp: result_failed_def)
    then show ?thesis using finish_trace [OF fin] by (simp add: NeedsFinish closing_def canonical_failed)
  qed
  then show "canonical host exec final" "\<not> result_failed final \<Longrightarrow> \<not> caller_cancelled host st'"
    "xs_trace st' = xs_trace st @ closing staged final" "xs_now st \<le> xs_now st'" by blast+
qed

lemma dispatch_staged:
  assumes "dispatch_execution host exec st = (staged, st')"
  shows "staged_ok host exec staged" "xs_now st \<le> xs_now st'"
    "\<exists>bodies. xs_trace st' = xs_trace st @ Execute # bodies \<and> (\<forall>ev\<in>set bodies. body_allowed host exec (xs_now st) ev)"
proof -
  obtain rs st1 where run: "run_attempts host exec (xh_attempts host) (trace_event Execute st) = (rs, st1)"
    by (cases "run_attempts host exec (xh_attempts host) (trace_event Execute st)")
  let ?st2 = "wait_for (xh_around_time host) st1"
  let ?m = "rbind (xh_around host) (\<lambda>answer. normalize_dispatch_result host exec rs answer ?st2)"
  have eq: "(staged, st') = (case ?m of Inl f \<Rightarrow> (NeedsFinish (tool_error_result f), ?st2)
      | Inr r \<Rightarrow> (NeedsPost (unless_cancelled host ?st2 (with_deferred ?st2 r)), ?st2))"
    using assms run by (simp add: dispatch_execution_def Let_def)
  have st': "st' = ?st2" using eq by (auto split: sum.splits)
  have "canonical host exec r" if "?m = Inr r" for r
    using that attempts_canonical [OF run] normalized_canonical by (auto simp: rbind_eq_Inr)
  then show "staged_ok host exec staged"
    using eq by (auto simp: staged_ok_def with_deferred_def intro!: unless_cancelled_canonical split: sum.splits)
  show "xs_now st \<le> xs_now st'"
    "\<exists>bodies. xs_trace st' = xs_trace st @ Execute # bodies \<and> (\<forall>ev\<in>set bodies. body_allowed host exec (xs_now st) ev)"
    using attempts_trace [OF run] by (auto simp: st')
qed

text \<open>What preparation saw when it let a call pass.\<close>

definition gate_passed :: "exec_host \<Rightarrow> tool_execution \<Rightarrow> nat \<Rightarrow> bool" where
  "gate_passed host exec t \<longleftrightarrow>
     (xh_gate host = Inr AllowCall
        \<or> (\<exists>reason. xh_gate host = Inr (AskCall reason)) \<and> xh_approval host = Some (Inr AllowedOnce) \<and> te_agent exec \<noteq> None)
     \<and> guard_reason (xh_registry host t) exec = Inr None"

lemma denied_failed [simp]: "result_failed (denied_result reason)"
  by (simp add: denied_result_def)

lemma materialize_failed: "materialize_final_result r = Inr r' \<Longrightarrow> result_failed r \<Longrightarrow> result_failed r'"
  by (auto simp: result_failed_def dest: materialize_outcome)

lemma judged:
  assumes "judge_call host exec decision st = Inr staged"
  shows "(case staged of Some s \<Rightarrow> \<exists>r. s = NeedsPost r \<and> result_failed r
    | None \<Rightarrow> fst decision = None \<and> guard_reason (registry_now host st) exec = Inr None)"
  using assms materialize_failed [OF _ denied_failed]
  by (fastforce simp: judge_call_def rbind_eq_Inr rmap_eq_Inr split: if_splits option.splits)

lemma approval_grants: "approval_decision name out = (None, c) \<Longrightarrow> out = AllowedOnce"
  by (cases out) (simp_all add: approval_decision_def)

lemma decided_gate:
  assumes "decide_gate host exec gate st = (m, st')"
  shows "xs_now st \<le> xs_now st'" "xs_trace st' = xs_trace st \<or> xs_trace st' = xs_trace st @ [AskApproval]"
    "m = Inr (None, c) \<Longrightarrow> gate = AllowCall
       \<or> (\<exists>reason. gate = AskCall reason) \<and> xh_approval host = Some (Inr AllowedOnce) \<and> te_agent exec \<noteq> None"
proof -
  have ask: "xs_now st \<le> xs_now st' \<and> (xs_trace st' = xs_trace st \<or> xs_trace st' = xs_trace st @ [AskApproval])
    \<and> (m = Inr (None, c) \<longrightarrow> xh_approval host = Some (Inr AllowedOnce) \<and> te_agent exec \<noteq> None)"
    if "service_ask host exec reason st = (m, st')" for reason c
    using that by (auto simp: service_ask_def rmap_eq_Inr dest: approval_grants [OF sym] split: option.splits if_splits)
  show "xs_now st \<le> xs_now st'" "xs_trace st' = xs_trace st \<or> xs_trace st' = xs_trace st @ [AskApproval]"
    using assms ask by (cases gate; auto simp: decide_gate_def)+
  show "m = Inr (None, c) \<Longrightarrow> gate = AllowCall
       \<or> (\<exists>reason. gate = AskCall reason) \<and> xh_approval host = Some (Inr AllowedOnce) \<and> te_agent exec \<noteq> None"
    using assms ask by (cases gate) (auto simp: decide_gate_def)
qed

lemma prepared_call:
  assumes "prepare_execution host exec st = (staged, st')"
  shows "xs_now st \<le> xs_now st'"
    "case staged of
       Some s \<Rightarrow> staged_ok host exec s
         \<and> (xs_trace st' = xs_trace st \<and> (\<exists>r. s = NeedsFinish r)
            \<or> xs_trace st' = xs_trace st @ [PreExecute] \<or> xs_trace st' = xs_trace st @ [PreExecute, AskApproval])
     | None \<Rightarrow> gate_passed host exec (xs_now st')
         \<and> (xs_trace st' = xs_trace st @ [PreExecute] \<or> xs_trace st' = xs_trace st @ [PreExecute, AskApproval])"
proof -
  let ?st1 = "wait_for (xh_gate_time host) (trace_event PreExecute st)"
  have "xs_now st \<le> xs_now st' \<and> (case staged of
       Some s \<Rightarrow> staged_ok host exec s
         \<and> (xs_trace st' = xs_trace st \<and> (\<exists>r. s = NeedsFinish r)
            \<or> xs_trace st' = xs_trace st @ [PreExecute] \<or> xs_trace st' = xs_trace st @ [PreExecute, AskApproval])
     | None \<Rightarrow> gate_passed host exec (xs_now st')
         \<and> (xs_trace st' = xs_trace st @ [PreExecute] \<or> xs_trace st' = xs_trace st @ [PreExecute, AskApproval]))"
  proof (cases "caller_cancelled host st")
    case True
    then show ?thesis using assms by (auto simp: prepare_execution_def staged_ok_def)
  next
    case open_call: False
    show ?thesis
    proof (cases "xh_gate host")
      case (Inl f)
      then show ?thesis using assms open_call by (auto simp: prepare_execution_def staged_ok_def Let_def)
    next
      case (Inr gate)
      obtain m st2 where gate: "decide_gate host exec gate ?st1 = (m, st2)" by (cases "decide_gate host exec gate ?st1")
      note decided = decided_gate [OF gate]
      show ?thesis
      proof (cases m)
        case (Inl f)
        then show ?thesis using assms open_call Inr gate decided
          by (auto simp: prepare_execution_def staged_ok_def Let_def)
      next
        case decision: (Inr decision)
        have st': "st' = st2" using assms open_call Inr gate decision
          by (auto simp: prepare_execution_def Let_def split: sum.splits)
        show ?thesis
        proof (cases "judge_call host exec decision st2")
          case (Inl f)
          then show ?thesis using assms open_call Inr gate decision decided
            by (auto simp: prepare_execution_def staged_ok_def Let_def \<open>xh_gate host = Inr gate\<close>)
        next
          case judged_call: (Inr s)
          then have "staged = s" using assms open_call Inr gate decision
            by (auto simp: prepare_execution_def Let_def)
          then show ?thesis
            using judged [OF judged_call] decided Inr decision
            by (cases s; cases decision)
              (auto simp: st' staged_ok_def canonical_failed gate_passed_def registry_now_def)
        qed
      qed
    qed
  qed
  then show "xs_now st \<le> xs_now st'"
    "case staged of
       Some s \<Rightarrow> staged_ok host exec s
         \<and> (xs_trace st' = xs_trace st \<and> (\<exists>r. s = NeedsFinish r)
            \<or> xs_trace st' = xs_trace st @ [PreExecute] \<or> xs_trace st' = xs_trace st @ [PreExecute, AskApproval])
     | None \<Rightarrow> gate_passed host exec (xs_now st')
         \<and> (xs_trace st' = xs_trace st @ [PreExecute] \<or> xs_trace st' = xs_trace st @ [PreExecute, AskApproval])"
    by auto
qed

section \<open>One execution\<close>

lemma created_call:
  assumes "create_execution host token input new_exec_state = ((m, exec, finalizer), st)"
  shows "xs_trace st = []" "m = Inl r \<Longrightarrow> result_failed r" "\<exists>arguments. exec = execution_of token input arguments"
  using assms
  by (auto simp: create_execution_def Let_def new_exec_state_def split: sum.splits option.splits if_splits)

text \<open>The trace of an execution: what preparation did, the dispatch with its bodies when the call passed,
  and the end.\<close>

definition execution_trace :: "exec_host \<Rightarrow> tool_execution \<Rightarrow> tool_result \<Rightarrow> pipeline_event list \<Rightarrow> bool" where
  "execution_trace host exec final es \<longleftrightarrow>
     es = [ResultNotified final]
     \<or> (\<exists>prepared staged. prepared \<in> {[PreExecute], [PreExecute, AskApproval]} \<and> es = prepared @ closing staged final)
     \<or> (\<exists>prepared bodies staged t. prepared \<in> {[PreExecute], [PreExecute, AskApproval]} \<and> gate_passed host exec t
          \<and> (\<forall>ev\<in>set bodies. body_allowed host exec t ev) \<and> es = prepared @ Execute # bodies @ closing staged final)"

lemma executed:
  assumes "execute_tool host token input = (final, st')"
  shows "\<exists>arguments. canonical host (execution_of token input arguments) final
    \<and> (\<not> result_failed final \<longrightarrow> \<not> caller_cancelled host st')
    \<and> execution_trace host (execution_of token input arguments) final (xs_trace st')"
proof -
  obtain m exec finalizer st where made: "create_execution host token input new_exec_state = ((m, exec, finalizer), st)"
    by (cases "create_execution host token input new_exec_state") auto
  note created = created_call [OF made]
  have "canonical host exec final \<and> (\<not> result_failed final \<longrightarrow> \<not> caller_cancelled host st')
    \<and> execution_trace host exec final (xs_trace st')"
  proof (cases m)
    case (Inl r)
    then have fin: "finish_execution exec finalizer r st = (final, st')"
      using assms made by (simp add: execute_tool_def)
    have "result_failed final" using final_outcome [OF fin] created(2) [OF Inl] by (auto simp: result_failed_def)
    then show ?thesis using finish_trace [OF fin] created(1) by (simp add: canonical_failed execution_trace_def)
  next
    case (Inr u)
    obtain staged st1 where prep: "prepare_execution host exec st = (staged, st1)" by (cases "prepare_execution host exec st")
    note prepared = prepared_call [OF prep]
    show ?thesis
    proof (cases staged)
      case (Some s)
      then have fin: "complete_staged host exec finalizer s st1 = (final, st')"
        using assms made Inr prep by (simp add: execute_tool_def)
      have ok: "staged_ok host exec s" using prepared(2) Some by simp
      have "execution_trace host exec final (xs_trace st')"
        using prepared(2) Some created(1) complete_final(3) [OF fin ok]
        by (auto simp: execution_trace_def closing_def split: staged_result.splits)
      then show ?thesis using complete_final(1,2) [OF fin ok] by blast
    next
      case None
      obtain s st2 where disp: "dispatch_execution host exec st1 = (s, st2)" by (cases "dispatch_execution host exec st1")
      then have fin: "complete_staged host exec finalizer s st2 = (final, st')"
        using assms made Inr prep None by (simp add: execute_tool_def)
      note dispatched = dispatch_staged [OF disp]
      obtain bodies where bodies: "xs_trace st2 = xs_trace st1 @ Execute # bodies"
        "\<forall>ev\<in>set bodies. body_allowed host exec (xs_now st1) ev" using dispatched(3) by blast
      have gate: "gate_passed host exec (xs_now st1)"
        and pre: "xs_trace st1 \<in> {[PreExecute], [PreExecute, AskApproval]}"
        using prepared(2) None created(1) by auto
      have "xs_trace st' = xs_trace st1 @ Execute # bodies @ closing s final"
        using complete_final(3) [OF fin dispatched(1)] bodies(1) by simp
      then have "execution_trace host exec final (xs_trace st')"
        using gate pre bodies(2) unfolding execution_trace_def by blast
      then show ?thesis using complete_final(1,2) [OF fin dispatched(1)] by blast
    qed
  qed
  then show ?thesis using created(3) by blast
qed

lemma stages_of_bodies:
  "\<forall>ev\<in>set bodies. body_allowed host exec t ev \<Longrightarrow> fold_log (stage_step e) stage bodies = Inr stage"
  by (induction bodies) (auto simp: body_allowed_def stage_step_def)

lemma trace_stages:
  assumes "execution_trace host exec final es" "te_name exec \<noteq> []" "te_call_id exec \<noteq> []"
  shows "fold_log (stage_step exec) None es = Inr None"
proof -
  have close: "fold_log (stage_step exec) (Some StagePre) (closing staged final) = Inr None"
    "fold_log (stage_step exec) (Some StageExecute) (closing staged final) = Inr None" for staged
    using assms(2,3) by (cases staged; simp add: closing_def stage_step_def)+
  show ?thesis
    using assms stages_of_bodies close unfolding execution_trace_def
    by (elim disjE exE conjE insertE) (auto simp: fold_log_append stage_step_def)
qed

lemma trace_notified:
  assumes "execution_trace host exec final es"
  shows "\<exists>before. es = before @ [ResultNotified final] \<and> (\<forall>r. ResultNotified r \<notin> set before)"
proof -
  have close: "\<exists>c. closing staged final = c @ [ResultNotified final] \<and> (\<forall>r. ResultNotified r \<notin> set c)" for staged
    by (cases staged) (auto simp: closing_def intro: exI [of _ "[]"] exI [of _ "[PostExecute]"])
  have bodies: "\<forall>ev\<in>set bodies. body_allowed host exec t ev \<Longrightarrow> ResultNotified r \<notin> set bodies" for bodies t r
    by (auto simp: body_allowed_def)
  consider "es = [ResultNotified final]"
    | prepared staged where "prepared \<in> {[PreExecute], [PreExecute, AskApproval]}" "es = prepared @ closing staged final"
    | prepared bodies staged t where "prepared \<in> {[PreExecute], [PreExecute, AskApproval]}"
      "\<forall>ev\<in>set bodies. body_allowed host exec t ev" "es = prepared @ Execute # bodies @ closing staged final"
    using assms unfolding execution_trace_def by blast
  then show ?thesis
  proof cases
    case (2 prepared staged)
    obtain c where "closing staged final = c @ [ResultNotified final]" "\<forall>r. ResultNotified r \<notin> set c" using close by blast
    then show ?thesis using 2 by (intro exI [of _ "prepared @ c"]) auto
  next
    case (3 prepared bodies staged t)
    obtain c where "closing staged final = c @ [ResultNotified final]" "\<forall>r. ResultNotified r \<notin> set c" using close by blast
    then show ?thesis using 3 bodies [OF 3(2)] by (intro exI [of _ "prepared @ Execute # bodies @ c"]) auto
  qed auto
qed

lemma trace_bodies:
  assumes "execution_trace host exec final es" "BodyInvoked d t \<in> set es"
  shows "\<exists>s. gate_passed host exec s \<and> s \<le> t
    \<and> resolve_execution (xh_registry host t) (te_name exec) (te_agent exec) (is_nested exec) = Some d
    \<and> (\<forall>a. xh_abort_at host = Some a \<longrightarrow> t < a)"
proof -
  have "BodyInvoked d t \<notin> set (closing staged final)" for staged by (cases staged) (simp_all add: closing_def)
  then obtain bodies s where "gate_passed host exec s" "\<forall>ev\<in>set bodies. body_allowed host exec s ev" "BodyInvoked d t \<in> set bodies"
    using assms unfolding execution_trace_def by auto
  then show ?thesis by (fastforce simp: body_allowed_def)
qed

end
