(* ===== verification/Prompt_Assembly.thy ===== *)
theory Prompt_Assembly
  imports Scoped_Layers Prompt_Rendering
begin

text \<open>
  The prompt registry and its assembly (\<open>SystemPrompt\<close> in
  \<open>packages/core/system-prompt/src/index.ts\<close>): sections, dynamic contexts, variables, tool providers and
  runtime-context suppressors, registered globally or in a scope; each assembly merges the global
  layer with the scope's chain, evaluates the providers, orders the parts and runs the assembly
  listeners, whose result stands except for a complete section and a suppressed context. The
  listeners are a parameter of the model.
\<close>

section \<open>Contributions\<close>

text \<open>The context of one assembly: the scope, and the fields other plugins add. A provider may throw.\<close>

record assemble_context =
  ac_scope :: "scope_key option"
  ac_fields :: json

datatype prompt_text =
    StaticText string
  | TextProvider "assemble_context \<Rightarrow> (string, string) result"

record prompt_section =
  ps_name :: string
  ps_order :: jsnum
  ps_text :: prompt_text
  ps_complete :: bool

record prompt_context =
  px_name :: string
  px_order :: jsnum
  px_text :: prompt_text

record tool_provision =
  tv_schemas :: "tool_schema list"
  tv_known :: "string list option"

type_synonym tool_provider = "assemble_context \<Rightarrow> (string, tool_provision) result"
type_synonym variable_provider = "assemble_context \<Rightarrow> (string, string option) result"

datatype prompt_contribution =
    SectionEntry prompt_section
  | ContextEntry prompt_context
  | SuppressorEntry
  | ProviderEntry tool_provider
  | VariableEntry string variable_provider

datatype prompt_table = SectionTable | ContextTable | SuppressorTable | ProviderTable | VariableTable

datatype prompt_registry_error =
    DuplicateEntry prompt_table "scope_key option" string
  | OrderNotFinite prompt_table string
  | BadVariableName string
  | BadToolOrder prompt_error

section \<open>Layers\<close>

record prompt_layer =
  pl_scope :: "scope_key option"
  pl_sections :: "prompt_section named_entries"
  pl_contexts :: "prompt_context named_entries"
  pl_suppressors :: "unit anonymous_entries"
  pl_providers :: "tool_provider anonymous_entries"
  pl_variables :: "variable_provider named_entries"

definition new_prompt_layer :: "scope_key option \<Rightarrow> prompt_layer" where
  "new_prompt_layer scope =
     \<lparr>pl_scope = scope, pl_sections = [], pl_contexts = [], pl_suppressors = [], pl_providers = [], pl_variables = []\<rparr>"

definition prompt_layer_is_empty :: "prompt_layer \<Rightarrow> bool" where
  "prompt_layer_is_empty l \<longleftrightarrow>
     pl_sections l = [] \<and> pl_contexts l = [] \<and> pl_suppressors l = [] \<and> pl_providers l = [] \<and> pl_variables l = []"

definition put_prompt_contribution ::
    "nat \<Rightarrow> prompt_contribution \<Rightarrow> prompt_layer \<Rightarrow> (prompt_registry_error, prompt_layer) result" where
  "put_prompt_contribution number c l =
     (case c of
        SectionEntry s \<Rightarrow>
          rmap (\<lambda>t. l\<lparr>pl_sections := t\<rparr>)
            (named_insert (DuplicateEntry SectionTable (pl_scope l)) (ps_name s) s (pl_sections l))
      | ContextEntry x \<Rightarrow>
          rmap (\<lambda>t. l\<lparr>pl_contexts := t\<rparr>)
            (named_insert (DuplicateEntry ContextTable (pl_scope l)) (px_name x) x (pl_contexts l))
      | SuppressorEntry \<Rightarrow> Inr (l\<lparr>pl_suppressors := anonymous_append number () (pl_suppressors l)\<rparr>)
      | ProviderEntry p \<Rightarrow> Inr (l\<lparr>pl_providers := anonymous_append number p (pl_providers l)\<rparr>)
      | VariableEntry name p \<Rightarrow>
          rmap (\<lambda>t. l\<lparr>pl_variables := t\<rparr>)
            (named_insert (DuplicateEntry VariableTable (pl_scope l)) name p (pl_variables l)))"

definition undo_prompt_contribution :: "nat \<Rightarrow> prompt_contribution \<Rightarrow> prompt_layer \<Rightarrow> prompt_layer" where
  "undo_prompt_contribution number c l =
     (case c of
        SectionEntry s \<Rightarrow> l\<lparr>pl_sections := named_undo (ps_name s) (pl_sections l)\<rparr>
      | ContextEntry x \<Rightarrow> l\<lparr>pl_contexts := named_undo (px_name x) (pl_contexts l)\<rparr>
      | SuppressorEntry \<Rightarrow> l\<lparr>pl_suppressors := anonymous_undo number (pl_suppressors l)\<rparr>
      | ProviderEntry p \<Rightarrow> l\<lparr>pl_providers := anonymous_undo number (pl_providers l)\<rparr>
      | VariableEntry name p \<Rightarrow> l\<lparr>pl_variables := named_undo name (pl_variables l)\<rparr>)"

definition prompt_layer_kind :: "(prompt_registry_error, prompt_contribution, prompt_layer) layer_kind" where
  "prompt_layer_kind =
     \<lparr>lk_create = new_prompt_layer, lk_is_empty = prompt_layer_is_empty,
      lk_put = put_prompt_contribution, lk_undo = undo_prompt_contribution\<rparr>"

type_synonym prompt_layers = "(prompt_contribution, prompt_layer) layers"

record prompt_registry =
  pg_layers :: prompt_layers
  pg_parents :: scope_parents
  pg_tool_order :: "string list option"

section \<open>Registration\<close>

definition register_prompt ::
    "scope_key option \<Rightarrow> prompt_contribution \<Rightarrow> prompt_registry \<Rightarrow> (prompt_registry_error, nat) result \<times> prompt_registry" where
  "register_prompt scope c g =
     (case register_effect prompt_layer_kind scope True c (pg_layers g) of
        (out, layers) \<Rightarrow> (out, g\<lparr>pg_layers := layers\<rparr>))"

fun is_finite_num :: "jsnum \<Rightarrow> bool" where
  "is_finite_num (NInf _) = False"
| "is_finite_num NNaN = False"
| "is_finite_num _ = True"

definition add_section ::
    "scope_key option \<Rightarrow> prompt_section \<Rightarrow> prompt_registry \<Rightarrow> (prompt_registry_error, nat) result \<times> prompt_registry" where
  "add_section scope s g =
     (if \<not> is_finite_num (ps_order s) then (Inl (OrderNotFinite SectionTable (ps_name s)), g)
      else register_prompt scope (SectionEntry s) g)"

definition add_context ::
    "scope_key option \<Rightarrow> prompt_context \<Rightarrow> prompt_registry \<Rightarrow> (prompt_registry_error, nat) result \<times> prompt_registry" where
  "add_context scope x g =
     (if \<not> is_finite_num (px_order x) then (Inl (OrderNotFinite ContextTable (px_name x)), g)
      else register_prompt scope (ContextEntry x) g)"

definition suppress_runtime_context ::
    "scope_key option \<Rightarrow> prompt_registry \<Rightarrow> (prompt_registry_error, nat) result \<times> prompt_registry" where
  "suppress_runtime_context scope g = register_prompt scope SuppressorEntry g"

definition add_tool_provider ::
    "scope_key option \<Rightarrow> tool_provider \<Rightarrow> prompt_registry \<Rightarrow> (prompt_registry_error, nat) result \<times> prompt_registry" where
  "add_tool_provider scope p g = register_prompt scope (ProviderEntry p) g"

definition add_variable ::
    "scope_key option \<Rightarrow> string \<Rightarrow> variable_provider \<Rightarrow> prompt_registry
       \<Rightarrow> (prompt_registry_error, nat) result \<times> prompt_registry" where
  "add_variable scope name p g =
     (if \<not> is_variable_name name then (Inl (BadVariableName name), g)
      else register_prompt scope (VariableEntry name p) g)"

definition dispose_prompt :: "nat \<Rightarrow> prompt_registry \<Rightarrow> prompt_registry" where
  "dispose_prompt number g = g\<lparr>pg_layers := run_cleanup prompt_layer_kind number (pg_layers g)\<rparr>"

text \<open>The constructor registers the deployment's openers.\<close>

record prompt_config =
  pf_include_identity :: bool
  pf_identity :: string
  pf_include_context :: bool
  pf_persona :: string
  pf_tool_order :: "string list option"

definition PERSONA_SECTION :: string where
  "PERSONA_SECTION = ''deployment:persona''"

definition PERSONA_ORDER :: jsnum where
  "PERSONA_ORDER = NInt 0"

definition static_section :: "string \<Rightarrow> jsnum \<Rightarrow> string \<Rightarrow> prompt_section" where
  "static_section name order text = \<lparr>ps_name = name, ps_order = order, ps_text = StaticText text, ps_complete = False\<rparr>"

definition new_prompt_registry :: "prompt_config \<Rightarrow> (prompt_registry_error, prompt_registry) result" where
  "new_prompt_registry config =
     rmap (\<lambda>order.
         let g = \<lparr>pg_layers = new_layers prompt_layer_kind, pg_parents = Map.empty, pg_tool_order = order\<rparr>;
             g1 = (if pf_include_identity config
                   then snd (add_section None (static_section ''harness:identity'' (NInt (- 100)) (pf_identity config)) g) else g);
             g2 = snd (add_section None (static_section PERSONA_SECTION PERSONA_ORDER (pf_persona config)) g1)
         in if pf_include_context config then g2 else snd (suppress_runtime_context None g2))
       (map_error BadToolOrder (validate_tool_order (pf_tool_order config)))"

section \<open>Assembly\<close>

datatype assembly_error =
    ProviderFailed string
  | ManyCompleteSections "string list"
  | ToolOrderFailed prompt_error
  | ListenerFailed string

text \<open>The sign of \<open>a.order - b.order\<close> for finite orders.\<close>

definition num_less :: "jsnum \<Rightarrow> jsnum \<Rightarrow> bool" where
  "num_less a b \<longleftrightarrow> fst (num_parts a) * 2 ^ snd (num_parts b) < fst (num_parts b) * 2 ^ snd (num_parts a)"

text \<open>\<open>Array.prototype.sort\<close> is stable.\<close>

fun insert_stable :: "('a \<Rightarrow> jsnum) \<Rightarrow> 'a \<Rightarrow> 'a list \<Rightarrow> 'a list" where
  "insert_stable f x [] = [x]"
| "insert_stable f x (y # ys) = (if num_less (f y) (f x) then y # insert_stable f x ys else x # y # ys)"

definition sort_stable :: "('a \<Rightarrow> jsnum) \<Rightarrow> 'a list \<Rightarrow> 'a list" where
  "sort_stable f xs = foldr (insert_stable f) xs []"

definition text_in :: "assemble_context \<Rightarrow> prompt_text \<Rightarrow> (assembly_error, string) result" where
  "text_in context t = (case t of StaticText s \<Rightarrow> Inr s | TextProvider f \<Rightarrow> map_error ProviderFailed (f context))"

definition prompt_chain :: "prompt_registry \<Rightarrow> scope_key option \<Rightarrow> prompt_layer list" where
  "prompt_chain g scope = chain_layers (pg_layers g) (pg_parents g) scope"

definition context_suppressed :: "prompt_registry \<Rightarrow> scope_key option \<Rightarrow> bool" where
  "context_suppressed g scope \<longleftrightarrow>
     pl_suppressors (global_layer (pg_layers g)) \<noteq> [] \<or> list_ex (\<lambda>l. pl_suppressors l \<noteq> []) (prompt_chain g scope)"

text \<open>The effective sections and contexts of a scope, in their order.\<close>

definition effective_sections :: "prompt_registry \<Rightarrow> scope_key option \<Rightarrow> prompt_section list" where
  "effective_sections g scope =
     sort_stable ps_order (map snd (merge_layers (pg_layers g) (pg_parents g) scope pl_sections))"

definition effective_contexts :: "prompt_registry \<Rightarrow> scope_key option \<Rightarrow> prompt_context list" where
  "effective_contexts g scope =
     sort_stable px_order (map snd (merge_layers (pg_layers g) (pg_parents g) scope pl_contexts))"

text \<open>Variables of the global layer, then of the chain; a nearer value replaces a farther one.\<close>

definition set_variable ::
    "assemble_context \<Rightarrow> prompt_variables \<Rightarrow> string \<times> variable_provider \<Rightarrow> (assembly_error, prompt_variables) result" where
  "set_variable context vars entry =
     rmap (\<lambda>v. map_set (fst entry) v vars) (map_error ProviderFailed (snd entry context))"

definition assemble_variables :: "prompt_registry \<Rightarrow> assemble_context \<Rightarrow> (assembly_error, prompt_variables) result" where
  "assemble_variables g context =
     fold_log (set_variable context) []
       (pl_variables (global_layer (pg_layers g)) @ concat (map pl_variables (prompt_chain g (ac_scope context))))"

text \<open>The tools of the providers, global first, and the names a tool order may use.\<close>

definition collect_provision ::
    "assemble_context \<Rightarrow> tool_schema list \<times> string list \<Rightarrow> tool_provider \<Rightarrow> (assembly_error, tool_schema list \<times> string list) result" where
  "collect_provision context acc provider =
     rmap (\<lambda>res.
         let known = (case tv_known res of Some names \<Rightarrow> names | None \<Rightarrow> map ts_name (tv_schemas res)) in
         (fst acc @ tv_schemas res, snd acc @ known))
       (map_error ProviderFailed (provider context))"

definition collect_tools :: "prompt_registry \<Rightarrow> assemble_context \<Rightarrow> (assembly_error, tool_schema list \<times> string list) result" where
  "collect_tools g context =
     fold_log (collect_provision context) ([], [])
       (map snd (pl_providers (global_layer (pg_layers g)))
         @ concat (map (\<lambda>l. map snd (pl_providers l)) (prompt_chain g (ac_scope context))))"

definition assemble_section :: "assemble_context \<Rightarrow> prompt_section \<Rightarrow> (assembly_error, assembled_text) result" where
  "assemble_section context s = rmap (\<lambda>t. \<lparr>at_name = ps_name s, at_text = t\<rparr>) (text_in context (ps_text s))"

definition assemble_contexts :: "prompt_registry \<Rightarrow> assemble_context \<Rightarrow> (assembly_error, assembled_text list) result" where
  "assemble_contexts g context =
     (if context_suppressed g (ac_scope context) then Inr []
      else traverse (\<lambda>x. rmap (\<lambda>t. \<lparr>at_name = px_name x, at_text = t\<rparr>) (text_in context (px_text x)))
             (effective_contexts g (ac_scope context)))"

text \<open>At most one effective section is complete.\<close>

definition complete_sections :: "prompt_registry \<Rightarrow> scope_key option \<Rightarrow> prompt_section list" where
  "complete_sections g scope = filter ps_complete (effective_sections g scope)"

text \<open>The assembly before the listeners, with the complete section's text.\<close>

definition assemble_parts ::
    "prompt_registry \<Rightarrow> assemble_context \<Rightarrow> (assembly_error, prompt_assembly \<times> assembled_text option) result" where
  "assemble_parts g context =
     rbind (assemble_variables g context)
       (\<lambda>vars. rbind (collect_tools g context)
          (\<lambda>(tools, known).
             let sections = effective_sections g (ac_scope context);
                 complete = complete_sections g (ac_scope context)
             in if 1 < length complete then Inl (ManyCompleteSections (map ps_name complete))
                else rbind (traverse (assemble_section context) sections)
                  (\<lambda>texts. rbind (assemble_contexts g context)
                     (\<lambda>contexts. rmap
                        (\<lambda>ordered.
                           (\<lparr>pa_sections = texts, pa_contexts = contexts, pa_tools = ordered, pa_variables = vars\<rparr>,
                            map_of (zip (map ps_complete sections) texts) True))
                        (map_error ToolOrderFailed (order_tools tools (pg_tool_order g) known))))))"

text \<open>\<open>assemble\<close>: the listeners' result, under an enforced complete section and suppression.\<close>

definition assemble_prompt ::
    "(prompt_assembly \<Rightarrow> (string, prompt_assembly) result) \<Rightarrow> prompt_registry \<Rightarrow> assemble_context
       \<Rightarrow> (assembly_error, prompt_assembly) result" where
  "assemble_prompt listeners g context =
     rbind (assemble_parts g context)
       (\<lambda>(assembly, complete).
          rmap (\<lambda>transformed.
              transformed
                \<lparr>pa_sections := (case complete of None \<Rightarrow> pa_sections transformed | Some s \<Rightarrow> [s]),
                 pa_contexts := (if context_suppressed g (ac_scope context) then [] else pa_contexts transformed)\<rparr>)
            (map_error ListenerFailed (listeners assembly)))"

section \<open>The prompt layer fulfils the contract of the scoped registries\<close>

datatype prompt_key = PromptName string | PromptNumber nat

fun prompt_table_of :: "prompt_contribution \<Rightarrow> prompt_table" where
  "prompt_table_of (SectionEntry _) = SectionTable"
| "prompt_table_of (ContextEntry _) = ContextTable"
| "prompt_table_of SuppressorEntry = SuppressorTable"
| "prompt_table_of (ProviderEntry _) = ProviderTable"
| "prompt_table_of (VariableEntry _ _) = VariableTable"

fun prompt_key_of :: "nat \<Rightarrow> prompt_contribution \<Rightarrow> prompt_key" where
  "prompt_key_of n (SectionEntry s) = PromptName (ps_name s)"
| "prompt_key_of n (ContextEntry x) = PromptName (px_name x)"
| "prompt_key_of n SuppressorEntry = PromptNumber n"
| "prompt_key_of n (ProviderEntry _) = PromptNumber n"
| "prompt_key_of n (VariableEntry name _) = PromptName name"

fun prompt_numbered :: "prompt_contribution \<Rightarrow> bool" where
  "prompt_numbered SuppressorEntry = True"
| "prompt_numbered (ProviderEntry _) = True"
| "prompt_numbered _ = False"

fun prompt_rows :: "prompt_layer \<Rightarrow> prompt_table \<Rightarrow> (prompt_key, prompt_contribution) js_map" where
  "prompt_rows l SectionTable = as_rows PromptName (\<lambda>_. SectionEntry) (pl_sections l)"
| "prompt_rows l ContextTable = as_rows PromptName (\<lambda>_. ContextEntry) (pl_contexts l)"
| "prompt_rows l SuppressorTable = as_rows PromptNumber (\<lambda>_ _. SuppressorEntry) (pl_suppressors l)"
| "prompt_rows l ProviderTable = as_rows PromptNumber (\<lambda>_. ProviderEntry) (pl_providers l)"
| "prompt_rows l VariableTable = as_rows PromptName VariableEntry (pl_variables l)"

lemma prompt_key_inj [simp]: "inj PromptName" "inj PromptNumber"
  by (simp_all add: inj_def)

interpretation pl: layer_tables prompt_layer_kind prompt_rows prompt_table_of prompt_key_of prompt_numbered
proof
  show "prompt_rows (lk_create prompt_layer_kind scope) s = []" for scope s
    by (cases s) (simp_all add: prompt_layer_kind_def new_prompt_layer_def)
  have all: "(\<forall>s. P s) \<longleftrightarrow> P SectionTable \<and> P ContextTable \<and> P SuppressorTable \<and> P ProviderTable \<and> P VariableTable" for P
    by (metis prompt_table.exhaust)
  show "lk_is_empty prompt_layer_kind l = (\<forall>s. prompt_rows l s = [])" for l
    unfolding all by (simp add: prompt_layer_kind_def prompt_layer_is_empty_def)
  show "\<exists>l'. lk_put prompt_layer_kind n c l = Inr l'
      \<and> (\<forall>s. prompt_rows l' s = (if s = prompt_table_of c then prompt_rows l s @ [(prompt_key_of n c, c)] else prompt_rows l s))"
    if "map_get (prompt_rows l (prompt_table_of c)) (prompt_key_of n c) = None" for l c n
    using that unfolding all
    by (cases c) (auto simp: prompt_layer_kind_def put_prompt_contribution_def named_insert_def anonymous_append_def
        map_set_absent)
  show "\<exists>e. lk_put prompt_layer_kind n c l = Inl e"
    if "\<not> prompt_numbered c" "map_has (prompt_rows l (prompt_table_of c)) (prompt_key_of n c)" for c l n
    using that by (cases c) (auto simp: prompt_layer_kind_def put_prompt_contribution_def named_insert_def)
  show "prompt_rows (lk_undo prompt_layer_kind n c l) s
      = (if s = prompt_table_of c then map_del (prompt_key_of n c) (prompt_rows l s) else prompt_rows l s)" for n c l s
    by (cases c; cases s) (auto simp: prompt_layer_kind_def undo_prompt_contribution_def named_undo_def anonymous_undo_def
        as_rows_del)
  show "(prompt_key_of m c = prompt_key_of n d) = (m = n)" if "prompt_numbered c" "prompt_table_of c = prompt_table_of d" for c d m n
    using that by (cases c; cases d) auto
qed

end
