(* ===== verification/Prompt_Facts.thy ===== *)
theory Prompt_Facts
  imports Prompt_Assembly
begin

text \<open>
  Facts about the prompt registry: its layers are its live registrations, the sections of an
  assembly are the nearest registrations of their names in ascending order, and neither a complete
  section nor a suppressed context can be undone by an assembly listener.
\<close>

section \<open>Reachable registries\<close>

inductive prompt_reach :: "prompt_registry \<Rightarrow> bool" where
  prompt_new: "new_prompt_registry config = Inr g \<Longrightarrow> prompt_reach g"
| prompt_section: "prompt_reach g \<Longrightarrow> add_section scope s g = (out, g') \<Longrightarrow> prompt_reach g'"
| prompt_context: "prompt_reach g \<Longrightarrow> add_context scope x g = (out, g') \<Longrightarrow> prompt_reach g'"
| prompt_suppress: "prompt_reach g \<Longrightarrow> suppress_runtime_context scope g = (out, g') \<Longrightarrow> prompt_reach g'"
| prompt_tools: "prompt_reach g \<Longrightarrow> add_tool_provider scope p g = (out, g') \<Longrightarrow> prompt_reach g'"
| prompt_variable: "prompt_reach g \<Longrightarrow> add_variable scope name v g = (out, g') \<Longrightarrow> prompt_reach g'"
| prompt_dispose: "prompt_reach g \<Longrightarrow> number < length (ly_registrations (pg_layers g))
    \<Longrightarrow> rg_active (ly_registrations (pg_layers g) ! number) \<Longrightarrow> prompt_reach (dispose_prompt number g)"
| prompt_scopes: "prompt_reach g \<Longrightarrow> scopes_reach ps \<Longrightarrow> prompt_reach (g\<lparr>pg_parents := ps\<rparr>)"

definition prompt_sound :: "prompt_registry \<Rightarrow> bool" where
  "prompt_sound g \<longleftrightarrow> layers_reach prompt_layer_kind (pg_layers g) \<and> forest (pg_parents g)"

lemma register_prompt_sound: "register_prompt scope c g = (out, g') \<Longrightarrow> prompt_sound g \<Longrightarrow> prompt_sound g'"
  by (auto simp: prompt_sound_def register_prompt_def intro: reach_register split: prod.splits)

lemmas prompt_operations = add_section_def add_context_def suppress_runtime_context_def add_tool_provider_def add_variable_def

lemma prompt_snd_sound:
  "prompt_sound g \<Longrightarrow> prompt_sound (snd (add_section scope s g))"
  "prompt_sound g \<Longrightarrow> prompt_sound (snd (suppress_runtime_context scope g))"
  by (auto simp: prompt_operations intro: register_prompt_sound [OF surjective_pairing])

lemma prompt_reach_sound: "prompt_reach g \<Longrightarrow> prompt_sound g"
proof (induction rule: prompt_reach.induct)
  case (prompt_new config g)
  have start: "prompt_sound \<lparr>pg_layers = new_layers prompt_layer_kind, pg_parents = Map.empty, pg_tool_order = order\<rparr>" for order
    by (simp add: prompt_sound_def reach_new scopes_reach_forest scopes_empty)
  show ?case
    using prompt_new by (auto simp: new_prompt_registry_def Let_def rmap_eq_Inr intro!: prompt_snd_sound start)
next
  case (prompt_dispose g number)
  then show ?case by (simp add: prompt_sound_def dispose_prompt_def reach_cleanup)
next
  case (prompt_scopes g ps)
  then show ?case by (simp add: prompt_sound_def scopes_reach_forest)
qed (auto simp: prompt_operations intro: register_prompt_sound split: if_splits)

section \<open>The sections of one scope\<close>

definition prompt_layer_at :: "prompt_registry \<Rightarrow> scope_key option \<Rightarrow> prompt_layer option" where
  "prompt_layer_at g scope =
     (case scope of None \<Rightarrow> Some (global_layer (pg_layers g)) | Some _ \<Rightarrow> peek_layer (pg_layers g) scope)"

definition sections_at :: "prompt_registry \<Rightarrow> scope_key option \<Rightarrow> (string, prompt_section) js_map" where
  "sections_at g scope = (case prompt_layer_at g scope of None \<Rightarrow> [] | Some l \<Rightarrow> pl_sections l)"

lemma section_rows: "pl.shown (pg_layers g) scope SectionTable = as_rows PromptName (\<lambda>_. SectionEntry) (sections_at g scope)"
  by (cases scope) (simp_all add: pl.shown_def sections_at_def prompt_layer_at_def split: option.split)

lemma sections_distinct:
  assumes "prompt_sound g"
  shows "distinct (map fst (sections_at g scope))"
proof -
  have "distinct (map fst (pl.shown (pg_layers g) scope SectionTable))"
    using assms by (simp add: prompt_sound_def pl.registry_keys_distinct)
  then show ?thesis unfolding section_rows as_rows_keys distinct_map [of PromptName] by blast
qed

lemma sections_named:
  assumes "prompt_sound g" "(name, s) \<in> set (sections_at g scope)"
  shows "ps_name s = name"
proof -
  have "(PromptName name, SectionEntry s) \<in> set (pl.shown (pg_layers g) scope SectionTable)"
    using assms(2) by (force simp: section_rows as_rows_def)
  then have "(PromptName name, SectionEntry s) \<in> set (pl.live (pg_layers g) scope SectionTable)"
    using assms(1) by (simp add: prompt_sound_def pl.registry_shows_live)
  then show ?thesis
    unfolding pl.live_def set_map set_filter by clarsimp (metis prompt_key.inject(1) prompt_key_of.simps(1))
qed

section \<open>The effective sections\<close>

text \<open>The scopes an assembly reads, farthest first.\<close>

definition scopes_read :: "prompt_registry \<Rightarrow> scope_key option \<Rightarrow> scope_key option list" where
  "scopes_read g scope = None # map Some (rev (chain_of (pg_parents g) scope))"

definition nearest_section :: "prompt_registry \<Rightarrow> scope_key option \<Rightarrow> string \<Rightarrow> prompt_section option" where
  "nearest_section g scope name = nearest (map (sections_at g) (scopes_read g scope)) name"

lemma merged_sections:
  "merge_layers (pg_layers g) (pg_parents g) scope pl_sections
   = foldl shadow_entries (sections_at g None) (map (\<lambda>k. sections_at g (Some k)) (rev (chain_of (pg_parents g) scope)))"
proof -
  have "foldl shadow_entries m (map pl_sections (List.map_filter (\<lambda>k. peek_layer (pg_layers g) (Some k)) ks))
      = foldl shadow_entries m (map (\<lambda>k. sections_at g (Some k)) ks)" for m ks
    by (induction ks arbitrary: m)
      (auto simp: List.map_filter_simps sections_at_def prompt_layer_at_def shadow_entries_def split: option.split)
  then show ?thesis by (simp add: merge_layers_def chain_layers_def sections_at_def [of g None] prompt_layer_at_def [of g None])
qed

lemma merged_sections_get:
  assumes "prompt_sound g"
  shows "map_get (merge_layers (pg_layers g) (pg_parents g) scope pl_sections) name = nearest_section g scope name"
    "distinct (map fst (merge_layers (pg_layers g) (pg_parents g) scope pl_sections))"
  unfolding merged_sections nearest_section_def scopes_read_def
  by (subst shadowing_nearest; force simp: sections_distinct [OF assms] comp_def)
    (simp add: shadowing_distinct sections_distinct [OF assms])

lemma nearest_named: "prompt_sound g \<Longrightarrow> nearest_section g scope name = Some s \<Longrightarrow> ps_name s = name"
proof -
  assume sound: "prompt_sound g" and "nearest_section g scope name = Some s"
  moreover have "nearest (map (sections_at g) ks) name = Some s \<Longrightarrow> ps_name s = name" for ks
    by (induction ks) (auto dest!: map_of_SomeD sections_named [OF sound] split: option.splits)
  ultimately show "ps_name s = name" by (simp add: nearest_section_def)
qed

section \<open>Stable sorting\<close>

lemma num_less_asym: "num_less a b \<Longrightarrow> \<not> num_less b a"
  by (simp add: num_less_def)

text \<open>The scaled comparison is transitive: the scale cancels.\<close>

lemma num_less_trans:
  assumes "\<not> num_less b a" "\<not> num_less c b"
  shows "\<not> num_less c a"
proof -
  obtain m i where a: "num_parts a = (m, i)" by (cases "num_parts a")
  obtain n j where b: "num_parts b = (n, j)" by (cases "num_parts b")
  obtain p k where c: "num_parts c = (p, k)" by (cases "num_parts c")
  have "m * 2 ^ j \<le> n * 2 ^ i" "n * 2 ^ k \<le> p * 2 ^ j"
    using assms by (simp_all add: num_less_def a b c)
  then have "m * 2 ^ j * 2 ^ k \<le> n * 2 ^ i * 2 ^ k" "n * 2 ^ k * 2 ^ i \<le> p * 2 ^ j * 2 ^ i"
    by (simp_all add: mult_right_mono)
  moreover have "n * 2 ^ i * 2 ^ k = n * 2 ^ k * 2 ^ i" by (simp only: mult_ac)
  ultimately have "m * 2 ^ j * 2 ^ k \<le> p * 2 ^ j * 2 ^ i" by linarith
  moreover have "m * 2 ^ j * 2 ^ k = (m * 2 ^ k) * 2 ^ j" "p * 2 ^ j * 2 ^ i = (p * 2 ^ i) * 2 ^ j"
    by (simp_all only: mult_ac)
  ultimately have "(m * 2 ^ k) * 2 ^ j \<le> (p * 2 ^ i) * 2 ^ j" by linarith
  then show ?thesis by (simp add: num_less_def a c)
qed

definition ascending :: "('a \<Rightarrow> jsnum) \<Rightarrow> 'a list \<Rightarrow> bool" where
  "ascending f xs \<longleftrightarrow> sorted_wrt (\<lambda>a b. \<not> num_less (f b) (f a)) xs"

lemma insert_stable_mset: "mset (insert_stable f x ys) = add_mset x (mset ys)"
  by (induction ys) auto

lemma insert_stable_set [simp]: "set (insert_stable f x ys) = insert x (set ys)"
  by (induction ys) auto

lemma insert_stable_ascending: "ascending f ys \<Longrightarrow> ascending f (insert_stable f x ys)"
proof (induction ys)
  case (Cons y ys)
  then have below: "\<forall>z\<in>set ys. \<not> num_less (f z) (f y)" by (simp add: ascending_def)
  show ?case
  proof (cases "num_less (f y) (f x)")
    case True
    then show ?thesis using Cons below by (auto simp: ascending_def dest: num_less_asym)
  next
    case False
    then show ?thesis using Cons.prems below num_less_trans [OF False] by (simp add: ascending_def)
  qed
qed (simp add: ascending_def)

lemma sort_stable_facts:
  "mset (sort_stable f xs) = mset xs" "set (sort_stable f xs) = set xs" "ascending f (sort_stable f xs)"
proof -
  show "mset (sort_stable f xs) = mset xs"
    by (induction xs) (simp_all add: sort_stable_def insert_stable_mset)
  then show "set (sort_stable f xs) = set xs" by (metis set_mset_mset)
  show "ascending f (sort_stable f xs)"
    by (induction xs) (simp_all add: sort_stable_def insert_stable_ascending, simp add: ascending_def)
qed

section \<open>What an assembly contains\<close>

lemma effective_section_iff:
  assumes "prompt_sound g"
  shows "s \<in> set (effective_sections g scope) \<longleftrightarrow> nearest_section g scope (ps_name s) = Some s"
    and "distinct (map ps_name (effective_sections g scope))"
proof -
  let ?m = "merge_layers (pg_layers g) (pg_parents g) scope pl_sections"
  note get = merged_sections_get [OF assms, of scope]
  have named: "(name, s) \<in> set ?m \<Longrightarrow> ps_name s = name" for name s
    using get nearest_named [OF assms] by (metis map_of_is_SomeI)
  have "s \<in> set (effective_sections g scope) \<longleftrightarrow> s \<in> snd ` set ?m"
    by (simp add: effective_sections_def sort_stable_facts)
  also have "\<dots> \<longleftrightarrow> map_get ?m (ps_name s) = Some s"
  proof
    assume "s \<in> snd ` set ?m"
    then obtain name where "(name, s) \<in> set ?m" by auto
    with named [OF this] show "map_get ?m (ps_name s) = Some s" using get(2) by simp
  qed (auto dest!: map_of_SomeD intro: image_eqI [rotated])
  finally show "s \<in> set (effective_sections g scope) \<longleftrightarrow> nearest_section g scope (ps_name s) = Some s" using get(1) by simp
  have "map ps_name (map snd ?m) = map fst ?m" using named by auto
  with get(2) have "distinct (map ps_name (map snd ?m))" by (simp only:)
  then show "distinct (map ps_name (effective_sections g scope))"
    unfolding effective_sections_def
    by (metis mset_map sort_stable_facts(1) mset_eq_imp_distinct_iff)
qed

lemma complete_text:
  assumes "traverse (assemble_section context) sections = Inr texts"
  shows "map_of (zip (map ps_complete sections) texts) True =
    (case filter ps_complete sections of [] \<Rightarrow> None
     | s # _ \<Rightarrow> (case text_in context (ps_text s) of Inl _ \<Rightarrow> None | Inr t \<Rightarrow> Some \<lparr>at_name = ps_name s, at_text = t\<rparr>))"
  using assms
  by (induction sections arbitrary: texts)
    (auto simp: rbind_eq_Inr rmap_eq_Inr assemble_section_def)

lemma traverse_member: "traverse f xs = Inr ys \<Longrightarrow> x \<in> set xs \<Longrightarrow> \<exists>y. f x = Inr y"
  by (induction xs arbitrary: ys) (auto simp: rbind_eq_Inr rmap_eq_Inr)

text \<open>The listeners cannot remove the complete section, add to it, or bring suppressed contexts back.\<close>

lemma assembled_prompt:
  assumes "assemble_prompt listeners g context = Inr a"
  shows "context_suppressed g (ac_scope context) \<Longrightarrow> pa_contexts a = []"
    "s \<in> set (effective_sections g (ac_scope context)) \<Longrightarrow> ps_complete s
      \<Longrightarrow> \<exists>t. text_in context (ps_text s) = Inr t \<and> pa_sections a = [\<lparr>at_name = ps_name s, at_text = t\<rparr>]"
proof -
  let ?scope = "ac_scope context"
  obtain assembly complete where parts: "assemble_parts g context = Inr (assembly, complete)"
    and a: "pa_sections a = (case complete of None \<Rightarrow> pa_sections a | Some s \<Rightarrow> [s])"
      "context_suppressed g ?scope \<Longrightarrow> pa_contexts a = []"
    using assms by (auto simp: assemble_prompt_def rbind_eq_Inr rmap_eq_Inr split: option.split)
  show "context_suppressed g ?scope \<Longrightarrow> pa_contexts a = []" by (rule a)
  assume s: "s \<in> set (effective_sections g ?scope)" "ps_complete s"
  obtain texts where few: "\<not> 1 < length (complete_sections g ?scope)"
    and texts: "traverse (assemble_section context) (effective_sections g ?scope) = Inr texts"
    and complete: "complete = map_of (zip (map ps_complete (effective_sections g ?scope)) texts) True"
    using parts by (auto simp: assemble_parts_def rbind_eq_Inr rmap_eq_Inr Let_def split: if_splits)
  have only: "complete_sections g ?scope = [s]"
    using few s by (cases "complete_sections g ?scope") (force simp: complete_sections_def filter_eq_Cons_iff
        dest: arg_cong [of _ _ set])+
  have "\<exists>t. assemble_section context s = Inr t" by (rule traverse_member [OF texts s(1)])
  then obtain t where t: "text_in context (ps_text s) = Inr t" by (auto simp: assemble_section_def rmap_eq_Inr)
  then have "complete = Some \<lparr>at_name = ps_name s, at_text = t\<rparr>"
    using only by (simp add: complete complete_text [OF texts] complete_sections_def)
  then show "\<exists>t. text_in context (ps_text s) = Inr t \<and> pa_sections a = [\<lparr>at_name = ps_name s, at_text = t\<rparr>]"
    using t a(1) by simp
qed

end
