(* ===== verification/Sample_Tools.thy ===== *)
theory Sample_Tools
  imports Tool_Pipeline Prompt_Facts
begin

text \<open>
  Concrete registries, prompts and one execution, on which the properties of the tool registry, its
  pipeline and the prompt assembly are applied.
\<close>

section \<open>Scopes and tools\<close>

text \<open>Scope 1 is enclosed by scope 0.\<close>

definition sample_scopes :: scope_parents where
  "sample_scopes = [1 \<mapsto> 0]"

lemma sample_scopes_reach: "scopes_reach sample_scopes"
proof -
  have "bind_scope_parent 1 0 Map.empty = Some (Inr sample_scopes)"
    by (simp add: bind_scope_parent_def link_scope_parent_def walk_meets.simps sample_scopes_def)
  then show ?thesis by (rule scopes_bind [OF scopes_empty])
qed

definition string_schema :: json where
  "string_schema = JObj [(''type'', JStr ''string'')]"

definition echo_output :: tool_output where
  "echo_output =
     \<lparr>od_schema = string_schema,
      od_render = (\<lambda>_ v. case v of JStr s \<Rightarrow> Inr [TextBlock s] | _ \<Rightarrow> Inr []), od_meta = None\<rparr>"

definition tool_named :: "string \<Rightarrow> tool_definition" where
  "tool_named name =
     \<lparr>td_name = name, td_description = ''d'', td_parameters = [], td_output = Some echo_output, td_timeout_ms = None,
      td_concurrency_safe = None, td_finalize = None\<rparr>"

definition echo_registry :: tool_registry where
  "echo_registry =
     (snd (register_tool None (tool_named ''echo'') (new_registry NativeMode (tool_named RUN_CODE_NAME))))
       \<lparr>tg_parents := sample_scopes\<rparr>"

lemma echo_registry_reach: "registry_reach echo_registry"
  unfolding echo_registry_def
  by (intro registry_scopes [OF _ sample_scopes_reach] registry_tool [OF registry_new surjective_pairing])
    (simp add: tool_named_def)

definition deny_echo :: tool_restriction where
  "deny_echo = \<lparr>rs_allow = None, rs_deny = Some [''echo'']\<rparr>"

definition narrowed_registry :: tool_registry where
  "narrowed_registry = snd (restrict_tools (Some 0) deny_echo echo_registry)"

section \<open>An execution\<close>

definition echo_attempt :: body_attempt where
  "echo_attempt =
     \<lparr>at_wait = 1, at_signal_aborted = False, at_run = 2, at_signal_aborted_after = False,
      at_returned = Inr (Inr (Some (JStr ''hi''))), at_deferred = [], at_concludes = False\<rparr>"

definition echo_host :: "nat option \<Rightarrow> exec_host" where
  "echo_host abort_at =
     \<lparr>xh_abort_at = abort_at, xh_registry = (\<lambda>_. echo_registry), xh_arguments = Inr (Some (JObj [])),
      xh_arguments_time = 0, xh_gate = Inr AllowCall, xh_gate_time = 1, xh_approval = None, xh_approval_time = 0,
      xh_attempts = [echo_attempt], xh_around = Inr (ReturnsAttempt 0), xh_around_time = 0,
      xh_post = Inr (AcceptResult None None []), xh_post_time = 1, xh_violation_text = (\<lambda>_. '''')\<rparr>"

definition echo_input :: tool_input where
  "echo_input =
     \<lparr>ti_call_id = ''c'', ti_root_call_id = None, ti_name = ''echo'', ti_agent = Some 1, ti_parent = None\<rparr>"

section \<open>A prompt\<close>

definition sample_prompt_config :: prompt_config where
  "sample_prompt_config =
     \<lparr>pf_include_identity = True, pf_identity = ''id'', pf_include_context = False, pf_persona = ''p'', pf_tool_order = None\<rparr>"

definition sample_prompt_registry :: prompt_registry where
  "sample_prompt_registry =
     (snd (add_section (Some 1) ((static_section PERSONA_SECTION (NInt (- 200)) ''own'')\<lparr>ps_complete := True\<rparr>)
       (projr (new_prompt_registry sample_prompt_config))))\<lparr>pg_parents := sample_scopes\<rparr>"

lemma sample_prompt_reach: "prompt_reach sample_prompt_registry"
proof -
  have "is_ok (new_prompt_registry sample_prompt_config)" by code_simp
  then obtain g where g: "new_prompt_registry sample_prompt_config = Inr g" by (auto simp: is_ok_iff)
  show ?thesis
    unfolding sample_prompt_registry_def g sum.sel
    by (intro prompt_scopes [OF _ sample_scopes_reach] prompt_section [OF prompt_new [OF g] surjective_pairing])
qed

definition sample_context :: "scope_key option \<Rightarrow> assemble_context" where
  "sample_context scope = \<lparr>ac_scope = scope, ac_fields = JNull\<rparr>"

end
