(* ===== verification/Utf8.thy ===== *)
theory Utf8
  imports Prelude "HOL-Library.Word"
begin

text \<open>
  UTF-8 as the runtime's \<open>TextEncoder\<close> and \<open>TextDecoder\<close> handle it: text is a list of Unicode scalar
  values, bytes are 8-bit words. The decoder is the non-fatal one of the encoding standard, with
  its byte-order mark handling: a malformed sequence becomes one replacement character and a
  leading mark is dropped. Encoding and decoding are proved inverse.
\<close>

unbundle bit_operations_syntax

type_synonym byte = "8 word"
type_synonym bytes = "byte list"
type_synonym scalars = "nat list"

definition is_scalar :: "nat \<Rightarrow> bool" where
  "is_scalar c \<longleftrightarrow> c < 0xD800 \<or> 0xE000 \<le> c \<and> c < 0x110000"

definition REPLACEMENT :: nat where
  "REPLACEMENT = 0xFFFD"

definition BYTE_ORDER_MARK :: nat where
  "BYTE_ORDER_MARK = 0xFEFF"

section \<open>Encoding\<close>

definition as_byte :: "nat \<Rightarrow> byte" where
  "as_byte n = word_of_nat n"

definition continuation :: "nat \<Rightarrow> byte" where
  "continuation n = as_byte (0x80 + n mod 64)"

definition encode_scalar :: "nat \<Rightarrow> bytes" where
  "encode_scalar c =
     (if c < 0x80 then [as_byte c]
      else if c < 0x800 then [as_byte (0xC0 + c div 64), continuation c]
      else if c < 0x10000 then [as_byte (0xE0 + c div 4096), continuation (c div 64), continuation c]
      else [as_byte (0xF0 + c div 262144), continuation (c div 4096), continuation (c div 64), continuation c])"

definition utf8_encode :: "scalars \<Rightarrow> bytes" where
  "utf8_encode cs = concat (map encode_scalar cs)"

section \<open>Decoding\<close>

text \<open>A sequence in progress: the bytes still needed, the value so far, and the bounds of the next byte.\<close>

record utf8_progress =
  up_needed :: nat
  up_value :: nat
  up_lower :: nat
  up_upper :: nat

definition start_sequence :: "byte \<Rightarrow> nat + utf8_progress" where
  "start_sequence b =
     (let n = unat b in
      if n < 0x80 then Inl n
      else if 0xC2 \<le> n \<and> n \<le> 0xDF
      then Inr \<lparr>up_needed = 1, up_value = n - 0xC0, up_lower = 0x80, up_upper = 0xBF\<rparr>
      else if 0xE0 \<le> n \<and> n \<le> 0xEF
      then Inr \<lparr>up_needed = 2, up_value = n - 0xE0, up_lower = (if n = 0xE0 then 0xA0 else 0x80),
                up_upper = (if n = 0xED then 0x9F else 0xBF)\<rparr>
      else if 0xF0 \<le> n \<and> n \<le> 0xF4
      then Inr \<lparr>up_needed = 3, up_value = n - 0xF0, up_lower = (if n = 0xF0 then 0x90 else 0x80),
                up_upper = (if n = 0xF4 then 0x8F else 0xBF)\<rparr>
      else Inl REPLACEMENT)"

definition next_byte :: "utf8_progress \<Rightarrow> byte \<Rightarrow> (nat + utf8_progress) option" where
  "next_byte p b =
     (let n = unat b in
      if n < up_lower p \<or> up_upper p < n then None
      else if up_needed p = 1 then Some (Inl (up_value p * 64 + (n - 0x80)))
      else Some (Inr \<lparr>up_needed = up_needed p - 1, up_value = up_value p * 64 + (n - 0x80), up_lower = 0x80, up_upper = 0xBF\<rparr>))"

text \<open>The byte that breaks a sequence is read again as the start of the next.\<close>

definition begin_byte :: "byte \<Rightarrow> scalars \<times> utf8_progress option" where
  "begin_byte b = (case start_sequence b of Inl c \<Rightarrow> ([c], None) | Inr p \<Rightarrow> ([], Some p))"

definition decode_byte :: "utf8_progress option \<Rightarrow> byte \<Rightarrow> scalars \<times> utf8_progress option" where
  "decode_byte st b =
     (case st of
        None \<Rightarrow> begin_byte b
      | Some p \<Rightarrow>
          (case next_byte p b of
             Some (Inl c) \<Rightarrow> ([c], None)
           | Some (Inr p') \<Rightarrow> ([], Some p')
           | None \<Rightarrow> (case begin_byte b of (cs, st') \<Rightarrow> (REPLACEMENT # cs, st'))))"

fun decode_from :: "utf8_progress option \<Rightarrow> bytes \<Rightarrow> scalars" where
  "decode_from st [] = (if st = None then [] else [REPLACEMENT])"
| "decode_from st (b # bs) = fst (decode_byte st b) @ decode_from (snd (decode_byte st b)) bs"

definition utf8_decode :: "bytes \<Rightarrow> scalars" where
  "utf8_decode bs =
     (case decode_from None bs of
        [] \<Rightarrow> []
      | c # cs \<Rightarrow> if c = BYTE_ORDER_MARK then cs else c # cs)"

section \<open>Inverse\<close>

lemma unat_byte [simp]: "n < 256 \<Longrightarrow> unat (as_byte n) = n"
  by (simp add: as_byte_def unat_of_nat)

lemma unat_continuation [simp]: "unat (continuation n) = 0x80 + n mod 64"
  by (simp add: continuation_def)

lemma next_continuation:
  "up_lower p \<le> 0x80 + n mod 64 \<Longrightarrow> 0x80 + n mod 64 \<le> up_upper p \<Longrightarrow>
   next_byte p (continuation n) =
     Some (if up_needed p = 1 then Inl (up_value p * 64 + n mod 64)
           else Inr \<lparr>up_needed = up_needed p - 1, up_value = up_value p * 64 + n mod 64, up_lower = 0x80, up_upper = 0xBF\<rparr>)"
  by (simp add: next_byte_def Let_def)

text \<open>A sequence whose next byte is in its bounds; a later byte always is.\<close>

lemma decode_last:
  "up_needed p = 1 \<Longrightarrow> up_lower p \<le> 0x80 + n mod 64 \<Longrightarrow> 0x80 + n mod 64 \<le> up_upper p \<Longrightarrow>
   decode_from (Some p) (continuation n # bs) = (up_value p * 64 + n mod 64) # decode_from None bs"
  by (simp add: decode_byte_def next_continuation)

lemma decode_more:
  "1 < up_needed p \<Longrightarrow> up_lower p \<le> 0x80 + n mod 64 \<Longrightarrow> 0x80 + n mod 64 \<le> up_upper p \<Longrightarrow>
   decode_from (Some p) (continuation n # bs) =
     decode_from (Some \<lparr>up_needed = up_needed p - 1, up_value = up_value p * 64 + n mod 64, up_lower = 0x80, up_upper = 0xBF\<rparr>) bs"
  by (simp add: decode_byte_def next_continuation)

lemma small_digit: "n mod 64 \<le> 63" for n :: nat
  using mod_less_divisor [of 64 n] by linarith

lemma decode_two:
  "2 \<le> a \<Longrightarrow> a < 32 \<Longrightarrow>
   decode_from None (as_byte (0xC0 + a) # continuation x # bs) = (a * 64 + x mod 64) # decode_from None bs"
  using small_digit [of x]
  by (subst decode_from.simps) (simp add: decode_byte_def begin_byte_def start_sequence_def Let_def decode_last del: decode_from.simps)

lemma decode_three:
  "a < 16 \<Longrightarrow> (a = 0 \<longrightarrow> 32 \<le> x mod 64) \<Longrightarrow> (a = 13 \<longrightarrow> x mod 64 < 32) \<Longrightarrow>
   decode_from None (as_byte (0xE0 + a) # continuation x # continuation y # bs)
     = ((a * 64 + x mod 64) * 64 + y mod 64) # decode_from None bs"
  using small_digit [of x] small_digit [of y]
  by (subst decode_from.simps)
    (auto simp: decode_byte_def begin_byte_def start_sequence_def Let_def decode_last decode_more simp del: decode_from.simps)

lemma decode_four:
  "a < 5 \<Longrightarrow> (a = 0 \<longrightarrow> 16 \<le> x mod 64) \<Longrightarrow> (a = 4 \<longrightarrow> x mod 64 < 16) \<Longrightarrow>
   decode_from None (as_byte (0xF0 + a) # continuation x # continuation y # continuation z # bs)
     = (((a * 64 + x mod 64) * 64 + y mod 64) * 64 + z mod 64) # decode_from None bs"
  using small_digit [of x] small_digit [of y] small_digit [of z]
  by (subst decode_from.simps)
    (auto simp: decode_byte_def begin_byte_def start_sequence_def Let_def decode_last decode_more simp del: decode_from.simps)

lemma decode_encoded_scalar:
  assumes "is_scalar c"
  shows "decode_from None (encode_scalar c @ bs) = c # decode_from None bs"
proof -
  have q: "c = 64 * (c div 64) + c mod 64" "c div 64 = 64 * (c div 4096) + c div 64 mod 64"
    "c div 4096 = 64 * (c div 262144) + c div 4096 mod 64"
    using div_mult2_eq [of c 64 64] div_mult2_eq [of c 4096 64] by simp_all
  consider (one) "c < 0x80" | (two) "0x80 \<le> c" "c < 0x800" | (three) "0x800 \<le> c" "c < 0x10000"
    | (four) "0x10000 \<le> c" "c < 0x110000"
    using assms unfolding is_scalar_def by linarith
  then show ?thesis
  proof cases
    case one
    then show ?thesis by (simp add: encode_scalar_def decode_byte_def begin_byte_def start_sequence_def)
  next
    case two
    have "2 \<le> c div 64" "c div 64 < 32" using two by auto
    from decode_two [OF this] show ?thesis using two q(1) by (simp add: encode_scalar_def mult.commute del: decode_from.simps)
  next
    case three
    have "32 \<le> c div 64" "c div 64 < 1024" "c div 64 < 864 \<or> 896 \<le> c div 64"
      using three assms unfolding is_scalar_def by auto
    then have "c div 4096 < 16" "c div 4096 = 0 \<longrightarrow> 32 \<le> c div 64 mod 64" "c div 4096 = 13 \<longrightarrow> c div 64 mod 64 < 32"
      using q(2) by linarith+
    note run = decode_three [OF this, of c bs]
    have "c div 4096 * 64 + c div 64 mod 64 = c div 64" using q(2) by linarith
    moreover have "c div 64 * 64 + c mod 64 = c" using q(1) by linarith
    ultimately show ?thesis using three run by (simp add: encode_scalar_def del: decode_from.simps)
  next
    case four
    have "16 \<le> c div 4096" "c div 4096 < 272" using four by auto
    then have "c div 262144 < 5" "c div 262144 = 0 \<longrightarrow> 16 \<le> c div 4096 mod 64" "c div 262144 = 4 \<longrightarrow> c div 4096 mod 64 < 16"
      using q(3) by linarith+
    note run = decode_four [OF this, of "c div 64" c bs]
    have "c div 262144 * 64 + c div 4096 mod 64 = c div 4096" using q(3) by linarith
    moreover have "c div 4096 * 64 + c div 64 mod 64 = c div 64" using q(2) by linarith
    moreover have "c div 64 * 64 + c mod 64 = c" using q(1) by linarith
    ultimately show ?thesis using four run by (simp add: encode_scalar_def del: decode_from.simps)
  qed
qed

lemma decode_encoded: "list_all is_scalar cs \<Longrightarrow> decode_from None (utf8_encode cs) = cs"
  by (induction cs) (simp_all add: utf8_encode_def decode_encoded_scalar)

theorem utf8_inverse:
  "list_all is_scalar cs \<Longrightarrow> utf8_decode (utf8_encode cs) = (if cs \<noteq> [] \<and> hd cs = BYTE_ORDER_MARK then tl cs else cs)"
  by (cases cs) (simp_all add: utf8_decode_def decode_encoded)

section \<open>Leading and continuation bytes\<close>

definition is_continuation :: "byte \<Rightarrow> bool" where
  "is_continuation b \<longleftrightarrow> b AND 0xC0 = 0x80"

lemma byte_cases: "\<exists>n<256. b = as_byte n" for b :: byte
proof (intro exI conjI)
  show "unat b < 256" using unsigned_less [of b] by simp
qed (simp add: as_byte_def)

lemma is_continuation_unat: "is_continuation b \<longleftrightarrow> 0x80 \<le> unat b \<and> unat b < 0xC0"
proof -
  have all: "list_all (\<lambda>n. is_continuation (as_byte n) = (0x80 \<le> n \<and> n < 0xC0)) [0..<256]"
    unfolding is_continuation_def as_byte_def by code_simp
  obtain n where "n < 256" "b = as_byte n" using byte_cases by blast
  then show ?thesis using all by (simp add: list_all_iff)
qed

end
