(* ===== verification/Output_Retention.thy ===== *)
theory Output_Retention
  imports Utf8 Json_Values
begin

text \<open>
  Bounded retention of tool output (\<open>packages/util/output-retention/src/index.ts\<close>): the item retainer
  that keeps the first units, and the text retainer that keeps a prefix and a suffix of a byte
  stream within its budgets and decodes them at code-point boundaries. Text is a list of Unicode
  scalar values. However the stream is cut into chunks, the result is that of the whole stream,
  and a cut adds no replacement character.
\<close>

section \<open>Outcomes\<close>

datatype omission = NothingOmitted | ExactlyOmitted nat | UnknownOmitted

record push_decision =
  pd_kept :: bool
  pd_truncated :: bool

record 'a retained_items =
  ri_items :: "'a list"
  ri_truncated :: bool
  ri_seen :: nat
  ri_kept :: nat
  ri_omitted :: omission

record retained_text =
  rx_text :: scalars
  rx_truncated :: bool
  rx_omitted :: omission

datatype text_strategy =
    HeadBytes jsnum
  | TailBytes jsnum
  | HeadTailBytes jsnum jsnum

datatype notice_unit = ItemUnit | ByteUnit | CharUnit | LineUnit

record 'l retention_notice =
  rt_scope :: string
  rt_strategy :: string
  rt_unit :: notice_unit
  rt_limit :: 'l
  rt_kept :: nat
  rt_omitted :: omission

fun assert_budget :: "jsnum \<Rightarrow> string \<Rightarrow> (string, nat) result" where
  "assert_budget (NInt i) name =
     (if i < 0 then Inl (name @ '' must be a non-negative integer'') else Inr (nat i))"
| "assert_budget _ name = Inl (name @ '' must be a non-negative integer'')"

section \<open>Items\<close>

record 'a item_retainer =
  ir_max :: nat
  ir_items :: "'a list"
  ir_seen :: nat
  ir_omitted :: nat

definition new_item_retainer :: "jsnum \<Rightarrow> (string, 'a item_retainer) result" where
  "new_item_retainer max_items =
     rmap (\<lambda>m. \<lparr>ir_max = m, ir_items = [], ir_seen = 0, ir_omitted = 0\<rparr>) (assert_budget max_items ''maxItems'')"

definition push_item :: "'a \<Rightarrow> 'a item_retainer \<Rightarrow> push_decision \<times> 'a item_retainer" where
  "push_item x r =
     (let r1 = r\<lparr>ir_seen := ir_seen r + 1\<rparr> in
      if length (ir_items r1) < ir_max r1
      then (\<lparr>pd_kept = True, pd_truncated = False\<rparr>, r1\<lparr>ir_items := ir_items r1 @ [x]\<rparr>)
      else (\<lparr>pd_kept = False, pd_truncated = True\<rparr>, r1\<lparr>ir_omitted := ir_omitted r1 + 1\<rparr>))"

definition finish_items :: "'a item_retainer \<Rightarrow> 'a retained_items" where
  "finish_items r =
     (let truncated = (0 < ir_omitted r) in
      \<lparr>ri_items = ir_items r, ri_truncated = truncated, ri_seen = ir_seen r, ri_kept = length (ir_items r),
       ri_omitted = (if truncated then ExactlyOmitted (ir_omitted r) else NothingOmitted)\<rparr>)"

section \<open>Code-point boundaries\<close>

text \<open>The length of a sequence by its lead byte; 0 for a byte that leads none.\<close>

definition expected_length :: "byte \<Rightarrow> nat" where
  "expected_length lead =
     (if lead < 0x80 then 1 else if lead < 0xE0 then 2 else if lead < 0xF0 then 3 else if lead < 0xF8 then 4 else 0)"

text \<open>The scan back over at most three continuation bytes; the bytes come last first.\<close>

fun scanned_back :: "bytes \<Rightarrow> nat \<Rightarrow> nat" where
  "scanned_back [] k = k"
| "scanned_back (b # bs) k = (if is_continuation b \<and> Suc k \<le> 3 then scanned_back bs (Suc k) else k)"

definition trim_trailing_partial :: "bytes \<Rightarrow> bytes" where
  "trim_trailing_partial bs =
     (let k = scanned_back (rev bs) 0 in
      if k = length bs then bs
      else (let i = length bs - 1 - k; expected = expected_length (bs ! i) in
            if expected = 0 then bs
            else if length bs - i < expected then take i bs else bs))"

fun trim_leading_continuation :: "bytes \<Rightarrow> bytes" where
  "trim_leading_continuation [] = []"
| "trim_leading_continuation (b # bs) = (if is_continuation b then trim_leading_continuation bs else b # bs)"

section \<open>Text\<close>

record text_retainer =
  xr_prefix_cap :: nat
  xr_suffix_cap :: nat
  xr_prefix :: "bytes list"
  xr_prefix_held :: nat
  xr_suffix :: "bytes list"
  xr_suffix_held :: nat
  xr_total :: nat

definition text_retainer_with :: "nat \<Rightarrow> nat \<Rightarrow> text_retainer" where
  "text_retainer_with prefix_cap suffix_cap =
     \<lparr>xr_prefix_cap = prefix_cap, xr_suffix_cap = suffix_cap, xr_prefix = [], xr_prefix_held = 0,
      xr_suffix = [], xr_suffix_held = 0, xr_total = 0\<rparr>"

definition new_text_retainer :: "text_strategy \<Rightarrow> (string, text_retainer) result" where
  "new_text_retainer strategy =
     (case strategy of
        HeadBytes m \<Rightarrow> rmap (\<lambda>n. text_retainer_with n 0) (assert_budget m ''maxBytes'')
      | TailBytes m \<Rightarrow> rmap (\<lambda>n. text_retainer_with 0 n) (assert_budget m ''maxBytes'')
      | HeadTailBytes h t \<Rightarrow>
          rbind (assert_budget h ''headBytes'') (\<lambda>p. rmap (text_retainer_with p) (assert_budget t ''tailBytes'')))"

definition omitted_at :: "text_retainer \<Rightarrow> nat \<Rightarrow> nat" where
  "omitted_at r seen =
     (let prefix_len = min seen (xr_prefix_cap r);
          suffix_len = min (seen - prefix_len) (xr_suffix_cap r)
      in seen - prefix_len - suffix_len)"

text \<open>The whole chunks that have slid out of the window, and the trim of the one that reaches into it.\<close>

fun drop_slid :: "nat \<Rightarrow> bytes list \<Rightarrow> nat \<Rightarrow> bytes list \<times> nat" where
  "drop_slid cap [] held = ([], held)"
| "drop_slid cap (c # cs) held = (if cap \<le> held - length c then drop_slid cap cs (held - length c) else (c # cs, held))"

definition trim_excess :: "nat \<Rightarrow> bytes list \<times> nat \<Rightarrow> bytes list \<times> nat" where
  "trim_excess cap window =
     (case window of
        (c # cs, held) \<Rightarrow> if cap < held then (drop (held - cap) c # cs, held - (held - cap)) else window
      | _ \<Rightarrow> window)"

definition push_prefix :: "bytes \<Rightarrow> text_retainer \<Rightarrow> text_retainer" where
  "push_prefix bs r =
     (let taken = min (xr_prefix_cap r - xr_prefix_held r) (length bs) in
      if 0 < taken
      then r\<lparr>xr_prefix := xr_prefix r @ [take taken bs], xr_prefix_held := xr_prefix_held r + taken\<rparr> else r)"

definition push_suffix :: "bytes \<Rightarrow> text_retainer \<Rightarrow> text_retainer" where
  "push_suffix bs r =
     (if 0 < xr_suffix_cap r
      then (case trim_excess (xr_suffix_cap r)
                   (drop_slid (xr_suffix_cap r) (xr_suffix r @ [bs]) (xr_suffix_held r + length bs)) of
              (window, held) \<Rightarrow> r\<lparr>xr_suffix := window, xr_suffix_held := held\<rparr>)
      else r)"

definition push_bytes :: "bytes \<Rightarrow> text_retainer \<Rightarrow> push_decision \<times> text_retainer" where
  "push_bytes bs r =
     (let before = xr_total r;
          r1 = push_suffix bs (push_prefix bs (r\<lparr>xr_total := xr_total r + length bs\<rparr>))
      in (\<lparr>pd_kept = \<not> omitted_at r1 before < omitted_at r1 (xr_total r1), pd_truncated = 0 < omitted_at r1 (xr_total r1)\<rparr>,
          r1))"

datatype text_chunk =
    ByteChunk bytes
  | TextChunk scalars

definition chunk_bytes :: "text_chunk \<Rightarrow> bytes" where
  "chunk_bytes c = (case c of ByteChunk bs \<Rightarrow> bs | TextChunk t \<Rightarrow> utf8_encode t)"

definition push_chunk :: "text_chunk \<Rightarrow> text_retainer \<Rightarrow> push_decision \<times> text_retainer" where
  "push_chunk c r = push_bytes (chunk_bytes c) r"

definition finish_text :: "text_retainer \<Rightarrow> retained_text" where
  "finish_text r =
     (let prefix_len = min (xr_total r) (xr_prefix_cap r);
          suffix_len = min (xr_total r - prefix_len) (xr_suffix_cap r);
          prefix = concat (xr_prefix r);
          suffix = drop (xr_suffix_held r - suffix_len) (concat (xr_suffix r));
          gap = 0 < omitted_at r (xr_total r);
          kept_prefix = (if gap then trim_trailing_partial prefix else prefix);
          kept_suffix = (if gap then trim_leading_continuation suffix else suffix);
          omitted = xr_total r - length kept_prefix - length kept_suffix
      in \<lparr>rx_text = (if gap then utf8_decode kept_prefix @ utf8_decode kept_suffix else utf8_decode (prefix @ suffix)),
          rx_truncated = 0 < omitted, rx_omitted = (if 0 < omitted then ExactlyOmitted omitted else NothingOmitted)\<rparr>)"

section \<open>Notices\<close>

fun unit_word :: "notice_unit \<Rightarrow> string" where
  "unit_word ItemUnit = ''items''"
| "unit_word ByteUnit = ''bytes''"
| "unit_word CharUnit = ''chars''"
| "unit_word LineUnit = ''lines''"

fun describe_omitted :: "omission \<Rightarrow> notice_unit \<Rightarrow> string" where
  "describe_omitted NothingOmitted u = ''''"
| "describe_omitted (ExactlyOmitted n) u = ''Omitted '' @ show_nat n @ '' '' @ unit_word u @ ''.''"
| "describe_omitted UnknownOmitted u = ''More '' @ unit_word u @ '' were omitted.''"

definition format_retention_notice :: "'l retention_notice \<Rightarrow> ('l retention_notice \<Rightarrow> string) \<Rightarrow> string" where
  "format_retention_notice notice recovery =
     join_with '' '' (filter (\<lambda>part. 0 < length part) [describe_omitted (rt_omitted notice) (rt_unit notice), recovery notice])"

end
