(* ===== verification/Retention_Facts.thy ===== *)
theory Retention_Facts
  imports Output_Retention
begin

text \<open>
  Facts about bounded retention: what the retainers hold is a function of the whole stream and
  stays within the budgets, and cuts of well-formed text fall on code-point boundaries.
\<close>

section \<open>Items\<close>

definition push_items :: "'a list \<Rightarrow> 'a item_retainer \<Rightarrow> 'a item_retainer" where
  "push_items xs r = foldl (\<lambda>r x. snd (push_item x r)) r xs"

lemma pushed_items:
  "length (ir_items r) \<le> ir_max r \<Longrightarrow> (ir_omitted r = 0 \<or> length (ir_items r) = ir_max r) \<Longrightarrow>
   push_items xs r = r\<lparr>ir_items := ir_items r @ take (ir_max r - length (ir_items r)) xs, ir_seen := ir_seen r + length xs,
     ir_omitted := ir_omitted r + (length xs - (ir_max r - length (ir_items r)))\<rparr>"
proof (induction xs arbitrary: r)
  case (Cons x xs)
  then show ?case
    by (cases "length (ir_items r) < ir_max r")
      (auto simp: push_items_def push_item_def Let_def Suc_diff_le take_Cons' diff_Suc split: nat.splits)
qed (simp add: push_items_def)

section \<open>The window\<close>

definition last_bytes :: "nat \<Rightarrow> bytes \<Rightarrow> bytes" where
  "last_bytes n bs = drop (length bs - n) bs"

lemma last_bytes_length [simp]: "length (last_bytes n bs) = min n (length bs)"
  by (simp add: last_bytes_def min_def)

lemma last_bytes_all: "length bs \<le> n \<Longrightarrow> last_bytes n bs = bs"
  by (simp add: last_bytes_def)

lemma last_bytes_append: "n \<le> length ys \<Longrightarrow> last_bytes n (xs @ ys) = last_bytes n ys"
  by (simp add: last_bytes_def)

lemma last_bytes_more: "last_bytes n (last_bytes n xs @ ys) = last_bytes n (xs @ ys)"
  by (cases "length xs \<le> n") (auto simp: last_bytes_def add.commute)

lemma last_bytes_last: "m \<le> n \<Longrightarrow> last_bytes m (last_bytes n xs) = last_bytes m xs"
  by (cases "length xs \<le> n") (auto simp: last_bytes_def add.commute)

lemma drop_slid_keeps:
  assumes "drop_slid cap cs held = (cs', held')" "held = length (concat cs)" "0 < cap"
  shows "held' = length (concat cs') \<and> last_bytes cap (concat cs') = last_bytes cap (concat cs)
    \<and> (case cs' of [] \<Rightarrow> cs = [] | c # rest \<Rightarrow> length (concat rest) < cap)"
  using assms
proof (induction cs arbitrary: held)
  case (Cons c cs)
  show ?case
  proof (cases "cap \<le> held - length c")
    case True
    then have "cap \<le> length (concat cs)" using Cons.prems(2) by simp
    then have more: "last_bytes cap (concat (c # cs)) = last_bytes cap (concat cs)" by (simp add: last_bytes_append)
    have "cs \<noteq> []" using \<open>cap \<le> length (concat cs)\<close> Cons.prems(3) by (cases cs) simp_all
    moreover have "drop_slid cap cs (held - length c) = (cs', held')" "held - length c = length (concat cs)"
      using Cons.prems True by simp_all
    note Cons.IH [OF this Cons.prems(3)]
    ultimately show ?thesis unfolding more by (cases cs') simp_all
  next
    case False
    then show ?thesis using Cons.prems by auto
  qed
qed simp

lemma trim_excess_keeps:
  assumes "held = length (concat cs)" "case cs of [] \<Rightarrow> True | c # rest \<Rightarrow> length (concat rest) < cap"
  shows "trim_excess cap (cs, held) = (cs', held') \<Longrightarrow> concat cs' = last_bytes cap (concat cs) \<and> held' = length (concat cs')"
  using assms
  by (cases cs) (auto simp: trim_excess_def last_bytes_def min_def split: if_splits)

section \<open>The retainer as a function of the stream\<close>

definition retains :: "nat \<Rightarrow> nat \<Rightarrow> bytes \<Rightarrow> text_retainer \<Rightarrow> bool" where
  "retains p s all r \<longleftrightarrow>
     xr_prefix_cap r = p \<and> xr_suffix_cap r = s \<and> xr_total r = length all
     \<and> concat (xr_prefix r) = take p all \<and> xr_prefix_held r = length (concat (xr_prefix r))
     \<and> concat (xr_suffix r) = last_bytes s all \<and> xr_suffix_held r = length (concat (xr_suffix r))"

lemma retains_new: "retains p s [] (text_retainer_with p s)"
  by (simp add: retains_def text_retainer_with_def last_bytes_def)

lemma push_prefix_retains:
  assumes "concat (xr_prefix r) = take (xr_prefix_cap r) all" "xr_prefix_held r = length (concat (xr_prefix r))"
  shows "concat (xr_prefix (push_prefix bs r)) = take (xr_prefix_cap r) (all @ bs)
    \<and> xr_prefix_held (push_prefix bs r) = length (concat (xr_prefix (push_prefix bs r)))"
  using assms by (auto simp: push_prefix_def Let_def min_def)

lemma push_prefix_frame [simp]:
  "xr_prefix_cap (push_prefix bs r) = xr_prefix_cap r" "xr_suffix_cap (push_prefix bs r) = xr_suffix_cap r"
  "xr_suffix (push_prefix bs r) = xr_suffix r" "xr_suffix_held (push_prefix bs r) = xr_suffix_held r"
  "xr_total (push_prefix bs r) = xr_total r"
  by (simp_all add: push_prefix_def Let_def)

lemma push_suffix_frame [simp]:
  "xr_prefix_cap (push_suffix bs r) = xr_prefix_cap r" "xr_suffix_cap (push_suffix bs r) = xr_suffix_cap r"
  "xr_prefix (push_suffix bs r) = xr_prefix r" "xr_prefix_held (push_suffix bs r) = xr_prefix_held r"
  "xr_total (push_suffix bs r) = xr_total r"
  by (simp_all add: push_suffix_def split: prod.split)

lemma push_suffix_retains:
  assumes "concat (xr_suffix r) = last_bytes (xr_suffix_cap r) all" "xr_suffix_held r = length (concat (xr_suffix r))"
  shows "concat (xr_suffix (push_suffix bs r)) = last_bytes (xr_suffix_cap r) (all @ bs)
    \<and> xr_suffix_held (push_suffix bs r) = length (concat (xr_suffix (push_suffix bs r)))"
proof (cases "xr_suffix_cap r = 0")
  case True
  then show ?thesis using assms by (simp add: push_suffix_def last_bytes_def)
next
  case False
  let ?cap = "xr_suffix_cap r" and ?cs = "xr_suffix r @ [bs]"
  obtain cs held where slid: "drop_slid ?cap ?cs (xr_suffix_held r + length bs) = (cs, held)"
    by (cases "drop_slid ?cap ?cs (xr_suffix_held r + length bs)")
  have "xr_suffix_held r + length bs = length (concat ?cs)" using assms(2) by simp
  note kept = drop_slid_keeps [OF slid this] False
  obtain cs' held' where trim: "trim_excess ?cap (cs, held) = (cs', held')" by (cases "trim_excess ?cap (cs, held)")
  have "case cs of [] \<Rightarrow> True | c # rest \<Rightarrow> length (concat rest) < ?cap" using kept by (auto split: list.splits)
  from trim_excess_keeps [OF _ this trim] kept
  have "concat cs' = last_bytes ?cap (concat ?cs) \<and> held' = length (concat cs')" by simp
  moreover have "concat ?cs = last_bytes ?cap all @ bs" using assms(1) by simp
  ultimately show ?thesis using False slid trim by (simp add: push_suffix_def last_bytes_more)
qed

lemma push_retains: "retains p s all r \<Longrightarrow> retains p s (all @ bs) (snd (push_bytes bs r))"
  using push_prefix_retains [of "r\<lparr>xr_total := xr_total r + length bs\<rparr>" all bs]
    push_suffix_retains [of "push_prefix bs (r\<lparr>xr_total := xr_total r + length bs\<rparr>)" all bs]
  by (simp add: retains_def push_bytes_def Let_def)

definition push_chunks :: "text_chunk list \<Rightarrow> text_retainer \<Rightarrow> text_retainer" where
  "push_chunks cs r = foldl (\<lambda>r c. snd (push_chunk c r)) r cs"

lemma pushed_retains: "retains p s all r \<Longrightarrow> retains p s (all @ concat (map chunk_bytes cs)) (push_chunks cs r)"
proof (induction cs arbitrary: all r)
  case (Cons c cs)
  from Cons.IH [OF push_retains [OF Cons.prems, of "chunk_bytes c"]]
  show ?case by (simp add: push_chunks_def push_chunk_def)
qed (simp add: push_chunks_def)

text \<open>The result of the whole stream.\<close>

definition retained_of :: "nat \<Rightarrow> nat \<Rightarrow> bytes \<Rightarrow> retained_text" where
  "retained_of p s all =
     (if length all \<le> p + s then \<lparr>rx_text = utf8_decode all, rx_truncated = False, rx_omitted = NothingOmitted\<rparr>
      else (let before = trim_trailing_partial (take p all); after = trim_leading_continuation (last_bytes s all);
                omitted = length all - length before - length after
            in \<lparr>rx_text = utf8_decode before @ utf8_decode after, rx_truncated = 0 < omitted,
                rx_omitted = (if 0 < omitted then ExactlyOmitted omitted else NothingOmitted)\<rparr>))"

lemma finish_retained:
  assumes "retains p s all r"
  shows "finish_text r = retained_of p s all"
proof -
  have omitted: "omitted_at r (xr_total r) = length all - (p + s)"
    using assms by (auto simp: omitted_at_def retains_def Let_def min_def)
  show ?thesis
  proof (cases "length all \<le> p + s")
    case True
    have "take p all @ drop (min s (length all) - min (length all - min (length all) p) s) (last_bytes s all) = all"
    proof (cases "length all \<le> p")
      case False
      then have "min (length all - min (length all) p) s = length all - p" using True by simp
      then have "drop (min s (length all) - min (length all - min (length all) p) s) (last_bytes s all) = drop p all"
        using True False by (simp add: last_bytes_def min_def)
      then show ?thesis by simp
    qed (simp add: last_bytes_def)
    moreover have "length (drop (min s (length all) - min (length all - min (length all) p) s) (last_bytes s all)) = length all - min (length all) p"
      using True by (auto simp: min_def)
    ultimately show ?thesis using assms True omitted
      by (simp add: finish_text_def retained_of_def retains_def Let_def min.commute)
  next
    case False
    then have "min (length all) p = p" "min (length all - p) s = s" "min s (length all) = s" by simp_all
    then show ?thesis using assms False omitted
      by (simp add: finish_text_def retained_of_def retains_def Let_def)
  qed
qed

section \<open>Cuts of well-formed text\<close>

text \<open>The bytes of a scalar: a lead that tells how many continuation bytes follow.\<close>

lemma expected_length_unat:
  "expected_length b = (if unat b < 0x80 then 1 else if unat b < 0xE0 then 2 else if unat b < 0xF0 then 3 else if unat b < 0xF8 then 4 else 0)"
  by (simp add: expected_length_def word_less_nat_alt)

lemma continuation_is [simp]: "is_continuation (continuation n)"
  using small_digit [of n] by (simp add: is_continuation_unat)

lemma scalar_bytes:
  assumes "is_scalar c"
  shows "\<exists>lead tail. encode_scalar c = lead # tail \<and> \<not> is_continuation lead \<and> list_all is_continuation tail
    \<and> expected_length lead = Suc (length tail) \<and> length tail \<le> 3"
proof -
  consider (one) "c < 0x80" | (two) "0x80 \<le> c" "c < 0x800" | (three) "0x800 \<le> c" "c < 0x10000"
    | (four) "0x10000 \<le> c" "c < 0x110000"
    using assms unfolding is_scalar_def by linarith
  then show ?thesis
  proof cases
    case one
    then show ?thesis by (simp add: encode_scalar_def is_continuation_unat expected_length_unat)
  next
    case two
    then have "2 \<le> c div 64" "c div 64 < 32" by auto
    then show ?thesis using two by (simp add: encode_scalar_def is_continuation_unat expected_length_unat)
  next
    case three
    then have "c div 4096 < 16" by auto
    then show ?thesis using three by (simp add: encode_scalar_def is_continuation_unat expected_length_unat)
  next
    case four
    then have "c div 262144 < 5" by auto
    then show ?thesis using four by (simp add: encode_scalar_def is_continuation_unat expected_length_unat)
  qed
qed

text \<open>The scan back.\<close>

lemma scanned_back_tail:
  "list_all is_continuation tail \<Longrightarrow> \<not> is_continuation lead \<Longrightarrow> k + length tail \<le> 3 \<Longrightarrow>
   scanned_back (tail @ lead # bs) k = k + length tail"
  by (induction tail arbitrary: k) auto

lemma trim_trailing_sequence:
  assumes "list_all is_continuation tail" "\<not> is_continuation lead" "length tail \<le> 3" "0 < expected_length lead"
  shows "trim_trailing_partial (bs @ lead # tail) = (if Suc (length tail) < expected_length lead then bs else bs @ lead # tail)"
proof -
  have "scanned_back (rev (bs @ lead # tail)) 0 = length tail"
    using scanned_back_tail [of "rev tail" lead 0 "rev bs"] assms by simp
  then show ?thesis using assms(4) by (simp add: trim_trailing_partial_def Let_def nth_append)
qed

lemma encode_append [simp]: "utf8_encode (xs @ ys) = utf8_encode xs @ utf8_encode ys"
  by (simp add: utf8_encode_def)

lemma encode_single [simp]: "utf8_encode [c] = encode_scalar c" "utf8_encode [] = []"
  by (simp_all add: utf8_encode_def)

lemma encode_Cons: "utf8_encode (c # cs) = encode_scalar c @ utf8_encode cs"
  by (simp add: utf8_encode_def)

text \<open>A cut of encoded text is inside the bytes of one scalar.\<close>

lemma encode_cut:
  assumes "n < length (utf8_encode cs)"
  shows "\<exists>as c bs m. cs = as @ c # bs \<and> m < length (encode_scalar c)
    \<and> take n (utf8_encode cs) = utf8_encode as @ take m (encode_scalar c)
    \<and> drop n (utf8_encode cs) = drop m (encode_scalar c) @ utf8_encode bs"
  using assms
proof (induction cs arbitrary: n)
  case (Cons c cs)
  show ?case
  proof (cases "n < length (encode_scalar c)")
    case True
    then show ?thesis by (intro exI [of _ "[]"] exI [of _ c] exI [of _ cs] exI [of _ n]) (simp add: encode_Cons)
  next
    case False
    then have "n - length (encode_scalar c) < length (utf8_encode cs)" using Cons.prems by (simp add: encode_Cons)
    from Cons.IH [OF this] obtain as d bs m where "cs = as @ d # bs" "m < length (encode_scalar d)"
      "take (n - length (encode_scalar c)) (utf8_encode cs) = utf8_encode as @ take m (encode_scalar d)"
      "drop (n - length (encode_scalar c)) (utf8_encode cs) = drop m (encode_scalar d) @ utf8_encode bs"
      by blast
    then show ?thesis using False
      by (intro exI [of _ "c # as"] exI [of _ d] exI [of _ bs] exI [of _ m]) (simp add: encode_Cons)
  qed
qed simp

lemma trim_trailing_whole:
  assumes "list_all is_scalar cs"
  shows "trim_trailing_partial (utf8_encode cs) = utf8_encode cs"
proof (cases cs rule: rev_cases)
  case Nil
  then show ?thesis by (simp add: trim_trailing_partial_def)
next
  case (snoc as c)
  then have "is_scalar c" using assms by simp
  then obtain lead tail where "encode_scalar c = lead # tail" "\<not> is_continuation lead" "list_all is_continuation tail"
    "expected_length lead = Suc (length tail)" "length tail \<le> 3"
    using scalar_bytes by blast
  then show ?thesis using trim_trailing_sequence [of tail lead "utf8_encode as"] snoc by simp
qed

lemma trim_trailing_cut:
  assumes "list_all is_scalar cs" "n < length (utf8_encode cs)"
  shows "\<exists>as bs. cs = as @ bs \<and> trim_trailing_partial (take n (utf8_encode cs)) = utf8_encode as
    \<and> length (utf8_encode as) \<le> n \<and> n \<le> length (utf8_encode as) + 3"
proof -
  obtain as c bs m where cut: "cs = as @ c # bs" "m < length (encode_scalar c)"
    "take n (utf8_encode cs) = utf8_encode as @ take m (encode_scalar c)"
    using encode_cut [OF assms(2)] by blast
  have n: "n = length (utf8_encode as) + m"
    using arg_cong [OF cut(3), of length] assms(2) cut(2) by simp
  have scalars: "list_all is_scalar as" "is_scalar c" using assms(1) cut(1) by simp_all
  obtain lead tail where c: "encode_scalar c = lead # tail" "\<not> is_continuation lead" "list_all is_continuation tail"
    "expected_length lead = Suc (length tail)" "length tail \<le> 3"
    using scalar_bytes [OF scalars(2)] by blast
  have "trim_trailing_partial (take n (utf8_encode cs)) = utf8_encode as"
  proof (cases m)
    case 0
    then show ?thesis using cut(3) trim_trailing_whole [OF scalars(1)] by simp
  next
    case (Suc k)
    then have "take n (utf8_encode cs) = utf8_encode as @ lead # take k tail" "k < length tail"
      using cut(2,3) c(1) by simp_all
    moreover have "list_all is_continuation (take k tail)" using c(3) by (auto simp: list_all_iff dest: in_set_takeD)
    ultimately show ?thesis using trim_trailing_sequence [of "take k tail" lead "utf8_encode as"] c by simp
  qed
  then show ?thesis using cut(1,2) n c(1,5) by (intro exI [of _ as] exI [of _ "c # bs"]) simp
qed

lemma trim_leading_tail: "list_all is_continuation tail \<Longrightarrow> trim_leading_continuation (tail @ bs) = trim_leading_continuation bs"
  by (induction tail) simp_all

lemma trim_leading_whole:
  assumes "list_all is_scalar cs"
  shows "trim_leading_continuation (utf8_encode cs) = utf8_encode cs"
proof (cases cs)
  case (Cons c bs)
  then obtain lead tail where "encode_scalar c = lead # tail" "\<not> is_continuation lead"
    using scalar_bytes [of c] assms by auto
  then show ?thesis by (simp add: Cons encode_Cons)
qed simp

lemma trim_leading_cut:
  assumes "list_all is_scalar cs" "n < length (utf8_encode cs)"
  shows "\<exists>as bs. cs = as @ bs \<and> trim_leading_continuation (last_bytes n (utf8_encode cs)) = utf8_encode bs
    \<and> length (utf8_encode bs) \<le> n \<and> n \<le> length (utf8_encode bs) + 3"
proof (cases n)
  case 0
  then show ?thesis by (intro exI [of _ cs] exI [of _ "[]"]) (simp add: last_bytes_def)
next
  case (Suc n')
  let ?k = "length (utf8_encode cs) - n"
  have "?k < length (utf8_encode cs)" using assms(2) Suc by simp
  from encode_cut [OF this] obtain as c bs m where cut: "cs = as @ c # bs" "m < length (encode_scalar c)"
    "drop ?k (utf8_encode cs) = drop m (encode_scalar c) @ utf8_encode bs"
    by blast
  have n: "n = length (encode_scalar c) - m + length (utf8_encode bs)"
    using arg_cong [OF cut(3), of length] assms(2) by simp
  have scalars: "list_all is_scalar bs" "is_scalar c" "list_all is_scalar (c # bs)" using assms(1) cut(1) by simp_all
  obtain lead tail where c: "encode_scalar c = lead # tail" "\<not> is_continuation lead" "list_all is_continuation tail" "length tail \<le> 3"
    using scalar_bytes [OF scalars(2)] by blast
  show ?thesis
  proof (cases m)
    case 0
    then have "last_bytes n (utf8_encode cs) = utf8_encode (c # bs)" using cut(3) by (simp add: last_bytes_def encode_Cons)
    then show ?thesis using trim_leading_whole [OF scalars(3)] cut(1) n 0
      by (intro exI [of _ as] exI [of _ "c # bs"]) (simp add: encode_Cons)
  next
    case (Suc k)
    then have "last_bytes n (utf8_encode cs) = drop k tail @ utf8_encode bs" using cut(3) c(1) by (simp add: last_bytes_def)
    moreover have "list_all is_continuation (drop k tail)" using c(3) by (auto simp: list_all_iff dest: in_set_dropD)
    ultimately have "trim_leading_continuation (last_bytes n (utf8_encode cs)) = utf8_encode bs"
      by (simp add: trim_leading_tail trim_leading_whole [OF scalars(1)])
    then show ?thesis using cut(1) n Suc c(1,4) by (intro exI [of _ "as @ [c]"] exI [of _ bs]) simp
  qed
qed

text \<open>Text without byte-order marks comes back as its own prefix and suffix.\<close>

definition plain_text :: "scalars \<Rightarrow> bool" where
  "plain_text cs \<longleftrightarrow> list_all is_scalar cs \<and> BYTE_ORDER_MARK \<notin> set cs"

lemma decode_plain:
  assumes "plain_text cs"
  shows "utf8_decode (utf8_encode cs) = cs"
proof (cases cs)
  case Nil
  then show ?thesis by (simp add: utf8_decode_def)
next
  case (Cons c rest)
  then have "utf8_decode (utf8_encode cs) = (if hd cs = BYTE_ORDER_MARK then tl cs else cs)"
    using assms utf8_inverse by (simp add: plain_text_def)
  then show ?thesis using assms Cons by (auto simp: plain_text_def)
qed

lemma plain_append [simp]: "plain_text (xs @ ys) \<longleftrightarrow> plain_text xs \<and> plain_text ys"
  by (auto simp: plain_text_def)

lemma retained_plain:
  assumes "plain_text cs" "p + s < length (utf8_encode cs)"
  shows "\<exists>as ms bs. cs = as @ ms @ bs \<and> rx_text (retained_of p s (utf8_encode cs)) = as @ bs
    \<and> rx_omitted (retained_of p s (utf8_encode cs)) = ExactlyOmitted (length (utf8_encode ms))
    \<and> length (utf8_encode as) \<le> p \<and> p \<le> length (utf8_encode as) + 3
    \<and> length (utf8_encode bs) \<le> s \<and> s \<le> length (utf8_encode bs) + 3"
proof -
  have scalars: "list_all is_scalar cs" using assms(1) by (simp add: plain_text_def)
  obtain as rest where head: "cs = as @ rest" "trim_trailing_partial (take p (utf8_encode cs)) = utf8_encode as"
    "length (utf8_encode as) \<le> p" "p \<le> length (utf8_encode as) + 3"
    using trim_trailing_cut [OF scalars, of p] assms(2) by auto
  obtain front bs where tail: "cs = front @ bs" "trim_leading_continuation (last_bytes s (utf8_encode cs)) = utf8_encode bs"
    "length (utf8_encode bs) \<le> s" "s \<le> length (utf8_encode bs) + 3"
    using trim_leading_cut [OF scalars, of s] assms(2) by auto
  have "length (utf8_encode as) + length (utf8_encode bs) < length (utf8_encode cs)" using head(3) tail(3) assms(2) by simp
  then obtain ms where ms: "cs = as @ ms @ bs"
    using head(1) tail(1) by (auto simp: append_eq_append_conv2)
  have "utf8_encode cs = utf8_encode as @ utf8_encode ms @ utf8_encode bs" by (simp add: ms)
  then have omitted: "length (utf8_encode cs) - length (utf8_encode as) - length (utf8_encode bs) = length (utf8_encode ms)" by simp
  moreover have "0 < length (utf8_encode ms)"
    using \<open>length (utf8_encode as) + length (utf8_encode bs) < length (utf8_encode cs)\<close> omitted by linarith
  ultimately show ?thesis
    using ms head tail assms by (intro exI [of _ as] exI [of _ ms] exI [of _ bs]) (simp add: retained_of_def Let_def decode_plain)
qed

text \<open>The two outcomes together, from any budgets the constructor accepts.\<close>

lemma new_retains: "new_text_retainer strategy = Inr r \<Longrightarrow> retains (xr_prefix_cap r) (xr_suffix_cap r) [] r"
  by (auto simp: new_text_retainer_def text_retainer_with_def retains_def last_bytes_def rbind_def rmap_def
      split: text_strategy.splits sum.splits)

lemma retained_cases:
  assumes "retains p s (utf8_encode cs) r" "plain_text cs"
  shows "length (concat (xr_prefix r)) \<le> p \<and> length (concat (xr_suffix r)) \<le> s
    \<and> (if length (utf8_encode cs) \<le> p + s
       then finish_text r = \<lparr>rx_text = cs, rx_truncated = False, rx_omitted = NothingOmitted\<rparr>
       else \<exists>as ms bs. cs = as @ ms @ bs
         \<and> finish_text r = \<lparr>rx_text = as @ bs, rx_truncated = True, rx_omitted = ExactlyOmitted (length (utf8_encode ms))\<rparr>
         \<and> length (utf8_encode as) \<le> p \<and> p \<le> length (utf8_encode as) + 3
         \<and> length (utf8_encode bs) \<le> s \<and> s \<le> length (utf8_encode bs) + 3)"
proof (cases "length (utf8_encode cs) \<le> p + s")
  case True
  then show ?thesis using finish_retained [OF assms(1)] assms
    by (simp add: retained_of_def decode_plain) (simp add: retains_def)
next
  case False
  then have "p + s < length (utf8_encode cs)" by simp
  from retained_plain [OF assms(2) this] False finish_retained [OF assms(1)] assms(1)
  show ?thesis by (auto simp: retained_of_def Let_def retains_def split: if_splits)
qed

end
