(* ===== verification/Token_Meter.thy ===== *)
theory Token_Meter
  imports Surface Request_Header Json_Text
begin

text \<open>
  The token meter (\<open>packages/llm/token-meter/src\<close>): the fixed-density estimate of \<open>estimate.ts\<close>,
  the priced surface of \<open>surface-fold.ts\<close>, and the replay service of \<open>index.ts\<close> that keeps one
  fold per session, catches it up with the log before each read and anchors the measurement on
  the usage a provider reported. The parameter \<open>dec\<close> is the decimal text of a number. Sums of
  numbers are exact: token counts stay far below the precision of a double.
\<close>

section \<open>Sums of numbers\<close>

fun dyadic :: "int \<Rightarrow> nat \<Rightarrow> jsnum" where
  "dyadic m 0 = NInt m"
| "dyadic m (Suc e) = (if even m then dyadic (m div 2) e else NFrac m (Suc e))"

fun num_add :: "jsnum \<Rightarrow> jsnum \<Rightarrow> jsnum" where
  "num_add NNaN b = NNaN"
| "num_add (NInf s) b = (if b = NNaN \<or> b = NInf (\<not> s) then NNaN else NInf s)"
| "num_add (NInt i) (NInt j) = NInt (i + j)"
| "num_add a b =
     (case b of
        NNaN \<Rightarrow> NNaN
      | NInf s \<Rightarrow> NInf s
      | _ \<Rightarrow> (case (num_parts a, num_parts b) of
                ((m, d), (n, e)) \<Rightarrow> dyadic (m * 2 ^ e + n * 2 ^ d) (d + e)))"

fun num_neg :: "jsnum \<Rightarrow> jsnum" where
  "num_neg (NInt i) = NInt (- i)"
| "num_neg (NFrac m e) = NFrac (- m) e"
| "num_neg (NInf s) = NInf (\<not> s)"
| "num_neg NNaN = NNaN"

definition num_sub :: "jsnum \<Rightarrow> jsnum \<Rightarrow> jsnum" where
  "num_sub a b = num_add a (num_neg b)"

text \<open>\<open>a >= b\<close>, false for NaN, and \<open>Math.max(0, a)\<close>.\<close>

fun num_ge :: "jsnum \<Rightarrow> jsnum \<Rightarrow> bool" where
  "num_ge NNaN b = False"
| "num_ge a NNaN = False"
| "num_ge (NInf s) b = (\<not> s \<or> b = NInf True)"
| "num_ge a (NInf s) = s"
| "num_ge a b = (fst (num_parts b) * 2 ^ snd (num_parts a) \<le> fst (num_parts a) * 2 ^ snd (num_parts b))"

definition num_max0 :: "jsnum \<Rightarrow> jsnum" where
  "num_max0 a = (if a = NNaN then NNaN else if num_ge a (NInt 0) then a else NInt 0)"

lemma num_sub_int [simp]: "num_sub (NInt i) (NInt j) = NInt (i - j)"
  by (simp add: num_sub_def)

lemma num_ge_int [simp]: "num_ge (NInt i) (NInt j) \<longleftrightarrow> j \<le> i"
  by simp

lemma num_max0_int [simp]: "num_max0 (NInt i) = NInt (max 0 i)"
  by (simp add: num_max0_def max_def)

section \<open>Estimates\<close>

definition chars_per_token :: nat where
  "chars_per_token = 4"

definition BLOCK_OVERHEAD :: nat where
  "BLOCK_OVERHEAD = 4"

definition ROLE_OVERHEAD :: nat where
  "ROLE_OVERHEAD = 4"

text \<open>\<open>Math.ceil(length / CHARS_PER_TOKEN)\<close>.\<close>

definition text_tokens :: "string \<Rightarrow> nat" where
  "text_tokens s = (length s + chars_per_token - 1) div chars_per_token"

text \<open>A block of a kind the estimator does not know, as the object it is.\<close>

fun other_block_json :: "content_block \<Rightarrow> json" where
  "other_block_json (ImageBlock attachment) = JObj [(''type'', JStr ''image''), (''attachment'', attachment)]"
| "other_block_json b =
     JObj ((''type'', JStr (block_type b)) # (case b of OtherBlock _ (JObj kvs) \<Rightarrow> kvs | _ \<Rightarrow> []))"

fun estimate_block :: "(jsnum \<Rightarrow> string) \<Rightarrow> content_block \<Rightarrow> nat"
  and estimate_content :: "(jsnum \<Rightarrow> string) \<Rightarrow> content_block list \<Rightarrow> nat" where
  "estimate_block dec (TextBlock t) = text_tokens t + BLOCK_OVERHEAD"
| "estimate_block dec (ReasoningBlock t) = text_tokens t + BLOCK_OVERHEAD"
| "estimate_block dec (ToolCallBlock _ name args) = text_tokens name + text_tokens args + BLOCK_OVERHEAD"
| "estimate_block dec (ToolResultBlock _ content _) = estimate_content dec content + BLOCK_OVERHEAD"
| "estimate_block dec (ImageBlock j) = BLOCK_OVERHEAD + text_tokens (json_text dec (other_block_json (ImageBlock j)))"
| "estimate_block dec (OtherBlock t j) = BLOCK_OVERHEAD + text_tokens (json_text dec (other_block_json (OtherBlock t j)))"
| "estimate_content dec [] = 0"
| "estimate_content dec (b # bs) = estimate_block dec b + estimate_content dec bs"

definition estimate_message :: "(jsnum \<Rightarrow> string) \<Rightarrow> message \<Rightarrow> nat" where
  "estimate_message dec m = estimate_content dec (msg_content m) + ROLE_OVERHEAD"

definition estimate_system_tokens :: "epoch_header option \<Rightarrow> nat" where
  "estimate_system_tokens header =
     (case header of
        None \<Rightarrow> 0
      | Some h \<Rightarrow> (case eh_system h of None \<Rightarrow> 0 | Some s \<Rightarrow> text_tokens s + ROLE_OVERHEAD))"

definition schema_json :: "tool_schema \<Rightarrow> json" where
  "schema_json t =
     JObj [(''name'', JStr (ts_name t)), (''description'', JStr (ts_description t)), (''parameters'', JObj (ts_parameters t))]"

definition estimate_tools_tokens :: "(jsnum \<Rightarrow> string) \<Rightarrow> epoch_header option \<Rightarrow> nat" where
  "estimate_tools_tokens dec header =
     (case header of
        None \<Rightarrow> 0
      | Some h \<Rightarrow>
          (case eh_tools h of
             None \<Rightarrow> 0
           | Some tools \<Rightarrow>
               (if tools = [] then 0
                else text_tokens (json_text dec (JArr (map schema_json tools))) + BLOCK_OVERHEAD)))"

definition estimate_header :: "(jsnum \<Rightarrow> string) \<Rightarrow> epoch_header option \<Rightarrow> nat" where
  "estimate_header dec header = estimate_system_tokens header + estimate_tools_tokens dec header"

section \<open>The priced surface\<close>

type_synonym token_nodes = "(nat \<times> nat) list"

datatype meter_error =
    RangeNotOnSurface nat
  | StepStartUnended nat int int
  | StepEndUnmatched nat
  | AssistantUnmatched nat
  | MeterSourceNotEarlier nat nat
  | MeterSourceRepeated nat nat
  | MeterSourceNotChunk nat nat
  | MeterSourceOtherStep nat nat
  | MeterSourceUnreadable nat
  | MeterAssembly assemble_error

record surface_token_fold =
  stf_tokens :: nat
  stf_nodes :: token_nodes
  stf_delta :: int

text \<open>A field of the surface marker; \<open>None\<close> is \<open>undefined\<close>.\<close>

definition op_field :: "session_event \<Rightarrow> string \<Rightarrow> json option" where
  "op_field e name = (case ev_surface_op e of Some (JObj kvs) \<Rightarrow> map_of kvs name | _ \<Rightarrow> None)"

definition is_seq :: "json option \<Rightarrow> nat \<Rightarrow> bool" where
  "is_seq field n \<longleftrightarrow> field = Some (JNum (NInt (int n)))"

definition event_tokens :: "(jsnum \<Rightarrow> string) \<Rightarrow> session_event \<Rightarrow> nat" where
  "event_tokens dec e = (case derive_event_message (ev_data e) of None \<Rightarrow> 0 | Some m \<Rightarrow> estimate_message dec m)"

definition fold_surface_tokens ::
    "(jsnum \<Rightarrow> string) \<Rightarrow> token_nodes \<Rightarrow> session_event \<Rightarrow> (meter_error, surface_token_fold) result" where
  "fold_surface_tokens dec nodes e =
     (let tokens = event_tokens dec e in
      if ev_surface_op e = Some (JStr ''append'')
      then Inr \<lparr>stf_tokens = tokens, stf_nodes = nodes @ [(ev_seq e, tokens)], stf_delta = int tokens\<rparr>
      else (case (find_index (\<lambda>n. is_seq (op_field e ''start'') (fst n)) nodes,
                  find_index (\<lambda>n. is_seq (op_field e ''end'') (fst n)) nodes) of
              (Some i, Some j) \<Rightarrow>
                (if j < i then Inl (RangeNotOnSurface (ev_seq e))
                 else (let removed = sum_list (map snd (slice nodes i (Suc j))) in
                       Inr \<lparr>stf_tokens = tokens, stf_nodes = js_splice nodes i (j - i + 1) [(ev_seq e, tokens)],
                            stf_delta = int tokens - int removed\<rparr>))
            | _ \<Rightarrow> Inl (RangeNotOnSurface (ev_seq e))))"

section \<open>The replay state\<close>

datatype token_baseline =
    NoBaseline
  | EstimatedBaseline int
  | UsageBaseline jsnum token_usage

fun baseline_tokens :: "token_baseline \<Rightarrow> jsnum" where
  "baseline_tokens NoBaseline = NInt 0"
| "baseline_tokens (EstimatedBaseline n) = NInt n"
| "baseline_tokens (UsageBaseline n _) = n"

record measurement_anchor =
  an_header :: "epoch_header option"
  an_surface :: int
  an_baseline :: token_baseline

record replay_state =
  rs_consumed :: nat
  rs_header :: "epoch_header option"
  rs_surface :: token_nodes
  rs_surface_tokens :: int
  rs_step :: "(int \<times> int \<times> int) option"
  rs_anchor :: "measurement_anchor option"

definition fresh_replay :: replay_state where
  "fresh_replay =
     \<lparr>rs_consumed = 0, rs_header = None, rs_surface = [], rs_surface_tokens = 0, rs_step = None, rs_anchor = None\<rparr>"

definition or_zero :: "jsnum option \<Rightarrow> jsnum" where
  "or_zero n = (case n of None \<Rightarrow> NInt 0 | Some v \<Rightarrow> v)"

definition usage_tokens :: "token_usage \<Rightarrow> jsnum" where
  "usage_tokens u =
     num_add (num_add (num_add (tu_input u) (or_zero (tu_cache_read u))) (or_zero (tu_cache_write u))) (tu_output u)"

definition optional_header_equals :: "epoch_header option \<Rightarrow> epoch_header option \<Rightarrow> bool" where
  "optional_header_equals a b =
     (case (a, b) of (Some x, Some y) \<Rightarrow> header_equals x y | (None, None) \<Rightarrow> True | _ \<Rightarrow> False)"

text \<open>The provider output behind an assistant message, from the chunks it cites.\<close>

fun cited_chunks ::
    "event_log \<Rightarrow> nat \<Rightarrow> int \<Rightarrow> int \<Rightarrow> nat list \<Rightarrow> json list \<Rightarrow> (meter_error, stream_chunk list) result" where
  "cited_chunks log n turn step seen [] = Inr []"
| "cited_chunks log n turn step seen (j # js) =
     (case event_seq_of j of
        None \<Rightarrow> Inl (MeterSourceUnreadable n)
      | Some k \<Rightarrow>
          (if n \<le> k then Inl (MeterSourceNotEarlier n k)
           else if k \<in> set seen then Inl (MeterSourceRepeated n k)
           else (case nth_opt log k of
                   None \<Rightarrow> Inl (MeterSourceUnreadable n)
                 | Some source \<Rightarrow>
                     (case ev_data source of
                        AssistantChunk t s c \<Rightarrow>
                          (if t = turn \<and> s = step then rmap ((#) c) (cited_chunks log n turn step (k # seen) js)
                           else Inl (MeterSourceOtherStep n k))
                      | _ \<Rightarrow> Inl (MeterSourceNotChunk n k)))))"

definition estimate_provider_assistant ::
    "(jsnum \<Rightarrow> string) \<Rightarrow> event_log \<Rightarrow> session_event \<Rightarrow> int \<Rightarrow> int \<Rightarrow> nat \<Rightarrow> (meter_error, nat) result" where
  "estimate_provider_assistant dec log e turn step durable =
     (case ev_sources e of
        None \<Rightarrow> Inr durable
      | Some (JArr raw) \<Rightarrow>
          rbind (cited_chunks log (ev_seq e) turn step [] raw)
            (\<lambda>chunks. rmap (\<lambda>blocks. if blocks = [] then 0 else estimate_content dec blocks + ROLE_OVERHEAD)
               (map_error MeterAssembly (ba_blocks (ba_run chunks))))
      | Some _ \<Rightarrow> Inl (MeterSourceUnreadable (ev_seq e)))"

text \<open>The step bookkeeping of one event.\<close>

definition fold_step_bounds ::
    "replay_state \<Rightarrow> session_event \<Rightarrow> (meter_error, (int \<times> int \<times> int) option) result" where
  "fold_step_bounds st e =
     (case ev_data e of
        StepStart turn step \<Rightarrow>
          (case rs_step st of
             Some (t, s, _) \<Rightarrow> Inl (StepStartUnended (ev_seq e) t s)
           | None \<Rightarrow> Inr (Some (turn, step, rs_surface_tokens st)))
      | StepEnd turn step \<Rightarrow>
          (case rs_step st of
             Some (t, s, _) \<Rightarrow> if t = turn \<and> s = step then Inr None else Inl (StepEndUnmatched (ev_seq e))
           | None \<Rightarrow> Inl (StepEndUnmatched (ev_seq e)))
      | _ \<Rightarrow> Inr (rs_step st))"

text \<open>The anchor an assistant message leaves.\<close>

definition anchor_of ::
    "(jsnum \<Rightarrow> string) \<Rightarrow> event_log \<Rightarrow> session_event \<Rightarrow> int \<Rightarrow> int \<Rightarrow> int \<Rightarrow> nat \<Rightarrow> token_usage option
       \<Rightarrow> epoch_header option \<Rightarrow> (meter_error, measurement_anchor) result" where
  "anchor_of dec log e turn step opened tokens usage header =
     (case (usage, header) of
        (Some u, Some h) \<Rightarrow>
          rmap (\<lambda>provider.
                  let surface = opened + int provider; provider_tokens = usage_tokens u;
                      estimated = int (estimate_header dec header) + surface
                  in \<lparr>an_header = header, an_surface = surface,
                      an_baseline = (if num_ge provider_tokens (NInt estimated) then UsageBaseline provider_tokens u
                                     else EstimatedBaseline estimated)\<rparr>)
            (estimate_provider_assistant dec log e turn step tokens)
      | _ \<Rightarrow>
          (let surface = opened + int tokens in
           Inr \<lparr>an_header = header, an_surface = surface,
                an_baseline = EstimatedBaseline (int (estimate_header dec header) + surface)\<rparr>))"

definition fold_anchor ::
    "(jsnum \<Rightarrow> string) \<Rightarrow> event_log \<Rightarrow> replay_state \<Rightarrow> session_event \<Rightarrow> nat \<Rightarrow> epoch_header option
       \<Rightarrow> (meter_error, measurement_anchor option) result" where
  "fold_anchor dec log st e tokens header =
     (case ev_data e of
        AssistantMessageEv turn step _ usage \<Rightarrow>
          (case rs_step st of
             Some (t, s, opened) \<Rightarrow>
               (if t = turn \<and> s = step then rmap Some (anchor_of dec log e turn step opened tokens usage header)
                else Inl (AssistantUnmatched (ev_seq e)))
           | None \<Rightarrow> Inl (AssistantUnmatched (ev_seq e)))
      | _ \<Rightarrow> Inr (rs_anchor st))"

definition next_header :: "replay_state \<Rightarrow> session_event \<Rightarrow> epoch_header option" where
  "next_header st e = fold_header_step (rs_header st) e"

definition fold_meter_event ::
    "(jsnum \<Rightarrow> string) \<Rightarrow> event_log \<Rightarrow> replay_state \<Rightarrow> session_event \<Rightarrow> (meter_error, replay_state) result" where
  "fold_meter_event dec log st e =
     rbind (fold_step_bounds st e)
       (\<lambda>bounds. rbind (if is_surface_event e then rmap Some (fold_surface_tokens dec (rs_surface st) e) else Inr None)
         (\<lambda>surface. rmap
            (\<lambda>anchor. st\<lparr>rs_header := next_header st e, rs_step := bounds,
               rs_surface := (case surface of Some f \<Rightarrow> stf_nodes f | None \<Rightarrow> rs_surface st),
               rs_surface_tokens := (case surface of Some f \<Rightarrow> rs_surface_tokens st + stf_delta f
                                     | None \<Rightarrow> rs_surface_tokens st),
               rs_anchor := anchor\<rparr>)
            (fold_anchor dec log st e (case surface of Some f \<Rightarrow> stf_tokens f | None \<Rightarrow> 0) (next_header st e))))"

text \<open>An event that is refused stays unread: the fold keeps what it consumed before it.\<close>

fun consume_events ::
    "(jsnum \<Rightarrow> string) \<Rightarrow> event_log \<Rightarrow> replay_state \<Rightarrow> session_event list \<Rightarrow> replay_state \<times> meter_error option" where
  "consume_events dec log st [] = (st, None)"
| "consume_events dec log st (e # es) =
     (case fold_meter_event dec log st e of
        Inl err \<Rightarrow> (st, Some err)
      | Inr st' \<Rightarrow> consume_events dec log (st'\<lparr>rs_consumed := rs_consumed st + 1\<rparr>) es)"

definition sync_meter :: "(jsnum \<Rightarrow> string) \<Rightarrow> event_log \<Rightarrow> replay_state \<Rightarrow> replay_state \<times> meter_error option" where
  "sync_meter dec log st = consume_events dec log st (drop (rs_consumed st) log)"

section \<open>Measurements\<close>

record token_measurement =
  tk_revision :: nat
  tk_baseline :: token_baseline
  tk_delta :: int
  tk_total :: jsnum
  tk_surface :: int
  tk_nodes :: token_nodes

definition measurement_of ::
    "(jsnum \<Rightarrow> string) \<Rightarrow> replay_state \<Rightarrow> epoch_header option \<Rightarrow> token_measurement" where
  "measurement_of dec st request_header =
     (let header = (case request_header of None \<Rightarrow> rs_header st | Some h \<Rightarrow> Some (canonical_header h));
          choice =
            (case rs_anchor st of
               Some a \<Rightarrow>
                 (if optional_header_equals (an_header a) header
                  then Some (an_baseline a, rs_surface_tokens st - an_surface a) else None)
             | None \<Rightarrow> None);
          measured =
            (case choice of
               Some c \<Rightarrow> c
             | None \<Rightarrow>
                 (if header = None \<and> rs_surface_tokens st = 0 then (NoBaseline, 0)
                  else (EstimatedBaseline (int (estimate_header dec header) + rs_surface_tokens st), 0)))
      in \<lparr>tk_revision = rs_consumed st, tk_baseline = fst measured, tk_delta = snd measured,
          tk_total = num_max0 (num_add (baseline_tokens (fst measured)) (NInt (snd measured))),
          tk_surface = rs_surface_tokens st, tk_nodes = rs_surface st\<rparr>)"

text \<open>The states of the sessions that were read; a session is known by its key.\<close>

type_synonym 'k meter = "'k \<Rightarrow> replay_state option"

definition sync_session ::
    "(jsnum \<Rightarrow> string) \<Rightarrow> 'k \<Rightarrow> event_log \<Rightarrow> 'k meter \<Rightarrow> 'k meter \<times> (meter_error, replay_state) result" where
  "sync_session dec k log meter =
     (case sync_meter dec log (case meter k of Some st \<Rightarrow> st | None \<Rightarrow> fresh_replay) of
        (st, err) \<Rightarrow> (meter(k \<mapsto> st), case err of None \<Rightarrow> Inr st | Some e \<Rightarrow> Inl e))"

definition meter_measure ::
    "(jsnum \<Rightarrow> string) \<Rightarrow> 'k \<Rightarrow> event_log \<Rightarrow> epoch_header option \<Rightarrow> 'k meter
       \<Rightarrow> 'k meter \<times> (meter_error, token_measurement) result" where
  "meter_measure dec k log request_header meter =
     (case sync_session dec k log meter of
        (meter', r) \<Rightarrow> (meter', rmap (\<lambda>st. measurement_of dec st request_header) r))"

text \<open>The eager observation of an appended event, for sessions that were read before.\<close>

definition observe_event :: "(jsnum \<Rightarrow> string) \<Rightarrow> 'k \<Rightarrow> event_log \<Rightarrow> 'k meter \<Rightarrow> 'k meter" where
  "observe_event dec k log meter = (if meter k = None then meter else fst (sync_session dec k log meter))"

end
