(* ===== verification/Token_Projections.thy ===== *)
theory Token_Projections
  imports Token_Meter
begin

text \<open>
  The three bounded projections of the token meter: provider usage and context pressure
  (\<open>packages/llm/token-meter/src/usage-projection.ts\<close>) and the context breakdown
  (\<open>breakdown-projection.ts\<close>), over the surface total of \<open>surface-projection.ts\<close>, which keeps no
  prices per node and takes the price of a replaced range from the metering event before it.
\<close>

section \<open>The bounded surface total\<close>

record shadow_claim =
  sw_start :: nat
  sw_end :: nat
  sw_tokens :: jsnum

datatype claim_error = ClaimOfOtherRange nat nat nat

definition fold_surface_projection ::
    "(jsnum \<Rightarrow> string) \<Rightarrow> shadow_claim option \<Rightarrow> session_event \<Rightarrow> (claim_error, jsnum \<times> shadow_claim option) result" where
  "fold_surface_projection dec claim e =
     (case ev_data e of
        CompactionSummary d \<Rightarrow>
          Inr (NInt 0, Some \<lparr>sw_start = cs_range_start d, sw_end = cs_range_end d, sw_tokens = cs_token_count d\<rparr>)
      | CompactionPrune s n _ tokens \<Rightarrow> Inr (NInt 0, Some \<lparr>sw_start = s, sw_end = n, sw_tokens = tokens\<rparr>)
      | _ \<Rightarrow>
          (if \<not> is_surface_event e then Inr (NInt 0, None)
           else if ev_surface_op e = Some (JStr ''append'') then Inr (NInt (int (event_tokens dec e)), None)
           else (case claim of
                   None \<Rightarrow> Inr (NInt 0, None)
                 | Some c \<Rightarrow>
                     (if \<not> is_seq (op_field e ''start'') (sw_start c) \<or> \<not> is_seq (op_field e ''end'') (sw_end c)
                      then Inl (ClaimOfOtherRange (ev_seq e) (sw_start c) (sw_end c))
                      else Inr (num_sub (NInt (int (event_tokens dec e))) (sw_tokens c), None)))))"

section \<open>Provider usage\<close>

record usage_buckets =
  ub_input :: jsnum
  ub_output :: jsnum
  ub_cache_read :: jsnum
  ub_cache_write :: jsnum

definition zero_buckets :: usage_buckets where
  "zero_buckets = \<lparr>ub_input = NInt 0, ub_output = NInt 0, ub_cache_read = NInt 0, ub_cache_write = NInt 0\<rparr>"

definition buckets_from :: "token_usage \<Rightarrow> usage_buckets" where
  "buckets_from u =
     \<lparr>ub_input = tu_input u, ub_output = tu_output u, ub_cache_read = or_zero (tu_cache_read u),
      ub_cache_write = or_zero (tu_cache_write u)\<rparr>"

definition same_num :: "jsnum \<Rightarrow> jsnum \<Rightarrow> bool" where
  "same_num a b \<longleftrightarrow> a = b \<and> a \<noteq> NNaN"

definition buckets_equal :: "usage_buckets \<Rightarrow> usage_buckets \<Rightarrow> bool" where
  "buckets_equal a b \<longleftrightarrow>
     same_num (ub_input a) (ub_input b) \<and> same_num (ub_output a) (ub_output b)
     \<and> same_num (ub_cache_read a) (ub_cache_read b) \<and> same_num (ub_cache_write a) (ub_cache_write b)"

definition add_replacing :: "usage_buckets \<Rightarrow> usage_buckets option \<Rightarrow> usage_buckets \<Rightarrow> usage_buckets" where
  "add_replacing totals previous n =
     (let replaced = (\<lambda>f. num_add (num_sub (f totals) (case previous of None \<Rightarrow> NInt 0 | Some p \<Rightarrow> f p)) (f n)) in
      \<lparr>ub_input = replaced ub_input, ub_output = replaced ub_output, ub_cache_read = replaced ub_cache_read,
       ub_cache_write = replaced ub_cache_write\<rparr>)"

record usage_state =
  us_totals :: usage_buckets
  us_last :: "((int \<times> int) \<times> usage_buckets) option"

definition init_usage :: usage_state where
  "init_usage = \<lparr>us_totals = zero_buckets, us_last = None\<rparr>"

text \<open>The sample an event reports for its step.\<close>

fun usage_sample :: "event_data \<Rightarrow> ((int \<times> int) \<times> token_usage) option" where
  "usage_sample (AssistantChunk turn step (UsageChunk u)) = Some ((turn, step), u)"
| "usage_sample (AssistantMessageEv turn step _ (Some u)) = Some ((turn, step), u)"
| "usage_sample _ = None"

definition apply_usage :: "usage_state \<Rightarrow> session_event \<Rightarrow> usage_state" where
  "apply_usage st e =
     (case usage_sample (ev_data e) of
        None \<Rightarrow> st
      | Some (key, u) \<Rightarrow>
          (let buckets = buckets_from u;
               previous = (case us_last st of Some (k, b) \<Rightarrow> if k = key then Some b else None | None \<Rightarrow> None)
           in if (case previous of Some p \<Rightarrow> buckets_equal p buckets | None \<Rightarrow> False) then st
              else \<lparr>us_totals = add_replacing (us_totals st) previous buckets, us_last = Some (key, buckets)\<rparr>))"

definition usage_totals :: "event_log \<Rightarrow> usage_buckets" where
  "usage_totals events = us_totals (foldl apply_usage init_usage events)"

section \<open>Context pressure\<close>

record pressure_state =
  px_window :: "jsnum option"
  px_pressure :: "jsnum option"
  px_surface :: jsnum
  px_sampled :: "jsnum option"
  px_claim :: "shadow_claim option"

definition init_pressure :: pressure_state where
  "init_pressure = \<lparr>px_window = None, px_pressure = None, px_surface = NInt 0, px_sampled = None, px_claim = None\<rparr>"

definition pressure_from :: "token_usage \<Rightarrow> jsnum" where
  "pressure_from u = num_add (num_add (tu_input u) (or_zero (tu_cache_read u))) (or_zero (tu_cache_write u))"

definition window_step :: "pressure_state \<Rightarrow> session_event \<Rightarrow> pressure_state" where
  "window_step st e =
     (case ev_data e of
        RequestContext rc \<Rightarrow> if rc_context_window rc \<noteq> px_window st then st\<lparr>px_window := rc_context_window rc\<rparr> else st
      | _ \<Rightarrow> st)"

definition sample_step :: "pressure_state \<Rightarrow> session_event \<Rightarrow> pressure_state" where
  "sample_step st e =
     (case usage_sample (ev_data e) of
        Some (_, u) \<Rightarrow>
          (let pressure = pressure_from u in
           if Some pressure \<noteq> px_pressure st \<or> px_sampled st \<noteq> Some (px_surface st)
           then st\<lparr>px_pressure := Some pressure, px_sampled := Some (px_surface st)\<rparr> else st)
      | None \<Rightarrow> st)"

definition apply_pressure ::
    "(jsnum \<Rightarrow> string) \<Rightarrow> pressure_state \<Rightarrow> session_event \<Rightarrow> (claim_error, pressure_state) result" where
  "apply_pressure dec st e =
     rmap (\<lambda>(delta, claim).
             let next = sample_step (window_step st e) e;
                 moved = (if delta \<noteq> NInt 0 then next\<lparr>px_surface := num_add (px_surface next) delta\<rparr> else next)
             in moved\<lparr>px_claim := claim\<rparr>)
       (fold_surface_projection dec (px_claim st) e)"

record pressure_view =
  pv_pressure :: "jsnum option"
  pv_projected :: "jsnum option"
  pv_window :: "jsnum option"

definition view_pressure :: "pressure_state \<Rightarrow> pressure_view" where
  "view_pressure st =
     \<lparr>pv_pressure = px_pressure st,
      pv_projected =
        (case (px_pressure st, px_sampled st) of
           (Some p, Some s) \<Rightarrow> Some (num_max0 (num_sub (num_add p (px_surface st)) s))
         | _ \<Rightarrow> None),
      pv_window = px_window st\<rparr>"

section \<open>Context breakdown\<close>

record breakdown_state =
  bd_system :: nat
  bd_tools :: nat
  bd_messages :: jsnum
  bd_claim :: "shadow_claim option"

definition init_breakdown :: breakdown_state where
  "init_breakdown = \<lparr>bd_system = 0, bd_tools = 0, bd_messages = NInt 0, bd_claim = None\<rparr>"

definition apply_breakdown ::
    "(jsnum \<Rightarrow> string) \<Rightarrow> breakdown_state \<Rightarrow> session_event \<Rightarrow> (claim_error, breakdown_state) result" where
  "apply_breakdown dec st e =
     rmap (\<lambda>(delta, claim).
             let (system, tools) =
                   (case ev_data e of
                      RequestHeader h _ \<Rightarrow>
                        (estimate_system_tokens (Some (canonical_header h)), estimate_tools_tokens dec (Some (canonical_header h)))
                    | _ \<Rightarrow> (bd_system st, bd_tools st))
             in if system = bd_system st \<and> tools = bd_tools st \<and> delta = NInt 0 \<and> claim = None \<and> bd_claim st = None then st
                else \<lparr>bd_system = system, bd_tools = tools, bd_messages = num_add (bd_messages st) delta, bd_claim = claim\<rparr>)
       (fold_surface_projection dec (bd_claim st) e)"

end
