(* ===== verification/Token_Facts.thy ===== *)
theory Token_Facts
  imports Token_Projections Session_Log
begin

text \<open>
  Facts about the token meter: reading early or late does not change what is read, the priced
  surface is the surface of the session, the bounded projections follow it exactly where every
  replacement is metered, and usage counts the last sample of each step.
\<close>

section \<open>Reading early or late\<close>

lemma cited_chunks_extend:
  "n \<le> length log \<Longrightarrow> cited_chunks (log @ later) n turn step seen js = cited_chunks log n turn step seen js"
proof (induction js arbitrary: seen)
  case (Cons j js)
  have same: "cited_chunks (log @ later) n turn step seen js = cited_chunks log n turn step seen js" for seen
    using Cons by simp
  show ?case
  proof (cases "event_seq_of j")
    case (Some i)
    show ?thesis
    proof (cases "n \<le> i")
      case False
      then have "nth_opt (log @ later) i = nth_opt log i" using Cons.prems by simp
      then show ?thesis by (simp only: cited_chunks.simps same Some option.case)
    qed (simp add: Some)
  qed simp
qed simp

lemma fold_meter_extend:
  assumes "ev_seq e \<le> length log"
  shows "fold_meter_event dec (log @ later) st e = fold_meter_event dec log st e"
proof -
  have "estimate_provider_assistant dec (log @ later) e = estimate_provider_assistant dec log e"
    using cited_chunks_extend [OF assms] by (intro ext) (simp add: estimate_provider_assistant_def split: option.split json.split)
  then have "anchor_of dec (log @ later) e = anchor_of dec log e" by (intro ext) (simp add: anchor_of_def split: option.split)
  then have "fold_anchor dec (log @ later) st e = fold_anchor dec log st e" by (intro ext) (simp add: fold_anchor_def split: option.split event_data.split)
  then show ?thesis by (simp add: fold_meter_event_def)
qed

lemma consume_extend:
  "(\<And>e. e \<in> set es \<Longrightarrow> ev_seq e \<le> length log) \<Longrightarrow> consume_events dec (log @ later) st es = consume_events dec log st es"
  by (induction es arbitrary: st) (auto simp: fold_meter_extend split: sum.splits)

lemma consume_append:
  "consume_events dec log st (xs @ ys) =
     (case consume_events dec log st xs of
        (st', None) \<Rightarrow> consume_events dec log st' ys
      | (st', Some err) \<Rightarrow> (st', Some err))"
  by (induction xs arbitrary: st) (auto split: sum.splits)

lemma fold_meter_consumed: "fold_meter_event dec log st e = Inr st' \<Longrightarrow> rs_consumed st' = rs_consumed st"
  by (auto simp: fold_meter_event_def rbind_eq_Inr rmap_eq_Inr)

text \<open>What was consumed is a prefix, and the rest is refused again the same way.\<close>

lemma consume_stops:
  "consume_events dec log s xs = (st, err) \<Longrightarrow>
   \<exists>n\<le>length xs. rs_consumed st = rs_consumed s + n \<and> consume_events dec log s (take n xs) = (st, None)
     \<and> consume_events dec log st (drop n xs) = (st, err) \<and> (err = None \<longrightarrow> n = length xs)"
proof (induction xs arbitrary: s)
  case (Cons x xs)
  show ?case
  proof (cases "fold_meter_event dec log s x")
    case (Inl e)
    then show ?thesis using Cons.prems by (intro exI [of _ 0]) auto
  next
    case (Inr s')
    let ?s' = "s'\<lparr>rs_consumed := rs_consumed s + 1\<rparr>"
    have "consume_events dec log ?s' xs = (st, err)" using Cons.prems Inr by simp
    from Cons.IH [OF this] obtain n where "n \<le> length xs" "rs_consumed st = rs_consumed s + 1 + n"
      "consume_events dec log ?s' (take n xs) = (st, None)" "consume_events dec log st (drop n xs) = (st, err)"
      "err = None \<longrightarrow> n = length xs"
      by auto
    then show ?thesis using Inr by (intro exI [of _ "Suc n"]) auto
  qed
qed simp

lemma contiguous_seq: "contiguous log \<Longrightarrow> e \<in> set log \<Longrightarrow> ev_seq e < length log"
  by (auto simp: contiguous_def in_set_conv_nth)

lemma sync_again:
  assumes "contiguous (log @ later)"
  shows "sync_meter dec (log @ later) (fst (sync_meter dec log fresh_replay)) = sync_meter dec (log @ later) fresh_replay"
proof -
  obtain st err where run: "consume_events dec log fresh_replay log = (st, err)" by (cases "consume_events dec log fresh_replay log")
  from consume_stops [OF this] obtain n where n: "n \<le> length log" "rs_consumed st = n"
    "consume_events dec log fresh_replay (take n log) = (st, None)"
    by (auto simp: fresh_replay_def)
  have "ev_seq e \<le> length log" if "e \<in> set (take n log)" for e
    using contiguous_seq [OF contiguous_prefix [OF assms]] in_set_takeD [OF that] by (meson less_imp_le)
  then have "consume_events dec (log @ later) fresh_replay (take n log) = (st, None)" using consume_extend n(3) by metis
  moreover have whole: "log @ later = take n log @ drop n (log @ later)" using n(1) by (simp flip: append_assoc)
  ultimately have "consume_events dec (log @ later) fresh_replay (log @ later)
      = consume_events dec (log @ later) st (drop n (log @ later))"
    using consume_append [of dec "log @ later" fresh_replay "take n log" "drop n (log @ later)"] unfolding whole [symmetric] by simp
  then show ?thesis using run n(2) by (simp add: sync_meter_def fresh_replay_def)
qed

text \<open>
  The life of one session's fold: the log grows, and reads of this and other sessions and eager
  observations come in any order.
\<close>

inductive meter_reach :: "(jsnum \<Rightarrow> string) \<Rightarrow> 'k \<Rightarrow> event_log \<Rightarrow> 'k meter \<Rightarrow> bool" for dec k where
  reach_unread: "meter k = None \<Longrightarrow> meter_reach dec k [] meter"
| reach_grown: "meter_reach dec k log meter \<Longrightarrow> meter_reach dec k (log @ later) meter"
| reach_measured: "meter_reach dec k log meter \<Longrightarrow> meter_reach dec k log (fst (meter_measure dec k log h meter))"
| reach_observed: "meter_reach dec k log meter \<Longrightarrow> meter_reach dec k log (observe_event dec k log meter)"
| reach_other_measured: "meter_reach dec k log meter \<Longrightarrow> k' \<noteq> k \<Longrightarrow> meter_reach dec k log (fst (meter_measure dec k' other h meter))"
| reach_other_observed: "meter_reach dec k log meter \<Longrightarrow> k' \<noteq> k \<Longrightarrow> meter_reach dec k log (observe_event dec k' other meter)"

definition read_before :: "(jsnum \<Rightarrow> string) \<Rightarrow> event_log \<Rightarrow> replay_state option \<Rightarrow> bool" where
  "read_before dec log r \<longleftrightarrow> (case r of None \<Rightarrow> True | Some st \<Rightarrow> \<exists>n. st = fst (sync_meter dec (take n log) fresh_replay))"

lemma read_before_None [simp]: "read_before dec log None"
  by (simp add: read_before_def)

lemma sync_read_before:
  assumes "contiguous log" "read_before dec log (meter k)"
  shows "sync_session dec k log meter =
    (meter(k \<mapsto> fst (sync_meter dec log fresh_replay)),
     case sync_meter dec log fresh_replay of (st, None) \<Rightarrow> Inr st | (_, Some e) \<Rightarrow> Inl e)"
proof -
  have "sync_meter dec log (case meter k of Some st \<Rightarrow> st | None \<Rightarrow> fresh_replay) = sync_meter dec log fresh_replay"
  proof (cases "meter k")
    case (Some st)
    then obtain n where "st = fst (sync_meter dec (take n log) fresh_replay)" using assms(2) by (auto simp: read_before_def)
    then show ?thesis using Some sync_again [of "take n log" "drop n log" dec] assms(1) by simp
  qed simp
  then show ?thesis by (simp add: sync_session_def split: prod.split option.split)
qed

lemma read_before_grown: "read_before dec log r \<Longrightarrow> read_before dec (log @ later) r"
proof (cases r)
  case (Some st)
  moreover assume "read_before dec log r"
  ultimately obtain n where n: "st = fst (sync_meter dec (take n log) fresh_replay)" by (auto simp: read_before_def)
  have "take (min n (length log)) (log @ later) = take n log" by (cases "n \<le> length log") simp_all
  then show ?thesis using n Some by (auto simp: read_before_def intro!: exI [of _ "min n (length log)"])
qed (simp add: read_before_def)

lemma read_before_now: "read_before dec log (Some (fst (sync_meter dec log fresh_replay)))"
  by (auto simp: read_before_def intro!: exI [of _ "length log"])

lemma meter_other [simp]:
  "k' \<noteq> k \<Longrightarrow> fst (meter_measure dec k' other h meter) k = meter k"
  "k' \<noteq> k \<Longrightarrow> observe_event dec k' other meter k = meter k"
  by (auto simp: meter_measure_def observe_event_def sync_session_def split: prod.split)

lemma meter_reach_read: "meter_reach dec k log meter \<Longrightarrow> contiguous log \<Longrightarrow> read_before dec log (meter k)"
proof (induction rule: meter_reach.induct)
  case (reach_grown log meter later)
  then show ?case using read_before_grown contiguous_prefix by blast
next
  case (reach_measured log meter h)
  note sync = sync_read_before [of log dec meter k, OF reach_measured.prems reach_measured.IH [OF reach_measured.prems]]
  show ?case by (simp add: meter_measure_def sync read_before_now)
next
  case (reach_observed log meter)
  note sync = sync_read_before [of log dec meter k, OF reach_observed.prems reach_observed.IH [OF reach_observed.prems]]
  show ?case using reach_observed.prems reach_observed.IH read_before_now by (simp add: observe_event_def sync)
qed (simp_all add: read_before_def)

lemma meter_reads:
  assumes "meter_reach dec k log meter" "contiguous log"
  shows "snd (meter_measure dec k log h meter) =
    (case sync_meter dec log fresh_replay of (st, None) \<Rightarrow> Inr (measurement_of dec st h) | (_, Some e) \<Rightarrow> Inl e)"
  using sync_read_before [of log dec meter k, OF assms(2) meter_reach_read [OF assms]]
  by (simp add: meter_measure_def split: prod.split option.split)

section \<open>The priced surface is the surface\<close>

definition priced_nodes_of :: "(jsnum \<Rightarrow> string) \<Rightarrow> event_log \<Rightarrow> nat list \<Rightarrow> token_nodes" where
  "priced_nodes_of dec log ns = map (\<lambda>n. (n, event_tokens dec (log ! n))) ns"

lemma priced_fst [simp]: "map fst (priced_nodes_of dec log ns) = ns"
  by (simp add: priced_nodes_of_def comp_def)

lemma priced_extend: "set ns \<subseteq> {..<length log} \<Longrightarrow> priced_nodes_of dec (log @ later) ns = priced_nodes_of dec log ns"
  by (auto simp: priced_nodes_of_def nth_append)

lemma priced_parts:
  "priced_nodes_of dec log (xs @ ys) = priced_nodes_of dec log xs @ priced_nodes_of dec log ys"
  "priced_nodes_of dec log (take i ns) = take i (priced_nodes_of dec log ns)" "priced_nodes_of dec log (drop i ns) = drop i (priced_nodes_of dec log ns)"
  "priced_nodes_of dec log (slice ns i j) = slice (priced_nodes_of dec log ns) i j"
  by (simp_all add: priced_nodes_of_def take_map drop_map slice_def)

lemma find_priced: "find_index (\<lambda>n. is_seq (Some (JNum (NInt (int s)))) (fst n)) (priced_nodes_of dec log ns) = index_of s ns"
  by (induction ns) (auto simp: priced_nodes_of_def is_seq_def)

lemma op_fields:
  assumes "surface_op_of e = Inr (Some (OpReplace s n))"
  shows "op_field e ''start'' = Some (JNum (NInt (int s)))" "op_field e ''end'' = Some (JNum (NInt (int n)))"
    "ev_surface_op e \<noteq> Some (JStr ''append'')"
proof -
  have seq: "event_seq_of j = Some k \<Longrightarrow> j = JNum (NInt (int k))" for j k
    by (auto simp: event_seq_of_def split: option.splits if_splits elim: safe_int_of.elims)
  obtain kvs where kvs: "ev_surface_op e = Some (JObj kvs)" "replace_op_of kvs = Some (s, n)"
    using assms by (auto simp: surface_op_of_def Let_def split: if_splits option.splits json.splits)
  then show "op_field e ''start'' = Some (JNum (NInt (int s)))" "op_field e ''end'' = Some (JNum (NInt (int n)))"
    "ev_surface_op e \<noteq> Some (JStr ''append'')"
    by (auto simp: op_field_def replace_op_of_def split: if_splits option.splits dest!: seq)
qed

lemma append_op: "surface_op_of e = Inr (Some OpAppend) \<Longrightarrow> ev_surface_op e = Some (JStr ''append'')"
  by (auto simp: surface_op_of_def Let_def split: if_splits option.splits json.splits)

text \<open>One admitted event moves the priced surface as it moves the surface.\<close>

lemma priced_step:
  assumes plan: "plan_surface_event st e (length log) log 0 = Inr plan"
    and wf: "surface_wf (log, st)"
  shows "(if is_surface_event e
     then \<exists>f. fold_surface_tokens dec (priced_nodes_of dec log (sf_nodes st)) e = Inr f
       \<and> stf_nodes f = priced_nodes_of dec (log @ [e]) (sf_nodes (fst (apply_surface_plan st plan)))
       \<and> stf_delta f = int (sum_list (map snd (stf_nodes f))) - int (sum_list (map snd (priced_nodes_of dec log (sf_nodes st))))
     else sf_nodes (fst (apply_surface_plan st plan)) = sf_nodes st)"
proof -
  have nodes: "set (sf_nodes st) \<subseteq> {..<length log}" using wf by (auto simp: surface_wf_def)
  note seq = plan_seq [OF plan]
  from plan show ?thesis
  proof (cases rule: plan_cases)
    case none
    then have "\<not> is_surface_event e" using surface_op_of_None_not_eligible by (auto simp: is_surface_event_def)
    then show ?thesis using none by simp
  next
    case append
    have "priced_nodes_of dec (log @ [e]) (sf_nodes st @ [length log]) = priced_nodes_of dec log (sf_nodes st) @ [(ev_seq e, event_tokens dec e)]"
      using nodes seq by (simp add: priced_parts(1) priced_extend) (simp add: priced_nodes_of_def)
    then show ?thesis using append append_op [OF append(1)] surface_op_of_Some_eligible [OF append(1)]
      by (simp add: fold_surface_tokens_def Let_def)
  next
    case (replace s en i j shadowed)
    let ?ns = "sf_nodes st" and ?t = "event_tokens dec e"
    note range = replacement_range_SomeD [OF replace(2)]
    have "index_of s ?ns = Some i" "index_of en ?ns = Some j"
      using replace(2) by (auto simp: replacement_range_def split: option.splits if_splits)
    then have run: "fold_surface_tokens dec (priced_nodes_of dec log ?ns) e =
        Inr \<lparr>stf_tokens = ?t, stf_nodes = js_splice (priced_nodes_of dec log ?ns) i (j - i + 1) [(length log, ?t)],
             stf_delta = int ?t - int (sum_list (map snd (slice (priced_nodes_of dec log ?ns) i (Suc j))))\<rparr>"
      using op_fields [OF replace(1)] range(1) seq by (simp add: fold_surface_tokens_def Let_def find_priced)
    have after: "sf_nodes (fst (apply_surface_plan st plan)) = take i ?ns @ [length log] @ drop (Suc j) ?ns"
      using replace nodes_after_replace [OF replace(2)] by simp
    have "priced_nodes_of dec (log @ [e]) ?ns = priced_nodes_of dec log ?ns" "priced_nodes_of dec (log @ [e]) [length log] = [(length log, ?t)]"
      using priced_extend [OF nodes] by (simp_all add: priced_nodes_of_def)
    then have next_nodes: "js_splice (priced_nodes_of dec log ?ns) i (j - i + 1) [(length log, ?t)]
        = priced_nodes_of dec (log @ [e]) (take i ?ns @ [length log] @ drop (Suc j) ?ns)"
      using range(1) by (simp only: priced_parts js_splice_def) simp
    have "priced_nodes_of dec log ?ns = take i (priced_nodes_of dec log ?ns) @ slice (priced_nodes_of dec log ?ns) i (Suc j) @ drop (Suc j) (priced_nodes_of dec log ?ns)"
      using range(1) by (simp add: slice_partition)
    then have "sum_list (map snd (priced_nodes_of dec log ?ns)) = sum_list (map snd (take i (priced_nodes_of dec log ?ns)))
        + sum_list (map snd (slice (priced_nodes_of dec log ?ns) i (Suc j))) + sum_list (map snd (drop (Suc j) (priced_nodes_of dec log ?ns)))"
      by (metis map_append sum_list_append add.assoc)
    moreover have "sum_list (map snd (priced_nodes_of dec (log @ [e]) (take i ?ns @ [length log] @ drop (Suc j) ?ns)))
        = sum_list (map snd (take i (priced_nodes_of dec log ?ns))) + ?t + sum_list (map snd (drop (Suc j) (priced_nodes_of dec log ?ns)))"
      unfolding next_nodes [symmetric] using range(1) by (simp add: js_splice_def)
    ultimately show ?thesis using run after next_nodes surface_op_of_Some_eligible [OF replace(1)] by simp
  qed
qed

definition meter_follows :: "(jsnum \<Rightarrow> string) \<Rightarrow> event_log \<Rightarrow> surface_state \<Rightarrow> replay_state \<Rightarrow> bool" where
  "meter_follows dec log st ms \<longleftrightarrow>
     rs_surface ms = priced_nodes_of dec log (sf_nodes st)
     \<and> rs_surface_tokens ms = int (sum_list (map snd (priced_nodes_of dec log (sf_nodes st))))"

lemma meter_follows_step:
  assumes "meter_follows dec log st ms" "surface_wf (log, st)" "admit (log, st) e = Inr (log', st')"
    "fold_meter_event dec whole ms e = Inr ms'"
  shows "meter_follows dec (log @ [e]) st' ms'"
proof -
  obtain plan where plan: "plan_surface_event st e (length log) log 0 = Inr plan" "st' = fst (apply_surface_plan st plan)"
    using assms(3) by (auto simp: admit_def apply_surface_event_def rmap_eq_Inr) (metis fst_conv)
  have nodes: "set (sf_nodes st) \<subseteq> {..<length log}" using assms(2) by (auto simp: surface_wf_def)
  note step = priced_step [OF plan(1) assms(2), of dec]
  show ?thesis
  proof (cases "is_surface_event e")
    case True
    then show ?thesis using step assms(1,4) plan(2)
      by (auto simp: meter_follows_def fold_meter_event_def rbind_eq_Inr rmap_eq_Inr)
  next
    case False
    then show ?thesis using step assms(1,4) plan(2) priced_extend [OF nodes, of dec "[e]"]
      by (auto simp: meter_follows_def fold_meter_event_def rbind_eq_Inr rmap_eq_Inr)
  qed
qed

lemma consume_follows:
  "consume_events dec whole ms es = (ms', None) \<Longrightarrow> meter_follows dec log st ms \<Longrightarrow> surface_wf (log, st) \<Longrightarrow>
   fold_log admit (log, st) es = Inr (log', st') \<Longrightarrow>
   meter_follows dec log' st' ms' \<and> rs_consumed ms' = rs_consumed ms + length es"
proof (induction es arbitrary: ms log st)
  case (Cons e es)
  obtain ms1 where step: "fold_meter_event dec whole ms e = Inr ms1"
    and rest: "consume_events dec whole (ms1\<lparr>rs_consumed := rs_consumed ms + 1\<rparr>) es = (ms', None)"
    using Cons.prems(1) by (auto split: sum.splits)
  obtain p where p: "admit (log, st) e = Inr p" "fold_log admit p es = Inr (log', st')"
    using Cons.prems(4) by (auto simp: rbind_eq_Inr)
  moreover from p(1) obtain st1 where "p = (log @ [e], st1)" by (auto simp: admit_def rmap_eq_Inr)
  ultimately have adm: "admit (log, st) e = Inr (log @ [e], st1)" "fold_log admit (log @ [e], st1) es = Inr (log', st')"
    by simp_all
  have "meter_follows dec (log @ [e]) st1 (ms1\<lparr>rs_consumed := rs_consumed ms + 1\<rparr>)"
    using meter_follows_step [OF Cons.prems(2,3) adm(1) step] by (simp add: meter_follows_def)
  from Cons.IH [OF rest this surface_wf_step [OF Cons.prems(3) adm(1)] adm(2)] show ?case by simp
qed simp

lemma synced_follows:
  assumes "fold_log admit admit_init log = Inr (log, st)" "sync_meter dec log fresh_replay = (ms, None)"
  shows "meter_follows dec log st ms \<and> rs_consumed ms = length log"
proof -
  have "meter_follows dec [] create_fold_state fresh_replay"
    by (simp add: meter_follows_def fresh_replay_def create_fold_state_def priced_nodes_of_def)
  from consume_follows [OF _ this surface_wf_init [unfolded admit_init_def], of log log ms log st] assms
  show ?thesis by (simp add: sync_meter_def admit_init_def fresh_replay_def)
qed

section \<open>Metered replacements\<close>

fun claim_of :: "event_data \<Rightarrow> shadow_claim option" where
  "claim_of (CompactionSummary d) =
     Some \<lparr>sw_start = cs_range_start d, sw_end = cs_range_end d, sw_tokens = cs_token_count d\<rparr>"
| "claim_of (CompactionPrune s n _ tokens) = Some \<lparr>sw_start = s, sw_end = n, sw_tokens = tokens\<rparr>"
| "claim_of _ = None"

text \<open>The event before a replacement prices exactly the range the replacement takes.\<close>

definition claim_exact :: "(jsnum \<Rightarrow> string) \<Rightarrow> event_log \<Rightarrow> session_event \<Rightarrow> bool" where
  "claim_exact dec log e \<longleftrightarrow>
     log \<noteq> [] \<and>
     (case (claim_of (ev_data (last log)), fold_surface log) of
        (Some c, Inr (nodes, _)) \<Rightarrow>
          is_seq (op_field e ''start'') (sw_start c) \<and> is_seq (op_field e ''end'') (sw_end c)
          \<and> (case (index_of (sw_start c) nodes, index_of (sw_end c) nodes) of
               (Some i, Some j) \<Rightarrow> sw_tokens c = NInt (int (sum_list (map snd (slice (priced_nodes_of dec log nodes) i (Suc j)))))
             | _ \<Rightarrow> False)
      | _ \<Rightarrow> False)"

definition metered_log :: "(jsnum \<Rightarrow> string) \<Rightarrow> event_log \<Rightarrow> bool" where
  "metered_log dec log \<longleftrightarrow>
     list_all (\<lambda>i. is_replacement_surface_event (log ! i) \<longrightarrow> claim_exact dec (take i log) (log ! i)) [0..<length log]"

lemma metered_snoc:
  "metered_log dec (log @ [e]) \<longleftrightarrow> metered_log dec log \<and> (is_replacement_surface_event e \<longrightarrow> claim_exact dec log e)"
  by (auto simp: metered_log_def list_all_iff nth_append)

definition last_claim :: "event_log \<Rightarrow> shadow_claim option" where
  "last_claim log = (if log = [] then None else claim_of (ev_data (last log)))"

lemma last_claim_snoc [simp]: "last_claim (log @ [e]) = claim_of (ev_data e)"
  by (simp add: last_claim_def)

definition surface_price :: "(jsnum \<Rightarrow> string) \<Rightarrow> event_log \<Rightarrow> surface_state \<Rightarrow> int" where
  "surface_price dec log st = int (sum_list (map snd (priced_nodes_of dec log (sf_nodes st))))"

lemma claim_not_surface: "claim_of (ev_data e) \<noteq> None \<Longrightarrow> \<not> is_surface_event e"
  by (cases "ev_data e") (auto simp: is_surface_event_def is_surface_eligible_type_def)

lemma projection_off_surface:
  "\<not> is_surface_event e \<Longrightarrow> fold_surface_projection dec claim e = Inr (NInt 0, claim_of (ev_data e))"
  by (simp add: fold_surface_projection_def split: event_data.split)

lemma projection_on_surface:
  assumes "is_surface_event e"
  shows "fold_surface_projection dec claim e =
    (if ev_surface_op e = Some (JStr ''append'') then Inr (NInt (int (event_tokens dec e)), None)
     else (case claim of
             None \<Rightarrow> Inr (NInt 0, None)
           | Some c \<Rightarrow>
               (if \<not> is_seq (op_field e ''start'') (sw_start c) \<or> \<not> is_seq (op_field e ''end'') (sw_end c)
                then Inl (ClaimOfOtherRange (ev_seq e) (sw_start c) (sw_end c))
                else Inr (num_sub (NInt (int (event_tokens dec e))) (sw_tokens c), None))))"
  using assms
  by (auto simp: fold_surface_projection_def is_surface_event_def is_surface_eligible_type_def split: event_data.split)

lemma projection_delta:
  assumes log: "fold_log admit admit_init log = Inr (log, st)" and adm: "admit (log, st) e = Inr (log', st')"
    and metered: "is_replacement_surface_event e \<longrightarrow> claim_exact dec log e"
  shows "fold_surface_projection dec (last_claim log) e
    = Inr (NInt (surface_price dec (log @ [e]) st' - surface_price dec log st), claim_of (ev_data e))"
proof -
  have wf: "surface_wf (log, st)" using admit_prefix_wf log surface_wf_init by blast
  obtain plan where plan: "plan_surface_event st e (length log) log 0 = Inr plan" "st' = fst (apply_surface_plan st plan)"
    using adm by (auto simp: admit_def apply_surface_event_def rmap_eq_Inr) (metis fst_conv)
  note step = priced_step [OF plan(1) wf, of dec]
  have nodes: "set (sf_nodes st) \<subseteq> {..<length log}" using wf by (auto simp: surface_wf_def)
  show ?thesis
  proof (cases "is_surface_event e")
    case False
    then have "sf_nodes st' = sf_nodes st" using step plan(2) by simp
    then show ?thesis using projection_off_surface [OF False] priced_extend [OF nodes, of dec "[e]"] by (simp add: surface_price_def)
  next
    case True
    then obtain f where f: "fold_surface_tokens dec (priced_nodes_of dec log (sf_nodes st)) e = Inr f"
      "stf_delta f = surface_price dec (log @ [e]) st' - surface_price dec log st"
      using step plan(2) by (auto simp: surface_price_def)
    have none: "claim_of (ev_data e) = None" using claim_not_surface True by blast
    show ?thesis
    proof (cases "ev_surface_op e = Some (JStr ''append'')")
      case op: True
      then have "stf_delta f = int (event_tokens dec e)" using f(1) by (auto simp: fold_surface_tokens_def Let_def)
      then show ?thesis using f(2) none op by (simp add: projection_on_surface [OF True])
    next
      case op: False
      then have "claim_exact dec log e" using metered True by (simp add: is_replacement_surface_event_def)
      then obtain c nodes reps i j where c: "log \<noteq> []" "claim_of (ev_data (last log)) = Some c" "fold_surface log = Inr (nodes, reps)"
        "op_field e ''start'' = Some (JNum (NInt (int (sw_start c))))" "op_field e ''end'' = Some (JNum (NInt (int (sw_end c))))"
        "index_of (sw_start c) nodes = Some i" "index_of (sw_end c) nodes = Some j"
        "sw_tokens c = NInt (int (sum_list (map snd (slice (priced_nodes_of dec log nodes) i (Suc j)))))"
        by (auto simp: claim_exact_def is_seq_def split: option.splits sum.splits prod.splits)
      have "nodes = sf_nodes st" using fold_surface_complete [OF log] c(3) by auto
      then have "stf_delta f = int (event_tokens dec e) - int (sum_list (map snd (slice (priced_nodes_of dec log nodes) i (Suc j))))"
        using f(1) op c(4-7) by (auto simp: fold_surface_tokens_def Let_def find_priced split: if_splits)
      then show ?thesis using f(2) none op c by (simp add: projection_on_surface [OF True] last_claim_def is_seq_def)
    qed
  qed
qed

lemma admit_snoc:
  assumes "fold_log admit admit_init (log @ [e]) = Inr (log @ [e], st)"
  shows "\<exists>st0. fold_log admit admit_init log = Inr (log, st0) \<and> admit (log, st0) e = Inr (log @ [e], st)"
proof -
  obtain events st0 where "fold_log admit admit_init log = Inr (events, st0)" "admit (events, st0) e = Inr (log @ [e], st)"
    using assms by (auto simp: fold_log_snoc rbind_eq_Inr)
  moreover from this(1) have "events = log" using admit_log [of "[]" create_fold_state log events st0] by (simp add: admit_init_def)
  ultimately show ?thesis by blast
qed

text \<open>Both bounded totals are the price of the surface.\<close>

lemma apply_breakdown_ok:
  assumes "fold_surface_projection dec (bd_claim b) e = Inr (NInt d, c)" "bd_messages b = NInt t"
  shows "\<exists>b'. apply_breakdown dec b e = Inr b' \<and> bd_messages b' = NInt (t + d) \<and> bd_claim b' = c"
proof (cases "\<exists>h r. ev_data e = RequestHeader h r")
  case True
  then show ?thesis using assms by (auto simp: apply_breakdown_def)
next
  case False
  then have "apply_breakdown dec b e = Inr (if d = 0 \<and> c = None \<and> bd_claim b = None then b
      else b\<lparr>bd_messages := NInt (t + d), bd_claim := c\<rparr>)"
    using assms by (cases "ev_data e") (simp_all add: apply_breakdown_def)
  then show ?thesis using assms(2) by simp
qed

lemma apply_pressure_ok:
  assumes "fold_surface_projection dec (px_claim p) e = Inr (NInt d, c)" "px_surface p = NInt t"
  shows "\<exists>p'. apply_pressure dec p e = Inr p' \<and> px_surface p' = NInt (t + d) \<and> px_claim p' = c"
proof -
  have "px_surface (sample_step (window_step p e) e) = px_surface p"
    by (simp add: sample_step_def window_step_def Let_def split: option.split prod.split event_data.split)
  then show ?thesis using assms by (simp add: apply_pressure_def Let_def)
qed

text \<open>What the two units share: a total and a pending claim that every event moves by the shared fold.\<close>

locale metered_total =
  fixes dec :: "jsnum \<Rightarrow> string" and initial :: 's and step :: "'s \<Rightarrow> session_event \<Rightarrow> (claim_error, 's) result"
    and total :: "'s \<Rightarrow> jsnum" and claim :: "'s \<Rightarrow> shadow_claim option"
  assumes initial_total: "total initial = NInt 0" and initial_claim: "claim initial = None"
    and step_moves: "fold_surface_projection dec (claim st) e = Inr (NInt d, c) \<Longrightarrow> total st = NInt t \<Longrightarrow>
      \<exists>st'. step st e = Inr st' \<and> total st' = NInt (t + d) \<and> claim st' = c"
begin

lemma follows:
  "fold_log admit admit_init log = Inr (log, st) \<Longrightarrow> metered_log dec log \<Longrightarrow>
   \<exists>u. fold_log step initial log = Inr u \<and> total u = NInt (surface_price dec log st) \<and> claim u = last_claim log"
proof (induction log arbitrary: st rule: rev_induct)
  case Nil
  then show ?case using initial_total initial_claim
    by (auto simp: surface_price_def admit_init_def create_fold_state_def last_claim_def priced_nodes_of_def)
next
  case (snoc e log)
  obtain st0 where st0: "fold_log admit admit_init log = Inr (log, st0)" "admit (log, st0) e = Inr (log @ [e], st)"
    using admit_snoc [OF snoc.prems(1)] by blast
  have metered: "metered_log dec log" "is_replacement_surface_event e \<longrightarrow> claim_exact dec log e"
    using snoc.prems(2) by (simp_all add: metered_snoc)
  obtain u where u: "fold_log step initial log = Inr u" "total u = NInt (surface_price dec log st0)" "claim u = last_claim log"
    using snoc.IH [OF st0(1) metered(1)] by blast
  then obtain u' where "step u e = Inr u'" "total u' = NInt (surface_price dec (log @ [e]) st)" "claim u' = claim_of (ev_data e)"
    using step_moves [OF _ u(2)] projection_delta [OF st0 metered(2)] by fastforce
  then show ?case using u(1) by (simp add: fold_log_snoc)
qed

end

interpretation breakdown: metered_total dec init_breakdown "apply_breakdown dec" bd_messages bd_claim for dec
  by unfold_locales (simp_all add: init_breakdown_def apply_breakdown_ok)

interpretation pressure: metered_total dec init_pressure "apply_pressure dec" px_surface px_claim for dec
  by unfold_locales (simp_all add: init_pressure_def apply_pressure_ok)

end
