(* ===== verification/Token_Safety.thy ===== *)
theory Token_Safety
  imports Token_Facts Compaction_Safety
begin

text \<open>
  The token meter beside its clients: a compaction that measures with the meter logs exactly the
  price of the range it replaces, so a metered log stays metered, and the usage totals count every
  step of a log once, with the last sample the step reported.
\<close>

section \<open>Compaction\<close>

definition measures_surface :: "(jsnum \<Rightarrow> string) \<Rightarrow> compaction_env \<Rightarrow> bool" where
  "measures_surface dec env \<longleftrightarrow>
     (\<forall>s. session_ok s \<longrightarrow> ce_measure env s = priced_nodes_of dec (ses_log s) (session_nodes s))"

definition summarizer_metered :: "(jsnum \<Rightarrow> string) \<Rightarrow> compaction_env \<Rightarrow> bool" where
  "summarizer_metered dec env \<longleftrightarrow>
     (\<forall>s input. session_ok s \<longrightarrow> metered_log dec (ses_log s) \<longrightarrow> metered_log dec (ses_log (fst (ce_summarize env s input))))"

lemma measures_meter_ok: "measures_surface dec env \<Longrightarrow> meter_ok env"
  by (simp add: measures_surface_def meter_ok_def)

lemma metered_log_only:
  "\<not> is_surface_event e \<Longrightarrow> metered_log dec (log @ [e]) \<longleftrightarrow> metered_log dec log"
  by (simp add: metered_snoc is_replacement_surface_event_def)

lemma session_fold:
  assumes "session_ok s"
  shows "\<exists>reps. fold_surface (ses_log s) = Inr (session_nodes s, reps)"
  using assms by (rule session_view) (metis fold_surface_complete)

lemma nodes_in_log: "session_ok s \<Longrightarrow> set (session_nodes s) \<subseteq> {..<length (ses_log s)}"
proof (erule session_view)
  fix st
  assume "fold_log admit admit_init (ses_log s) = Inr (ses_log s, st)" "session_nodes s = sf_nodes st"
  then show ?thesis using admit_prefix_wf by (auto simp: surface_wf_def)
qed

lemma stable_price:
  assumes ok: "session_ok s1" "session_ok g" and meter: "measures_surface dec env"
    and sel: "validate_surface_region s a b = Inr sel" "session_nodes s1 = session_nodes s"
    and prep: "prepare_compaction env s1 sel = (s2, Inr p)" and stable: "assert_stable env opts g p = Inr ()"
  shows "\<exists>i j. i \<le> j \<and> j < length (session_nodes g) \<and> session_nodes g ! i = a \<and> session_nodes g ! j = b
    \<and> pr_token_count p = sum_list (map snd (slice (priced_nodes_of dec (ses_log g) (session_nodes g)) i (Suc j)))"
proof -
  note v = validate_span_ok [OF sel(1)]
  have g: "ce_measure env g = priced_nodes_of dec (ses_log g) (session_nodes g)" using meter ok(2) by (simp add: measures_surface_def)
  have p: "pr_selection p = sel" "pr_measured p = ce_measure env s1"
    "pr_selected p = slice (ce_measure env s1) (sel_start_idx sel) (Suc (sel_end_idx sel))"
    "pr_token_count p = sum_list (map snd (pr_selected p))"
    using prep by (auto simp: prepare_compaction_def Let_def split: if_splits prod.splits)
  show ?thesis
  proof (cases "co_whole_surface opts")
    case True
    then have same: "ce_measure env g = ce_measure env s1"
      using stable p(2) by (simp add: assert_stable_def ensure_def split: if_splits)
    then have "session_nodes g = session_nodes s"
      using measures_meter_ok [OF meter] ok sel(2) by (metis meter_ok_def)
    then show ?thesis using v p same g by (intro exI [of _ "sel_start_idx sel"] exI [of _ "sel_end_idx sel"]) simp
  next
    case False
    with stable obtain cur where cur: "validate_surface_region g a b = Inr cur"
      "slice (ce_measure env g) (sel_start_idx cur) (Suc (sel_end_idx cur)) = pr_selected p"
      using p(1) v(1,2) by (auto simp: assert_stable_def split: sum.splits if_splits)
    note w = validate_span_ok [OF cur(1)]
    then show ?thesis using cur(2) p(4) g by (intro exI [of _ "sel_start_idx cur"] exI [of _ "sel_end_idx cur"]) simp
  qed
qed

lemma commit_metered:
  assumes ok: "session_ok s" and metered: "metered_log dec (ses_log s)"
    and span: "i < length (session_nodes s)" "j < length (session_nodes s)"
      "session_nodes s ! i = sel_start (pr_selection p)" "session_nodes s ! j = sel_end (pr_selection p)"
      "pr_token_count p = sum_list (map snd (slice (priced_nodes_of dec (ses_log s) (session_nodes s)) i (Suc j)))"
    and commit: "commit_compaction_body env opts n p r m s = (s', res)"
  shows "metered_log dec (ses_log s')"
proof -
  let ?d = "CompactionSummary (summary_payload env opts p r)"
  obtain s1 e1 where a1: "append_event s (ce_now env) ?d None None = Inr (s1, e1)"
    "session_ok s1" "ses_log s1 = ses_log s @ [e1]" "ev_data e1 = ?d" "session_nodes s1 = session_nodes s"
    using append_log_only [OF ok, of ?d "ce_now env"] by auto
  have m1: "metered_log dec (ses_log s1)"
    using metered a1(3,4) claim_not_surface [of e1] by (simp add: metered_log_only)
  let ?op = "Some (surface_op_json (OpReplace (sel_start (pr_selection p)) (sel_end (pr_selection p))))"
  let ?src = "Some (seqs_json (n # ev_seq e1 # sel_shadowed (pr_selection p)))"
  show ?thesis
  proof (cases "append_event s1 (ce_now env) (UserMessageEv m) ?op ?src")
    case (Inl e)
    then have "s' = s1" using commit a1(1) by (auto simp: commit_compaction_body_def Let_def)
    then show ?thesis using m1 by simp
  next
    case (Inr r2)
    obtain s2 e2 where r2: "r2 = (s2, e2)" by (cases r2)
    note app = Inr [unfolded r2]
    have s': "s' = s2" using commit a1(1) app by (auto simp: commit_compaction_body_def Let_def)
    note ok2 = append_event_ok [OF a1(2) app]
    obtain st where st: "fold_log admit admit_init (ses_log s1) = Inr (ses_log s1, st)" using a1(2) by (auto simp: session_ok_def)
    have op: "ev_surface_op e2 = ?op" using append_event_admit [OF a1(2) app st] by (auto simp: new_event_def)
    obtain reps where fold: "fold_surface (ses_log s @ [e1]) = Inr (session_nodes s, reps)"
      using session_fold [OF a1(2)] a1(3,5) by auto
    have index: "index_of (sel_start (pr_selection p)) (session_nodes s) = Some i" "index_of (sel_end (pr_selection p)) (session_nodes s) = Some j"
      using index_of_nth [OF session_nodes_distinct [OF ok]] span by metis+
    have "claim_exact dec (ses_log s1) e2"
      using fold index span(5) a1(3,4) op priced_extend [OF nodes_in_log [OF ok], of dec "[e1]"]
      by (simp add: claim_exact_def summary_payload_def op_field_def is_seq_def)
    then show ?thesis using m1 ok2(2) s' by (simp add: metered_snoc)
  qed
qed

lemma gap_metered:
  assumes "session_ok s" "metered_log dec (ses_log s)" "summarizer_metered dec env"
  shows "metered_log dec (ses_log (gap_session env sel s))"
proof -
  obtain s1 r where prep: "prepare_compaction env s sel = (s1, r)" by fastforce
  then have "session_ok s1" "ses_log s1 = ses_log s" using prepare_session [OF assms(1) prep] by simp_all
  then show ?thesis using prep assms(2,3) by (cases r) (simp_all add: gap_session_def summarizer_metered_def)
qed

lemma body_metered:
  assumes ok: "session_ok s" and sum: "summarizer_ok env" "summarizer_metered dec env" and meter: "measures_surface dec env"
    and sel: "validate_surface_region s0 a b = Inr sel" "session_nodes s = session_nodes s0"
    and metered: "metered_log dec (ses_log s)" and run: "transaction_body env opts n sel s = (s', res)"
  shows "metered_log dec (ses_log s')"
proof -
  let ?g = "gap_session env sel s"
  have g: "session_ok ?g" "metered_log dec (ses_log ?g)" using gap_session_ok(1) [OF ok sum(1)] gap_metered [OF ok metered sum(2)] by blast+
  obtain s1 r1 where prep: "prepare_compaction env s sel = (s1, r1)" by fastforce
  show ?thesis
  proof (cases r1)
    case (Inl e)
    then show ?thesis using run prep metered prepare_session [OF ok prep] by (auto simp: transaction_body_def)
  next
    case p: (Inr p)
    have "fst (summarize_compaction env opts s1 p) = ?g" using prep p by (simp add: summarize_session gap_session_def)
    then obtain r2 where sumr: "summarize_compaction env opts s1 p = (?g, r2)" by (metis prod.collapse)
    show ?thesis
    proof (cases r2)
      case (Inl e)
      then show ?thesis using run prep p sumr g(2) by (simp add: transaction_body_def)
    next
      case (Inr rm)
      obtain r m where rm: "rm = (r, m)" by (cases rm)
      show ?thesis
      proof (cases "co_standalone opts \<and> ce_aborted_summary env \<or> assert_stable env opts ?g p \<noteq> Inr ()")
        case True
        then have "s' = ?g" using run prep p sumr Inr rm
          by (cases "assert_stable env opts ?g p") (auto simp: transaction_body_def split: if_splits)
        then show ?thesis using g(2) by simp
      next
        case False
        obtain s3 r3 where c: "commit_compaction_body env opts n p r m ?g = (s3, r3)" by fastforce
        have s': "s' = s3" using run prep p sumr Inr rm False c by (cases r3) (auto simp: transaction_body_def)
        have psel: "pr_selection p = sel" using prep p by (auto simp: prepare_compaction_def Let_def split: if_splits prod.splits)
        from stable_price [OF ok g(1) meter sel prep [unfolded p]] False obtain i j where "i \<le> j" "j < length (session_nodes ?g)"
          "session_nodes ?g ! i = a" "session_nodes ?g ! j = b"
          "pr_token_count p = sum_list (map snd (slice (priced_nodes_of dec (ses_log ?g) (session_nodes ?g)) i (Suc j)))"
          by blast
        then show ?thesis using commit_metered [OF g _ _ _ _ _ c, of i j] s' psel validate_span_ok(1,2) [OF sel(1)] by simp
      qed
    qed
  qed
qed

lemma compact_keeps_metered:
  assumes ok: "session_ok s" and sum: "summarizer_ok env" "summarizer_metered dec env" and meter: "measures_surface dec env"
    and metered: "metered_log dec (ses_log s)" and run: "compact_surface_region env opts s a b = (s', res)"
  shows "metered_log dec (ses_log s')"
proof (cases "admit_transaction env opts s a b")
  case (Inl f)
  then show ?thesis using run metered by (simp add: compact_surface_region_def)
next
  case (Inr admitted)
  obtain sel owner where adm: "admit_transaction env opts s a b = Inr (sel, owner)" using Inr by (cases admitted) simp
  have sel: "validate_surface_region s a b = Inr sel"
    using adm by (auto simp: admit_transaction_def rbind_eq_Inr rmap_eq_Inr Let_def split: if_splits)
  show ?thesis
  proof (rule compact_run [OF ok sum(1) adm])
    fix s1 e1 s2 body s3 outcome
    assume r: "session_ok s1" "ses_log s1 = ses_log s @ [e1]" "session_nodes s1 = session_nodes s"
      "transaction_body env opts (length (ses_log s)) sel s1 = (s2, body)" "session_ok s2"
      "close_transaction env opts owner body s2 = (s3, True, outcome)"
      "compact_surface_region env opts s a b = settle env opts (s3, True, outcome)"
    have quiet: "\<not> is_surface_event e" if grown: "session_ok t'" "ses_log t' = ses_log t @ [e]" "session_nodes t' = session_nodes t" "session_ok t"
      for t t' e
    proof
      assume e: "is_surface_event e"
      have "length (ses_log t) \<in> set (session_nodes t')"
      proof (rule session_view [OF grown(1)])
        fix st'
        assume st': "fold_log admit admit_init (ses_log t') = Inr (ses_log t', st')" "session_nodes t' = sf_nodes st'"
        then obtain st where "admit (ses_log t, st) e = Inr (ses_log t @ [e], st')" using admit_snoc [of "ses_log t" e st'] grown(2) by auto
        then show ?thesis using e st'(2) by (cases rule: admit_cases) (auto simp: is_surface_event_def)
      qed
      then show False using nodes_in_log [OF grown(4)] grown(3) by auto
    qed
    have "metered_log dec (ses_log s1)" using quiet [OF r(1,2,3) ok] metered r(2) by (simp add: metered_log_only)
    from body_metered [OF r(1) sum meter sel r(3) this r(4)] have s2: "metered_log dec (ses_log s2)" .
    from close_transaction_ok [OF r(5,6)] obtain e where c: "session_ok s3" "session_nodes s3 = session_nodes s2" "ses_log s3 = ses_log s2 @ [e]"
      by (elim conjE exE)
    have "metered_log dec (ses_log s3)" using quiet [OF c(1,3,2) r(5)] s2 c(3) by (simp add: metered_log_only)
    moreover have "s' = s3" using run r(7) settle_session [of env opts s3 True outcome] by simp
    ultimately show ?thesis by simp
  qed
qed

lemma compact_session_ok:
  assumes "session_ok s" "summarizer_ok env" "compact_surface_region env opts s a b = (s', res)"
  shows "session_ok s'"
proof (cases "admit_transaction env opts s a b")
  case (Inl f)
  then show ?thesis using assms by (simp add: compact_surface_region_def)
next
  case (Inr admitted)
  then show ?thesis using compact_always_closes [OF assms(1,2) _ assms(3)] by (cases admitted) auto
qed

section \<open>The meter and its projections\<close>

lemma measured_surface:
  assumes ok: "session_ok s" and reach: "meter_reach dec k (ses_log s) meter"
    and m: "snd (meter_measure dec k (ses_log s) header meter) = Inr m"
  shows "tk_revision m = length (ses_log s) \<and> map fst (tk_nodes m) = session_nodes s
    \<and> (\<forall>(n, tokens)\<in>set (tk_nodes m). tokens = event_tokens dec (ses_log s ! n))
    \<and> tk_surface m = int (sum_list (map snd (tk_nodes m)))
    \<and> snd (meter_measure dec k (ses_log s) header Map.empty) = Inr m"
proof -
  note log = session_ok_contiguous [OF ok]
  obtain ms where ms: "sync_meter dec (ses_log s) fresh_replay = (ms, None)" "m = measurement_of dec ms header"
    using m meter_reads [OF reach log, of header] by (auto split: prod.splits option.splits)
  obtain st where st: "fold_log admit admit_init (ses_log s) = Inr (ses_log s, st)" "session_nodes s = sf_nodes st"
    using session_view [OF ok] by metis
  note follows = synced_follows [OF st(1) ms(1)]
  have "meter_reach dec k ([] @ ses_log s) (Map.empty :: 'a meter)" by (intro reach_grown reach_unread) simp
  from meter_reads [OF this] log ms m meter_reads [OF reach log, of header]
  have "snd (meter_measure dec k (ses_log s) header Map.empty) = Inr m" by simp
  then show ?thesis using follows ms(2) st(2)
    by (auto simp: meter_follows_def measurement_of_def Let_def priced_nodes_of_def comp_def)
qed

lemma projections_follow:
  assumes "session_ok s" "metered_log dec (ses_log s)" "sync_meter dec (ses_log s) fresh_replay = (ms, None)"
  shows "\<exists>bd px. fold_log (apply_breakdown dec) init_breakdown (ses_log s) = Inr bd
    \<and> fold_log (apply_pressure dec) init_pressure (ses_log s) = Inr px
    \<and> bd_messages bd = NInt (rs_surface_tokens ms) \<and> px_surface px = NInt (rs_surface_tokens ms)"
proof -
  obtain st where st: "fold_log admit admit_init (ses_log s) = Inr (ses_log s, st)" using assms(1) by (auto simp: session_ok_def)
  have "rs_surface_tokens ms = surface_price dec (ses_log s) st"
    using synced_follows [OF st assms(3)] by (simp add: meter_follows_def surface_price_def)
  then show ?thesis using breakdown.follows [OF st assms(2)] pressure.follows [OF st assms(2)] by auto
qed

section \<open>Usage\<close>

text \<open>The samples of a log, and the last one of a step.\<close>

definition usage_samples :: "event_log \<Rightarrow> ((int \<times> int) \<times> token_usage) list" where
  "usage_samples log = concat (map (\<lambda>e. case usage_sample (ev_data e) of None \<Rightarrow> [] | Some s \<Rightarrow> [s]) log)"

definition reported_steps :: "event_log \<Rightarrow> (int \<times> int) set" where
  "reported_steps log = fst ` set (usage_samples log)"

definition last_usage :: "event_log \<Rightarrow> (int \<times> int) \<Rightarrow> usage_buckets" where
  "last_usage log key = buckets_from (snd (last (filter (\<lambda>s. fst s = key) (usage_samples log))))"

fun whole_of :: "jsnum \<Rightarrow> int" where
  "whole_of (NInt i) = i"
| "whole_of _ = 0"

definition whole_buckets :: "usage_buckets \<Rightarrow> bool" where
  "whole_buckets b \<longleftrightarrow> (\<forall>f\<in>{ub_input, ub_output, ub_cache_read, ub_cache_write}. f b = NInt (whole_of (f b)))"

definition whole_usage :: "event_log \<Rightarrow> bool" where
  "whole_usage log \<longleftrightarrow> (\<forall>s\<in>set (usage_samples log). whole_buckets (buckets_from (snd s)))"

definition step_before :: "int \<times> int \<Rightarrow> int \<times> int \<Rightarrow> bool" where
  "step_before a b \<longleftrightarrow> fst a < fst b \<or> fst a = fst b \<and> snd a \<le> snd b"

definition sum_usage :: "event_log \<Rightarrow> usage_buckets" where
  "sum_usage log =
     (let total = (\<lambda>f. NInt (\<Sum>key\<in>reported_steps log. whole_of (f (last_usage log key)))) in
      \<lparr>ub_input = total ub_input, ub_output = total ub_output, ub_cache_read = total ub_cache_read,
       ub_cache_write = total ub_cache_write\<rparr>)"

lemma usage_samples_snoc:
  "usage_samples (log @ [e]) = usage_samples log @ (case usage_sample (ev_data e) of None \<Rightarrow> [] | Some s \<Rightarrow> [s])"
  by (simp add: usage_samples_def)

text \<open>Reports come in the order of the steps, and none is of a step after the current one.\<close>

definition reports_ordered :: "event_log \<Rightarrow> session_trace \<Rightarrow> bool" where
  "reports_ordered log tr \<longleftrightarrow>
     sorted_wrt step_before (map fst (usage_samples log))
     \<and> (\<forall>key\<in>reported_steps log. step_before key (tr_next_turn tr, if tr_open_turn tr = None then 0 else tr_next_step tr))"

abbreviation trace_position :: "session_trace \<Rightarrow> int \<times> int" where
  "trace_position tr \<equiv> (tr_next_turn tr, if tr_open_turn tr = None then 0 else tr_next_step tr)"

lemma step_before_trans: "step_before a b \<Longrightarrow> step_before b c \<Longrightarrow> step_before a c"
  by (auto simp: step_before_def)

lemma step_before_antisym: "step_before a b \<Longrightarrow> step_before b a \<Longrightarrow> a = b"
  by (auto simp: step_before_def prod_eq_iff)

lemma sample_position:
  assumes "trace_wf tr" "trace_step tr e = Inr tr'" "usage_sample (ev_data e) = Some (key, u)"
  shows "key = trace_position tr"
proof -
  obtain t s where key: "key = (t, s)" by (cases key)
  have "tr_open_turn tr = Some t \<and> tr_open_step tr = Some s"
    using assms(2,3) key
    by (auto simp: trace_simps rmap_eq_Inr split: if_splits elim!: usage_sample.elims)
  then show ?thesis using assms(1) key by (auto simp: trace_wf_def)
qed

lemma trace_advances:
  assumes "trace_wf tr" "trace_step tr e = Inr tr'"
  shows "step_before (trace_position tr) (trace_position tr')"
  using assms(2) assms(1) by (cases rule: trace_step_cases) (auto simp: trace_wf_def step_before_def)

lemma reports_ordered_log:
  "seed_session log = Inr tr \<Longrightarrow> trace_wf tr \<and> reports_ordered log tr"
proof (induction log arbitrary: tr rule: rev_induct)
  case Nil
  then show ?case using trace_wf_init by (simp add: seed_session_def reports_ordered_def usage_samples_def reported_steps_def)
next
  case (snoc e log)
  then obtain tr0 where tr0: "seed_session log = Inr tr0" "trace_step tr0 e = Inr tr"
    by (auto simp: seed_session_def fold_log_snoc rbind_eq_Inr)
  note ih = snoc.IH [OF tr0(1)]
  have wf: "trace_wf tr" using trace_wf_step ih tr0(2) by blast
  have adv: "step_before (trace_position tr0) (trace_position tr)" using trace_advances ih tr0(2) by blast
  then have old: "\<forall>key\<in>reported_steps log. step_before key (trace_position tr)"
    using ih step_before_trans unfolding reports_ordered_def by blast
  show ?case
  proof (cases "usage_sample (ev_data e)")
    case None
    then show ?thesis using wf old ih by (simp add: reports_ordered_def usage_samples_snoc reported_steps_def)
  next
    case (Some sample)
    obtain key u where sample: "sample = (key, u)" by (cases sample)
    have key: "key = trace_position tr0" using sample_position ih tr0(2) Some sample by blast
    have "\<forall>k\<in>reported_steps log. step_before k key" using ih by (simp add: reports_ordered_def key)
    then show ?thesis using wf old ih adv Some sample key
      by (auto simp: reports_ordered_def usage_samples_snoc reported_steps_def sorted_wrt_append)
  qed
qed

lemma num_whole:
  assumes "n = NInt (whole_of n)"
  shows "num_add (NInt t) n = NInt (t + whole_of n)" "num_sub (NInt t) n = NInt (t - whole_of n)"
proof -
  obtain i where "n = NInt i" using assms by blast
  then show "num_add (NInt t) n = NInt (t + whole_of n)" "num_sub (NInt t) n = NInt (t - whole_of n)" by simp_all
qed

lemma whole_parts:
  assumes "whole_buckets b"
  shows "num_add (NInt t) (ub_input b) = NInt (t + whole_of (ub_input b))" "num_sub (NInt t) (ub_input b) = NInt (t - whole_of (ub_input b))"
    "num_add (NInt t) (ub_output b) = NInt (t + whole_of (ub_output b))" "num_sub (NInt t) (ub_output b) = NInt (t - whole_of (ub_output b))"
    "num_add (NInt t) (ub_cache_read b) = NInt (t + whole_of (ub_cache_read b))"
    "num_sub (NInt t) (ub_cache_read b) = NInt (t - whole_of (ub_cache_read b))"
    "num_add (NInt t) (ub_cache_write b) = NInt (t + whole_of (ub_cache_write b))"
    "num_sub (NInt t) (ub_cache_write b) = NInt (t - whole_of (ub_cache_write b))"
  using assms by (simp_all only: whole_buckets_def ball_simps insert_iff num_whole)

text \<open>One more sample replaces the one of its step, or starts the step.\<close>

lemma last_usage_snoc:
  assumes "usage_sample (ev_data e) = Some (key, u)"
  shows "last_usage (log @ [e]) k = (if k = key then buckets_from u else last_usage log k)"
  using assms by (simp add: last_usage_def usage_samples_snoc)

lemma sample_repeats:
  assumes sorted: "sorted_wrt step_before (map fst (usage_samples log) @ [key])" and "key \<in> reported_steps log"
  shows "key = fst (last (usage_samples log)) \<and> last_usage log key = buckets_from (snd (last (usage_samples log)))"
proof -
  let ?ss = "usage_samples log"
  have ne: "?ss \<noteq> []" using assms(2) by (auto simp: reported_steps_def)
  then obtain front l where ss: "?ss = front @ [l]" by (metis rev_exhaust)
  have "step_before (fst l) key" using sorted ss by (simp add: sorted_wrt_append)
  moreover have "step_before key (fst l)"
    using assms(2) sorted ss by (auto simp: reported_steps_def sorted_wrt_append step_before_def)
  ultimately have "key = fst l" using step_before_antisym by blast
  then show ?thesis using ss by (simp add: last_usage_def)
qed

lemma usage_follows:
  assumes "seed_session log = Inr tr" "whole_usage log"
  shows "us_totals (foldl apply_usage init_usage log) = sum_usage log
    \<and> us_last (foldl apply_usage init_usage log)
        = (if usage_samples log = [] then None
           else Some (fst (last (usage_samples log)), buckets_from (snd (last (usage_samples log)))))"
  using assms
proof (induction log arbitrary: tr rule: rev_induct)
  case Nil
  then show ?case by (simp add: init_usage_def zero_buckets_def sum_usage_def reported_steps_def usage_samples_def)
next
  case (snoc e log)
  then obtain tr0 where tr0: "seed_session log = Inr tr0" by (auto simp: seed_session_def fold_log_snoc rbind_eq_Inr)
  have whole: "whole_usage log" using snoc.prems(2) by (auto simp: whole_usage_def usage_samples_snoc split: option.splits)
  let ?st = "foldl apply_usage init_usage log"
  note ih = snoc.IH [OF tr0 whole]
  show ?case
  proof (cases "usage_sample (ev_data e)")
    case None
    then show ?thesis using ih
      by (simp add: apply_usage_def usage_samples_snoc sum_usage_def reported_steps_def last_usage_def)
  next
    case (Some sample)
    obtain key u where sample: "usage_sample (ev_data e) = Some (key, u)" using Some by (cases sample) simp
    let ?R = "reported_steps log" and ?b = "buckets_from u"
    have sorted: "sorted_wrt step_before (map fst (usage_samples log) @ [key])"
      using reports_ordered_log [OF snoc.prems(1)] sample by (simp add: reports_ordered_def usage_samples_snoc)
    have b: "whole_buckets ?b" using snoc.prems(2) sample by (simp add: whole_usage_def usage_samples_snoc)
    have finite: "finite ?R" by (simp add: reported_steps_def)
    have R: "reported_steps (log @ [e]) = insert key ?R" using sample by (simp add: reported_steps_def usage_samples_snoc)
    have old: "whole_buckets (last_usage log key)" if "key \<in> ?R"
    proof -
      have "filter (\<lambda>s. fst s = key) (usage_samples log) \<noteq> []" using that by (auto simp: reported_steps_def filter_empty_conv)
      then have "last (filter (\<lambda>s. fst s = key) (usage_samples log)) \<in> set (usage_samples log)"
        by (meson last_in_set filter_is_subset subsetD)
      then show ?thesis using whole by (simp add: whole_usage_def last_usage_def)
    qed
    define previous where "previous = (if key \<in> ?R then Some (last_usage log key) else None)"
    have prev: "(case us_last ?st of Some (k, b) \<Rightarrow> if k = key then Some b else None | None \<Rightarrow> None) = previous"
    proof (cases "key \<in> ?R")
      case True
      then have "usage_samples log \<noteq> []" by (auto simp: reported_steps_def)
      then show ?thesis using True ih sample_repeats [OF sorted True] by (auto simp: previous_def)
    next
      case False
      have "fst (last (usage_samples log)) \<in> ?R" if "usage_samples log \<noteq> []" using that by (simp add: reported_steps_def)
      then show ?thesis using False ih by (auto simp: previous_def)
    qed
    have sum: "(\<Sum>k\<in>reported_steps (log @ [e]). whole_of (f (last_usage (log @ [e]) k)))
        = (\<Sum>k\<in>?R. whole_of (f (last_usage log k))) - (case previous of None \<Rightarrow> 0 | Some p \<Rightarrow> whole_of (f p)) + whole_of (f ?b)" for f
    proof -
      have "(\<Sum>k\<in>insert key ?R. whole_of (f (last_usage (log @ [e]) k)))
          = whole_of (f ?b) + (\<Sum>k\<in>?R - {key}. whole_of (f (last_usage log k)))"
        using finite by (simp add: sum.insert_remove last_usage_snoc [OF sample])
      moreover have "(\<Sum>k\<in>?R - {key}. whole_of (f (last_usage log k)))
          = (\<Sum>k\<in>?R. whole_of (f (last_usage log k))) - (case previous of None \<Rightarrow> 0 | Some p \<Rightarrow> whole_of (f p))"
        using finite by (simp add: previous_def sum_diff1)
      ultimately show ?thesis by (simp add: R)
    qed
    have totals: "add_replacing (us_totals ?st) previous ?b = sum_usage (log @ [e])"
      using ih old unfolding sum_usage_def Let_def sum
      by (cases "key \<in> ?R") (simp_all add: add_replacing_def previous_def sum_usage_def Let_def whole_parts b)
    have same: "add_replacing (us_totals ?st) previous ?b = us_totals ?st" if "previous = Some p" "buckets_equal p ?b" for p
    proof -
      have "p = ?b" using that(2) by (simp add: buckets_equal_def same_num_def)
      then show ?thesis using that(1) ih by (simp add: add_replacing_def sum_usage_def Let_def whole_parts b)
    qed
    have step: "apply_usage ?st e = (if \<exists>p. previous = Some p \<and> buckets_equal p ?b then ?st
        else \<lparr>us_totals = add_replacing (us_totals ?st) previous ?b, us_last = Some (key, ?b)\<rparr>)"
      using prev by (cases previous) (simp_all add: apply_usage_def sample Let_def)
    show ?thesis
    proof (cases "\<exists>p. previous = Some p \<and> buckets_equal p ?b")
      case True
      then obtain p where p: "previous = Some p" "buckets_equal p ?b" by blast
      then have R: "key \<in> ?R" "p = last_usage log key" by (auto simp: previous_def split: if_splits)
      have "p = ?b" using p(2) by (simp add: buckets_equal_def same_num_def)
      moreover have "foldl apply_usage init_usage (log @ [e]) = ?st" using True step by simp
      moreover have "usage_samples log \<noteq> []" using R(1) by (auto simp: reported_steps_def)
      ultimately show ?thesis using ih totals same [OF p] R sample sample_repeats [OF sorted R(1)]
        by (auto simp: usage_samples_snoc)
    next
      case False
      then have "apply_usage ?st e = \<lparr>us_totals = add_replacing (us_totals ?st) previous ?b, us_last = Some (key, ?b)\<rparr>"
        unfolding step by (rule if_not_P)
      then show ?thesis using totals sample by (simp add: usage_samples_snoc)
    qed
  qed
qed

end
