(* ===== verification/Result_Pruner.thy ===== *)
theory Result_Pruner
  imports Token_Safety
begin

text \<open>
  The model-free tool-result pruner (\<open>packages/compaction/compaction-tool-result-pruner/src\<close>): its
  budgets (\<open>config.ts\<close>), the cut of the middle of a result's text and the pass over the surface of a
  session (\<open>index.ts\<close>). Text is a list of characters, each one code point.
\<close>

section \<open>Budgets\<close>

definition PRUNE_MARKER :: string where
  "PRUNE_MARKER = [newline, newline] @ ''[... tool result middle pruned ...]'' @ [newline, newline]"

record prune_config =
  pn_threshold :: nat
  pn_head :: nat
  pn_tail :: nat

definition prune_defaults :: prune_config where
  "prune_defaults = \<lparr>pn_threshold = 8192, pn_head = 4096, pn_tail = 1024\<rparr>"

datatype prune_config_error =
    UnknownPruneKey string
  | PruneNotPositive string
  | PruneNegative string
  | PruneTooLarge nat nat

definition prune_keys :: "string list" where
  "prune_keys = [''thresholdChars'', ''headChars'', ''tailChars'']"

text \<open>\<open>config.key ?? default\<close>; the integer checks refuse every value that is not an integer.\<close>

definition prune_budget ::
    "(string \<times> json) list \<Rightarrow> string \<Rightarrow> nat \<Rightarrow> int \<Rightarrow> prune_config_error \<Rightarrow> (prune_config_error, nat) result" where
  "prune_budget kvs key fallback least err =
     (case map_of kvs key of
        None \<Rightarrow> Inr fallback
      | Some JNull \<Rightarrow> Inr fallback
      | Some (JNum (NInt i)) \<Rightarrow> if i < least then Inl err else Inr (nat i)
      | _ \<Rightarrow> Inl err)"

definition resolve_prune_config :: "(string \<times> json) list \<Rightarrow> (prune_config_error, prune_config) result" where
  "resolve_prune_config kvs =
     (case filter (\<lambda>k. k \<notin> set prune_keys) (map fst kvs) of
        k # _ \<Rightarrow> Inl (UnknownPruneKey k)
      | [] \<Rightarrow>
          rbind (prune_budget kvs ''thresholdChars'' (pn_threshold prune_defaults) 1 (PruneNotPositive ''thresholdChars''))
            (\<lambda>threshold. rbind (prune_budget kvs ''headChars'' (pn_head prune_defaults) 0 (PruneNegative ''headChars''))
              (\<lambda>hd_chars. rbind (prune_budget kvs ''tailChars'' (pn_tail prune_defaults) 0 (PruneNegative ''tailChars''))
                (\<lambda>tl_chars. let emitted = hd_chars + length PRUNE_MARKER + tl_chars in
                   if threshold < emitted then Inl (PruneTooLarge emitted threshold)
                   else Inr \<lparr>pn_threshold = threshold, pn_head = hd_chars, pn_tail = tl_chars\<rparr>))))"

section \<open>Content\<close>

fun block_text :: "content_block \<Rightarrow> string" where
  "block_text (TextBlock t) = t"
| "block_text _ = []"

definition measure_content :: "content_block list \<Rightarrow> nat" where
  "measure_content blocks = sum_list (map (\<lambda>b. length (block_text b)) blocks)"

text \<open>The loop over the blocks: characters consumed so far, and whether the marker was inserted.\<close>

fun prune_blocks :: "nat \<Rightarrow> nat \<Rightarrow> nat \<Rightarrow> bool \<Rightarrow> content_block list \<Rightarrow> content_block list \<times> bool" where
  "prune_blocks removed_start removed_end consumed inserted [] = ([], inserted)"
| "prune_blocks removed_start removed_end consumed inserted (b # bs) =
     (case b of
        TextBlock points \<Rightarrow>
          (let block_end = consumed + length points;
               head_end = min (length points) (removed_start - consumed);
               tail_start = min (length points) (removed_end - consumed);
               intersects = (consumed < removed_end \<and> removed_start < block_end);
               marker = (if intersects \<and> \<not> inserted then PRUNE_MARKER else []);
               txt = take head_end points @ marker @ drop tail_start points;
               rest = prune_blocks removed_start removed_end block_end (inserted \<or> marker \<noteq> []) bs
           in (if txt \<noteq> [] then TextBlock txt # fst rest else fst rest, snd rest))
      | _ \<Rightarrow>
          (let rest = prune_blocks removed_start removed_end consumed inserted bs in (b # fst rest, snd rest)))"

datatype prune_error =
    NoRemovedSpan
  | PruneNotSmaller
  | PruneAppend append_error

definition prune_content :: "prune_config \<Rightarrow> content_block list \<Rightarrow> (prune_error, content_block list option) result" where
  "prune_content cfg blocks =
     (let total = measure_content blocks in
      if total \<le> pn_threshold cfg then Inr None
      else (let (pruned, inserted) = prune_blocks (pn_head cfg) (total - pn_tail cfg) 0 False blocks;
                after = measure_content pruned
            in if \<not> inserted then Inl NoRemovedSpan
               else if pn_threshold cfg < after \<or> total \<le> after then Inl PruneNotSmaller
               else Inr (Some pruned)))"

section \<open>A pass over a session\<close>

record pruned_entry =
  pe_original :: nat
  pe_replacement :: nat
  pe_call_id :: call_id
  pe_before :: nat
  pe_after :: nat

type_synonym prune_result = "pruned_entry list"

definition chars_removed :: "prune_result \<Rightarrow> nat" where
  "chars_removed entries = sum_list (map (\<lambda>p. pe_before p - pe_after p) entries)"

definition prune_candidates :: "session \<Rightarrow> (nat \<times> tool_result_data) list" where
  "prune_candidates s =
     concat (map (\<lambda>n. case nth_opt (ses_log s) n of
                        Some e \<Rightarrow> (case ev_data e of ToolResult d \<Rightarrow> [(n, d)] | _ \<Rightarrow> [])
                      | None \<Rightarrow> []) (session_nodes s))"

text \<open>The replacement of one node: the metering event, then the rewrite that shadows it.\<close>

definition replace_result ::
    "(jsnum \<Rightarrow> string) \<Rightarrow> int \<Rightarrow> nat \<Rightarrow> tool_result_data \<Rightarrow> content_block list \<Rightarrow> session
       \<Rightarrow> session \<times> (prune_error, session_event) result" where
  "replace_result dec now n d content s =
     (case append_event s now
             (CompactionPrune n n [n] (NInt (int (estimate_message dec (message_of_tool_result (trd_message d)))))) None None of
        Inl e \<Rightarrow> (s, Inl (PruneAppend e))
      | Inr (s1, _) \<Rightarrow>
          (case append_event s1 now (ToolResult (d\<lparr>trd_message := (trd_message d)\<lparr>trm_content := content\<rparr>\<rparr>))
                  (Some (surface_op_json (OpReplace n n))) (Some (seqs_json [n])) of
             Inl e \<Rightarrow> (s1, Inl (PruneAppend e))
           | Inr (s2, ev) \<Rightarrow> (s2, Inr ev)))"

fun prune_pass ::
    "(jsnum \<Rightarrow> string) \<Rightarrow> prune_config \<Rightarrow> int \<Rightarrow> (nat \<times> tool_result_data) list \<Rightarrow> session
       \<Rightarrow> session \<times> (prune_error, prune_result) result" where
  "prune_pass dec cfg now [] s = (s, Inr [])"
| "prune_pass dec cfg now ((n, d) # rest) s =
     (let content = trm_content (trd_message d) in
      case prune_content cfg content of
        Inl e \<Rightarrow> (s, Inl e)
      | Inr None \<Rightarrow> prune_pass dec cfg now rest s
      | Inr (Some pruned) \<Rightarrow>
          (case replace_result dec now n d pruned s of
             (s1, Inl e) \<Rightarrow> (s1, Inl e)
           | (s1, Inr ev) \<Rightarrow>
               (case prune_pass dec cfg now rest s1 of
                  (s2, r) \<Rightarrow>
                    (s2, rmap ((#) \<lparr>pe_original = n, pe_replacement = ev_seq ev, pe_call_id = trm_call_id (trd_message d),
                                    pe_before = measure_content content, pe_after = measure_content pruned\<rparr>) r))))"

definition prune_session ::
    "(jsnum \<Rightarrow> string) \<Rightarrow> prune_config \<Rightarrow> int \<Rightarrow> session \<Rightarrow> session \<times> (prune_error, prune_result) result" where
  "prune_session dec cfg now s = prune_pass dec cfg now (prune_candidates s) s"

section \<open>The middle is cut out\<close>

definition content_text :: "content_block list \<Rightarrow> string" where
  "content_text blocks = concat (map block_text blocks)"

fun is_text :: "content_block \<Rightarrow> bool" where
  "is_text (TextBlock _) = True"
| "is_text _ = False"

lemma measure_text: "measure_content blocks = length (content_text blocks)"
  by (induction blocks) (simp_all add: measure_content_def content_text_def)

lemma content_text_Cons [simp]: "content_text [] = []" "content_text (b # bs) = block_text b @ content_text bs"
  by (simp_all add: content_text_def)

lemma marker_nonempty [simp]: "PRUNE_MARKER \<noteq> []"
  by (simp add: PRUNE_MARKER_def)

lemma not_text: "\<not> is_text b \<Longrightarrow> block_text b = []"
  by (cases b) simp_all

lemma prune_blocks_other:
  "\<not> is_text b \<Longrightarrow> prune_blocks rs re c ins (b # bs) = (b # fst (prune_blocks rs re c ins bs), snd (prune_blocks rs re c ins bs))"
  by (cases b) (simp_all add: Let_def)

lemma prune_blocks_rich: "filter (\<lambda>b. \<not> is_text b) (fst (prune_blocks rs re c ins bs)) = filter (\<lambda>b. \<not> is_text b) bs"
proof (induction bs arbitrary: c ins)
  case (Cons b bs)
  then show ?case by (cases "is_text b"; cases b) (simp_all add: Let_def)
qed simp

lemma prune_blocks_text:
  assumes "rs < re" "if ins then rs \<le> c else c \<le> rs"
  shows "content_text (fst (prune_blocks rs re c ins bs))
      = take (rs - c) (content_text bs)
        @ (if \<not> ins \<and> rs < c + length (content_text bs) then PRUNE_MARKER else []) @ drop (re - c) (content_text bs)
    \<and> snd (prune_blocks rs re c ins bs) = (ins \<or> rs < c + length (content_text bs))"
  using assms
proof (induction bs arbitrary: c ins)
  case (Cons b bs)
  show ?case
  proof (cases "is_text b")
    case False
    then show ?thesis using Cons.IH [OF Cons.prems] by (simp add: prune_blocks_other not_text del: prune_blocks.simps)
  next
    case True
    then obtain t where b: "b = TextBlock t" by (cases b) simp_all
    have parts: "take (min (length t) k) t = take k t" "drop (min (length t) k) t = drop k t" for k
      by (cases "length t \<le> k"; simp add: min_def)+
    show ?thesis
    proof (cases "ins \<or> rs < c + length t")
      case True
      then have ih: "content_text (fst (prune_blocks rs re (c + length t) True bs)) = drop (re - (c + length t)) (content_text bs)"
        "snd (prune_blocks rs re (c + length t) True bs)"
        using Cons.IH [of True "c + length t"] Cons.prems by (auto split: if_splits)
      show ?thesis
      proof (cases ins)
        case True
        then have "rs - c = 0" using Cons.prems by simp
        then show ?thesis using ih True by (simp add: b Let_def parts)
      next
        case False
        then have hit: "c < re" "rs < c + length t" "rs - (c + length t) = 0" using True Cons.prems by simp_all
        then show ?thesis using ih False by (simp add: b Let_def parts)
      qed
    next
      case False
      then have out: "\<not> ins" "c + length t \<le> rs" using Cons.prems by simp_all
      then have whole: "min (length t) (rs - c) = length t" "min (length t) (re - c) = length t" using Cons.prems by simp_all
      have ih: "content_text (fst (prune_blocks rs re (c + length t) False bs))
          = take (rs - (c + length t)) (content_text bs)
            @ (if rs < c + length t + length (content_text bs) then PRUNE_MARKER else []) @ drop (re - (c + length t)) (content_text bs)"
        "snd (prune_blocks rs re (c + length t) False bs) \<longleftrightarrow> rs < c + length t + length (content_text bs)"
        using Cons.IH [of False "c + length t"] Cons.prems(1) out by simp_all
      show ?thesis using ih out whole by (cases "t = []") (simp_all add: b Let_def parts add.assoc)
    qed
  qed
qed (auto split: if_splits)

definition prune_config_ok :: "prune_config \<Rightarrow> bool" where
  "prune_config_ok cfg \<longleftrightarrow> pn_head cfg + length PRUNE_MARKER + pn_tail cfg \<le> pn_threshold cfg"

lemma resolved_prune_config: "resolve_prune_config kvs = Inr cfg \<Longrightarrow> prune_config_ok cfg"
  by (auto simp: resolve_prune_config_def prune_config_ok_def rbind_eq_Inr Let_def split: list.splits if_splits)

lemma prune_content_result:
  assumes ok: "prune_config_ok cfg"
  shows "prune_content cfg blocks =
    (if length (content_text blocks) \<le> pn_threshold cfg then Inr None
     else Inr (Some (fst (prune_blocks (pn_head cfg) (length (content_text blocks) - pn_tail cfg) 0 False blocks))))"
    "pn_threshold cfg < length (content_text blocks) \<Longrightarrow>
      content_text (fst (prune_blocks (pn_head cfg) (length (content_text blocks) - pn_tail cfg) 0 False blocks))
        = take (pn_head cfg) (content_text blocks) @ PRUNE_MARKER
          @ drop (length (content_text blocks) - pn_tail cfg) (content_text blocks)"
proof -
  let ?n = "length (content_text blocks)"
  let ?p = "prune_blocks (pn_head cfg) (?n - pn_tail cfg) 0 False blocks"
  have big: "pn_head cfg < ?n - pn_tail cfg \<and> pn_head cfg < ?n" if "pn_threshold cfg < ?n"
    using ok that by (simp add: prune_config_ok_def PRUNE_MARKER_def)
  show cut: "content_text (fst ?p) = take (pn_head cfg) (content_text blocks) @ PRUNE_MARKER
      @ drop (?n - pn_tail cfg) (content_text blocks)" if "pn_threshold cfg < ?n"
    using prune_blocks_text [of "pn_head cfg" "?n - pn_tail cfg" False 0 blocks] big [OF that] by simp
  have ins: "snd ?p" if "pn_threshold cfg < ?n"
    using prune_blocks_text [of "pn_head cfg" "?n - pn_tail cfg" False 0 blocks] big [OF that] by simp
  have small: "length (content_text (fst ?p)) \<le> pn_threshold cfg" if "pn_threshold cfg < ?n"
    using cut [OF that] ok that big [OF that] by (simp add: prune_config_ok_def)
  show "prune_content cfg blocks = (if ?n \<le> pn_threshold cfg then Inr None else Inr (Some (fst ?p)))"
  proof (cases "?n \<le> pn_threshold cfg")
    case False
    then show ?thesis using ins small by (simp add: prune_content_def measure_text Let_def split: prod.split) force
  qed (simp add: prune_content_def measure_text Let_def)
qed

section \<open>One replacement\<close>

definition json_metas :: "event_log \<Rightarrow> bool" where
  "json_metas log \<longleftrightarrow> (\<forall>e\<in>set log. case ev_data e of ToolResult d \<Rightarrow> pred_option json_wf (trd_meta d) | _ \<Rightarrow> True)"

abbreviation with_content :: "tool_result_data \<Rightarrow> content_block list \<Rightarrow> tool_result_data" where
  "with_content d content \<equiv> d\<lparr>trd_message := (trd_message d)\<lparr>trm_content := content\<rparr>\<rparr>"

lemma prune_event_log_only [simp]: "log_only (CompactionPrune a b c t)"
  by (simp add: log_only_def is_surface_eligible_type_def assert_supported_request_header_def)

lemma slice_one: "i < length xs \<Longrightarrow> slice xs i (Suc i) = [xs ! i]"
  by (simp add: slice_def take_Suc_conv_app_nth hd_drop_conv_nth Cons_nth_drop_Suc [symmetric])

lemma rewrite_admitted:
  assumes wf: "surface_wf (log, st)" and node: "i < length (sf_nodes st)" "sf_nodes st ! i = n" "ev_data (log ! n) = ToolResult d"
    and meta: "pred_option json_wf (trd_meta d)" and room: "int (length log) \<le> max_safe_integer"
    and e: "e = \<lparr>ev_seq = length log, ev_time = now, ev_data = ToolResult (with_content d content), ev_ignorable = False,
        ev_surface_op = Some (surface_op_json (OpReplace n n)), ev_sources = Some (seqs_json [n])\<rparr>"
  shows "admit (log, st) e = Inr (log @ [e], st\<lparr>sf_nodes := (sf_nodes st)[i := length log], sf_generation := sf_generation st + 1\<rparr>)"
proof -
  have n: "n < length log" using wf node by (auto simp: surface_wf_def)
  then have safe: "is_safe_integer (NInt (int n))" using room by (simp add: safe_int_def max_safe_integer_def)
  have index: "index_of n (sf_nodes st) = Some i"
    using index_of_nth [of "sf_nodes st" i] wf node by (simp add: surface_wf_def)
  have op: "surface_op_of e = Inr (Some (OpReplace n n))"
    using safe by (simp add: e surface_op_of_def is_surface_eligible_type_def replace_op_of_def)
  have range: "replacement_range st n n = Inr (i, i, [n])"
    using index node by (simp add: replacement_range_def slice_one)
  have prov: "assert_provenance e [n] = Inr ()"
    using safe n by (simp add: e assert_provenance_def cited_sources_def seqs_json_def)
  have meta_same: "same_meta (trd_meta d) (trd_meta d)"
    using meta is_deep_equal_json_refl by (auto simp: same_meta_def split: option.split)
  have rewrite: "assert_tool_result_rewrite e [n] log 0 = Inr ()"
    using n node(3) meta_same by (simp add: e assert_tool_result_rewrite_def log_at_def same_result_rest_def nth_opt_def)
  have "plan_surface_event st e (length log) log 0
      = Inr (Some (PlanReplace \<lparr>sr_seq = length log, sr_start = n, sr_end = n, sr_shadowed = [n]\<rparr> i i))"
    using op range prov rewrite by (simp add: plan_surface_event_def) (simp add: e)
  then show ?thesis using node(1)
    by (simp add: admit_def apply_surface_event_def js_splice_def upd_conv_take_nth_drop)
qed

lemma replaced_result:
  assumes ok: "session_ok s" and node: "i < length (session_nodes s)" "session_nodes s ! i = n" "ev_data (ses_log s ! n) = ToolResult d"
    and meta: "json_metas (ses_log s)" and room: "int (length (ses_log s)) + 2 \<le> max_safe_integer"
  shows "\<exists>s' e. replace_result dec now n d content s = (s', Inr e) \<and> session_ok s' \<and> ev_seq e = Suc (length (ses_log s))
    \<and> length (ses_log s') = length (ses_log s) + 2 \<and> take (length (ses_log s)) (ses_log s') = ses_log s
    \<and> ev_data (ses_log s' ! Suc (length (ses_log s))) = ToolResult (with_content d content)
    \<and> session_nodes s' = (session_nodes s)[i := Suc (length (ses_log s))]
    \<and> json_metas (ses_log s') \<and> (metered_log dec (ses_log s) \<longrightarrow> metered_log dec (ses_log s'))"
proof -
  let ?price = "NInt (int (estimate_message dec (message_of_tool_result (trd_message d))))"
  let ?prune = "CompactionPrune n n [n] ?price" and ?d = "ToolResult (with_content d content)"
  let ?op = "Some (surface_op_json (OpReplace n n))" and ?src = "Some (seqs_json [n])"
  have n: "n < length (ses_log s)" using nodes_in_log [OF ok] node by (metis lessThan_iff nth_mem subsetD)
  have dmeta: "pred_option json_wf (trd_meta d)" using meta node(3) n by (auto simp: json_metas_def dest!: bspec [of _ _ "ses_log s ! n"])
  obtain s1 e1 where a1: "append_event s now ?prune None None = Inr (s1, e1)"
    "session_ok s1" "ses_log s1 = ses_log s @ [e1]" "ev_data e1 = ?prune" "session_nodes s1 = session_nodes s"
    using append_log_only [OF ok, of ?prune now] by auto
  obtain st where st: "fold_log admit admit_init (ses_log s1) = Inr (ses_log s1, st)" "session_nodes s1 = sf_nodes st"
    using session_view [OF a1(2)] by metis
  have wf: "surface_wf (ses_log s1, st)" using admit_prefix_wf st(1) by blast
  let ?e = "new_event s1 now ?d ?op ?src"
  have adm: "admit (ses_log s1, st) ?e
      = Inr (ses_log s1 @ [?e], st\<lparr>sf_nodes := (sf_nodes st)[i := length (ses_log s1)], sf_generation := sf_generation st + 1\<rparr>)"
    by (rule rewrite_admitted [OF wf, where d = d and n = n])
      (use node a1(3,5) st(2) n dmeta room in \<open>simp_all add: nth_append new_event_def\<close>)
  then have "is_ok (append_event s1 now ?d ?op ?src)"
    using append_event_accepts [OF a1(2) st(1), of ?d now ?op ?src] by (simp add: assert_supported_request_header_def)
  then obtain s2 e2 where a2: "append_event s1 now ?d ?op ?src = Inr (s2, e2)" by (auto simp: is_ok_iff)
  note ok2 = append_event_ok [OF a1(2) a2]
  have nodes: "session_nodes s2 = (session_nodes s)[i := Suc (length (ses_log s))]" and e2: "e2 = ?e"
    using append_event_admit [OF a1(2) a2 st(1)] adm a1(3,5) st(2) by auto
  have log: "ses_log s2 = ses_log s @ [e1, e2]" using ok2(2) a1(3) by simp
  have metas: "json_metas (ses_log s2)" using meta dmeta log ok2(5) a1(4) by (auto simp: json_metas_def)
  have "metered_log dec (ses_log s2)" if metered: "metered_log dec (ses_log s)"
  proof -
    have "metered_log dec (ses_log s1)" using metered a1(3,4) claim_not_surface [of e1] by (simp add: metered_log_only)
    moreover obtain reps where "fold_surface (ses_log s @ [e1]) = Inr (session_nodes s, reps)"
      using session_fold [OF a1(2)] a1(3,5) by auto
    moreover have "index_of n (session_nodes s) = Some i"
      using index_of_nth [OF session_nodes_distinct [OF ok]] node by metis
    moreover have "slice (priced_nodes_of dec (ses_log s @ [e1]) (session_nodes s)) i (Suc i)
        = [(n, estimate_message dec (message_of_tool_result (trd_message d)))]"
      using node n by (simp add: slice_one priced_nodes_of_def nth_append event_tokens_def)
    moreover have "ev_surface_op e2 = ?op" by (simp add: e2 new_event_def)
    ultimately have "claim_exact dec (ses_log s1) e2" "metered_log dec (ses_log s1)"
      using a1(3,4) by (simp_all add: claim_exact_def op_field_def is_seq_def)
    then show ?thesis using log a1(3) metered_snoc [of dec "ses_log s1" e2] by simp
  qed
  then show ?thesis using a1 a2 ok2 nodes log metas
    by (intro exI [of _ s2] exI [of _ e2]) (simp add: replace_result_def nth_append)
qed

section \<open>The pass\<close>

definition over_budget :: "prune_config \<Rightarrow> tool_result_data \<Rightarrow> bool" where
  "over_budget cfg d \<longleftrightarrow> pn_threshold cfg < length (content_text (trm_content (trd_message d)))"

definition cut_content :: "prune_config \<Rightarrow> content_block list \<Rightarrow> content_block list" where
  "cut_content cfg blocks = fst (prune_blocks (pn_head cfg) (length (content_text blocks) - pn_tail cfg) 0 False blocks)"

text \<open>What a node becomes: itself, or the rewrite of its over-budget result.\<close>

definition pruned_node :: "prune_config \<Rightarrow> event_log \<Rightarrow> nat \<Rightarrow> nat \<Rightarrow> bool" where
  "pruned_node cfg log n m \<longleftrightarrow>
     (case ev_data (log ! n) of
        ToolResult d \<Rightarrow>
          (if over_budget cfg d
           then ev_data (log ! m) = ToolResult (with_content d (cut_content cfg (trm_content (trd_message d))))
           else m = n)
      | _ \<Rightarrow> m = n)"

lemma prune_pass_result:
  assumes cfg: "prune_config_ok cfg"
  shows "session_ok s \<Longrightarrow> distinct (map fst cands) \<Longrightarrow>
    (\<forall>(n, d)\<in>set cands. n \<in> set (session_nodes s) \<and> ev_data (ses_log s ! n) = ToolResult d) \<Longrightarrow> json_metas (ses_log s) \<Longrightarrow>
    int (length (ses_log s) + 2 * length cands) \<le> max_safe_integer \<Longrightarrow>
    \<exists>s' entries. prune_pass dec cfg now cands s = (s', Inr entries) \<and> session_ok s' \<and> json_metas (ses_log s')
      \<and> take (length (ses_log s)) (ses_log s') = ses_log s
      \<and> (metered_log dec (ses_log s) \<longrightarrow> metered_log dec (ses_log s'))
      \<and> length (session_nodes s') = length (session_nodes s)
      \<and> (\<forall>i<length (session_nodes s). if session_nodes s ! i \<in> fst ` set cands
            then pruned_node cfg (ses_log s') (session_nodes s ! i) (session_nodes s' ! i)
            else session_nodes s' ! i = session_nodes s ! i)"
proof (induction cands arbitrary: s)
  case (Cons c cands)
  obtain n d where c: "c = (n, d)" by (cases c)
  have n: "n \<in> set (session_nodes s)" "ev_data (ses_log s ! n) = ToolResult d" using Cons.prems(3) c by auto
  then obtain i where i: "i < length (session_nodes s)" "session_nodes s ! i = n" by (auto simp: in_set_conv_nth)
  have nlog: "n < length (ses_log s)" using nodes_in_log [OF Cons.prems(1)] n(1) by auto
  show ?case
  proof (cases "over_budget cfg d")
    case False
    then have "prune_pass dec cfg now (c # cands) s = prune_pass dec cfg now cands s"
      using prune_content_result(1) [OF cfg] by (simp add: c over_budget_def)
    moreover obtain s' entries where ih: "prune_pass dec cfg now cands s = (s', Inr entries)" "session_ok s'" "json_metas (ses_log s')"
      "take (length (ses_log s)) (ses_log s') = ses_log s" "metered_log dec (ses_log s) \<longrightarrow> metered_log dec (ses_log s')"
      "length (session_nodes s') = length (session_nodes s)"
      "\<forall>i<length (session_nodes s). if session_nodes s ! i \<in> fst ` set cands
            then pruned_node cfg (ses_log s') (session_nodes s ! i) (session_nodes s' ! i)
            else session_nodes s' ! i = session_nodes s ! i"
      using Cons.IH [of s] Cons.prems by auto
    moreover have "ses_log s' ! n = ses_log s ! n" using ih(4) nlog by (metis nth_take)
    then have "pruned_node cfg (ses_log s') n n" using n(2) False by (simp add: pruned_node_def)
    moreover have "n \<notin> fst ` set cands" using Cons.prems(2) by (simp add: c)
    ultimately show ?thesis by (auto simp: c)
  next
    case True
    let ?cut = "cut_content cfg (trm_content (trd_message d))" and ?k = "Suc (length (ses_log s))"
    have cut: "prune_content cfg (trm_content (trd_message d)) = Inr (Some ?cut)"
      using prune_content_result(1) [OF cfg] True by (simp add: over_budget_def cut_content_def)
    obtain s1 e where r: "replace_result dec now n d ?cut s = (s1, Inr e)" "session_ok s1" "ev_seq e = ?k"
      "length (ses_log s1) = length (ses_log s) + 2" "take (length (ses_log s)) (ses_log s1) = ses_log s"
      "ev_data (ses_log s1 ! ?k) = ToolResult (with_content d ?cut)" "session_nodes s1 = (session_nodes s)[i := ?k]"
      "json_metas (ses_log s1)" "metered_log dec (ses_log s) \<longrightarrow> metered_log dec (ses_log s1)"
      using replaced_result [OF Cons.prems(1) i n(2) Cons.prems(4), of dec now ?cut] Cons.prems(5) by auto
    have keep: "ses_log s1 ! x = ses_log s ! x" if "x < length (ses_log s)" for x using r(5) that by (metis nth_take)
    have later: "x \<in> set (session_nodes s1) \<and> ev_data (ses_log s1 ! x) = ToolResult y" if "(x, y) \<in> set cands" for x y
    proof -
      have x: "x \<in> set (session_nodes s)" "ev_data (ses_log s ! x) = ToolResult y" "x \<noteq> n"
        using Cons.prems(2,3) that by (auto simp: c image_iff)
      then obtain j where j: "j < length (session_nodes s)" "session_nodes s ! j = x" by (auto simp: in_set_conv_nth)
      moreover have "j \<noteq> i" using j i x(3) by auto
      ultimately have "session_nodes s1 ! j = x" "j < length (session_nodes s1)" using r(7) by simp_all
      moreover have "x < length (ses_log s)" using nodes_in_log [OF Cons.prems(1)] x(1) by auto
      ultimately show ?thesis using keep x(2) by (metis nth_mem)
    qed
    have rest: "distinct (map fst cands)"
      "\<forall>(x, y)\<in>set cands. x \<in> set (session_nodes s1) \<and> ev_data (ses_log s1 ! x) = ToolResult y"
      using Cons.prems(2) later by (auto simp: c)
    have room: "int (length (ses_log s1) + 2 * length cands) \<le> max_safe_integer" using Cons.prems(5) r(4) by simp
    obtain s' entries where ih: "prune_pass dec cfg now cands s1 = (s', Inr entries)" "session_ok s'" "json_metas (ses_log s')"
      "take (length (ses_log s1)) (ses_log s') = ses_log s1" "metered_log dec (ses_log s1) \<longrightarrow> metered_log dec (ses_log s')"
      "length (session_nodes s') = length (session_nodes s1)"
      "\<forall>j<length (session_nodes s1). if session_nodes s1 ! j \<in> fst ` set cands
            then pruned_node cfg (ses_log s') (session_nodes s1 ! j) (session_nodes s' ! j)
            else session_nodes s' ! j = session_nodes s1 ! j"
      using Cons.IH [OF r(2) rest r(8) room] by blast
    have old: "ses_log s' ! x = ses_log s1 ! x" if "x < length (ses_log s1)" for x using ih(4) that by (metis nth_take)
    have fresh: "?k \<notin> fst ` set cands" using later nodes_in_log [OF Cons.prems(1)] Cons.prems(3) by (force simp: c)
    have at_i: "session_nodes s' ! i = ?k" using ih(7) i(1) r(7) fresh by auto
    have "pruned_node cfg (ses_log s') n ?k"
      using old keep n(2) nlog r(4,6) True by (simp add: pruned_node_def)
    have "if session_nodes s ! j \<in> fst ` set (c # cands)
          then pruned_node cfg (ses_log s') (session_nodes s ! j) (session_nodes s' ! j)
          else session_nodes s' ! j = session_nodes s ! j" if j: "j < length (session_nodes s)" for j
    proof (cases "j = i")
      case True
      then show ?thesis using \<open>pruned_node cfg (ses_log s') n ?k\<close> i(2) at_i by (simp add: c)
    next
      case False
      then have same: "session_nodes s1 ! j = session_nodes s ! j" "j < length (session_nodes s1)" using r(7) j by simp_all
      have "session_nodes s ! j \<noteq> n"
        using distinct_nth_unique [OF session_nodes_distinct [OF Cons.prems(1)] j i(1)] i(2) False by auto
      then have mem: "session_nodes s ! j \<in> fst ` set (c # cands) \<longleftrightarrow> session_nodes s ! j \<in> fst ` set cands" by (simp add: c)
      have "if session_nodes s1 ! j \<in> fst ` set cands
          then pruned_node cfg (ses_log s') (session_nodes s1 ! j) (session_nodes s' ! j)
          else session_nodes s' ! j = session_nodes s1 ! j"
        using ih(7) same(2) by blast
      then show ?thesis unfolding mem same(1) .
    qed
    moreover have "take (length (ses_log s)) (ses_log s') = ses_log s"
      using ih(4) r(4,5) by (metis take_take min.absorb1 le_add1)
    ultimately show ?thesis using r ih cut by (simp add: c Let_def)
  qed
qed auto

lemma candidates_set:
  "(n, d) \<in> set (prune_candidates s) \<longleftrightarrow>
     n \<in> set (session_nodes s) \<and> n < length (ses_log s) \<and> ev_data (ses_log s ! n) = ToolResult d"
proof -
  have "(n, d) \<in> set (case nth_opt (ses_log s) x of
        Some e \<Rightarrow> (case ev_data e of ToolResult d \<Rightarrow> [(x, d)] | _ \<Rightarrow> []) | None \<Rightarrow> [])
      \<longleftrightarrow> x = n \<and> n < length (ses_log s) \<and> ev_data (ses_log s ! n) = ToolResult d" for x
    by (cases "x < length (ses_log s)"; cases "ev_data (ses_log s ! x)") (auto simp: nth_opt_def)
  then show ?thesis by (auto simp: prune_candidates_def)
qed

lemma candidates_distinct: "distinct (session_nodes s) \<Longrightarrow> distinct (map fst (prune_candidates s))"
  and candidates_length: "length (prune_candidates s) \<le> length (session_nodes s)"
proof -
  have "map fst (concat (map (\<lambda>n. case nth_opt (ses_log s) n of
            Some e \<Rightarrow> (case ev_data e of ToolResult d \<Rightarrow> [(n, d)] | _ \<Rightarrow> []) | None \<Rightarrow> []) ns))
      = filter (\<lambda>n. \<exists>e d. nth_opt (ses_log s) n = Some e \<and> ev_data e = ToolResult d) ns" for ns
    by (induction ns) (auto simp: nth_opt_def split: event_data.split)
  from this [of "session_nodes s"] have fst: "map fst (prune_candidates s)
      = filter (\<lambda>n. \<exists>e d. nth_opt (ses_log s) n = Some e \<and> ev_data e = ToolResult d) (session_nodes s)"
    unfolding prune_candidates_def .
  show "distinct (session_nodes s) \<Longrightarrow> distinct (map fst (prune_candidates s))" unfolding fst by simp
  show "length (prune_candidates s) \<le> length (session_nodes s)"
    using arg_cong [OF fst, of length] by (simp add: le_trans [OF length_filter_le])
qed

lemma cut_fits: "prune_config_ok cfg \<Longrightarrow> pn_threshold cfg < length (content_text blocks) \<Longrightarrow>
    length (content_text (cut_content cfg blocks)) \<le> pn_threshold cfg"
  using prune_content_result(2) [of cfg blocks] by (simp add: cut_content_def prune_config_ok_def)

lemma cut_content_spec:
  assumes "prune_config_ok cfg"
  shows "\<forall>blocks. pn_threshold cfg < length (content_text blocks) \<longrightarrow>
      content_text (cut_content cfg blocks) = take (pn_head cfg) (content_text blocks) @ PRUNE_MARKER
          @ drop (length (content_text blocks) - pn_tail cfg) (content_text blocks)
      \<and> filter (\<lambda>b. \<not> is_text b) (cut_content cfg blocks) = filter (\<lambda>b. \<not> is_text b) blocks
      \<and> length (content_text (cut_content cfg blocks)) \<le> pn_threshold cfg"
proof (intro allI impI conjI)
  fix blocks
  assume "pn_threshold cfg < length (content_text blocks)"
  then show "content_text (cut_content cfg blocks) = take (pn_head cfg) (content_text blocks) @ PRUNE_MARKER
          @ drop (length (content_text blocks) - pn_tail cfg) (content_text blocks)"
    "filter (\<lambda>b. \<not> is_text b) (cut_content cfg blocks) = filter (\<lambda>b. \<not> is_text b) blocks"
    "length (content_text (cut_content cfg blocks)) \<le> pn_threshold cfg"
    using prune_content_result(2) [OF assms] cut_fits [OF assms] prune_blocks_rich by (auto simp: cut_content_def)
qed

lemma pruned_node_fits:
  assumes "prune_config_ok cfg" "pruned_node cfg log n m" "ev_data (log ! m) = ToolResult d"
  shows "\<not> over_budget cfg d"
  using assms cut_fits [OF assms(1)]
  by (auto simp: pruned_node_def over_budget_def not_less split: event_data.splits if_splits)

lemma pass_within_budget:
  "prune_config_ok cfg \<Longrightarrow> (\<forall>(n, d)\<in>set cands. \<not> over_budget cfg d) \<Longrightarrow> prune_pass dec cfg now cands s = (s, Inr [])"
proof (induction cands)
  case (Cons c cands)
  then show ?case using prune_content_result(1) [OF Cons.prems(1)] by (cases c) (auto simp: over_budget_def Let_def)
qed simp

lemma prune_session_result:
  assumes cfg: "prune_config_ok cfg" and ok: "session_ok s" and meta: "json_metas (ses_log s)"
    and room: "int (length (ses_log s) + 2 * length (session_nodes s)) \<le> max_safe_integer"
  shows "\<exists>s' entries. prune_session dec cfg now s = (s', Inr entries) \<and> session_ok s'
      \<and> take (length (ses_log s)) (ses_log s') = ses_log s
      \<and> (metered_log dec (ses_log s) \<longrightarrow> metered_log dec (ses_log s'))
      \<and> list_all2 (pruned_node cfg (ses_log s')) (session_nodes s) (session_nodes s')
      \<and> prune_session dec cfg later s' = (s', Inr [])"
proof -
  let ?cands = "prune_candidates s"
  have "distinct (map fst ?cands)" using candidates_distinct session_nodes_distinct [OF ok] by blast
  moreover have "\<forall>(n, d)\<in>set ?cands. n \<in> set (session_nodes s) \<and> ev_data (ses_log s ! n) = ToolResult d"
    by (auto simp: candidates_set)
  moreover have "int (length (ses_log s) + 2 * length ?cands) \<le> max_safe_integer" using candidates_length [of s] room by linarith
  ultimately obtain s' entries where run: "prune_pass dec cfg now ?cands s = (s', Inr entries)" "session_ok s'" "json_metas (ses_log s')"
    "take (length (ses_log s)) (ses_log s') = ses_log s" "metered_log dec (ses_log s) \<longrightarrow> metered_log dec (ses_log s')"
    "length (session_nodes s') = length (session_nodes s)"
    "\<forall>i<length (session_nodes s). if session_nodes s ! i \<in> fst ` set ?cands
        then pruned_node cfg (ses_log s') (session_nodes s ! i) (session_nodes s' ! i)
        else session_nodes s' ! i = session_nodes s ! i"
    using prune_pass_result [OF cfg ok _ _ meta, of ?cands dec now] by blast
  have nodes: "pruned_node cfg (ses_log s') (session_nodes s ! i) (session_nodes s' ! i)" if i: "i < length (session_nodes s)" for i
  proof (cases "session_nodes s ! i \<in> fst ` set ?cands")
    case False
    have "session_nodes s ! i < length (ses_log s)" using nodes_in_log [OF ok] i by (meson lessThan_iff nth_mem subsetD)
    moreover from this have "ses_log s' ! (session_nodes s ! i) = ses_log s ! (session_nodes s ! i)" using run(4) by (metis nth_take)
    ultimately have "ev_data (ses_log s' ! (session_nodes s ! i)) \<noteq> ToolResult d" for d
      using False i candidates_set [of "session_nodes s ! i" d s] by force
    then show ?thesis using run(7) i False by (auto simp: pruned_node_def split: event_data.split)
  qed (use run(7) i in auto)
  then have "list_all2 (pruned_node cfg (ses_log s')) (session_nodes s) (session_nodes s')"
    using run(6) by (simp add: list_all2_conv_all_nth)
  moreover have "\<not> over_budget cfg d" if mem: "(m, d) \<in> set (prune_candidates s')" for m d
  proof -
    have "m \<in> set (session_nodes s')" using mem by (simp add: candidates_set)
    then obtain i where "i < length (session_nodes s)" "session_nodes s' ! i = m" using run(6) by (metis in_set_conv_nth)
    then show ?thesis using pruned_node_fits [OF cfg nodes] mem by (auto simp: candidates_set)
  qed
  then have "prune_session dec cfg later s' = (s', Inr [])"
    unfolding prune_session_def by (intro pass_within_budget [OF cfg]) auto
  ultimately show ?thesis using run by (auto simp: prune_session_def)
qed

end
