(* ===== verification/Sample_Meter.thy ===== *)
theory Sample_Meter
  imports Result_Pruner Sample_Logs
begin

text \<open>
  Concrete inputs for the token meter: a rendering of numbers for logs that carry none, a compaction
  that measures with the meter, and a turn whose first step reports its usage twice.
\<close>

definition no_decimals :: "jsnum \<Rightarrow> string" where
  "no_decimals n = ''''"

definition metered_env :: compaction_env where
  "metered_env = (sample_env (Inr sample_summary))\<lparr>ce_measure := \<lambda>s. priced_nodes_of no_decimals (ses_log s) (session_nodes s)\<rparr>"

lemma metered_env_ok:
  "summarizer_ok metered_env" "summarizer_metered no_decimals metered_env" "measures_surface no_decimals metered_env"
  by (simp_all add: summarizer_ok_def summarizer_metered_def measures_surface_def metered_env_def sample_env_def)

definition usage_of :: "int \<Rightarrow> int \<Rightarrow> token_usage" where
  "usage_of i n = \<lparr>tu_input = NInt i, tu_output = NInt n, tu_cache_read = None, tu_cache_write = Some (NInt 1), tu_reasoning = None\<rparr>"

definition usage_log :: event_log where
  "usage_log =
     [plain_event 0 1 (TurnStart 1), plain_event 1 1 (StepStart 1 1),
      plain_event 2 1 (AssistantChunk 1 1 (UsageChunk (usage_of 10 1))),
      plain_event 3 1 (AssistantChunk 1 1 (UsageChunk (usage_of 12 3))),
      plain_event 4 1 (StepEnd 1 1), plain_event 5 1 (StepStart 1 2),
      plain_event 6 1 (AssistantChunk 1 2 (UsageChunk (usage_of 5 2)))]"

text \<open>A session whose tool result is over a small budget, and the budget.\<close>

definition long_answer :: tool_result_data where
  "long_answer = with_content tool_answer [TextBlock ''01234567890123456789'', ImageBlock JNull, TextBlock ''abcdefghijabcdefghijabcdefghij'']"

definition long_log :: event_log where
  "long_log = open_turn_log @ [surface_event 5 8 (ToolResult long_answer) OpAppend (Some [4])]"

definition long_session :: session where
  "long_session = (case live_session long_log of Inr s \<Rightarrow> s | Inl _ \<Rightarrow> new_session)"

lemma long_session_ok: "session_ok long_session"
proof -
  have "is_ok (live_session long_log)" by code_simp
  then obtain s where "live_session long_log = Inr s" by (auto simp: is_ok_iff)
  then show ?thesis using live_session_reach session_reach_ok by (auto simp: long_session_def)
qed

definition small_budgets :: "(string \<times> json) list" where
  "small_budgets = [(''thresholdChars'', JNum (NInt 46)), (''headChars'', JNum (NInt 4)), (''tailChars'', JNum (NInt 3))]"

end
