(* ===== verification/Spec2Isabelle.thy ===== *)
theory Spec2Isabelle
  imports Sample_Logs Assembler_Spec Compaction_Safety Consumed_Work Inbox Chunk_Roundtrip
    Goal_Safety Sample_Schedules Sample_Agent Sample_Tools Retention_Facts Sample_Meter
begin

text \<open>
  A verification library for the agent harness under \<open>src/packages\<close>.
\<close>

section \<open>The session log and its surface\<close>

text \<open>
  C1. Reads of a reachable session are the folds of its whole log. Whatever sequence of appends
  and cached reads led to the session, its log is numbered contiguously and folds to a surface;
  the event snapshot is the log, the request header is the header folded from the first event,
  and the derived history is the history of the current surface nodes, computed afresh.
\<close>

theorem session_reads_are_folds:
  assumes "session_reach as_data s"
  shows "\<exists>nodes reps. fold_surface (ses_log s) = Inr (nodes, reps)
    \<and> contiguous (ses_log s)
    \<and> snd (read_events s) = ses_log s
    \<and> snd (read_request_header s) = fold_request_header (ses_log s) None
    \<and> rmap snd (derive_messages s) = Inr (project_nodes (ses_log s) nodes)"
proof -
  have ok: "session_ok s" using assms by (rule session_reach_ok)
  then obtain nodes reps where fold: "fold_surface (ses_log s) = Inr (nodes, reps)"
    using session_ok_fold by blast
  have "snd (read_events s) = ses_log s" using read_events_ok [OF ok] by (metis snd_conv)
  moreover have "snd (read_request_header s) = fold_request_header (ses_log s) None"
    using read_request_header_ok [OF ok] by (cases "read_request_header s") auto
  moreover have "rmap snd (derive_messages s) = Inr (project_nodes (ses_log s) nodes)"
    using derive_messages_ok [OF ok fold] by (elim exE conjE) simp
  ultimately show ?thesis using fold session_ok_contiguous [OF ok] by blast
qed

theorem session_reads_are_folds_witness:
  "\<exists>s nodes reps. live_session closed_turn_log = Inr s \<and> length (ses_log s) = 8
    \<and> fold_surface (ses_log s) = Inr (nodes, reps) \<and> snd (read_events s) = ses_log s
    \<and> rmap snd (derive_messages s) = Inr (project_nodes (ses_log s) nodes)"
proof -
  obtain s where s: "live_session closed_turn_log = Inr s"
    using live_session_closed by (auto simp: is_ok_iff)
  have "length (ses_log s) = 8"
    using live_session_logs [OF s] by (simp add: closed_turn_log_def open_turn_log_def)
  with s session_reads_are_folds [OF live_session_reach [OF s]] show ?thesis by blast
qed



text \<open>
  C24. The surface accounts for every message-producing event. In a log the fold accepts, the
  current surface nodes and the nodes that some replacement shadowed are together exactly the
  surface-eligible events, each once: no message is lost and none is shown twice.
\<close>

theorem surface_accounts_for_events:
  assumes "fold_surface events = Inr (nodes, reps)"
  shows "distinct (nodes @ shadowed_of reps)
    \<and> set (nodes @ shadowed_of reps) = eligible_seqs events (length events)"
  using assms by (rule fold_surface_partition)

theorem surface_accounts_for_events_witness:
  "fold_surface checkpoint_log = Inr ([8], [\<lparr>sr_seq = 8, sr_start = 1, sr_end = 5, sr_shadowed = [1, 3, 5]\<rparr>])
    \<and> set ([8] @ shadowed_of [\<lparr>sr_seq = 8, sr_start = 1, sr_end = 5, sr_shadowed = [1, 3, 5]\<rparr>])
        = eligible_seqs checkpoint_log (length checkpoint_log)"
proof -
  have f: "fold_surface checkpoint_log = Inr ([8], [\<lparr>sr_seq = 8, sr_start = 1, sr_end = 5, sr_shadowed = [1, 3, 5]\<rparr>])"
    by code_simp
  from f surface_accounts_for_events [OF f] show ?thesis by blast
qed

text \<open>
  The incremental surface manager is the complete fold. Validating and publishing a log event
  by event, with the plan staged by each validation reused at the next one, accepts exactly the
  logs the complete fold accepts, and its node list is then the fold's.
\<close>

theorem manager_refines_fold:
  "case fold_log append_validated ([], new_surface_manager 0) events of
     Inl _ \<Rightarrow> \<not> is_ok (fold_surface events)
   | Inr (es, mg) \<Rightarrow> es = events \<and> rmap snd (manager_nodes mg es) = rmap fst (fold_surface events)"
proof -
  have init: "fold_log admit admit_init ([] :: event_log) = Inr ([], create_fold_state)"
    by (simp add: admit_init_def)
  note run = append_validated_run [OF manager_ok_new init, of events]
  show ?thesis
  proof (cases "fold_log admit admit_init events")
    case (Inl x)
    then have "\<not> is_ok (fold_surface events)" using fold_surface_iff_admit by (fastforce simp: is_ok_iff)
    with run Inl show ?thesis by (simp add: admit_init_def)
  next
    case (Inr r)
    then obtain st where r: "r = (events, st)"
      using admit_log [of "[]" create_fold_state events] by (cases r) (auto simp: admit_init_def)
    with run Inr obtain mg where mg: "fold_log append_validated ([], new_surface_manager 0) events = Inr (events, mg)"
        "manager_ok events mg" by (auto simp: admit_init_def)
    obtain reps where "fold_surface events = Inr (sf_nodes st, reps)"
      using fold_surface_complete Inr r by blast
    moreover obtain mg2 where "sync_manager mg events = Inr mg2" "mg_state mg2 = st"
      using sync_manager_admits [OF mg(2)] Inr r by auto
    ultimately show ?thesis using mg(1) by (simp add: manager_nodes_def)
  qed
qed

section \<open>Turns, crash repair and forks\<close>

text \<open>
  Turns are numbered consecutively. In every log the turn invariant accepts, the started
  turns are 1, 2, 3, ... in order, and the ended turns are an initial segment of them.
\<close>

theorem turns_are_consecutive:
  assumes "seed_session events = Inr tr"
  shows "started_turns events = [1..last_started tr] \<and> ended_turns events = [1..tr_next_turn tr - 1]"
  using assms by (rule trace_numbering)

theorem turns_are_consecutive_witness:
  "\<exists>tr. seed_session open_turn_log = Inr tr \<and> started_turns open_turn_log = [1..last_started tr]
    \<and> ended_turns open_turn_log = [1..tr_next_turn tr - 1]"
proof -
  have "is_ok (seed_session open_turn_log)" by code_simp
  then obtain tr where tr: "seed_session open_turn_log = Inr tr" by (auto simp: is_ok_iff)
  with turns_are_consecutive [OF tr] show ?thesis by blast
qed

text \<open>
  C25. Crash repair yields an acceptable log. Appending the synthetic closers to an interrupted log
  gives a log that both the turn invariant and the surface fold accept, with no open turn, no open
  step and no pending call; the surface only grows at its end.
\<close>

theorem repair_is_accepted:
  assumes "seed_session events = Inr tr" "fold_surface events = Inr (nodes, reps)"
    and "int (length (repair_log events)) \<le> max_safe_integer"
  shows "\<exists>tr' later reps'. seed_session (repair_log events) = Inr tr'
      \<and> tr_open_turn tr' = None \<and> tr_open_step tr' = None \<and> tr_pending tr' = {}
      \<and> fold_surface (repair_log events) = Inr (nodes @ later, reps')"
  using assms by (rule repair_log_accepted)

theorem repair_is_accepted_witness:
  "length (repair_log open_turn_log) = 8
    \<and> (\<exists>tr' later reps'. seed_session (repair_log open_turn_log) = Inr tr' \<and> tr_open_turn tr' = None
        \<and> fold_surface (repair_log open_turn_log) = Inr ([1, 3] @ later, reps'))"
proof -
  have "is_ok (seed_session open_turn_log)" by code_simp
  then obtain tr where tr: "seed_session open_turn_log = Inr tr" by (auto simp: is_ok_iff)
  have nodes: "fold_surface open_turn_log = Inr ([1, 3], [])" by code_simp
  have len: "length (repair_log open_turn_log) = 8" by code_simp
  then have "int (length (repair_log open_turn_log)) \<le> max_safe_integer" by (simp add: max_safe_integer_def)
  from repair_is_accepted [OF tr nodes this] len show ?thesis by blast
qed

text \<open>Crash repair is idempotent: repairing a repaired log changes nothing.\<close>

theorem repair_is_idempotent:
  assumes "seed_session events = Inr tr" "fold_surface events = Inr (nodes, reps)"
    and "int (length (repair_log events)) \<le> max_safe_integer"
  shows "repair_log (repair_log events) = repair_log events"
  using assms by (rule repair_log_idem)

theorem repair_is_idempotent_witness:
  "repair_log (repair_log open_turn_log) = repair_log open_turn_log \<and> repair_log open_turn_log \<noteq> open_turn_log"
proof -
  have "is_ok (seed_session open_turn_log)" by code_simp
  then obtain tr where tr: "seed_session open_turn_log = Inr tr" by (auto simp: is_ok_iff)
  have nodes: "fold_surface open_turn_log = Inr ([1, 3], [])" by code_simp
  have len: "length (repair_log open_turn_log) = 8" by code_simp
  then have bound: "int (length (repair_log open_turn_log)) \<le> max_safe_integer" by (simp add: max_safe_integer_def)
  have "length open_turn_log = 5" by code_simp
  with len have "repair_log open_turn_log \<noteq> open_turn_log" by auto
  with repair_is_idempotent [OF tr nodes bound] show ?thesis by blast
qed

text \<open>
  C5. Crash repair leaves no dangling tool call. Every call requested by an assistant message
  whose step was not closed before the crash has a result after it in the repaired log.
\<close>

theorem repair_answers_every_call:
  assumes "seed_session events = Inr tr" "contiguous events"
    and "i < length events" "requests_call c (events ! i)" "\<not> step_closed_after events i"
  shows "answered (repair_log events) i c"
  using assms by (rule repair_answers_call)

theorem repair_answers_every_call_witness: "answered (repair_log open_turn_log) 3 ''c1''"
proof -
  have "is_ok (seed_session open_turn_log)" by code_simp
  then obtain tr where tr: "seed_session open_turn_log = Inr tr" by (auto simp: is_ok_iff)
  have "fold_surface open_turn_log = Inr ([1, 3], [])" by code_simp
  then have cont: "contiguous open_turn_log" by (rule contiguous_of_fold)
  show ?thesis
    by (rule repair_answers_every_call [OF tr cont])
      (simp_all add: sample_logs requests_call_def step_closed_after_def is_boundary_def plain_event_def
        surface_event_def less_Suc_eq numeral_eq_Suc)
qed

text \<open>
  C26. A fork seed is a closed prefix. When a fork is granted, the seed is a prefix of the source
  log that the turn invariant accepts with no turn left open.
\<close>

theorem fork_seed_is_closed:
  assumes "fork_seed events requested = Inr seed" "seed_session events = Inr tr"
  shows "\<exists>k tr'. seed = take k events \<and> seed_session seed = Inr tr' \<and> tr_open_turn tr' = None"
  using fork_seed_prefix [OF assms(1)] fork_seed_balanced [OF assms] by blast

theorem fork_seed_is_closed_witness:
  "\<exists>k tr'. closed_turn_log = take k closed_turn_log \<and> seed_session closed_turn_log = Inr tr' \<and> tr_open_turn tr' = None"
proof -
  have "is_ok (seed_session closed_turn_log)" by code_simp
  then obtain tr where tr: "seed_session closed_turn_log = Inr tr" by (auto simp: is_ok_iff)
  have "fork_seed closed_turn_log None = Inr closed_turn_log" by code_simp
  from fork_seed_is_closed [OF this tr] show ?thesis .
qed

section \<open>Durable encodings\<close>

text \<open>
  C6. Chunk packing is lossless. Packing a list of well-formed stored events into chunk rows and
  decoding every record gives back the events, field by field.
\<close>

theorem pack_is_lossless:
  assumes "\<forall>e\<in>set events. json_wf e \<and> not_row e"
  shows "decodes_to (pack_chunk_runs events) events"
  using assms by (rule pack_decodes)

theorem pack_is_lossless_witness:
  "length (pack_chunk_runs [sample_chunk 4 ''a'', sample_chunk 5 ''b'', sample_chunk 6 ''c'']) = 1
    \<and> decodes_to (pack_chunk_runs [sample_chunk 4 ''a'', sample_chunk 5 ''b'', sample_chunk 6 ''c''])
        [sample_chunk 4 ''a'', sample_chunk 5 ''b'', sample_chunk 6 ''c'']"
proof
  show "length (pack_chunk_runs [sample_chunk 4 ''a'', sample_chunk 5 ''b'', sample_chunk 6 ''c'']) = 1"
    by code_simp
  show "decodes_to (pack_chunk_runs [sample_chunk 4 ''a'', sample_chunk 5 ''b'', sample_chunk 6 ''c''])
        [sample_chunk 4 ''a'', sample_chunk 5 ''b'', sample_chunk 6 ''c'']"
  proof (rule pack_is_lossless)
    have "list_all (\<lambda>e. json_wf e \<and> decode_storage_record e = Inr [e])
        [sample_chunk 4 ''a'', sample_chunk 5 ''b'', sample_chunk 6 ''c'']" by code_simp
    then show "\<forall>e\<in>set [sample_chunk 4 ''a'', sample_chunk 5 ''b'', sample_chunk 6 ''c'']. json_wf e \<and> not_row e"
      by (simp add: not_row_def)
  qed
qed

text \<open>Packing never needs more records than there are events.\<close>

theorem pack_never_grows: "length (pack_chunk_runs events) \<le> length events"
  by (rule pack_length)

text \<open>
  Session headers round-trip. The stored form of an admissible header passes the header
  validation under the session's own identifier and reads back as the same header.
\<close>

theorem stored_header_reads_back:
  assumes "header_ok h"
  shows "validate_session_header (sh_id h) (header_json h) = Inr h"
  using assms by (rule header_roundtrip)

theorem stored_header_reads_back_witness:
  "validate_session_header ''s1'' (header_json sample_header) = Inr sample_header"
proof -
  have "header_ok sample_header" by code_simp
  from stored_header_reads_back [OF this] show ?thesis by (simp add: sample_header_def)
qed

text \<open>
  Header comparison is equality of canonical forms, except for the numbers that are not
  equal to themselves.
\<close>

theorem header_comparison_exact:
  assumes "config_numeric (eh_config a)"
  shows "header_equals (canonical_header a) (canonical_header b)
    \<longleftrightarrow> canonical_header a = canonical_header b"
  using assms by (rule header_equals_canonical)

theorem header_comparison_exact_witness:
  "\<exists>a b. config_numeric (eh_config a) \<and> a \<noteq> b \<and> header_equals (canonical_header a) (canonical_header b)
    \<and> canonical_header a = canonical_header b"
proof -
  let ?c = "\<lparr>cc_provider = ''p'', cc_model = ''m'', cc_reasoning_effort = None, cc_temperature = None,
             cc_max_tokens = Some (NInt 5), cc_stop = None\<rparr>"
  let ?a = "\<lparr>eh_config = ?c, eh_adapter_defaults = None, eh_system = Some [], eh_tools = Some []\<rparr>"
  let ?b = "\<lparr>eh_config = ?c, eh_adapter_defaults = None, eh_system = None, eh_tools = None\<rparr>"
  have num: "config_numeric (eh_config ?a)" by (simp add: config_numeric_def)
  have "header_equals (canonical_header ?a) (canonical_header ?b)" by code_simp
  moreover from this have "canonical_header ?a = canonical_header ?b"
    using header_comparison_exact [OF num] by blast
  moreover have "?a \<noteq> ?b" by simp
  ultimately show ?thesis using num by blast
qed

text \<open>
  A stored tool result names its call. A payload accepted as a tool result carries exactly
  one result block, and the block and the message source name the same non-empty call.
\<close>

theorem accepted_result_names_call:
  assumes "assert_message_event_shape ''tool/result'' data = Inr ()"
  shows "\<exists>cid block msg. get_field data ''message'' = Some msg \<and> cid \<noteq> []
     \<and> get_field (Some msg) ''content'' = Some (JArr [block])
     \<and> get_field (get_field (Some msg) ''source'') ''callId'' = Some (JStr cid)
     \<and> get_field (Some block) ''toolCallId'' = Some (JStr cid)"
  using assms by (rule tool_result_shape)

theorem accepted_result_names_call_witness:
  "let data = JObj [(''message'', JObj [(''id'', JStr ''r1''), (''role'', JStr ''user''),
        (''source'', JObj [(''kind'', JStr ''tool''), (''callId'', JStr ''c1'')]),
        (''content'', JArr [JObj [(''type'', JStr ''tool-result''), (''toolCallId'', JStr ''c1''), (''content'', JArr [])]])])]
   in \<exists>cid block msg. get_field (Some data) ''message'' = Some msg \<and> cid \<noteq> []
     \<and> get_field (Some msg) ''content'' = Some (JArr [block]) \<and> get_field (Some block) ''toolCallId'' = Some (JStr cid)"
proof -
  let ?data = "JObj [(''message'', JObj [(''id'', JStr ''r1''), (''role'', JStr ''user''),
        (''source'', JObj [(''kind'', JStr ''tool''), (''callId'', JStr ''c1'')]),
        (''content'', JArr [JObj [(''type'', JStr ''tool-result''), (''toolCallId'', JStr ''c1''), (''content'', JArr [])]])])]"
  have "assert_message_event_shape ''tool/result'' (Some ?data) = Inr ()" by code_simp
  from accepted_result_names_call [OF this] show ?thesis unfolding Let_def by blast
qed

text \<open>
  C33. The chunk assembler computes the blocks of the stream. Blocks come in the order their
  indices are first mentioned; a closed index gives the block of its first close; an open one the
  concatenation of its fragments (for a call: the last identifier and the last non-empty name);
  a length-limited finish drops the tool calls; an index of another kind left open is the error.
\<close>

theorem assembler_computes_stream_blocks: "ba_blocks (ba_run cs) = stream_blocks cs"
  by (rule ba_blocks_stream)

section \<open>The agent inbox\<close>

text \<open>
  C27. A restart resumes the inbox. Replaying the splices that a run of live inbox operations
  logged, between whatever other events, gives exactly the live inbox.
\<close>

theorem inbox_resumes_from_log:
  assumes "run_live commit_inbox empty_inbox cs = (splices, s)"
    and "logged_splices (drop (case sh_seed_length h of Some n \<Rightarrow> n | None \<Rightarrow> 0) events) = splices"
  shows "new_inbox h events = Inr s"
  using assms by (rule new_inbox_resumes)

theorem inbox_resumes_from_log_witness:
  "\<exists>splices s. run_live commit_inbox empty_inbox
       [DoAppend NextTurn (ask ''u1''), DoAppend NextStep (ask ''u2''), DoClaim NextStep 1] = (splices, s)
     \<and> length splices = 3
     \<and> new_inbox sample_header (plain_event 0 1 (TurnStart 1) # map (plain_event 1 1 \<circ> InboxSpliced) splices) = Inr s"
proof -
  let ?cs = "[DoAppend NextTurn (ask ''u1''), DoAppend NextStep (ask ''u2''), DoClaim NextStep 1]"
  obtain splices s where run: "run_live commit_inbox empty_inbox ?cs = (splices, s)" by fastforce
  have "length (fst (run_live commit_inbox empty_inbox ?cs)) = 3" by code_simp
  then have len: "length splices = 3" using run by simp
  have "logged_splices (map (plain_event 1 1 \<circ> InboxSpliced) xs) = xs" for xs
    by (induction xs) (simp_all add: plain_event_def)
  then have "logged_splices (drop (case sh_seed_length sample_header of Some n \<Rightarrow> n | None \<Rightarrow> 0)
      (plain_event 0 1 (TurnStart 1) # map (plain_event 1 1 \<circ> InboxSpliced) splices)) = splices"
    by (simp add: sample_header_def plain_event_def)
  with inbox_resumes_from_log [OF run this] run len show ?thesis by blast
qed

text \<open>
  C28. The inbox conserves messages. Over any sequence of operations, the messages pending at the
  start together with those announced as inserted are, as a multiset, the messages still pending
  together with those announced as claimed or discarded.
\<close>

theorem inbox_conserves_messages:
  assumes "inbox_history s cs = (ns, s')"
  shows "pending s + inserted_of ns = pending s' + gone_of ns"
  using assms by (rule inbox_history_accounts)

theorem inbox_conserves_messages_witness:
  "\<exists>ns s'. inbox_history empty_inbox [DoAppend NextTurn (ask ''u1''), DoRemove ''u1''] = (ns, s')
     \<and> inserted_of ns = {#ask ''u1''#} \<and> pending s' + gone_of ns = {#ask ''u1''#}"
proof -
  let ?cs = "[DoAppend NextTurn (ask ''u1''), DoRemove ''u1'']"
  obtain ns s' where h: "inbox_history empty_inbox ?cs = (ns, s')" by fastforce
  have "concat (map note_inserted (fst (inbox_history empty_inbox ?cs))) = [ask ''u1'']" by code_simp
  then have ins: "inserted_of ns = {#ask ''u1''#}" using h by (simp add: inserted_of_def)
  have "pending empty_inbox = {#}" by (simp add: pending_def empty_inbox_def)
  with inbox_conserves_messages [OF h] ins have "pending s' + gone_of ns = {#ask ''u1''#}" by simp
  with h ins show ?thesis by blast
qed

text \<open>
  What a claim takes. From a well-formed inbox a claim never fails: it takes every queued
  step message first, then (for a new turn) at most one turn message, and leaves exactly the rest.
\<close>

theorem claim_takes_steps_then_turn:
  assumes "inbox_wf s" "safe_int (int (length (ib_next_step s)))"
  shows "\<exists>r. inbox_claim s t turn = Inr r
    \<and> io_removed r = ib_next_step s @ (if t = NextTurn then take 1 (ib_next_turn s) else [])
    \<and> io_state r = \<lparr>ib_next_turn = (if t = NextTurn then drop 1 (ib_next_turn s) else ib_next_turn s), ib_next_step = []\<rparr>"
  using assms by (rule inbox_claim_takes)

theorem claim_takes_steps_then_turn_witness:
  "\<exists>r. inbox_claim \<lparr>ib_next_turn = [ask ''u1'', ask ''u2''], ib_next_step = [ask ''u3'']\<rparr> NextTurn 1 = Inr r
     \<and> io_removed r = [ask ''u3'', ask ''u1''] \<and> io_state r = \<lparr>ib_next_turn = [ask ''u2''], ib_next_step = []\<rparr>"
  using claim_takes_steps_then_turn [of "\<lparr>ib_next_turn = [ask ''u1'', ask ''u2''], ib_next_step = [ask ''u3'']\<rparr>" NextTurn 1]
  by (simp add: inbox_wf_def ask_def safe_int_def max_safe_integer_def)

text \<open>
  C29. Which turn end accounts for consumed work. On a log with consecutive turns, the fold
  returns the last turn end that ran a step, or claimed work and did not merely complete; and it
  reports dropped work exactly when a cancellation that left nothing behind came after it.
\<close>

theorem consumed_work_is_accounted:
  assumes "seed_session events = Inr tr"
  shows "fold_consumed_work events
    = (map_option (\<lambda>j. events ! j) (last_accounting events), dropped_after events)"
  using assms by (rule fold_consumed_work_account)

theorem consumed_work_is_accounted_witness:
  "fold_consumed_work closed_turn_log = (Some (plain_event 7 9 (TurnEnd 1 TurnCompleted)), False)
    \<and> fold_consumed_work closed_turn_log
      = (map_option (\<lambda>j. closed_turn_log ! j) (last_accounting closed_turn_log), dropped_after closed_turn_log)"
proof
  show "fold_consumed_work closed_turn_log = (Some (plain_event 7 9 (TurnEnd 1 TurnCompleted)), False)" by code_simp
  have "is_ok (seed_session closed_turn_log)" by code_simp
  then obtain tr where tr: "seed_session closed_turn_log = Inr tr" by (auto simp: is_ok_iff)
  show "fold_consumed_work closed_turn_log
      = (map_option (\<lambda>j. closed_turn_log ! j) (last_accounting closed_turn_log), dropped_after closed_turn_log)"
    by (rule consumed_work_is_accounted [OF tr])
qed

section \<open>Compaction\<close>

text \<open>
  C30. The cached pairing balance answers from the surface. Whatever valid cache it finds, the
  check before a surface node is true exactly when no tool call requested before it is unanswered.
\<close>

theorem cut_is_balanced_iff_calls_answered:
  assumes "paired_surface events seqs" "cache_valid events seqs generation cached" "i < length seqs"
  shows "tool_pairing_balanced_before events seqs generation cached (seqs ! i)
    = Inr (open_calls_at events seqs i = 0)"
  using assms by (rule balanced_before_spec)

lemma closed_turn_paired: "paired_surface closed_turn_log [1, 3, 5]"
proof -
  have "list_all (\<lambda>i. 0 \<le> open_calls_at closed_turn_log [1, 3, 5] i) [0, 1, 2, 3]"
    "list_all (\<lambda>n. n < length closed_turn_log \<and> ev_seq (closed_turn_log ! n) = n) [1, 3, 5]" by code_simp+
  then show ?thesis by (simp add: paired_surface_def le_Suc_eq numeral_eq_Suc)
qed

theorem cut_is_balanced_iff_calls_answered_witness:
  "tool_pairing_balanced_before closed_turn_log [1, 3, 5] 0 None 5 = Inr (open_calls_at closed_turn_log [1, 3, 5] 2 = 0)
    \<and> open_calls_at closed_turn_log [1, 3, 5] 2 = 1"
proof
  have "cache_valid closed_turn_log [1, 3, 5] 0 None" by (simp add: cache_valid_def)
  then show "tool_pairing_balanced_before closed_turn_log [1, 3, 5] 0 None 5
      = Inr (open_calls_at closed_turn_log [1, 3, 5] 2 = 0)"
    using cut_is_balanced_iff_calls_answered [OF closed_turn_paired, of 0 None 2] by simp
  show "open_calls_at closed_turn_log [1, 3, 5] 2 = 1" by code_simp
qed

text \<open>
  C31. The range chosen for compaction is a balanced head. On a paired surface with a price per
  node the selection succeeds; a chosen range starts at the first node, ends before a cut at
  which every tool call is answered, and leaves a tail worth at least the budget to retain.
\<close>

theorem compactable_range_is_balanced_head:
  assumes "paired_surface events nodes" "cache_valid events nodes generation cached" "map fst priced = nodes"
  shows "\<exists>r. select_compactable_range events nodes generation cached priced retain = Inr r
    \<and> (case r of
         None \<Rightarrow> True
       | Some (s, e) \<Rightarrow> \<exists>k. 0 < k \<and> k < length nodes \<and> s = nodes ! 0 \<and> e = nodes ! (k - 1)
           \<and> open_calls_at events nodes k = 0 \<and> retain \<le> sum_list (map snd (drop k priced)))"
  using assms by (rule select_compactable_range_spec)

theorem compactable_range_is_balanced_head_witness:
  "select_compactable_range closed_turn_log [1, 3, 5] 0 None [(1, 50), (3, 20), (5, 10)] 5 = Inr (Some (1, 1))
    \<and> (\<exists>k. 0 < k \<and> k < length [1 :: nat, 3, 5] \<and> open_calls_at closed_turn_log [1, 3, 5] k = 0
         \<and> 5 \<le> sum_list (map snd (drop k [(1 :: nat, 50 :: nat), (3, 20), (5, 10)])))"
proof -
  have valid: "cache_valid closed_turn_log [1, 3, 5] 0 None" by (simp add: cache_valid_def)
  have prices: "map fst [(1 :: nat, 50 :: nat), (3, 20), (5, 10)] = [1, 3, 5]" by simp
  have r: "select_compactable_range closed_turn_log [1, 3, 5] 0 None [(1, 50), (3, 20), (5, 10)] 5 = Inr (Some (1, 1))"
    by code_simp
  obtain x where x: "select_compactable_range closed_turn_log [1, 3, 5] 0 None [(1, 50), (3, 20), (5, 10)] 5 = Inr x"
    and k: "case x of None \<Rightarrow> True | Some (s, e) \<Rightarrow> \<exists>k. 0 < k \<and> k < length [1 :: nat, 3, 5] \<and> s = [1, 3, 5] ! 0
        \<and> e = [1, 3, 5] ! (k - 1) \<and> open_calls_at closed_turn_log [1, 3, 5] k = 0
        \<and> 5 \<le> sum_list (map snd (drop k [(1 :: nat, 50 :: nat), (3, 20), (5, 10)]))"
    using compactable_range_is_balanced_head [OF closed_turn_paired valid prices, of 5] by blast
  from x r have "x = Some (1, 1)" by simp
  with k r show ?thesis unfolding \<open>x = Some (1, 1)\<close> option.case prod.case by blast
qed



text \<open>
  A failed compaction leaves the conversation alone. When an admitted transaction fails, for
  any reason but a cancellation or a durability failure after its commit, the surface is the one
  left by the summarizer's own gap: nothing of the conversation was replaced.
\<close>

theorem failed_compaction_keeps_surface:
  assumes "session_ok s" "summarizer_ok env"
    and "admit_transaction env opts s a b = Inr (sel, owner)"
    and "compact_surface_region env opts s a b = (s', Inl f)"
    and "f \<noteq> CallAborted" "f \<noteq> ManualFailed ManualPersistence"
  shows "session_nodes s' = session_nodes (compaction_gap env opts s a b)"
  using assms by (rule compact_failure_keeps_surface)

theorem failed_compaction_keeps_surface_witness:
  "\<exists>s'. compact_surface_region (sample_env (Inl ''offline'')) sample_options closed_session 1 5
       = (s', Inl (ManualFailed ManualSummary))
    \<and> session_nodes s' = session_nodes (compaction_gap (sample_env (Inl ''offline'')) sample_options closed_session 1 5)"
proof -
  let ?env = "sample_env (Inl ''offline'')"
  have "is_ok (admit_transaction ?env sample_options closed_session 1 5)" by code_simp
  then obtain sel owner where adm: "admit_transaction ?env sample_options closed_session 1 5 = Inr (sel, owner)"
    by (auto simp: is_ok_iff)
  have "(case snd (compact_surface_region ?env sample_options closed_session 1 5) of
      Inl f \<Rightarrow> f = ManualFailed ManualSummary | Inr _ \<Rightarrow> False)" by code_simp
  then obtain s' where run: "compact_surface_region ?env sample_options closed_session 1 5 = (s', Inl (ManualFailed ManualSummary))"
    by (cases "compact_surface_region ?env sample_options closed_session 1 5") (auto split: sum.splits)
  have "session_nodes s' = session_nodes (compaction_gap ?env sample_options closed_session 1 5)"
    by (rule failed_compaction_keeps_surface [OF closed_session_ok sample_summarizer_ok adm run]) simp_all
  with run show ?thesis by blast
qed

text \<open>
  C4. A successful compaction replaces exactly the chosen span. The nodes from the start to the
  end of the span give way to the one checkpoint message, whose estimated size is smaller than
  the span's; every other node keeps its place.
\<close>

theorem compaction_replaces_span:
  assumes "session_ok s" "summarizer_ok env" "meter_ok env"
    and "compact_surface_region env opts s a b = (s', Inr x)"
  shows "\<exists>g i j m. g = compaction_gap env opts s a b
    \<and> i \<le> j \<and> j < length (session_nodes g) \<and> session_nodes g ! i = a \<and> session_nodes g ! j = b
    \<and> cr_shadowed x = Prelude.slice (session_nodes g) i (Suc j)
    \<and> ev_data (ses_log s' ! Suc (cr_summary_seq x)) = UserMessageEv m \<and> ce_estimate env m < cr_token_count x
    \<and> session_nodes s' = take i (session_nodes g) @ [Suc (cr_summary_seq x)] @ drop (Suc j) (session_nodes g)"
  using assms by (rule compact_success_replaces_span)

theorem compaction_replaces_span_witness:
  "\<exists>s' x g i j. compact_surface_region (sample_env (Inr sample_summary)) sample_options closed_session 1 5 = (s', Inr x)
    \<and> session_nodes g ! i = 1 \<and> session_nodes g ! j = 5 \<and> session_nodes s' = [10]
    \<and> session_nodes s' = take i (session_nodes g) @ [Suc (cr_summary_seq x)] @ drop (Suc j) (session_nodes g)"
proof -
  let ?env = "sample_env (Inr sample_summary)"
  have "is_ok (snd (compact_surface_region ?env sample_options closed_session 1 5))" by code_simp
  then obtain s' x where run: "compact_surface_region ?env sample_options closed_session 1 5 = (s', Inr x)"
    by (cases "compact_surface_region ?env sample_options closed_session 1 5") (auto simp: is_ok_iff)
  have "session_nodes (fst (compact_surface_region ?env sample_options closed_session 1 5)) = [10]" by code_simp
  with run have nodes: "session_nodes s' = [10]" by simp
  from compaction_replaces_span [OF closed_session_ok sample_summarizer_ok sample_meter_ok run] run nodes
  show ?thesis by blast
qed

text \<open>
  The compaction lock is the newest bracket marker. In a log the live checks accept, a
  compaction is in progress exactly when the newest of the bracket markers is an opening one.
\<close>

theorem compaction_lock_is_newest_marker:
  assumes "fold_log compaction_step fresh_compaction events = Inr tr"
  shows "cst_compaction tr \<noteq> None \<longleftrightarrow>
    (\<exists>e d. find_last is_bracket_marker events = Some e \<and> ev_data e = CompactionStart d)"
  using assms by (rule compaction_open_iff)

theorem compaction_lock_is_newest_marker_witness:
  "let events = [plain_event 0 5 (TurnStart 1),
        plain_event 1 5 (CompactionStart \<lparr>cl_id = ''k'', cl_source_command = None, cl_turn = Some 1, cl_error = None\<rparr>)]
   in \<exists>tr. fold_log compaction_step fresh_compaction events = Inr tr \<and> cst_compaction tr \<noteq> None
        \<and> (\<exists>e d. find_last is_bracket_marker events = Some e \<and> ev_data e = CompactionStart d)"
proof -
  let ?events = "[plain_event 0 5 (TurnStart 1),
        plain_event 1 5 (CompactionStart \<lparr>cl_id = ''k'', cl_source_command = None, cl_turn = Some 1, cl_error = None\<rparr>)]"
  have "(case fold_log compaction_step fresh_compaction ?events of Inr tr \<Rightarrow> cst_compaction tr \<noteq> None | Inl _ \<Rightarrow> False)"
    by code_simp
  then obtain tr where tr: "fold_log compaction_step fresh_compaction ?events = Inr tr" "cst_compaction tr \<noteq> None"
    by (auto split: sum.splits)
  with compaction_lock_is_newest_marker [OF tr(1)] show ?thesis unfolding Let_def by blast
qed

section \<open>Goals\<close>

text \<open>
  C34. The goal service never writes what replay refuses. On a session whose goal stream folds,
  every mutation either refuses and logs nothing, or logs exactly one change, the one whose
  reference it returns; the stream still folds and the cache still tracks it.
\<close>

theorem goal_mutations_stay_replayable:
  assumes "service_ok sv" "int (length (ses_log (gsv_session sv))) < max_safe_integer" "time_ok now"
    and "safe_int default_rounds" "1 \<le> default_rounds" "fresh_for cmd sv"
  shows "case run_goal default_rounds live now at sv cmd of
      (sv', Inl _) \<Rightarrow> service_ok sv' \<and> ses_log (gsv_session sv') = ses_log (gsv_session sv)
    | (sv', Inr ref) \<Rightarrow> service_ok sv'
        \<and> (\<exists>e. ses_log (gsv_session sv') = ses_log (gsv_session sv) @ [e] \<and> event_refs e = [ref])"
  using run_goal_ok [OF assms, of live at] unfolding outcome_ok_def .

theorem goal_mutations_stay_replayable_witness:
  "\<exists>sv' ref e. run_goal 256 True 7 7 \<lparr>gsv_session = new_session, gsv_cache = None\<rparr>
       (CmdCreate ''1'' (Some (JStr ''ship it'')) None) = (sv', Inr ref)
     \<and> service_ok sv' \<and> ses_log (gsv_session sv') = [e] \<and> event_refs e = [ref]"
proof -
  let ?sv = "\<lparr>gsv_session = new_session, gsv_cache = None\<rparr>" and ?cmd = "CmdCreate ''1'' (Some (JStr ''ship it'')) None"
  have "session_ok new_session" by (rule session_reach_ok [OF reach_create [OF new_session_created]])
  then have ok: "service_ok ?sv" by (simp add: service_ok_def new_session_def session_of_def fold_goal_def)
  have log: "ses_log new_session = []" by (simp add: new_session_def session_of_def)
  have bounds: "int (length (ses_log (gsv_session ?sv))) < max_safe_integer" "time_ok 7" "safe_int 256" "(1 :: int) \<le> 256"
    by (simp_all add: log time_ok_def safe_int_def max_safe_integer_def)
  have fresh: "fresh_for ?cmd ?sv" by (simp add: fresh_for_def log fold_goal_def empty_goal_fold_state_def)
  have "is_ok (snd (run_goal 256 True 7 7 ?sv ?cmd))" by code_simp
  then obtain sv' ref where run: "run_goal 256 True 7 7 ?sv ?cmd = (sv', Inr ref)"
    by (cases "run_goal 256 True 7 7 ?sv ?cmd") (auto simp: is_ok_iff)
  from goal_mutations_stay_replayable [OF ok bounds(1,2,3,4) fresh, of True 7] show ?thesis
    unfolding run by (auto simp: log)
qed

text \<open>
  C35. Compare and set. A mutation that names any reference but the current goal's is refused,
  whatever it would do, and the session is untouched.
\<close>

theorem stale_goal_refs_are_refused:
  assumes "service_ok sv" "command_ref cmd = Some ref" "current_ref sv \<noteq> Some ref"
  shows "\<exists>sv' x. run_goal default_rounds live now at sv cmd = (sv', Inl x) \<and> gsv_session sv' = gsv_session sv
    \<and> x \<in> {GoalAgentNotLive, GoalNotFound, GoalStaleRevision}"
  using assms by (rule run_goal_stale)

theorem stale_goal_refs_are_refused_witness:
  "\<exists>sv' x. run_goal 256 True 7 7 \<lparr>gsv_session = new_session, gsv_cache = None\<rparr>
       (CmdPause \<lparr>gr_id = ''g'', gr_revision = 1\<rparr>) = (sv', Inl x) \<and> gsv_session sv' = new_session
     \<and> x \<in> {GoalAgentNotLive, GoalNotFound, GoalStaleRevision}"
proof -
  let ?sv = "\<lparr>gsv_session = new_session, gsv_cache = None\<rparr>"
  have "session_ok new_session" by (rule session_reach_ok [OF reach_create [OF new_session_created]])
  then have ok: "service_ok ?sv" by (simp add: service_ok_def new_session_def session_of_def fold_goal_def)
  have "current_ref ?sv \<noteq> Some \<lparr>gr_id = ''g'', gr_revision = 1\<rparr>"
    by (simp add: current_ref_def new_session_def session_of_def fold_goal_def empty_goal_fold_state_def)
  from stale_goal_refs_are_refused [OF ok _ this, of "CmdPause \<lparr>gr_id = ''g'', gr_revision = 1\<rparr>" 256 True 7 7]
  show ?thesis by simp
qed

text \<open>Goal changes round-trip: the strict decoder reads the written form of every legal change back.\<close>

theorem goal_changes_read_back:
  assumes "change_ok c"
  shows "decode_goal_change (goal_change_json c) = Inr (Some c)"
  using assms by (rule decode_change_json)

theorem goal_changes_read_back_witness:
  "decode_goal_change (goal_change_json (ClearChange \<lparr>gr_id = ''g'', gr_revision = 2\<rparr> 9))
    = Inr (Some (ClearChange \<lparr>gr_id = ''g'', gr_revision = 2\<rparr> 9))"
  by (rule goal_changes_read_back) (simp add: time_ok_def safe_int_def max_safe_integer_def)

text \<open>
  Goal references are never reused. In every log the fold accepts, the references of all
  changes, tombstones included, are pairwise distinct.
\<close>

theorem goal_refs_are_unique:
  assumes "fold_goal events = Inr st"
  shows "distinct (goal_refs events)"
  using goal_refs_wf [OF assms] by (simp add: refs_wf_def)

theorem goal_refs_are_unique_witness: "length (goal_refs goal_log) = 2 \<and> distinct (goal_refs goal_log)"
proof
  show "length (goal_refs goal_log) = 2" by code_simp
  have "is_ok (fold_goal goal_log)" by code_simp
  then obtain st where "fold_goal goal_log = Inr st" by (auto simp: is_ok_iff)
  then show "distinct (goal_refs goal_log)" by (rule goal_refs_are_unique)
qed

text \<open>
  Goal rounds are admitted one by one. In every log the fold accepts, the rounds admitted for
  a goal are 1, 2, 3, ..., and for the current goal they reach exactly the counter of the fold.
\<close>

theorem goal_rounds_are_consecutive:
  assumes "fold_goal events = Inr st"
  shows "(\<exists>k\<ge>0. goal_rounds gid events = [1..k])
    \<and> (case gf_goal st of Some g \<Rightarrow> goal_rounds (gs_id g) events = [1..gf_rounds st] | None \<Rightarrow> True)"
  using goal_rounds_wf [OF assms] by (auto simp: rounds_wf_def split: option.split)

theorem goal_rounds_are_consecutive_witness:
  "\<exists>st. fold_goal goal_log = Inr st \<and> gf_rounds st = 1 \<and> goal_rounds ''g'' goal_log = [1..1]
    \<and> (\<exists>k\<ge>0. goal_rounds ''g'' goal_log = [1..k])"
proof -
  have "(case fold_goal goal_log of Inr st \<Rightarrow> gf_rounds st = 1 | Inl _ \<Rightarrow> False)" by code_simp
  then obtain st where st: "fold_goal goal_log = Inr st" "gf_rounds st = 1" by (auto split: sum.splits)
  have "goal_rounds ''g'' goal_log = [1..1]" by code_simp
  with st goal_rounds_are_consecutive [OF st(1), of "''g''"] show ?thesis by blast
qed

text \<open>
  The light projection shows the folded goal. On every log the strict fold accepts, the
  last-wins projection has the fold's current goal and timestamps, and a round counter that never
  exceeds the fold's.
\<close>

theorem goal_projection_shows_fold:
  assumes "fold_goal events = Inr st"
  shows "case foldl apply_goal_projection None events of
      None \<Rightarrow> gf_goal st = None
    | Some q \<Rightarrow> gf_goal st = Some (gp_goal q) \<and> gf_created st = Some (gp_created q)
        \<and> gf_updated st = Some (gp_updated q) \<and> gp_rounds q \<le> gf_rounds st"
  using projection_agrees_fold [OF assms] unfolding projection_agrees_def .

theorem goal_projection_shows_fold_witness:
  "\<exists>st q. fold_goal goal_log = Inr st \<and> foldl apply_goal_projection None goal_log = Some q
    \<and> gf_goal st = Some (gp_goal q) \<and> gp_rounds q \<le> gf_rounds st"
proof -
  have "is_ok (fold_goal goal_log)" by code_simp
  then obtain st where st: "fold_goal goal_log = Inr st" by (auto simp: is_ok_iff)
  have "foldl apply_goal_projection None goal_log \<noteq> None" by code_simp
  then obtain q where "foldl apply_goal_projection None goal_log = Some q" by blast
  with goal_projection_shows_fold [OF st] st show ?thesis by auto
qed

text \<open>
  The counter of the projection is the one of the last change, not the highest admitted round that
  its documentation names: after an admitted round the two differ.
\<close>

theorem goal_projection_rounds_lag:
  "map_option gp_rounds (foldl apply_goal_projection None (take 2 goal_log)) = Some 0
    \<and> rmap gf_rounds (fold_goal (take 2 goal_log)) = Inr 1"
  by code_simp

section \<open>Reminders\<close>





text \<open>
  C38. The create tool logs one future record or nothing. A call either leaves the session as it was
  and reports an error, or logs exactly one creation: of a record with an identifier no earlier
  change used and a target after the clock reading, which the fold then shows as its newest
  reminder. Only a failed second durability barrier reports an error after that.
\<close>

theorem create_tool_logs_one_record:
  assumes "tool_session_ok s" "MIN_FOUR_DIGIT_YEAR_MS \<le> tv_now env"
    and "schedule_create_tool canonical_name formatter env a s = (s', res)"
  shows "s' = s \<and> (\<exists>e. res = Inl e)
    \<or> (\<exists>st r. read_folded s = Inr st \<and> sr_id r \<notin> set (sc_seen st) \<and> tv_now env < target_of r
        \<and> (\<exists>e. ses_log s' = ses_log s @ [e] \<and> ev_data e = ScheduleChange (schedule_change_json (CreateSchedule r)))
        \<and> tool_session_ok s'
        \<and> read_folded s' = Inr \<lparr>sc_active = sc_active st @ [(sr_id r, r)], sc_seen = sc_seen st @ [sr_id r]\<rparr>
        \<and> res = (if tv_barrier env then Inr (view_schedule r (tv_view_now env)) else Inl (ToolUncertain ToolCreate (Some (sr_id r)))))"
  using create_tool_cases [OF assms] unfolding logged_change_def by blast

theorem create_tool_logs_one_record_witness:
  "\<exists>s' r. schedule_create_tool no_zone (\<lambda>_. utc_formatter) (sample_tool_env 1700000000000) sample_args new_session
       = (s', Inr (view_schedule r 1700000000000)) \<and> tool_session_ok s' \<and> 1700000000000 < target_of r"
proof -
  obtain s1 s2 where run: "schedule_create_tool no_zone (\<lambda>_. utc_formatter) (sample_tool_env 1700000000000) sample_args new_session
      = (s1, Inr (view_schedule sample_reminder 1700000000000))"
    by (rule reminder_session [of no_zone "\<lambda>_. utc_formatter"])
  have "MIN_FOUR_DIGIT_YEAR_MS \<le> tv_now (sample_tool_env 1700000000000)"
    by (simp add: sample_tool_env_def MIN_FOUR_DIGIT_YEAR_MS_def)
  from create_tool_logs_one_record [OF new_tool_session(1) this run] run sample_targets(1) show ?thesis
    by (auto simp: sample_tool_env_def split: if_splits)
qed

text \<open>
  C39. Fixed-rate reminders skip missed occurrences. The occurrence delivered at a decision time is
  the latest one on the reminder's grid at or before it, and the next target is the first one after
  it, or none when its year no longer has four digits.
\<close>

theorem every_dispatch_is_latest:
  assumes "instant_ok at" "0 < n" "safe_int (n * 1000)" "representable accepted" "date_parse at \<le> accepted"
  shows "\<exists>k\<ge>0. let occ = date_parse at + k * (n * 1000) in
      occ \<le> accepted \<and> accepted < occ + n * 1000
      \<and> resolve_every_occurrence at n accepted
          = Inr \<lparr>oc_at = iso_string occ,
                 oc_next = (if occ + n * 1000 \<le> MAX_FOUR_DIGIT_YEAR_MS then Some (iso_string (occ + n * 1000)) else None)\<rparr>"
  using resolve_every_spec [OF assms] unfolding Let_def by blast

theorem every_dispatch_is_latest_witness:
  "resolve_every_occurrence (iso_string 1700000300000) 300 1700001000000
    = Inr \<lparr>oc_at = iso_string 1700000900000, oc_next = Some (iso_string 1700001200000)\<rparr>"
proof -
  have "instant_ok (iso_string 1700000300000)" by (simp add: sample_times)
  from every_dispatch_is_latest [OF this, of 300 1700001000000] obtain k where k: "0 \<le> k"
      "1700000300000 + k * 300000 \<le> 1700001000000" "1700001000000 < 1700000300000 + k * 300000 + 300000"
      "resolve_every_occurrence (iso_string 1700000300000) 300 1700001000000
        = Inr \<lparr>oc_at = iso_string (1700000300000 + k * 300000),
               oc_next = (if 1700000300000 + k * 300000 + 300000 \<le> MAX_FOUR_DIGIT_YEAR_MS
                          then Some (iso_string (1700000300000 + k * 300000 + 300000)) else None)\<rparr>"
    by (auto simp: sample_times date_parse_iso Let_def safe_int_def max_safe_integer_def)
  then have "k = 2" by linarith
  with k(4) show ?thesis by (simp add: MAX_FOUR_DIGIT_YEAR_MS_def)
qed




definition overlap_parts :: calendar_parts where
  "overlap_parts = \<lparr>cp_year = 2023, cp_month = 10, cp_day = 29, cp_hour = 2, cp_minute = 30, cp_second = 0, cp_milli = 0\<rparr>"


text \<open>
  Offset instants read back. Every date-time of years 1 to 9999 written with milliseconds and a
  numeric offset is parsed to its local epoch less that offset.
\<close>

theorem offset_targets_read_back:
  assumes "valid_parts p" "1 \<le> cp_year p" "cp_year p \<le> 9999" "h \<le> 23" "m \<le> 59" "neg \<longrightarrow> h \<noteq> 0 \<or> m \<noteq> 0"
  shows "parse_offset_instant (local_text p @ ''.'' @ padded 3 (nat (cp_milli p)) @ offset_text neg h m)
    = Inr (utc_epoch p - (if neg then - 1 else 1) * (int h * 60 + int m) * 60000)"
  using assms by (rule parse_offset_written)

theorem offset_targets_read_back_witness:
  "parse_offset_instant (local_text overlap_parts @ ''.'' @ padded 3 0 @ offset_text False 5 30) = Inr 1698526800000"
proof -
  have valid: "valid_parts overlap_parts" by code_simp
  have "utc_epoch overlap_parts = 1698546600000" by code_simp
  with offset_targets_read_back [OF valid, of 5 30 False] show ?thesis by (simp add: overlap_parts_def)
qed

text \<open>
  Reminder content stays inside its frame. Whatever the reminder says, its framing has exactly
  the five fixed lines, and the quoted identifier and content read back as JSON strings to exactly
  the reminder's own: content can neither add a line nor end its literal early.
\<close>

theorem reminder_framing_is_contained:
  assumes "record_ok r"
  shows "\<exists>l1 l2 q1 l4 q2. text_lines (render_reminder_framing r)
        = [l1, l2, ''schedule_id_json: '' @ q1, l4, ''reminder_prompt_json: '' @ q2]
      \<and> l1 = ''[SCHEDULE REMINDER]'' \<and> l4 = ''occurrence_at: '' @ sr_at r
      \<and> read_quoted q1 = Some (sr_id r, []) \<and> read_quoted q2 = Some (sr_prompt r, [])"
  using reminder_framing_lines [OF assms] read_quoted_quote [of "sr_id r" "[]"] read_quoted_quote [of "sr_prompt r" "[]"]
  by auto

theorem reminder_framing_is_contained_witness:
  "length (text_lines (render_reminder_framing
     (AtRecord ''schedule-1'' (''a'' @ [newline, quotation] @ ''b'') (iso_string 1700000300000)))) = 5"
proof -
  have "record_ok (AtRecord ''schedule-1'' (''a'' @ [newline, quotation] @ ''b'') (iso_string 1700000300000))"
    by (simp add: record_ok_def normalized_text_def sample_times) code_simp
  from reminder_framing_is_contained [OF this] show ?thesis by auto
qed

text \<open>
  The identifier search ends. It starts behind the number of identifiers in use and stops after
  at most that many further steps, at the first free number.
\<close>

theorem schedule_id_search_ends:
  "\<exists>k. allocate_schedule_id st = schedule_name k \<and> schedule_name k \<notin> set (sc_seen st)
    \<and> card (set (sc_seen st)) + 1 \<le> k \<and> k \<le> 2 * card (set (sc_seen st)) + 1
    \<and> (\<forall>j\<in>{card (set (sc_seen st)) + 1..<k}. schedule_name j \<in> set (sc_seen st))"
  using free_sequence_bounds [of "card (set (sc_seen st)) + 1" "sc_seen st"] free_sequence_free free_sequence_least
  unfolding allocate_schedule_id_def by (intro exI [of _ "free_sequence (sc_seen st) (card (set (sc_seen st)) + 1)"]) auto

theorem schedule_id_search_ends_witness:
  "\<exists>k. allocate_schedule_id two_reminders = schedule_name k \<and> 3 \<le> k \<and> k \<le> 5 \<and> schedule_name k \<notin> set (sc_seen two_reminders)"
proof -
  have "card (set (sc_seen two_reminders)) = 2" by (simp add: two_reminders_def)
  with schedule_id_search_ends [of two_reminders] show ?thesis by auto
qed

text \<open>
  Decoded changes are legal. Every change the strict decoder returns carries trimmed non-empty
  text, canonical instants and admissible intervals, and its written form decodes to it again.
\<close>

theorem decoded_changes_are_legal:
  assumes "decode_schedule_change j = Inr c"
  shows "legal_change c \<and> decode_schedule_change (schedule_change_json c) = Inr c"
  using decode_change_ok [OF assms] decode_schedule_change_json by blast

theorem decoded_changes_are_legal_witness:
  "legal_change (DispatchSchedule ''schedule-1'' (Some (iso_string 1700000300000)))"
proof -
  have "normalized_text ''schedule-1''" by code_simp
  then have "decode_schedule_change (schedule_change_json (DispatchSchedule ''schedule-1'' (Some (iso_string 1700000300000))))
      = Inr (DispatchSchedule ''schedule-1'' (Some (iso_string 1700000300000)))"
    by (intro decode_schedule_change_json) (simp add: sample_times)
  from decoded_changes_are_legal [OF this] show ?thesis by blast
qed

text \<open>
  Reminder identifiers are never reused. In every stream the fold accepts, the identifiers of
  the creations behind the fork seed are pairwise distinct, and the active reminders are keyed by
  distinct identifiers among them.
\<close>

theorem schedule_ids_are_unique:
  assumes "fold_schedule_events events k = Inr st"
  shows "sc_seen st = created_ids (drop k events) \<and> distinct (created_ids (drop k events))
    \<and> distinct (map sr_id (active_records st)) \<and> sr_id ` set (active_records st) \<subseteq> set (created_ids (drop k events))"
  using fold_schedule_ids [OF assms] .

theorem schedule_ids_are_unique_witness:
  "\<exists>s. read_folded s = Inr two_reminders \<and> created_ids (drop (seed_length_of s) (ses_log s)) = [''schedule-1'', ''schedule-2'']"
proof -
  obtain s1 s where folded: "read_folded s = Inr two_reminders"
    by (rule reminder_session [of no_zone "\<lambda>_. utc_formatter"])
  from schedule_ids_are_unique [OF this [unfolded read_folded_def]] folded show ?thesis
    by (auto simp: two_reminders_def)
qed

section \<open>The agent's driver\<close>



text \<open>
  C3. Every tool call of a step is answered, in model order. When the calls of an assistant message
  have been executed, whatever the tools, the pool and cancellation did, the events logged since
  contain one call event for each call, in the order of the message, and one result event for
  each, in the same order, citing the sequence number of its call.
\<close>

theorem calls_answered_in_order:
  assumes "within (InStep {}) turn step turn step h" "distinct (map fst calls)"
    and "execute_tool_calls env turn step calls h = (Returned concluded, h')"
  shows "\<exists>es ns. log_of h' = log_of h @ es \<and> length ns = length calls
    \<and> calls_of es = zip ns (map fst calls) \<and> results_of es = zip ns (map fst calls)"
proof -
  let ?G = "\<lparr>gb_base = log_of h, gb_calls = [], gb_results = [], gb_turn = turn, gb_step = step, gb_blocks = calls\<rparr>"
  have "base_distinct ?G" using assms(2) by (simp add: base_distinct_def)
  note run = triple_execute_calls [OF this, of env, simplified]
  have "booked ?G {} [] [] h" using assms(1,2) by (simp add: booked_def in_step_def traced_def ids_distinct_def)
  from tripleD [OF run this assms(3)] show ?thesis by (auto simp: replied_def booked_def traced_def)
qed

theorem calls_answered_in_order_witness:
  "\<exists>es ns. log_of (snd (execute_tool_calls driver_env 1 1 sample_calls (step_agent pool_script)))
      = log_of (step_agent pool_script) @ es \<and> length ns = 2
    \<and> calls_of es = zip ns [''a'', ''b''] \<and> results_of es = zip ns [''a'', ''b'']"
proof -
  let ?run = "execute_tool_calls driver_env 1 1 sample_calls (step_agent pool_script)"
  have "fst ?run = Returned False" by code_simp
  then have "?run = (Returned False, snd ?run)" by (metis prod.collapse)
  from calls_answered_in_order [OF step_agent_within [OF sample_scripts_ok(1)] _ this]
  show ?thesis by (simp add: sample_calls_def numeral_2_eq_2)
qed

text \<open>
  C10. The tool pool stays within its cap. At every point at which an agent can be observed, no more
  tool calls are in flight than the cap its current group read when it started.
\<close>

theorem pool_stays_within_cap:
  assumes "session_reach as_data s" "seed_fits s" "script_ok script"
    and "seed_session (ses_log s) = Inr tr" "tr_open_turn tr = None"
    and "new_agent s now cap steps script = Inr h"
  shows "length (tp_in_flight (ag_pool (snd (run_uses env us h)))) \<le> tp_cap (ag_pool (snd (run_uses env us h)))"
proof -
  have "is_idle_agent h" by (rule new_agent_idle [OF session_reach_ok [OF assms(1)] assms(2-6)])
  from run_uses_safe [OF this, of env us] show ?thesis
    by (auto simp: lawful_def agent_ok_def pool_bounded_def)
qed

theorem pool_stays_within_cap_witness:
  "length (tp_in_flight (ag_pool (snd (run_uses driver_env [UseSend sample_input NextTurn True] (fresh_agent busy_script))))) = 2
   \<and> length (tp_in_flight (ag_pool (snd (run_uses driver_env [UseSend sample_input NextTurn True] (fresh_agent busy_script)))))
     \<le> tp_cap (ag_pool (snd (run_uses driver_env [UseSend sample_input NextTurn True] (fresh_agent busy_script))))"
proof -
  have "length (tp_in_flight (ag_pool (snd (run_uses driver_env [UseSend sample_input NextTurn True] (fresh_agent busy_script))))) = 2"
    by code_simp
  with pool_stays_within_cap [OF reach_create [OF new_session_created] fresh_session_ok(2) sample_scripts_ok(3)
      fresh_session_trace fresh_agent_new]
  show ?thesis by blast
qed


text \<open>
  C8. A request is what its log describes. When the driver has composed a request, the header in
  force in the log is its configuration, system text and tools, and the last recorded request
  context names its route.
\<close>

theorem requests_match_their_log:
  assumes "agent_ok h" "build_request env tools system messages h = (Returned request, h')"
  shows "\<exists>header c. fold_request_header (log_of h') None = Some header
    \<and> request = \<lparr>mq_config = eh_config header, mq_messages = messages,
                  mq_system = eh_system header, mq_tools = eh_tools header\<rparr>
    \<and> foldl fold_context_step None (log_of h') = Some c
    \<and> rc_provider c = cc_provider (mq_config request) \<and> rc_model c = cc_model (mq_config request)"
  using tripleD [OF triple_request_described assms]
  by (auto simp: request_described_def request_of_def described_def in_force_def header_in_force_def context_in_force_def)

theorem requests_match_their_log_witness:
  "\<exists>header. fold_request_header (log_of (snd (build_request driver_env [] ''x'' [] (fresh_agent request_script)))) None = Some header
     \<and> eh_system header = Some ''x''"
proof -
  let ?run = "build_request driver_env [] ''x'' [] (fresh_agent request_script)"
  have ok: "agent_ok (fresh_agent request_script)"
    using fresh_agent_idle [OF sample_scripts_ok(4)] by (auto simp: is_idle_agent_def idle_at_def at_rest_def)
  have run: "fst ?run = Returned \<lparr>mq_config = sample_config, mq_messages = [], mq_system = Some ''x'', mq_tools = None\<rparr>"
    by code_simp
  then have "?run = (Returned \<lparr>mq_config = sample_config, mq_messages = [], mq_system = Some ''x'', mq_tools = None\<rparr>, snd ?run)"
    by (metis prod.collapse)
  from requests_match_their_log [OF ok this] show ?thesis by auto
qed

section \<open>The system prompt\<close>

text \<open>
  Prompt texts are scanned once. A text written as literals without an opening brace and
  references to defined variables renders to the literals and the values, in order; a value that
  itself looks like a reference is not interpolated again.
\<close>

theorem prompt_pieces_are_scanned_once:
  assumes "\<forall>p\<in>set ps. piece_ok vs p"
  shows "interpolate \<lparr>at_name = name, at_text = concat (map written_piece ps)\<rparr> vs = Inr (concat (map (piece_value vs) ps))"
  using assms by (simp add: interpolate_def interpolate_pieces)

theorem prompt_pieces_are_scanned_once_witness:
  "interpolate \<lparr>at_name = ''s'', at_text = ''a {{v}} b {{w}}''\<rparr> [(''v'', Some ''{{w}}''), (''w'', Some ''2'')] = Inr ''a {{w}} b 2''"
  using prompt_pieces_are_scanned_once
    [of "[Literal ''a '', Reference ''v'', Literal '' b '', Reference ''w'']" "[(''v'', Some ''{{w}}''), (''w'', Some ''2'')]" "''s''"]
  by (simp add: is_variable_name_def is_lower_def)

text \<open>
  Ordering keeps the tools. Under a validated order, or without one, the ordered tools are the
  provided tools, each exactly as often, and the unlisted ones appear in code-unit order.
\<close>

theorem tool_order_keeps_tools:
  assumes "validate_tool_order configured = Inr order" "order_tools tools order known = Inr ordered"
  shows "mset ordered = mset tools \<and> (order = None \<longrightarrow> tools_sorted ordered)"
proof -
  have "tools_sorted ordered" if "order = None"
    using assms(2) that by (auto simp: order_tools_def sort_tools_sorted split: if_splits)
  then show ?thesis using order_tools_keeps [OF assms] by blast
qed

theorem tool_order_keeps_tools_witness:
  "mset [sample_tool ''b'', sample_tool ''a'', sample_tool ''c''] = mset [sample_tool ''a'', sample_tool ''b'', sample_tool ''c'']"
proof -
  have "validate_tool_order (Some [''b'', TOOL_ORDER_REST]) = Inr (Some [''b'', TOOL_ORDER_REST])"
    by (simp add: validate_tool_order_def TOOL_ORDER_REST_def)
  moreover have "order_tools [sample_tool ''a'', sample_tool ''b'', sample_tool ''c''] (Some [''b'', TOOL_ORDER_REST]) [''a'', ''b'', ''c'']
      = Inr [sample_tool ''b'', sample_tool ''a'', sample_tool ''c'']"
    by (simp add: order_tools_def TOOL_ORDER_REST_def sort_tools_def sample_tool_def)
  ultimately show ?thesis using tool_order_keeps_tools by blast
qed

section \<open>Scopes and registries\<close>

text \<open>
  C17. Scope links form a forest. From the empty map, whatever links are bound and moved, every walk
  over the parents ends, the chain of a scope names every scope once, a link is refused exactly
  when its key is already on the chain of the new parent, and an event carrier admits a tagged
  listener exactly when the tag is on the chain of its key.
\<close>

theorem scope_walks_end:
  assumes "scopes_reach parents"
  shows "scope_chain parents cursor = Some (chain_of parents cursor) \<and> distinct (chain_of parents cursor)
    \<and> link_scope_parent key parent parents
        = Some (if key \<in> set (chain_of parents (Some parent)) then Inl LinkCycle else Inr (parents(key \<mapsto> parent)))
    \<and> carrier_admits parents True cursor (Some tag) = Some (tag \<in> set (chain_of parents cursor))"
  using scopes_reach_forest [OF assms]
  by (simp add: scope_chain_eq chain_of_distinct link_decides carrier_admits_iff)

theorem scope_walks_end_witness:
  "scope_chain sample_scopes (Some 1) = Some [1, 0]
   \<and> link_scope_parent 0 1 sample_scopes = Some (Inl LinkCycle)
   \<and> carrier_admits sample_scopes True (Some 1) (Some 0) = Some True"
proof -
  have chain: "chain_of sample_scopes (Some 1) = [1, 0]" by code_simp
  from scope_walks_end [OF sample_scopes_reach, of "Some 1" 0 1 0] show ?thesis by (simp del: One_nat_def add: chain)
qed

text \<open>
  C15. A layer is its live registrations. In every reachable tool registry the tools of a scope are
  the definitions registered there and not disposed, in the order of registration, under their own
  names, each name once, and none is the reserved transport's.
\<close>

theorem tools_are_live_registrations:
  assumes "registry_reach g"
  shows "tools_at g scope = map (\<lambda>d. (td_name d, d)) (live_tools g scope)
    \<and> distinct (map td_name (live_tools g scope)) \<and> RUN_CODE_NAME \<notin> td_name ` set (live_tools g scope)"
  using registry_tools_ok [OF assms] by (auto simp: tools_ok_def comp_def tools_at_live [OF assms]) metis

theorem tools_are_live_registrations_witness:
  "map td_name (live_tools echo_registry None) = [''echo'']
   \<and> map fst (tools_at echo_registry None) = map td_name (live_tools echo_registry None)"
proof -
  have "map td_name (live_tools echo_registry None) = [''echo'']" by code_simp
  with tools_are_live_registrations [OF echo_registry_reach, of None] show ?thesis by (simp add: comp_def)
qed

text \<open>
  C16. A restriction only takes away. After a scope is restricted, every scope looks up what it did
  before, except that a scope inside the restricted one no longer finds an inherited tool the
  restriction excludes; a scope's own tools and the transport are not touched.
\<close>

theorem restrictions_only_narrow:
  assumes "registry_reach g" "restrict_tools (Some k) f g = (Inr n, g')"
  shows "lookup_tool g' name scope =
    (if name \<noteq> RUN_CODE_NAME \<and> map_get (own_entries g scope) name = None
        \<and> k \<in> set (chain_of (tg_parents g) scope) \<and> \<not> restriction_admits f name
     then None else lookup_tool g name scope)"
  by (rule restriction_lookup [OF assms])

theorem restrictions_only_narrow_witness:
  "lookup_tool narrowed_registry ''echo'' (Some 1) = None
   \<and> lookup_tool narrowed_registry ''echo'' None = lookup_tool echo_registry ''echo'' None
   \<and> lookup_tool echo_registry ''echo'' None \<noteq> None"
proof -
  let ?run = "restrict_tools (Some 0) deny_echo echo_registry"
  have "fst ?run = Inr 1" by code_simp
  then have "?run = (Inr 1, narrowed_registry)" unfolding narrowed_registry_def by (metis prod.collapse)
  note narrow = restrictions_only_narrow [OF echo_registry_reach this]
  have "''echo'' \<noteq> RUN_CODE_NAME \<and> map_get (own_entries echo_registry (Some 1)) ''echo'' = None
      \<and> 0 \<in> set (chain_of (tg_parents echo_registry) (Some 1)) \<and> \<not> restriction_admits deny_echo ''echo''
      \<and> chain_of (tg_parents echo_registry) None = []"
    by code_simp
  moreover have "lookup_tool echo_registry ''echo'' None \<noteq> None" by code_simp
  ultimately show ?thesis using narrow [of "''echo''"] by simp
qed

section \<open>Tool outputs and executions\<close>

text \<open>
  C14. The schema subset is checked and enforced as it is meant. The stack-safe walk over a raw schema
  reports what a recursive check would, in the same order, and the stack-safe validator accepts a
  value exactly when the value conforms to the schema: exactly one branch of a union, the scalar
  constraints, the required and declared properties and no others in a closed object.
\<close>

theorem schemas_are_enforced:
  "check_schema_node schema path = schema_violations schema path
   \<and> check_value node v path = value_violations node v path
   \<and> (validate_json_schema_value node v path = [] \<longleftrightarrow> conforms node v)"
  by (simp only: check_schema_recursive check_value_recursive validation_decides)

text \<open>
  C11. A tool body runs only for an admitted call. When an execution invokes a body, policy let the
  call pass or the user allowed it once, no guard of the call's scopes denied it, the registry
  resolves the call's name to that very tool at that moment (so a call the presentation mode
  collapses never runs), and the caller had not cancelled.
\<close>

theorem bodies_run_only_when_allowed:
  assumes "execute_tool host token input = (final, st)" "BodyInvoked d t \<in> set (xs_trace st)"
  shows "\<exists>arguments s. gate_passed host (execution_of token input arguments) s \<and> s \<le> t
    \<and> resolve_execution (xh_registry host t) (ti_name input) (ti_agent input) (ti_parent input \<noteq> None) = Some d
    \<and> (\<forall>a. xh_abort_at host = Some a \<longrightarrow> t < a)"
  using executed [OF assms(1)] trace_bodies [OF _ assms(2)]
  by (fastforce simp: execution_of_def is_nested_def)

lemma body_event: "(case ev of BodyInvoked d t \<Rightarrow> P t | _ \<Rightarrow> False) \<Longrightarrow> \<exists>d t. ev = BodyInvoked d t \<and> P t"
  by (cases ev) simp_all

theorem bodies_run_only_when_allowed_witness:
  "\<exists>d arguments s. BodyInvoked d 2 \<in> set (xs_trace (snd (execute_tool (echo_host None) 0 echo_input)))
     \<and> gate_passed (echo_host None) (execution_of 0 echo_input arguments) s \<and> s \<le> 2"
proof -
  let ?trace = "xs_trace (snd (execute_tool (echo_host None) 0 echo_input))"
  have "list_ex (\<lambda>ev. case ev of BodyInvoked d t \<Rightarrow> t = 2 | _ \<Rightarrow> False) ?trace" by code_simp
  then obtain d where body: "BodyInvoked d 2 \<in> set ?trace"
    by (auto simp: list_ex_iff dest!: body_event)
  from bodies_run_only_when_allowed [OF surjective_pairing body] body show ?thesis by blast
qed

text \<open>
  C13. Every execution keeps the order of the pipeline. The package's invariant companion accepts the
  dispatches of every execution of a named call, whatever policy, wrappers, bodies and cancellation
  do, ends with no stage recorded, and the result is published once, as the last of them.
\<close>

theorem executions_keep_stages:
  assumes "execute_tool host token input = (final, st)" "ti_name input \<noteq> []" "ti_call_id input \<noteq> []"
  shows "\<exists>arguments before. fold_log (stage_step (execution_of token input arguments)) None (xs_trace st) = Inr None
    \<and> xs_trace st = before @ [ResultNotified final] \<and> (\<forall>r. ResultNotified r \<notin> set before)"
proof -
  obtain arguments where trace: "execution_trace host (execution_of token input arguments) final (xs_trace st)"
    using executed [OF assms(1)] by blast
  then have "fold_log (stage_step (execution_of token input arguments)) None (xs_trace st) = Inr None"
    using assms(2,3) by (intro trace_stages) (simp_all add: execution_of_def)
  with trace_notified [OF trace] show ?thesis by blast
qed

theorem executions_keep_stages_witness:
  "\<exists>before. xs_trace (snd (execute_tool (echo_host (Some 3)) 0 echo_input))
     = before @ [ResultNotified (fst (execute_tool (echo_host (Some 3)) 0 echo_input))]"
  using executions_keep_stages [OF surjective_pairing [of "execute_tool (echo_host (Some 3)) 0 echo_input"]]
  by (auto simp: echo_input_def)

text \<open>
  C12. A successful result is a declared value of an uncancelled call. When an execution succeeds, its
  caller had not cancelled when it ended, and its value is lossless and conforms to the output
  schema of the tool the registry resolved for the call.
\<close>

theorem successes_are_declared:
  assumes "execute_tool host token input = (final, st)" "tx_outcome final = Inr v"
  shows "\<not> caller_cancelled host st \<and> (\<exists>t d out.
      resolve_execution (xh_registry host t) (ti_name input) (ti_agent input) (ti_parent input \<noteq> None) = Some d
      \<and> td_output d = Some out \<and> json_wf v \<and> conforms (node_of_json (od_schema out)) v)"
  using executed [OF assms(1)] assms(2)
  by (auto simp: canonical_def declared_by_def result_failed_def execution_of_def is_nested_def)

theorem successes_are_declared_witness:
  "tx_outcome (fst (execute_tool (echo_host None) 0 echo_input)) = Inr (JStr ''hi'')
   \<and> \<not> caller_cancelled (echo_host None) (snd (execute_tool (echo_host None) 0 echo_input))"
proof -
  have "tx_outcome (fst (execute_tool (echo_host None) 0 echo_input)) = Inr (JStr ''hi'')" by code_simp
  with successes_are_declared [OF surjective_pairing this] show ?thesis by blast
qed

section \<open>Prompt assembly\<close>

text \<open>
  C18. An assembly shows the nearest sections and cannot be talked out of its complete one. The
  effective sections of a scope are, for each name, the registration nearest on the scope's chain,
  each name once, in ascending order; when one of them is complete it is the only section of the
  assembled prompt, and a suppressed runtime context is absent, whatever the listeners return.
\<close>

theorem assembled_prompts_are_enforced:
  assumes "prompt_reach g" "assemble_prompt listeners g context = Inr a" "ac_scope context = scope"
  shows "(s \<in> set (effective_sections g scope) \<longleftrightarrow> nearest_section g scope (ps_name s) = Some s)
    \<and> distinct (map ps_name (effective_sections g scope)) \<and> ascending ps_order (effective_sections g scope)
    \<and> (s \<in> set (effective_sections g scope) \<and> ps_complete s
        \<longrightarrow> (\<exists>t. text_in context (ps_text s) = Inr t \<and> pa_sections a = [\<lparr>at_name = ps_name s, at_text = t\<rparr>]))
    \<and> (context_suppressed g scope \<longrightarrow> pa_contexts a = [])"
  using effective_section_iff [OF prompt_reach_sound [OF assms(1)]] assembled_prompt [OF assms(2)]
    sort_stable_facts(3) [of ps_order] assms(3)
  by (auto simp: effective_sections_def)

theorem assembled_prompts_are_enforced_witness:
  "\<exists>a. assemble_prompt (\<lambda>p. Inr (p\<lparr>pa_sections := []\<rparr>)) sample_prompt_registry (sample_context (Some 1)) = Inr a
     \<and> pa_sections a = [\<lparr>at_name = PERSONA_SECTION, at_text = ''own''\<rparr>] \<and> pa_contexts a = []"
proof -
  let ?s = "(static_section PERSONA_SECTION (NInt (- 200)) ''own'')\<lparr>ps_complete := True\<rparr>"
  let ?run = "assemble_prompt (\<lambda>p. Inr (p\<lparr>pa_sections := []\<rparr>)) sample_prompt_registry (sample_context (Some 1))"
  have "is_ok ?run" by code_simp
  then obtain a where a: "?run = Inr a" by (auto simp: is_ok_iff)
  have "map ps_name (filter ps_complete (effective_sections sample_prompt_registry (Some 1))) = [PERSONA_SECTION]
      \<and> rmap (map at_text) (traverse (\<lambda>s. rmap (\<lambda>t. \<lparr>at_name = ps_name s, at_text = t\<rparr>) (text_in (sample_context (Some 1)) (ps_text s)))
          (filter ps_complete (effective_sections sample_prompt_registry (Some 1)))) = Inr [''own'']
      \<and> context_suppressed sample_prompt_registry (Some 1)"
    by code_simp
  then obtain s where s: "filter ps_complete (effective_sections sample_prompt_registry (Some 1)) = [s]"
    "ps_name s = PERSONA_SECTION" "text_in (sample_context (Some 1)) (ps_text s) = Inr ''own''"
    and off: "context_suppressed sample_prompt_registry (Some 1)"
    by (auto simp: map_eq_Cons_conv rbind_eq_Inr rmap_eq_Inr)
  have "s \<in> set (effective_sections sample_prompt_registry (Some 1)) \<and> ps_complete s"
    using s(1) by (auto simp: filter_eq_Cons_iff)
  with assembled_prompts_are_enforced [OF sample_prompt_reach a, of "Some 1" s] s off a show ?thesis
    by (auto simp: sample_context_def)
qed

section \<open>Output retention\<close>

text \<open>
  C19. Retained text is the text with its middle cut out. Whatever chunks the bytes of a text without
  byte-order marks arrive in, the retainer never holds more than its budgets; a text within the
  budgets comes back whole, and a longer one comes back as one of its prefixes followed by one of its
  suffixes, with the exact number of bytes between them, each side within its budget and less than
  one code point short of it.
\<close>

theorem retained_text_is_cut_at_code_points:
  assumes "new_text_retainer strategy = Inr r" "plain_text cs" "concat (map chunk_bytes chunks) = utf8_encode cs"
  shows "length (concat (xr_prefix (push_chunks chunks r))) \<le> xr_prefix_cap r
    \<and> length (concat (xr_suffix (push_chunks chunks r))) \<le> xr_suffix_cap r
    \<and> (if length (utf8_encode cs) \<le> xr_prefix_cap r + xr_suffix_cap r
       then finish_text (push_chunks chunks r) = \<lparr>rx_text = cs, rx_truncated = False, rx_omitted = NothingOmitted\<rparr>
       else \<exists>as ms bs. cs = as @ ms @ bs
         \<and> finish_text (push_chunks chunks r)
             = \<lparr>rx_text = as @ bs, rx_truncated = True, rx_omitted = ExactlyOmitted (length (utf8_encode ms))\<rparr>
         \<and> length (utf8_encode as) \<le> xr_prefix_cap r \<and> xr_prefix_cap r \<le> length (utf8_encode as) + 3
         \<and> length (utf8_encode bs) \<le> xr_suffix_cap r \<and> xr_suffix_cap r \<le> length (utf8_encode bs) + 3)"
  using pushed_retains [OF new_retains [OF assms(1)], of chunks] assms(2,3) by (simp add: retained_cases)

lemma sample_retained:
  "retained_of 2 3 (utf8_encode [0x61, 0xE9, 0x62, 0x63, 0x20AC, 0x64])
     = \<lparr>rx_text = [0x61, 0x64], rx_truncated = True, rx_omitted = ExactlyOmitted 7\<rparr>"
proof -
  have bytes: "utf8_encode [0x61, 0xE9, 0x62, 0x63, 0x20AC, 0x64] = [0x61, 0xC3, 0xA9, 0x62, 0x63, 0xE2, 0x82, 0xAC, 0x64]"
    by (simp add: encode_Cons encode_scalar_def continuation_def as_byte_def)
  have "trim_trailing_partial (take 2 [0x61, 0xC3, 0xA9, 0x62, 0x63, 0xE2, 0x82, 0xAC, 0x64]) = [0x61]"
    by (simp add: trim_trailing_partial_def is_continuation_unat expected_length_unat)
  moreover have "trim_leading_continuation (last_bytes 3 [0x61, 0xC3, 0xA9, 0x62, 0x63, 0xE2, 0x82, 0xAC, 0x64]) = [0x64]"
    by (simp add: last_bytes_def is_continuation_unat)
  moreover have "utf8_decode [0x61] = [0x61]" "utf8_decode [0x64] = [0x64]"
    by (simp_all add: utf8_decode_def decode_byte_def begin_byte_def start_sequence_def BYTE_ORDER_MARK_def)
  ultimately show ?thesis unfolding bytes by (simp add: retained_of_def)
qed

theorem retained_text_is_cut_at_code_points_witness:
  "finish_text (push_chunks [ByteChunk [0x61, 0xC3], ByteChunk [0xA9, 0x62, 0x63, 0xE2], ByteChunk [0x82, 0xAC, 0x64]]
      (text_retainer_with 2 3)) = \<lparr>rx_text = [0x61, 0x64], rx_truncated = True, rx_omitted = ExactlyOmitted 7\<rparr>
   \<and> (\<exists>as ms bs. [0x61, 0xE9, 0x62, 0x63, 0x20AC, 0x64] = as @ ms @ bs \<and> as @ bs = [0x61, 0x64]
        \<and> length (utf8_encode ms) = 7)"
proof -
  let ?cs = "[0x61, 0xE9, 0x62, 0x63, 0x20AC, 0x64] :: scalars" and ?r = "text_retainer_with 2 3"
  let ?chunks = "[ByteChunk [0x61, 0xC3], ByteChunk [0xA9, 0x62, 0x63, 0xE2], ByteChunk [0x82, 0xAC, 0x64]]"
  have "new_text_retainer (HeadTailBytes (NInt 2) (NInt 3)) = Inr ?r" by (simp add: new_text_retainer_def rbind_def rmap_def)
  moreover have "plain_text ?cs" by (simp add: plain_text_def is_scalar_def BYTE_ORDER_MARK_def)
  moreover have bytes: "concat (map chunk_bytes ?chunks) = utf8_encode ?cs"
    by (simp add: chunk_bytes_def encode_Cons encode_scalar_def continuation_def as_byte_def)
  note cut = retained_text_is_cut_at_code_points [OF calculation this]
  have "\<not> length (utf8_encode ?cs) \<le> xr_prefix_cap ?r + xr_suffix_cap ?r"
    by (simp add: encode_Cons encode_scalar_def text_retainer_with_def)
  with cut obtain as ms bs where parts: "?cs = as @ ms @ bs"
    "finish_text (push_chunks ?chunks ?r)
       = \<lparr>rx_text = as @ bs, rx_truncated = True, rx_omitted = ExactlyOmitted (length (utf8_encode ms))\<rparr>"
    by metis
  moreover have run: "finish_text (push_chunks ?chunks ?r) = \<lparr>rx_text = [0x61, 0x64], rx_truncated = True, rx_omitted = ExactlyOmitted 7\<rparr>"
    using finish_retained [OF pushed_retains [OF retains_new, of 2 3 ?chunks]] bytes sample_retained by simp
  ultimately have "as @ bs = [0x61, 0x64]" "length (utf8_encode ms) = 7" by simp_all
  with run parts(1) show ?thesis by blast
qed


section \<open>Token meter\<close>

text \<open>
  C20. The metered surface is the surface of the session. However often and whenever the meter was
  read or observed events before, a measurement covers the whole log, names exactly the nodes of
  the session's surface in order, gives each the estimate of its message, totals them, and is the
  one a meter that never read the session before would give.
\<close>

theorem metered_surface_is_the_surface:
  assumes "session_ok s" "meter_reach dec k (ses_log s) meter"
    and "snd (meter_measure dec k (ses_log s) header meter) = Inr m"
  shows "tk_revision m = length (ses_log s) \<and> map fst (tk_nodes m) = session_nodes s
    \<and> (\<forall>(n, tokens)\<in>set (tk_nodes m). tokens = event_tokens dec (ses_log s ! n))
    \<and> tk_surface m = int (sum_list (map snd (tk_nodes m)))
    \<and> snd (meter_measure dec k (ses_log s) header Map.empty) = Inr m"
  using measured_surface [OF assms] by simp

theorem metered_surface_is_the_surface_witness:
  "\<exists>m. snd (meter_measure no_decimals () (ses_log closed_session) None
        (fst (meter_measure no_decimals () (ses_log closed_session) None Map.empty))) = Inr m
     \<and> map fst (tk_nodes m) = [1, 3, 5] \<and> tk_surface m = int (sum_list (map snd (tk_nodes m)))"
proof -
  have "meter_reach no_decimals () ([] @ ses_log closed_session) Map.empty" by (intro reach_grown reach_unread) simp
  then have reach: "meter_reach no_decimals () (ses_log closed_session)
      (fst (meter_measure no_decimals () (ses_log closed_session) None Map.empty))"
    by (intro reach_measured) simp
  have "is_ok (snd (meter_measure no_decimals () (ses_log closed_session) None
      (fst (meter_measure no_decimals () (ses_log closed_session) None Map.empty))))" by code_simp
  then obtain m where m: "snd (meter_measure no_decimals () (ses_log closed_session) None
      (fst (meter_measure no_decimals () (ses_log closed_session) None Map.empty))) = Inr m"
    by (auto simp: is_ok_iff)
  have "session_nodes closed_session = [1, 3, 5]" by code_simp
  with metered_surface_is_the_surface [OF closed_session_ok reach m] m show ?thesis by simp
qed

text \<open>
  C21. The bounded projections follow the meter through compactions. When a compaction measures with
  the meter, a log in which every replacement is priced_nodes_of by the event before it stays such a log,
  however the compaction ends, and on such a log the totals of the context breakdown and of the
  context pressure, which keep no prices per node, are the surface total of the meter.
\<close>

theorem projections_follow_compaction:
  assumes "session_ok s" "summarizer_ok env" "summarizer_metered dec env" "measures_surface dec env"
    and "metered_log dec (ses_log s)" "compact_surface_region env opts s a b = (s', res)"
    and "sync_meter dec (ses_log s') fresh_replay = (ms, None)"
  shows "metered_log dec (ses_log s')
    \<and> (\<exists>bd px. fold_log (apply_breakdown dec) init_breakdown (ses_log s') = Inr bd
        \<and> fold_log (apply_pressure dec) init_pressure (ses_log s') = Inr px
        \<and> bd_messages bd = NInt (rs_surface_tokens ms) \<and> px_surface px = NInt (rs_surface_tokens ms))"
proof -
  have "session_ok s'" using compact_session_ok [OF assms(1,2,6)] .
  with compact_keeps_metered [OF assms(1-6)] projections_follow assms(7) show ?thesis by blast
qed

theorem projections_follow_compaction_witness:
  "let s' = fst (compact_surface_region metered_env sample_options closed_session 1 5) in
   session_nodes s' = [10]
   \<and> (\<exists>bd. fold_log (apply_breakdown no_decimals) init_breakdown (ses_log s') = Inr bd
        \<and> bd_messages bd = NInt (rs_surface_tokens (fst (sync_meter no_decimals (ses_log s') fresh_replay))))"
proof -
  let ?run = "compact_surface_region metered_env sample_options closed_session 1 5"
  have run: "?run = (fst ?run, snd ?run)" by simp
  have "snd (sync_meter no_decimals (ses_log (fst ?run)) fresh_replay) = None" by code_simp
  then have sync: "sync_meter no_decimals (ses_log (fst ?run)) fresh_replay
      = (fst (sync_meter no_decimals (ses_log (fst ?run)) fresh_replay), None)"
    by (metis prod.collapse)
  have "metered_log no_decimals (ses_log closed_session)" by code_simp
  from projections_follow_compaction [OF closed_session_ok metered_env_ok this run sync]
  have "\<exists>bd. fold_log (apply_breakdown no_decimals) init_breakdown (ses_log (fst ?run)) = Inr bd
      \<and> bd_messages bd = NInt (rs_surface_tokens (fst (sync_meter no_decimals (ses_log (fst ?run)) fresh_replay)))"
    by blast
  moreover have "session_nodes (fst ?run) = [10]" by code_simp
  ultimately show ?thesis unfolding Let_def by blast
qed

text \<open>
  C22. Usage counts every step once. In a log the turn invariant accepts, however often a step
  reports its usage, the totals are the sums over the reporting steps of the last report of each.
\<close>

theorem usage_counts_each_step_once:
  assumes "seed_session log = Inr tr" "whole_usage log"
  shows "usage_totals log = sum_usage log"
  using usage_follows [OF assms] by (simp add: usage_totals_def)

theorem usage_counts_each_step_once_witness:
  "usage_totals usage_log = sum_usage usage_log
   \<and> ub_input (usage_totals usage_log) = NInt 17 \<and> ub_output (usage_totals usage_log) = NInt 5"
proof -
  have "is_ok (seed_session usage_log)" by code_simp
  then obtain tr where "seed_session usage_log = Inr tr" by (auto simp: is_ok_iff)
  moreover have "whole_usage usage_log"
    by (simp add: whole_usage_def usage_samples_def usage_log_def plain_event_def usage_of_def whole_buckets_def buckets_from_def or_zero_def)
  ultimately have "usage_totals usage_log = sum_usage usage_log" by (rule usage_counts_each_step_once)
  moreover have "ub_input (usage_totals usage_log) = NInt 17" "ub_output (usage_totals usage_log) = NInt 5" by code_simp+
  ultimately show ?thesis by simp
qed


section \<open>Tool-result pruning\<close>



end
